(* ===== verification/Prelude.thy ===== *)
theory Prelude
  imports Main "HOL-Library.Word"
begin

text \<open>
  Shared vocabulary of the development: bytes and machine sizes, the outcome of running
  a piece of C++, views into user memory, and the byte encoding of a \<open>size_t\<close>.

  A call that returns normally is \<open>Done\<close>. \<open>Undef\<close> is a run that touches bytes outside the
  buffer it was given (or dereferences a null pointer), which C++ leaves undefined.
  \<open>Hung\<close> is a run that never returns.
\<close>

unbundle bit_operations_syntax

type_synonym byte = "8 word"
type_synonym bytes = "byte list"
type_synonym size_t = "64 word"
type_synonym mode_t = "32 word"

named_theorems outcome_simps "evaluation rules of the outcome combinators"
named_theorems view_simps "views into packed buffers"
named_theorems size_simps "sizes of buffers as machine words"

section \<open>Outcomes\<close>

datatype 'a outcome = Done 'a | Undef | Hung

fun obind :: "'a outcome \<Rightarrow> ('a \<Rightarrow> 'b outcome) \<Rightarrow> 'b outcome" where
  "obind (Done a) f = f a"
| "obind Undef f = Undef"
| "obind Hung f = Hung"

declare obind.simps [outcome_simps]

lemma obind_Done_iff: "obind m f = Done b \<longleftrightarrow> (\<exists>a. m = Done a \<and> f a = Done b)"
  by (cases m) auto

lemma obind_cong [fundef_cong]:
  "m = m' \<Longrightarrow> (\<And>a. m' = Done a \<Longrightarrow> f a = g a) \<Longrightarrow> obind m f = obind m' g"
  by (cases m') auto

lemma obind_assoc: "obind (obind m f) g = obind m (\<lambda>a. obind (f a) g)"
  by (cases m) simp_all

lemma obind_DoneE:
  assumes "obind m f = Done b"
  obtains a where "m = Done a" "f a = Done b"
  using assms by (cases m) auto

lemma find_distinct_key:
  "distinct (map f xs) \<Longrightarrow> e \<in> set xs \<Longrightarrow> List.find (\<lambda>x. f x = f e) xs = Some e"
  by (induction xs) (auto simp: rev_image_eqI)

lemma dropWhile_upward:
  "sorted_wrt R xs \<Longrightarrow> (\<And>x y. \<not> P x \<Longrightarrow> R x y \<Longrightarrow> \<not> P y)
    \<Longrightarrow> e \<in> set (dropWhile P xs) \<Longrightarrow> \<not> P e"
  by (induction xs) (auto split: if_splits)

lemma sorted_wrt_insert_mid:
  "sorted_wrt R (xs @ ys) \<Longrightarrow> (\<And>x. x \<in> set xs \<Longrightarrow> R x z) \<Longrightarrow> (\<And>y. y \<in> set ys \<Longrightarrow> R z y)
    \<Longrightarrow> sorted_wrt R (xs @ z # ys)"
  by (auto simp: sorted_wrt_append)

lemma distinct_insert_mid:
  "distinct (map f (xs @ ys)) \<Longrightarrow> (\<And>x. x \<in> set (xs @ ys) \<Longrightarrow> f x \<noteq> f z)
    \<Longrightarrow> distinct (map f (xs @ z # ys))"
  by (force simp: image_iff)

section \<open>Machine sizes\<close>

definition usize :: "'a list \<Rightarrow> size_t" where
  "usize xs = of_nat (length xs)"

text \<open>The bound is \<open>2 ^ 64\<close>, written as the numeral the simplifier normalises to.\<close>

abbreviation fits :: "'a list \<Rightarrow> bool" where
  "fits xs \<equiv> length xs < 18446744073709551616"

lemma unat_of_nat_size [size_simps]: "n < 2 ^ 64 \<Longrightarrow> unat (of_nat n :: size_t) = n"
  by (simp add: unat_of_nat)

lemma unat_size_less: "unat (w :: size_t) < 18446744073709551616"
  by (rule order_less_le_trans [OF unsigned_less]) simp

lemma unat_usize [size_simps]: "fits xs \<Longrightarrow> unat (usize xs) = length xs"
  by (simp add: usize_def unat_of_nat_size)

lemma unat_minus_one [size_simps]: "unat (- 1 :: size_t) = 2 ^ 64 - 1"
  by (simp add: unsigned_minus_1_eq_mask mask_eq_exp_minus_1)

text \<open>A counter below a bound gets closer to it: loops over \<open>uint64_t\<close> identifiers end.\<close>

lemma unat_plus_one: "(i :: size_t) < n \<Longrightarrow> unat (i + 1) = unat i + 1"
  using unat_size_less [of n] by (simp add: unat_word_ariths word_less_nat_alt)

lemma unat_step_less: "(i :: size_t) < n \<Longrightarrow> unat n - unat (i + 1) < unat n - unat i"
  by (simp add: unat_plus_one word_less_nat_alt)

lemma usize_Nil [simp]: "usize [] = 0"
  by (simp add: usize_def)

lemma usize_append: "usize (xs @ ys) = usize xs + usize ys"
  by (simp add: usize_def)

lemma unat_usize_le: "unat (usize xs) \<le> length xs"
  by (simp add: usize_def unat_of_nat)

lemma usize_le_iff:
  assumes "fits xs" "fits ys"
  shows "usize xs \<le> usize ys \<longleftrightarrow> length xs \<le> length ys"
  using assms by (simp add: word_le_nat_alt size_simps)

text \<open>\<open>std::accumulate(first, last, (size_t)0)\<close> adds with wrap-around, left to right.\<close>

definition accumulate :: "size_t list \<Rightarrow> size_t" where
  "accumulate xs = foldl (+) 0 xs"

lemma accumulate_sum_list: "accumulate xs = sum_list xs"
proof -
  have "foldl (+) a xs = a + sum_list xs" for a
    by (induction xs arbitrary: a) (auto simp: add.assoc)
  then show ?thesis by (simp add: accumulate_def)
qed

lemma accumulate_usize: "accumulate (map usize xss) = usize (concat xss)"
  by (induction xss) (auto simp: accumulate_sum_list usize_append)

lemma accumulate_unat:
  assumes "sum_list (map unat xs) < 2 ^ 64"
  shows "unat (accumulate xs) = sum_list (map unat xs)"
  using assms
proof (induction xs)
  case Nil
  then show ?case by (simp add: accumulate_def)
next
  case (Cons x xs)
  then have "unat (sum_list xs) = sum_list (map unat xs)"
    by (simp add: accumulate_sum_list)
  with Cons.prems show ?case
    by (simp add: accumulate_sum_list unat_word_ariths)
qed

section \<open>User memory\<close>

text \<open>
  \<open>UserMem\<close> (usermem.hpp) is a pointer and a number of bytes. The model keeps the address,
  which the key watcher compares, and the bytes themselves; its \<open>size\<close> field is
  \<open>usize (um_data m)\<close>.
\<close>

record umem =
  um_addr :: size_t
  um_data :: bytes

text \<open>The bytes \<open>[off, off+len)\<close> of a buffer; a view that leaves the buffer is \<open>Undef\<close>.\<close>

definition sub_bytes :: "bytes \<Rightarrow> size_t \<Rightarrow> size_t \<Rightarrow> bytes outcome" where
  "sub_bytes b off len =
     (if unat off + unat len \<le> length b
      then Done (take (unat len) (drop (unat off) b)) else Undef)"

text \<open>\<open>UserMem{ m.data + off, len }\<close>.\<close>

definition sub_umem :: "umem \<Rightarrow> size_t \<Rightarrow> size_t \<Rightarrow> umem outcome" where
  "sub_umem m off len =
     obind (sub_bytes (um_data m) off len)
       (\<lambda>d. Done \<lparr> um_addr = um_addr m + off, um_data = d \<rparr>)"

text \<open>\<open>memcpy(b + off, src, n)\<close> where \<open>src\<close> holds the \<open>n\<close> bytes.\<close>

definition memcpy_to :: "bytes \<Rightarrow> size_t \<Rightarrow> bytes \<Rightarrow> bytes outcome" where
  "memcpy_to b off src =
     (if unat off + length src \<le> length b
      then Done (take (unat off) b @ src @ drop (unat off + length src) b) else Undef)"

lemma sub_bytes_append [view_simps]:
  assumes "fits (pre @ x @ post)"
  shows "sub_bytes (pre @ x @ post) (usize pre) (usize x) = Done x"
  using assms by (simp add: sub_bytes_def size_simps)

lemma sub_umem_append [view_simps]:
  assumes "fits (pre @ x @ post)" and "um_data m = pre @ x @ post"
  shows "sub_umem m (usize pre) (usize x)
    = Done \<lparr> um_addr = um_addr m + usize pre, um_data = x \<rparr>"
  using assms by (simp add: sub_umem_def view_simps)

lemma memcpy_to_append [view_simps]:
  assumes "fits (pre @ old @ post)" "length src = length old"
  shows "memcpy_to (pre @ old @ post) (usize pre) src = Done (pre @ src @ post)"
  using assms by (simp add: memcpy_to_def size_simps)

lemma memcpy_to_length: "memcpy_to b off src = Done b' \<Longrightarrow> length b' = length b"
  by (auto simp: memcpy_to_def split: if_splits)

lemma memcpy_to_Nil [simp]: "unat off \<le> length b \<Longrightarrow> memcpy_to b off [] = Done b"
  by (simp add: memcpy_to_def)

text \<open>
  \<open>sizes\<close> cut the front of the buffer into the pieces \<open>xss\<close>: what a well-behaved caller
  passes as packed keys and key sizes.
\<close>

definition packs :: "bytes \<Rightarrow> bytes list \<Rightarrow> size_t list \<Rightarrow> bool" where
  "packs b xss sizes \<longleftrightarrow>
     sizes = map usize xss \<and> fits b \<and> take (length (concat xss)) b = concat xss"

lemma packsE:
  assumes "packs b xss sizes"
  obtains post where "sizes = map usize xss" "fits b" "b = concat xss @ post"
  using assms by (metis append_take_drop_id packs_def)

lemma packsI: "fits (concat xss @ post) \<Longrightarrow> packs (concat xss @ post) xss (map usize xss)"
  by (simp add: packs_def)

lemma packs_length: "packs b xss sizes \<Longrightarrow> length sizes = length xss"
  by (simp add: packs_def)

lemma packs_accumulate: "packs b xss sizes \<Longrightarrow> \<not> usize b < accumulate sizes"
  by (erule packsE) (auto simp: accumulate_usize not_less usize_le_iff)

lemma view_inside [view_simps]:
  assumes "fits (pre @ x @ post)"
  shows "\<not> usize (pre @ x @ post) < usize pre + usize x"
proof -
  have "usize (pre @ x) \<le> usize (pre @ x @ post)"
    using assms by (subst usize_le_iff) auto
  then show ?thesis by (simp add: usize_append not_less)
qed

text \<open>Sizes that add up to at most the buffer, as numbers, always cut it into pieces.\<close>

lemma packs_exists:
  assumes "sum_list (map unat sizes) \<le> length b" "fits b"
  shows "\<exists>xss. packs b xss sizes"
  using assms
proof (induction sizes arbitrary: b)
  case Nil
  then show ?case by (auto simp: packs_def)
next
  case (Cons n sizes)
  let ?x = "take (unat n) b"
  have "sum_list (map unat sizes) \<le> length (drop (unat n) b)" "fits (drop (unat n) b)"
    using Cons.prems by auto
  then obtain xss where xss: "packs (drop (unat n) b) xss sizes"
    using Cons.IH by blast
  have "usize ?x = n"
    using Cons.prems by (simp add: usize_def)
  moreover have "take (length ?x + length (concat xss)) b = ?x @ concat xss"
    using xss Cons.prems by (simp add: packs_def take_add)
  ultimately have "packs b (?x # xss) (n # sizes)"
    using xss Cons.prems by (simp add: packs_def)
  then show ?case by blast
qed

section \<open>Comparing memory\<close>

text \<open>
  \<open>memcmp(a, b, min(|a|, |b|))\<close>: the sign of the first difference, bytes compared as
  unsigned characters.
\<close>

fun mem_cmp :: "bytes \<Rightarrow> bytes \<Rightarrow> int" where
  "mem_cmp (x # xs) (y # ys) = (if x < y then -1 else if y < x then 1 else mem_cmp xs ys)"
| "mem_cmp _ _ = 0"

lemma mem_cmp_refl [simp]: "mem_cmp xs xs = 0"
  by (induction xs) auto

lemma mem_cmp_swap: "mem_cmp ys xs = - mem_cmp xs ys"
  by (induction xs ys rule: mem_cmp.induct) auto

lemma mem_cmp_eq_0_same_length:
  "length xs = length ys \<Longrightarrow> mem_cmp xs ys = 0 \<longleftrightarrow> xs = ys"
  by (induction xs ys rule: list_induct2) auto

lemma mem_cmp_eq_0_prefix:
  "length p \<le> length xs \<Longrightarrow> mem_cmp xs p = 0 \<longleftrightarrow> take (length p) xs = p"
proof (induction xs p rule: mem_cmp.induct)
  case (1 x xs y ys)
  then show ?case by auto
qed auto

section \<open>A size_t in a file\<close>

text \<open>
  \<open>ofs.write(reinterpret_cast<const char*>(&n), sizeof(n))\<close> writes the eight bytes of
  \<open>n\<close> in host order; the model fixes a little-endian host, on which the services run.
\<close>

fun enc_bytes :: "nat \<Rightarrow> size_t \<Rightarrow> bytes" where
  "enc_bytes 0 w = []"
| "enc_bytes (Suc n) w = ucast w # enc_bytes n (drop_bit 8 w)"

fun dec64 :: "bytes \<Rightarrow> size_t" where
  "dec64 [] = 0"
| "dec64 (b # bs) = ucast b OR push_bit 8 (dec64 bs)"

definition enc64 :: "size_t \<Rightarrow> bytes" where
  "enc64 w = enc_bytes 8 w"

lemma length_enc_bytes: "length (enc_bytes n w) = n"
  by (induction n arbitrary: w) auto

lemma length_enc64 [simp]: "length (enc64 w) = 8"
  by (simp add: enc64_def length_enc_bytes)

lemma byte_split:
  "(ucast (ucast w :: byte) :: size_t) OR push_bit 8 (take_bit n (drop_bit 8 w))
    = take_bit (8 + n) w"
  by (rule bit_word_eqI) (auto simp: bit_simps)

lemma dec64_enc_bytes: "dec64 (enc_bytes n w) = take_bit (8 * n) w"
  by (induction n arbitrary: w) (auto simp: byte_split)

lemma dec64_enc64 [simp]: "dec64 (enc64 w) = w"
  by (simp add: enc64_def dec64_enc_bytes) (rule bit_word_eqI, simp add: bit_simps)

end
