(* ===== verification/Backend.thy ===== *)
theory Backend
  imports Prelude
begin

text \<open>
  The vocabulary every component shares: return values, mode bits and size sentinels of
  common.h, the backend status and the bit field of backend.hpp, and the copy helpers of
  modes.hpp.
\<close>

section \<open>Return values and backend status\<close>

text \<open>\<open>yk_return_t\<close>: the enumerators in the order of \<open>YOKAN_RETURN_VALUES\<close>.\<close>

datatype yk_return_t =
  YOKAN_SUCCESS | YOKAN_ERR_ALLOCATION | YOKAN_ERR_INVALID_MID | YOKAN_ERR_INVALID_ARGS
| YOKAN_ERR_INVALID_PROVIDER | YOKAN_ERR_INVALID_DATABASE | YOKAN_ERR_INVALID_BACKEND
| YOKAN_ERR_INVALID_CONFIG | YOKAN_ERR_INVALID_ID | YOKAN_ERR_INVALID_FILTER
| YOKAN_ERR_FROM_MERCURY | YOKAN_ERR_FROM_ARGOBOTS | YOKAN_ERR_FROM_REMI
| YOKAN_ERR_OP_UNSUPPORTED | YOKAN_ERR_OP_FORBIDDEN | YOKAN_ERR_KEY_NOT_FOUND
| YOKAN_ERR_BUFFER_SIZE | YOKAN_ERR_KEY_EXISTS | YOKAN_ERR_CORRUPTION | YOKAN_ERR_IO
| YOKAN_ERR_INCOMPLETE | YOKAN_ERR_TIMEOUT | YOKAN_ERR_ABORTED | YOKAN_ERR_BUSY
| YOKAN_ERR_EXPIRED | YOKAN_ERR_TRY_AGAIN | YOKAN_ERR_SYSTEM | YOKAN_ERR_CANCELED
| YOKAN_ERR_PERMISSION | YOKAN_ERR_MODE | YOKAN_ERR_NONCONTIG | YOKAN_ERR_READONLY
| YOKAN_ERR_MIGRATED | YOKAN_ERR_MID_NOT_LISTENING | YOKAN_STOP_ITERATION
| YOKAN_ERR_OTHER

datatype status =
  OK | InvalidType | InvalidConf | InvalidArg | InvalidID | NotFound | SizeError
| KeyExists | NotSupported | Corruption | IOError | Incomplete | TimedOut | Aborted
| Busy | Expired | TryAgain | System | Canceled | Permission | InvalidMode | Migrated
| StopIteration | Other
| Unlisted yk_return_t

text \<open>
  A return value that is cast to \<open>Status\<close> need not be an enumerator: \<open>Unlisted\<close>. The enumerators of \<open>Status\<close> carry the values of \<open>yk_return_t\<close>.
\<close>

fun status_ret :: "status \<Rightarrow> yk_return_t" where
  "status_ret OK = YOKAN_SUCCESS"
| "status_ret InvalidType = YOKAN_ERR_INVALID_BACKEND"
| "status_ret InvalidConf = YOKAN_ERR_INVALID_CONFIG"
| "status_ret InvalidArg = YOKAN_ERR_INVALID_ARGS"
| "status_ret InvalidID = YOKAN_ERR_INVALID_ID"
| "status_ret NotFound = YOKAN_ERR_KEY_NOT_FOUND"
| "status_ret SizeError = YOKAN_ERR_BUFFER_SIZE"
| "status_ret KeyExists = YOKAN_ERR_KEY_EXISTS"
| "status_ret NotSupported = YOKAN_ERR_OP_UNSUPPORTED"
| "status_ret Corruption = YOKAN_ERR_CORRUPTION"
| "status_ret IOError = YOKAN_ERR_IO"
| "status_ret Incomplete = YOKAN_ERR_INCOMPLETE"
| "status_ret TimedOut = YOKAN_ERR_TIMEOUT"
| "status_ret Aborted = YOKAN_ERR_ABORTED"
| "status_ret Busy = YOKAN_ERR_BUSY"
| "status_ret Expired = YOKAN_ERR_EXPIRED"
| "status_ret TryAgain = YOKAN_ERR_TRY_AGAIN"
| "status_ret System = YOKAN_ERR_SYSTEM"
| "status_ret Canceled = YOKAN_ERR_CANCELED"
| "status_ret Permission = YOKAN_ERR_PERMISSION"
| "status_ret InvalidMode = YOKAN_ERR_MODE"
| "status_ret Migrated = YOKAN_ERR_MIGRATED"
| "status_ret StopIteration = YOKAN_STOP_ITERATION"
| "status_ret Other = YOKAN_ERR_OTHER"
| "status_ret (Unlisted r) = r"

section \<open>Size sentinels\<close>

text \<open>\<open>ULLONG_MAX\<close> and the three values below it are not sizes.\<close>

definition YOKAN_KEY_NOT_FOUND :: size_t where "YOKAN_KEY_NOT_FOUND = - 1"
definition YOKAN_SIZE_TOO_SMALL :: size_t where "YOKAN_SIZE_TOO_SMALL = - 2"
definition YOKAN_NO_MORE_KEYS :: size_t where "YOKAN_NO_MORE_KEYS = - 3"
definition YOKAN_NO_MORE_DOCS :: size_t where "YOKAN_NO_MORE_DOCS = - 3"
definition YOKAN_LAST_VALID_SIZE :: size_t where "YOKAN_LAST_VALID_SIZE = - 4"

lemmas sentinel_defs = YOKAN_KEY_NOT_FOUND_def YOKAN_SIZE_TOO_SMALL_def
  YOKAN_NO_MORE_KEYS_def YOKAN_NO_MORE_DOCS_def YOKAN_LAST_VALID_SIZE_def

text \<open>A buffer of at most \<open>YOKAN_LAST_VALID_SIZE\<close> bytes: its size is no sentinel.\<close>

definition sized :: "bytes \<Rightarrow> bool" where
  "sized b \<longleftrightarrow> length b < 18446744073709551613"

lemma sized_fits [size_simps]: "sized b \<Longrightarrow> fits b"
  by (simp add: sized_def)

lemma sized_usize:
  assumes "sized b"
  shows "usize b \<noteq> YOKAN_KEY_NOT_FOUND" "usize b \<noteq> YOKAN_SIZE_TOO_SMALL"
    "usize b \<noteq> YOKAN_NO_MORE_KEYS"
proof -
  have "unat (usize b) < 2 ^ 64 - 3"
    using assms by (simp add: sized_def unat_usize)
  moreover have "unat YOKAN_KEY_NOT_FOUND = 2 ^ 64 - 1" "unat YOKAN_SIZE_TOO_SMALL = 2 ^ 64 - 2"
    "unat YOKAN_NO_MORE_KEYS = 2 ^ 64 - 3"
    by (simp_all add: sentinel_defs unat_minus_one)
  ultimately show "usize b \<noteq> YOKAN_KEY_NOT_FOUND" "usize b \<noteq> YOKAN_SIZE_TOO_SMALL"
    "usize b \<noteq> YOKAN_NO_MORE_KEYS"
    by auto
qed

section \<open>Modes\<close>

definition YOKAN_MODE_DEFAULT :: mode_t where "YOKAN_MODE_DEFAULT = 0"
definition YOKAN_MODE_INCLUSIVE :: mode_t where "YOKAN_MODE_INCLUSIVE = 0b0000000000000001"
definition YOKAN_MODE_APPEND :: mode_t where "YOKAN_MODE_APPEND = 0b0000000000000010"
definition YOKAN_MODE_CONSUME :: mode_t where "YOKAN_MODE_CONSUME = 0b0000000000000100"
definition YOKAN_MODE_WAIT :: mode_t where "YOKAN_MODE_WAIT = 0b0000000000001000"
definition YOKAN_MODE_NOTIFY :: mode_t where "YOKAN_MODE_NOTIFY = 0b0000000000001000"
definition YOKAN_MODE_NEW_ONLY :: mode_t where "YOKAN_MODE_NEW_ONLY = 0b0000000000010000"
definition YOKAN_MODE_EXIST_ONLY :: mode_t where "YOKAN_MODE_EXIST_ONLY = 0b0000000000100000"
definition YOKAN_MODE_NO_PREFIX :: mode_t where "YOKAN_MODE_NO_PREFIX = 0b0000000001000000"
definition YOKAN_MODE_IGNORE_KEYS :: mode_t where "YOKAN_MODE_IGNORE_KEYS = 0b0000000010000000"
definition YOKAN_MODE_KEEP_LAST :: mode_t where "YOKAN_MODE_KEEP_LAST = 0b0000000110000000"
definition YOKAN_MODE_SUFFIX :: mode_t where "YOKAN_MODE_SUFFIX = 0b0000001000000000"
definition YOKAN_MODE_LUA_FILTER :: mode_t where "YOKAN_MODE_LUA_FILTER = 0b0000010000000000"
definition YOKAN_MODE_IGNORE_DOCS :: mode_t where "YOKAN_MODE_IGNORE_DOCS = 0b0000100000000000"
definition YOKAN_MODE_FILTER_VALUE :: mode_t where "YOKAN_MODE_FILTER_VALUE = 0b0001000000000000"
definition YOKAN_MODE_LIB_FILTER :: mode_t where "YOKAN_MODE_LIB_FILTER = 0b0010000000000000"
definition YOKAN_MODE_NO_RDMA :: mode_t where "YOKAN_MODE_NO_RDMA = 0b0100000000000000"
definition YOKAN_MODE_UPDATE_NEW :: mode_t where "YOKAN_MODE_UPDATE_NEW = 0b1000000000000000"

lemmas mode_defs = YOKAN_MODE_DEFAULT_def YOKAN_MODE_INCLUSIVE_def YOKAN_MODE_APPEND_def
  YOKAN_MODE_CONSUME_def YOKAN_MODE_WAIT_def YOKAN_MODE_NOTIFY_def YOKAN_MODE_NEW_ONLY_def
  YOKAN_MODE_EXIST_ONLY_def YOKAN_MODE_NO_PREFIX_def YOKAN_MODE_IGNORE_KEYS_def
  YOKAN_MODE_KEEP_LAST_def YOKAN_MODE_SUFFIX_def YOKAN_MODE_LUA_FILTER_def
  YOKAN_MODE_IGNORE_DOCS_def YOKAN_MODE_FILTER_VALUE_def YOKAN_MODE_LIB_FILTER_def
  YOKAN_MODE_NO_RDMA_def YOKAN_MODE_UPDATE_NEW_def

text \<open>\<open>if(mode & flag)\<close>.\<close>

definition has_mode :: "mode_t \<Rightarrow> mode_t \<Rightarrow> bool" where
  "has_mode mode flag \<longleftrightarrow> mode AND flag \<noteq> 0"

text \<open>\<open>mode == (mode & mask)\<close>: every bit of the mode is in the mask.\<close>

definition within_mask :: "mode_t \<Rightarrow> mode_t \<Rightarrow> bool" where
  "within_mask mode supported \<longleftrightarrow> mode = mode AND supported"

lemma within_mask_has_mode:
  "within_mask mode supported \<Longrightarrow> supported AND flag = 0 \<Longrightarrow> \<not> has_mode mode flag"
  unfolding has_mode_def within_mask_def by (metis and.assoc and_zero_eq)

section \<open>Bit fields\<close>

record bitfield =
  bf_data :: bytes
  bf_size :: size_t

text \<open>\<open>1 << (index % 8)\<close> as a \<open>uint8_t\<close>.\<close>

definition bf_mask :: "nat \<Rightarrow> byte" where
  "bf_mask i = push_bit (i mod 8) 1"

text \<open>\<open>operator bool\<close> of the accessor at \<open>index\<close>.\<close>

definition bf_get :: "bitfield \<Rightarrow> nat \<Rightarrow> bool outcome" where
  "bf_get bf i =
     (if i div 8 < length (bf_data bf)
      then Done (bf_data bf ! (i div 8) AND bf_mask i \<noteq> 0) else Undef)"

text \<open>\<open>operator=(bool)\<close> of the accessor at \<open>index\<close>.\<close>

definition bf_set :: "bitfield \<Rightarrow> nat \<Rightarrow> bool \<Rightarrow> bitfield outcome" where
  "bf_set bf i b =
     (if i div 8 < length (bf_data bf)
      then Done (bf\<lparr>bf_data := (bf_data bf)[i div 8 :=
        (if b then bf_data bf ! (i div 8) OR bf_mask i
         else bf_data bf ! (i div 8) AND NOT (bf_mask i))]\<rparr>)
      else Undef)"

text \<open>The buffer is large enough for the number of bits it announces.\<close>

definition bf_ok :: "bitfield \<Rightarrow> bool" where
  "bf_ok bf \<longleftrightarrow> unat (bf_size bf) \<le> 8 * length (bf_data bf)"

lemma bit_bf_mask: "bit (bf_mask i) n \<longleftrightarrow> n = i mod 8"
  by (auto simp: bf_mask_def bit_simps less_imp_le)

lemma and_bf_mask: "(x::byte) AND bf_mask i \<noteq> 0 \<longleftrightarrow> bit x (i mod 8)"
proof -
  have "x AND bf_mask i = (if bit x (i mod 8) then bf_mask i else 0)"
    by (rule bit_word_eqI) (auto simp: bit_simps bit_bf_mask)
  moreover have "bf_mask i \<noteq> 0"
    using bit_bf_mask [of i "i mod 8"] by auto
  ultimately show ?thesis by simp
qed

lemma bf_set_Done:
  assumes "bf_ok bf" "i < unat (bf_size bf)"
  obtains bf' where "bf_set bf i b = Done bf'" "bf_ok bf'" "bf_size bf' = bf_size bf"
    "\<And>j. bf_get bf' j = (if j = i then Done b else bf_get bf j)"
proof -
  have lt: "i div 8 < length (bf_data bf)"
    using assms by (simp add: bf_ok_def)
  have same: "j = i \<longleftrightarrow> j div 8 = i div 8 \<and> j mod 8 = i mod 8" for j
    by (metis div_mult_mod_eq)
  show thesis
    using assms lt
    by (intro that [of "the_elem {x. bf_set bf i b = Done x}"])
      (auto simp: bf_set_def bf_get_def bf_ok_def and_bf_mask nth_list_update bit_simps
        bit_bf_mask same)
qed

lemma bf_get_Done: "bf_ok bf \<Longrightarrow> i < unat (bf_size bf) \<Longrightarrow> \<exists>b. bf_get bf i = Done b"
  by (auto simp: bf_get_def bf_ok_def)

section \<open>Copying values\<close>

text \<open>
  \<open>valCopy\<close> of modes.hpp: copies the value behind \<open>dst + off\<close> and returns its size, or
  returns the sentinel when the destination offers less room. The mode is ignored.
\<close>

definition valCopy :: "mode_t \<Rightarrow> bytes \<Rightarrow> size_t \<Rightarrow> size_t \<Rightarrow> bytes \<Rightarrow> (size_t \<times> bytes) outcome" where
  "valCopy mode dst off max_dst_size val =
     (if max_dst_size < usize val then Done (YOKAN_SIZE_TOO_SMALL, dst)
      else obind (memcpy_to dst off val) (\<lambda>dst'. Done (usize val, dst')))"

lemma valCopy_fit:
  assumes "fits (pre @ old @ post)" "length val = length old" "usize val \<le> room"
  shows "valCopy mode (pre @ old @ post) (usize pre) room val = Done (usize val, pre @ val @ post)"
  using assms by (auto simp: valCopy_def view_simps)

lemma valCopy_too_small:
  "room < usize val \<Longrightarrow> valCopy mode dst off room val = Done (YOKAN_SIZE_TOO_SMALL, dst)"
  by (simp add: valCopy_def)

section \<open>Callbacks\<close>

text \<open>
  \<open>FetchCallback\<close> and \<open>IterCallback\<close> return a status. Calling one on a sequence of items stops at
  the first status that is not OK.
\<close>

fun run_calls :: "('k \<Rightarrow> 'v \<Rightarrow> 'st \<Rightarrow> status \<times> 'st) \<Rightarrow> ('k \<times> 'v) list \<Rightarrow> 'st \<Rightarrow> status \<times> 'st" where
  "run_calls func [] st = (OK, st)"
| "run_calls func ((k, v) # calls) st =
     (case func k v st of (status, st') \<Rightarrow>
        if status \<noteq> OK then (status, st') else run_calls func calls st')"

end
