(* ===== verification/Comparator.thy ===== *)
theory Comparator
  imports Prelude
begin

text \<open>
  Key order: the default comparator of the sorted backends (\<open>DefaultMemCmp\<close> in map.cpp and
  set.cpp), the contract a comparator loaded through the configuration must meet, and the
  instantiation of the contract by the default one.
\<close>

definition DefaultMemCmp :: "bytes \<Rightarrow> bytes \<Rightarrow> bool" where
  "DefaultMemCmp lhs rhs =
     (let r = mem_cmp lhs rhs in
      if r < 0 then True
      else if r > 0 then False
      else if length lhs < length rhs then True
      else False)"

section \<open>The contract of a comparator\<close>

text \<open>
  \<open>std::map\<close> and \<open>std::set\<close> require a strict weak order. Keys that neither precede the
  other are equivalent for the container.
\<close>

locale weak_comparator =
  fixes lt :: "bytes \<Rightarrow> bytes \<Rightarrow> bool"
  assumes lt_irrefl: "\<not> lt a a"
    and lt_trans: "lt a b \<Longrightarrow> lt b c \<Longrightarrow> lt a c"
    and lt_cotrans: "lt a c \<Longrightarrow> lt a b \<or> lt b c"
begin

lemma lt_asym: "lt a b \<Longrightarrow> \<not> lt b a"
  using lt_irrefl lt_trans by blast

lemma sorted_tail_above:
  "sorted_wrt lt (k # ks) \<Longrightarrow> \<not> lt k a \<Longrightarrow> x \<in> set ks \<Longrightarrow> \<not> lt x a"
  using lt_trans by auto

lemma dropWhile_sorted:
  "sorted_wrt lt ks \<Longrightarrow> x \<in> set (dropWhile (\<lambda>k. lt k a) ks) \<Longrightarrow> \<not> lt x a"
proof (induction ks)
  case Nil
  then show ?case by simp
next
  case (Cons k ks)
  show ?case
  proof (cases "lt k a")
    case True
    with Cons show ?thesis by simp
  next
    case False
    with Cons.prems lt_trans show ?thesis by auto
  qed
qed

end

text \<open>A comparator that tells any two different keys apart.\<close>

locale total_comparator = weak_comparator +
  assumes lt_total: "lt a b \<or> a = b \<or> lt b a"
begin

lemma not_lt_iff: "\<not> lt a b \<longleftrightarrow> a = b \<or> lt b a"
  using lt_total lt_asym lt_irrefl by blast

lemma sorted_distinct: "sorted_wrt lt ks \<Longrightarrow> distinct ks"
  by (induction ks) (auto simp: lt_irrefl)

lemma dropWhile_lt_filter:
  "sorted_wrt lt ks \<Longrightarrow> dropWhile (\<lambda>k. lt k a) ks = filter (\<lambda>k. \<not> lt k a) ks"
proof (induction ks)
  case Nil
  then show ?case by simp
next
  case (Cons k ks)
  show ?case
  proof (cases "lt k a")
    case True
    with Cons show ?thesis by simp
  next
    case False
    with Cons.prems have "\<forall>x \<in> set ks. \<not> lt x a"
      using lt_trans by auto
    with False show ?thesis by (simp add: filter_id_conv)
  qed
qed

end

section \<open>The default comparator\<close>

text \<open>It is the lexicographic order of the byte strings.\<close>

lemma DefaultMemCmp_simps [simp]:
  "DefaultMemCmp [] ys \<longleftrightarrow> ys \<noteq> []"
  "\<not> DefaultMemCmp xs []"
  "DefaultMemCmp (x # xs) (y # ys) \<longleftrightarrow> x < y \<or> x = y \<and> DefaultMemCmp xs ys"
  by (auto simp: DefaultMemCmp_def Let_def)

lemma DefaultMemCmp_irrefl: "\<not> DefaultMemCmp a a"
  by (induction a) auto

lemma DefaultMemCmp_trans: "DefaultMemCmp a b \<Longrightarrow> DefaultMemCmp b c \<Longrightarrow> DefaultMemCmp a c"
proof (induction a arbitrary: b c)
  case Nil
  then show ?case by (cases c) auto
next
  case (Cons x xs)
  then show ?case by (cases b; cases c) (auto dest: less_trans)
qed

lemma DefaultMemCmp_total: "DefaultMemCmp a b \<or> a = b \<or> DefaultMemCmp b a"
proof (induction a arbitrary: b)
  case Nil
  then show ?case by (cases b) auto
next
  case (Cons x xs)
  then show ?case by (cases b) (auto simp: neq_iff)
qed

interpretation memcmp_order: total_comparator DefaultMemCmp
proof
  show "DefaultMemCmp a c \<Longrightarrow> DefaultMemCmp a b \<or> DefaultMemCmp b c" for a b c
    using DefaultMemCmp_total DefaultMemCmp_trans by blast
qed (use DefaultMemCmp_irrefl DefaultMemCmp_trans DefaultMemCmp_total in blast)+

text \<open>A common prefix does not change the order.\<close>

lemma DefaultMemCmp_append_same [simp]:
  "DefaultMemCmp (p @ a) (p @ b) \<longleftrightarrow> DefaultMemCmp a b"
  by (induction p) auto

text \<open>Once a key is above a prefix in \<open>memcmp\<close>, every later key is.\<close>

lemma mem_cmp_above_mono:
  "0 < mem_cmp a p \<Longrightarrow> DefaultMemCmp a b \<Longrightarrow> 0 < mem_cmp b p"
proof (induction a p arbitrary: b rule: mem_cmp.induct)
  case (1 x xs y ys)
  then show ?case by (cases b) (auto split: if_splits)
qed auto

end
