(* ===== verification/Watcher.thy ===== *)
theory Watcher
  imports Backend Comparator
begin

text \<open>
  The key watcher (watcher.hpp): threads that wait for a key to appear, and writers that
  notify them. \<open>m_expected_keys\<close> is a multimap ordered by key content; its nodes are given
  an identity, which is what an iterator held across \<open>ABT_cond_wait\<close> denotes.
\<close>

datatype wstatus = Pending | KeyPresent | Timeout | LogicError

record wentry =
  w_node :: nat
  w_addr :: size_t
  w_key :: bytes
  w_status :: wstatus

record watcher =
  w_entries :: "wentry list"
  w_fresh :: nat

definition watcher_init :: watcher where
  "watcher_init = \<lparr> w_entries = [], w_fresh = 0 \<rparr>"

section \<open>Operations\<close>

text \<open>\<open>emplace\<close> puts a new node after the nodes with an equivalent key.\<close>

definition addKey :: "umem \<Rightarrow> watcher \<Rightarrow> watcher" where
  "addKey key w =
     (let below = takeWhile (\<lambda>e. \<not> DefaultMemCmp (um_data key) (w_key e)) (w_entries w);
          above = dropWhile (\<lambda>e. \<not> DefaultMemCmp (um_data key) (w_key e)) (w_entries w)
      in \<lparr> w_entries = below
             @ \<lparr> w_node = w_fresh w, w_addr = um_addr key, w_key = um_data key,
                 w_status = Pending \<rparr> # above,
           w_fresh = Suc (w_fresh w) \<rparr>)"

definition notifyKey :: "umem \<Rightarrow> watcher \<Rightarrow> watcher" where
  "notifyKey key w =
     (if w_entries w = [] then w
      else w\<lparr> w_entries := map (\<lambda>e. if w_key e = um_data key
                then e\<lparr> w_status := KeyPresent \<rparr> else e) (w_entries w) \<rparr>)"

text \<open>
  The first half of \<open>waitKey\<close>: \<open>equal_range\<close>, then the search for the caller's own node.
  The search loop has no increment: it leaves only when the range is empty or its first
  node is the caller's.
\<close>

datatype wsel = SelSpin | SelEnd | SelNode nat

definition wait_select :: "umem \<Rightarrow> watcher \<Rightarrow> wsel" where
  "wait_select key w =
     (let first = dropWhile (\<lambda>e. DefaultMemCmp (w_key e) (um_data key)) (w_entries w)
      in case first of
           [] \<Rightarrow> SelEnd
         | e # _ \<Rightarrow>
             if DefaultMemCmp (um_data key) (w_key e) then SelNode (w_node e)
             else if w_addr e = um_addr key then SelNode (w_node e)
             else SelSpin)"

text \<open>The status of the node the iterator points to; \<open>None\<close> when the node was erased.\<close>

definition node_status :: "nat \<Rightarrow> watcher \<Rightarrow> wstatus option" where
  "node_status n w = map_option w_status (List.find (\<lambda>e. w_node e = n) (w_entries w))"

definition erase_node :: "nat \<Rightarrow> watcher \<Rightarrow> watcher" where
  "erase_node n w = w\<lparr> w_entries := filter (\<lambda>e. w_node e \<noteq> n) (w_entries w) \<rparr>"

text \<open>\<open>~KeyWatcher\<close> first times every waiter out.\<close>

definition timeout_all :: "watcher \<Rightarrow> watcher" where
  "timeout_all w = w\<lparr> w_entries := map (\<lambda>e. e\<lparr> w_status := Timeout \<rparr>) (w_entries w) \<rparr>"

section \<open>Invariant\<close>

definition watcher_ok :: "watcher \<Rightarrow> bool" where
  "watcher_ok w \<longleftrightarrow>
     sorted_wrt (\<lambda>a b. \<not> DefaultMemCmp (w_key b) (w_key a)) (w_entries w)
   \<and> distinct (map w_node (w_entries w))
   \<and> (\<forall>e \<in> set (w_entries w). w_node e < w_fresh w)"

lemma watcher_ok_init: "watcher_ok watcher_init"
  by (simp add: watcher_ok_def watcher_init_def)

lemma set_addKey:
  "set (w_entries (addKey key w)) = insert \<lparr> w_node = w_fresh w, w_addr = um_addr key,
     w_key = um_data key, w_status = Pending \<rparr> (set (w_entries w))"
proof -
  have "set (w_entries w) = set (takeWhile P (w_entries w)) \<union> set (dropWhile P (w_entries w))"
    for P by (metis set_append takeWhile_dropWhile_id)
  then show ?thesis by (auto simp: addKey_def Let_def)
qed

lemma watcher_ok_notifyKey: "watcher_ok w \<Longrightarrow> watcher_ok (notifyKey key w)"
  by (auto simp: watcher_ok_def notifyKey_def sorted_wrt_map comp_def if_distrib
      cong: if_cong)

lemma watcher_ok_timeout_all: "watcher_ok w \<Longrightarrow> watcher_ok (timeout_all w)"
  by (auto simp: watcher_ok_def timeout_all_def sorted_wrt_map comp_def)

lemma watcher_ok_erase_node: "watcher_ok w \<Longrightarrow> watcher_ok (erase_node n w)"
  by (auto simp: watcher_ok_def erase_node_def sorted_wrt_filter distinct_map_filter)

lemma key_le_trans:
  "\<not> DefaultMemCmp b a \<Longrightarrow> \<not> DefaultMemCmp c b \<Longrightarrow> \<not> DefaultMemCmp c a"
  by (metis memcmp_order.not_lt_iff memcmp_order.lt_trans)

lemma watcher_ok_addKey:
  assumes "watcher_ok w"
  shows "watcher_ok (addKey key w)"
proof -
  let ?le = "\<lambda>a b. \<not> DefaultMemCmp (w_key b) (w_key a)"
  let ?P = "\<lambda>e. \<not> DefaultMemCmp (um_data key) (w_key e)"
  let ?b = "takeWhile ?P (w_entries w)" and ?a = "dropWhile ?P (w_entries w)"
  have split: "w_entries w = ?b @ ?a" by simp
  have srt: "sorted_wrt ?le (?b @ ?a)"
    using assms split by (simp add: watcher_ok_def)
  have above: "DefaultMemCmp (um_data key) (w_key e)" if "e \<in> set ?a" for e
  proof -
    have "\<not> ?P e"
    proof (rule dropWhile_upward [OF _ _ that])
      show "sorted_wrt ?le (w_entries w)" using assms by (simp add: watcher_ok_def)
      show "\<not> ?P x \<Longrightarrow> ?le x y \<Longrightarrow> \<not> ?P y" for x y
        using memcmp_order.lt_cotrans [of "um_data key" "w_key x" "w_key y"] by auto
    qed
    then show ?thesis by simp
  qed
  have below: "?P e" if "e \<in> set ?b" for e
    using that by (auto dest: set_takeWhileD)
  have "sorted_wrt ?le (w_entries (addKey key w))"
    unfolding addKey_def Let_def watcher.select_convs
  proof (rule sorted_wrt_insert_mid [OF srt])
    fix e assume "e \<in> set ?b"
    then show "\<not> DefaultMemCmp (w_key \<lparr>w_node = w_fresh w, w_addr = um_addr key,
        w_key = um_data key, w_status = Pending\<rparr>) (w_key e)"
      using below by simp
  next
    fix e assume "e \<in> set ?a"
    then show "\<not> DefaultMemCmp (w_key e) (w_key \<lparr>w_node = w_fresh w, w_addr = um_addr key,
        w_key = um_data key, w_status = Pending\<rparr>)"
      using memcmp_order.lt_asym [OF above] by simp
  qed
  moreover have "distinct (map w_node (w_entries (addKey key w)))"
    unfolding addKey_def Let_def watcher.select_convs
  proof (rule distinct_insert_mid)
    show "distinct (map w_node (?b @ ?a))"
      using assms by (simp add: watcher_ok_def)
    fix x assume "x \<in> set (?b @ ?a)"
    then show "w_node x \<noteq> w_node \<lparr>w_node = w_fresh w, w_addr = um_addr key,
        w_key = um_data key, w_status = Pending\<rparr>"
      using assms by (auto simp: watcher_ok_def)
  qed
  moreover have "\<forall>e \<in> set (w_entries (addKey key w)). w_node e < w_fresh (addKey key w)"
    using assms unfolding set_addKey by (auto simp: watcher_ok_def addKey_def Let_def)
  ultimately show ?thesis by (simp add: watcher_ok_def)
qed

section \<open>Finding a node\<close>

lemma node_status_Some:
  assumes "watcher_ok w" "e \<in> set (w_entries w)"
  shows "node_status (w_node e) w = Some (w_status e)"
proof -
  have "List.find (\<lambda>x. w_node x = w_node e) (w_entries w) = Some e"
    using assms by (intro find_distinct_key) (auto simp: watcher_ok_def)
  then show ?thesis by (simp add: node_status_def)
qed

end
