(* ===== verification/Waiting.thy ===== *)
theory Waiting
  imports Watcher
begin

text \<open>
  What every in-memory backend does when a key it needs is absent and the mode asks it to
  wait: \<open>addKey\<close>, release the lock, \<open>waitKey\<close>, take the lock again, and on \<open>KeyPresent\<close> look
  again (the \<open>retry:\<close> label). While the lock is released other threads act: their actions
  are an explicit list of state transformers, one consumed at every point where this thread
  gives the lock or the watcher's mutex away. When the list is used up nobody acts any more,
  and a thread that still waits never returns.
\<close>

record kv_base =
  m_migrated :: bool
  m_watcher :: watcher

text \<open>\<open>while(entry.m_status == Pending) ABT_cond_wait(...)\<close>, then \<open>erase(it)\<close>.\<close>

fun wait_loop :: "nat \<Rightarrow> ('a kv_base_scheme \<Rightarrow> 'a kv_base_scheme) list
    \<Rightarrow> 'a kv_base_scheme
    \<Rightarrow> (wstatus \<times> ('a kv_base_scheme \<Rightarrow> 'a kv_base_scheme) list \<times> 'a kv_base_scheme) outcome"
where
  "wait_loop n env s =
     (case node_status n (m_watcher s) of
        None \<Rightarrow> Undef
      | Some st \<Rightarrow>
          if st = Pending
          then (case env of [] \<Rightarrow> Hung | act # env' \<Rightarrow> wait_loop n env' (act s))
          else Done (st, env, s\<lparr> m_watcher := erase_node n (m_watcher s) \<rparr>))"

declare wait_loop.simps [simp del]

definition waitKey :: "umem \<Rightarrow> ('a kv_base_scheme \<Rightarrow> 'a kv_base_scheme) list
    \<Rightarrow> 'a kv_base_scheme
    \<Rightarrow> (wstatus \<times> ('a kv_base_scheme \<Rightarrow> 'a kv_base_scheme) list \<times> 'a kv_base_scheme) outcome"
where
  "waitKey key env s =
     (case wait_select key (m_watcher s) of
        SelSpin \<Rightarrow> Hung
      | SelEnd \<Rightarrow> Done (LogicError, env, s)
      | SelNode n \<Rightarrow> wait_loop n env s)"

lemma wait_loop_env_length:
  "wait_loop n env s = Done (st, env', s') \<Longrightarrow> length env' \<le> length env"
proof (induction n env s rule: wait_loop.induct)
  case (1 n env s)
  show ?case
  proof (cases "\<exists>act env1. node_status n (m_watcher s) = Some Pending \<and> env = act # env1")
    case True
    then obtain act env1 where p: "node_status n (m_watcher s) = Some Pending" "env = act # env1"
      by blast
    then have "wait_loop n env1 (act s) = Done (st, env', s')"
      using "1.prems" by (simp add: wait_loop.simps [of n "act # env1" s])
    then have "length env' \<le> length env1"
      using "1.IH" p by blast
    then show ?thesis using p by simp
  next
    case False
    with "1.prems" show ?thesis
      by (auto simp: wait_loop.simps [of n env s] split: option.splits if_splits list.splits)
  qed
qed

lemma waitKey_env_length:
  "waitKey key env s = Done (st, env', s') \<Longrightarrow> length env' \<le> length env"
  by (auto simp: waitKey_def split: wsel.splits dest: wait_loop_env_length)

datatype 'v find_result = Found 'v | Missing | WaitFailed

function find_retry :: "('a kv_base_scheme \<Rightarrow> 'v option) \<Rightarrow> bool \<Rightarrow> umem
    \<Rightarrow> ('a kv_base_scheme \<Rightarrow> 'a kv_base_scheme) list \<Rightarrow> 'a kv_base_scheme
    \<Rightarrow> ('v find_result \<times> ('a kv_base_scheme \<Rightarrow> 'a kv_base_scheme) list
        \<times> 'a kv_base_scheme) outcome" where
  "find_retry look mode_wait key env s =
     (case look s of
        Some v \<Rightarrow> Done (Found v, env, s)
      | None \<Rightarrow>
          if \<not> mode_wait then Done (Missing, env, s)
          else (case env of
                  [] \<Rightarrow> Hung
                | act # env1 \<Rightarrow>
                    obind (waitKey key env1 (act (s\<lparr> m_watcher := addKey key (m_watcher s) \<rparr>)))
                      (\<lambda>(ret, env2, s').
                         if ret = KeyPresent then find_retry look mode_wait key env2 s'
                         else Done (WaitFailed, env2, s'))))"
  by pat_completeness auto
termination
  by (relation "measure (\<lambda>(look, mode_wait, key, env, s). length env)")
    (auto dest: waitKey_env_length)

declare find_retry.simps [simp del]

lemma find_retry_found: "look s = Some v \<Longrightarrow> find_retry look mw key env s = Done (Found v, env, s)"
  by (simp add: find_retry.simps)

lemma find_retry_missing:
  "look s = None \<Longrightarrow> find_retry look False key env s = Done (Missing, env, s)"
  by (simp add: find_retry.simps)

lemma find_retry_no_wait:
  "find_retry look False key env s =
     Done (case look s of Some v \<Rightarrow> Found v | None \<Rightarrow> Missing, env, s)"
  by (simp add: find_retry.simps split: option.split)

text \<open>Releasing and retaking the lock: other threads may act once.\<close>

fun yield_lock :: "('s \<Rightarrow> 's) list \<Rightarrow> 's \<Rightarrow> ('s \<Rightarrow> 's) list \<times> 's" where
  "yield_lock [] s = ([], s)"
| "yield_lock (act # env) s = (env, act s)"

end
