(* ===== verification/KvEngine.thy ===== *)
theory KvEngine
  imports Waiting
begin

text \<open>
  The key/value operations of the two in-memory map backends, map.cpp and
  unordered_map.cpp. Their bodies are the same up to the container they call, so the model
  takes the container's operations as a record and each backend instantiates it.

  An operation returns its status, the buffers it wrote, the actions of other threads it has
  not consumed, and the database.
\<close>

section \<open>The container behind m_db\<close>

record 'c container =
  c_find :: "'c \<Rightarrow> bytes \<Rightarrow> bytes option"
  c_emplace :: "bytes \<Rightarrow> bytes \<Rightarrow> 'c \<Rightarrow> 'c \<times> bool"
  c_store :: "bytes \<Rightarrow> bytes \<Rightarrow> 'c \<Rightarrow> 'c"
  c_erase :: "bytes \<Rightarrow> 'c \<Rightarrow> 'c"
  c_size :: "'c \<Rightarrow> nat"
  c_clear :: "'c \<Rightarrow> 'c"

record 'c kv_db = kv_base +
  m_db :: 'c

type_synonym 'c kv_act = "'c kv_db \<Rightarrow> 'c kv_db"

definition kv_look :: "'c container \<Rightarrow> bytes \<Rightarrow> 'c kv_db \<Rightarrow> bytes option" where
  "kv_look C k s = c_find C (m_db s) k"

section \<open>count, destroy\<close>

definition kv_destroy :: "'c container \<Rightarrow> 'c kv_db \<Rightarrow> 'c kv_db" where
  "kv_destroy C s = s\<lparr> m_db := c_clear C (m_db s) \<rparr>"

definition kv_count :: "'c container \<Rightarrow> mode_t \<Rightarrow> 'c kv_db \<Rightarrow> status \<times> size_t option" where
  "kv_count C mode s =
     (if m_migrated s then (Migrated, None) else (OK, Some (of_nat (c_size C (m_db s)))))"

section \<open>exists, length\<close>

fun kv_exists_loop :: "'c container \<Rightarrow> bool \<Rightarrow> umem \<Rightarrow> size_t list \<Rightarrow> size_t \<Rightarrow> nat
    \<Rightarrow> bitfield \<Rightarrow> 'c kv_act list \<Rightarrow> 'c kv_db
    \<Rightarrow> (status \<times> bitfield \<times> 'c kv_act list \<times> 'c kv_db) outcome" where
  "kv_exists_loop C mode_wait keys [] offset i flags env s = Done (OK, flags, env, s)"
| "kv_exists_loop C mode_wait keys (ksize # ksizes) offset i flags env s =
     (if offset + ksize > usize (um_data keys) then Done (InvalidArg, flags, env, s)
      else obind (sub_umem keys offset ksize) (\<lambda>key.
        obind (find_retry (kv_look C (um_data key)) mode_wait key env s) (\<lambda>(r, env', s').
          case r of
            Found v \<Rightarrow> obind (bf_set flags i True) (\<lambda>flags'.
              kv_exists_loop C mode_wait keys ksizes (offset + ksize) (Suc i) flags' env' s')
          | Missing \<Rightarrow> obind (bf_set flags i False) (\<lambda>flags'.
              kv_exists_loop C mode_wait keys ksizes (offset + ksize) (Suc i) flags' env' s')
          | WaitFailed \<Rightarrow> Done (TimedOut, flags, env', s'))))"

definition kv_exists :: "'c container \<Rightarrow> mode_t \<Rightarrow> umem \<Rightarrow> size_t list \<Rightarrow> bitfield
    \<Rightarrow> 'c kv_act list \<Rightarrow> 'c kv_db
    \<Rightarrow> (status \<times> bitfield \<times> 'c kv_act list \<times> 'c kv_db) outcome" where
  "kv_exists C mode keys ksizes flags env s =
     (if usize ksizes > bf_size flags then Done (InvalidArg, flags, env, s)
      else if m_migrated s then Done (Migrated, flags, env, s)
      else kv_exists_loop C (has_mode mode YOKAN_MODE_WAIT) keys ksizes 0 0 flags env s)"

fun kv_length_loop :: "'c container \<Rightarrow> bool \<Rightarrow> umem \<Rightarrow> size_t list \<Rightarrow> size_t \<Rightarrow> nat
    \<Rightarrow> size_t list \<Rightarrow> 'c kv_act list \<Rightarrow> 'c kv_db
    \<Rightarrow> (status \<times> size_t list \<times> 'c kv_act list \<times> 'c kv_db) outcome" where
  "kv_length_loop C mode_wait keys [] offset i vsizes env s = Done (OK, vsizes, env, s)"
| "kv_length_loop C mode_wait keys (ksize # ksizes) offset i vsizes env s =
     (if offset + ksize > usize (um_data keys) then Done (InvalidArg, vsizes, env, s)
      else obind (sub_umem keys offset ksize) (\<lambda>key.
        obind (find_retry (kv_look C (um_data key)) mode_wait key env s) (\<lambda>(r, env', s').
          case r of
            Found v \<Rightarrow> kv_length_loop C mode_wait keys ksizes (offset + ksize) (Suc i)
                         (vsizes[i := usize v]) env' s'
          | Missing \<Rightarrow> kv_length_loop C mode_wait keys ksizes (offset + ksize) (Suc i)
                         (vsizes[i := YOKAN_KEY_NOT_FOUND]) env' s'
          | WaitFailed \<Rightarrow> Done (TimedOut, vsizes, env', s'))))"

definition kv_length :: "'c container \<Rightarrow> mode_t \<Rightarrow> umem \<Rightarrow> size_t list \<Rightarrow> size_t list
    \<Rightarrow> 'c kv_act list \<Rightarrow> 'c kv_db
    \<Rightarrow> (status \<times> size_t list \<times> 'c kv_act list \<times> 'c kv_db) outcome" where
  "kv_length C mode keys ksizes vsizes env s =
     (if length ksizes \<noteq> length vsizes then Done (InvalidArg, vsizes, env, s)
      else if m_migrated s then Done (Migrated, vsizes, env, s)
      else kv_length_loop C (has_mode mode YOKAN_MODE_WAIT) keys ksizes 0 0 vsizes env s)"

section \<open>put\<close>

definition kv_notify :: "mode_t \<Rightarrow> umem \<Rightarrow> 'c kv_db \<Rightarrow> 'c kv_db" where
  "kv_notify mode key s =
     (if has_mode mode YOKAN_MODE_NOTIFY then s\<lparr> m_watcher := notifyKey key (m_watcher s) \<rparr>
      else s)"

lemma kv_notify_keeps [simp]:
  "m_db (kv_notify mode key s) = m_db s" "m_migrated (kv_notify mode key s) = m_migrated s"
  by (simp_all add: kv_notify_def)

text \<open>
  One iteration of the loop of \<open>put\<close>. \<open>single\<close> is \<open>ksizes.size == 1\<close>. The value is read only
  on the branches that store it, so its view is passed unevaluated.
\<close>

definition kv_put_one :: "'c container \<Rightarrow> mode_t \<Rightarrow> bool \<Rightarrow> umem \<Rightarrow> bytes outcome
    \<Rightarrow> 'c kv_db \<Rightarrow> (status \<times> 'c kv_db) outcome" where
  "kv_put_one C mode single key val s =
     (let k = um_data key in
      if has_mode mode YOKAN_MODE_NEW_ONLY then
        (case c_find C (m_db s) k of
           None \<Rightarrow> obind val (\<lambda>v.
             Done (OK, kv_notify mode key (s\<lparr> m_db := fst (c_emplace C k v (m_db s)) \<rparr>)))
         | Some _ \<Rightarrow> Done (if single then KeyExists else OK, s))
      else if has_mode mode YOKAN_MODE_EXIST_ONLY then
        (case c_find C (m_db s) k of
           Some old \<Rightarrow> obind val (\<lambda>v.
             Done (OK, kv_notify mode key (s\<lparr> m_db := c_store C k
               (if has_mode mode YOKAN_MODE_APPEND then old @ v else v) (m_db s) \<rparr>)))
         | None \<Rightarrow> Done (if single then NotFound else OK, s))
      else if has_mode mode YOKAN_MODE_APPEND then
        (case c_find C (m_db s) k of
           Some old \<Rightarrow> obind val (\<lambda>v.
             Done (OK, kv_notify mode key (s\<lparr> m_db := c_store C k (old @ v) (m_db s) \<rparr>)))
         | None \<Rightarrow> obind val (\<lambda>v.
             Done (OK, kv_notify mode key (s\<lparr> m_db := fst (c_emplace C k v (m_db s)) \<rparr>))))
      else
        obind val (\<lambda>v.
          case c_emplace C k v (m_db s) of
            (db', inserted) \<Rightarrow>
              Done (OK, kv_notify mode key
                (s\<lparr> m_db := if inserted then db' else c_store C k v db' \<rparr>))))"

fun kv_put_loop :: "'c container \<Rightarrow> mode_t \<Rightarrow> bool \<Rightarrow> umem \<Rightarrow> bytes \<Rightarrow> (size_t \<times> size_t) list
    \<Rightarrow> size_t \<Rightarrow> size_t \<Rightarrow> 'c kv_db \<Rightarrow> (status \<times> 'c kv_db) outcome" where
  "kv_put_loop C mode single keys vals [] key_offset val_offset s = Done (OK, s)"
| "kv_put_loop C mode single keys vals ((ksize, vsize) # rest) key_offset val_offset s =
     obind (sub_umem keys key_offset ksize) (\<lambda>key.
       obind (kv_put_one C mode single key (sub_bytes vals val_offset vsize) s) (\<lambda>(st, s').
         if st \<noteq> OK then Done (st, s')
         else kv_put_loop C mode single keys vals rest
                (key_offset + ksize) (val_offset + vsize) s'))"

definition kv_put :: "'c container \<Rightarrow> mode_t \<Rightarrow> umem \<Rightarrow> size_t list \<Rightarrow> bytes \<Rightarrow> size_t list
    \<Rightarrow> 'c kv_db \<Rightarrow> (status \<times> 'c kv_db) outcome" where
  "kv_put C mode keys ksizes vals vsizes s =
     (if length ksizes \<noteq> length vsizes then Done (InvalidArg, s)
      else if accumulate ksizes > usize (um_data keys) then Done (InvalidArg, s)
      else if accumulate vsizes > usize vals then Done (InvalidArg, s)
      else if m_migrated s then Done (Migrated, s)
      else kv_put_loop C mode (length ksizes = 1) keys vals (zip ksizes vsizes) 0 0 s)"

section \<open>erase\<close>

fun kv_erase_loop :: "'c container \<Rightarrow> bool \<Rightarrow> umem \<Rightarrow> size_t list \<Rightarrow> size_t
    \<Rightarrow> 'c kv_act list \<Rightarrow> 'c kv_db \<Rightarrow> (status \<times> 'c kv_act list \<times> 'c kv_db) outcome" where
  "kv_erase_loop C mode_wait keys [] offset env s = Done (OK, env, s)"
| "kv_erase_loop C mode_wait keys (ksize # ksizes) offset env s =
     (if offset + ksize > usize (um_data keys) then Done (InvalidArg, env, s)
      else obind (sub_umem keys offset ksize) (\<lambda>key.
        obind (find_retry (kv_look C (um_data key)) mode_wait key env s) (\<lambda>(r, env', s').
          case r of
            Found v \<Rightarrow> kv_erase_loop C mode_wait keys ksizes (offset + ksize) env'
                         (s'\<lparr> m_db := c_erase C (um_data key) (m_db s') \<rparr>)
          | Missing \<Rightarrow> kv_erase_loop C mode_wait keys ksizes (offset + ksize) env' s'
          | WaitFailed \<Rightarrow> Done (TimedOut, env', s'))))"

definition kv_erase :: "'c container \<Rightarrow> mode_t \<Rightarrow> umem \<Rightarrow> size_t list
    \<Rightarrow> 'c kv_act list \<Rightarrow> 'c kv_db \<Rightarrow> (status \<times> 'c kv_act list \<times> 'c kv_db) outcome" where
  "kv_erase C mode keys ksizes env s =
     (if m_migrated s then Done (Migrated, env, s)
      else kv_erase_loop C (has_mode mode YOKAN_MODE_WAIT) keys ksizes 0 env s)"

section \<open>get\<close>

text \<open>What \<open>get\<close> writes: the value buffer, its \<open>size\<close> field, and the value sizes.\<close>

record get_out =
  g_vals :: bytes
  g_size :: size_t
  g_vsizes :: "size_t list"

fun kv_get_loop :: "'c container \<Rightarrow> mode_t \<Rightarrow> umem \<Rightarrow> size_t list \<Rightarrow> nat \<Rightarrow> size_t \<Rightarrow> size_t
    \<Rightarrow> get_out \<Rightarrow> 'c kv_act list \<Rightarrow> 'c kv_db
    \<Rightarrow> (status \<times> get_out \<times> 'c kv_act list \<times> 'c kv_db) outcome" where
  "kv_get_loop C mode keys [] i key_offset val_offset out env s = Done (OK, out, env, s)"
| "kv_get_loop C mode keys (ksize # ksizes) i key_offset val_offset out env s =
     (let original_vsize = g_vsizes out ! i in
      obind (sub_umem keys key_offset ksize) (\<lambda>key.
      obind (find_retry (kv_look C (um_data key)) (has_mode mode YOKAN_MODE_WAIT) key env s)
        (\<lambda>(r, env', s').
          case r of
            Missing \<Rightarrow>
              kv_get_loop C mode keys ksizes (Suc i) (key_offset + ksize)
                (val_offset + original_vsize)
                (out\<lparr> g_vsizes := (g_vsizes out)[i := YOKAN_KEY_NOT_FOUND] \<rparr>) env' s'
          | Found v \<Rightarrow>
              obind (valCopy mode (g_vals out) val_offset original_vsize v) (\<lambda>(n, vals').
                kv_get_loop C mode keys ksizes (Suc i) (key_offset + ksize)
                  (val_offset + original_vsize)
                  (out\<lparr> g_vals := vals', g_vsizes := (g_vsizes out)[i := n] \<rparr>) env' s')
          | WaitFailed \<Rightarrow> Done (TimedOut, out, env', s'))))"

text \<open>The packed loop; at its end \<open>vals.size\<close> becomes the bytes used.\<close>

fun kv_get_packed_loop :: "'c container \<Rightarrow> mode_t \<Rightarrow> umem \<Rightarrow> size_t list \<Rightarrow> nat \<Rightarrow> size_t
    \<Rightarrow> size_t \<Rightarrow> size_t \<Rightarrow> bool \<Rightarrow> get_out \<Rightarrow> 'c kv_act list \<Rightarrow> 'c kv_db
    \<Rightarrow> (status \<times> get_out \<times> 'c kv_act list \<times> 'c kv_db) outcome" where
  "kv_get_packed_loop C mode keys [] i key_offset val_offset remaining too_small out env s =
     Done (OK, out\<lparr> g_size := g_size out - remaining \<rparr>, env, s)"
| "kv_get_packed_loop C mode keys (ksize # ksizes) i key_offset val_offset remaining too_small
       out env s =
     obind (sub_umem keys key_offset ksize) (\<lambda>key.
     obind (find_retry (kv_look C (um_data key)) (has_mode mode YOKAN_MODE_WAIT) key env s)
       (\<lambda>(r, env', s').
         case r of
           Missing \<Rightarrow>
             kv_get_packed_loop C mode keys ksizes (Suc i) (key_offset + ksize) val_offset
               remaining too_small
               (out\<lparr> g_vsizes := (g_vsizes out)[i := YOKAN_KEY_NOT_FOUND] \<rparr>) env' s'
         | Found v \<Rightarrow>
             if too_small then
               kv_get_packed_loop C mode keys ksizes (Suc i) (key_offset + ksize) val_offset
                 remaining too_small
                 (out\<lparr> g_vsizes := (g_vsizes out)[i := YOKAN_SIZE_TOO_SMALL] \<rparr>) env' s'
             else
               obind (valCopy mode (g_vals out) val_offset remaining v) (\<lambda>(n, vals').
                 let out' = out\<lparr> g_vals := vals', g_vsizes := (g_vsizes out)[i := n] \<rparr> in
                 if n = YOKAN_SIZE_TOO_SMALL then
                   kv_get_packed_loop C mode keys ksizes (Suc i) (key_offset + ksize)
                     val_offset remaining True out' env' s'
                 else
                   kv_get_packed_loop C mode keys ksizes (Suc i) (key_offset + ksize)
                     (val_offset + n) (remaining - n) too_small out' env' s')
         | WaitFailed \<Rightarrow> Done (TimedOut, out, env', s')))"

text \<open>
  \<open>YOKAN_MODE_CONSUME\<close> releases the lock before calling \<open>erase\<close>, so other threads may act
  in between.
\<close>

definition kv_get :: "'c container \<Rightarrow> mode_t \<Rightarrow> bool \<Rightarrow> umem \<Rightarrow> size_t list \<Rightarrow> bytes
    \<Rightarrow> size_t list \<Rightarrow> 'c kv_act list \<Rightarrow> 'c kv_db
    \<Rightarrow> (status \<times> get_out \<times> 'c kv_act list \<times> 'c kv_db) outcome" where
  "kv_get C mode packed keys ksizes vals vsizes env s =
     (let out = \<lparr> g_vals = vals, g_size = usize vals, g_vsizes = vsizes \<rparr> in
      if length ksizes \<noteq> length vsizes then Done (InvalidArg, out, env, s)
      else if m_migrated s then Done (Migrated, out, env, s)
      else obind (if \<not> packed then kv_get_loop C mode keys ksizes 0 0 0 out env s
                  else kv_get_packed_loop C mode keys ksizes 0 0 0 (usize vals) False out env s)
        (\<lambda>(st, out', env', s').
           if st \<noteq> OK then Done (st, out', env', s')
           else if has_mode mode YOKAN_MODE_CONSUME then
             (case yield_lock env' s' of (env'', s'') \<Rightarrow>
                obind (kv_erase C mode keys ksizes env'' s'') (\<lambda>(st', env3, s3).
                  Done (st', out', env3, s3)))
           else Done (OK, out', env', s')))"

section \<open>fetch\<close>

text \<open>
  \<open>fetch\<close> hands each key with its value to the callback; a missing key comes with the size
  \<open>KeyNotFound\<close>, here \<open>None\<close>. The key's view is not checked against the size of the buffer.
\<close>

type_synonym 'st fetch_cb = "bytes \<Rightarrow> bytes option \<Rightarrow> 'st \<Rightarrow> status \<times> 'st"

fun kv_fetch_loop :: "'c container \<Rightarrow> bool \<Rightarrow> umem \<Rightarrow> size_t list \<Rightarrow> 'st fetch_cb \<Rightarrow> size_t
    \<Rightarrow> 'st \<Rightarrow> 'c kv_act list \<Rightarrow> 'c kv_db \<Rightarrow> (status \<times> 'st \<times> 'c kv_act list \<times> 'c kv_db) outcome"
where
  "kv_fetch_loop C mode_wait keys [] func key_offset st env s = Done (OK, st, env, s)"
| "kv_fetch_loop C mode_wait keys (ksize # ksizes) func key_offset st env s =
     obind (sub_umem keys key_offset ksize) (\<lambda>key.
     obind (find_retry (kv_look C (um_data key)) mode_wait key env s) (\<lambda>(r, env', s').
       if r = WaitFailed then Done (TimedOut, st, env', s')
       else
         let val = (case r of Found v \<Rightarrow> Some v | _ \<Rightarrow> None) in
         (case func (um_data key) val st of
            (status, st') \<Rightarrow>
              if status \<noteq> OK then Done (status, st', env', s')
              else kv_fetch_loop C mode_wait keys ksizes func (key_offset + ksize) st' env' s')))"

definition kv_fetch :: "'c container \<Rightarrow> bool \<Rightarrow> mode_t \<Rightarrow> umem \<Rightarrow> size_t list \<Rightarrow> 'st fetch_cb
    \<Rightarrow> 'st \<Rightarrow> 'c kv_act list \<Rightarrow> 'c kv_db \<Rightarrow> (status \<times> 'st \<times> 'c kv_act list \<times> 'c kv_db) outcome"
where
  "kv_fetch C mode_wait mode keys ksizes func st env s =
     (if m_migrated s then Done (Migrated, st, env, s)
      else obind (kv_fetch_loop C mode_wait keys ksizes func 0 st env s)
        (\<lambda>(status, st', env', s').
           if status \<noteq> OK then Done (status, st', env', s')
           else if has_mode mode YOKAN_MODE_CONSUME then
             (case yield_lock env' s' of (env'', s'') \<Rightarrow>
                if m_migrated s'' then Done (Migrated, st', env'', s'')
                else obind (kv_erase_loop C mode_wait keys ksizes 0 env'' s'') (\<lambda>(status', env3, s3).
                  Done (status', st', env3, s3)))
           else Done (OK, st', env', s')))"

text \<open>\<open>MapDatabase::fetch\<close> drops the status of the callback and ignores \<open>CONSUME\<close>.\<close>

fun map_fetch_loop :: "'c container \<Rightarrow> bool \<Rightarrow> umem \<Rightarrow> size_t list \<Rightarrow> 'st fetch_cb \<Rightarrow> size_t
    \<Rightarrow> 'st \<Rightarrow> 'c kv_act list \<Rightarrow> 'c kv_db \<Rightarrow> (status \<times> 'st \<times> 'c kv_act list \<times> 'c kv_db) outcome"
where
  "map_fetch_loop C mode_wait keys [] func key_offset st env s = Done (OK, st, env, s)"
| "map_fetch_loop C mode_wait keys (ksize # ksizes) func key_offset st env s =
     obind (sub_umem keys key_offset ksize) (\<lambda>key.
     obind (find_retry (kv_look C (um_data key)) mode_wait key env s) (\<lambda>(r, env', s').
       if r = WaitFailed then Done (TimedOut, st, env', s')
       else
         let val = (case r of Found v \<Rightarrow> Some v | _ \<Rightarrow> None) in
         (case func (um_data key) val st of
            (status, st') \<Rightarrow>
              map_fetch_loop C mode_wait keys ksizes func (key_offset + ksize) st' env' s')))"

end
