(* ===== verification/KvContract.thy ===== *)
theory KvContract
  imports KvEngine
begin

text \<open>
  The contract of the container behind an in-memory map backend, and what the operations of
  \<open>KvEngine\<close> do to the finite map it stands for. The lemmas are proved once from the
  contract; the backends interpret it on \<open>std::map\<close> and \<open>std::unordered_map\<close>.
\<close>

section \<open>What put means on a map\<close>

definition put_one_spec :: "mode_t \<Rightarrow> bool \<Rightarrow> (bytes \<rightharpoonup> bytes) \<Rightarrow> bytes \<Rightarrow> bytes
    \<Rightarrow> status \<times> (bytes \<rightharpoonup> bytes)" where
  "put_one_spec mode single m k v =
     (if has_mode mode YOKAN_MODE_NEW_ONLY then
        (if k \<in> dom m then (if single then KeyExists else OK, m) else (OK, m(k \<mapsto> v)))
      else if has_mode mode YOKAN_MODE_EXIST_ONLY \<and> k \<notin> dom m then
        (if single then NotFound else OK, m)
      else
        (OK, m(k \<mapsto> if has_mode mode YOKAN_MODE_APPEND
                    then (case m k of Some old \<Rightarrow> old @ v | None \<Rightarrow> v) else v)))"

fun put_spec :: "mode_t \<Rightarrow> bool \<Rightarrow> (bytes \<rightharpoonup> bytes) \<Rightarrow> (bytes \<times> bytes) list
    \<Rightarrow> status \<times> (bytes \<rightharpoonup> bytes)" where
  "put_spec mode single m [] = (OK, m)"
| "put_spec mode single m ((k, v) # kvs) =
     (case put_one_spec mode single m k v of
        (st, m') \<Rightarrow> if st \<noteq> OK then (st, m') else put_spec mode single m' kvs)"

lemma put_spec_plain:
  assumes "\<not> has_mode mode YOKAN_MODE_NEW_ONLY" "\<not> has_mode mode YOKAN_MODE_EXIST_ONLY"
    "\<not> has_mode mode YOKAN_MODE_APPEND"
  shows "length ks = length vs \<Longrightarrow> put_spec mode single m (zip ks vs) = (OK, m(ks [\<mapsto>] vs))"
  by (induction ks vs arbitrary: m rule: list_induct2) (auto simp: put_one_spec_def assms)

lemma put_spec_new_only_mono:
  "has_mode mode YOKAN_MODE_NEW_ONLY \<Longrightarrow> m \<subseteq>\<^sub>m snd (put_spec mode single m kvs)"
proof (induction kvs arbitrary: m)
  case Nil
  then show ?case by simp
next
  case (Cons kv kvs)
  obtain k v where kv: "kv = (k, v)" by (cases kv)
  show ?case
  proof (cases "k \<in> dom m")
    case True
    with Cons kv show ?thesis by (auto simp: put_one_spec_def)
  next
    case False
    then have "m \<subseteq>\<^sub>m m(k \<mapsto> v)" by (auto simp: map_le_def)
    with Cons kv False show ?thesis
      by (auto simp: put_one_spec_def intro: map_le_trans)
  qed
qed

lemma put_spec_exist_only_dom:
  "has_mode mode YOKAN_MODE_EXIST_ONLY \<Longrightarrow> \<not> has_mode mode YOKAN_MODE_NEW_ONLY
    \<Longrightarrow> dom (snd (put_spec mode single m kvs)) = dom m"
proof (induction kvs arbitrary: m)
  case Nil
  then show ?case by simp
next
  case (Cons kv kvs)
  obtain k v where kv: "kv = (k, v)" by (cases kv)
  show ?case
  proof (cases "k \<in> dom m")
    case True
    with Cons kv show ?thesis by (auto simp: put_one_spec_def)
  next
    case False
    with Cons kv show ?thesis by (auto simp: put_one_spec_def)
  qed
qed

section \<open>What a packed get means on a map\<close>

text \<open>
  The sizes reported and the bytes delivered when the values of \<open>ks\<close> are packed into
  \<open>room\<close> bytes: the first value that does not fit closes the buffer for all later ones.
\<close>

fun pack_spec :: "('k \<rightharpoonup> bytes) \<Rightarrow> nat \<Rightarrow> bool \<Rightarrow> 'k list \<Rightarrow> size_t list \<times> bytes" where
  "pack_spec m room full [] = ([], [])"
| "pack_spec m room full (k # ks) =
     (case m k of
        None \<Rightarrow> (case pack_spec m room full ks of (ns, out) \<Rightarrow> (YOKAN_KEY_NOT_FOUND # ns, out))
      | Some v \<Rightarrow>
          if full \<or> room < length v then
            (case pack_spec m room True ks of (ns, out) \<Rightarrow> (YOKAN_SIZE_TOO_SMALL # ns, out))
          else
            (case pack_spec m (room - length v) False ks of
               (ns, out) \<Rightarrow> (usize v # ns, v @ out)))"

lemma pack_spec_lengths:
  "length (fst (pack_spec m room full ks)) = length ks
   \<and> length (snd (pack_spec m room full ks)) \<le> room"
proof (induction m room full ks rule: pack_spec.induct)
  case (2 m room full k ks)
  then show ?case by (auto split: option.splits prod.splits)
qed simp

lemma pack_spec_map: "pack_spec m room full (map f ks) = pack_spec (\<lambda>k. m (f k)) room full ks"
  by (induction "\<lambda>k. m (f k)" room full ks rule: pack_spec.induct) (auto split: option.splits)

definition value_size :: "('k \<rightharpoonup> bytes) \<Rightarrow> 'k \<Rightarrow> size_t" where
  "value_size m k = (case m k of Some v \<Rightarrow> usize v | None \<Rightarrow> YOKAN_KEY_NOT_FOUND)"

definition values_of :: "('k \<rightharpoonup> bytes) \<Rightarrow> 'k list \<Rightarrow> bytes" where
  "values_of m ks = concat (map (\<lambda>k. case m k of Some v \<Rightarrow> v | None \<Rightarrow> []) ks)"

lemma pack_spec_enough:
  "length (values_of m ks) \<le> room
    \<Longrightarrow> pack_spec m room False ks = (map (value_size m) ks, values_of m ks)"
  by (induction ks arbitrary: room)
    (auto simp: value_size_def values_of_def split: option.splits)

text \<open>An unpacked get delivers each value into the slot the caller reserved for it.\<close>

definition slot_spec :: "('k \<rightharpoonup> bytes) \<Rightarrow> 'k \<Rightarrow> bytes \<Rightarrow> size_t \<times> bytes" where
  "slot_spec m k slot =
     (case m k of
        None \<Rightarrow> (YOKAN_KEY_NOT_FOUND, slot)
      | Some v \<Rightarrow> if length slot < length v then (YOKAN_SIZE_TOO_SMALL, slot)
                  else (usize v, v @ drop (length v) slot))"

lemma slot_spec_length: "length (snd (slot_spec m k slot)) = length slot"
  by (auto simp: slot_spec_def split: option.split)

section \<open>The container contract\<close>

locale kv_reader =
  fixes C :: "'c container"
    and abs :: "'c \<Rightarrow> bytes \<rightharpoonup> bytes"
    and inv :: "'c \<Rightarrow> bool"
  assumes find_law: "inv c \<Longrightarrow> c_find C c k = abs c k"
    and erase_inv: "inv c \<Longrightarrow> inv (c_erase C k c)"
    and erase_abs: "inv c \<Longrightarrow> abs (c_erase C k c) = (abs c)(k := None)"
    and size_law: "inv c \<Longrightarrow> c_size C c = card (dom (abs c))"
    and clear_inv: "inv (c_clear C c)"
    and clear_abs: "abs (c_clear C c) = Map.empty"
begin

abbreviation content :: "'c kv_db \<Rightarrow> bytes \<rightharpoonup> bytes" where
  "content s \<equiv> abs (m_db s)"

abbreviation db_ok :: "'c kv_db \<Rightarrow> bool" where
  "db_ok s \<equiv> inv (m_db s)"

lemma look_content: "db_ok s \<Longrightarrow> kv_look C k s = content s k"
  by (simp add: kv_look_def find_law)

lemma count_law:
  "db_ok s \<Longrightarrow> \<not> m_migrated s \<Longrightarrow> kv_count C mode s = (OK, Some (of_nat (card (dom (content s)))))"
  by (simp add: kv_count_def size_law)

lemma destroy_law: "db_ok (kv_destroy C s)" "content (kv_destroy C s) = Map.empty"
  by (simp_all add: kv_destroy_def clear_inv clear_abs)

subsection \<open>exists, length\<close>

lemma find_law_no_wait:
  assumes "db_ok s"
  shows "find_retry (kv_look C k) False key env s
    = Done (case content s k of Some v \<Rightarrow> Found v | None \<Rightarrow> Missing, env, s)"
  by (simp add: find_retry_no_wait look_content [OF assms])

lemma exists_loop_law:
  assumes "db_ok s" "um_data keys = pre @ concat ks @ post" "fits (um_data keys)"
    "bf_ok flags" "i + length ks \<le> unat (bf_size flags)"
  shows "\<exists>flags'. kv_exists_loop C False keys (map usize ks) (usize pre) i flags env s
           = Done (OK, flags', env, s) \<and> bf_ok flags' \<and> bf_size flags' = bf_size flags
         \<and> (\<forall>j. bf_get flags' j = (if i \<le> j \<and> j < i + length ks
                then Done (ks ! (j - i) \<in> dom (content s)) else bf_get flags j))"
  using assms
proof (induction ks arbitrary: pre i flags)
  case Nil
  then show ?case by auto
next
  case (Cons k ks)
  obtain flags1 where f1: "bf_set flags i (k \<in> dom (content s)) = Done flags1" "bf_ok flags1"
    "bf_size flags1 = bf_size flags"
    "\<And>j. bf_get flags1 j = (if j = i then Done (k \<in> dom (content s)) else bf_get flags j)"
    using bf_set_Done [of flags i "k \<in> dom (content s)"] Cons.prems by auto
  have "\<exists>flags'. kv_exists_loop C False keys (map usize ks) (usize (pre @ k)) (Suc i) flags1 env s
           = Done (OK, flags', env, s) \<and> bf_ok flags' \<and> bf_size flags' = bf_size flags1
         \<and> (\<forall>j. bf_get flags' j = (if Suc i \<le> j \<and> j < Suc i + length ks
                then Done (ks ! (j - Suc i) \<in> dom (content s)) else bf_get flags1 j))"
    using Cons.prems f1 by (intro Cons.IH) auto
  then obtain flags' where f': "kv_exists_loop C False keys (map usize ks) (usize (pre @ k))
        (Suc i) flags1 env s = Done (OK, flags', env, s)" "bf_ok flags'"
      "bf_size flags' = bf_size flags1"
      "\<forall>j. bf_get flags' j = (if Suc i \<le> j \<and> j < Suc i + length ks
                then Done (ks ! (j - Suc i) \<in> dom (content s)) else bf_get flags1 j)"
    by blast
  have "sub_umem keys (usize pre) (usize k)
      = Done \<lparr>um_addr = um_addr keys + usize pre, um_data = k\<rparr>"
    using Cons.prems by (intro sub_umem_append [where post = "concat ks @ post"]) auto
  moreover have "\<not> usize (um_data keys) < usize pre + usize k"
    using Cons.prems view_inside [of pre k "concat ks @ post"] by simp
  ultimately have "kv_exists_loop C False keys (map usize (k # ks)) (usize pre) i flags env s
      = Done (OK, flags', env, s)"
    using f1(1) f'(1)
    by (cases "content s k")
      (auto simp: find_law_no_wait [OF Cons.prems(1)] usize_append domIff)
  then show ?case using f' f1 by (auto simp: nth_Cons' less_Suc_eq_le Suc_le_eq)
qed

lemma exists_law:
  assumes "db_ok s" "\<not> m_migrated s" "packs (um_data keys) ks ksizes"
    "\<not> has_mode mode YOKAN_MODE_WAIT" "bf_ok flags" "length ks \<le> unat (bf_size flags)"
  obtains flags' where
    "kv_exists C mode keys ksizes flags env s = Done (OK, flags', env, s)"
    "bf_ok flags'" "bf_size flags' = bf_size flags"
    "\<And>j. bf_get flags' j
       = (if j < length ks then Done (ks ! j \<in> dom (content s)) else bf_get flags j)"
proof -
  obtain post where k: "ksizes = map usize ks" "fits (um_data keys)"
    "um_data keys = concat ks @ post"
    using assms(3) by (rule packsE)
  have "fits ks" using assms(6) unat_size_less [of "bf_size flags"] by simp
  then have "\<not> bf_size flags < usize ksizes"
    using assms(6) by (simp add: not_less word_le_nat_alt unat_usize k(1))
  moreover obtain flags' where "kv_exists_loop C False keys (map usize ks) (usize []) 0 flags env s
      = Done (OK, flags', env, s)" "bf_ok flags'" "bf_size flags' = bf_size flags"
    "\<forall>j. bf_get flags' j = (if 0 \<le> j \<and> j < 0 + length ks
                then Done (ks ! (j - 0) \<in> dom (content s)) else bf_get flags j)"
    using exists_loop_law [OF assms(1), of keys "[]" ks post flags 0 env] k assms by auto
  ultimately show thesis
    using assms that by (auto simp: kv_exists_def k(1))
qed

lemma key_view:
  assumes "um_data keys = pre @ k @ post" "fits (um_data keys)"
  shows "sub_umem keys (usize pre) (usize k) = Done \<lparr>um_addr = um_addr keys + usize pre, um_data = k\<rparr>"
    "\<not> usize (um_data keys) < usize pre + usize k"
  using assms view_inside [of pre k post] by (auto simp: sub_umem_append)

lemma length_loop_law:
  assumes "db_ok s" "um_data keys = pre @ concat ks @ post" "fits (um_data keys)"
    "length vsizes = length done + length ks" "done = take (length done) vsizes"
  shows "kv_length_loop C False keys (map usize ks) (usize pre) (length done) vsizes env s
           = Done (OK, done @ map (value_size (content s)) ks, env, s)"
  using assms
proof (induction ks arbitrary: pre "done" vsizes)
  case Nil
  then show ?case by simp
next
  case (Cons k ks)
  let ?n = "value_size (content s) k"
  let ?vs = "vsizes[length done := ?n]"
  have "kv_length_loop C False keys (map usize ks) (usize (pre @ k)) (length (done @ [?n])) ?vs env s
      = Done (OK, (done @ [?n]) @ map (value_size (content s)) ks, env, s)"
    using Cons.prems by (intro Cons.IH) (auto simp: take_Suc_conv_app_nth)
  moreover have "um_data keys = pre @ k @ concat ks @ post"
    using Cons.prems by simp
  note key_view [OF this]
  ultimately show ?case
    using Cons.prems
    by (cases "content s k")
      (auto simp: find_law_no_wait [OF Cons.prems(1)] usize_append value_size_def)
qed

lemma length_law:
  assumes "db_ok s" "\<not> m_migrated s" "packs (um_data keys) ks ksizes"
    "\<not> has_mode mode YOKAN_MODE_WAIT" "length vsizes = length ks"
  shows "kv_length C mode keys ksizes vsizes env s
    = Done (OK, map (value_size (content s)) ks, env, s)"
proof -
  obtain post where k: "ksizes = map usize ks" "fits (um_data keys)"
    "um_data keys = concat ks @ post"
    using assms(3) by (rule packsE)
  show ?thesis
    using length_loop_law [OF assms(1), of keys "[]" ks post vsizes "[]" env] k assms
    by (simp add: kv_length_def)
qed

subsection \<open>erase\<close>

lemma erase_loop_law:
  assumes "db_ok s" "um_data keys = pre @ concat ks @ post" "fits (um_data keys)"
  shows "\<exists>s'. kv_erase_loop C False keys (map usize ks) (usize pre) env s = Done (OK, env, s')
      \<and> db_ok s' \<and> content s' = content s |` (- set ks) \<and> m_migrated s' = m_migrated s"
  using assms
proof (induction ks arbitrary: pre s)
  case Nil
  then show ?case by (simp add: restrict_map_def)
next
  case (Cons k ks)
  define s1 where "s1 = (if k \<in> dom (content s) then s\<lparr> m_db := c_erase C k (m_db s) \<rparr> else s)"
  have s1: "db_ok s1" "content s1 = (content s)(k := None)" "m_migrated s1 = m_migrated s"
    using Cons.prems(1) by (auto simp: s1_def erase_inv erase_abs)
  have "\<exists>s'. kv_erase_loop C False keys (map usize ks) (usize (pre @ k)) env s1 = Done (OK, env, s')
      \<and> db_ok s' \<and> content s' = content s1 |` (- set ks) \<and> m_migrated s' = m_migrated s1"
    using Cons.prems s1 by (intro Cons.IH) auto
  moreover have "um_data keys = pre @ k @ concat ks @ post"
    using Cons.prems by simp
  note key_view [OF this Cons.prems(3)]
  then have "kv_erase_loop C False keys (map usize (k # ks)) (usize pre) env s
      = kv_erase_loop C False keys (map usize ks) (usize (pre @ k)) env s1"
    by (cases "content s k")
      (auto simp: find_law_no_wait [OF Cons.prems(1)] usize_append s1_def)
  moreover have "content s1 |` (- set ks) = content s |` (- set (k # ks))"
    by (auto simp: s1 restrict_map_def)
  ultimately show ?case using s1(3) by auto
qed

lemma erase_law:
  assumes "db_ok s" "\<not> m_migrated s" "packs (um_data keys) ks ksizes"
    "\<not> has_mode mode YOKAN_MODE_WAIT"
  obtains s' where "kv_erase C mode keys ksizes env s = Done (OK, env, s')"
    "db_ok s'" "content s' = content s |` (- set ks)" "m_migrated s' = m_migrated s"
proof -
  obtain post where "ksizes = map usize ks" "fits (um_data keys)"
    "um_data keys = concat ks @ post"
    using assms(3) by (rule packsE)
  then show thesis
    using that erase_loop_law [OF assms(1), of keys "[]" ks post env] assms
    by (auto simp: kv_erase_def)
qed

subsection \<open>fetch\<close>

lemma fetch_loop_law:
  assumes "db_ok s" "um_data keys = pre @ concat ks @ post" "fits (um_data keys)"
  shows "kv_fetch_loop C False keys (map usize ks) func (usize pre) st env s
    = (case run_calls func (map (\<lambda>k. (k, content s k)) ks) st of
         (status, st') \<Rightarrow> Done (status, st', env, s))"
  using assms
proof (induction ks arbitrary: pre st)
  case Nil
  then show ?case by simp
next
  case (Cons k ks)
  have split: "um_data keys = pre @ k @ concat ks @ post" using Cons.prems by simp
  note key = key_view [OF split Cons.prems(3)]
  show ?case
    using Cons.IH [of "pre @ k"] Cons.prems key
    by (cases "content s k")
      (auto simp: find_law_no_wait [OF Cons.prems(1)] usize_append Let_def split: prod.splits)
qed

text \<open>The map backend runs the callback on every key, whatever it answers.\<close>

lemma map_fetch_loop_law:
  assumes "db_ok s" "um_data keys = pre @ concat ks @ post" "fits (um_data keys)"
  shows "map_fetch_loop C False keys (map usize ks) func (usize pre) st env s
    = Done (OK, fold (\<lambda>k st. snd (func k (content s k) st)) ks st, env, s)"
  using assms
proof (induction ks arbitrary: pre st)
  case Nil
  then show ?case by simp
next
  case (Cons k ks)
  have split: "um_data keys = pre @ k @ concat ks @ post" using Cons.prems by simp
  note key = key_view [OF split Cons.prems(3)]
  show ?case
    using Cons.IH [of "pre @ k"] Cons.prems key
    by (cases "content s k")
      (auto simp: find_law_no_wait [OF Cons.prems(1)] usize_append Let_def split: prod.splits)
qed

end

text \<open>A container that also stores values.\<close>

locale kv_container = kv_reader C abs inv
  for C :: "'c container" and abs :: "'c \<Rightarrow> bytes \<rightharpoonup> bytes" and inv :: "'c \<Rightarrow> bool" +
  assumes emplace_inv: "inv c \<Longrightarrow> inv (fst (c_emplace C k v c))"
    and emplace_abs: "inv c \<Longrightarrow> abs (fst (c_emplace C k v c))
          = (if k \<in> dom (abs c) then abs c else (abs c)(k \<mapsto> v))"
    and emplace_new: "inv c \<Longrightarrow> snd (c_emplace C k v c) \<longleftrightarrow> k \<notin> dom (abs c)"
    and store_inv: "inv c \<Longrightarrow> inv (c_store C k v c)"
    and store_abs: "inv c \<Longrightarrow> k \<in> dom (abs c) \<Longrightarrow> abs (c_store C k v c) = (abs c)(k \<mapsto> v)"
begin

subsection \<open>put\<close>

lemma put_one_law:
  assumes "db_ok s"
  obtains s' where
    "kv_put_one C mode single key (Done v) s
       = Done (fst (put_one_spec mode single (content s) (um_data key) v), s')"
    "db_ok s'" "content s' = snd (put_one_spec mode single (content s) (um_data key) v)"
    "m_migrated s' = m_migrated s"
proof -
  let ?k = "um_data key" and ?c = "m_db s"
  obtain db' ins where em: "c_emplace C ?k v ?c = (db', ins)" by (cases "c_emplace C ?k v ?c")
  have em': "inv db'" "abs db' = (if ?k \<in> dom (abs ?c) then abs ?c else (abs ?c)(?k \<mapsto> v))"
    "ins \<longleftrightarrow> ?k \<notin> dom (abs ?c)"
    using emplace_inv [OF assms, of ?k v] emplace_abs [OF assms, of ?k v]
      emplace_new [OF assms, of ?k v] em by simp_all
  have "\<exists>s'. kv_put_one C mode single key (Done v) s
       = Done (fst (put_one_spec mode single (content s) ?k v), s')
     \<and> db_ok s' \<and> content s' = snd (put_one_spec mode single (content s) ?k v)
     \<and> m_migrated s' = m_migrated s"
    using em em'
    by (auto simp: kv_put_one_def put_one_spec_def Let_def find_law [OF assms] store_abs store_inv
        assms domIff split: option.splits)
  then show thesis using that by blast
qed

lemma put_loop_law:
  assumes "length ks = length vs" "db_ok s"
    "um_data keys = kpre @ concat ks @ kpost" "fits (um_data keys)"
    "vals = vpre @ concat vs @ vpost" "fits vals"
  shows "\<exists>s'. kv_put_loop C mode single keys vals (zip (map usize ks) (map usize vs))
             (usize kpre) (usize vpre) s
           = Done (fst (put_spec mode single (content s) (zip ks vs)), s')
         \<and> db_ok s' \<and> content s' = snd (put_spec mode single (content s) (zip ks vs))
         \<and> m_migrated s' = m_migrated s"
  using assms
proof (induction ks vs arbitrary: s kpre vpre rule: list_induct2)
  case Nil
  then show ?case by simp
next
  case (Cons k ks v vs)
  let ?key = "\<lparr>um_addr = um_addr keys + usize kpre, um_data = k\<rparr>"
  have kv: "sub_umem keys (usize kpre) (usize k) = Done ?key"
    using Cons.prems by (intro sub_umem_append [where post = "concat ks @ kpost"]) auto
  have vv: "sub_bytes vals (usize vpre) (usize v) = Done v"
    using Cons.prems by (simp add: sub_bytes_append)
  obtain s1 where s1: "kv_put_one C mode single ?key (Done v) s
       = Done (fst (put_one_spec mode single (content s) k v), s1)"
    "db_ok s1" "content s1 = snd (put_one_spec mode single (content s) k v)"
    "m_migrated s1 = m_migrated s"
    using put_one_law [OF Cons.prems(1), of mode single ?key v] by auto
  have offs: "usize kpre + usize k = usize (kpre @ k)" "usize vpre + usize v = usize (vpre @ v)"
    by (simp_all add: usize_append)
  obtain st m' where sp: "put_one_spec mode single (content s) k v = (st, m')"
    by (cases "put_one_spec mode single (content s) k v")
  show ?case
  proof (cases "st = OK")
    case True
    have "\<exists>s'. kv_put_loop C mode single keys vals (zip (map usize ks) (map usize vs))
             (usize (kpre @ k)) (usize (vpre @ v)) s1
           = Done (fst (put_spec mode single (content s1) (zip ks vs)), s')
         \<and> db_ok s' \<and> content s' = snd (put_spec mode single (content s1) (zip ks vs))
         \<and> m_migrated s' = m_migrated s1"
      using Cons.prems s1 by (intro Cons.IH) auto
    then show ?thesis using True kv vv s1 sp by (auto simp: offs)
  next
    case False
    then show ?thesis using kv vv s1 sp by auto
  qed
qed

lemma put_law:
  assumes "db_ok s" "\<not> m_migrated s" "packs (um_data keys) ks ksizes" "packs vals vs vsizes"
    "length ks = length vs"
  obtains s' where
    "kv_put C mode keys ksizes vals vsizes s
       = Done (fst (put_spec mode (length ks = 1) (content s) (zip ks vs)), s')"
    "db_ok s'" "content s' = snd (put_spec mode (length ks = 1) (content s) (zip ks vs))"
    "m_migrated s' = m_migrated s"
proof -
  obtain kpost where k: "ksizes = map usize ks" "fits (um_data keys)"
    "um_data keys = concat ks @ kpost"
    using assms(3) by (rule packsE)
  obtain vpost where v: "vsizes = map usize vs" "fits vals" "vals = concat vs @ vpost"
    using assms(4) by (rule packsE)
  have "kv_put C mode keys ksizes vals vsizes s
     = kv_put_loop C mode (length ks = 1) keys vals (zip (map usize ks) (map usize vs))
         (usize []) (usize []) s"
    using assms packs_accumulate [OF assms(3)] packs_accumulate [OF assms(4)]
    by (simp add: kv_put_def k(1) v(1))
  then show thesis
    using that put_loop_law [OF assms(5,1), of keys "[]" kpost vals "[]" vpost mode "length ks = 1"]
      k v by auto
qed

subsection \<open>get\<close>

lemma get_packed_loop_law:
  assumes "db_ok s" "um_data keys = pre @ concat ks @ post" "fits (um_data keys)"
    "\<not> has_mode mode YOKAN_MODE_WAIT" "\<forall>v \<in> ran (content s). sized v"
    "g_vals out = vpre @ vrest" "fits (g_vals out)"
    "g_vsizes out = done @ todo" "length todo = length ks"
  shows "kv_get_packed_loop C mode keys (map usize ks) (length done) (usize pre) (usize vpre)
           (usize vrest) full out env s
         = (case pack_spec (content s) (length vrest) full ks of (ns, vs) \<Rightarrow>
             Done (OK, out\<lparr> g_vals := vpre @ vs @ drop (length vs) vrest,
               g_size := g_size out - (usize vrest - usize vs),
               g_vsizes := done @ ns \<rparr>, env, s))"
  using assms
proof (induction ks arbitrary: pre vpre vrest full out "done" todo)
  case Nil
  then show ?case by simp
next
  case (Cons k ks)
  obtain t todo' where todo: "todo = t # todo'" "length todo' = length ks"
    using Cons.prems(9) by (cases todo) auto
  have split: "um_data keys = pre @ k @ concat ks @ post"
    using Cons.prems by simp
  note key = key_view [OF this Cons.prems(3)]
  have next_off: "usize pre + usize k = usize (pre @ k)"
    by (simp add: usize_append)
  have upd: "(done @ todo)[length done := n] = (done @ [n]) @ todo'" for n
    by (simp add: todo)
  have skip: "kv_get_packed_loop C mode keys (map usize ks) (Suc (length done)) (usize (pre @ k))
       (usize vpre) (usize vrest) full' (out\<lparr> g_vsizes := (done @ [n]) @ todo' \<rparr>) env s
     = (case pack_spec (content s) (length vrest) full' ks of (ns, vs) \<Rightarrow>
         Done (OK, out\<lparr> g_vals := vpre @ vs @ drop (length vs) vrest,
           g_size := g_size out - (usize vrest - usize vs),
           g_vsizes := (done @ [n]) @ ns \<rparr>, env, s))" for n full'
    using Cons.IH [of "pre @ k" "out\<lparr> g_vsizes := (done @ [n]) @ todo' \<rparr>" vpre vrest
        "done @ [n]" todo' full'] Cons.prems todo by simp
  show ?case
  proof (cases "content s k")
    case None
    then show ?thesis
      using skip [of full YOKAN_KEY_NOT_FOUND] Cons.prems key
      by (simp add: find_law_no_wait [OF Cons.prems(1)] next_off upd split: prod.splits)
  next
    case (Some v)
    then have v: "sized v" using Cons.prems(5) by (auto intro: ranI)
    note ns = sized_usize [OF v]
    have fr: "fits vrest" using Cons.prems(6,7) by simp
    show ?thesis
    proof (cases "full \<or> length vrest < length v")
      case True
      have keep: "out\<lparr> g_vals := vpre @ vrest, g_vsizes := x \<rparr> = out\<lparr> g_vsizes := x \<rparr>" for x
        using Cons.prems(6) by (cases out) simp
      have "\<not> full \<Longrightarrow> usize vrest < usize v"
        using True fr v by (simp add: word_less_nat_alt unat_usize sized_fits)
      then show ?thesis
        using skip [of True YOKAN_SIZE_TOO_SMALL] Cons.prems key Some True
        by (auto simp: find_law_no_wait [OF Cons.prems(1)] next_off upd valCopy_too_small
            Let_def keep split: prod.splits)
    next
      case False
      then have le: "length v \<le> length vrest" and nf: "\<not> full" by auto
      let ?old = "take (length v) vrest" and ?rest = "drop (length v) vrest"
      let ?out = "out\<lparr> g_vals := vpre @ v @ ?rest, g_vsizes := (done @ [usize v]) @ todo' \<rparr>"
      have cp: "valCopy mode (g_vals out) (usize vpre) (usize vrest) v
          = Done (usize v, vpre @ v @ ?rest)"
        using valCopy_fit [of vpre ?old ?rest v "usize vrest" mode] Cons.prems(6,7) le fr v
        by (simp add: usize_le_iff sized_fits)
      have rem: "usize ?rest = usize vrest - usize v" "usize vpre + usize v = usize (vpre @ v)"
        using le by (simp_all add: usize_def of_nat_diff)
      have "kv_get_packed_loop C mode keys (map usize ks) (length (done @ [usize v]))
          (usize (pre @ k)) (usize (vpre @ v)) (usize ?rest) False ?out env s
        = (case pack_spec (content s) (length ?rest) False ks of (ns, vs) \<Rightarrow>
           Done (OK, ?out\<lparr> g_vals := (vpre @ v) @ vs @ drop (length vs) ?rest,
             g_size := g_size ?out - (usize ?rest - usize vs),
             g_vsizes := (done @ [usize v]) @ ns \<rparr>, env, s))"
        using Cons.prems todo le by (intro Cons.IH) auto
      then show ?thesis
        using Some nf False key cp ns Cons.prems
        by (auto simp: find_law_no_wait [OF Cons.prems(1)] next_off upd Let_def rem usize_append
            algebra_simps add.commute split: prod.splits)
    qed
  qed
qed

lemma get_packed_law:
  assumes "db_ok s" "\<not> m_migrated s" "packs (um_data keys) ks ksizes" "fits vals"
    "\<not> has_mode mode YOKAN_MODE_WAIT" "\<not> has_mode mode YOKAN_MODE_CONSUME"
    "\<forall>v \<in> ran (content s). sized v" "length vsizes = length ks"
    "pack_spec (content s) (length vals) False ks = (ns, vs)"
  shows "kv_get C mode True keys ksizes vals vsizes env s
    = Done (OK, \<lparr> g_vals = vs @ drop (length vs) vals, g_size = usize vs, g_vsizes = ns \<rparr>, env, s)"
proof -
  obtain post where "ksizes = map usize ks" "fits (um_data keys)"
    "um_data keys = concat ks @ post"
    using assms(3) by (rule packsE)
  then show ?thesis
    using get_packed_loop_law [OF assms(1), of keys "[]" ks post mode
        "\<lparr> g_vals = vals, g_size = usize vals, g_vsizes = vsizes \<rparr>" "[]" vals "[]" vsizes False env]
      assms
    by (simp add: kv_get_def)
qed

text \<open>With \<open>CONSUME\<close>, and nobody in between, the keys are gone afterwards.\<close>

lemma get_consume_law:
  assumes "db_ok s" "\<not> m_migrated s" "packs (um_data keys) ks ksizes" "fits vals"
    "\<not> has_mode mode YOKAN_MODE_WAIT" "has_mode mode YOKAN_MODE_CONSUME"
    "\<forall>v \<in> ran (content s). sized v" "length vsizes = length ks"
    "pack_spec (content s) (length vals) False ks = (ns, vs)"
  obtains s' where "kv_get C mode True keys ksizes vals vsizes [] s
    = Done (OK, \<lparr> g_vals = vs @ drop (length vs) vals, g_size = usize vs, g_vsizes = ns \<rparr>, [], s')"
    "db_ok s'" "content s' = content s |` (- set ks)" "m_migrated s' = m_migrated s"
proof -
  obtain post where "ksizes = map usize ks" "fits (um_data keys)"
    "um_data keys = concat ks @ post"
    using assms(3) by (rule packsE)
  then have "kv_get_packed_loop C mode keys ksizes 0 0 0 (usize vals) False
      \<lparr> g_vals = vals, g_size = usize vals, g_vsizes = vsizes \<rparr> [] s
    = Done (OK, \<lparr> g_vals = vs @ drop (length vs) vals, g_size = usize vs, g_vsizes = ns \<rparr>, [], s)"
    using get_packed_loop_law [OF assms(1), of keys "[]" ks post mode
        "\<lparr> g_vals = vals, g_size = usize vals, g_vsizes = vsizes \<rparr>" "[]" vals "[]" vsizes False "[]"]
      assms by simp
  moreover obtain s' where s': "kv_erase C mode keys ksizes [] s = Done (OK, [], s')"
    "db_ok s'" "content s' = content s |` (- set ks)" "m_migrated s' = m_migrated s"
    using erase_law [OF assms(1-3,5)] by blast
  ultimately have "kv_get C mode True keys ksizes vals vsizes [] s
    = Done (OK, \<lparr> g_vals = vs @ drop (length vs) vals, g_size = usize vs, g_vsizes = ns \<rparr>, [], s')"
    using assms packs_length [OF assms(3)] by (simp add: kv_get_def)
  then show thesis using that s' by blast
qed

lemma get_loop_law:
  assumes "db_ok s" "um_data keys = pre @ concat ks @ post" "fits (um_data keys)"
    "\<not> has_mode mode YOKAN_MODE_WAIT" "\<forall>v \<in> ran (content s). sized v"
    "g_vals out = vpre @ concat slots @ vpost" "fits (g_vals out)"
    "g_vsizes out = done @ map usize slots" "length ks = length slots"
  shows "kv_get_loop C mode keys (map usize ks) (length done) (usize pre) (usize vpre) out env s
         = Done (OK, out\<lparr>
             g_vals := vpre @ concat (map2 (\<lambda>k sl. snd (slot_spec (content s) k sl)) ks slots) @ vpost,
             g_vsizes := done @ map2 (\<lambda>k sl. fst (slot_spec (content s) k sl)) ks slots \<rparr>, env, s)"
  using assms(9,1-8)
proof (induction ks slots arbitrary: pre vpre out "done" rule: list_induct2)
  case Nil
  then show ?case by simp
next
  case (Cons k ks slot slots)
  let ?n = "fst (slot_spec (content s) k slot)" and ?sl = "snd (slot_spec (content s) k slot)"
  let ?out = "out\<lparr> g_vals := vpre @ ?sl @ concat slots @ vpost,
                   g_vsizes := (done @ [?n]) @ map usize slots \<rparr>"
  have split: "um_data keys = pre @ k @ concat ks @ post"
    using Cons.prems by simp
  note key = key_view [OF this Cons.prems(3)]
  have sl: "fits (vpre @ slot @ concat slots @ vpost)"
    using Cons.prems(6,7) by simp
  have "kv_get_loop C mode keys (map usize ks) (length (done @ [?n])) (usize (pre @ k))
      (usize (vpre @ slot)) ?out env s
    = Done (OK, ?out\<lparr>
        g_vals := (vpre @ ?sl) @ concat (map2 (\<lambda>k sl. snd (slot_spec (content s) k sl)) ks slots) @ vpost,
        g_vsizes := (done @ [?n]) @ map2 (\<lambda>k sl. fst (slot_spec (content s) k sl)) ks slots \<rparr>, env, s)"
  proof -
    have "usize (vpre @ slot) = usize (vpre @ ?sl)"
      by (simp add: usize_def slot_spec_length)
    then show ?thesis
      using Cons.prems sl slot_spec_length [of "content s" k slot]
        Cons.IH [of "pre @ k" ?out "vpre @ ?sl" "done @ [?n]"] by simp
  qed
  moreover have "valCopy mode (g_vals out) (usize vpre) (usize slot) v
      = Done (?n, vpre @ ?sl @ concat slots @ vpost)"
    if "content s k = Some v" for v
  proof (cases "length slot < length v")
    case True
    moreover have "sized v" using that Cons.prems(5) by (auto intro: ranI)
    ultimately have "usize slot < usize v"
      using sl by (simp add: word_less_nat_alt unat_usize sized_fits)
    then show ?thesis
      using that True Cons.prems(6) by (simp add: valCopy_too_small slot_spec_def)
  next
    case False
    moreover have "sized v" using that Cons.prems(5) by (auto intro: ranI)
    ultimately show ?thesis
      using that Cons.prems(6) sl
        valCopy_fit [of vpre "take (length v) slot" "drop (length v) slot @ concat slots @ vpost"
          v "usize slot" mode]
      by (simp add: slot_spec_def usize_le_iff sized_fits append_assoc [symmetric]
          del: append_assoc)
  qed
  moreover have "content s k = None \<Longrightarrow>
      out\<lparr> g_vsizes := (done @ map usize (slot # slots))[length done := YOKAN_KEY_NOT_FOUND] \<rparr> = ?out"
    using Cons.prems(6) by (cases out) (simp add: slot_spec_def)
  ultimately show ?case
    using Cons.prems key
    by (cases "content s k")
      (auto simp: find_law_no_wait [OF Cons.prems(1)] usize_append Let_def)
qed

lemma get_unpacked_law:
  assumes "db_ok s" "\<not> m_migrated s" "packs (um_data keys) ks ksizes"
    "packs vals slots vsizes" "length ks = length slots"
    "\<not> has_mode mode YOKAN_MODE_WAIT" "\<not> has_mode mode YOKAN_MODE_CONSUME"
    "\<forall>v \<in> ran (content s). sized v"
  shows "kv_get C mode False keys ksizes vals vsizes env s
    = Done (OK, \<lparr> g_vals = concat (map2 (\<lambda>k sl. snd (slot_spec (content s) k sl)) ks slots)
                         @ drop (length (concat slots)) vals,
               g_size = usize vals,
               g_vsizes = map2 (\<lambda>k sl. fst (slot_spec (content s) k sl)) ks slots \<rparr>, env, s)"
proof -
  obtain post where k: "ksizes = map usize ks" "fits (um_data keys)"
    "um_data keys = concat ks @ post"
    using assms(3) by (rule packsE)
  obtain vpost where v: "vsizes = map usize slots" "fits vals" "vals = concat slots @ vpost"
    using assms(4) by (rule packsE)
  show ?thesis
    using get_loop_law [OF assms(1), of keys "[]" ks post mode
        "\<lparr> g_vals = vals, g_size = usize vals, g_vsizes = vsizes \<rparr>" "[]" slots vpost "[]" env]
      k v assms
    by (simp add: kv_get_def)
qed

end

end
