(* ===== verification/StdContainers.thy ===== *)
theory StdContainers
  imports KvContract "HOL-Library.Multiset"
begin

text \<open>
  The standard containers the in-memory backends store their data in. \<open>std::map\<close> and
  \<open>std::set\<close> are lists of nodes in comparator order; \<open>key\<close> projects a node to its key, so
  one set of operations serves both. \<open>std::unordered_map\<close> and \<open>std::unordered_set\<close> are lists
  of nodes with distinct keys in an order the implementation chooses: \<open>layout\<close> may rearrange
  the nodes after every insertion, as rehashing does.
\<close>

section \<open>Ordered containers\<close>

definition lower_bound :: "(bytes \<Rightarrow> bytes \<Rightarrow> bool) \<Rightarrow> ('e \<Rightarrow> bytes) \<Rightarrow> bytes \<Rightarrow> 'e list \<Rightarrow> 'e list" where
  "lower_bound lt key k es = dropWhile (\<lambda>e. lt (key e) k) es"

definition upper_bound :: "(bytes \<Rightarrow> bytes \<Rightarrow> bool) \<Rightarrow> ('e \<Rightarrow> bytes) \<Rightarrow> bytes \<Rightarrow> 'e list \<Rightarrow> 'e list" where
  "upper_bound lt key k es = dropWhile (\<lambda>e. \<not> lt k (key e)) es"

definition node_find :: "(bytes \<Rightarrow> bytes \<Rightarrow> bool) \<Rightarrow> ('e \<Rightarrow> bytes) \<Rightarrow> bytes \<Rightarrow> 'e list \<Rightarrow> 'e option" where
  "node_find lt key k es =
     (case lower_bound lt key k es of
        [] \<Rightarrow> None
      | e # _ \<Rightarrow> if lt k (key e) then None else Some e)"

text \<open>\<open>emplace\<close>: the flag tells whether a node was inserted.\<close>

definition node_emplace :: "(bytes \<Rightarrow> bytes \<Rightarrow> bool) \<Rightarrow> ('e \<Rightarrow> bytes) \<Rightarrow> 'e \<Rightarrow> 'e list \<Rightarrow> 'e list \<times> bool" where
  "node_emplace lt key e es =
     (case node_find lt key (key e) es of
        Some _ \<Rightarrow> (es, False)
      | None \<Rightarrow> (takeWhile (\<lambda>x. lt (key x) (key e)) es @ e # lower_bound lt key (key e) es, True))"

text \<open>Rewriting the node found at \<open>k\<close>, and erasing it.\<close>

definition node_update :: "(bytes \<Rightarrow> bytes \<Rightarrow> bool) \<Rightarrow> ('e \<Rightarrow> bytes) \<Rightarrow> bytes \<Rightarrow> ('e \<Rightarrow> 'e) \<Rightarrow> 'e list \<Rightarrow> 'e list" where
  "node_update lt key k f es =
     (case lower_bound lt key k es of
        [] \<Rightarrow> es
      | e # rest \<Rightarrow> if lt k (key e) then es
                     else takeWhile (\<lambda>x. lt (key x) k) es @ f e # rest)"

definition node_erase :: "(bytes \<Rightarrow> bytes \<Rightarrow> bool) \<Rightarrow> ('e \<Rightarrow> bytes) \<Rightarrow> bytes \<Rightarrow> 'e list \<Rightarrow> 'e list" where
  "node_erase lt key k es =
     (case lower_bound lt key k es of
        [] \<Rightarrow> es
      | e # rest \<Rightarrow> if lt k (key e) then es
                     else takeWhile (\<lambda>x. lt (key x) k) es @ rest)"

definition nodes_ok :: "(bytes \<Rightarrow> bytes \<Rightarrow> bool) \<Rightarrow> ('e \<Rightarrow> bytes) \<Rightarrow> 'e list \<Rightarrow> bool" where
  "nodes_ok lt key es \<longleftrightarrow> sorted_wrt lt (map key es)"

text \<open>An ordered container splits at a key into what precedes it and the lower bound.\<close>

lemma lower_bound_split:
  obtains below where "es = below @ lower_bound lt key k es"
    "takeWhile (\<lambda>x. lt (key x) k) es = below" "\<And>x. x \<in> set below \<Longrightarrow> lt (key x) k"
  by (rule that [of "takeWhile (\<lambda>x. lt (key x) k) es"])
    (auto simp: lower_bound_def dest: set_takeWhileD)

context weak_comparator
begin

lemma lower_bound_above:
  assumes "nodes_ok lt key es" "x \<in> set (lower_bound lt key k es)"
  shows "\<not> lt (key x) k"
proof -
  have "sorted_wrt (\<lambda>a b. lt (key a) (key b)) es"
    using assms(1) by (simp add: nodes_ok_def sorted_wrt_map)
  from this _ assms(2) [unfolded lower_bound_def] show ?thesis
    by (rule dropWhile_upward) (use lt_trans in blast)
qed

lemma emplace_ok:
  assumes "nodes_ok lt key es"
  shows "nodes_ok lt key (fst (node_emplace lt key e es))"
proof (cases "node_find lt key (key e) es")
  case (Some a)
  then show ?thesis using assms by (simp add: node_emplace_def)
next
  case None
  obtain below where b: "es = below @ lower_bound lt key (key e) es"
    "takeWhile (\<lambda>x. lt (key x) (key e)) es = below" "\<And>x. x \<in> set below \<Longrightarrow> lt (key x) (key e)"
    using lower_bound_split [of es lt key "key e"] by metis
  let ?lb = "lower_bound lt key (key e) es"
  have srt: "sorted_wrt (\<lambda>a b. lt (key a) (key b)) (below @ ?lb)"
    using assms b(1) by (simp add: nodes_ok_def sorted_wrt_map)
  have "lt (key e) (key y)" if "y \<in> set ?lb" for y
  proof (cases ?lb)
    case (Cons x xs)
    then have "lt (key e) (key x)"
      using None by (auto simp: node_find_def split: if_splits)
    moreover have "y = x \<or> lt (key x) (key y)"
      using that srt Cons by (auto simp: sorted_wrt_append)
    ultimately show ?thesis using lt_trans by blast
  qed (use that in simp)
  then have "sorted_wrt (\<lambda>a b. lt (key a) (key b)) (below @ e # ?lb)"
    using srt b(3) by (intro sorted_wrt_insert_mid) auto
  then have "nodes_ok lt key (below @ e # ?lb)"
    unfolding nodes_ok_def sorted_wrt_map .
  then show ?thesis
    using None b(2) by (simp add: node_emplace_def)
qed

lemma erase_ok:
  assumes "nodes_ok lt key es"
  shows "nodes_ok lt key (node_erase lt key k es)"
proof (cases "lower_bound lt key k es")
  case Nil
  then show ?thesis using assms by (simp add: node_erase_def)
next
  case (Cons e rest)
  then have es: "es = takeWhile (\<lambda>x. lt (key x) k) es @ e # rest"
    unfolding lower_bound_def by (metis takeWhile_dropWhile_id)
  have "sorted_wrt (\<lambda>a b. lt (key a) (key b)) (takeWhile (\<lambda>x. lt (key x) k) es @ e # rest)"
    using assms(1) es by (simp add: nodes_ok_def sorted_wrt_map)
  then show ?thesis using assms Cons
    by (auto simp: node_erase_def nodes_ok_def sorted_wrt_map sorted_wrt_append)
qed

lemma update_ok:
  assumes "nodes_ok lt key es" "\<And>e. key (f e) = key e"
  shows "nodes_ok lt key (node_update lt key k f es)"
proof (cases "lower_bound lt key k es")
  case Nil
  then show ?thesis using assms by (simp add: node_update_def)
next
  case (Cons e rest)
  then have es: "es = takeWhile (\<lambda>x. lt (key x) k) es @ e # rest"
    unfolding lower_bound_def by (metis takeWhile_dropWhile_id)
  have "sorted_wrt (\<lambda>a b. lt (key a) (key b)) (takeWhile (\<lambda>x. lt (key x) k) es @ e # rest)"
    using assms(1) es by (simp add: nodes_ok_def sorted_wrt_map)
  then show ?thesis using assms Cons
    by (auto simp: node_update_def nodes_ok_def sorted_wrt_map sorted_wrt_append)
qed

end

text \<open>
  Under a total comparator, \<open>find\<close> is search by equality and the lower bound starts at the
  key.
\<close>

context total_comparator
begin

lemma find_iff:
  assumes "nodes_ok lt key es"
  shows "node_find lt key k es = Some e \<longleftrightarrow> e \<in> set es \<and> key e = k"
proof -
  obtain below where b: "es = below @ lower_bound lt key k es"
    "\<And>x. x \<in> set below \<Longrightarrow> lt (key x) k"
    using lower_bound_split [of es lt key k] by metis
  have srt: "sorted_wrt (\<lambda>a b. lt (key a) (key b)) (below @ lower_bound lt key k es)"
    using assms b(1) by (simp add: nodes_ok_def sorted_wrt_map)
  have nb: "key x \<noteq> k" if "x \<in> set below" for x
    using b(2) [OF that] lt_irrefl by auto
  show ?thesis
  proof (cases "lower_bound lt key k es")
    case Nil
    then show ?thesis using b(1) nb by (auto simp: node_find_def)
  next
    case (Cons x xs)
    have nx: "\<not> lt (key x) k"
      using lower_bound_above [OF assms, of x k] Cons by simp
    have after: "lt (key x) (key y)" if "y \<in> set xs" for y
      using srt Cons that by (auto simp: sorted_wrt_append)
    have set: "set es = set below \<union> insert x (set xs)"
      using b(1) Cons by (metis list.set(2) set_append)
    show ?thesis
    proof (cases "lt k (key x)")
      case True
      then have "key y \<noteq> k" if "y \<in> insert x (set xs)" for y
        using that after lt_trans lt_irrefl by blast
      then show ?thesis using True Cons nb set by (auto simp: node_find_def)
    next
      case False
      then have "key x = k" using nx not_lt_iff by blast
      moreover have "key y \<noteq> k" if "y \<in> set xs" for y
        using after [OF that] \<open>key x = k\<close> lt_irrefl by auto
      ultimately show ?thesis using False Cons nb set by (auto simp: node_find_def)
    qed
  qed
qed

lemma find_None_iff:
  "nodes_ok lt key es \<Longrightarrow> node_find lt key k es = None \<longleftrightarrow> k \<notin> key ` set es"
  using find_iff [of key es k] by (cases "node_find lt key k es") force+

lemma nodes_distinct: "nodes_ok lt key es \<Longrightarrow> distinct (map key es)"
  by (simp add: nodes_ok_def sorted_distinct)

lemma find_map_of:
  assumes "nodes_ok lt fst m"
  shows "map_option snd (node_find lt fst k m) = map_of m k"
proof (cases "node_find lt fst k m")
  case None
  then have "k \<notin> fst ` set m" using find_None_iff [OF assms] by blast
  then show ?thesis using None by (metis map_of_eq_None_iff option.simps(8))
next
  case (Some e)
  then have "e \<in> set m" "fst e = k" using find_iff [OF assms] by auto
  then have "map_of m k = Some (snd e)"
    using nodes_distinct [OF assms] by (metis map_of_eq_Some_iff prod.collapse)
  then show ?thesis using Some by simp
qed

lemma set_emplace:
  assumes "nodes_ok lt key es"
  shows "set (fst (node_emplace lt key e es))
    = (if key e \<in> key ` set es then set es else insert e (set es))"
    "snd (node_emplace lt key e es) \<longleftrightarrow> key e \<notin> key ` set es"
proof -
  have "set es = set (takeWhile (\<lambda>x. lt (key x) (key e)) es) \<union> set (lower_bound lt key (key e) es)"
    unfolding lower_bound_def by (metis set_append takeWhile_dropWhile_id)
  then show "set (fst (node_emplace lt key e es))
    = (if key e \<in> key ` set es then set es else insert e (set es))"
    "snd (node_emplace lt key e es) \<longleftrightarrow> key e \<notin> key ` set es"
    using find_None_iff [OF assms, of "key e"]
    by (auto simp: node_emplace_def split: option.split)
qed

lemma erase_filter:
  assumes "nodes_ok lt key es"
  shows "node_erase lt key k es = filter (\<lambda>e. key e \<noteq> k) es"
proof -
  obtain below where b: "es = below @ lower_bound lt key k es"
    "takeWhile (\<lambda>x. lt (key x) k) es = below" "\<And>x. x \<in> set below \<Longrightarrow> lt (key x) k"
    using lower_bound_split [of es lt key k] by metis
  have srt: "sorted_wrt (\<lambda>a b. lt (key a) (key b)) (below @ lower_bound lt key k es)"
    using assms b(1) by (simp add: nodes_ok_def sorted_wrt_map)
  have fb: "filter (\<lambda>e. key e \<noteq> k) below = below"
    using b(3) lt_irrefl by (auto simp: filter_id_conv)
  have "filter (\<lambda>e. key e \<noteq> k) es = below @ filter (\<lambda>e. key e \<noteq> k) (lower_bound lt key k es)"
    using b(1) fb by (metis filter_append)
  moreover have "node_erase lt key k es
      = below @ filter (\<lambda>e. key e \<noteq> k) (lower_bound lt key k es)"
  proof (cases "lower_bound lt key k es")
    case Nil
    then show ?thesis using b by (simp add: node_erase_def)
  next
    case (Cons x xs)
    have nx: "\<not> lt (key x) k"
      using lower_bound_above [OF assms, of x k] Cons by simp
    have after: "lt (key x) (key y)" if "y \<in> set xs" for y
      using srt Cons that by (auto simp: sorted_wrt_append)
    show ?thesis
    proof (cases "lt k (key x)")
      case True
      then have "key y \<noteq> k" if "y \<in> insert x (set xs)" for y
        using that after lt_trans lt_irrefl by blast
      then have "filter (\<lambda>e. key e \<noteq> k) (x # xs) = x # xs"
        by (auto simp: filter_id_conv)
      then show ?thesis using True Cons b(1) by (simp add: node_erase_def)
    next
      case False
      then have "key x = k" using nx not_lt_iff by blast
      then have "key y \<noteq> k" if "y \<in> set xs" for y
        using after [OF that] lt_irrefl by metis
      then have "filter (\<lambda>e. key e \<noteq> k) (x # xs) = xs"
        using \<open>key x = k\<close> by (auto simp: filter_id_conv)
      then show ?thesis using False Cons b(2) by (simp add: node_erase_def)
    qed
  qed
  ultimately show ?thesis by simp
qed

text \<open>The position of a key that is present.\<close>

lemma node_split:
  assumes "nodes_ok lt key es" "node_find lt key k es = Some x"
  obtains below rest where "es = below @ x # rest" "lower_bound lt key k es = x # rest"
    "takeWhile (\<lambda>x. lt (key x) k) es = below" "\<not> lt k (key x)" "key x = k"
    "k \<notin> key ` set below" "k \<notin> key ` set rest"
proof -
  obtain rest where lb: "lower_bound lt key k es = x # rest" "\<not> lt k (key x)"
    using assms(2) by (auto simp: node_find_def split: list.splits if_splits)
  let ?b = "takeWhile (\<lambda>x. lt (key x) k) es"
  have es: "es = ?b @ x # rest"
    using lb(1) unfolding lower_bound_def by (metis takeWhile_dropWhile_id)
  have kx: "key x = k" using find_iff [OF assms(1)] assms(2) by blast
  have "distinct (map key (?b @ x # rest))"
    using nodes_distinct [OF assms(1)] es by simp
  then have "k \<notin> key ` set ?b" "k \<notin> key ` set rest"
    using kx by auto
  then show thesis using that [OF es lb(1) refl lb(2) kx] by blast
qed

end

section \<open>std::map\<close>

definition std_map :: "(bytes \<Rightarrow> bytes \<Rightarrow> bool) \<Rightarrow> (bytes \<times> bytes) list container" where
  "std_map lt = \<lparr>
     c_find = (\<lambda>es k. map_option snd (node_find lt fst k es)),
     c_emplace = (\<lambda>k v. node_emplace lt fst (k, v)),
     c_store = (\<lambda>k v. node_update lt fst k (\<lambda>e. (fst e, v))),
     c_erase = (\<lambda>k. node_erase lt fst k),
     c_size = length,
     c_clear = (\<lambda>_. []) \<rparr>"

lemma map_of_filter_key: "map_of (filter (\<lambda>e. fst e \<noteq> k) m) = (map_of m)(k := None)"
  by (induction m) auto

lemma card_dom_map_of: "distinct (map fst m) \<Longrightarrow> card (dom (map_of m)) = length m"
  by (metis distinct_card dom_map_of_conv_image_fst length_map list.set_map)

lemma map_of_mid:
  "k \<notin> fst ` set xs \<Longrightarrow> map_of (xs @ (k, v) # ys) = (map_of (xs @ ys))(k \<mapsto> v)"
  by (induction xs) (auto simp: fun_eq_iff)

sublocale total_comparator \<subseteq> map_kv: kv_container "std_map lt" map_of "nodes_ok lt fst"
proof
  fix c :: "(bytes \<times> bytes) list" and k v :: bytes
  assume ok: "nodes_ok lt fst c"
  show "c_find (std_map lt) c k = map_of c k"
    using find_map_of [OF ok] by (simp add: std_map_def)
  show "nodes_ok lt fst (fst (c_emplace (std_map lt) k v c))"
    using emplace_ok [OF ok] by (simp add: std_map_def)
  show "snd (c_emplace (std_map lt) k v c) = (k \<notin> dom (map_of c))"
    using set_emplace(2) [OF ok, of "(k, v)"] by (simp add: std_map_def dom_map_of_conv_image_fst)
  show "nodes_ok lt fst (c_store (std_map lt) k v c)"
    using update_ok [OF ok] by (simp add: std_map_def)
  show "nodes_ok lt fst (c_erase (std_map lt) k c)"
    using erase_ok [OF ok] by (simp add: std_map_def)
  show "map_of (c_erase (std_map lt) k c) = (map_of c)(k := None)"
    using erase_filter [OF ok] by (simp add: std_map_def map_of_filter_key)
  show "c_size (std_map lt) c = card (dom (map_of c))"
    using nodes_distinct [OF ok] by (simp add: std_map_def card_dom_map_of)
  show "map_of (fst (c_emplace (std_map lt) k v c))
      = (if k \<in> dom (map_of c) then map_of c else (map_of c)(k \<mapsto> v))"
  proof (cases "node_find lt fst k c")
    case None
    then have nk: "k \<notin> fst ` set c" using find_None_iff [OF ok] by blast
    let ?b = "takeWhile (\<lambda>x. lt (fst x) k) c"
    have c: "c = ?b @ lower_bound lt fst k c" by (simp add: lower_bound_def)
    have "map_of (?b @ (k, v) # lower_bound lt fst k c) = (map_of c)(k \<mapsto> v)"
    proof -
      have "k \<notin> fst ` set ?b" using nk by (auto dest: set_takeWhileD)
      then show ?thesis using map_of_mid c by metis
    qed
    then show ?thesis
      using None nk by (simp add: std_map_def node_emplace_def dom_map_of_conv_image_fst)
  next
    case (Some e)
    then have "e \<in> set c" "fst e = k" using find_iff [OF ok] by auto
    then have "k \<in> fst ` set c" by blast
    then show ?thesis
      using Some by (simp add: std_map_def node_emplace_def dom_map_of_conv_image_fst)
  qed
  assume "k \<in> dom (map_of c)"
  then obtain e where "node_find lt fst k c = Some e"
    using find_None_iff [OF ok, of k] by (metis dom_map_of_conv_image_fst not_None_eq)
  then obtain below rest where sp: "c = below @ e # rest" "lower_bound lt fst k c = e # rest"
    "takeWhile (\<lambda>x. lt (fst x) k) c = below" "\<not> lt k (fst e)" "fst e = k"
    "k \<notin> fst ` set below" "k \<notin> fst ` set rest"
    by (rule node_split [OF ok])
  have "map_of c = (map_of (below @ rest))(k \<mapsto> snd e)"
    using sp map_of_mid [of k below "snd e" rest] by (metis prod.collapse)
  then show "map_of (c_store (std_map lt) k v c) = (map_of c)(k \<mapsto> v)"
    using sp map_of_mid [of k below v rest]
    by (simp add: std_map_def node_update_def)
qed (simp_all add: std_map_def nodes_ok_def)

section \<open>std::unordered_map\<close>

definition hash_find :: "(bytes \<times> bytes) list \<Rightarrow> bytes \<Rightarrow> bytes option" where
  "hash_find es k = map_option snd (List.find (\<lambda>e. fst e = k) es)"

definition hash_map :: "((bytes \<times> bytes) list \<Rightarrow> (bytes \<times> bytes) list)
    \<Rightarrow> (bytes \<times> bytes) list container" where
  "hash_map layout = \<lparr>
     c_find = hash_find,
     c_emplace = (\<lambda>k v es. case hash_find es k of
                              Some _ \<Rightarrow> (es, False)
                            | None \<Rightarrow> (layout ((k, v) # es), True)),
     c_store = (\<lambda>k v. map (\<lambda>e. if fst e = k then (fst e, v) else e)),
     c_erase = (\<lambda>k. filter (\<lambda>e. fst e \<noteq> k)),
     c_size = length,
     c_clear = (\<lambda>_. []) \<rparr>"

lemma hash_find_map_of: "hash_find es = map_of es"
proof
  fix k show "hash_find es k = map_of es k"
    by (induction es) (auto simp: hash_find_def)
qed

lemma map_of_store:
  "k \<in> dom (map_of c) \<Longrightarrow>
    map_of (map (\<lambda>e. if fst e = k then (fst e, v) else e) c) = (map_of c)(k \<mapsto> v)"
proof -
  have "map_of (map (\<lambda>e. if fst e = k then (fst e, v) else e) c) x
      = (if x = k then map_option (\<lambda>_. v) (map_of c k) else map_of c x)" for x
    by (induction c) auto
  then show "k \<in> dom (map_of c) \<Longrightarrow> ?thesis" by auto
qed

text \<open>Rehashing may put the nodes in any order but keeps every one of them.\<close>

locale hash_layout =
  fixes layout :: "(bytes \<times> bytes) list \<Rightarrow> (bytes \<times> bytes) list"
  assumes layout_mset: "mset (layout es) = mset es"
begin

lemma layout_distinct: "distinct (map fst (layout es)) \<longleftrightarrow> distinct (map fst es)"
  by (metis layout_mset mset_eq_imp_distinct_iff mset_map)

lemma layout_set: "set (layout es) = set es"
  by (metis layout_mset set_mset_mset)

end

sublocale hash_layout \<subseteq> umap_kv: kv_container "hash_map layout" map_of "\<lambda>c. distinct (map fst c)"
proof
  fix c :: "(bytes \<times> bytes) list" and k v :: bytes
  assume ok: "distinct (map fst c)"
  have nk: "map_of c k = None \<longleftrightarrow> k \<notin> fst ` set c" by (simp add: map_of_eq_None_iff)
  show "c_find (hash_map layout) c k = map_of c k"
    by (simp add: hash_map_def hash_find_map_of)
  show "distinct (map fst (fst (c_emplace (hash_map layout) k v c)))"
    using ok nk by (auto simp: hash_map_def hash_find_map_of layout_distinct split: option.split)
  show "snd (c_emplace (hash_map layout) k v c) = (k \<notin> dom (map_of c))"
    by (auto simp: hash_map_def hash_find_map_of split: option.split)
  show "distinct (map fst (c_store (hash_map layout) k v c))"
  proof -
    have "map fst (map (\<lambda>e. if fst e = k then (fst e, v) else e) c) = map fst c"
      by (induction c) auto
    then show ?thesis using ok by (simp only: hash_map_def container.simps)
  qed
  show "distinct (map fst (c_erase (hash_map layout) k c))"
    using ok by (simp add: hash_map_def distinct_map_filter)
  show "map_of (c_erase (hash_map layout) k c) = (map_of c)(k := None)"
    by (simp add: hash_map_def map_of_filter_key)
  show "c_size (hash_map layout) c = card (dom (map_of c))"
    using ok by (simp add: hash_map_def card_dom_map_of)
  show "map_of (fst (c_emplace (hash_map layout) k v c))
      = (if k \<in> dom (map_of c) then map_of c else (map_of c)(k \<mapsto> v))"
  proof (cases "map_of c k")
    case None
    then have "distinct (map fst ((k, v) # c))" using ok nk by simp
    then have "map_of (layout ((k, v) # c)) = map_of ((k, v) # c)"
      by (metis layout_distinct layout_set map_of_inject_set)
    then show ?thesis using None by (auto simp: hash_map_def hash_find_map_of)
  next
    case (Some w)
    then show ?thesis by (auto simp: hash_map_def hash_find_map_of)
  qed
  assume "k \<in> dom (map_of c)"
  then show "map_of (c_store (hash_map layout) k v c) = (map_of c)(k \<mapsto> v)"
    by (simp add: hash_map_def map_of_store)
qed (simp_all add: hash_map_def)

text \<open>
  A table of \<open>n\<close> buckets walks the nodes bucket by bucket, as the standard libraries do for
  any hash function \<open>h\<close>.
\<close>

definition bucket_layout :: "(bytes \<Rightarrow> nat) \<Rightarrow> nat \<Rightarrow> (bytes \<times> bytes) list \<Rightarrow> (bytes \<times> bytes) list" where
  "bucket_layout h n es
     = concat (map (\<lambda>b. filter (\<lambda>e. h (fst e) mod Suc n = b) es) [0..<Suc n])"

lemma buckets_mset:
  "(\<And>e. e \<in> set es \<Longrightarrow> f e < n) \<Longrightarrow> mset (concat (map (\<lambda>b. filter (\<lambda>e. f e = b) es) [0..<n])) = mset es"
proof (induction n arbitrary: es)
  case 0
  then show ?case by (cases es) auto
next
  case (Suc n)
  let ?es = "filter (\<lambda>e. f e < n) es"
  have "mset (concat (map (\<lambda>b. filter (\<lambda>e. f e = b) ?es) [0..<n])) = mset ?es"
    by (rule Suc.IH) simp
  moreover have "map (\<lambda>b. filter (\<lambda>e. f e = b) ?es) [0..<n] = map (\<lambda>b. filter (\<lambda>e. f e = b) es) [0..<n]"
    by (auto intro!: filter_cong)
  ultimately have low: "mset (concat (map (\<lambda>b. filter (\<lambda>e. f e = b) es) [0..<n])) = mset ?es"
    by metis
  have "filter (\<lambda>e. f e = n) es = filter (\<lambda>e. \<not> f e < n) es"
    using Suc.prems by (intro filter_cong) (auto simp: less_Suc_eq)
  then have "mset (concat (map (\<lambda>b. filter (\<lambda>e. f e = b) es) [0..<Suc n]))
      = mset ?es + mset (filter (\<lambda>e. \<not> f e < n) es)"
    by (simp add: low)
  then show ?case
    by (metis multiset_partition mset_filter)
qed

interpretation bucket_order: hash_layout "bucket_layout h n"
  by unfold_locales (auto simp: bucket_layout_def simp del: upt_Suc intro!: buckets_mset)

end
