(* ===== verification/KeySets.thy ===== *)
theory KeySets
  imports StdContainers
begin

text \<open>
  The two backends that store keys without values, set.cpp and unordered_set.cpp. A key that
  is present reads as the empty value, so the reading half of \<open>KvEngine\<close> serves both; \<open>put\<close>
  and \<open>get\<close> are their own.
\<close>

section \<open>std::set and std::unordered_set\<close>

definition std_set :: "(bytes \<Rightarrow> bytes \<Rightarrow> bool) \<Rightarrow> bytes list container" where
  "std_set lt = \<lparr>
     c_find = (\<lambda>es k. map_option (\<lambda>_. []) (node_find lt (\<lambda>k. k) k es)),
     c_emplace = (\<lambda>k v. node_emplace lt (\<lambda>k. k) k),
     c_store = (\<lambda>k v es. es),
     c_erase = (\<lambda>k. node_erase lt (\<lambda>k. k) k),
     c_size = length,
     c_clear = (\<lambda>_. []) \<rparr>"

definition hash_set :: "(bytes list \<Rightarrow> bytes list) \<Rightarrow> bytes list container" where
  "hash_set layout = \<lparr>
     c_find = (\<lambda>es k. map_option (\<lambda>_. []) (List.find (\<lambda>e. e = k) es)),
     c_emplace = (\<lambda>k v es. if List.find (\<lambda>e. e = k) es \<noteq> None then (es, False)
                            else (layout (k # es), True)),
     c_store = (\<lambda>k v es. es),
     c_erase = (\<lambda>k. filter (\<lambda>e. e \<noteq> k)),
     c_size = length,
     c_clear = (\<lambda>_. []) \<rparr>"

section \<open>put\<close>

text \<open>
  The loop of \<open>put\<close>. In set.cpp the key handed to \<open>notifyKey\<close> starts at the offset already
  moved past the key. \<open>notifyKey\<close> reads it only when somebody waits.
\<close>

definition set_notify :: "bool \<Rightarrow> umem \<Rightarrow> size_t \<Rightarrow> size_t \<Rightarrow> 'c kv_db \<Rightarrow> 'c kv_db outcome" where
  "set_notify mode_notify keys off ksize s =
     (if mode_notify \<and> w_entries (m_watcher s) \<noteq> [] then
        obind (sub_umem keys off ksize) (\<lambda>key.
          Done (s\<lparr> m_watcher := notifyKey key (m_watcher s) \<rparr>))
      else Done s)"

fun set_put_loop :: "'c container \<Rightarrow> bool \<Rightarrow> umem \<Rightarrow> size_t list \<Rightarrow> size_t \<Rightarrow> 'c kv_db
    \<Rightarrow> (status \<times> 'c kv_db) outcome" where
  "set_put_loop C mode_notify keys [] key_offset s = Done (OK, s)"
| "set_put_loop C mode_notify keys (ksize # ksizes) key_offset s =
     obind (sub_umem keys key_offset ksize) (\<lambda>key.
     obind (set_notify mode_notify keys (key_offset + ksize) ksize
              (s\<lparr> m_db := fst (c_emplace C (um_data key) [] (m_db s)) \<rparr>)) (\<lambda>s'.
       set_put_loop C mode_notify keys ksizes (key_offset + ksize) s'))"

text \<open>The checks and early returns in front of the loop, common to both files.\<close>

definition set_put_body :: "'c container \<Rightarrow> bool \<Rightarrow> mode_t \<Rightarrow> umem \<Rightarrow> size_t list \<Rightarrow> 'c kv_db
    \<Rightarrow> (status \<times> 'c kv_db) outcome" where
  "set_put_body C mode_notify mode keys ksizes s =
     (if has_mode mode YOKAN_MODE_EXIST_ONLY then
        (if length ksizes = 1 then
           obind (sub_umem keys 0 (ksizes ! 0)) (\<lambda>key.
             Done (if c_find C (m_db s) (um_data key) = None then NotFound else OK, s))
         else Done (OK, s))
      else
        obind (if has_mode mode YOKAN_MODE_NEW_ONLY \<and> length ksizes = 1
               then obind (sub_umem keys 0 (ksizes ! 0)) (\<lambda>key.
                      Done (c_find C (m_db s) (um_data key) \<noteq> None))
               else Done False)
          (\<lambda>key_exists. if key_exists then Done (KeyExists, s)
                        else set_put_loop C mode_notify keys ksizes 0 s))"

definition set_put :: "(bytes \<Rightarrow> bytes \<Rightarrow> bool) \<Rightarrow> mode_t \<Rightarrow> umem \<Rightarrow> size_t list \<Rightarrow> bytes
    \<Rightarrow> size_t list \<Rightarrow> bytes list kv_db \<Rightarrow> (status \<times> bytes list kv_db) outcome" where
  "set_put lt mode keys ksizes vals vsizes s =
     (if m_migrated s then Done (Migrated, s)
      else if length ksizes \<noteq> length vsizes then Done (InvalidArg, s)
      else if length vals \<noteq> 0 then Done (InvalidArg, s)
      else if accumulate ksizes > usize (um_data keys) then Done (InvalidArg, s)
      else if accumulate vsizes \<noteq> 0 then Done (InvalidArg, s)
      else set_put_body (std_set lt) (has_mode mode YOKAN_MODE_NOTIFY) mode keys ksizes s)"

definition uset_put :: "(bytes list \<Rightarrow> bytes list) \<Rightarrow> mode_t \<Rightarrow> umem \<Rightarrow> size_t list \<Rightarrow> bytes
    \<Rightarrow> size_t list \<Rightarrow> bytes list kv_db \<Rightarrow> (status \<times> bytes list kv_db) outcome" where
  "uset_put layout mode keys ksizes vals vsizes s =
     (if length ksizes \<noteq> length vsizes then Done (InvalidArg, s)
      else if accumulate ksizes > usize (um_data keys) then Done (InvalidArg, s)
      else if accumulate vsizes > 0 then Done (InvalidArg, s)
      else if m_migrated s then Done (Migrated, s)
      else set_put_body (hash_set layout) False mode keys ksizes s)"

section \<open>get\<close>

fun set_get_loop :: "'c container \<Rightarrow> bool \<Rightarrow> umem \<Rightarrow> size_t list \<Rightarrow> nat \<Rightarrow> size_t
    \<Rightarrow> size_t list \<Rightarrow> 'c kv_act list \<Rightarrow> 'c kv_db
    \<Rightarrow> (status \<times> size_t list \<times> 'c kv_act list \<times> 'c kv_db) outcome" where
  "set_get_loop C mode_wait keys [] i key_offset vsizes env s = Done (OK, vsizes, env, s)"
| "set_get_loop C mode_wait keys (ksize # ksizes) i key_offset vsizes env s =
     obind (sub_umem keys key_offset ksize) (\<lambda>key.
     obind (find_retry (kv_look C (um_data key)) mode_wait key env s) (\<lambda>(r, env', s').
       case r of
         Found v \<Rightarrow> set_get_loop C mode_wait keys ksizes (Suc i) (key_offset + ksize)
                      (vsizes[i := 0]) env' s'
       | Missing \<Rightarrow> set_get_loop C mode_wait keys ksizes (Suc i) (key_offset + ksize)
                      (vsizes[i := YOKAN_KEY_NOT_FOUND]) env' s'
       | WaitFailed \<Rightarrow> Done (TimedOut, vsizes, env', s')))"

text \<open>\<open>get\<close> sets \<open>vals.size\<close> to 0 once the loop is over; the value bytes are not touched.\<close>

definition set_get_body :: "'c container \<Rightarrow> bool \<Rightarrow> mode_t \<Rightarrow> umem \<Rightarrow> size_t list \<Rightarrow> bytes
    \<Rightarrow> size_t list \<Rightarrow> 'c kv_act list \<Rightarrow> 'c kv_db
    \<Rightarrow> (status \<times> get_out \<times> 'c kv_act list \<times> 'c kv_db) outcome" where
  "set_get_body C mode_wait mode keys ksizes vals vsizes env s =
     (if length ksizes \<noteq> length vsizes then
        Done (InvalidArg, \<lparr> g_vals = vals, g_size = usize vals, g_vsizes = vsizes \<rparr>, env, s)
      else if m_migrated s then
        Done (Migrated, \<lparr> g_vals = vals, g_size = usize vals, g_vsizes = vsizes \<rparr>, env, s)
      else obind (set_get_loop C mode_wait keys ksizes 0 0 vsizes env s)
        (\<lambda>(st, vsizes', env', s').
           if st \<noteq> OK then
             Done (st, \<lparr> g_vals = vals, g_size = usize vals, g_vsizes = vsizes' \<rparr>, env', s')
           else
             let out = \<lparr> g_vals = vals, g_size = 0, g_vsizes = vsizes' \<rparr> in
             if has_mode mode YOKAN_MODE_CONSUME then
               (case yield_lock env' s' of (env'', s'') \<Rightarrow>
                  if m_migrated s'' then Done (Migrated, out, env'', s'')
                  else obind (kv_erase_loop C mode_wait keys ksizes 0 env'' s'')
                    (\<lambda>(st', env3, s3). Done (st', out, env3, s3)))
             else Done (OK, out, env', s')))"

definition set_get :: "(bytes \<Rightarrow> bytes \<Rightarrow> bool) \<Rightarrow> mode_t \<Rightarrow> bool \<Rightarrow> umem \<Rightarrow> size_t list \<Rightarrow> bytes
    \<Rightarrow> size_t list \<Rightarrow> bytes list kv_act list \<Rightarrow> bytes list kv_db
    \<Rightarrow> (status \<times> get_out \<times> bytes list kv_act list \<times> bytes list kv_db) outcome" where
  "set_get lt mode packed keys ksizes vals vsizes env s =
     set_get_body (std_set lt) (has_mode mode YOKAN_MODE_WAIT) mode keys ksizes vals vsizes env s"

definition uset_get :: "(bytes list \<Rightarrow> bytes list) \<Rightarrow> mode_t \<Rightarrow> bool \<Rightarrow> umem \<Rightarrow> size_t list
    \<Rightarrow> bytes \<Rightarrow> size_t list \<Rightarrow> bytes list kv_act list \<Rightarrow> bytes list kv_db
    \<Rightarrow> (status \<times> get_out \<times> bytes list kv_act list \<times> bytes list kv_db) outcome" where
  "uset_get layout mode packed keys ksizes vals vsizes env s =
     set_get_body (hash_set layout) False mode keys ksizes vals vsizes env s"

section \<open>The other operations of set.cpp\<close>

definition set_destroy :: "(bytes \<Rightarrow> bytes \<Rightarrow> bool) \<Rightarrow> bytes list kv_db \<Rightarrow> bytes list kv_db" where
  "set_destroy lt s = (if m_migrated s then s else kv_destroy (std_set lt) s)"

definition set_count :: "(bytes \<Rightarrow> bytes \<Rightarrow> bool) \<Rightarrow> mode_t \<Rightarrow> bytes list kv_db
    \<Rightarrow> status \<times> size_t option" where
  "set_count lt mode s = kv_count (std_set lt) mode s"

definition set_exists :: "(bytes \<Rightarrow> bytes \<Rightarrow> bool) \<Rightarrow> mode_t \<Rightarrow> umem \<Rightarrow> size_t list \<Rightarrow> bitfield
    \<Rightarrow> bytes list kv_act list \<Rightarrow> bytes list kv_db
    \<Rightarrow> (status \<times> bitfield \<times> bytes list kv_act list \<times> bytes list kv_db) outcome" where
  "set_exists lt mode keys ksizes flags env s = kv_exists (std_set lt) mode keys ksizes flags env s"

definition set_length :: "(bytes \<Rightarrow> bytes \<Rightarrow> bool) \<Rightarrow> mode_t \<Rightarrow> umem \<Rightarrow> size_t list
    \<Rightarrow> size_t list \<Rightarrow> bytes list kv_act list \<Rightarrow> bytes list kv_db
    \<Rightarrow> (status \<times> size_t list \<times> bytes list kv_act list \<times> bytes list kv_db) outcome" where
  "set_length lt mode keys ksizes vsizes env s = kv_length (std_set lt) mode keys ksizes vsizes env s"

definition set_erase :: "(bytes \<Rightarrow> bytes \<Rightarrow> bool) \<Rightarrow> mode_t \<Rightarrow> umem \<Rightarrow> size_t list
    \<Rightarrow> bytes list kv_act list \<Rightarrow> bytes list kv_db
    \<Rightarrow> (status \<times> bytes list kv_act list \<times> bytes list kv_db) outcome" where
  "set_erase lt mode keys ksizes env s = kv_erase (std_set lt) mode keys ksizes env s"

definition set_fetch :: "(bytes \<Rightarrow> bytes \<Rightarrow> bool) \<Rightarrow> mode_t \<Rightarrow> umem \<Rightarrow> size_t list \<Rightarrow> 'st fetch_cb
    \<Rightarrow> 'st \<Rightarrow> bytes list kv_act list \<Rightarrow> bytes list kv_db
    \<Rightarrow> (status \<times> 'st \<times> bytes list kv_act list \<times> bytes list kv_db) outcome" where
  "set_fetch lt mode keys ksizes func st env s =
     kv_fetch (std_set lt) (has_mode mode YOKAN_MODE_WAIT) mode keys ksizes func st env s"

definition set_supportsMode :: "bool \<Rightarrow> mode_t \<Rightarrow> bool" where
  "set_supportsMode has_lua mode = within_mask mode
     (YOKAN_MODE_INCLUSIVE OR YOKAN_MODE_APPEND OR YOKAN_MODE_CONSUME OR YOKAN_MODE_WAIT
      OR YOKAN_MODE_NOTIFY OR YOKAN_MODE_NEW_ONLY OR YOKAN_MODE_EXIST_ONLY
      OR YOKAN_MODE_NO_PREFIX OR YOKAN_MODE_IGNORE_KEYS OR YOKAN_MODE_KEEP_LAST
      OR YOKAN_MODE_SUFFIX OR (if has_lua then YOKAN_MODE_LUA_FILTER else 0)
      OR YOKAN_MODE_IGNORE_DOCS OR YOKAN_MODE_FILTER_VALUE OR YOKAN_MODE_LIB_FILTER
      OR YOKAN_MODE_NO_RDMA)"

section \<open>The other operations of unordered_set.cpp\<close>

text \<open>This backend never waits, whatever the mode.\<close>

definition uset_destroy :: "(bytes list \<Rightarrow> bytes list) \<Rightarrow> bytes list kv_db \<Rightarrow> bytes list kv_db" where
  "uset_destroy layout s = kv_destroy (hash_set layout) s"

definition uset_count :: "(bytes list \<Rightarrow> bytes list) \<Rightarrow> mode_t \<Rightarrow> bytes list kv_db
    \<Rightarrow> status \<times> size_t option" where
  "uset_count layout mode s = kv_count (hash_set layout) mode s"

definition uset_exists :: "(bytes list \<Rightarrow> bytes list) \<Rightarrow> mode_t \<Rightarrow> umem \<Rightarrow> size_t list
    \<Rightarrow> bitfield \<Rightarrow> bytes list kv_act list \<Rightarrow> bytes list kv_db
    \<Rightarrow> (status \<times> bitfield \<times> bytes list kv_act list \<times> bytes list kv_db) outcome" where
  "uset_exists layout mode keys ksizes flags env s =
     (if usize ksizes > bf_size flags then Done (InvalidArg, flags, env, s)
      else if m_migrated s then Done (Migrated, flags, env, s)
      else kv_exists_loop (hash_set layout) False keys ksizes 0 0 flags env s)"

definition uset_length :: "(bytes list \<Rightarrow> bytes list) \<Rightarrow> mode_t \<Rightarrow> umem \<Rightarrow> size_t list
    \<Rightarrow> size_t list \<Rightarrow> bytes list kv_act list \<Rightarrow> bytes list kv_db
    \<Rightarrow> (status \<times> size_t list \<times> bytes list kv_act list \<times> bytes list kv_db) outcome" where
  "uset_length layout mode keys ksizes vsizes env s =
     (if length ksizes \<noteq> length vsizes then Done (InvalidArg, vsizes, env, s)
      else if m_migrated s then Done (Migrated, vsizes, env, s)
      else kv_length_loop (hash_set layout) False keys ksizes 0 0 vsizes env s)"

definition uset_erase :: "(bytes list \<Rightarrow> bytes list) \<Rightarrow> mode_t \<Rightarrow> umem \<Rightarrow> size_t list
    \<Rightarrow> bytes list kv_act list \<Rightarrow> bytes list kv_db
    \<Rightarrow> (status \<times> bytes list kv_act list \<times> bytes list kv_db) outcome" where
  "uset_erase layout mode keys ksizes env s =
     (if m_migrated s then Done (Migrated, env, s)
      else kv_erase_loop (hash_set layout) False keys ksizes 0 env s)"

definition uset_fetch :: "(bytes list \<Rightarrow> bytes list) \<Rightarrow> mode_t \<Rightarrow> umem \<Rightarrow> size_t list
    \<Rightarrow> 'st fetch_cb \<Rightarrow> 'st \<Rightarrow> bytes list kv_act list \<Rightarrow> bytes list kv_db
    \<Rightarrow> (status \<times> 'st \<times> bytes list kv_act list \<times> bytes list kv_db) outcome" where
  "uset_fetch layout mode keys ksizes func st env s =
     kv_fetch (hash_set layout) False mode keys ksizes func st env s"

definition uset_supportsMode :: "bool \<Rightarrow> mode_t \<Rightarrow> bool" where
  "uset_supportsMode has_lua mode = within_mask mode
     (YOKAN_MODE_INCLUSIVE OR YOKAN_MODE_APPEND OR YOKAN_MODE_CONSUME OR YOKAN_MODE_NEW_ONLY
      OR YOKAN_MODE_EXIST_ONLY OR YOKAN_MODE_NO_PREFIX OR YOKAN_MODE_IGNORE_KEYS
      OR YOKAN_MODE_KEEP_LAST OR YOKAN_MODE_SUFFIX
      OR (if has_lua then YOKAN_MODE_LUA_FILTER else 0) OR YOKAN_MODE_IGNORE_DOCS
      OR YOKAN_MODE_FILTER_VALUE OR YOKAN_MODE_LIB_FILTER OR YOKAN_MODE_NO_RDMA)"

section \<open>Contract of a key set\<close>

locale key_set = kv_reader C abs inv
  for C :: "'c container" and abs :: "'c \<Rightarrow> bytes \<rightharpoonup> bytes" and inv :: "'c \<Rightarrow> bool" +
  assumes insert_inv: "inv c \<Longrightarrow> inv (fst (c_emplace C k [] c))"
    and insert_abs: "inv c \<Longrightarrow> abs (fst (c_emplace C k [] c)) = (abs c)(k \<mapsto> [])"
    and only_empty: "inv c \<Longrightarrow> abs c k = Some v \<Longrightarrow> v = []"
begin

lemma insert_dom: "inv c \<Longrightarrow> dom (abs (fst (c_emplace C k [] c))) = insert k (dom (abs c))"
  by (simp add: insert_abs)

text \<open>Without waiters a put inserts every key.\<close>

lemma put_loop_law:
  assumes "db_ok s" "um_data keys = pre @ concat ks @ post" "fits (um_data keys)"
    "\<not> mode_notify \<or> w_entries (m_watcher s) = []"
  shows "\<exists>s'. set_put_loop C mode_notify keys (map usize ks) (usize pre) s = Done (OK, s')
    \<and> db_ok s' \<and> dom (content s') = dom (content s) \<union> set ks
    \<and> m_migrated s' = m_migrated s \<and> m_watcher s' = m_watcher s"
  using assms
proof (induction ks arbitrary: pre s)
  case Nil
  then show ?case by auto
next
  case (Cons k ks)
  let ?s1 = "s\<lparr> m_db := fst (c_emplace C k [] (m_db s)) \<rparr>"
  have split: "um_data keys = pre @ k @ concat ks @ post" using Cons.prems by simp
  note key = key_view [OF split Cons.prems(3)]
  have s1: "db_ok ?s1" "dom (content ?s1) = insert k (dom (content s))"
    using Cons.prems(1) by (simp_all add: insert_inv insert_dom)
  have "\<exists>s'. set_put_loop C mode_notify keys (map usize ks) (usize (pre @ k)) ?s1 = Done (OK, s')
    \<and> db_ok s' \<and> dom (content s') = dom (content ?s1) \<union> set ks
    \<and> m_migrated s' = m_migrated ?s1 \<and> m_watcher s' = m_watcher ?s1"
    using Cons.prems s1 by (intro Cons.IH) auto
  moreover have "set_notify mode_notify keys off n ?s1 = Done ?s1" for off n
    using Cons.prems(4) by (auto simp: set_notify_def)
  ultimately show ?case
    using key s1 by (auto simp: usize_append)
qed

lemma get_loop_law:
  assumes "db_ok s" "um_data keys = pre @ concat ks @ post" "fits (um_data keys)"
    "vsizes = done @ todo" "length todo = length ks"
  shows "set_get_loop C False keys (map usize ks) (length done) (usize pre) vsizes env s
    = Done (OK, done @ map (value_size (content s)) ks, env, s)"
  using assms
proof (induction ks arbitrary: pre vsizes "done" todo)
  case Nil
  then show ?case by simp
next
  case (Cons k ks)
  obtain t todo' where todo: "todo = t # todo'" "length todo' = length ks"
    using Cons.prems(5) by (cases todo) auto
  have split: "um_data keys = pre @ k @ concat ks @ post" using Cons.prems by simp
  note key = key_view [OF split Cons.prems(3)]
  have "set_get_loop C False keys (map usize ks) (length (done @ [value_size (content s) k]))
      (usize (pre @ k)) (vsizes[length done := value_size (content s) k]) env s
    = Done (OK, (done @ [value_size (content s) k]) @ map (value_size (content s)) ks, env, s)"
    using Cons.prems todo by (intro Cons.IH) auto
  moreover have "content s k = Some v \<Longrightarrow> value_size (content s) k = 0" for v
    using only_empty [of "m_db s" k v] Cons.prems(1) by (simp add: value_size_def)
  ultimately show ?case
    using key
    by (cases "content s k")
      (auto simp: find_law_no_wait [OF Cons.prems(1)] usize_append value_size_def)
qed

end

definition keys_map :: "bytes list \<Rightarrow> bytes \<rightharpoonup> bytes" where
  "keys_map es k = (if k \<in> set es then Some [] else None)"

lemma dom_keys_map [simp]: "dom (keys_map es) = set es"
  by (auto simp: keys_map_def split: if_splits)

sublocale total_comparator \<subseteq> set_kv: key_set "std_set lt" keys_map "nodes_ok lt (\<lambda>k. k)"
proof
  fix c :: "bytes list" and k :: bytes
  assume ok: "nodes_ok lt (\<lambda>k. k) c"
  show "c_find (std_set lt) c k = keys_map c k"
    using find_None_iff [OF ok, of k] by (cases "node_find lt (\<lambda>k. k) k c")
      (auto simp: std_set_def keys_map_def)
  show "nodes_ok lt (\<lambda>k. k) (c_erase (std_set lt) k c)"
    using erase_ok [OF ok] by (simp add: std_set_def)
  show "keys_map (c_erase (std_set lt) k c) = (keys_map c)(k := None)"
    using erase_filter [OF ok] by (auto simp: std_set_def keys_map_def)
  show "c_size (std_set lt) c = card (dom (keys_map c))"
    using nodes_distinct [OF ok] by (simp add: std_set_def distinct_card)
  show "nodes_ok lt (\<lambda>k. k) (fst (c_emplace (std_set lt) k [] c))"
    using emplace_ok [OF ok] by (simp add: std_set_def)
  show "keys_map (fst (c_emplace (std_set lt) k [] c)) = (keys_map c)(k \<mapsto> [])"
    using set_emplace(1) [OF ok, of k] by (auto simp: std_set_def keys_map_def)
qed (auto simp: std_set_def nodes_ok_def keys_map_def split: if_splits)

locale set_layout =
  fixes layout :: "bytes list \<Rightarrow> bytes list"
  assumes set_layout_mset: "mset (layout es) = mset es"

sublocale set_layout \<subseteq> uset_kv: key_set "hash_set layout" keys_map distinct
proof
  have ls: "set (layout es) = set es" for es
    by (metis set_layout_mset set_mset_mset)
  have ld: "distinct (layout es) \<longleftrightarrow> distinct es" for es
    by (metis set_layout_mset mset_eq_imp_distinct_iff)
  have lf: "List.find (\<lambda>e. e = k) es = (if k \<in> set es then Some k else None)" for es and k :: bytes
    by (induction es) auto
  fix c :: "bytes list" and k :: bytes
  assume ok: "distinct c"
  show "c_find (hash_set layout) c k = keys_map c k"
    by (simp add: hash_set_def lf keys_map_def)
  show "distinct (c_erase (hash_set layout) k c)"
    using ok by (simp add: hash_set_def)
  show "keys_map (c_erase (hash_set layout) k c) = (keys_map c)(k := None)"
    by (auto simp: hash_set_def keys_map_def)
  show "c_size (hash_set layout) c = card (dom (keys_map c))"
    using ok by (simp add: hash_set_def distinct_card)
  show "distinct (fst (c_emplace (hash_set layout) k [] c))"
    using ok by (simp add: hash_set_def lf ld)
  show "keys_map (fst (c_emplace (hash_set layout) k [] c)) = (keys_map c)(k \<mapsto> [])"
    by (auto simp: hash_set_def lf keys_map_def ls fun_eq_iff)
qed (auto simp: hash_set_def keys_map_def split: if_splits)

definition key_bucket_layout :: "(bytes \<Rightarrow> nat) \<Rightarrow> nat \<Rightarrow> bytes list \<Rightarrow> bytes list" where
  "key_bucket_layout h n es
     = concat (map (\<lambda>b. filter (\<lambda>e. h e mod Suc n = b) es) [0..<Suc n])"

interpretation key_bucket_order: set_layout "key_bucket_layout h n"
  by unfold_locales (auto simp: key_bucket_layout_def simp del: upt_Suc intro!: buckets_mset)

end
