(* ===== verification/Migration.thy ===== *)
theory Migration
  imports KeySets
begin

text \<open>
  Migration of the in-memory backends: \<open>startMigration\<close> writes a snapshot of the database to a
  temporary file, the handle's destructor removes it and marks the source as migrated unless
  the migration was cancelled, and \<open>recover\<close> builds a database from such a file. The file
  system is a map from path to content; the temporary name is chosen by \<open>mkstemp\<close>.
\<close>

type_synonym filesystem = "string \<Rightarrow> bytes option"

record mig_handle =
  mh_filename :: string
  mh_cancel :: bool

section \<open>Snapshots\<close>

definition snapshot_pair :: "bytes \<times> bytes \<Rightarrow> bytes" where
  "snapshot_pair p = enc64 (usize (fst p)) @ fst p @ enc64 (usize (snd p)) @ snd p"

definition snapshot_pairs :: "(bytes \<times> bytes) list \<Rightarrow> bytes" where
  "snapshot_pairs es = concat (map snapshot_pair es)"

definition snapshot_key :: "bytes \<Rightarrow> bytes" where
  "snapshot_key k = enc64 (usize k) @ k"

definition snapshot_keys :: "bytes list \<Rightarrow> bytes" where
  "snapshot_keys es = concat (map snapshot_key es)"

definition start_migration :: "('c \<Rightarrow> bytes) \<Rightarrow> string \<Rightarrow> 'c kv_db \<Rightarrow> filesystem
    \<Rightarrow> status \<times> mig_handle option \<times> filesystem" where
  "start_migration snapshot tmpname s fs =
     (if m_migrated s then (Migrated, None, fs)
      else (OK, Some \<lparr> mh_filename = tmpname, mh_cancel = False \<rparr>,
            fs(tmpname \<mapsto> snapshot (m_db s))))"

definition mh_do_cancel :: "mig_handle \<Rightarrow> mig_handle" where
  "mh_do_cancel h = h\<lparr> mh_cancel := True \<rparr>"

definition mh_getRoot :: "mig_handle \<Rightarrow> string" where
  "mh_getRoot h = ''/tmp''"

definition mh_getFiles :: "mig_handle \<Rightarrow> string list" where
  "mh_getFiles h = [drop 5 (mh_filename h)]"

text \<open>The destructor of the handle.\<close>

definition end_migration :: "'c container \<Rightarrow> mig_handle \<Rightarrow> 'c kv_db \<Rightarrow> filesystem
    \<Rightarrow> 'c kv_db \<times> filesystem" where
  "end_migration C h s fs =
     (if mh_cancel h then s
      else (let s' = s\<lparr> m_migrated := True \<rparr> in s'\<lparr> m_db := c_clear C (m_db s') \<rparr>),
      fs(mh_filename h := None))"

section \<open>Recovery\<close>

text \<open>\<open>ifs.read\<close> of \<open>n\<close> bytes: \<open>None\<close> when the file ends before.\<close>

definition read_bytes :: "nat \<Rightarrow> bytes \<Rightarrow> (bytes \<times> bytes) option" where
  "read_bytes n bs = (if n \<le> length bs then Some (take n bs, drop n bs) else None)"

lemma read_bytes_append [simp]: "length x = n \<Longrightarrow> read_bytes n (x @ r) = Some (x, r)"
  by (simp add: read_bytes_def)

lemma read_bytes_rest: "read_bytes n bs = Some (x, r) \<Longrightarrow> length r = length bs - n"
  by (auto simp: read_bytes_def split: if_splits)

text \<open>
  \<open>ksize\<close> and \<open>vsize\<close> are uninitialised locals: when a read before them has failed the buffer
  is resized to an indeterminate size. The failure is noticed only at the end of a record.
\<close>

function recover_pairs :: "'c container \<Rightarrow> bytes \<Rightarrow> 'c \<Rightarrow> (status \<times> 'c) outcome" where
  "recover_pairs C bs db =
     (if bs = [] then Done (OK, db)
      else case read_bytes 8 bs of
        None \<Rightarrow> Undef
      | Some (kb, r1) \<Rightarrow>
          (case read_bytes (unat (dec64 kb)) r1 of
             None \<Rightarrow> Undef
           | Some (k, r2) \<Rightarrow>
               (case read_bytes 8 r2 of
                  None \<Rightarrow> Undef
                | Some (vb, r3) \<Rightarrow>
                    (case read_bytes (unat (dec64 vb)) r3 of
                       None \<Rightarrow> Done (IOError, db)
                     | Some (v, r4) \<Rightarrow> recover_pairs C r4 (fst (c_emplace C k v db))))))"
  by pat_completeness auto
termination
  by (relation "measure (\<lambda>(C, bs, db). length bs)") (auto dest!: read_bytes_rest)

declare recover_pairs.simps [simp del]

function recover_keys :: "'c container \<Rightarrow> bytes \<Rightarrow> 'c \<Rightarrow> (status \<times> 'c) outcome" where
  "recover_keys C bs db =
     (if bs = [] then Done (OK, db)
      else case read_bytes 8 bs of
        None \<Rightarrow> Undef
      | Some (kb, r1) \<Rightarrow>
          (case read_bytes (unat (dec64 kb)) r1 of
             None \<Rightarrow> Done (IOError, db)
           | Some (k, r2) \<Rightarrow> recover_keys C r2 (fst (c_emplace C k [] db))))"
  by pat_completeness auto
termination
  by (relation "measure (\<lambda>(C, bs, db). length bs)") (auto dest!: read_bytes_rest)

declare recover_keys.simps [simp del]

text \<open>
  \<open>recover\<close>: \<open>create_status\<close> and \<open>db0\<close> are what \<open>create(config)\<close> returned. The file is removed
  on every path that opened it.
\<close>

definition recover_db :: "(bytes \<Rightarrow> 'c \<Rightarrow> (status \<times> 'c) outcome) \<Rightarrow> status \<Rightarrow> 'c \<Rightarrow> string
    \<Rightarrow> string list \<Rightarrow> filesystem \<Rightarrow> (status \<times> 'c option \<times> filesystem) outcome" where
  "recover_db load create_status db0 root files fs =
     (if length files \<noteq> 1 then Done (InvalidArg, None, fs)
      else
        (let filename = root @ ''/'' @ hd files in
         case fs filename of
           None \<Rightarrow> Done (IOError, None, fs)
         | Some content \<Rightarrow>
             if create_status \<noteq> OK then Done (create_status, None, fs(filename := None))
             else obind (load content db0) (\<lambda>(status, db).
                    Done (status, Some db, fs(filename := None)))))"

section \<open>A snapshot is recovered\<close>

lemma enc64_not_Nil [simp]: "enc64 w \<noteq> []"
  by (metis length_0_conv length_enc64 zero_neq_numeral)

context kv_container
begin

lemma recover_step:
  assumes "fits k" "fits v"
  shows "recover_pairs C (snapshot_pair (k, v) @ rest) db
    = recover_pairs C rest (fst (c_emplace C k v db))"
  using assms
  by (subst recover_pairs.simps) (auto simp: snapshot_pair_def unat_usize)

lemma recover_law:
  assumes "inv db" "distinct (map fst es)" "fst ` set es \<inter> dom (abs db) = {}"
    "\<forall>(k, v) \<in> set es. fits k \<and> fits v"
  shows "\<exists>db'. recover_pairs C (snapshot_pairs es) db = Done (OK, db')
    \<and> inv db' \<and> abs db' = abs db ++ map_of es"
  using assms
proof (induction es arbitrary: db)
  case Nil
  then show ?case by (simp add: snapshot_pairs_def recover_pairs.simps)
next
  case (Cons e es)
  obtain k v where e: "e = (k, v)" by (cases e)
  let ?db = "fst (c_emplace C k v db)"
  have db: "inv ?db" "abs ?db = (abs db)(k \<mapsto> v)"
    using Cons.prems e by (auto simp: emplace_inv emplace_abs)
  have "\<exists>db'. recover_pairs C (snapshot_pairs es) ?db = Done (OK, db')
    \<and> inv db' \<and> abs db' = abs ?db ++ map_of es"
  proof (rule Cons.IH [OF db(1)])
    show "fst ` set es \<inter> dom (abs ?db) = {}"
      using Cons.prems(2,3) db(2) e by (auto simp: disjoint_iff)
  qed (use Cons.prems in auto)
  moreover have "recover_pairs C (snapshot_pairs (e # es)) db
      = recover_pairs C (snapshot_pairs es) ?db"
    using Cons.prems(4) e recover_step by (simp add: snapshot_pairs_def)
  moreover have "(abs db)(k \<mapsto> v) ++ map_of es = abs db ++ map_of (e # es)"
  proof -
    have "k \<notin> dom (map_of es)" using Cons.prems(2) e by (simp add: dom_map_of_conv_image_fst)
    then show ?thesis using e by (simp add: map_add_upd_left)
  qed
  ultimately show ?case using db(2) by metis
qed

end

context key_set
begin

lemma recover_keys_law:
  assumes "inv db" "\<forall>k \<in> set es. fits k"
  shows "\<exists>db'. recover_keys C (snapshot_keys es) db = Done (OK, db')
    \<and> inv db' \<and> dom (abs db') = dom (abs db) \<union> set es"
  using assms
proof (induction es arbitrary: db)
  case Nil
  then show ?case by (simp add: snapshot_keys_def recover_keys.simps)
next
  case (Cons k es)
  let ?db = "fst (c_emplace C k [] db)"
  have "\<exists>db'. recover_keys C (snapshot_keys es) ?db = Done (OK, db')
    \<and> inv db' \<and> dom (abs db') = dom (abs ?db) \<union> set es"
    using Cons.prems by (intro Cons.IH) (auto simp: insert_inv)
  moreover have "recover_keys C (snapshot_keys (k # es)) db = recover_keys C (snapshot_keys es) ?db"
    using Cons.prems(2)
    by (subst recover_keys.simps) (auto simp: snapshot_keys_def snapshot_key_def unat_usize)
  ultimately show ?case using insert_dom [OF Cons.prems(1), of k] by auto
qed

end

end
