(* ===== verification/Filters.thy ===== *)
theory Filters
  imports Comparator Backend
begin

text \<open>
  Key/value and document filters: the interfaces of filters.hpp, the filters of
  server/util/filters.cpp, the descriptor parser of \<open>FilterFactory\<close>, and the \<open>keyCopy\<close> wrapper
  of util/key-copy.hpp. A filter is the record of its virtual functions. Lua filters and
  filters loaded from a library are arguments.
\<close>

section \<open>Interfaces\<close>

text \<open>
  A copy function writes behind \<open>dst + off\<close> with at most \<open>room\<close> bytes and returns the size
  copied or a sentinel. \<open>f_stop\<close> and \<open>f_val_size\<close> may dereference a null document filter.
\<close>

type_synonym copier = "bytes \<Rightarrow> size_t \<Rightarrow> size_t \<Rightarrow> bytes \<Rightarrow> (size_t \<times> bytes) outcome"

record kv_filter =
  f_requires :: bool
  f_check :: "bytes \<Rightarrow> bytes \<Rightarrow> bool"
  f_key_size :: "bytes \<Rightarrow> size_t"
  f_val_size :: "bytes \<Rightarrow> size_t outcome"
  f_key_copy :: copier
  f_val_copy :: copier
  f_stop :: "bytes \<Rightarrow> bytes \<Rightarrow> bool outcome"

record doc_filter =
  d_check :: "bytes \<Rightarrow> size_t \<Rightarrow> bytes \<Rightarrow> bool"
  d_size :: "bytes \<Rightarrow> bytes \<Rightarrow> size_t"
  d_copy :: "bytes \<Rightarrow> copier"
  d_stop :: "bytes \<Rightarrow> bytes \<Rightarrow> bool"

text \<open>The defaults of \<open>KeyValueFilter::shouldStop\<close> and \<open>DocFilter::shouldStop\<close>.\<close>

definition default_stop :: "bytes \<Rightarrow> bytes \<Rightarrow> bool outcome" where
  "default_stop key val = Done False"

definition default_doc_stop :: "bytes \<Rightarrow> bytes \<Rightarrow> bool" where
  "default_doc_stop coll doc = False"

text \<open>\<open>if(max_dst_size < size) return YOKAN_SIZE_TOO_SMALL; memcpy(...); return size\<close>.\<close>

definition copy_whole :: copier where
  "copy_whole dst off max_dst_size src =
     (if max_dst_size < usize src then Done (YOKAN_SIZE_TOO_SMALL, dst)
      else obind (memcpy_to dst off src) (\<lambda>dst'. Done (usize src, dst')))"

lemma valCopy_copy_whole: "valCopy mode = copy_whole"
  by (intro ext) (simp add: valCopy_def copy_whole_def)

section \<open>KeyPrefixFilter\<close>

definition prefix_check :: "bytes \<Rightarrow> bytes \<Rightarrow> bytes \<Rightarrow> bool" where
  "prefix_check prefix key val =
     (if length prefix > length key then False else mem_cmp key prefix = 0)"

definition prefix_keySizeFrom :: "mode_t \<Rightarrow> bytes \<Rightarrow> bytes \<Rightarrow> size_t" where
  "prefix_keySizeFrom mode prefix key =
     (if has_mode mode YOKAN_MODE_NO_PREFIX then usize key - usize prefix else usize key)"

definition prefix_keyCopy :: "mode_t \<Rightarrow> bytes \<Rightarrow> copier" where
  "prefix_keyCopy mode prefix dst off max_dst_size key =
     (if \<not> has_mode mode YOKAN_MODE_NO_PREFIX then
        (if max_dst_size < usize key then Done (YOKAN_SIZE_TOO_SMALL, dst)
         else obind (memcpy_to dst off key) (\<lambda>dst'. Done (usize key, dst')))
      else
        (let final_ksize = usize key - usize prefix in
         if max_dst_size < final_ksize then Done (YOKAN_SIZE_TOO_SMALL, dst)
         else obind (sub_bytes key (usize prefix) final_ksize) (\<lambda>src.
              obind (memcpy_to dst off src) (\<lambda>dst'. Done (final_ksize, dst')))))"

definition prefix_shouldStop :: "bytes \<Rightarrow> bytes \<Rightarrow> bytes \<Rightarrow> bool outcome" where
  "prefix_shouldStop prefix key val = Done (mem_cmp key prefix > 0)"

definition KeyPrefixFilter :: "mode_t \<Rightarrow> bytes \<Rightarrow> kv_filter" where
  "KeyPrefixFilter mode prefix = \<lparr>
     f_requires = False,
     f_check = prefix_check prefix,
     f_key_size = prefix_keySizeFrom mode prefix,
     f_val_size = (\<lambda>val. Done (usize val)),
     f_key_copy = prefix_keyCopy mode prefix,
     f_val_copy = copy_whole,
     f_stop = prefix_shouldStop prefix \<rparr>"

section \<open>KeySuffixFilter\<close>

definition suffix_check :: "bytes \<Rightarrow> bytes \<Rightarrow> bytes \<Rightarrow> bool" where
  "suffix_check suffix key val =
     (if length suffix > length key then False
      else mem_cmp (drop (length key - length suffix) key) suffix = 0)"

definition suffix_keySizeFrom :: "mode_t \<Rightarrow> bytes \<Rightarrow> bytes \<Rightarrow> size_t" where
  "suffix_keySizeFrom mode suffix key =
     (if has_mode mode YOKAN_MODE_NO_PREFIX then usize key - usize suffix else usize key)"

definition suffix_keyCopy :: "mode_t \<Rightarrow> bytes \<Rightarrow> copier" where
  "suffix_keyCopy mode suffix dst off max_dst_size key =
     (if \<not> has_mode mode YOKAN_MODE_NO_PREFIX then
        (if max_dst_size < usize key then Done (YOKAN_SIZE_TOO_SMALL, dst)
         else obind (memcpy_to dst off key) (\<lambda>dst'. Done (usize key, dst')))
      else
        (let final_ksize = usize key - usize suffix in
         if max_dst_size < final_ksize then Done (YOKAN_SIZE_TOO_SMALL, dst)
         else obind (sub_bytes key 0 final_ksize) (\<lambda>src.
              obind (memcpy_to dst off src) (\<lambda>dst'. Done (final_ksize, dst')))))"

definition KeySuffixFilter :: "mode_t \<Rightarrow> bytes \<Rightarrow> kv_filter" where
  "KeySuffixFilter mode suffix = \<lparr>
     f_requires = False,
     f_check = suffix_check suffix,
     f_key_size = suffix_keySizeFrom mode suffix,
     f_val_size = (\<lambda>val. Done (usize val)),
     f_key_copy = suffix_keyCopy mode suffix,
     f_val_copy = copy_whole,
     f_stop = default_stop \<rparr>"

section \<open>Document filters\<close>

definition DefaultDocFilter :: doc_filter where
  "DefaultDocFilter = \<lparr>
     d_check = (\<lambda>coll id doc. True),
     d_size = (\<lambda>coll doc. usize doc),
     d_copy = (\<lambda>coll. copy_whole),
     d_stop = default_doc_stop \<rparr>"

text \<open>The byte swap of a little-endian host.\<close>

definition ensureBigEndian :: "size_t \<Rightarrow> size_t" where
  "ensureBigEndian x0 =
     (let x1 = push_bit 32 (x0 AND 0x00000000FFFFFFFF) OR drop_bit 32 (x0 AND 0xFFFFFFFF00000000);
          x2 = push_bit 16 (x1 AND 0x0000FFFF0000FFFF) OR drop_bit 16 (x1 AND 0xFFFF0000FFFF0000)
      in push_bit 8 (x2 AND 0x00FF00FF00FF00FF) OR drop_bit 8 (x2 AND 0xFF00FF00FF00FF00))"

text \<open>
  \<open>CollectionFilterWrapper\<close> filters the keys of one collection: the prefix is the collection's
  name with its terminating zero, the rest of the key the document's identifier. The document
  filter may be null.
\<close>

definition coll_prefix :: "bytes \<Rightarrow> bytes" where
  "coll_prefix coll = coll @ [0]"

definition coll_check :: "bytes \<Rightarrow> doc_filter option \<Rightarrow> bytes \<Rightarrow> bytes \<Rightarrow> bool" where
  "coll_check coll df key val =
     (if \<not> prefix_check (coll_prefix coll) key [] then False
      else if length key \<noteq> length (coll_prefix coll) + 8 then False
      else case df of
        None \<Rightarrow> True
      | Some d \<Rightarrow>
          d_check d coll (ensureBigEndian (dec64 (drop (length (coll_prefix coll)) key))) val)"

definition coll_shouldStop :: "bytes \<Rightarrow> doc_filter option \<Rightarrow> bytes \<Rightarrow> bytes \<Rightarrow> bool outcome" where
  "coll_shouldStop coll df key val =
     obind (prefix_shouldStop (coll_prefix coll) key val) (\<lambda>b.
       if b then Done b
       else case df of None \<Rightarrow> Undef | Some d \<Rightarrow> Done (d_stop d coll val))"

definition CollectionFilterWrapper :: "bytes \<Rightarrow> doc_filter option \<Rightarrow> kv_filter" where
  "CollectionFilterWrapper coll df = \<lparr>
     f_requires = (df \<noteq> None),
     f_check = coll_check coll df,
     f_key_size = prefix_keySizeFrom YOKAN_MODE_NO_PREFIX (coll_prefix coll),
     f_val_size = (\<lambda>val. case df of None \<Rightarrow> Undef | Some d \<Rightarrow> Done (d_size d coll val)),
     f_key_copy = prefix_keyCopy YOKAN_MODE_NO_PREFIX (coll_prefix coll),
     f_val_copy = (\<lambda>dst off room val. case df of None \<Rightarrow> Undef
                                       | Some d \<Rightarrow> d_copy d coll dst off room val),
     f_stop = coll_shouldStop coll df \<rparr>"

section \<open>FilterFactory\<close>

text \<open>The descriptor \<open><libname>:<filter>:<args>\<close>; 58 is the colon.\<close>

definition parse_descriptor :: "bytes \<Rightarrow> (bytes \<times> bytes \<times> bytes) option" where
  "parse_descriptor d =
     (case dropWhile (\<lambda>b. b \<noteq> 58) d of
        [] \<Rightarrow> None
      | _ # rest \<Rightarrow>
          (case dropWhile (\<lambda>b. b \<noteq> 58) rest of
             [] \<Rightarrow> None
           | _ # args \<Rightarrow> Some (takeWhile (\<lambda>b. b \<noteq> 58) d, takeWhile (\<lambda>b. b \<noteq> 58) rest, args)))"

text \<open>
  \<open>lua\<close> is the Lua filter constructor when the build has Lua; \<open>registry lib\<close> the filters
  registered once library \<open>lib\<close> (none when empty) has been opened.
\<close>

definition makeKeyValueFilter ::
  "(mode_t \<Rightarrow> bytes \<Rightarrow> kv_filter) option
    \<Rightarrow> (bytes \<Rightarrow> bytes \<Rightarrow> (mode_t \<Rightarrow> bytes \<Rightarrow> kv_filter option) option)
    \<Rightarrow> mode_t \<Rightarrow> bytes \<Rightarrow> kv_filter option" where
  "makeKeyValueFilter lua registry mode filter_data =
     (if has_mode mode YOKAN_MODE_LUA_FILTER then
        (case lua of Some mk \<Rightarrow> Some (mk mode filter_data) | None \<Rightarrow> None)
      else if has_mode mode YOKAN_MODE_LIB_FILTER then
        (case parse_descriptor filter_data of
           None \<Rightarrow> None
         | Some (lib, name, args) \<Rightarrow>
             (case registry lib name of None \<Rightarrow> None | Some mk \<Rightarrow> mk mode args))
      else if has_mode mode YOKAN_MODE_SUFFIX then Some (KeySuffixFilter mode filter_data)
      else Some (KeyPrefixFilter mode filter_data))"

definition makeDocFilter ::
  "(mode_t \<Rightarrow> bytes \<Rightarrow> doc_filter) option
    \<Rightarrow> (bytes \<Rightarrow> bytes \<Rightarrow> (mode_t \<Rightarrow> bytes \<Rightarrow> doc_filter option) option)
    \<Rightarrow> mode_t \<Rightarrow> bytes \<Rightarrow> doc_filter option" where
  "makeDocFilter lua registry mode filter_data =
     (if has_mode mode YOKAN_MODE_LUA_FILTER then
        (case lua of Some mk \<Rightarrow> Some (mk mode filter_data) | None \<Rightarrow> None)
      else if has_mode mode YOKAN_MODE_LIB_FILTER then
        (case parse_descriptor filter_data of
           None \<Rightarrow> None
         | Some (lib, name, args) \<Rightarrow>
             (case registry lib name of None \<Rightarrow> None | Some mk \<Rightarrow> mk mode args))
      else Some DefaultDocFilter)"

definition docToKeyValueFilter :: "doc_filter option \<Rightarrow> bytes \<Rightarrow> kv_filter" where
  "docToKeyValueFilter df coll = CollectionFilterWrapper coll df"

section \<open>keyCopy\<close>

text \<open>The helper of modes.hpp.\<close>

definition modes_keyCopy :: "mode_t \<Rightarrow> copier" where
  "modes_keyCopy mode dst off max_dst_size key =
     (if has_mode mode YOKAN_MODE_IGNORE_KEYS then Done (0, dst)
      else if max_dst_size < usize key then Done (YOKAN_SIZE_TOO_SMALL, dst)
      else obind (memcpy_to dst off key) (\<lambda>dst'. Done (usize key, dst')))"

text \<open>The wrapper of key-copy.hpp around a filter's \<open>keyCopy\<close>.\<close>

definition keyCopy :: "mode_t \<Rightarrow> bool \<Rightarrow> kv_filter \<Rightarrow> copier" where
  "keyCopy mode is_last F dst off room key =
     (if has_mode mode YOKAN_MODE_IGNORE_KEYS
         \<and> \<not> (is_last \<and> has_mode mode YOKAN_MODE_KEEP_LAST)
      then Done (0, dst)
      else f_key_copy F dst off room key)"

section \<open>The contract of a key/value filter\<close>

text \<open>
  What the backends rely on: a key that passes is copied as its image, a value as its image;
  when a key is refused \<open>shouldStop\<close> can be asked, and if it answers yes no later key in the
  order \<open>lt\<close> passes.
\<close>

locale filter_contract =
  fixes lt :: "bytes \<Rightarrow> bytes \<Rightarrow> bool"
    and F :: kv_filter
    and okkey :: "bytes \<Rightarrow> bool"
    and image :: "bytes \<Rightarrow> bytes"
    and vimage :: "bytes \<Rightarrow> bytes"
  assumes key_copy_law: "okkey k \<Longrightarrow> f_check F k v
          \<Longrightarrow> f_key_copy F dst off room k = copy_whole dst off room (image k)"
    and key_size_law: "okkey k \<Longrightarrow> f_check F k v \<Longrightarrow> f_key_size F k = usize (image k)"
    and val_copy_law: "f_check F k v
          \<Longrightarrow> f_val_copy F dst off room v = copy_whole dst off room (vimage v)"
    and stop_defined: "\<not> f_check F k v \<Longrightarrow> \<exists>b. f_stop F k v = Done b"
    and stop_sound: "\<not> f_check F k v \<Longrightarrow> f_stop F k v = Done True \<Longrightarrow> lt k k'
          \<Longrightarrow> \<not> f_check F k' v'"

text \<open>The key without its prefix, or its suffix, when the mode asks so.\<close>

definition strip_prefix :: "mode_t \<Rightarrow> bytes \<Rightarrow> bytes \<Rightarrow> bytes" where
  "strip_prefix mode prefix key =
     (if has_mode mode YOKAN_MODE_NO_PREFIX then drop (length prefix) key else key)"

definition strip_suffix :: "mode_t \<Rightarrow> bytes \<Rightarrow> bytes \<Rightarrow> bytes" where
  "strip_suffix mode suffix key =
     (if has_mode mode YOKAN_MODE_NO_PREFIX then take (length key - length suffix) key else key)"

lemma prefix_check_iff: "prefix_check p k v \<longleftrightarrow> take (length p) k = p"
proof (cases "length p \<le> length k")
  case True
  then show ?thesis by (simp add: prefix_check_def mem_cmp_eq_0_prefix)
next
  case False
  then have "length (take (length p) k) \<noteq> length p" by simp
  then have "take (length p) k \<noteq> p" by metis
  with False show ?thesis by (simp add: prefix_check_def)
qed

lemma prefix_check_append: "prefix_check p k v \<longleftrightarrow> (\<exists>r. k = p @ r)"
  by (metis append_eq_conv_conj append_take_drop_id prefix_check_iff)

lemma suffix_check_append: "suffix_check p k v \<longleftrightarrow> (\<exists>r. k = r @ p)"
proof (cases "length p \<le> length k")
  case True
  then have "length (drop (length k - length p) k) = length p" by simp
  then have "mem_cmp (drop (length k - length p) k) p = 0 \<longleftrightarrow> drop (length k - length p) k = p"
    by (rule mem_cmp_eq_0_same_length)
  moreover have "drop (length k - length p) k = p \<longleftrightarrow> (\<exists>r. k = r @ p)"
    by (metis append_eq_conv_conj append_take_drop_id diff_add_inverse2 length_append)
  ultimately show ?thesis using True by (simp add: suffix_check_def)
next
  case False
  then show ?thesis by (auto simp: suffix_check_def)
qed

lemma usize_minus: "usize (p @ r) - usize p = usize r"
  by (simp add: usize_append)

lemma prefix_keyCopy_law:
  assumes "fits k" "prefix_check p k v"
  shows "prefix_keyCopy mode p dst off room k = copy_whole dst off room (strip_prefix mode p k)"
proof -
  obtain r where k: "k = p @ r" using assms(2) by (auto simp: prefix_check_append)
  have "sub_bytes (p @ r) (usize p) (usize r) = Done r"
    using assms(1) k sub_bytes_append [of p r "[]"] by simp
  then show ?thesis
    by (simp add: prefix_keyCopy_def copy_whole_def strip_prefix_def k usize_minus)
qed

lemma suffix_keyCopy_law:
  assumes "fits k" "suffix_check p k v"
  shows "suffix_keyCopy mode p dst off room k = copy_whole dst off room (strip_suffix mode p k)"
proof -
  obtain r where k: "k = r @ p" using assms(2) by (auto simp: suffix_check_append)
  have "sub_bytes (r @ p) 0 (usize r) = Done r"
    using assms(1) k sub_bytes_append [of "[]" r p] by simp
  then show ?thesis
    by (simp add: suffix_keyCopy_def copy_whole_def strip_suffix_def k usize_append)
qed

lemma prefix_stop_sound:
  assumes "prefix_shouldStop p k v = Done True" "DefaultMemCmp k k'"
  shows "\<not> prefix_check p k' v'"
proof -
  have "0 < mem_cmp k' p"
    using assms mem_cmp_above_mono by (simp add: prefix_shouldStop_def)
  then show ?thesis by (simp add: prefix_check_def)
qed

interpretation prefix_filter: filter_contract DefaultMemCmp "KeyPrefixFilter mode prefix"
  fits "strip_prefix mode prefix" "\<lambda>v. v"
proof
  fix k v k' v' :: bytes
  show "fits k \<Longrightarrow> f_check (KeyPrefixFilter mode prefix) k v
      \<Longrightarrow> f_key_size (KeyPrefixFilter mode prefix) k = usize (strip_prefix mode prefix k)"
    by (auto simp: KeyPrefixFilter_def prefix_keySizeFrom_def strip_prefix_def
        prefix_check_append usize_append)
  show "f_stop (KeyPrefixFilter mode prefix) k v = Done True \<Longrightarrow> DefaultMemCmp k k'
      \<Longrightarrow> \<not> f_check (KeyPrefixFilter mode prefix) k' v'"
    using prefix_stop_sound by (simp add: KeyPrefixFilter_def)
qed (auto simp: KeyPrefixFilter_def prefix_keyCopy_law prefix_shouldStop_def)

interpretation suffix_filter: filter_contract DefaultMemCmp "KeySuffixFilter mode suffix"
  fits "strip_suffix mode suffix" "\<lambda>v. v"
proof
  fix k v :: bytes
  show "fits k \<Longrightarrow> f_check (KeySuffixFilter mode suffix) k v
      \<Longrightarrow> f_key_size (KeySuffixFilter mode suffix) k = usize (strip_suffix mode suffix k)"
    by (auto simp: KeySuffixFilter_def suffix_keySizeFrom_def strip_suffix_def
        suffix_check_append usize_append)
qed (auto simp: KeySuffixFilter_def suffix_keyCopy_law default_stop_def)

interpretation coll_filter: filter_contract DefaultMemCmp
  "CollectionFilterWrapper coll (Some DefaultDocFilter)"
  fits "drop (length (coll_prefix coll))" "\<lambda>v. v"
proof
  have np: "has_mode YOKAN_MODE_NO_PREFIX YOKAN_MODE_NO_PREFIX"
    by (simp add: has_mode_def mode_defs)
  let ?F = "CollectionFilterWrapper coll (Some DefaultDocFilter)"
  let ?p = "coll_prefix coll"
  fix k v k' v' dst :: bytes and off room :: size_t
  have pc: "prefix_check ?p k v" if "f_check ?F k v" for k v
    using that by (simp add: CollectionFilterWrapper_def coll_check_def prefix_check_iff
        split: if_splits)
  have sp: "strip_prefix YOKAN_MODE_NO_PREFIX ?p = drop (length ?p)"
    by (simp add: fun_eq_iff strip_prefix_def np)
  show "fits k \<Longrightarrow> f_check ?F k v
      \<Longrightarrow> f_key_copy ?F dst off room k = copy_whole dst off room (drop (length ?p) k)"
    using prefix_keyCopy_law [OF _ pc, of k v YOKAN_MODE_NO_PREFIX] sp
    by (simp add: CollectionFilterWrapper_def)
  show "fits k \<Longrightarrow> f_check ?F k v \<Longrightarrow> f_key_size ?F k = usize (drop (length ?p) k)"
    using pc [of k v] np
    by (auto simp: CollectionFilterWrapper_def prefix_keySizeFrom_def prefix_check_append
        usize_append)
  show "f_val_copy ?F dst off room v = copy_whole dst off room v"
    by (simp add: CollectionFilterWrapper_def DefaultDocFilter_def)
  show "\<exists>b. f_stop ?F k v = Done b"
    by (auto simp: CollectionFilterWrapper_def coll_shouldStop_def prefix_shouldStop_def)
  show "f_stop ?F k v = Done True \<Longrightarrow> DefaultMemCmp k k' \<Longrightarrow> \<not> f_check ?F k' v'"
    using prefix_stop_sound [of ?p k v k' v'] pc [of k' v']
    by (auto simp: CollectionFilterWrapper_def coll_shouldStop_def prefix_shouldStop_def
        DefaultDocFilter_def default_doc_stop_def split: if_splits)
qed

section \<open>Descriptors\<close>

lemma dropWhile_colon: "58 \<notin> set a \<Longrightarrow> dropWhile (\<lambda>b. b \<noteq> 58) (a @ 58 # (r :: bytes)) = 58 # r"
  by (induction a) auto

lemma takeWhile_colon: "58 \<notin> set a \<Longrightarrow> takeWhile (\<lambda>b. b \<noteq> 58) (a @ 58 # (r :: bytes)) = a"
  by (induction a) auto

lemma parse_descriptor_build:
  "58 \<notin> set lib \<Longrightarrow> 58 \<notin> set name
    \<Longrightarrow> parse_descriptor (lib @ 58 # name @ 58 # args) = Some (lib, name, args)"
  by (simp add: parse_descriptor_def dropWhile_colon takeWhile_colon)

lemma split_colon:
  "dropWhile (\<lambda>b. b \<noteq> 58) (d :: bytes) = c # r
    \<Longrightarrow> c = 58 \<and> d = takeWhile (\<lambda>b. b \<noteq> 58) d @ 58 # r \<and> 58 \<notin> set (takeWhile (\<lambda>b. b \<noteq> 58) d)"
  by (metis (mono_tags, lifting) dropWhile_eq_Cons_conv set_takeWhileD takeWhile_dropWhile_id)

lemma parse_descriptor_exact:
  assumes "parse_descriptor d = Some (lib, name, args)"
  shows "d = lib @ 58 # name @ 58 # args \<and> 58 \<notin> set lib \<and> 58 \<notin> set name"
proof -
  obtain c rest where r: "dropWhile (\<lambda>b. b \<noteq> 58) d = c # rest"
    using assms by (auto simp: parse_descriptor_def split: list.splits)
  obtain c' rest' where r': "dropWhile (\<lambda>b. b \<noteq> 58) rest = c' # rest'"
    using assms r by (auto simp: parse_descriptor_def split: list.splits)
  have p: "lib = takeWhile (\<lambda>b. b \<noteq> 58) d" "name = takeWhile (\<lambda>b. b \<noteq> 58) rest" "args = rest'"
    using assms r r' by (auto simp: parse_descriptor_def)
  show ?thesis
    using split_colon [OF r] split_colon [OF r'] p by auto
qed

end
