(* ===== verification/Listing.thy ===== *)
theory Listing
  imports StdContainers Filters
begin

text \<open>
  Walking an ordered container with a filter: the bodies of \<open>listKeys\<close>, \<open>listKeyValues\<close>,
  \<open>iter\<close> and \<open>fetch\<close> that map.cpp and set.cpp share up to what a node is. \<open>kp\<close> and \<open>vp\<close>
  project a node to its key and to the value handed to the filter.
\<close>

section \<open>Output slots\<close>

text \<open>
  A user buffer that receives several items: the bytes, the sizes array, the offset reached,
  and whether a packed item already failed to fit.
\<close>

record slots =
  sl_data :: bytes
  sl_sizes :: "size_t list"
  sl_off :: size_t
  sl_full :: bool

definition list_slot :: "bool \<Rightarrow> (bytes \<Rightarrow> size_t \<Rightarrow> size_t \<Rightarrow> (size_t \<times> bytes) outcome) \<Rightarrow> nat
    \<Rightarrow> slots \<Rightarrow> slots outcome" where
  "list_slot packed copy i sl =
     (if \<not> packed then
        (let room = sl_sizes sl ! i in
         obind (copy (sl_data sl) (sl_off sl) room) (\<lambda>(n, d).
           Done (sl\<lparr> sl_data := d, sl_sizes := (sl_sizes sl)[i := n], sl_off := sl_off sl + room \<rparr>)))
      else if sl_full sl then
        Done (sl\<lparr> sl_sizes := (sl_sizes sl)[i := YOKAN_SIZE_TOO_SMALL] \<rparr>)
      else
        obind (copy (sl_data sl) (sl_off sl) (usize (sl_data sl) - sl_off sl)) (\<lambda>(n, d).
          if n = YOKAN_SIZE_TOO_SMALL
          then Done (sl\<lparr> sl_data := d, sl_sizes := (sl_sizes sl)[i := n], sl_full := True \<rparr>)
          else Done (sl\<lparr> sl_data := d, sl_sizes := (sl_sizes sl)[i := n],
                         sl_off := sl_off sl + n \<rparr>)))"

text \<open>The sizes from \<open>i\<close> on become the sentinel.\<close>

definition fill_rest :: "nat \<Rightarrow> size_t list \<Rightarrow> size_t list" where
  "fill_rest i sizes = take i sizes @ replicate (length sizes - i) YOKAN_NO_MORE_KEYS"

section \<open>The start of a walk\<close>

definition walk_start :: "(bytes \<Rightarrow> bytes \<Rightarrow> bool) \<Rightarrow> ('e \<Rightarrow> bytes) \<Rightarrow> mode_t \<Rightarrow> bytes
    \<Rightarrow> 'e list \<Rightarrow> 'e list" where
  "walk_start lt kp mode fromKey es =
     (if length fromKey = 0 then es
      else if has_mode mode YOKAN_MODE_INCLUSIVE then lower_bound lt kp fromKey es
      else upper_bound lt kp fromKey es)"

section \<open>listKeys\<close>

fun list_keys_loop :: "('e \<Rightarrow> bytes) \<Rightarrow> ('e \<Rightarrow> bytes) \<Rightarrow> mode_t \<Rightarrow> bool \<Rightarrow> kv_filter \<Rightarrow> nat
    \<Rightarrow> 'e list \<Rightarrow> nat \<Rightarrow> slots \<Rightarrow> (nat \<times> slots) outcome" where
  "list_keys_loop kp vp mode packed F limit [] i sl = Done (i, sl)"
| "list_keys_loop kp vp mode packed F limit (e # es) i sl =
     (if \<not> i < limit then Done (i, sl)
      else if \<not> f_check F (kp e) (vp e) then
        obind (f_stop F (kp e) (vp e)) (\<lambda>stop.
          if stop then Done (i, sl)
          else list_keys_loop kp vp mode packed F limit es i sl)
      else
        (let is_last = has_mode mode YOKAN_MODE_KEEP_LAST \<and> (i + 1 = limit \<or> es = []) in
         obind (list_slot packed (\<lambda>d off room. keyCopy mode is_last F d off room (kp e)) i sl)
           (\<lambda>sl'. list_keys_loop kp vp mode packed F limit es (i + 1) sl')))"

text \<open>What \<open>listKeys\<close> writes: the buffer, its size, and the sizes.\<close>

definition list_keys :: "(bytes \<Rightarrow> bytes \<Rightarrow> bool) \<Rightarrow> ('e \<Rightarrow> bytes) \<Rightarrow> ('e \<Rightarrow> bytes) \<Rightarrow> mode_t
    \<Rightarrow> bool \<Rightarrow> bytes \<Rightarrow> kv_filter \<Rightarrow> bytes \<Rightarrow> size_t list \<Rightarrow> 'e list \<Rightarrow> get_out outcome" where
  "list_keys lt kp vp mode packed fromKey F keys keySizes es =
     obind (list_keys_loop kp vp mode packed F (length keySizes) (walk_start lt kp mode fromKey es)
              0 \<lparr> sl_data = keys, sl_sizes = keySizes, sl_off = 0, sl_full = False \<rparr>)
       (\<lambda>(i, sl). Done \<lparr> g_vals = sl_data sl, g_size = sl_off sl,
                        g_vsizes = fill_rest i (sl_sizes sl) \<rparr>)"

section \<open>listKeyValues\<close>

fun list_kv_loop :: "('e \<Rightarrow> bytes) \<Rightarrow> ('e \<Rightarrow> bytes) \<Rightarrow> mode_t \<Rightarrow> bool \<Rightarrow> kv_filter \<Rightarrow> nat
    \<Rightarrow> 'e list \<Rightarrow> nat \<Rightarrow> slots \<Rightarrow> slots \<Rightarrow> (nat \<times> slots \<times> slots) outcome" where
  "list_kv_loop kp vp mode packed F limit [] i ks vs = Done (i, ks, vs)"
| "list_kv_loop kp vp mode packed F limit (e # es) i ks vs =
     (if \<not> i < limit then Done (i, ks, vs)
      else if \<not> f_check F (kp e) (vp e) then
        obind (f_stop F (kp e) (vp e)) (\<lambda>stop.
          if stop then Done (i, ks, vs)
          else list_kv_loop kp vp mode packed F limit es i ks vs)
      else
        (let is_last = has_mode mode YOKAN_MODE_KEEP_LAST \<and> (i + 1 = limit \<or> es = []) in
         obind (list_slot packed (\<lambda>d off room. keyCopy mode is_last F d off room (kp e)) i ks)
           (\<lambda>ks'.
         obind (list_slot packed (\<lambda>d off room. f_val_copy F d off room (vp e)) i vs)
           (\<lambda>vs'. list_kv_loop kp vp mode packed F limit es (i + 1) ks' vs'))))"

definition list_kvs :: "(bytes \<Rightarrow> bytes \<Rightarrow> bool) \<Rightarrow> ('e \<Rightarrow> bytes) \<Rightarrow> ('e \<Rightarrow> bytes) \<Rightarrow> mode_t
    \<Rightarrow> bool \<Rightarrow> bytes \<Rightarrow> kv_filter \<Rightarrow> bytes \<Rightarrow> size_t list \<Rightarrow> bytes \<Rightarrow> size_t list \<Rightarrow> 'e list
    \<Rightarrow> (get_out \<times> get_out) outcome" where
  "list_kvs lt kp vp mode packed fromKey F keys keySizes vals valSizes es =
     obind (list_kv_loop kp vp mode packed F (length keySizes) (walk_start lt kp mode fromKey es)
              0 \<lparr> sl_data = keys, sl_sizes = keySizes, sl_off = 0, sl_full = False \<rparr>
              \<lparr> sl_data = vals, sl_sizes = valSizes, sl_off = 0, sl_full = False \<rparr>)
       (\<lambda>(i, ks, vs).
          Done (\<lparr> g_vals = sl_data ks, g_size = sl_off ks, g_vsizes = fill_rest i (sl_sizes ks) \<rparr>,
                \<lparr> g_vals = sl_data vs, g_size = sl_off vs, g_vsizes = fill_rest i (sl_sizes vs) \<rparr>))"

section \<open>iter\<close>

text \<open>
  \<open>func\<close> is the caller's callback over the caller's state. A null value is passed as no bytes.
  \<open>limit = 0\<close> means no limit.
\<close>

fun iter_loop :: "('e \<Rightarrow> bytes) \<Rightarrow> ('e \<Rightarrow> bytes) \<Rightarrow> kv_filter \<Rightarrow> bool \<Rightarrow> nat
    \<Rightarrow> (bytes \<Rightarrow> bytes \<Rightarrow> 'st \<Rightarrow> status \<times> 'st) \<Rightarrow> 'e list \<Rightarrow> nat \<Rightarrow> 'st
    \<Rightarrow> (status \<times> 'st) outcome" where
  "iter_loop kp vp F ignore_values limit func [] i st = Done (OK, st)"
| "iter_loop kp vp F ignore_values limit func (e # es) i st =
     (if \<not> (limit = 0 \<or> i < limit) then Done (OK, st)
      else if \<not> f_check F (kp e) (vp e) then
        obind (f_stop F (kp e) (vp e)) (\<lambda>stop.
          if stop then Done (OK, st)
          else iter_loop kp vp F ignore_values limit func es i st)
      else
        (let val = (if ignore_values \<and> \<not> f_requires F then [] else vp e) in
         case func (kp e) val st of
           (status, st') \<Rightarrow>
             if status \<noteq> OK then Done (status, st')
             else iter_loop kp vp F ignore_values limit func es (i + 1) st'))"

definition iter_nodes :: "(bytes \<Rightarrow> bytes \<Rightarrow> bool) \<Rightarrow> ('e \<Rightarrow> bytes) \<Rightarrow> ('e \<Rightarrow> bytes) \<Rightarrow> mode_t
    \<Rightarrow> size_t \<Rightarrow> bytes \<Rightarrow> kv_filter \<Rightarrow> bool \<Rightarrow> (bytes \<Rightarrow> bytes \<Rightarrow> 'st \<Rightarrow> status \<times> 'st)
    \<Rightarrow> 'e list \<Rightarrow> 'st \<Rightarrow> (status \<times> 'st) outcome" where
  "iter_nodes lt kp vp mode limit fromKey F ignore_values func es st =
     iter_loop kp vp F ignore_values (unat limit) func (walk_start lt kp mode fromKey es) 0 st"

section \<open>What the walks deliver\<close>

text \<open>Handing a sequence of items to the slots, one after the other.\<close>

fun slot_run :: "bool \<Rightarrow> nat \<Rightarrow> bytes list \<Rightarrow> slots \<Rightarrow> slots outcome" where
  "slot_run packed i [] sl = Done sl"
| "slot_run packed i (x # xs) sl =
     obind (list_slot packed (\<lambda>d off room. copy_whole d off room x) i sl)
       (slot_run packed (Suc i) xs)"

lemma copy_whole_fits:
  assumes "fits (pre @ old @ post)" "length x = length old" "usize x \<le> room"
  shows "copy_whole (pre @ old @ post) (usize pre) room x = Done (usize x, pre @ x @ post)"
  using assms by (auto simp: copy_whole_def view_simps)

text \<open>Packed items: as many as fit, in order; the first that does not closes the buffer.\<close>

lemma slot_run_packed:
  assumes "fits (pre @ tail)" "\<forall>x \<in> set xs. sized x" "length xs \<le> length todo"
  shows "\<exists>full'. slot_run True (length done) xs
       \<lparr> sl_data = pre @ tail, sl_sizes = done @ todo, sl_off = usize pre, sl_full = full \<rparr>
     = (case pack_spec Some (length tail) full xs of (ns, out) \<Rightarrow>
          Done \<lparr> sl_data = pre @ out @ drop (length out) tail,
                 sl_sizes = done @ ns @ drop (length xs) todo,
                 sl_off = usize (pre @ out), sl_full = full' \<rparr>)"
  using assms
proof (induction xs arbitrary: pre tail "done" todo full)
  case Nil
  then show ?case by simp
next
  case (Cons x xs)
  obtain t todo' where todo: "todo = t # todo'" "length xs \<le> length todo'"
    using Cons.prems(3) by (cases todo) auto
  have x: "sized x" and xs: "\<forall>x \<in> set xs. sized x" using Cons.prems(2) by simp_all
  have upd: "(done @ todo)[length done := n] = (done @ [n]) @ todo'" for n
    by (simp add: todo)
  show ?case
  proof (cases "full \<or> length tail < length x")
    case True
    obtain full' where IH: "slot_run True (length (done @ [YOKAN_SIZE_TOO_SMALL])) xs
       \<lparr> sl_data = pre @ tail, sl_sizes = (done @ [YOKAN_SIZE_TOO_SMALL]) @ todo',
         sl_off = usize pre, sl_full = True \<rparr>
     = (case pack_spec Some (length tail) True xs of (ns, out) \<Rightarrow>
          Done \<lparr> sl_data = pre @ out @ drop (length out) tail,
                 sl_sizes = (done @ [YOKAN_SIZE_TOO_SMALL]) @ ns @ drop (length xs) todo',
                 sl_off = usize (pre @ out), sl_full = full' \<rparr>)"
      using Cons.IH [OF Cons.prems(1) xs todo(2)] by blast
    have "\<not> full \<Longrightarrow> usize (pre @ tail) - usize pre < usize x"
      using True Cons.prems(1) x
      by (simp add: usize_append word_less_nat_alt unat_usize sized_fits)
    then have "list_slot True (\<lambda>d off room. copy_whole d off room x) (length done)
       \<lparr> sl_data = pre @ tail, sl_sizes = done @ todo, sl_off = usize pre, sl_full = full \<rparr>
     = Done \<lparr> sl_data = pre @ tail, sl_sizes = (done @ [YOKAN_SIZE_TOO_SMALL]) @ todo',
         sl_off = usize pre, sl_full = True \<rparr>"
      by (cases full) (simp_all add: list_slot_def copy_whole_def upd)
    then show ?thesis using IH True todo by (auto split: prod.splits)
  next
    case False
    then have le: "length x \<le> length tail" and nf: "\<not> full" by auto
    let ?rest = "drop (length x) tail"
    have cp: "copy_whole (pre @ tail) (usize pre) (usize (pre @ tail) - usize pre) x
        = Done (usize x, pre @ x @ ?rest)"
      using copy_whole_fits [of pre "take (length x) tail" ?rest x "usize tail"] Cons.prems(1) le x
      by (simp add: usize_append usize_le_iff sized_fits)
    have "\<exists>full'. slot_run True (length (done @ [usize x])) xs
       \<lparr> sl_data = (pre @ x) @ ?rest, sl_sizes = (done @ [usize x]) @ todo',
         sl_off = usize (pre @ x), sl_full = False \<rparr>
     = (case pack_spec Some (length ?rest) False xs of (ns, out) \<Rightarrow>
          Done \<lparr> sl_data = (pre @ x) @ out @ drop (length out) ?rest,
                 sl_sizes = (done @ [usize x]) @ ns @ drop (length xs) todo',
                 sl_off = usize ((pre @ x) @ out), sl_full = full' \<rparr>)"
      using Cons.prems(1) le xs todo(2) by (intro Cons.IH) auto
    moreover have "list_slot True (\<lambda>d off room. copy_whole d off room x) (length done)
       \<lparr> sl_data = pre @ tail, sl_sizes = done @ todo, sl_off = usize pre, sl_full = full \<rparr>
     = Done \<lparr> sl_data = (pre @ x) @ ?rest, sl_sizes = (done @ [usize x]) @ todo',
         sl_off = usize (pre @ x), sl_full = False \<rparr>"
      using cp nf sized_usize [OF x] by (simp add: list_slot_def upd) (simp add: usize_append)
    ultimately show ?thesis using False todo
      by (auto simp: algebra_simps add.commute split: prod.splits)
  qed
qed

text \<open>Items in slots of their own: each slot receives its item or keeps its bytes.\<close>

lemma slot_run_unpacked:
  assumes "length xs = length rooms" "fits (pre @ concat rooms @ post)"
    "\<forall>x \<in> set xs. sized x"
  shows "slot_run False (length done) xs
       \<lparr> sl_data = pre @ concat rooms @ post, sl_sizes = done @ map usize rooms @ todo,
         sl_off = usize pre, sl_full = full \<rparr>
     = Done \<lparr> sl_data = pre @ concat (map2 (\<lambda>x r. snd (slot_spec Some x r)) xs rooms) @ post,
              sl_sizes = done @ map2 (\<lambda>x r. fst (slot_spec Some x r)) xs rooms @ todo,
              sl_off = usize (pre @ concat rooms), sl_full = full \<rparr>"
  using assms
proof (induction xs rooms arbitrary: pre "done" rule: list_induct2)
  case Nil
  then show ?case by simp
next
  case (Cons x xs r rooms)
  let ?n = "fst (slot_spec Some x r)" and ?r = "snd (slot_spec Some x r)"
  have x: "sized x" using Cons.prems(2) by simp
  have len: "length ?r = length r" by (rule slot_spec_length)
  have same: "usize (pre @ ?r) = usize (pre @ r)" "usize (pre @ ?r) = usize pre + usize r"
    "usize ((pre @ ?r) @ ys) = usize (pre @ r @ ys)" for ys
    using len by (simp_all add: usize_def)
  have "copy_whole (pre @ r @ concat rooms @ post) (usize pre) (usize r) x
      = Done (?n, pre @ ?r @ concat rooms @ post)"
  proof (cases "length r < length x")
    case True
    then have "usize r < usize x"
      using Cons.prems(1) x by (simp add: word_less_nat_alt unat_usize sized_fits)
    then show ?thesis using True by (simp add: copy_whole_def slot_spec_def)
  next
    case False
    then show ?thesis
      using Cons.prems(1) x
        copy_whole_fits [of pre "take (length x) r" "drop (length x) r @ concat rooms @ post"
          x "usize r"]
      by (simp add: slot_spec_def usize_le_iff sized_fits append_assoc [symmetric]
          del: append_assoc)
  qed
  then have "list_slot False (\<lambda>d off room. copy_whole d off room x) (length done)
       \<lparr> sl_data = pre @ concat (r # rooms) @ post, sl_sizes = done @ map usize (r # rooms) @ todo,
         sl_off = usize pre, sl_full = full \<rparr>
    = Done \<lparr> sl_data = (pre @ ?r) @ concat rooms @ post,
             sl_sizes = (done @ [?n]) @ map usize rooms @ todo,
             sl_off = usize (pre @ ?r), sl_full = full \<rparr>"
    by (simp add: list_slot_def same(1) usize_append [of pre r])
  moreover have "slot_run False (length (done @ [?n])) xs
       \<lparr> sl_data = (pre @ ?r) @ concat rooms @ post,
         sl_sizes = (done @ [?n]) @ map usize rooms @ todo,
         sl_off = usize (pre @ ?r), sl_full = full \<rparr>
     = Done \<lparr> sl_data = (pre @ ?r) @ concat (map2 (\<lambda>x r. snd (slot_spec Some x r)) xs rooms) @ post,
              sl_sizes = (done @ [?n]) @ map2 (\<lambda>x r. fst (slot_spec Some x r)) xs rooms @ todo,
              sl_off = usize ((pre @ ?r) @ concat rooms), sl_full = full \<rparr>"
    using Cons.prems len by (intro Cons.IH) auto
  ultimately show ?case using same(3) [of "concat rooms"] by simp
qed

text \<open>The start of a walk is the part of the container above the key.\<close>

lemma dropWhile_sorted_wrt: "sorted_wrt P xs \<Longrightarrow> sorted_wrt P (dropWhile Q xs)"
  by (induction xs) auto

lemma fill_rest_append: "length xs = i \<Longrightarrow> fill_rest i (xs @ ys) = xs @ replicate (length ys) YOKAN_NO_MORE_KEYS"
  by (simp add: fill_rest_def)

locale node_walk = total_comparator lt + filter_contract lt F okkey image vimage
  for lt F okkey image vimage +
  fixes kp :: "'e \<Rightarrow> bytes"
    and vp :: "'e \<Rightarrow> bytes"
begin

abbreviation passes :: "'e \<Rightarrow> bool" where
  "passes e \<equiv> f_check F (kp e) (vp e)"

lemma start_filter:
  assumes "nodes_ok lt kp es"
  shows "walk_start lt kp mode from es
    = filter (\<lambda>e. from = [] \<or> lt from (kp e) \<or> has_mode mode YOKAN_MODE_INCLUSIVE \<and> kp e = from) es"
proof -
  have srt: "sorted_wrt (\<lambda>a b. lt (kp a) (kp b)) es"
    using assms by (simp add: nodes_ok_def sorted_wrt_map)
  have up: "dropWhile (\<lambda>e. \<not> P (kp e)) es = filter (\<lambda>e. P (kp e)) es"
    if "\<And>a b. P a \<Longrightarrow> lt a b \<Longrightarrow> P b" for P
    using srt
  proof (induction es)
    case Nil
    then show ?case by simp
  next
    case (Cons e es)
    show ?case
    proof (cases "P (kp e)")
      case True
      then have "filter (\<lambda>e. P (kp e)) es = es"
        using Cons.prems that by (auto simp: filter_id_conv)
      then show ?thesis using True by simp
    next
      case False
      then show ?thesis using Cons by simp
    qed
  qed
  have "lower_bound lt kp from es = filter (\<lambda>e. lt from (kp e) \<or> kp e = from) es"
  proof -
    have "dropWhile (\<lambda>e. \<not> \<not> lt (kp e) from) es = filter (\<lambda>e. \<not> lt (kp e) from) es"
      by (rule up) (use lt_trans in blast)
    moreover have "(\<lambda>e. \<not> lt (kp e) from) = (\<lambda>e. lt from (kp e) \<or> kp e = from)"
      by (auto simp: not_lt_iff)
    ultimately show ?thesis
      by (simp add: lower_bound_def)
  qed
  moreover have "upper_bound lt kp from es = filter (\<lambda>e. lt from (kp e)) es"
    using up [of "lt from"] lt_trans by (auto simp: upper_bound_def)
  ultimately show ?thesis
    by (auto simp: walk_start_def intro: filter_cong)
qed

lemma start_sorted: "nodes_ok lt kp es \<Longrightarrow> nodes_ok lt kp (walk_start lt kp mode from es)"
  by (auto simp: walk_start_def lower_bound_def upper_bound_def nodes_ok_def sorted_wrt_map
      dropWhile_sorted_wrt)

lemma stop_rest:
  assumes "nodes_ok lt kp (e # es)" "\<not> passes e" "f_stop F (kp e) (vp e) = Done True"
  shows "filter passes es = []"
  using assms stop_sound by (auto simp: filter_empty_conv nodes_ok_def)

lemma list_keys_loop_law:
  assumes "nodes_ok lt kp es" "\<forall>e \<in> set es. okkey (kp e)"
    "\<not> has_mode mode YOKAN_MODE_IGNORE_KEYS" "ms = take (limit - i) (filter passes es)"
  shows "list_keys_loop kp vp mode packed F limit es i sl
    = obind (slot_run packed i (map (image \<circ> kp) ms) sl) (\<lambda>sl'. Done (i + length ms, sl'))"
  using assms
proof (induction es arbitrary: i sl ms)
  case Nil
  then show ?case by simp
next
  case (Cons e es)
  have rest: "nodes_ok lt kp es" "\<forall>e \<in> set es. okkey (kp e)"
    using Cons.prems(1,2) by (auto simp: nodes_ok_def)
  show ?case
  proof (cases "i < limit")
    case False
    then show ?thesis using Cons.prems(4) by simp
  next
    case lt: True
    show ?thesis
    proof (cases "passes e")
      case True
      let ?ms = "take (limit - Suc i) (filter passes es)"
      have ms: "ms = e # ?ms"
        using True lt Cons.prems(4) by (simp add: take_Cons' Suc_diff_Suc)
      have "keyCopy mode is_last F d off room (kp e) = copy_whole d off room (image (kp e))"
        for is_last d off room
        using True Cons.prems(2,3) key_copy_law by (simp add: keyCopy_def)
      then show ?thesis
        using True lt Cons.IH [OF rest Cons.prems(3) refl, of "Suc i"] ms
        by (cases "list_slot packed (\<lambda>d off room. copy_whole d off room (image (kp e))) i sl")
          (simp_all add: Let_def)
    next
      case False
      obtain stop where stop: "f_stop F (kp e) (vp e) = Done stop"
        using stop_defined [OF False] by blast
      show ?thesis
      proof (cases stop)
        case True
        then have "filter passes es = []"
          using stop_rest [OF Cons.prems(1) False] stop by simp
        then show ?thesis using True stop False lt Cons.prems(4) by simp
      next
        case no: False
        then show ?thesis
          using stop False lt Cons.IH [OF rest Cons.prems(3), of ms i] Cons.prems(4) by simp
      qed
    qed
  qed
qed

lemma list_kv_loop_law:
  assumes "nodes_ok lt kp es" "\<forall>e \<in> set es. okkey (kp e)"
    "\<not> has_mode mode YOKAN_MODE_IGNORE_KEYS" "ms = take (limit - i) (filter passes es)"
    "slot_run packed i (map (image \<circ> kp) ms) ks = Done ks'"
    "slot_run packed i (map (vimage \<circ> vp) ms) vs = Done vs'"
  shows "list_kv_loop kp vp mode packed F limit es i ks vs = Done (i + length ms, ks', vs')"
  using assms
proof (induction es arbitrary: i ks vs ms)
  case Nil
  then show ?case by simp
next
  case (Cons e es)
  have rest: "nodes_ok lt kp es" "\<forall>e \<in> set es. okkey (kp e)"
    using Cons.prems(1,2) by (auto simp: nodes_ok_def)
  show ?case
  proof (cases "i < limit")
    case False
    then show ?thesis using Cons.prems by simp
  next
    case lt: True
    show ?thesis
    proof (cases "passes e")
      case True
      let ?ms = "take (limit - Suc i) (filter passes es)"
      have ms: "ms = e # ?ms"
        using True lt Cons.prems(4) by (simp add: take_Cons' Suc_diff_Suc)
      have kc: "keyCopy mode is_last F d off room (kp e) = copy_whole d off room (image (kp e))"
        for is_last d off room
        using True Cons.prems(2,3) key_copy_law by (simp add: keyCopy_def)
      have vc: "f_val_copy F d off room (vp e) = copy_whole d off room (vimage (vp e))"
        for d off room
        using True val_copy_law by simp
      obtain ks1 where ks1: "list_slot packed (\<lambda>d off room. copy_whole d off room (image (kp e))) i ks
          = Done ks1" "slot_run packed (Suc i) (map (image \<circ> kp) ?ms) ks1 = Done ks'"
        using Cons.prems(5) by (subst (asm) ms) (auto simp: obind_Done_iff)
      obtain vs1 where vs1: "list_slot packed (\<lambda>d off room. copy_whole d off room (vimage (vp e))) i vs
          = Done vs1" "slot_run packed (Suc i) (map (vimage \<circ> vp) ?ms) vs1 = Done vs'"
        using Cons.prems(6) by (subst (asm) ms) (auto simp: obind_Done_iff)
      have "list_kv_loop kp vp mode packed F limit es (Suc i) ks1 vs1
          = Done (Suc i + length ?ms, ks', vs')"
        using Cons.IH [OF rest Cons.prems(3) refl ks1(2) vs1(2)] .
      moreover have "length ms = Suc (length ?ms)" by (subst ms) simp
      ultimately show ?thesis
        using True lt ks1(1) vs1(1) by (simp add: Let_def kc vc)
    next
      case False
      obtain stop where stop: "f_stop F (kp e) (vp e) = Done stop"
        using stop_defined [OF False] by blast
      show ?thesis
      proof (cases stop)
        case True
        then have "filter passes es = []"
          using stop_rest [OF Cons.prems(1) False] stop by simp
        then show ?thesis using True stop False lt Cons.prems by simp
      next
        case no: False
        then show ?thesis
          using stop False lt Cons.IH [OF rest Cons.prems(3) _ Cons.prems(5,6)] Cons.prems(4) by simp
      qed
    qed
  qed
qed

lemma iter_loop_law:
  assumes "nodes_ok lt kp es"
    "ms = (if limit = 0 then filter passes es else take (limit - i) (filter passes es))"
  shows "iter_loop kp vp F ignore_values limit func es i st
    = Done (run_calls func
        (map (\<lambda>e. (kp e, if ignore_values \<and> \<not> f_requires F then [] else vp e)) ms) st)"
  using assms
proof (induction es arbitrary: i st ms)
  case Nil
  then show ?case by simp
next
  case (Cons e es)
  have rest: "nodes_ok lt kp es"
    using Cons.prems(1) by (auto simp: nodes_ok_def)
  show ?case
  proof (cases "limit = 0 \<or> i < limit")
    case False
    then show ?thesis using Cons.prems(2) by simp
  next
    case lt: True
    show ?thesis
    proof (cases "passes e")
      case True
      then have "ms = e # (if limit = 0 then filter passes es
                           else take (limit - Suc i) (filter passes es))"
        using lt Cons.prems(2) by (auto simp: take_Cons' Suc_diff_Suc)
      then show ?thesis
        using True lt Cons.IH [OF rest refl, of "Suc i"]
        by (auto simp: Let_def split: prod.split)
    next
      case False
      obtain stop where stop: "f_stop F (kp e) (vp e) = Done stop"
        using stop_defined [OF False] by blast
      show ?thesis
      proof (cases stop)
        case True
        then have "filter passes es = []"
          using stop_rest [OF Cons.prems(1) False] stop by simp
        then show ?thesis using True stop False lt Cons.prems(2) by auto
      next
        case no: False
        then show ?thesis
          using stop False lt Cons.IH [OF rest, of ms i] Cons.prems(2) by auto
      qed
    qed
  qed
qed

text \<open>The nodes a walk selects.\<close>

abbreviation selected :: "mode_t \<Rightarrow> bytes \<Rightarrow> nat \<Rightarrow> 'e list \<Rightarrow> 'e list" where
  "selected mode start n es \<equiv> take n (filter passes (walk_start lt kp mode start es))"

lemma start_subset: "set (walk_start lt kp mode start es) \<subseteq> set es"
  by (auto simp: walk_start_def lower_bound_def upper_bound_def dest: set_dropWhileD)

lemma selected_subset: "set (selected mode start n es) \<subseteq> set es"
  using start_subset [of mode start es] filter_is_subset set_take_subset subset_trans by metis

lemma run_items:
  assumes "fits buf" "\<forall>e \<in> set es. sized (f e)"
    "pack_spec Some (length buf) False (map f (selected mode start (length sizes) es)) = (ns, out)"
    "n = length (selected mode start (length sizes) es)"
  shows "\<exists>full'. slot_run True 0 (map f (selected mode start (length sizes) es))
       \<lparr> sl_data = buf, sl_sizes = sizes, sl_off = 0, sl_full = False \<rparr>
     = Done \<lparr> sl_data = out @ drop (length out) buf, sl_sizes = ns @ drop n sizes,
              sl_off = usize out, sl_full = full' \<rparr>"
    "fill_rest n (ns @ drop n sizes) = ns @ replicate (length sizes - n) YOKAN_NO_MORE_KEYS"
proof -
  let ?ms = "selected mode start (length sizes) es"
  have "\<forall>x \<in> set (map f ?ms). sized x"
    using assms(2) selected_subset [of "length sizes" mode start es] by auto
  then show "\<exists>full'. slot_run True 0 (map f ?ms)
       \<lparr> sl_data = buf, sl_sizes = sizes, sl_off = 0, sl_full = False \<rparr>
     = Done \<lparr> sl_data = out @ drop (length out) buf, sl_sizes = ns @ drop n sizes,
              sl_off = usize out, sl_full = full' \<rparr>"
    using slot_run_packed [of "[]" buf "map f ?ms" sizes "[]" False] assms(1,3,4) by simp
  have "length ns = n"
    using pack_spec_lengths [of Some "length buf" False "map f ?ms"] assms(3,4) by simp
  then show "fill_rest n (ns @ drop n sizes)
      = ns @ replicate (length sizes - n) YOKAN_NO_MORE_KEYS"
    by (simp add: fill_rest_append)
qed

lemma list_keys_packed:
  assumes "nodes_ok lt kp es" "\<forall>e \<in> set es. okkey (kp e)" "\<forall>e \<in> set es. sized (image (kp e))"
    "\<not> has_mode mode YOKAN_MODE_IGNORE_KEYS" "fits keys"
    "ms = selected mode start (length keySizes) es"
    "pack_spec Some (length keys) False (map (image \<circ> kp) ms) = (ns, out)"
  shows "list_keys lt kp vp mode True start F keys keySizes es
    = Done \<lparr> g_vals = out @ drop (length out) keys, g_size = usize out,
        g_vsizes = ns @ replicate (length keySizes - length ms) YOKAN_NO_MORE_KEYS \<rparr>"
proof -
  have "list_keys_loop kp vp mode True F (length keySizes) (walk_start lt kp mode start es) 0 sl
    = obind (slot_run True 0 (map (image \<circ> kp) ms) sl) (\<lambda>sl'. Done (length ms, sl'))" for sl
    using list_keys_loop_law [OF start_sorted [OF assms(1)], of mode start mode ms "length keySizes" 0]
      start_subset [of mode start es] assms(2,4,6) by auto
  then show ?thesis
    using run_items [of keys es "image \<circ> kp" keySizes mode start ns out "length ms"] assms
    by (auto simp: list_keys_def)
qed

lemma list_kvs_packed:
  assumes "nodes_ok lt kp es" "\<forall>e \<in> set es. okkey (kp e)" "\<forall>e \<in> set es. sized (image (kp e))"
    "\<forall>e \<in> set es. sized (vimage (vp e))"
    "\<not> has_mode mode YOKAN_MODE_IGNORE_KEYS" "fits keys" "fits vals"
    "length valSizes = length keySizes"
    "ms = selected mode start (length keySizes) es"
    "pack_spec Some (length keys) False (map (image \<circ> kp) ms) = (ns, out)"
    "pack_spec Some (length vals) False (map (vimage \<circ> vp) ms) = (vns, vout)"
  shows "list_kvs lt kp vp mode True start F keys keySizes vals valSizes es
    = Done (\<lparr> g_vals = out @ drop (length out) keys, g_size = usize out,
        g_vsizes = ns @ replicate (length keySizes - length ms) YOKAN_NO_MORE_KEYS \<rparr>,
       \<lparr> g_vals = vout @ drop (length vout) vals, g_size = usize vout,
        g_vsizes = vns @ replicate (length keySizes - length ms) YOKAN_NO_MORE_KEYS \<rparr>)"
proof -
  note k = run_items [of keys es "image \<circ> kp" keySizes mode start ns out "length ms"]
  note v = run_items [of vals es "vimage \<circ> vp" valSizes mode start vns vout "length ms"]
  obtain kf where kr: "slot_run True 0 (map (image \<circ> kp) ms)
       \<lparr> sl_data = keys, sl_sizes = keySizes, sl_off = 0, sl_full = False \<rparr>
     = Done \<lparr> sl_data = out @ drop (length out) keys, sl_sizes = ns @ drop (length ms) keySizes,
              sl_off = usize out, sl_full = kf \<rparr>"
    using k(1) assms by auto
  obtain vf where vr: "slot_run True 0 (map (vimage \<circ> vp) ms)
       \<lparr> sl_data = vals, sl_sizes = valSizes, sl_off = 0, sl_full = False \<rparr>
     = Done \<lparr> sl_data = vout @ drop (length vout) vals, sl_sizes = vns @ drop (length ms) valSizes,
              sl_off = usize vout, sl_full = vf \<rparr>"
    using v(1) assms by auto
  have ok: "\<forall>e \<in> set (walk_start lt kp mode start es). okkey (kp e)"
    using start_subset [of mode start es] assms(2) by auto
  have "ms = take (length keySizes - 0) (filter passes (walk_start lt kp mode start es))"
    using assms(9) by simp
  from list_kv_loop_law [OF start_sorted [OF assms(1)] ok assms(5) this kr vr]
  show ?thesis
    using k(2) v(2) assms by (simp add: list_kvs_def)
qed

lemma list_keys_unpacked:
  assumes "nodes_ok lt kp es" "\<forall>e \<in> set es. okkey (kp e)" "\<forall>e \<in> set es. sized (image (kp e))"
    "\<not> has_mode mode YOKAN_MODE_IGNORE_KEYS" "packs keys rooms keySizes"
    "ms = selected mode start (length keySizes) es" "used = take (length ms) rooms"
  shows "list_keys lt kp vp mode False start F keys keySizes es
    = Done \<lparr> g_vals = concat (map2 (\<lambda>e r. snd (slot_spec Some (image (kp e)) r)) ms used)
                       @ drop (length (concat used)) keys,
             g_size = usize (concat used),
             g_vsizes = map2 (\<lambda>e r. fst (slot_spec Some (image (kp e)) r)) ms used
               @ replicate (length keySizes - length ms) YOKAN_NO_MORE_KEYS \<rparr>"
proof -
  obtain post where pk: "keySizes = map usize rooms" "fits keys" "keys = concat rooms @ post"
    using assms(5) by (rule packsE)
  have len: "length ms \<le> length rooms" "length used = length ms"
    using assms(6,7) pk(1) by simp_all
  let ?more = "drop (length ms) rooms"
  have split: "keys = concat used @ concat ?more @ post"
    "keySizes = map usize used @ map usize ?more"
    using pk assms(7) by (metis append.assoc append_take_drop_id concat_append)
      (metis append_take_drop_id assms(7) map_append pk(1))
  have "\<forall>x \<in> set (map (image \<circ> kp) ms). sized x"
    using assms(3,6) selected_subset [of "length keySizes" mode start es] by auto
  then have run: "slot_run False 0 (map (image \<circ> kp) ms)
       \<lparr> sl_data = concat used @ concat ?more @ post,
         sl_sizes = map usize used @ map usize ?more, sl_off = 0, sl_full = False \<rparr>
     = Done \<lparr> sl_data = concat (map2 (\<lambda>x r. snd (slot_spec Some x r)) (map (image \<circ> kp) ms) used)
                  @ concat ?more @ post,
              sl_sizes = map2 (\<lambda>x r. fst (slot_spec Some x r)) (map (image \<circ> kp) ms) used
                  @ map usize ?more,
              sl_off = usize (concat used), sl_full = False \<rparr>"
    using slot_run_unpacked [of "map (image \<circ> kp) ms" used "[]" "concat ?more @ post" "[]"
        "map usize ?more" False] pk(2) [unfolded split(1)] len(2) by simp
  have "slot_run False 0 (map (image \<circ> kp) ms)
       \<lparr> sl_data = keys, sl_sizes = keySizes, sl_off = 0, sl_full = False \<rparr>
     = Done \<lparr> sl_data = concat (map2 (\<lambda>x r. snd (slot_spec Some x r)) (map (image \<circ> kp) ms) used)
                  @ concat ?more @ post,
              sl_sizes = map2 (\<lambda>x r. fst (slot_spec Some x r)) (map (image \<circ> kp) ms) used
                  @ map usize ?more,
              sl_off = usize (concat used), sl_full = False \<rparr>"
    using run by (subst split(1), subst split(2)) simp
  moreover have "list_keys_loop kp vp mode False F (length keySizes) (walk_start lt kp mode start es) 0 sl
    = obind (slot_run False 0 (map (image \<circ> kp) ms) sl) (\<lambda>sl'. Done (length ms, sl'))" for sl
    using list_keys_loop_law [OF start_sorted [OF assms(1)], of mode start mode ms "length keySizes" 0]
      start_subset [of mode start es] assms(2,4,6) by auto
  moreover have "drop (length (concat used)) keys = concat ?more @ post"
    using split(1) by simp
  ultimately show ?thesis
    using len pk(1) by (simp add: list_keys_def fill_rest_append zip_map1 case_prod_unfold comp_def)
qed

end

section \<open>The walks of the code\<close>

text \<open>
  The two backends with their two filters, under the default comparator. Under another
  comparator the prefix filter's \<open>shouldStop\<close> has no reason to be sound.
\<close>

interpretation map_prefix_walk: node_walk DefaultMemCmp "KeyPrefixFilter mode prefix" fits
  "strip_prefix mode prefix" "\<lambda>v. v" fst snd
  by (intro node_walk.intro memcmp_order.total_comparator_axioms
      prefix_filter.filter_contract_axioms)

interpretation map_suffix_walk: node_walk DefaultMemCmp "KeySuffixFilter mode suffix" fits
  "strip_suffix mode suffix" "\<lambda>v. v" fst snd
  by (intro node_walk.intro memcmp_order.total_comparator_axioms
      suffix_filter.filter_contract_axioms)

interpretation map_coll_walk: node_walk DefaultMemCmp
  "CollectionFilterWrapper coll (Some DefaultDocFilter)" fits
  "drop (length (coll_prefix coll))" "\<lambda>v. v" fst snd
  by (intro node_walk.intro memcmp_order.total_comparator_axioms
      coll_filter.filter_contract_axioms)

interpretation set_prefix_walk: node_walk DefaultMemCmp "KeyPrefixFilter mode prefix" fits
  "strip_prefix mode prefix" "\<lambda>v. v" "\<lambda>k. k" "\<lambda>_. []"
  by (intro node_walk.intro memcmp_order.total_comparator_axioms
      prefix_filter.filter_contract_axioms)

end
