(* ===== verification/MapBackend.thy ===== *)
theory MapBackend
  imports Migration Listing
begin

text \<open>
  The four in-memory backends assembled: map.cpp over \<open>std::map\<close> and the comparator \<open>cmp\<close>,
  unordered_map.cpp over \<open>std::unordered_map\<close>, and what set.cpp adds with its ordered walks.
\<close>

type_synonym pairs = "(bytes \<times> bytes) list"
type_synonym order = "bytes \<Rightarrow> bytes \<Rightarrow> bool"
type_synonym layout = "pairs \<Rightarrow> pairs"

section \<open>map.cpp\<close>

definition map_supportsMode :: "bool \<Rightarrow> mode_t \<Rightarrow> bool" where
  "map_supportsMode has_lua mode = within_mask mode
     (YOKAN_MODE_INCLUSIVE OR YOKAN_MODE_APPEND OR YOKAN_MODE_CONSUME OR YOKAN_MODE_WAIT
      OR YOKAN_MODE_NEW_ONLY OR YOKAN_MODE_EXIST_ONLY OR YOKAN_MODE_NO_PREFIX
      OR YOKAN_MODE_IGNORE_KEYS OR YOKAN_MODE_KEEP_LAST OR YOKAN_MODE_SUFFIX
      OR (if has_lua then YOKAN_MODE_LUA_FILTER else 0) OR YOKAN_MODE_IGNORE_DOCS
      OR YOKAN_MODE_FILTER_VALUE OR YOKAN_MODE_LIB_FILTER OR YOKAN_MODE_NO_RDMA
      OR YOKAN_MODE_UPDATE_NEW)"

definition map_destroy :: "order \<Rightarrow> pairs kv_db \<Rightarrow> pairs kv_db" where
  "map_destroy cmp s = kv_destroy (std_map cmp) s"

definition map_count :: "order \<Rightarrow> mode_t \<Rightarrow> pairs kv_db \<Rightarrow> status \<times> size_t option" where
  "map_count cmp mode s = kv_count (std_map cmp) mode s"

definition map_exists :: "order \<Rightarrow> mode_t \<Rightarrow> umem \<Rightarrow> size_t list \<Rightarrow> bitfield \<Rightarrow> pairs kv_act list
    \<Rightarrow> pairs kv_db \<Rightarrow> (status \<times> bitfield \<times> pairs kv_act list \<times> pairs kv_db) outcome" where
  "map_exists cmp mode keys ksizes flags env s = kv_exists (std_map cmp) mode keys ksizes flags env s"

definition map_length :: "order \<Rightarrow> mode_t \<Rightarrow> umem \<Rightarrow> size_t list \<Rightarrow> size_t list
    \<Rightarrow> pairs kv_act list \<Rightarrow> pairs kv_db
    \<Rightarrow> (status \<times> size_t list \<times> pairs kv_act list \<times> pairs kv_db) outcome" where
  "map_length cmp mode keys ksizes vsizes env s = kv_length (std_map cmp) mode keys ksizes vsizes env s"

definition map_put :: "order \<Rightarrow> mode_t \<Rightarrow> umem \<Rightarrow> size_t list \<Rightarrow> bytes \<Rightarrow> size_t list
    \<Rightarrow> pairs kv_db \<Rightarrow> (status \<times> pairs kv_db) outcome" where
  "map_put cmp mode keys ksizes vals vsizes s = kv_put (std_map cmp) mode keys ksizes vals vsizes s"

definition map_get :: "order \<Rightarrow> mode_t \<Rightarrow> bool \<Rightarrow> umem \<Rightarrow> size_t list \<Rightarrow> bytes \<Rightarrow> size_t list
    \<Rightarrow> pairs kv_act list \<Rightarrow> pairs kv_db
    \<Rightarrow> (status \<times> get_out \<times> pairs kv_act list \<times> pairs kv_db) outcome" where
  "map_get cmp mode packed keys ksizes vals vsizes env s =
     kv_get (std_map cmp) mode packed keys ksizes vals vsizes env s"

definition map_fetch :: "order \<Rightarrow> mode_t \<Rightarrow> umem \<Rightarrow> size_t list \<Rightarrow> 'st fetch_cb \<Rightarrow> 'st
    \<Rightarrow> pairs kv_act list \<Rightarrow> pairs kv_db
    \<Rightarrow> (status \<times> 'st \<times> pairs kv_act list \<times> pairs kv_db) outcome" where
  "map_fetch cmp mode keys ksizes func st env s =
     (if m_migrated s then Done (Migrated, st, env, s)
      else map_fetch_loop (std_map cmp) (has_mode mode YOKAN_MODE_WAIT) keys ksizes func 0 st env s)"

definition map_erase :: "order \<Rightarrow> mode_t \<Rightarrow> umem \<Rightarrow> size_t list \<Rightarrow> pairs kv_act list
    \<Rightarrow> pairs kv_db \<Rightarrow> (status \<times> pairs kv_act list \<times> pairs kv_db) outcome" where
  "map_erase cmp mode keys ksizes env s = kv_erase (std_map cmp) mode keys ksizes env s"

text \<open>The walks do not change the database.\<close>

definition map_listKeys :: "order \<Rightarrow> mode_t \<Rightarrow> bool \<Rightarrow> bytes \<Rightarrow> kv_filter \<Rightarrow> bytes
    \<Rightarrow> size_t list \<Rightarrow> pairs kv_db \<Rightarrow> (status \<times> get_out) outcome" where
  "map_listKeys cmp mode packed fromKey F keys keySizes s =
     (if m_migrated s
      then Done (Migrated, \<lparr> g_vals = keys, g_size = usize keys, g_vsizes = keySizes \<rparr>)
      else obind (list_keys cmp fst snd mode packed fromKey F keys keySizes (m_db s))
             (\<lambda>out. Done (OK, out)))"

definition map_listKeyValues :: "order \<Rightarrow> mode_t \<Rightarrow> bool \<Rightarrow> bytes \<Rightarrow> kv_filter \<Rightarrow> bytes
    \<Rightarrow> size_t list \<Rightarrow> bytes \<Rightarrow> size_t list \<Rightarrow> pairs kv_db
    \<Rightarrow> (status \<times> get_out \<times> get_out) outcome" where
  "map_listKeyValues cmp mode packed fromKey F keys keySizes vals valSizes s =
     (if m_migrated s
      then Done (Migrated, \<lparr> g_vals = keys, g_size = usize keys, g_vsizes = keySizes \<rparr>,
                 \<lparr> g_vals = vals, g_size = usize vals, g_vsizes = valSizes \<rparr>)
      else obind (list_kvs cmp fst snd mode packed fromKey F keys keySizes vals valSizes (m_db s))
             (\<lambda>out. Done (OK, out)))"

definition map_iter :: "order \<Rightarrow> mode_t \<Rightarrow> size_t \<Rightarrow> bytes \<Rightarrow> kv_filter \<Rightarrow> bool
    \<Rightarrow> (bytes \<Rightarrow> bytes \<Rightarrow> 'st \<Rightarrow> status \<times> 'st) \<Rightarrow> pairs kv_db \<Rightarrow> 'st \<Rightarrow> (status \<times> 'st) outcome" where
  "map_iter cmp mode limit fromKey F ignore_values func s st =
     (if m_migrated s then Done (Migrated, st)
      else iter_nodes cmp fst snd mode limit fromKey F ignore_values func (m_db s) st)"

definition map_startMigration :: "string \<Rightarrow> pairs kv_db \<Rightarrow> filesystem
    \<Rightarrow> status \<times> mig_handle option \<times> filesystem" where
  "map_startMigration tmpname s fs = start_migration snapshot_pairs tmpname s fs"

definition map_endMigration :: "order \<Rightarrow> mig_handle \<Rightarrow> pairs kv_db \<Rightarrow> filesystem
    \<Rightarrow> pairs kv_db \<times> filesystem" where
  "map_endMigration cmp h s fs = end_migration (std_map cmp) h s fs"

definition map_recover :: "order \<Rightarrow> status \<Rightarrow> string \<Rightarrow> string list \<Rightarrow> filesystem
    \<Rightarrow> (status \<times> pairs option \<times> filesystem) outcome" where
  "map_recover cmp create_status root files fs =
     recover_db (recover_pairs (std_map cmp)) create_status [] root files fs"

section \<open>unordered_map.cpp\<close>

definition umap_supportsMode :: "bool \<Rightarrow> mode_t \<Rightarrow> bool" where
  "umap_supportsMode has_lua mode = within_mask mode
     (YOKAN_MODE_INCLUSIVE OR YOKAN_MODE_APPEND OR YOKAN_MODE_CONSUME OR YOKAN_MODE_WAIT
      OR YOKAN_MODE_NOTIFY OR YOKAN_MODE_NEW_ONLY OR YOKAN_MODE_EXIST_ONLY
      OR YOKAN_MODE_NO_PREFIX OR YOKAN_MODE_IGNORE_KEYS OR YOKAN_MODE_KEEP_LAST
      OR YOKAN_MODE_SUFFIX OR (if has_lua then YOKAN_MODE_LUA_FILTER else 0)
      OR YOKAN_MODE_IGNORE_DOCS OR YOKAN_MODE_FILTER_VALUE OR YOKAN_MODE_LIB_FILTER
      OR YOKAN_MODE_NO_RDMA OR YOKAN_MODE_UPDATE_NEW)"

definition umap_destroy :: "layout \<Rightarrow> pairs kv_db \<Rightarrow> pairs kv_db" where
  "umap_destroy layout s = kv_destroy (hash_map layout) s"

definition umap_count :: "layout \<Rightarrow> mode_t \<Rightarrow> pairs kv_db \<Rightarrow> status \<times> size_t option" where
  "umap_count layout mode s = kv_count (hash_map layout) mode s"

definition umap_exists :: "layout \<Rightarrow> mode_t \<Rightarrow> umem \<Rightarrow> size_t list \<Rightarrow> bitfield
    \<Rightarrow> pairs kv_act list \<Rightarrow> pairs kv_db
    \<Rightarrow> (status \<times> bitfield \<times> pairs kv_act list \<times> pairs kv_db) outcome" where
  "umap_exists layout mode keys ksizes flags env s =
     kv_exists (hash_map layout) mode keys ksizes flags env s"

definition umap_length :: "layout \<Rightarrow> mode_t \<Rightarrow> umem \<Rightarrow> size_t list \<Rightarrow> size_t list
    \<Rightarrow> pairs kv_act list \<Rightarrow> pairs kv_db
    \<Rightarrow> (status \<times> size_t list \<times> pairs kv_act list \<times> pairs kv_db) outcome" where
  "umap_length layout mode keys ksizes vsizes env s =
     kv_length (hash_map layout) mode keys ksizes vsizes env s"

definition umap_put :: "layout \<Rightarrow> mode_t \<Rightarrow> umem \<Rightarrow> size_t list \<Rightarrow> bytes \<Rightarrow> size_t list
    \<Rightarrow> pairs kv_db \<Rightarrow> (status \<times> pairs kv_db) outcome" where
  "umap_put layout mode keys ksizes vals vsizes s =
     kv_put (hash_map layout) mode keys ksizes vals vsizes s"

definition umap_get :: "layout \<Rightarrow> mode_t \<Rightarrow> bool \<Rightarrow> umem \<Rightarrow> size_t list \<Rightarrow> bytes \<Rightarrow> size_t list
    \<Rightarrow> pairs kv_act list \<Rightarrow> pairs kv_db
    \<Rightarrow> (status \<times> get_out \<times> pairs kv_act list \<times> pairs kv_db) outcome" where
  "umap_get layout mode packed keys ksizes vals vsizes env s =
     kv_get (hash_map layout) mode packed keys ksizes vals vsizes env s"

definition umap_fetch :: "layout \<Rightarrow> mode_t \<Rightarrow> umem \<Rightarrow> size_t list \<Rightarrow> 'st fetch_cb \<Rightarrow> 'st
    \<Rightarrow> pairs kv_act list \<Rightarrow> pairs kv_db
    \<Rightarrow> (status \<times> 'st \<times> pairs kv_act list \<times> pairs kv_db) outcome" where
  "umap_fetch layout mode keys ksizes func st env s =
     kv_fetch (hash_map layout) (has_mode mode YOKAN_MODE_WAIT) mode keys ksizes func st env s"

definition umap_erase :: "layout \<Rightarrow> mode_t \<Rightarrow> umem \<Rightarrow> size_t list \<Rightarrow> pairs kv_act list
    \<Rightarrow> pairs kv_db \<Rightarrow> (status \<times> pairs kv_act list \<times> pairs kv_db) outcome" where
  "umap_erase layout mode keys ksizes env s = kv_erase (hash_map layout) mode keys ksizes env s"

definition umap_startMigration :: "string \<Rightarrow> pairs kv_db \<Rightarrow> filesystem
    \<Rightarrow> status \<times> mig_handle option \<times> filesystem" where
  "umap_startMigration tmpname s fs = start_migration snapshot_pairs tmpname s fs"

definition umap_endMigration :: "layout \<Rightarrow> mig_handle \<Rightarrow> pairs kv_db \<Rightarrow> filesystem
    \<Rightarrow> pairs kv_db \<times> filesystem" where
  "umap_endMigration layout h s fs = end_migration (hash_map layout) h s fs"

definition umap_recover :: "layout \<Rightarrow> status \<Rightarrow> string \<Rightarrow> string list \<Rightarrow> filesystem
    \<Rightarrow> (status \<times> pairs option \<times> filesystem) outcome" where
  "umap_recover layout create_status root files fs =
     recover_db (recover_pairs (hash_map layout)) create_status [] root files fs"

section \<open>The walks and the migration of set.cpp and unordered_set.cpp\<close>

text \<open>A key is its own node; the filter sees no value, and \<open>vals.size\<close> ends at 0.\<close>

definition set_listKeys :: "order \<Rightarrow> mode_t \<Rightarrow> bool \<Rightarrow> bytes \<Rightarrow> kv_filter \<Rightarrow> bytes
    \<Rightarrow> size_t list \<Rightarrow> bytes list kv_db \<Rightarrow> (status \<times> get_out) outcome" where
  "set_listKeys cmp mode packed fromKey F keys keySizes s =
     (if m_migrated s
      then Done (Migrated, \<lparr> g_vals = keys, g_size = usize keys, g_vsizes = keySizes \<rparr>)
      else obind (list_keys cmp (\<lambda>k. k) (\<lambda>_. []) mode packed fromKey F keys keySizes (m_db s))
             (\<lambda>out. Done (OK, out)))"

definition set_listKeyValues :: "order \<Rightarrow> mode_t \<Rightarrow> bool \<Rightarrow> bytes \<Rightarrow> kv_filter \<Rightarrow> bytes
    \<Rightarrow> size_t list \<Rightarrow> bytes \<Rightarrow> size_t list \<Rightarrow> bytes list kv_db
    \<Rightarrow> (status \<times> get_out \<times> get_out) outcome" where
  "set_listKeyValues cmp mode packed fromKey F keys keySizes vals valSizes s =
     (if m_migrated s
      then Done (Migrated, \<lparr> g_vals = keys, g_size = usize keys, g_vsizes = keySizes \<rparr>,
                 \<lparr> g_vals = vals, g_size = usize vals, g_vsizes = valSizes \<rparr>)
      else obind (list_kvs cmp (\<lambda>k. k) (\<lambda>_. []) mode packed fromKey F keys keySizes vals valSizes
                    (m_db s))
             (\<lambda>(ko, vo). Done (OK, ko, vo\<lparr> g_size := 0 \<rparr>)))"

definition set_iter :: "order \<Rightarrow> mode_t \<Rightarrow> size_t \<Rightarrow> bytes \<Rightarrow> kv_filter \<Rightarrow> bool
    \<Rightarrow> (bytes \<Rightarrow> bytes \<Rightarrow> 'st \<Rightarrow> status \<times> 'st) \<Rightarrow> bytes list kv_db \<Rightarrow> 'st \<Rightarrow> (status \<times> 'st) outcome"
where
  "set_iter cmp mode limit fromKey F ignore_values func s st =
     (if m_migrated s then Done (Migrated, st)
      else iter_nodes cmp (\<lambda>k. k) (\<lambda>_. []) mode limit fromKey F ignore_values func (m_db s) st)"

definition set_startMigration :: "string \<Rightarrow> bytes list kv_db \<Rightarrow> filesystem
    \<Rightarrow> status \<times> mig_handle option \<times> filesystem" where
  "set_startMigration tmpname s fs = start_migration snapshot_keys tmpname s fs"

definition set_endMigration :: "order \<Rightarrow> mig_handle \<Rightarrow> bytes list kv_db \<Rightarrow> filesystem
    \<Rightarrow> bytes list kv_db \<times> filesystem" where
  "set_endMigration cmp h s fs = end_migration (std_set cmp) h s fs"

definition set_recover :: "order \<Rightarrow> status \<Rightarrow> string \<Rightarrow> string list \<Rightarrow> filesystem
    \<Rightarrow> (status \<times> bytes list option \<times> filesystem) outcome" where
  "set_recover cmp create_status root files fs =
     recover_db (recover_keys (std_set cmp)) create_status [] root files fs"

definition uset_startMigration :: "string \<Rightarrow> bytes list kv_db \<Rightarrow> filesystem
    \<Rightarrow> status \<times> mig_handle option \<times> filesystem" where
  "uset_startMigration tmpname s fs = start_migration snapshot_keys tmpname s fs"

definition uset_endMigration :: "(bytes list \<Rightarrow> bytes list) \<Rightarrow> mig_handle \<Rightarrow> bytes list kv_db
    \<Rightarrow> filesystem \<Rightarrow> bytes list kv_db \<times> filesystem" where
  "uset_endMigration layout h s fs = end_migration (hash_set layout) h s fs"

definition uset_recover :: "(bytes list \<Rightarrow> bytes list) \<Rightarrow> status \<Rightarrow> string \<Rightarrow> string list
    \<Rightarrow> filesystem \<Rightarrow> (status \<times> bytes list option \<times> filesystem) outcome" where
  "uset_recover layout create_status root files fs =
     recover_db (recover_keys (hash_set layout)) create_status [] root files fs"

end
