(* ===== verification/KvSafety.thy ===== *)
theory KvSafety
  imports MapBackend
begin

text \<open>
  What holds of an in-memory database whatever is asked of it: malformed sizes, any mode, keys
  absent or present, other threads acting while an operation waits. The container's invariant
  and the order of the watcher survive every operation that returns, and the system of all
  interleaved operations is a step relation whose reachable states satisfy them.
\<close>

section \<open>Waiting keeps what every action of the other threads keeps\<close>

definition keeps :: "('s \<Rightarrow> bool) \<Rightarrow> ('s \<Rightarrow> 's) list \<Rightarrow> bool" where
  "keeps P env \<longleftrightarrow> (\<forall>act \<in> set env. \<forall>s. P s \<longrightarrow> P (act s))"

lemma keeps_Nil [simp]: "keeps P []"
  by (simp add: keeps_def)

lemma keeps_Cons [simp]: "keeps P (act # env) \<longleftrightarrow> (\<forall>s. P s \<longrightarrow> P (act s)) \<and> keeps P env"
  by (simp add: keeps_def)

lemma yield_lock_keeps:
  "yield_lock env s = (env', s') \<Longrightarrow> keeps P env \<Longrightarrow> P s \<Longrightarrow> keeps P env' \<and> P s'"
  by (cases env) auto

lemma wait_loop_keeps:
  assumes "\<And>s n. P s \<Longrightarrow> P (s\<lparr> m_watcher := erase_node n (m_watcher s) \<rparr>)"
  shows "wait_loop n env s = Done (st, env', s') \<Longrightarrow> keeps P env \<Longrightarrow> P s \<Longrightarrow> keeps P env' \<and> P s'"
proof (induction n env s rule: wait_loop.induct)
  case (1 n env s)
  show ?case
  proof (cases "\<exists>act env1. node_status n (m_watcher s) = Some Pending \<and> env = act # env1")
    case True
    then obtain act env1 where p: "node_status n (m_watcher s) = Some Pending" "env = act # env1"
      by blast
    then have "wait_loop n env1 (act s) = Done (st, env', s')"
      using "1.prems"(1) by (simp add: wait_loop.simps [of n "act # env1" s])
    then show ?thesis using "1.IH" [OF p(1) _ p(2)] "1.prems" p by simp
  next
    case False
    with "1.prems" assms show ?thesis
      by (auto simp: wait_loop.simps [of n env s] split: option.splits if_splits list.splits)
  qed
qed

lemma find_retry_keeps:
  assumes er: "\<And>s n. P s \<Longrightarrow> P (s\<lparr> m_watcher := erase_node n (m_watcher s) \<rparr>)"
    and ad: "\<And>s key. P s \<Longrightarrow> P (s\<lparr> m_watcher := addKey key (m_watcher s) \<rparr>)"
  shows "find_retry look mw key env s = Done (r, env', s') \<Longrightarrow> keeps P env \<Longrightarrow> P s
    \<Longrightarrow> keeps P env' \<and> P s'"
proof (induction look mw key env s rule: find_retry.induct)
  case (1 look mw key env s)
  show ?case
  proof (cases "look s \<noteq> None \<or> \<not> mw \<or> env = []")
    case True
    with "1.prems" show ?thesis
      by (auto simp: find_retry.simps [of look mw key env s] split: option.splits if_splits)
  next
    case False
    then obtain act env1 where env: "env = act # env1" and lk: "look s = None" and mw: "mw"
      by (cases env) auto
    let ?s1 = "act (s\<lparr> m_watcher := addKey key (m_watcher s) \<rparr>)"
    have p1: "P ?s1" "keeps P env1" using "1.prems" ad env by auto
    obtain ret env2 s2 where w: "waitKey key env1 ?s1 = Done (ret, env2, s2)"
      and n: "(if ret = KeyPresent then find_retry look mw key env2 s2
               else Done (WaitFailed, env2, s2)) = Done (r, env', s')"
    proof -
      have "obind (waitKey key env1 ?s1) (\<lambda>(ret, env2, s').
          if ret = KeyPresent then find_retry look mw key env2 s' else Done (WaitFailed, env2, s'))
        = Done (r, env', s')"
        using "1.prems"(1) [unfolded env, unfolded find_retry.simps [of look mw key "act # env1" s]]
        by (simp only: lk mw option.case list.case not_True_eq_False if_False)
      then show thesis using that by (elim obind_DoneE) auto
    qed
    have p2: "keeps P env2 \<and> P s2"
    proof (cases "wait_select key (m_watcher ?s1)")
      case (SelNode n)
      with w have "wait_loop n env1 ?s1 = Done (ret, env2, s2)" by (simp add: waitKey_def)
      then show ?thesis using wait_loop_keeps [where P = P, OF er] p1 by blast
    qed (use w p1 in \<open>auto simp: waitKey_def\<close>)
    show ?thesis
    proof (cases "ret = KeyPresent")
      case True
      then have "find_retry look mw key env2 s2 = Done (r, env', s')" using n by simp
      then show ?thesis
        using "1.IH" [OF lk _ env w] mw p2 True by auto
    next
      case False
      with n p2 show ?thesis by auto
    qed
  qed
qed

section \<open>Being woken\<close>

lemma wait_select_own:
  assumes "watcher_ok w" "\<forall>e \<in> set (w_entries w). w_key e \<noteq> um_data key"
  shows "wait_select key (addKey key w) = SelNode (w_fresh w)"
proof -
  let ?k = "um_data key"
  let ?P = "\<lambda>e. \<not> DefaultMemCmp ?k (w_key e)" and ?Q = "\<lambda>e. DefaultMemCmp (w_key e) ?k"
  have "\<forall>e \<in> set (takeWhile ?P (w_entries w)). ?Q e"
    using assms(2) memcmp_order.not_lt_iff by (metis set_takeWhileD)
  then have "dropWhile ?Q (w_entries (addKey key w))
    = \<lparr> w_node = w_fresh w, w_addr = um_addr key, w_key = ?k, w_status = Pending \<rparr>
      # dropWhile ?P (w_entries w)"
    by (simp add: addKey_def Let_def dropWhile_append2 memcmp_order.lt_irrefl)
  then show ?thesis
    by (simp add: wait_select_def memcmp_order.lt_irrefl)
qed

lemma wait_select_other:
  assumes "watcher_ok w" "e \<in> set (w_entries w)" "w_key e = um_data key"
    and "\<forall>e \<in> set (w_entries w). w_key e = um_data key \<longrightarrow> w_addr e \<noteq> um_addr key"
  shows "wait_select key (addKey key w) = SelSpin"
proof -
  let ?k = "um_data key"
  let ?P = "\<lambda>e. \<not> DefaultMemCmp ?k (w_key e)" and ?Q = "\<lambda>e. DefaultMemCmp (w_key e) ?k"
  let ?B = "takeWhile ?P (w_entries w)"
  have "e \<notin> set (dropWhile ?P (w_entries w))"
  proof
    assume above: "e \<in> set (dropWhile ?P (w_entries w))"
    have "\<not> ?P e"
    proof (rule dropWhile_upward [OF _ _ above])
      show "sorted_wrt (\<lambda>a b. \<not> DefaultMemCmp (w_key b) (w_key a)) (w_entries w)"
        using assms(1) by (simp add: watcher_ok_def)
      show "\<not> ?P x \<Longrightarrow> \<not> DefaultMemCmp (w_key y) (w_key x) \<Longrightarrow> \<not> ?P y" for x y
        using memcmp_order.lt_cotrans [of ?k "w_key x" "w_key y"] by auto
    qed
    then show False using assms(3) by (simp add: memcmp_order.lt_irrefl)
  qed
  moreover have "e \<in> set (?B @ dropWhile ?P (w_entries w))" using assms(2) by simp
  ultimately have e: "e \<in> set ?B" by (simp only: set_append Un_iff simp_thms)
  have "\<not> ?Q e" using assms(3) by (simp add: memcmp_order.lt_irrefl)
  then obtain h t where ht: "dropWhile ?Q ?B = h # t"
    using e by (cases "dropWhile ?Q ?B") auto
  then have "h \<in> set ?B" "\<not> ?Q h"
    by (metis list.set_intros(1) set_dropWhileD) (metis ht hd_dropWhile list.discI list.sel(1))
  moreover have hp: "h \<in> set (w_entries w)" "\<not> DefaultMemCmp ?k (w_key h)"
    using set_takeWhileD [OF \<open>h \<in> set ?B\<close>] by simp_all
  ultimately have "w_key h = ?k"
    using memcmp_order.not_lt_iff by blast
  then have h: "w_key h = ?k" "w_addr h \<noteq> um_addr key"
    using assms(4) hp(1) by blast+
  have "dropWhile ?Q (w_entries (addKey key w)) = h # t
      @ \<lparr> w_node = w_fresh w, w_addr = um_addr key, w_key = ?k, w_status = Pending \<rparr>
        # dropWhile ?P (w_entries w)"
    using dropWhile_append1 [of e ?B ?Q] e \<open>\<not> ?Q e\<close> ht by (simp add: addKey_def Let_def)
  then show ?thesis
    using h by (simp add: wait_select_def memcmp_order.lt_irrefl)
qed

text \<open>Notifying changes statuses only, so it does not change which node is selected.\<close>

lemma wait_select_statuses:
  assumes "map (\<lambda>e. (w_node e, w_addr e, w_key e)) (w_entries w)
    = map (\<lambda>e. (w_node e, w_addr e, w_key e)) (w_entries w')"
  shows "wait_select key w = wait_select key w'"
proof -
  have "list_all2 (\<lambda>e e'. w_node e = w_node e' \<and> w_addr e = w_addr e' \<and> w_key e = w_key e')
      (w_entries w) (w_entries w')"
    using assms by (auto simp: list_all2_conv_all_nth list_eq_iff_nth_eq)
  then have "list_all2 (\<lambda>e e'. w_node e = w_node e' \<and> w_addr e = w_addr e' \<and> w_key e = w_key e')
      (dropWhile (\<lambda>e. DefaultMemCmp (w_key e) (um_data key)) (w_entries w))
      (dropWhile (\<lambda>e. DefaultMemCmp (w_key e) (um_data key)) (w_entries w'))"
    by (induction rule: list_all2_induct) auto
  then show ?thesis
    by (cases rule: list.rel_cases) (auto simp: wait_select_def simp del: dropWhile_eq_Nil_conv)
qed

lemma notifyKey_nodes:
  "map (\<lambda>e. (w_node e, w_addr e, w_key e)) (w_entries (notifyKey key w))
    = map (\<lambda>e. (w_node e, w_addr e, w_key e)) (w_entries w)"
  by (simp add: notifyKey_def comp_def if_distrib cong: if_cong)

lemma set_notifyKey:
  "set (w_entries (notifyKey key w))
    = (\<lambda>e. if w_key e = um_data key then e\<lparr> w_status := KeyPresent \<rparr> else e) ` set (w_entries w)"
  by (simp add: notifyKey_def)

lemma find_retry_woken:
  assumes "watcher_ok (m_watcher s)" "\<forall>e \<in> set (w_entries (m_watcher s)). w_key e \<noteq> um_data key"
    and "look s = None"
    and act: "s2 = act (s\<lparr> m_watcher := addKey key (m_watcher s) \<rparr>)"
      "m_watcher s2 = notifyKey key' (addKey key (m_watcher s))" "um_data key' = um_data key"
    and found: "look (s2\<lparr> m_watcher := erase_node (w_fresh (m_watcher s)) (m_watcher s2) \<rparr>) = Some v"
  shows "find_retry look True key (act # env) s
    = Done (Found v, env, s2\<lparr> m_watcher := erase_node (w_fresh (m_watcher s)) (m_watcher s2) \<rparr>)"
proof -
  let ?w = "m_watcher s" and ?w1 = "addKey key (m_watcher s)"
  have sel: "wait_select key (m_watcher s2) = SelNode (w_fresh ?w)"
    using wait_select_statuses [OF notifyKey_nodes] wait_select_own [OF assms(1,2)]
    unfolding act(2) by metis
  let ?e = "\<lparr> w_node = w_fresh ?w, w_addr = um_addr key, w_key = um_data key, w_status = KeyPresent \<rparr>"
  have "?e \<in> set (w_entries (m_watcher s2))"
    unfolding act(2) set_notifyKey set_addKey by (simp add: act(3))
  moreover have "watcher_ok (m_watcher s2)"
    unfolding act(2) by (intro watcher_ok_notifyKey watcher_ok_addKey assms(1))
  ultimately have "node_status (w_fresh ?w) (m_watcher s2) = Some KeyPresent"
    using node_status_Some [of "m_watcher s2" ?e] by simp
  then have "waitKey key env s2
    = Done (KeyPresent, env, s2\<lparr> m_watcher := erase_node (w_fresh ?w) (m_watcher s2) \<rparr>)"
    by (simp add: waitKey_def sel wait_loop.simps [of "w_fresh ?w"])
  then show ?thesis
    using assms(3) find_retry_found [where look = look, OF found, where mw = True and key = key and env = env]
    by (simp add: find_retry.simps [of look True key "act # env" s] act(1) [symmetric])
qed

text \<open>
  A thread that finds another waiter's node first in its key's range never leaves \<open>waitKey\<close>.
\<close>

lemma find_retry_spins:
  assumes "look s = None" "wait_select key (m_watcher (act (s\<lparr> m_watcher := addKey key (m_watcher s) \<rparr>))) = SelSpin"
  shows "find_retry look True key (act # env) s = Hung"
  using assms by (simp add: find_retry.simps [of look True key "act # env" s] waitKey_def)

section \<open>The operations of a container keep its invariant\<close>

definition kv_safe :: "('c \<Rightarrow> bool) \<Rightarrow> 'c kv_db \<Rightarrow> bool" where
  "kv_safe good s \<longleftrightarrow> good (m_db s) \<and> watcher_ok (m_watcher s)"

lemma kv_safe_notify: "kv_safe good s \<Longrightarrow> kv_safe good (kv_notify mode key s)"
  by (auto simp: kv_safe_def kv_notify_def intro: watcher_ok_notifyKey)

lemma kv_safe_db: "kv_safe good s \<Longrightarrow> good c \<Longrightarrow> kv_safe good (s\<lparr> m_db := c \<rparr>)"
  by (simp add: kv_safe_def)

lemma kv_safe_inv: "kv_safe good s \<Longrightarrow> good (m_db s)"
  by (simp add: kv_safe_def)

lemma find_retry_safe:
  assumes "find_retry look mw key env s = Done (r, env', s')" "keeps (kv_safe good) env" "kv_safe good s"
  shows "keeps (kv_safe good) env' \<and> kv_safe good s'"
  by (rule find_retry_keeps [OF _ _ assms])
    (auto simp: kv_safe_def intro: watcher_ok_erase_node watcher_ok_addKey)

lemma find_step_safe:
  assumes "obind view (\<lambda>key. obind (find_retry (look key) mw key env s) (f key)) = Done y"
    "keeps (kv_safe good) env" "kv_safe good s"
  obtains key r env' s' where "f key (r, env', s') = Done y" "keeps (kv_safe good) env'"
    "kv_safe good s'"
proof -
  obtain key where "obind (find_retry (look key) mw key env s) (f key) = Done y"
    using assms(1) by (rule obind_DoneE)
  then obtain q where q: "find_retry (look key) mw key env s = Done q" "f key q = Done y"
    by (rule obind_DoneE)
  obtain r env' s' where "q = (r, env', s')" by (cases q)
  with q have "keeps (kv_safe good) env' \<and> kv_safe good s'"
    by (intro find_retry_safe [OF _ assms(2,3)]) simp
  with q(2) \<open>q = (r, env', s')\<close> show thesis by (intro that [of key r env' s']) simp_all
qed

context kv_container
begin

lemma put_one_safe:
  assumes "kv_put_one C mode single key val s = Done (st, s')" "kv_safe inv s"
  shows "kv_safe inv s'"
proof -
  have i: "inv (m_db s)" by (rule kv_safe_inv [OF assms(2)])
  note store = kv_safe_notify [OF kv_safe_db [OF assms(2) store_inv [OF i]]]
  note emplace = kv_safe_notify [OF kv_safe_db [OF assms(2) emplace_inv [OF i]]]
  note both = kv_safe_notify [OF kv_safe_db [OF assms(2) store_inv [OF emplace_inv [OF i]]]]
  show ?thesis
    using assms(1) assms(2)
    by (cases val)
      (auto simp: kv_put_one_def Let_def case_prod_unfold store emplace both
        split: if_splits option.splits)
qed

lemma put_loop_safe:
  "kv_put_loop C mode single keys vals kvs ko vo s = Done (st, s') \<Longrightarrow> kv_safe inv s \<Longrightarrow> kv_safe inv s'"
proof (induction kvs arbitrary: ko vo s)
  case Nil
  then show ?case by simp
next
  case (Cons kv kvs)
  obtain ksize vsize where kv: "kv = (ksize, vsize)" by (cases kv)
  obtain key st1 s1 where one: "kv_put_one C mode single key (sub_bytes vals vo vsize) s = Done (st1, s1)"
    and rest: "(if st1 \<noteq> OK then Done (st1, s1)
      else kv_put_loop C mode single keys vals kvs (ko + ksize) (vo + vsize) s1) = Done (st, s')"
    using Cons.prems(1) unfolding kv kv_put_loop.simps by (elim obind_DoneE) auto
  have "kv_safe inv s1" by (rule put_one_safe [OF one Cons.prems(2)])
  with rest Cons.IH show ?case by (cases "st1 = OK") auto
qed

lemma put_safe:
  assumes "kv_put C mode keys ksizes vals vsizes s = Done (st, s')" "kv_safe inv s"
  shows "kv_safe inv s'"
  using assms by (auto simp: kv_put_def dest: put_loop_safe split: if_splits)

lemma erase_loop_safe:
  "kv_erase_loop C mw keys ksizes off env s = Done (st, env', s') \<Longrightarrow> keeps (kv_safe inv) env
    \<Longrightarrow> kv_safe inv s \<Longrightarrow> keeps (kv_safe inv) env' \<and> kv_safe inv s'"
proof (induction ksizes arbitrary: off env s)
  case Nil
  then show ?case by simp
next
  case (Cons ksize ksizes)
  show ?case
  proof (cases "off + ksize > usize (um_data keys)")
    case True
    with Cons.prems show ?thesis by simp
  next
    case False
    with Cons.prems(1) have "obind (sub_umem keys off ksize) (\<lambda>key.
        obind (find_retry (kv_look C (um_data key)) mw key env s) (\<lambda>(r, env', s').
          case r of
            Found v \<Rightarrow> kv_erase_loop C mw keys ksizes (off + ksize) env'
                         (s'\<lparr> m_db := c_erase C (um_data key) (m_db s') \<rparr>)
          | Missing \<Rightarrow> kv_erase_loop C mw keys ksizes (off + ksize) env' s'
          | WaitFailed \<Rightarrow> Done (TimedOut, env', s'))) = Done (st, env', s')"
      by simp
    then show ?thesis
    proof (rule find_step_safe [OF _ Cons.prems(2,3)])
      fix key r env1 s1
      assume n: "(case (r, env1, s1) of (r, env', s') \<Rightarrow>
          case r of
            Found v \<Rightarrow> kv_erase_loop C mw keys ksizes (off + ksize) env'
                         (s'\<lparr> m_db := c_erase C (um_data key) (m_db s') \<rparr>)
          | Missing \<Rightarrow> kv_erase_loop C mw keys ksizes (off + ksize) env' s'
          | WaitFailed \<Rightarrow> Done (TimedOut, env', s')) = Done (st, env', s')"
        and safe1: "keeps (kv_safe inv) env1" "kv_safe inv s1"
      have "kv_safe inv (s1\<lparr> m_db := c_erase C (um_data key) (m_db s1) \<rparr>)"
        using kv_safe_db [OF safe1(2) erase_inv [OF kv_safe_inv [OF safe1(2)]]] by simp
      then show ?thesis using n safe1 Cons.IH [OF _ safe1(1)] by (cases r) auto
    qed
  qed
qed

lemma erase_safe:
  assumes "kv_erase C mode keys ksizes env s = Done (st, env', s')" "keeps (kv_safe inv) env"
    "kv_safe inv s"
  shows "keeps (kv_safe inv) env' \<and> kv_safe inv s'"
  using assms by (auto simp: kv_erase_def dest: erase_loop_safe split: if_splits)

lemma get_loop_safe:
  "kv_get_loop C mode keys ksizes i ko vo out env s = Done (st, out', env', s')
    \<Longrightarrow> keeps (kv_safe inv) env \<Longrightarrow> kv_safe inv s \<Longrightarrow> keeps (kv_safe inv) env' \<and> kv_safe inv s'"
proof (induction ksizes arbitrary: i ko vo out env s)
  case Nil
  then show ?case by simp
next
  case (Cons ksize ksizes)
  from Cons.prems(1) show ?case
    unfolding kv_get_loop.simps Let_def
  proof (rule find_step_safe [OF _ Cons.prems(2,3)])
    fix key r env1 s1
    assume n: "(case (r, env1, s1) of (r, env', s') \<Rightarrow>
        case r of
          Found v \<Rightarrow>
            obind (valCopy mode (g_vals out) vo (g_vsizes out ! i) v) (\<lambda>(n, vals').
              kv_get_loop C mode keys ksizes (Suc i) (ko + ksize) (vo + g_vsizes out ! i)
                (out\<lparr> g_vals := vals', g_vsizes := (g_vsizes out)[i := n] \<rparr>) env' s')
        | Missing \<Rightarrow>
            kv_get_loop C mode keys ksizes (Suc i) (ko + ksize) (vo + g_vsizes out ! i)
              (out\<lparr> g_vsizes := (g_vsizes out)[i := YOKAN_KEY_NOT_FOUND] \<rparr>) env' s'
        | WaitFailed \<Rightarrow> Done (TimedOut, out, env', s')) = Done (st, out', env', s')"
      and safe1: "keeps (kv_safe inv) env1" "kv_safe inv s1"
    show ?thesis
      using n Cons.IH [OF _ safe1] safe1
      by (auto split: find_result.splits elim!: obind_DoneE)
  qed
qed

lemma get_packed_loop_safe:
  "kv_get_packed_loop C mode keys ksizes i ko vo room full out env s = Done (st, out', env', s')
    \<Longrightarrow> keeps (kv_safe inv) env \<Longrightarrow> kv_safe inv s \<Longrightarrow> keeps (kv_safe inv) env' \<and> kv_safe inv s'"
proof (induction ksizes arbitrary: i ko vo room full out env s)
  case Nil
  then show ?case by simp
next
  case (Cons ksize ksizes)
  from Cons.prems(1) show ?case
    unfolding kv_get_packed_loop.simps Let_def
  proof (rule find_step_safe [OF _ Cons.prems(2,3)])
    fix key r env1 s1
    assume n: "(case (r, env1, s1) of (r, env', s') \<Rightarrow>
         case r of
           Missing \<Rightarrow>
             kv_get_packed_loop C mode keys ksizes (Suc i) (ko + ksize) vo room full
               (out\<lparr> g_vsizes := (g_vsizes out)[i := YOKAN_KEY_NOT_FOUND] \<rparr>) env' s'
         | Found v \<Rightarrow>
             if full then
               kv_get_packed_loop C mode keys ksizes (Suc i) (ko + ksize) vo room full
                 (out\<lparr> g_vsizes := (g_vsizes out)[i := YOKAN_SIZE_TOO_SMALL] \<rparr>) env' s'
             else
               obind (valCopy mode (g_vals out) vo room v) (\<lambda>(n, vals').
                 if n = YOKAN_SIZE_TOO_SMALL then
                   kv_get_packed_loop C mode keys ksizes (Suc i) (ko + ksize) vo room True
                     (out\<lparr> g_vals := vals', g_vsizes := (g_vsizes out)[i := n] \<rparr>) env' s'
                 else
                   kv_get_packed_loop C mode keys ksizes (Suc i) (ko + ksize)
                     (vo + n) (room - n) full
                     (out\<lparr> g_vals := vals', g_vsizes := (g_vsizes out)[i := n] \<rparr>) env' s')
         | WaitFailed \<Rightarrow> Done (TimedOut, out, env', s')) = Done (st, out', env', s')"
      and safe1: "keeps (kv_safe inv) env1" "kv_safe inv s1"
    show ?thesis
      using n Cons.IH [OF _ safe1] safe1
      by (auto split: find_result.splits if_splits elim!: obind_DoneE)
  qed
qed

lemma get_safe:
  assumes "kv_get C mode packed keys ksizes vals vsizes env s = Done (st, out, env', s')"
    "keeps (kv_safe inv) env" "kv_safe inv s"
  shows "keeps (kv_safe inv) env' \<and> kv_safe inv s'"
proof (cases "length ksizes \<noteq> length vsizes \<or> m_migrated s")
  case True
  with assms show ?thesis by (auto simp: kv_get_def Let_def split: if_splits)
next
  case False
  let ?out = "\<lparr> g_vals = vals, g_size = usize vals, g_vsizes = vsizes \<rparr>"
  obtain st1 out1 env1 s1 where
    loop: "(if \<not> packed then kv_get_loop C mode keys ksizes 0 0 0 ?out env s
            else kv_get_packed_loop C mode keys ksizes 0 0 0 (usize vals) False ?out env s)
           = Done (st1, out1, env1, s1)"
    and rest: "(if st1 \<noteq> OK then Done (st1, out1, env1, s1)
      else if has_mode mode YOKAN_MODE_CONSUME then
        (case yield_lock env1 s1 of (env2, s2) \<Rightarrow>
           obind (kv_erase C mode keys ksizes env2 s2) (\<lambda>(st', env3, s3).
             Done (st', out1, env3, s3)))
      else Done (OK, out1, env1, s1)) = Done (st, out, env', s')"
    using assms(1) False by (auto simp: kv_get_def Let_def obind_Done_iff)
  have safe1: "keeps (kv_safe inv) env1 \<and> kv_safe inv s1"
    using loop assms(2,3) by (auto dest: get_loop_safe get_packed_loop_safe split: if_splits)
  obtain env2 s2 where y: "yield_lock env1 s1 = (env2, s2)" by (cases "yield_lock env1 s1")
  have safe2: "keeps (kv_safe inv) env2" "kv_safe inv s2"
    using yield_lock_keeps [OF y] safe1 by auto
  show ?thesis
    using rest safe1 y
    by (auto split: if_splits elim!: obind_DoneE dest: erase_safe [OF _ safe2])
qed

text \<open>
  A packed \<open>get\<close> with \<open>CONSUME\<close>, other threads acting where it releases the lock: the values are
  those of the state before, the keys are erased from the state the others leave.
\<close>

lemma get_consume_yield_law:
  assumes "inv (m_db s)" "\<not> m_migrated s" "packs (um_data keys) ks ksizes" "fits vals"
    "\<not> has_mode mode YOKAN_MODE_WAIT" "has_mode mode YOKAN_MODE_CONSUME"
    "\<forall>v \<in> ran (abs (m_db s)). sized v" "length vsizes = length ks"
    "pack_spec (abs (m_db s)) (length vals) False ks = (ns, vs)"
    and yield: "yield_lock env s = (env1, s1)" "inv (m_db s1)" "\<not> m_migrated s1"
  shows "\<exists>s'. kv_get C mode True keys ksizes vals vsizes env s
    = Done (OK, \<lparr> g_vals = vs @ drop (length vs) vals, g_size = usize vs, g_vsizes = ns \<rparr>, env1, s')
    \<and> inv (m_db s') \<and> abs (m_db s') = abs (m_db s1) |` (- set ks) \<and> \<not> m_migrated s'"
proof -
  obtain post where "ksizes = map usize ks" "fits (um_data keys)"
    "um_data keys = concat ks @ post"
    using assms(3) by (rule packsE)
  then have loop: "kv_get_packed_loop C mode keys ksizes 0 0 0 (usize vals) False
      \<lparr> g_vals = vals, g_size = usize vals, g_vsizes = vsizes \<rparr> env s
    = Done (OK, \<lparr> g_vals = vs @ drop (length vs) vals, g_size = usize vs, g_vsizes = ns \<rparr>, env, s)"
    using get_packed_loop_law [OF assms(1), of keys "[]" ks post mode
        "\<lparr> g_vals = vals, g_size = usize vals, g_vsizes = vsizes \<rparr>" "[]" vals "[]" vsizes False env]
      assms by simp
  obtain s' where s': "kv_erase C mode keys ksizes env1 s1 = Done (OK, env1, s')"
    "inv (m_db s')" "abs (m_db s') = abs (m_db s1) |` (- set ks)" "m_migrated s' = m_migrated s1"
    using erase_law [OF yield(2,3) assms(3,5)] by blast
  have "kv_get C mode True keys ksizes vals vsizes env s
    = Done (OK, \<lparr> g_vals = vs @ drop (length vs) vals, g_size = usize vs, g_vsizes = ns \<rparr>, env1, s')"
    using loop s'(1) yield(1) assms packs_length [OF assms(3)] by (simp add: kv_get_def)
  then show ?thesis using s' yield(3) by blast
qed

text \<open>One key, absent, put in a mode that neither guards nor appends.\<close>

lemma put_single_new:
  assumes "inv (m_db s)" "\<not> m_migrated s" "k \<notin> dom (abs (m_db s))" "fits k" "fits v"
    "\<not> has_mode mode YOKAN_MODE_NEW_ONLY" "\<not> has_mode mode YOKAN_MODE_EXIST_ONLY"
    "\<not> has_mode mode YOKAN_MODE_APPEND"
  shows "kv_put C mode \<lparr> um_addr = a, um_data = k \<rparr> [usize k] v [usize v] s
    = Done (OK, kv_notify mode \<lparr> um_addr = a, um_data = k \<rparr>
        (s\<lparr> m_db := fst (c_emplace C k v (m_db s)) \<rparr>))"
proof -
  have "sub_umem \<lparr> um_addr = a, um_data = k \<rparr> 0 (usize k) = Done \<lparr> um_addr = a, um_data = k \<rparr>"
    using sub_umem_append [of "[]" k "[]" "\<lparr> um_addr = a, um_data = k \<rparr>"] assms(4) by simp
  moreover have "sub_bytes v 0 (usize v) = Done v"
    using sub_bytes_append [of "[]" v "[]"] assms(5) by simp
  ultimately show ?thesis
    using assms emplace_new [OF assms(1), of k v]
    by (simp add: kv_put_def kv_put_one_def case_prod_unfold accumulate_sum_list)
qed

text \<open>A packed \<open>get\<close> of one key, once the key is found.\<close>

lemma get_single_found:
  assumes "find_retry (kv_look C k) (has_mode mode YOKAN_MODE_WAIT) \<lparr> um_addr = a, um_data = k \<rparr> env s
      = Done (Found v, env', s')"
    "\<not> m_migrated s" "fits k" "sized v" "fits buf" "length v \<le> length buf"
    "\<not> has_mode mode YOKAN_MODE_CONSUME"
  shows "kv_get C mode True \<lparr> um_addr = a, um_data = k \<rparr> [usize k] buf [n] env s
    = Done (OK, \<lparr> g_vals = v @ drop (length v) buf, g_size = usize v, g_vsizes = [usize v] \<rparr>, env', s')"
proof -
  have key: "sub_umem \<lparr> um_addr = a, um_data = k \<rparr> 0 (usize k) = Done \<lparr> um_addr = a, um_data = k \<rparr>"
    using sub_umem_append [of "[]" k "[]" "\<lparr> um_addr = a, um_data = k \<rparr>"] assms(3) by simp
  have split: "take (length v) buf @ drop (length v) buf = buf" by simp
  have "usize v \<le> usize buf"
    using usize_le_iff [OF sized_fits [OF assms(4)] assms(5)] assms(6) by simp
  then have val: "valCopy mode buf 0 (usize buf) v = Done (usize v, v @ drop (length v) buf)"
    using valCopy_fit [of "[]" "take (length v) buf" "drop (length v) buf" v "usize buf" mode] assms(5,6)
    by simp
  show ?thesis
    using key val assms sized_usize(2) [OF assms(4)]
    by (simp add: kv_get_def Let_def)
qed

lemma destroy_safe: "kv_safe inv s \<Longrightarrow> kv_safe inv (kv_destroy C s)"
  by (simp add: kv_safe_def kv_destroy_def clear_inv)

end

section \<open>All operations interleaved\<close>

text \<open>
  The states a map database goes through when any clients issue any operations. A waiting
  operation gives the lock away between \<open>addKey\<close> and the end of \<open>waitKey\<close>, so these two are
  steps of their own; the operations that find their key are one step.
\<close>

inductive map_reach :: "order \<Rightarrow> pairs kv_db \<Rightarrow> bool" for cmp :: order where
  fresh: "map_reach cmp \<lparr> m_migrated = False, m_watcher = watcher_init, m_db = [] \<rparr>"
| put: "map_reach cmp s \<Longrightarrow> map_put cmp mode keys ksizes vals vsizes s = Done (st, s')
    \<Longrightarrow> map_reach cmp s'"
| erase: "map_reach cmp s \<Longrightarrow> map_erase cmp mode keys ksizes [] s = Done (st, env', s')
    \<Longrightarrow> map_reach cmp s'"
| get: "map_reach cmp s \<Longrightarrow> map_get cmp mode packed keys ksizes vals vsizes [] s = Done (st, out, env', s')
    \<Longrightarrow> map_reach cmp s'"
| destroy: "map_reach cmp s \<Longrightarrow> map_reach cmp (map_destroy cmp s)"
| wait_begin: "map_reach cmp s \<Longrightarrow> map_reach cmp (s\<lparr> m_watcher := addKey key (m_watcher s) \<rparr>)"
| wait_end: "map_reach cmp s \<Longrightarrow> node_status n (m_watcher s) = Some ws \<Longrightarrow> ws \<noteq> Pending
    \<Longrightarrow> map_reach cmp (s\<lparr> m_watcher := erase_node n (m_watcher s) \<rparr>)"
| migrate: "map_reach cmp s \<Longrightarrow> map_endMigration cmp h s fs = (s', fs') \<Longrightarrow> map_reach cmp s'"

declare map_reach.intros [intro]

lemma kv_safe_end_migration:
  "end_migration C h s fs = (s', fs') \<Longrightarrow> good (c_clear C (m_db s)) \<Longrightarrow> kv_safe good s \<Longrightarrow> kv_safe good s'"
  by (auto simp: end_migration_def kv_safe_def kv_destroy_def Let_def split: if_splits)

context total_comparator
begin

lemma map_container: "kv_container (std_map lt) map_of (nodes_ok lt fst)"
  by (rule map_kv.kv_container_axioms)

lemma map_reach_safe: "map_reach lt s \<Longrightarrow> kv_safe (nodes_ok lt fst) s"
proof (induction rule: map_reach.induct)
  case fresh
  show ?case by (simp add: kv_safe_def nodes_ok_def watcher_ok_init)
next
  case (put s mode keys ksizes vals vsizes st s')
  then show ?case by (auto simp: map_put_def dest: map_kv.put_safe)
next
  case (erase s mode keys ksizes st env' s')
  then show ?case by (auto simp: map_erase_def dest: map_kv.erase_safe)
next
  case (get s mode packed keys ksizes vals vsizes st out env' s')
  then show ?case by (auto simp: map_get_def dest: map_kv.get_safe)
next
  case (destroy s)
  then show ?case by (simp add: map_destroy_def map_kv.destroy_safe)
next
  case (wait_begin s key)
  then show ?case by (simp add: kv_safe_def watcher_ok_addKey)
next
  case (wait_end s n ws)
  then show ?case by (simp add: kv_safe_def watcher_ok_erase_node)
next
  case (migrate s h fs s' fs')
  then show ?case
    by (auto simp: map_endMigration_def intro: kv_safe_end_migration map_kv.clear_inv)
qed

end

context hash_layout
begin

lemma umap_container: "kv_container (hash_map layout) map_of (\<lambda>c. distinct (map fst c))"
  by (rule umap_kv.kv_container_axioms)

end

end
