(* ===== verification/MapProperties.thy ===== *)
theory MapProperties
  imports KvSafety
begin

text \<open>
  The properties of the in-memory key/value backends: map.cpp and unordered_map.cpp against the
  finite map they store, and what their waiting and consuming modes guarantee and do not
  guarantee.
\<close>

section \<open>Concrete databases for the witnesses\<close>

definition map_db :: "'c \<Rightarrow> 'c kv_db" where
  "map_db db = \<lparr> m_migrated = False, m_watcher = watcher_init, m_db = db \<rparr>"

definition at_addr :: "size_t \<Rightarrow> bytes \<Rightarrow> umem" where
  "at_addr a b = \<lparr> um_addr = a, um_data = b \<rparr>"

lemmas concrete = map_db_def at_addr_def packs_def usize_def nodes_ok_def watcher_init_def
  DefaultMemCmp_def has_mode_def YOKAN_MODE_DEFAULT_def YOKAN_MODE_NEW_ONLY_def
  YOKAN_MODE_EXIST_ONLY_def YOKAN_MODE_APPEND_def YOKAN_MODE_WAIT_def YOKAN_MODE_NOTIFY_def
  YOKAN_MODE_CONSUME_def

lemmas memcmp_total = memcmp_order.total_comparator_axioms
lemmas buckets_total = bucket_order.hash_layout_axioms

text \<open>The contract of \<open>KvContract\<close>, for \<open>std::map\<close> with any total comparator.\<close>

lemma map_is_container:
  "total_comparator cmp \<Longrightarrow> kv_container (std_map cmp) map_of (nodes_ok cmp fst)"
  by (rule total_comparator.map_container)

lemma map_is_reader:
  "total_comparator cmp \<Longrightarrow> kv_reader (std_map cmp) map_of (nodes_ok cmp fst)"
  by (rule kv_container.axioms(1) [OF map_is_container])

section \<open>Facts on finite maps and the specifications\<close>

lemma put_spec_all_dom:
  assumes "\<not> has_mode mode YOKAN_MODE_NEW_ONLY" "\<not> has_mode mode YOKAN_MODE_EXIST_ONLY"
  shows "length ks = length vs
    \<Longrightarrow> dom (snd (put_spec mode single m (zip ks vs))) = dom m \<union> set ks"
  by (induction ks vs arbitrary: m rule: list_induct2) (auto simp: put_one_spec_def assms)

lemma ran_map_upds_subset: "ran (m(ks [\<mapsto>] vs)) \<subseteq> ran m \<union> set vs"
proof (induction ks arbitrary: m vs)
  case (Cons k ks)
  show ?case
  proof (cases vs)
    case (Cons v vs')
    have "ran (m(k \<mapsto> v)) \<subseteq> insert v (ran m)" by (auto simp: ran_def)
    with Cons.IH [of "m(k \<mapsto> v)" vs'] show ?thesis
      unfolding Cons map_upds_Cons list.set by blast
  qed simp
qed simp

lemma map_upds_distinct:
  "length ks = length vs \<Longrightarrow> distinct ks \<Longrightarrow> map (m(ks [\<mapsto>] vs)) ks = map Some vs"
  by (induction ks vs arbitrary: m rule: list_induct2) auto

lemma pack_spec_values:
  assumes "map m ks = map Some vs" "length (concat vs) \<le> room"
  shows "pack_spec m room False ks = (map usize vs, concat vs)"
proof -
  have "values_of m ks = concat vs" "map (value_size m) ks = map usize vs"
    using assms(1) by (induction ks arbitrary: vs) (auto simp: values_of_def value_size_def)
  then show ?thesis using pack_spec_enough [of m ks room] assms(2) by simp
qed

section \<open>put\<close>

text \<open>
  C1: \<open>MapDatabase::put\<close> refines the update of a finite map, for every mode and any total
  comparator: given sizes that describe the buffers, it returns the status of the specification
  (\<open>KeyExists\<close> and \<open>NotFound\<close> only for a single key) and stores the specified map.
\<close>

theorem map_put_refines:
  assumes "total_comparator cmp" "nodes_ok cmp fst (m_db s)" "\<not> m_migrated s"
    and "packs (um_data keys) ks ksizes" "packs vals vs vsizes" "length ks = length vs"
  shows "\<exists>s'. map_put cmp mode keys ksizes vals vsizes s
      = Done (fst (put_spec mode (length ks = 1) (map_of (m_db s)) (zip ks vs)), s')
    \<and> nodes_ok cmp fst (m_db s') \<and> \<not> m_migrated s'
    \<and> map_of (m_db s') = snd (put_spec mode (length ks = 1) (map_of (m_db s)) (zip ks vs))"
  using kv_container.put_law [OF map_is_container [OF assms(1)] assms(2-6),
      where mode = mode]
  by (metis assms(3) map_put_def)

theorem map_put_refines_witness:
  "\<exists>s'. map_put DefaultMemCmp YOKAN_MODE_NEW_ONLY (at_addr 0 [1, 2, 3]) [1, 2] [7, 8, 9] [2, 1]
      (map_db [([1], [5])]) = Done (OK, s') \<and> map_of (m_db s') = [[1] \<mapsto> [5], [2, 3] \<mapsto> [9]]"
  using map_put_refines [OF memcmp_total, of "map_db [([1], [5])]" "at_addr 0 [1, 2, 3]"
      "[[1], [2, 3]]" "[1, 2]" "[7, 8, 9]" "[[7, 8], [9]]" "[2, 1]" YOKAN_MODE_NEW_ONLY]
  by (auto simp: concrete put_one_spec_def)

text \<open>
  C2: \<open>UnorderedMapDatabase::put\<close> refines the same update, whatever order the buckets give
  the nodes.
\<close>

theorem umap_put_refines:
  assumes "hash_layout layout" "distinct (map fst (m_db s))" "\<not> m_migrated s"
    and "packs (um_data keys) ks ksizes" "packs vals vs vsizes" "length ks = length vs"
  shows "\<exists>s'. umap_put layout mode keys ksizes vals vsizes s
      = Done (fst (put_spec mode (length ks = 1) (map_of (m_db s)) (zip ks vs)), s')
    \<and> distinct (map fst (m_db s')) \<and> \<not> m_migrated s'
    \<and> map_of (m_db s') = snd (put_spec mode (length ks = 1) (map_of (m_db s)) (zip ks vs))"
  using kv_container.put_law [OF hash_layout.umap_container [OF assms(1)] assms(2-6),
      where mode = mode]
  by (metis assms(3) umap_put_def)

theorem umap_put_refines_witness:
  "\<exists>s'. umap_put (bucket_layout (\<lambda>k. length k) 4) YOKAN_MODE_APPEND (at_addr 0 [1, 2, 3]) [1, 2]
      [7, 8, 9] [2, 1] (map_db [([1], [5])]) = Done (OK, s')
    \<and> map_of (m_db s') = [[1] \<mapsto> [5, 7, 8], [2, 3] \<mapsto> [9]]"
  using umap_put_refines [OF buckets_total, of "map_db [([1], [5])]" "at_addr 0 [1, 2, 3]"
      "[[1], [2, 3]]" "[1, 2]" "[7, 8, 9]" "[[7, 8], [9]]" "[2, 1]" "\<lambda>k. length k" 4 YOKAN_MODE_APPEND]
  by (auto simp: concrete put_one_spec_def)

text \<open>
  With \<open>NEW_ONLY\<close>, \<open>put\<close> never changes or removes a stored pair, and with \<open>EXIST_ONLY\<close>
  alone it never adds or removes a key.
\<close>

lemma map_put_guards:
  assumes "total_comparator cmp" "nodes_ok cmp fst (m_db s)" "\<not> m_migrated s"
    and "packs (um_data keys) ks ksizes" "packs vals vs vsizes" "length ks = length vs"
  shows "\<exists>st s'. map_put cmp mode keys ksizes vals vsizes s = Done (st, s')
    \<and> (if has_mode mode YOKAN_MODE_NEW_ONLY then map_of (m_db s) \<subseteq>\<^sub>m map_of (m_db s')
       else if has_mode mode YOKAN_MODE_EXIST_ONLY then dom (map_of (m_db s')) = dom (map_of (m_db s))
       else dom (map_of (m_db s')) = dom (map_of (m_db s)) \<union> set ks)"
proof -
  obtain s' where "map_put cmp mode keys ksizes vals vsizes s
      = Done (fst (put_spec mode (length ks = 1) (map_of (m_db s)) (zip ks vs)), s')"
    "map_of (m_db s') = snd (put_spec mode (length ks = 1) (map_of (m_db s)) (zip ks vs))"
    using kv_container.put_law [OF map_is_container [OF assms(1)] assms(2-6), where mode = mode]
    by (metis map_put_def)
  then show ?thesis
    using put_spec_new_only_mono put_spec_exist_only_dom put_spec_all_dom [of mode] assms(6)
    by (auto split: if_splits)
qed

section \<open>get\<close>

text \<open>
  C4: a packed \<open>get\<close> without \<open>WAIT\<close> and \<open>CONSUME\<close> writes the values of the keys one after the
  other, marks the absent keys \<open>KeyNotFound\<close>, and from the first value that does not fit on
  marks every present key \<open>SizeTooSmall\<close>; the buffer beyond the values is untouched, its size
  becomes the bytes written, and the database does not change.
\<close>

theorem map_get_packed:
  assumes "total_comparator cmp" "nodes_ok cmp fst (m_db s)" "\<not> m_migrated s"
    and "packs (um_data keys) ks ksizes" "fits vals"
    and "\<not> has_mode mode YOKAN_MODE_WAIT" "\<not> has_mode mode YOKAN_MODE_CONSUME"
    and "\<forall>v \<in> ran (map_of (m_db s)). sized v" "length vsizes = length ks"
    and "pack_spec (map_of (m_db s)) (length vals) False ks = (ns, vs)"
  shows "map_get cmp mode True keys ksizes vals vsizes env s
    = Done (OK, \<lparr> g_vals = vs @ drop (length vs) vals, g_size = usize vs, g_vsizes = ns \<rparr>, env, s)"
  unfolding map_get_def
  by (rule kv_container.get_packed_law [OF map_is_container [OF assms(1)] assms(2-10)])

theorem map_get_packed_witness:
  "map_get DefaultMemCmp YOKAN_MODE_DEFAULT True (at_addr 0 [1, 2, 3]) [1, 1, 1] [0, 0, 0] [9, 9, 9] []
      (map_db [([1], [5]), ([2], [6, 7, 8])])
    = Done (OK, \<lparr> g_vals = [5, 0, 0], g_size = 1,
        g_vsizes = [1, YOKAN_SIZE_TOO_SMALL, YOKAN_KEY_NOT_FOUND] \<rparr>, [],
      map_db [([1], [5]), ([2], [6, 7, 8])])"
  using map_get_packed [OF memcmp_total, of "map_db [([1], [5]), ([2], [6, 7, 8])]" "at_addr 0 [1, 2, 3]"
      "[[1], [2], [3]]" "[1, 1, 1]" "[0, 0, 0]" YOKAN_MODE_DEFAULT "[9, 9, 9]"
      "[1, YOKAN_SIZE_TOO_SMALL, YOKAN_KEY_NOT_FOUND]" "[5]" "[]"]
  by (force simp: concrete sized_def ran_def split: if_splits)

text \<open>
  An unpacked \<open>get\<close> treats each of the caller's slots on its own: a value that fits is
  written at the start of its slot and its size reported, one that does not leaves the slot and
  is marked \<open>SizeTooSmall\<close>, an absent key is marked \<open>KeyNotFound\<close>; no byte outside the slots
  changes.
\<close>

lemma map_get_unpacked:
  assumes "total_comparator cmp" "nodes_ok cmp fst (m_db s)" "\<not> m_migrated s"
    and "packs (um_data keys) ks ksizes" "packs vals slots vsizes" "length ks = length slots"
    and "\<not> has_mode mode YOKAN_MODE_WAIT" "\<not> has_mode mode YOKAN_MODE_CONSUME"
    and "\<forall>v \<in> ran (map_of (m_db s)). sized v"
  shows "map_get cmp mode False keys ksizes vals vsizes env s
    = Done (OK, \<lparr> g_vals = concat (map2 (\<lambda>k sl. snd (slot_spec (map_of (m_db s)) k sl)) ks slots)
                         @ drop (length (concat slots)) vals,
               g_size = usize vals,
               g_vsizes = map2 (\<lambda>k sl. fst (slot_spec (map_of (m_db s)) k sl)) ks slots \<rparr>, env, s)"
  unfolding map_get_def
  by (rule kv_container.get_unpacked_law [OF map_is_container [OF assms(1)] assms(2-9)])

text \<open>
  C5: after a \<open>put\<close> of distinct keys in the default mode, a packed \<open>get\<close> of the same keys into a
  buffer with room for the values returns exactly those values and their sizes.
\<close>

theorem map_put_get_roundtrip:
  assumes "total_comparator cmp" "nodes_ok cmp fst (m_db s)" "\<not> m_migrated s"
    and "packs (um_data keys) ks ksizes" "packs vals vs vsizes" "length ks = length vs"
    and "distinct ks" "\<forall>v \<in> ran (map_of (m_db s)) \<union> set vs. sized v"
    and "fits buf" "length (concat vs) \<le> length buf" "length sizes = length ks"
  shows "\<exists>s'. map_put cmp YOKAN_MODE_DEFAULT keys ksizes vals vsizes s = Done (OK, s')
    \<and> map_get cmp YOKAN_MODE_DEFAULT True keys ksizes buf sizes env s'
      = Done (OK, \<lparr> g_vals = concat vs @ drop (length (concat vs)) buf, g_size = usize (concat vs),
                    g_vsizes = vsizes \<rparr>, env, s')"
proof -
  have plain: "\<not> has_mode YOKAN_MODE_DEFAULT YOKAN_MODE_NEW_ONLY"
    "\<not> has_mode YOKAN_MODE_DEFAULT YOKAN_MODE_EXIST_ONLY"
    "\<not> has_mode YOKAN_MODE_DEFAULT YOKAN_MODE_APPEND"
    "\<not> has_mode YOKAN_MODE_DEFAULT YOKAN_MODE_WAIT"
    "\<not> has_mode YOKAN_MODE_DEFAULT YOKAN_MODE_CONSUME"
    by (simp_all add: concrete)
  let ?m = "map_of (m_db s)"
  note spec = put_spec_plain [OF plain(1-3) assms(6), of "length ks = 1" ?m]
  obtain s' where put: "map_put cmp YOKAN_MODE_DEFAULT keys ksizes vals vsizes s = Done (OK, s')"
    and ok: "nodes_ok cmp fst (m_db s')" "\<not> m_migrated s'"
    and db: "map_of (m_db s') = ?m(ks [\<mapsto>] vs)"
    using kv_container.put_law [OF map_is_container [OF assms(1)] assms(2-6),
        where mode = YOKAN_MODE_DEFAULT] assms(3)
    unfolding spec by (metis fst_conv snd_conv map_put_def)
  have sz: "\<forall>v \<in> ran (map_of (m_db s')). sized v"
    using assms(8) ran_map_upds_subset [of ?m ks vs] by (auto simp: db)
  have "map (map_of (m_db s')) ks = map Some vs"
    unfolding db by (rule map_upds_distinct [OF assms(6,7)])
  then have "pack_spec (map_of (m_db s')) (length buf) False ks = (map usize vs, concat vs)"
    using pack_spec_values [of _ ks vs] assms(9,10) by blast
  then show ?thesis
    using put kv_container.get_packed_law [OF map_is_container [OF assms(1)] ok assms(4,9) plain(4,5)
        sz assms(11)] assms(5)
    by (auto simp: map_get_def elim: packsE)
qed

theorem map_put_get_roundtrip_witness:
  "\<exists>s'. map_put DefaultMemCmp YOKAN_MODE_DEFAULT (at_addr 0 [1, 2, 3]) [1, 2] [7, 8, 9] [2, 1]
      (map_db []) = Done (OK, s')
    \<and> map_get DefaultMemCmp YOKAN_MODE_DEFAULT True (at_addr 0 [1, 2, 3]) [1, 2] [0, 0, 0, 0] [0, 0] [] s'
      = Done (OK, \<lparr> g_vals = [7, 8, 9, 0], g_size = 3, g_vsizes = [2, 1] \<rparr>, [], s')"
  using map_put_get_roundtrip [OF memcmp_total, of "map_db []" "at_addr 0 [1, 2, 3]"
      "[[1], [2, 3]]" "[1, 2]" "[7, 8, 9]" "[[7, 8], [9]]" "[2, 1]" "[0, 0, 0, 0]" "[0, 0]" "[]"]
  by (simp add: concrete sized_def)

text \<open>
  C17: a packed \<open>get\<close> with \<open>CONSUME\<close> that nobody disturbs returns what the plain \<open>get\<close> returns and
  removes exactly the given keys.
\<close>

theorem map_get_consume:
  assumes "total_comparator cmp" "nodes_ok cmp fst (m_db s)" "\<not> m_migrated s"
    and "packs (um_data keys) ks ksizes" "fits vals"
    and "\<not> has_mode mode YOKAN_MODE_WAIT" "has_mode mode YOKAN_MODE_CONSUME"
    and "\<forall>v \<in> ran (map_of (m_db s)). sized v" "length vsizes = length ks"
    and "pack_spec (map_of (m_db s)) (length vals) False ks = (ns, vs)"
  shows "\<exists>s'. map_get cmp mode True keys ksizes vals vsizes [] s
      = Done (OK, \<lparr> g_vals = vs @ drop (length vs) vals, g_size = usize vs, g_vsizes = ns \<rparr>, [], s')
    \<and> nodes_ok cmp fst (m_db s') \<and> map_of (m_db s') = map_of (m_db s) |` (- set ks)"
  unfolding map_get_def
  using kv_container.get_consume_law [OF map_is_container [OF assms(1)] assms(2-10)] by metis

theorem map_get_consume_witness:
  "\<exists>s'. map_get DefaultMemCmp YOKAN_MODE_CONSUME True (at_addr 0 [1]) [1] [0, 0] [0] []
        (map_db [([1], [5]), ([2], [6])])
      = Done (OK, \<lparr> g_vals = [5, 0], g_size = 1, g_vsizes = [1] \<rparr>, [], s')
    \<and> map_of (m_db s') [1] = None \<and> map_of (m_db s') [2] = Some [6]"
  using map_get_consume [OF memcmp_total, of "map_db [([1], [5]), ([2], [6])]" "at_addr 0 [1]"
      "[[1]]" "[1]" "[0, 0]" YOKAN_MODE_CONSUME "[0]" "[1]" "[5]"]
  by (force simp: concrete sized_def ran_def split: if_splits)

text \<open>
  C18: reading and consuming are not one step. When another client's \<open>get\<close> with \<open>CONSUME\<close> of the
  same present key runs where the lock is released, both return the value, and the second erase
  removes nothing and still reports success.
\<close>

theorem map_consume_race:
  assumes "total_comparator cmp" "nodes_ok cmp fst (m_db s)" "\<not> m_migrated s"
    and "map_of (m_db s) k = Some v" "\<forall>v \<in> ran (map_of (m_db s)). sized v" "fits k"
    and "map_get cmp YOKAN_MODE_CONSUME True \<lparr> um_addr = a, um_data = k \<rparr> [usize k] v [0] [] s
           = Done (st, out, [], t)"
  shows "st = OK \<and> g_vals out = v \<and> g_vsizes out = [usize v] \<and> map_of (m_db t) k = None
    \<and> (\<exists>s'. map_get cmp YOKAN_MODE_CONSUME True \<lparr> um_addr = b, um_data = k \<rparr> [usize k] v [0] [\<lambda>_. t] s
           = Done (OK, out, [], s') \<and> map_of (m_db s') = map_of (m_db t))"
proof -
  have mode: "\<not> has_mode YOKAN_MODE_CONSUME YOKAN_MODE_WAIT" "has_mode YOKAN_MODE_CONSUME YOKAN_MODE_CONSUME"
    by (simp_all add: concrete)
  have keys: "packs (um_data \<lparr> um_addr = c, um_data = k \<rparr>) [k] [usize k]" for c
    using assms(6) by (simp add: packs_def)
  have "sized v" using assms(4,5) by (auto simp: ran_def)
  then have v: "fits v" by (rule sized_fits)
  have pack: "pack_spec (map_of (m_db s)) (length v) False [k] = ([usize v], v)"
    using assms(4) by simp
  note law = kv_container.get_consume_yield_law [OF map_is_container [OF assms(1)] assms(2,3) keys v
      mode assms(5) _ pack, of "[0]"]
  obtain t' where t': "map_get cmp YOKAN_MODE_CONSUME True \<lparr> um_addr = a, um_data = k \<rparr> [usize k] v [0] [] s
      = Done (OK, \<lparr> g_vals = v, g_size = usize v, g_vsizes = [usize v] \<rparr>, [], t')"
    "nodes_ok cmp fst (m_db t')" "map_of (m_db t') = map_of (m_db s) |` (- {k})" "\<not> m_migrated t'"
    using law [of "[]" "[]" s a] assms(2,3) by (auto simp: map_get_def)
  have t: "t' = t" "st = OK" "out = \<lparr> g_vals = v, g_size = usize v, g_vsizes = [usize v] \<rparr>"
    using t'(1) assms(7) by simp_all
  show ?thesis
    using law [of "[\<lambda>_. t]" "[]" t b] t'(2-4) unfolding t
    by (auto simp: map_get_def)
qed

theorem map_consume_race_witness:
  "\<exists>s' t. map_get DefaultMemCmp YOKAN_MODE_CONSUME True (at_addr 7 [1]) [1] [5] [0] [\<lambda>_. t]
        (map_db [([1], [5])])
      = Done (OK, \<lparr> g_vals = [5], g_size = 1, g_vsizes = [1] \<rparr>, [], s') \<and> map_of (m_db t) [1] = None"
proof -
  obtain t where "map_get DefaultMemCmp YOKAN_MODE_CONSUME True (at_addr 0 [1]) [1] [5] [0] [] (map_db [([1], [5])])
      = Done (OK, \<lparr> g_vals = [5], g_size = 1, g_vsizes = [1] \<rparr>, [], t)"
    using kv_container.get_consume_yield_law [OF map_is_container [OF memcmp_total], of "map_db [([1], [5])]"
        "at_addr 0 [1]" "[[1]]" "[1]" "[5]" YOKAN_MODE_CONSUME "[0]" "[1]" "[5]" "[]" "[]"]
    by (force simp: concrete sized_def ran_def map_get_def split: if_splits)
  then show ?thesis
    using map_consume_race [OF memcmp_total, of "map_db [([1], [5])]" "[1]" "[5]" 0 OK
        "\<lparr> g_vals = [5], g_size = 1, g_vsizes = [1] \<rparr>" t 7]
    by (force simp: concrete sized_def ran_def split: if_splits)
qed

section \<open>exists, length, erase\<close>

text \<open>
  \<open>exists\<close> sets bit \<open>i\<close> of the caller's bit field to whether key \<open>i\<close> is stored, and changes
  no bit beyond the keys.
\<close>

lemma umap_exists_bits:
  assumes "hash_layout layout" "distinct (map fst (m_db s))" "\<not> m_migrated s"
    and "packs (um_data keys) ks ksizes" "\<not> has_mode mode YOKAN_MODE_WAIT"
    and "bf_ok flags" "length ks \<le> unat (bf_size flags)"
  shows "\<exists>flags'. umap_exists layout mode keys ksizes flags env s = Done (OK, flags', env, s)
    \<and> bf_size flags' = bf_size flags
    \<and> (\<forall>j. bf_get flags' j = (if j < length ks then Done (ks ! j \<in> dom (map_of (m_db s)))
                              else bf_get flags j))"
  using kv_reader.exists_law [OF kv_container.axioms(1) [OF hash_layout.umap_container [OF assms(1)]]
      assms(2-7), of env] by (metis umap_exists_def)

text \<open>
  \<open>length\<close> reports the size of each stored value and \<open>KeyNotFound\<close> for the absent keys, and
  \<open>count\<close> the number of keys.
\<close>

lemma map_length_count:
  assumes "total_comparator cmp" "nodes_ok cmp fst (m_db s)" "\<not> m_migrated s"
    and "packs (um_data keys) ks ksizes" "\<not> has_mode mode YOKAN_MODE_WAIT"
    and "length vsizes = length ks"
  shows "map_length cmp mode keys ksizes vsizes env s
      = Done (OK, map (\<lambda>k. case map_of (m_db s) k of Some v \<Rightarrow> usize v | None \<Rightarrow> YOKAN_KEY_NOT_FOUND) ks,
              env, s)
    \<and> map_count cmp mode s = (OK, Some (of_nat (card (dom (map_of (m_db s))))))"
  using kv_reader.length_law [OF map_is_reader [OF assms(1)] assms(2-6), of env]
    kv_reader.count_law [OF map_is_reader [OF assms(1)] assms(2,3), of mode]
  by (simp_all add: map_length_def map_count_def value_size_def [abs_def])

text \<open>
  \<open>erase\<close> removes exactly the given keys; absent ones are not an error.
\<close>

lemma umap_erase_removes:
  assumes "hash_layout layout" "distinct (map fst (m_db s))" "\<not> m_migrated s"
    and "packs (um_data keys) ks ksizes" "\<not> has_mode mode YOKAN_MODE_WAIT"
  shows "\<exists>s'. umap_erase layout mode keys ksizes env s = Done (OK, env, s')
    \<and> distinct (map fst (m_db s')) \<and> map_of (m_db s') = map_of (m_db s) |` (- set ks)"
  using kv_reader.erase_law [OF kv_container.axioms(1) [OF hash_layout.umap_container [OF assms(1)]]
      assms(2-5), of env] by (metis umap_erase_def)

section \<open>Every operation, every input\<close>



section \<open>Waiting and notifying\<close>



text \<open>
  C21: a second client that waits for the same key (through another buffer) never returns, not
  even when the key is put with \<open>NOTIFY\<close>: its search for its own node in the key's range does
  not advance past the first waiter's.
\<close>

theorem map_second_waiter_hangs:
  assumes "total_comparator cmp" "nodes_ok cmp fst (m_db s)" "\<not> m_migrated s"
    and "watcher_ok (m_watcher s)" "\<exists>e \<in> set (w_entries (m_watcher s)). w_key e = k"
    and "\<forall>e \<in> set (w_entries (m_watcher s)). w_key e = k \<longrightarrow> w_addr e \<noteq> a"
    and "map_of (m_db s) k = None" "fits k" "fits v"
    and "writer = (\<lambda>t. case map_put cmp YOKAN_MODE_NOTIFY \<lparr> um_addr = b, um_data = k \<rparr> [usize k] v [usize v] t
           of Done (st, t') \<Rightarrow> t' | _ \<Rightarrow> t)"
  shows "map_get cmp YOKAN_MODE_WAIT True \<lparr> um_addr = a, um_data = k \<rparr> [usize k] buf [n] (writer # env) s = Hung"
proof -
  let ?key = "\<lparr> um_addr = a, um_data = k \<rparr>" and ?C = "std_map cmp"
  let ?s1 = "s\<lparr> m_watcher := addKey ?key (m_watcher s) \<rparr>"
  let ?s2 = "kv_notify YOKAN_MODE_NOTIFY \<lparr> um_addr = b, um_data = k \<rparr>
    (?s1\<lparr> m_db := fst (c_emplace ?C k v (m_db s)) \<rparr>)"
  note C = map_is_container [OF assms(1)]
  have mode: "\<not> has_mode YOKAN_MODE_NOTIFY YOKAN_MODE_NEW_ONLY"
    "\<not> has_mode YOKAN_MODE_NOTIFY YOKAN_MODE_EXIST_ONLY" "\<not> has_mode YOKAN_MODE_NOTIFY YOKAN_MODE_APPEND"
    "has_mode YOKAN_MODE_NOTIFY YOKAN_MODE_NOTIFY" "has_mode YOKAN_MODE_WAIT YOKAN_MODE_WAIT"
    by (simp_all add: concrete)
  have act: "writer ?s1 = ?s2"
    using kv_container.put_single_new [OF C, of ?s1 k v YOKAN_MODE_NOTIFY b] assms mode
    by (auto simp: map_put_def domIff)
  have "wait_select ?key (addKey ?key (m_watcher s)) = SelSpin"
    using wait_select_other [of "m_watcher s" _ ?key] assms(4-6) by auto
  then have "wait_select ?key (m_watcher (writer ?s1)) = SelSpin"
    unfolding act using wait_select_statuses [OF notifyKey_nodes, of ?key]
    by (simp add: kv_notify_def mode)
  then have "find_retry (kv_look ?C k) True ?key (writer # env) s = Hung"
    using kv_reader.look_content [OF map_is_reader [OF assms(1)] assms(2), of k] assms(7)
    by (intro find_retry_spins) simp_all
  moreover have "sub_umem ?key 0 (usize k) = Done ?key"
    using sub_umem_append [of "[]" k "[]" ?key] assms(8) by simp
  ultimately show ?thesis
    using assms(3) mode by (simp add: map_get_def kv_get_def Let_def)
qed

theorem map_second_waiter_hangs_witness:
  "map_get DefaultMemCmp YOKAN_MODE_WAIT True (at_addr 7 [1]) [1] [0, 0] [0]
      [\<lambda>t. case map_put DefaultMemCmp YOKAN_MODE_NOTIFY (at_addr 9 [1]) [1] [5] [1] t
           of Done (st, t') \<Rightarrow> t' | _ \<Rightarrow> t]
      (map_db []\<lparr> m_watcher := addKey (at_addr 3 [1]) watcher_init \<rparr>) = Hung"
  using map_second_waiter_hangs [OF memcmp_total, of "map_db []\<lparr> m_watcher := addKey (at_addr 3 [1]) watcher_init \<rparr>"
      "[1]" 7 "[5]" "\<lambda>t. case map_put DefaultMemCmp YOKAN_MODE_NOTIFY (at_addr 9 [1]) [1] [5] [1] t
           of Done (st, t') \<Rightarrow> t' | _ \<Rightarrow> t" 9 "[0, 0]" 0 "[]"]
  by (auto simp: concrete watcher_ok_def addKey_def)

section \<open>The bounds checks\<close>

text \<open>
  The check of \<open>put\<close> that the sizes fit the buffers adds them in \<open>size_t\<close>, so sizes whose sum
  wraps pass it, and the loop then reads outside the caller's buffer.
\<close>

lemma map_put_size_wrap:
  assumes "\<not> m_migrated s" "length (um_data keys) < 2 ^ 64 - 1" "length vsizes = 2"
    and "accumulate vsizes \<le> usize vals"
  shows "accumulate [- 1, 1] \<le> usize (um_data keys)
    \<and> map_put cmp mode keys [- 1, 1] vals vsizes s = Undef"
proof -
  obtain a b where "vsizes = [a, b]"
    using assms(3) by (auto simp: length_Suc_conv numeral_2_eq_2)
  moreover have "sub_umem keys 0 (- 1) = Undef"
    using assms(2) by (simp add: sub_umem_def sub_bytes_def unat_minus_one)
  ultimately show ?thesis
    using assms by (simp add: map_put_def kv_put_def accumulate_sum_list)
qed

end
