(* ===== verification/SetProperties.thy ===== *)
theory SetProperties
  imports MapProperties KeySets
begin

text \<open>
  The two set backends, set.cpp and unordered_set.cpp: what \<open>put\<close>, \<open>get\<close>, \<open>exists\<close> and \<open>erase\<close>
  do to the set of keys, and where the notification of set.cpp goes wrong.
\<close>

section \<open>What put means on a set\<close>

definition set_put_spec :: "mode_t \<Rightarrow> bytes list \<Rightarrow> bytes set \<Rightarrow> status \<times> bytes set" where
  "set_put_spec mode ks S =
     (if has_mode mode YOKAN_MODE_EXIST_ONLY
      then (if length ks = 1 \<and> ks ! 0 \<notin> S then NotFound else OK, S)
      else if has_mode mode YOKAN_MODE_NEW_ONLY \<and> length ks = 1 \<and> ks ! 0 \<in> S then (KeyExists, S)
      else (OK, S \<union> set ks))"

context key_set
begin

lemma put_body_law:
  assumes "inv (m_db s)" "packs (um_data keys) ks ksizes"
    "\<not> mode_notify \<or> w_entries (m_watcher s) = []"
  shows "\<exists>s'. set_put_body C mode_notify mode keys ksizes s
      = Done (fst (set_put_spec mode ks (dom (abs (m_db s)))), s')
    \<and> inv (m_db s') \<and> dom (abs (m_db s')) = snd (set_put_spec mode ks (dom (abs (m_db s))))
    \<and> m_migrated s' = m_migrated s"
proof -
  obtain post where sz: "ksizes = map usize ks" "fits (um_data keys)" "um_data keys = concat ks @ post"
    using assms(2) by (rule packsE)
  have first: "\<exists>a. sub_umem keys 0 (usize (ks ! 0)) = Done \<lparr> um_addr = a, um_data = ks ! 0 \<rparr>"
    if "length ks = 1"
    using sz that sub_umem_append [of "[]" "ks ! 0" post keys] by (auto simp: length_Suc_conv)
  have find: "c_find C (m_db s) k = None \<longleftrightarrow> k \<notin> dom (abs (m_db s))" for k
    using find_law [OF assms(1), of k] by auto
  obtain s' where loop: "set_put_loop C mode_notify keys ksizes 0 s = Done (OK, s')"
    "inv (m_db s')" "dom (abs (m_db s')) = dom (abs (m_db s)) \<union> set ks" "m_migrated s' = m_migrated s"
    using put_loop_law [OF assms(1), of keys "[]" ks post mode_notify] sz assms(3) by auto
  show ?thesis
  proof (cases "length ks = 1")
    case True
    then obtain k where k: "ks = [k]" by (auto simp: length_Suc_conv)
    with first obtain a where "sub_umem keys 0 (usize k) = Done \<lparr> um_addr = a, um_data = k \<rparr>" by auto
    with loop find [of k] k assms(1) show ?thesis
      by (auto simp: set_put_body_def set_put_spec_def sz(1))
  next
    case False
    with loop assms(1) show ?thesis
      by (auto simp: set_put_body_def set_put_spec_def sz(1))
  qed
qed

end

context total_comparator
begin

lemma set_is_key_set: "key_set (std_set lt) keys_map (nodes_ok lt (\<lambda>k. k))"
  by (rule set_kv.key_set_axioms)

end

context set_layout
begin

lemma uset_is_key_set: "key_set (hash_set layout) keys_map distinct"
  by (rule uset_kv.key_set_axioms)

end

lemma accumulate_zeros: "\<forall>n \<in> set ns. n = 0 \<Longrightarrow> accumulate ns = 0"
  by (induction ns) (auto simp: accumulate_sum_list)

lemmas key_buckets = key_bucket_order.set_layout_axioms

section \<open>put\<close>



text \<open>\<open>UnorderedSetDatabase::put\<close> refines the same update, with anybody waiting or not.\<close>

lemma uset_put_refines:
  assumes "set_layout layout" "distinct (m_db s)" "\<not> m_migrated s"
    and "packs (um_data keys) ks ksizes" "length vsizes = length ks" "\<forall>n \<in> set vsizes. n = 0"
  shows "\<exists>s'. uset_put layout mode keys ksizes vals vsizes s
      = Done (fst (set_put_spec mode ks (set (m_db s))), s')
    \<and> distinct (m_db s') \<and> set (m_db s') = snd (set_put_spec mode ks (set (m_db s)))"
proof -
  have "uset_put layout mode keys ksizes vals vsizes s
    = set_put_body (hash_set layout) False mode keys ksizes s"
    using packs_length [OF assms(4)] packs_accumulate [OF assms(4)] accumulate_zeros [OF assms(6)]
      assms(3,5) by (simp add: uset_put_def)
  then show ?thesis
    using key_set.put_body_law [OF set_layout.uset_is_key_set [OF assms(1)] assms(2,4),
        of False mode] by auto
qed

text \<open>
  C23: \<open>SetDatabase::put\<close> with \<open>NOTIFY\<close> advances its key offset before it notifies, so as soon
  as somebody waits, a put whose keys fill the key buffer reads past the buffer's end.
\<close>

theorem set_put_notify_past_end:
  assumes "total_comparator cmp" "nodes_ok cmp (\<lambda>k. k) (m_db s)" "\<not> m_migrated s"
    and "w_entries (m_watcher s) \<noteq> []" "has_mode mode YOKAN_MODE_NOTIFY"
    and "\<not> has_mode mode YOKAN_MODE_NEW_ONLY" "\<not> has_mode mode YOKAN_MODE_EXIST_ONLY"
    and "um_data keys = concat (ks @ [k])" "fits (um_data keys)" "k \<noteq> []"
  shows "set_put cmp mode keys (map usize (ks @ [k])) [] (map (\<lambda>_. 0) (ks @ [k])) s = Undef"
proof -
  have "set_put_loop C True keys (map usize (qs @ [k])) (usize pre) t = Undef"
    if "um_data keys = pre @ concat (qs @ [k])" "w_entries (m_watcher t) \<noteq> []" for C pre qs and t :: "'c kv_db"
    using that
  proof (induction qs arbitrary: pre t)
    case Nil
    have "sub_umem keys (usize pre + usize k) (usize k) = Undef"
    proof -
      have fp: "fits (pre @ k)" "fits k" using Nil assms(9) by auto
      then have "unat (usize pre + usize k) = length (pre @ k)" "unat (usize k) = length k"
        by (simp_all only: usize_append [symmetric] unat_usize)
      then show ?thesis using Nil assms(10) by (simp add: sub_umem_def sub_bytes_def)
    qed
    then show ?case using Nil assms(9) sub_umem_append [of pre k "[]" keys]
      by (auto simp: set_notify_def)
  next
    case (Cons q qs)
    let ?t1 = "t\<lparr> m_db := fst (c_emplace C q [] (m_db t)) \<rparr>"
    obtain key where "sub_umem keys (usize pre) (usize q) = Done key" "um_data key = q"
      using Cons.prems assms(9) sub_umem_append [of pre q "concat (qs @ [k])" keys] by auto
    moreover have "set_put_loop C True keys (map usize (qs @ [k])) (usize (pre @ q)) t' = Undef"
      if "w_entries (m_watcher t') \<noteq> []" for t' :: "'c kv_db"
      using Cons.prems that by (intro Cons.IH) auto
    ultimately show ?case
      using Cons.prems(2)
      by (auto simp: set_notify_def usize_append notifyKey_def sub_umem_def sub_bytes_def)
  qed
  from this [of "[]" ks s] assms accumulate_usize [of "ks @ [k]"] show ?thesis
    by (simp add: set_put_def set_put_body_def accumulate_sum_list)
qed

theorem set_put_notify_past_end_witness:
  "set_put DefaultMemCmp YOKAN_MODE_NOTIFY (at_addr 0 [1, 2]) [1, 1] [] [0, 0]
     (map_db []\<lparr> m_watcher := addKey (at_addr 3 [1]) watcher_init \<rparr>) = Undef"
  using set_put_notify_past_end [OF memcmp_total,
      of "map_db []\<lparr> m_watcher := addKey (at_addr 3 [1]) watcher_init \<rparr>" YOKAN_MODE_NOTIFY
        "at_addr 0 [1, 2]" "[[1]]" "[2]"]
  by (simp add: concrete addKey_def)

end
