(* ===== verification/ListProperties.thy ===== *)
theory ListProperties
  imports SetProperties
begin

unbundle bit_operations_syntax

text \<open>
  The properties of the ordered walks: \<open>listKeys\<close>, \<open>listKeyValues\<close> and \<open>iter\<close> of map.cpp and
  set.cpp under the filters of filters.cpp.
\<close>

section \<open>Which nodes a walk is to deliver\<close>

text \<open>
  The nodes after \<open>start\<close> (from \<open>start\<close> on with \<open>INCLUSIVE\<close>, all when \<open>start\<close> is empty) whose key
  passes the filter, in the order of the keys.
\<close>

definition listed :: "mode_t \<Rightarrow> bytes \<Rightarrow> (bytes \<Rightarrow> bool) \<Rightarrow> ('e \<Rightarrow> bytes) \<Rightarrow> 'e list \<Rightarrow> 'e list" where
  "listed mode start keep key es = filter (\<lambda>e. keep (key e)
     \<and> (start = [] \<or> DefaultMemCmp start (key e) \<or> has_mode mode YOKAN_MODE_INCLUSIVE \<and> key e = start)) es"

definition starts_with :: "bytes \<Rightarrow> bytes \<Rightarrow> bool" where
  "starts_with p k \<longleftrightarrow> take (length p) k = p"

definition ends_with :: "bytes \<Rightarrow> bytes \<Rightarrow> bool" where
  "ends_with p k \<longleftrightarrow> (\<exists>r. k = r @ p)"

lemma start_listed:
  "nodes_ok DefaultMemCmp key es \<Longrightarrow> (\<And>e. P e \<longleftrightarrow> keep (key e))
    \<Longrightarrow> filter P (walk_start DefaultMemCmp key mode start es) = listed mode start keep key es"
  by (simp add: node_walk.start_filter [OF map_prefix_walk.node_walk_axioms] listed_def conj_commute
    cong: filter_cong)

lemma prefix_passes: "f_check (KeyPrefixFilter mode p) k v \<longleftrightarrow> starts_with p k"
  by (simp add: KeyPrefixFilter_def prefix_check_iff starts_with_def)

lemma suffix_passes: "f_check (KeySuffixFilter mode p) k v \<longleftrightarrow> ends_with p k"
  by (simp add: KeySuffixFilter_def suffix_check_append ends_with_def)

lemmas walk_concrete = concrete listed_def starts_with_def ends_with_def strip_prefix_def
  strip_suffix_def YOKAN_MODE_IGNORE_KEYS_def YOKAN_MODE_NO_PREFIX_def YOKAN_MODE_INCLUSIVE_def
  YOKAN_NO_MORE_KEYS_def sized_def slot_spec_def

section \<open>listKeys and listKeyValues\<close>

text \<open>
  C24: a packed \<open>listKeys\<close> with a prefix delivers the first \<open>keySizes.size\<close> keys with the prefix
  after the start key, in key order, one after the other while they fit; the sizes of the slots
  it has no key for become \<open>NoMoreKeys\<close>. Leaving the walk at \<open>shouldStop\<close> loses none of them.
\<close>

theorem map_listKeys_prefix:
  assumes "nodes_ok DefaultMemCmp fst (m_db s)" "\<not> m_migrated s"
    and "\<forall>e \<in> set (m_db s). sized (fst e)" "\<not> has_mode mode YOKAN_MODE_IGNORE_KEYS" "fits keys"
    and "ms = take (length keySizes) (listed mode start (starts_with p) fst (m_db s))"
    and "pack_spec Some (length keys) False (map (\<lambda>e. strip_prefix mode p (fst e)) ms) = (ns, out)"
  shows "map_listKeys DefaultMemCmp mode True start (KeyPrefixFilter mode p) keys keySizes s
    = Done (OK, \<lparr> g_vals = out @ drop (length out) keys, g_size = usize out,
        g_vsizes = ns @ replicate (length keySizes - length ms) YOKAN_NO_MORE_KEYS \<rparr>)"
proof -
  have sz: "\<forall>e \<in> set (m_db s). sized (strip_prefix mode p (fst e))"
    using assms(3) by (auto simp: strip_prefix_def sized_def)
  have ok: "\<forall>e \<in> set (m_db s). fits (fst e)"
    using assms(3) by (auto intro: sized_fits)
  have "ms = take (length keySizes) (filter (\<lambda>e. f_check (KeyPrefixFilter mode p) (fst e) (snd e))
      (walk_start DefaultMemCmp fst mode start (m_db s)))"
    using start_listed [OF assms(1), of _ "starts_with p" mode start] assms(6)
    by (simp add: prefix_passes)
  from map_prefix_walk.list_keys_packed [OF assms(1) ok sz assms(4,5) this]
  show ?thesis using assms(2,7) by (simp add: map_listKeys_def comp_def)
qed

theorem map_listKeys_prefix_witness:
  "map_listKeys DefaultMemCmp YOKAN_MODE_NO_PREFIX True [1] (KeyPrefixFilter YOKAN_MODE_NO_PREFIX [1])
      [0, 0, 0] [0, 0, 0] (map_db [([1], [5]), ([1, 2], [6]), ([1, 3], [7]), ([2], [8])])
    = Done (OK, \<lparr> g_vals = [2, 3, 0], g_size = 2, g_vsizes = [1, 1, - 3] \<rparr>)"
  using map_listKeys_prefix [of "map_db [([1], [5]), ([1, 2], [6]), ([1, 3], [7]), ([2], [8])]"
      YOKAN_MODE_NO_PREFIX "[0, 0, 0]" "[([1, 2], [6]), ([1, 3], [7])]" "[0, 0, 0]" "[1]" "[1]" "[1, 1]" "[2, 3]"]
  by (simp add: walk_concrete)

text \<open>
  An unpacked \<open>listKeys\<close> with a suffix puts the \<open>i\<close>-th matching key at the start of the
  caller's \<open>i\<close>-th slot, or marks the slot \<open>SizeTooSmall\<close> when the key does not fit.
\<close>

lemma map_listKeys_suffix_slots:
  assumes "nodes_ok DefaultMemCmp fst (m_db s)" "\<not> m_migrated s"
    and "\<forall>e \<in> set (m_db s). sized (fst e)" "\<not> has_mode mode YOKAN_MODE_IGNORE_KEYS"
    and "packs keys rooms keySizes"
    and "ms = take (length keySizes) (listed mode start (ends_with p) fst (m_db s))"
    and "used = take (length ms) rooms"
  shows "map_listKeys DefaultMemCmp mode False start (KeySuffixFilter mode p) keys keySizes s
    = Done (OK, \<lparr> g_vals = concat (map2 (\<lambda>e r. snd (slot_spec Some (strip_suffix mode p (fst e)) r)) ms used)
                    @ drop (length (concat used)) keys,
        g_size = usize (concat used),
        g_vsizes = map2 (\<lambda>e r. fst (slot_spec Some (strip_suffix mode p (fst e)) r)) ms used
          @ replicate (length keySizes - length ms) YOKAN_NO_MORE_KEYS \<rparr>)"
proof -
  have sz: "\<forall>e \<in> set (m_db s). sized (strip_suffix mode p (fst e))"
    using assms(3) by (auto simp: strip_suffix_def sized_def)
  have ok: "\<forall>e \<in> set (m_db s). fits (fst e)"
    using assms(3) by (auto intro: sized_fits)
  have "ms = take (length keySizes) (filter (\<lambda>e. f_check (KeySuffixFilter mode p) (fst e) (snd e))
      (walk_start DefaultMemCmp fst mode start (m_db s)))"
    using start_listed [OF assms(1), of _ "ends_with p" mode start] assms(6)
    by (simp add: suffix_passes)
  from map_suffix_walk.list_keys_unpacked [OF assms(1) ok sz assms(4,5) this assms(7)]
  show ?thesis using assms(2) by (simp add: map_listKeys_def)
qed

text \<open>
  A packed \<open>listKeyValues\<close> delivers the keys and the values of the same nodes.
\<close>

lemma map_listKeyValues_prefix:
  assumes "nodes_ok DefaultMemCmp fst (m_db s)" "\<not> m_migrated s"
    and "\<forall>e \<in> set (m_db s). sized (fst e) \<and> sized (snd e)" "\<not> has_mode mode YOKAN_MODE_IGNORE_KEYS"
    and "fits keys" "fits vals" "length valSizes = length keySizes"
    and "ms = take (length keySizes) (listed mode start (starts_with p) fst (m_db s))"
    and "pack_spec Some (length keys) False (map (\<lambda>e. strip_prefix mode p (fst e)) ms) = (ns, out)"
    and "pack_spec Some (length vals) False (map snd ms) = (vns, vout)"
  shows "map_listKeyValues DefaultMemCmp mode True start (KeyPrefixFilter mode p) keys keySizes vals valSizes s
    = Done (OK, \<lparr> g_vals = out @ drop (length out) keys, g_size = usize out,
        g_vsizes = ns @ replicate (length keySizes - length ms) YOKAN_NO_MORE_KEYS \<rparr>,
       \<lparr> g_vals = vout @ drop (length vout) vals, g_size = usize vout,
        g_vsizes = vns @ replicate (length keySizes - length ms) YOKAN_NO_MORE_KEYS \<rparr>)"
proof -
  have sz: "\<forall>e \<in> set (m_db s). sized (strip_prefix mode p (fst e))" "\<forall>e \<in> set (m_db s). sized (snd e)"
    using assms(3) by (auto simp: strip_prefix_def sized_def)
  have ok: "\<forall>e \<in> set (m_db s). fits (fst e)"
    using assms(3) by (auto intro: sized_fits)
  have "ms = take (length keySizes) (filter (\<lambda>e. f_check (KeyPrefixFilter mode p) (fst e) (snd e))
      (walk_start DefaultMemCmp fst mode start (m_db s)))"
    using start_listed [OF assms(1), of _ "starts_with p" mode start] assms(8)
    by (simp add: prefix_passes)
  from map_prefix_walk.list_kvs_packed [OF assms(1) ok sz assms(4-7) this]
  show ?thesis using assms(2,9,10) by (simp add: map_listKeyValues_def comp_def)
qed

section \<open>iter\<close>

text \<open>
  \<open>iter\<close> calls the callback on the first \<open>max\<close> matching nodes (all of them when \<open>max\<close> is 0) in
  key order, and stops at the first status that is not OK, which it returns.
\<close>

lemma map_iter_calls:
  assumes "nodes_ok DefaultMemCmp fst (m_db s)" "\<not> m_migrated s"
    and "ns = listed mode start (starts_with p) fst (m_db s)"
  shows "map_iter DefaultMemCmp mode limit start (KeyPrefixFilter mode p) ignore_values func s st
    = Done (run_calls func (map (\<lambda>e. (fst e, if ignore_values then [] else snd e))
        (if limit = 0 then ns else take (unat limit) ns)) st)"
proof -
  let ?F = "KeyPrefixFilter mode p"
  have req: "\<not> f_requires ?F" by (simp add: KeyPrefixFilter_def)
  have "filter (\<lambda>e. f_check ?F (fst e) (snd e)) (walk_start DefaultMemCmp fst mode start (m_db s)) = ns"
    using start_listed [OF assms(1), of _ "starts_with p" mode start] assms(3)
    by (simp add: prefix_passes)
  then have "(if limit = 0 then ns else take (unat limit) ns)
    = (if unat limit = 0
       then filter (\<lambda>e. f_check ?F (fst e) (snd e)) (walk_start DefaultMemCmp fst mode start (m_db s))
       else take (unat limit - 0) (filter (\<lambda>e. f_check ?F (fst e) (snd e))
              (walk_start DefaultMemCmp fst mode start (m_db s))))"
    by (simp add: unat_eq_0)
  from map_prefix_walk.iter_loop_law [OF map_prefix_walk.start_sorted [OF assms(1)] this]
  show ?thesis
    using assms(2) req by (simp add: map_iter_def iter_nodes_def split del: if_split)
qed

section \<open>IGNORE_KEYS and KEEP_LAST\<close>

lemma has_mode_or: "has_mode (m OR n) f \<longleftrightarrow> has_mode m f \<or> has_mode n f"
  by (simp add: has_mode_def bit.conj_disj_distrib2 or_eq_0_iff)

lemma list_kv_loop_mode:
  assumes "has_mode m YOKAN_MODE_KEEP_LAST = has_mode n YOKAN_MODE_KEEP_LAST"
    "has_mode m YOKAN_MODE_IGNORE_KEYS = has_mode n YOKAN_MODE_IGNORE_KEYS"
  shows "list_kv_loop kp vp m packed F limit es = list_kv_loop kp vp n packed F limit es"
proof -
  have "keyCopy m = keyCopy n"
    by (intro ext) (simp add: keyCopy_def assms)
  then show ?thesis
    by (induction es; intro ext) (simp_all add: assms cong: if_cong)
qed

text \<open>
  \<open>KEEP_LAST\<close> contains the bit of \<open>IGNORE_KEYS\<close> and is tested with a bitwise and, so
  \<open>IGNORE_KEYS\<close> alone behaves like \<open>KEEP_LAST\<close>: a listing that asks to ignore every key still
  copies the key it takes for the last one.
\<close>

lemma keep_last_is_ignore_keys:
  "map_listKeyValues cmp (m OR YOKAN_MODE_IGNORE_KEYS) packed start F keys keySizes vals valSizes s
    = map_listKeyValues cmp (m OR YOKAN_MODE_KEEP_LAST) packed start F keys keySizes vals valSizes s"
proof -
  have "list_kv_loop kp vp (m OR YOKAN_MODE_IGNORE_KEYS) packed F limit es
    = list_kv_loop kp vp (m OR YOKAN_MODE_KEEP_LAST) packed F limit es"
    for kp vp limit and es :: pairs
    by (rule list_kv_loop_mode)
      (simp_all add: has_mode_or, simp_all add: has_mode_def YOKAN_MODE_KEEP_LAST_def YOKAN_MODE_IGNORE_KEYS_def)
  moreover have "walk_start cmp fst (m OR YOKAN_MODE_IGNORE_KEYS) start es
    = walk_start cmp fst (m OR YOKAN_MODE_KEEP_LAST) start es" for es :: pairs
    by (simp add: walk_start_def has_mode_or)
      (simp add: has_mode_def YOKAN_MODE_KEEP_LAST_def YOKAN_MODE_IGNORE_KEYS_def YOKAN_MODE_INCLUSIVE_def)
  ultimately show ?thesis
    by (simp add: map_listKeyValues_def list_kvs_def)
qed

end
