(* ===== verification/MigrationProperties.thy ===== *)
theory MigrationProperties
  imports ListProperties
begin

text \<open>
  Moving a database: what \<open>startMigration\<close>, the destruction of the handle and \<open>recover\<close> do
  together, and what a migrated database answers. Then the descriptor of a library filter.
\<close>

section \<open>Snapshot and recovery\<close>

lemma recover_db_file:
  assumes "fs (''/tmp/'' @ f) = Some content" "load content db0 = Done (st, db)"
  shows "recover_db load OK db0 ''/tmp'' [f] fs = Done (st, Some db, fs(''/tmp/'' @ f := None))"
  using assms by (simp add: recover_db_def)

text \<open>
  C25: an ordered map saved by \<open>startMigration\<close> and recovered as an unordered map (the two share
  the file format) holds the same pairs, and the file is gone.
\<close>

theorem map_migration_roundtrip:
  assumes "total_comparator cmp" "nodes_ok cmp fst (m_db s)" "\<not> m_migrated s" "hash_layout layout"
    and "\<forall>(k, v) \<in> set (m_db s). fits k \<and> fits v" "tmpname = ''/tmp/'' @ f"
    and "map_startMigration tmpname s fs = (st, h, fs1)"
  shows "st = OK \<and> (\<exists>db fs2. umap_recover layout OK (mh_getRoot (the h)) (mh_getFiles (the h)) fs1
        = Done (OK, Some db, fs2)
    \<and> map_of db = map_of (m_db s) \<and> distinct (map fst db) \<and> fs2 = fs(tmpname := None))"
proof -
  have mig: "st = OK" "h = Some \<lparr> mh_filename = tmpname, mh_cancel = False \<rparr>"
    "fs1 = fs(tmpname \<mapsto> snapshot_pairs (m_db s))"
    using assms(3,7) by (simp_all add: map_startMigration_def start_migration_def)
  have "distinct (map fst (m_db s))"
    by (rule total_comparator.nodes_distinct [OF assms(1,2)])
  then obtain db where db: "recover_pairs (hash_map layout) (snapshot_pairs (m_db s)) [] = Done (OK, db)"
    "distinct (map fst db)" "map_of db = map_of (m_db s)"
    using kv_container.recover_law [OF hash_layout.umap_container [OF assms(4)], of "[]" "m_db s"] assms(5)
    by auto
  have "umap_recover layout OK (mh_getRoot (the h)) (mh_getFiles (the h)) fs1
    = Done (OK, Some db, fs1(''/tmp/'' @ f := None))"
    unfolding umap_recover_def mh_getRoot_def mh_getFiles_def mig(2) assms(6) option.sel mig_handle.select_convs
    using recover_db_file [where load = "recover_pairs (hash_map layout)", OF _ db(1)] mig(3) assms(6)
    by simp
  then show ?thesis using mig db assms(6) by simp
qed

theorem map_migration_roundtrip_witness:
  "\<exists>db fs2. umap_recover (bucket_layout length 3) OK ''/tmp'' [''x'']
      [''/tmp/x'' \<mapsto> snapshot_pairs [([1], [5]), ([2], [6])]] = Done (OK, Some db, fs2)
    \<and> map_of db [2] = Some [6] \<and> fs2 = Map.empty"
  using map_migration_roundtrip [OF memcmp_total, of "map_db [([1], [5]), ([2], [6])]" "bucket_layout length 3"
      "''/tmp/x''" "''x''" Map.empty OK "Some \<lparr> mh_filename = ''/tmp/x'', mh_cancel = False \<rparr>"
      "[''/tmp/x'' \<mapsto> snapshot_pairs [([1], [5]), ([2], [6])]]"] buckets_total
  by (force simp: concrete map_startMigration_def start_migration_def mh_getRoot_def mh_getFiles_def)

text \<open>The same for the two set backends.\<close>

lemma set_migration_roundtrip:
  assumes "total_comparator cmp" "nodes_ok cmp (\<lambda>k. k) (m_db s)" "\<not> m_migrated s" "set_layout layout"
    and "\<forall>k \<in> set (m_db s). fits k" "tmpname = ''/tmp/'' @ f"
    and "set_startMigration tmpname s fs = (st, h, fs1)"
  shows "st = OK \<and> (\<exists>db fs2. uset_recover layout OK (mh_getRoot (the h)) (mh_getFiles (the h)) fs1
        = Done (OK, Some db, fs2) \<and> set db = set (m_db s) \<and> distinct db \<and> fs2 = fs(tmpname := None))"
proof -
  have mig: "st = OK" "h = Some \<lparr> mh_filename = tmpname, mh_cancel = False \<rparr>"
    "fs1 = fs(tmpname \<mapsto> snapshot_keys (m_db s))"
    using assms(3,7) by (simp_all add: set_startMigration_def start_migration_def)
  obtain db where db: "recover_keys (hash_set layout) (snapshot_keys (m_db s)) [] = Done (OK, db)"
    "distinct db" "set db = set (m_db s)"
    using key_set.recover_keys_law [OF set_layout.uset_is_key_set [OF assms(4)], of "[]" "m_db s"] assms(5)
    by (auto simp: keys_map_def)
  have "uset_recover layout OK (mh_getRoot (the h)) (mh_getFiles (the h)) fs1
    = Done (OK, Some db, fs1(''/tmp/'' @ f := None))"
    unfolding uset_recover_def mh_getRoot_def mh_getFiles_def mig(2) assms(6) option.sel mig_handle.select_convs
    using recover_db_file [where load = "recover_keys (hash_set layout)", OF _ db(1)] mig(3) assms(6)
    by simp
  then show ?thesis using mig db assms(6) by simp
qed

text \<open>
  The destruction of a handle that was not cancelled empties the database and marks it
  migrated, and a migrated database refuses every operation and stays as it is; a cancelled
  migration leaves the database alone.
\<close>

lemma map_migrated_refuses:
  assumes "map_endMigration cmp h s fs = (s', fs')" "length ksizes = length vsizes"
    and "accumulate ksizes \<le> usize (um_data keys)" "accumulate vsizes \<le> usize vals"
  shows "if mh_cancel h then s' = s
    else m_db s' = [] \<and> m_migrated s'
      \<and> map_put cmp mode keys ksizes vals vsizes s' = Done (Migrated, s')
      \<and> map_get cmp mode packed keys ksizes vals vsizes env s'
        = Done (Migrated, \<lparr> g_vals = vals, g_size = usize vals, g_vsizes = vsizes \<rparr>, env, s')
      \<and> map_length cmp mode keys ksizes vsizes env s' = Done (Migrated, vsizes, env, s')
      \<and> map_erase cmp mode keys ksizes env s' = Done (Migrated, env, s')
      \<and> map_count cmp mode s' = (Migrated, None)
      \<and> map_startMigration tmpname s' fs2 = (Migrated, None, fs2)"
proof -
  have "s' = (if mh_cancel h then s else s\<lparr> m_migrated := True, m_db := [] \<rparr>)"
    using assms(1) by (auto simp: map_endMigration_def end_migration_def std_map_def)
  then show ?thesis
    using assms(2-4)
    by (auto simp: map_put_def kv_put_def
      map_get_def kv_get_def map_length_def kv_length_def map_erase_def kv_erase_def map_count_def
      kv_count_def map_startMigration_def start_migration_def)
qed

section \<open>The descriptor of a library filter\<close>

text \<open>
  The descriptor \<open>library:name:args\<close> is split at its first two colons: exactly when the
  pieces have no colon, the parser returns them, and \<open>args\<close> may contain anything.
\<close>

lemma parse_descriptor_iff:
  "parse_descriptor d = Some (lib, name, args)
    \<longleftrightarrow> d = lib @ 58 # name @ 58 # args \<and> 58 \<notin> set lib \<and> 58 \<notin> set name"
  using parse_descriptor_build parse_descriptor_exact by blast

end
