(* ===== verification/Endian.thy ===== *)
theory Endian
  imports Filters
begin

text \<open>
  Identifiers as key bytes: the byte swap of the code reverses the eight bytes of an
  identifier, so that \<open>memcmp\<close> on keys orders documents by identifier.
\<close>

lemma upt_64: "[0..<64] = [0, 1, 2, 3, 4, 5, 6, 7, 8, 9, 10, 11, 12, 13, 14, 15,
    16, 17, 18, 19, 20, 21, 22, 23, 24, 25, 26, 27, 28, 29, 30, 31,
    32, 33, 34, 35, 36, 37, 38, 39, 40, 41, 42, 43, 44, 45, 46, 47,
    48, 49, 50, 51, 52, 53, 54, 55, 56, 57, 58, 59, 60, 61, 62, 63]"
  by (simp add: upt_conv_Cons)

lemma bit_swap_each:
  "list_all (\<lambda>n. bit (ensureBigEndian x) n \<longleftrightarrow> bit x (8 * (7 - n div 8) + n mod 8)) [0..<64]"
  unfolding upt_64
  by (simp add: ensureBigEndian_def Let_def bit_simps) (simp add: numeral_2_eq_2)

lemma bit_ensureBigEndian:
  "n < 64 \<Longrightarrow> bit (ensureBigEndian x) n \<longleftrightarrow> bit x (8 * (7 - n div 8) + n mod 8)"
  using bit_swap_each [of x] by (simp add: list_all_iff)

lemma ensureBigEndian_involution [simp]: "ensureBigEndian (ensureBigEndian x) = x"
proof (rule bit_word_eqI)
  fix n assume "n < LENGTH(64)"
  then have n: "n < 64" by simp
  define q r where "q = n div 8" and "r = n mod 8"
  have q: "q < 8" "r < 8" "n = 8 * q + r" using n by (auto simp: q_def r_def)
  have m: "8 * (7 - q) + r < 64" "(8 * (7 - q) + r) div 8 = 7 - q" "(8 * (7 - q) + r) mod 8 = r"
    using q by simp_all
  show "bit (ensureBigEndian (ensureBigEndian x)) n = bit x n"
    using bit_ensureBigEndian [OF n, of "ensureBigEndian x"] bit_ensureBigEndian [OF m(1), of x] m q
    by (simp add: q_def [symmetric] r_def [symmetric])
qed

lemma ensureBigEndian_inject [simp]: "ensureBigEndian x = ensureBigEndian y \<longleftrightarrow> x = y"
  by (metis ensureBigEndian_involution)

section \<open>The order of the keys\<close>

lemma nth_enc_bytes: "k < n \<Longrightarrow> enc_bytes n w ! k = ucast (drop_bit (8 * k) w)"
proof (induction n arbitrary: k w)
  case 0
  then show ?case by simp
next
  case (Suc n)
  then show ?case by (cases k) (simp_all add: add.commute)
qed

lemma enc64_swap: "enc64 (ensureBigEndian w) = rev (enc64 w)"
proof (rule nth_equalityI)
  fix k assume "k < length (enc64 (ensureBigEndian w))"
  then have k: "k < 8" by simp
  have "(ucast (drop_bit (8 * k) (ensureBigEndian w)) :: byte)
      = ucast (drop_bit (8 * (7 - k)) w)"
  proof (rule bit_word_eqI)
    fix n assume "n < LENGTH(8)"
    then have n: "n < 8" by simp
    then have m: "8 * k + n < 64" "(8 * k + n) div 8 = k" "(8 * k + n) mod 8 = n"
      using k by simp_all
    then show "bit (ucast (drop_bit (8 * k) (ensureBigEndian w)) :: byte) n
        = bit (ucast (drop_bit (8 * (7 - k)) w) :: byte) n"
      using bit_ensureBigEndian [OF m(1), of w] n by (simp add: bit_simps)
  qed
  then show "enc64 (ensureBigEndian w) ! k = rev (enc64 w) ! k"
    using k by (simp add: enc64_def nth_enc_bytes rev_nth length_enc_bytes)
qed simp

text \<open>The number a string of bytes denotes, most significant byte first.\<close>

fun be_val :: "bytes \<Rightarrow> nat" where
  "be_val [] = 0"
| "be_val (b # bs) = unat b * 256 ^ length bs + be_val bs"

lemma unat_byte_less: "unat (b :: byte) < 256"
  by (rule order_less_le_trans [OF unsigned_less]) simp

lemma be_val_less: "be_val bs < 256 ^ length bs"
proof (induction bs)
  case Nil
  then show ?case by simp
next
  case (Cons b bs)
  have "unat b \<le> 255" using unat_byte_less [of b] by simp
  then have "unat b * 256 ^ length bs \<le> 255 * 256 ^ length bs" by (rule mult_right_mono) simp
  then have "unat b * 256 ^ length bs + be_val bs < 255 * 256 ^ length bs + 256 ^ length bs"
    using Cons by (rule add_le_less_mono)
  then show ?case by (simp only: be_val.simps length_Cons power_Suc)
qed

lemma DefaultMemCmp_be_val:
  "length xs = length ys \<Longrightarrow> DefaultMemCmp xs ys \<longleftrightarrow> be_val xs < be_val ys"
proof (induction xs ys rule: list_induct2)
  case Nil
  then show ?case by simp
next
  case (Cons x xs y ys)
  let ?p = "256 ^ length ys :: nat"
  have lt: "a * ?p + be_val xs < b * ?p + be_val ys" if "a < b" for a b :: nat
  proof -
    have "Suc a * ?p \<le> b * ?p" using that by (intro mult_right_mono) auto
    then show ?thesis using be_val_less [of xs] Cons.hyps by simp
  qed
  have gt: "\<not> a * ?p + be_val xs < b * ?p + be_val ys" if "b < a" for a b :: nat
  proof -
    have "Suc b * ?p \<le> a * ?p" using that by (intro mult_right_mono) auto
    then show ?thesis using be_val_less [of ys] by simp
  qed
  show ?case
    using Cons.IH Cons.hyps lt [of "unat x" "unat y"] gt [of "unat y" "unat x"]
    by (cases x y rule: linorder_cases) (auto simp: word_less_nat_alt)
qed

lemma be_val_snoc: "be_val (xs @ [b]) = 256 * be_val xs + unat b"
  by (induction xs) (auto simp: algebra_simps)

lemma be_val_rev_enc: "be_val (rev (enc_bytes n w)) = unat w mod 256 ^ n"
proof (induction n arbitrary: w)
  case 0
  then show ?case by simp
next
  case (Suc n)
  have "unat (drop_bit 8 w) = unat w div 256" by (simp add: drop_bit_eq_div unat_div)
  moreover have "unat (ucast w :: byte) = unat w mod 256"
    by (simp add: unsigned_ucast_eq take_bit_eq_mod)
  ultimately show ?case
    using Suc.IH [of "drop_bit 8 w"] mod_mult2_eq [of "unat w" 256 "256 ^ n"]
    by (simp add: be_val_snoc)
qed

text \<open>Under \<open>memcmp\<close>, big-endian identifiers are in numerical order.\<close>

lemma be_id_order:
  "DefaultMemCmp (enc64 (ensureBigEndian i)) (enc64 (ensureBigEndian j)) \<longleftrightarrow> i < j"
proof -
  have "be_val (rev (enc64 w)) = unat w" for w
    using unat_size_less [of w] by (simp add: enc64_def be_val_rev_enc)
  then show ?thesis
    by (simp add: enc64_swap DefaultMemCmp_be_val word_less_nat_alt)
qed

end
