(* ===== verification/DocMixin.thy ===== *)
theory DocMixin
  imports MapBackend Endian
begin

text \<open>
  \<open>DocumentStoreMixin\<close> (doc-mixin.hpp): collections of documents on top of a key/value
  backend. Document \<open>id\<close> of a collection lives under the key \<open>name 0 id\<close> with the identifier in
  big-endian order, the collection's metadata under its bare name, and a cache of the
  metadata in memory. The backend is the record of the operations the mixin calls.
\<close>

section \<open>The backend behind the mixin\<close>

record 's kv_ops =
  o_put :: "mode_t \<Rightarrow> umem \<Rightarrow> size_t list \<Rightarrow> bytes \<Rightarrow> size_t list \<Rightarrow> 's \<Rightarrow> (status \<times> 's) outcome"
  o_get :: "mode_t \<Rightarrow> bool \<Rightarrow> umem \<Rightarrow> size_t list \<Rightarrow> bytes \<Rightarrow> size_t list \<Rightarrow> 's
              \<Rightarrow> (status \<times> get_out \<times> 's) outcome"
  o_length :: "mode_t \<Rightarrow> umem \<Rightarrow> size_t list \<Rightarrow> size_t list \<Rightarrow> 's
              \<Rightarrow> (status \<times> size_t list \<times> 's) outcome"
  o_exists :: "mode_t \<Rightarrow> umem \<Rightarrow> size_t list \<Rightarrow> bitfield \<Rightarrow> 's
              \<Rightarrow> (status \<times> bitfield \<times> 's) outcome"
  o_erase :: "mode_t \<Rightarrow> umem \<Rightarrow> size_t list \<Rightarrow> 's \<Rightarrow> (status \<times> 's) outcome"
  o_listkv :: "mode_t \<Rightarrow> bool \<Rightarrow> bytes \<Rightarrow> kv_filter \<Rightarrow> bytes \<Rightarrow> size_t list \<Rightarrow> bytes
              \<Rightarrow> size_t list \<Rightarrow> 's \<Rightarrow> (status \<times> get_out \<times> get_out) outcome"
  o_sorted :: bool
  o_supports :: "mode_t \<Rightarrow> bool"

text \<open>A buffer of the mixin's own, at an address nobody waits on.\<close>

definition local_mem :: "bytes \<Rightarrow> umem" where
  "local_mem d = \<lparr> um_addr = 0, um_data = d \<rparr>"

section \<open>Metadata and keys\<close>

record coll_meta =
  cm_size :: size_t
  cm_next_id :: size_t

text \<open>\<open>CollectionMetadata metadata;\<close>\<close>

definition meta0 :: coll_meta where
  "meta0 = \<lparr> cm_size = 0, cm_next_id = 0 \<rparr>"

record 's doc_db =
  dm_db :: 's
  dm_cache :: "bytes \<rightharpoonup> coll_meta"

definition meta_bytes :: "coll_meta \<Rightarrow> bytes" where
  "meta_bytes m = enc64 (cm_size m) @ enc64 (cm_next_id m)"

definition bytes_meta :: "bytes \<Rightarrow> coll_meta" where
  "bytes_meta b = \<lparr> cm_size = dec64 (take 8 b), cm_next_id = dec64 (take 8 (drop 8 b)) \<rparr>"

definition keyFromId :: "bytes \<Rightarrow> size_t \<Rightarrow> bytes" where
  "keyFromId name i = name @ [0] @ enc64 (ensureBigEndian i)"

definition keysFromIds :: "bytes \<Rightarrow> size_t list \<Rightarrow> bytes" where
  "keysFromIds name ids = concat (map (keyFromId name) ids)"

definition idFromKey :: "nat \<Rightarrow> bytes \<Rightarrow> size_t" where
  "idFromKey coll_name_len key = ensureBigEndian (dec64 (take 8 (drop (coll_name_len + 1) key)))"

text \<open>\<open>std::vector<size_t> ksizes(n, name_len+1+sizeof(yk_id_t))\<close>.\<close>

definition id_ksizes :: "bytes \<Rightarrow> nat \<Rightarrow> size_t list" where
  "id_ksizes name n = replicate n (usize name + 1 + 8)"

definition priv_collExists :: "'s kv_ops \<Rightarrow> bytes \<Rightarrow> 's doc_db \<Rightarrow> (status \<times> bool \<times> 's doc_db) outcome"
where
  "priv_collExists B name d =
     (if name = [] then Done (InvalidArg, False, d)
      else obind (o_length B 0 (local_mem name) [usize name] [0] (dm_db d)) (\<lambda>(st, vlen, s).
        Done (st, st = OK \<and> vlen ! 0 = 16, d\<lparr> dm_db := s \<rparr>)))"

text \<open>\<open>m0\<close> is what the caller's metadata structure holds before the call.\<close>

definition collGetMetadata :: "'s kv_ops \<Rightarrow> bytes \<Rightarrow> coll_meta \<Rightarrow> 's doc_db
    \<Rightarrow> (status \<times> coll_meta \<times> 's doc_db) outcome" where
  "collGetMetadata B name m0 d =
     (if name = [] then Done (InvalidArg, m0, d)
      else case dm_cache d name of
        Some m \<Rightarrow> Done (OK, m, d)
      | None \<Rightarrow>
          obind (o_get B 0 True (local_mem name) [usize name] (meta_bytes m0) [16] (dm_db d))
            (\<lambda>(st, out, s).
               let d' = d\<lparr> dm_db := s \<rparr>;
                   m = bytes_meta (g_vals out);
                   vlen = g_vsizes out ! 0 in
               if st \<noteq> OK then Done (st, m, d')
               else if vlen = YOKAN_KEY_NOT_FOUND then Done (NotFound, m, d')
               else if vlen \<noteq> 16 then Done (Corruption, m, d')
               else Done (OK, m, d'\<lparr> dm_cache := (dm_cache d')(name \<mapsto> m) \<rparr>)))"

definition collPutMetadata :: "'s kv_ops \<Rightarrow> bytes \<Rightarrow> coll_meta \<Rightarrow> bool \<Rightarrow> 's doc_db
    \<Rightarrow> (status \<times> 's doc_db) outcome" where
  "collPutMetadata B name m flush_to_disk d =
     (if name = [] then Done (InvalidArg, d)
      else
        obind (if flush_to_disk
               then o_put B 0 (local_mem name) [usize name] (meta_bytes m) [16] (dm_db d)
               else Done (OK, dm_db d))
          (\<lambda>(st, s). if st \<noteq> OK then Done (st, d\<lparr> dm_db := s \<rparr>)
                     else Done (OK, d\<lparr> dm_db := s, dm_cache := (dm_cache d)(name \<mapsto> m) \<rparr>)))"

section \<open>Collections\<close>

definition collCreate :: "'s kv_ops \<Rightarrow> mode_t \<Rightarrow> bytes \<Rightarrow> 's doc_db \<Rightarrow> (status \<times> 's doc_db) outcome"
where
  "collCreate B mode name d =
     obind (priv_collExists B name d) (\<lambda>(st, coll_exists, d').
       if st \<noteq> OK then Done (st, d')
       else if coll_exists then Done (KeyExists, d')
       else collPutMetadata B name meta0 True d')"

text \<open>The keys of \<open>ids\<close> 0 to \<open>next_id\<close> - 1, and the name itself, are erased.\<close>

definition collDrop :: "'s kv_ops \<Rightarrow> mode_t \<Rightarrow> bytes \<Rightarrow> 's doc_db \<Rightarrow> (status \<times> 's doc_db) outcome"
where
  "collDrop B mode name d =
     obind (priv_collExists B name d) (\<lambda>(st, coll_exists, d1).
       if st \<noteq> OK then Done (st, d1)
       else obind (collGetMetadata B name meta0 d1) (\<lambda>(st, m, d2).
         if st \<noteq> OK then Done (st, d2)
         else
           let ids = map of_nat [0..<unat (cm_next_id m)];
               keys = keysFromIds name ids @ name;
               ksizes = id_ksizes name (length ids) @ [usize name];
               d3 = d2\<lparr> dm_cache := (dm_cache d2)(name := None) \<rparr> in
           obind (o_erase B mode (local_mem keys) ksizes (dm_db d3)) (\<lambda>(st, s).
             Done (st, d3\<lparr> dm_db := s \<rparr>))))"

definition collExists :: "'s kv_ops \<Rightarrow> mode_t \<Rightarrow> bytes \<Rightarrow> 's doc_db
    \<Rightarrow> (status \<times> bool \<times> 's doc_db) outcome" where
  "collExists B mode name d = priv_collExists B name d"

definition collLastID :: "'s kv_ops \<Rightarrow> mode_t \<Rightarrow> bytes \<Rightarrow> 's doc_db
    \<Rightarrow> (status \<times> size_t option \<times> 's doc_db) outcome" where
  "collLastID B mode name d =
     obind (collGetMetadata B name meta0 d) (\<lambda>(st, m, d').
       Done (st, if st = OK then Some (cm_next_id m - 1) else None, d'))"

definition collSize :: "'s kv_ops \<Rightarrow> mode_t \<Rightarrow> bytes \<Rightarrow> 's doc_db
    \<Rightarrow> (status \<times> size_t option \<times> 's doc_db) outcome" where
  "collSize B mode name d =
     obind (collGetMetadata B name meta0 d) (\<lambda>(st, m, d').
       Done (st, if st = OK then Some (cm_size m) else None, d'))"

section \<open>Documents\<close>

definition docSize :: "'s kv_ops \<Rightarrow> bytes \<Rightarrow> mode_t \<Rightarrow> size_t list \<Rightarrow> size_t list \<Rightarrow> 's doc_db
    \<Rightarrow> (status \<times> size_t list \<times> 's doc_db) outcome" where
  "docSize B name mode ids sizes d =
     (if name = [] then Done (InvalidArg, sizes, d)
      else obind (o_length B mode (local_mem (keysFromIds name ids)) (id_ksizes name (length ids))
                    sizes (dm_db d))
             (\<lambda>(st, sizes', s). Done (st, sizes', d\<lparr> dm_db := s \<rparr>)))"

text \<open>
  \<open>docStore\<close> takes the lock twice: the first section reserves the identifiers, the second
  counts the documents once they are written. Other threads may act in between.
\<close>

definition docStore_reserve :: "'s kv_ops \<Rightarrow> bytes \<Rightarrow> size_t list \<Rightarrow> 's doc_db
    \<Rightarrow> (status \<times> coll_meta \<times> size_t list \<times> 's doc_db) outcome" where
  "docStore_reserve B name ids d =
     obind (collGetMetadata B name meta0 d) (\<lambda>(st, m, d1).
       if st \<noteq> OK then Done (st, m, ids, d1)
       else
         let ids' = map (\<lambda>i. cm_next_id m + of_nat i) [0..<length ids];
             m' = m\<lparr> cm_next_id := cm_next_id m + usize ids \<rparr> in
         obind (collPutMetadata B name m' False d1) (\<lambda>(st, d2). Done (st, m', ids', d2)))"

definition docStore_write :: "'s kv_ops \<Rightarrow> bytes \<Rightarrow> mode_t \<Rightarrow> bytes \<Rightarrow> size_t list
    \<Rightarrow> size_t list \<Rightarrow> 's doc_db \<Rightarrow> (status \<times> 's doc_db) outcome" where
  "docStore_write B name mode documents sizes ids d =
     obind (o_put B mode (local_mem (keysFromIds name ids)) (id_ksizes name (length ids))
              documents sizes (dm_db d))
       (\<lambda>(st, s). Done (st, d\<lparr> dm_db := s \<rparr>))"

definition docStore_count :: "'s kv_ops \<Rightarrow> bytes \<Rightarrow> size_t \<Rightarrow> coll_meta \<Rightarrow> 's doc_db
    \<Rightarrow> (status \<times> 's doc_db) outcome" where
  "docStore_count B name n m0 d =
     obind (collGetMetadata B name m0 d) (\<lambda>(st, m, d1).
       collPutMetadata B name (m\<lparr> cm_size := cm_size m + n \<rparr>) True d1)"

definition docStore :: "'s kv_ops \<Rightarrow> bytes \<Rightarrow> mode_t \<Rightarrow> bytes \<Rightarrow> size_t list \<Rightarrow> size_t list
    \<Rightarrow> ('s doc_db \<Rightarrow> 's doc_db) list \<Rightarrow> 's doc_db
    \<Rightarrow> (status \<times> size_t list \<times> 's doc_db) outcome" where
  "docStore B name mode documents sizes ids env d =
     obind (docStore_reserve B name ids d) (\<lambda>(st, m, ids', d1).
       if st \<noteq> OK then Done (st, ids', d1)
       else
         case yield_lock env d1 of (env1, d1') \<Rightarrow>
         obind (docStore_write B name mode documents sizes ids' d1') (\<lambda>(st, d2).
           if st \<noteq> OK then Done (st, ids', d2)
           else
             case yield_lock env1 d2 of (env2, d2') \<Rightarrow>
             obind (docStore_count B name (usize ids) m d2') (\<lambda>(st, d3). Done (st, ids', d3))))"

text \<open>
  \<open>docUpdate\<close>. \<open>exists\<close> reports into a zeroed bit field with one bit per size;
  \<open>existsBitfield[i]\<close> is read for each identifier.
\<close>

fun count_bits :: "bool \<Rightarrow> bitfield \<Rightarrow> nat \<Rightarrow> nat \<Rightarrow> size_t outcome" where
  "count_bits b bf i 0 = Done 0"
| "count_bits b bf i (Suc n) =
     obind (bf_get bf i) (\<lambda>x.
     obind (count_bits b bf (Suc i) n) (\<lambda>c. Done (if x = b then 1 + c else c)))"

definition docUpdate :: "'s kv_ops \<Rightarrow> bytes \<Rightarrow> mode_t \<Rightarrow> size_t list \<Rightarrow> bytes \<Rightarrow> size_t list
    \<Rightarrow> 's doc_db \<Rightarrow> (status \<times> 's doc_db) outcome" where
  "docUpdate B name mode ids documents sizes d =
     (if name = [] then Done (InvalidArg, d)
      else
        let keys = local_mem (keysFromIds name ids);
            ksizes = id_ksizes name (length ids) in
        obind (collGetMetadata B name meta0 d) (\<lambda>(st, m, d1).
          if st \<noteq> OK then Done (st, d1)
          else if has_mode mode YOKAN_MODE_UPDATE_NEW then
            obind (o_exists B mode keys ksizes
                \<lparr> bf_data = replicate (1 + length sizes div 8) 0, bf_size = usize sizes \<rparr> (dm_db d1))
              (\<lambda>(st, bf, s).
                 let d2 = d1\<lparr> dm_db := s \<rparr> in
                 if st \<noteq> OK then Done (st, d2)
                 else
                   obind (count_bits False bf 0 (length ids)) (\<lambda>extraKeys.
                   let maxID = fold (\<lambda>i m. max m i) ids 0 in
                   obind (o_put B mode keys ksizes documents sizes (dm_db d2)) (\<lambda>(st, s).
                     let d3 = d2\<lparr> dm_db := s \<rparr> in
                     if st \<noteq> OK then Done (st, d3)
                     else collPutMetadata B name
                            (m\<lparr> cm_size := cm_size m + extraKeys, cm_next_id := maxID + 1 \<rparr>)
                            True d3)))
          else if \<exists>i \<in> set ids. i \<ge> cm_next_id m then Done (InvalidID, d1)
          else
            obind (o_put B mode keys ksizes documents sizes (dm_db d1)) (\<lambda>(st, s).
              Done (st, d1\<lparr> dm_db := s \<rparr>))))"

definition docLoad :: "'s kv_ops \<Rightarrow> bytes \<Rightarrow> mode_t \<Rightarrow> bool \<Rightarrow> size_t list \<Rightarrow> bytes
    \<Rightarrow> size_t list \<Rightarrow> 's doc_db \<Rightarrow> (status \<times> get_out \<times> 's doc_db) outcome" where
  "docLoad B name mode packed ids documents sizes d =
     (let out = \<lparr> g_vals = documents, g_size = usize documents, g_vsizes = sizes \<rparr> in
      if name = [] then Done (InvalidArg, out, d)
      else obind (priv_collExists B name d) (\<lambda>(st, e, d1).
        if st \<noteq> OK then Done (st, out, d1)
        else if \<not> e then Done (NotFound, out, d1)
        else obind (o_get B mode packed (local_mem (keysFromIds name ids))
                      (id_ksizes name (length ids)) documents sizes (dm_db d1))
               (\<lambda>(st, out', s). Done (st, out', d1\<lparr> dm_db := s \<rparr>))))"

text \<open>The callback of \<open>docFetch\<close> is handed the identifier read from the key.\<close>

definition docFetch :: "'s kv_ops
    \<Rightarrow> (mode_t \<Rightarrow> umem \<Rightarrow> size_t list \<Rightarrow> 'st fetch_cb \<Rightarrow> 'st \<Rightarrow> 's \<Rightarrow> (status \<times> 'st \<times> 's) outcome)
    \<Rightarrow> bytes \<Rightarrow> mode_t \<Rightarrow> size_t list \<Rightarrow> (size_t \<Rightarrow> bytes option \<Rightarrow> 'st \<Rightarrow> status \<times> 'st) \<Rightarrow> 'st
    \<Rightarrow> 's doc_db \<Rightarrow> (status \<times> 'st \<times> 's doc_db) outcome" where
  "docFetch B fetch name mode ids func st0 d =
     (if name = [] then Done (InvalidArg, st0, d)
      else obind (priv_collExists B name d) (\<lambda>(st, e, d1).
        if st \<noteq> OK then Done (st, st0, d1)
        else obind (fetch mode (local_mem (keysFromIds name ids)) (id_ksizes name (length ids))
                      (\<lambda>key val. func (idFromKey (length name) key) val) st0 (dm_db d1))
               (\<lambda>(st, st', s). Done (st, st', d1\<lparr> dm_db := s \<rparr>))))"

definition docErase :: "'s kv_ops \<Rightarrow> bytes \<Rightarrow> mode_t \<Rightarrow> size_t list \<Rightarrow> 's doc_db
    \<Rightarrow> (status \<times> 's doc_db) outcome" where
  "docErase B name mode ids d =
     (if name = [] then Done (InvalidArg, d)
      else
        let keys = local_mem (keysFromIds name ids);
            ksizes = id_ksizes name (length ids) in
        obind (o_exists B mode keys ksizes
            \<lparr> bf_data = replicate (1 + length ids div 8) 0, bf_size = usize ids \<rparr> (dm_db d))
          (\<lambda>(st, bf, s).
             let d1 = d\<lparr> dm_db := s \<rparr> in
             if st \<noteq> OK then Done (st, d1)
             else
               obind (count_bits True bf 0 (length ids)) (\<lambda>num_keys_to_erase.
               obind (collGetMetadata B name meta0 d1) (\<lambda>(st, m, d2).
                 if st \<noteq> OK then Done (st, d2)
                 else
                   obind (o_erase B mode keys ksizes (dm_db d2)) (\<lambda>(st, s).
                     let d3 = d2\<lparr> dm_db := s \<rparr> in
                     if st \<noteq> OK then Done (st, d3)
                     else collPutMetadata B name
                            (m\<lparr> cm_size := cm_size m - num_keys_to_erase \<rparr>) True d3)))))"

section \<open>Listing documents\<close>

text \<open>
  Over a sorted backend \<open>docList\<close> is \<open>listKeyValues\<close>, with the array of identifiers as the
  buffer of keys. The caller's mode is not passed on.
\<close>

definition ids_bytes :: "size_t list \<Rightarrow> bytes" where
  "ids_bytes ids = concat (map enc64 ids)"

definition bytes_ids :: "nat \<Rightarrow> bytes \<Rightarrow> size_t list" where
  "bytes_ids n b = map (\<lambda>i. dec64 (take 8 (drop (8 * i) b))) [0..<n]"

text \<open>Identifiers, documents and sizes as \<open>docList\<close> leaves them.\<close>

record doc_out =
  do_ids :: "size_t list"
  do_docs :: bytes
  do_size :: size_t
  do_sizes :: "size_t list"

definition docList_sorted :: "'s kv_ops \<Rightarrow> bytes \<Rightarrow> bool \<Rightarrow> size_t \<Rightarrow> doc_filter option
    \<Rightarrow> doc_out \<Rightarrow> 's \<Rightarrow> (status \<times> doc_out) outcome" where
  "docList_sorted B name packed from_id dfilter out s =
     (let n = length (do_ids out) in
      obind (o_listkv B (YOKAN_MODE_INCLUSIVE OR YOKAN_MODE_NO_PREFIX) packed
               (keyFromId name from_id) (docToKeyValueFilter dfilter name)
               (ids_bytes (do_ids out)) (replicate n 8) (do_docs out) (do_sizes out) s)
        (\<lambda>(st, ko, vo).
           let ids = bytes_ids n (g_vals ko);
               ids' = (if st = OK
                       then map2 (\<lambda>ksize i. if ksize = YOKAN_NO_MORE_KEYS then YOKAN_NO_MORE_DOCS
                                            else ensureBigEndian i) (g_vsizes ko) ids
                       else ids) in
           Done (st, \<lparr> do_ids = ids', do_docs = g_vals vo, do_size = g_size vo,
                       do_sizes = g_vsizes vo \<rparr>)))"

text \<open>
  Over an unsorted backend it asks for one identifier after the other, and leaves the loop at
  the first size that is a sentinel.
\<close>

function docList_loop :: "'s kv_ops \<Rightarrow> bytes \<Rightarrow> mode_t \<Rightarrow> bool \<Rightarrow> kv_filter \<Rightarrow> size_t \<Rightarrow> size_t
    \<Rightarrow> nat \<Rightarrow> size_t \<Rightarrow> doc_out \<Rightarrow> 's \<Rightarrow> (status \<times> nat \<times> doc_out \<times> 's) outcome" where
  "docList_loop B name mode packed F next_id did i docs_offset out s =
     (if \<not> (i \<noteq> length (do_ids out) \<and> did < next_id \<and> docs_offset < do_size out)
      then Done (OK, i, out, s)
      else
        (let key = keyFromId name did;
             original_vsize = do_sizes out ! i;
             room = (if packed then do_size out - docs_offset else original_vsize) in
         obind (sub_bytes (do_docs out) docs_offset room) (\<lambda>slice.
         obind (o_get B mode True (local_mem key) [usize key] slice [original_vsize] s)
           (\<lambda>(st, got, s').
         obind (memcpy_to (do_docs out) docs_offset (g_vals got)) (\<lambda>docs.
           let n = g_vsizes got ! 0;
               out' = out\<lparr> do_docs := docs, do_sizes := (do_sizes out)[i := n] \<rparr> in
           if st \<noteq> OK then Done (st, i, out', s')
           else if n \<ge> YOKAN_SIZE_TOO_SMALL then Done (OK, i, out', s')
           else if \<not> f_check F key (take (unat n) (g_vals got)) then
             docList_loop B name mode packed F next_id (did + 1) i docs_offset
               (out'\<lparr> do_sizes := (do_sizes out')[i := original_vsize] \<rparr>) s'
           else
             docList_loop B name mode packed F next_id (did + 1) (i + 1)
               (docs_offset + (if packed then n else original_vsize))
               (out'\<lparr> do_ids := (do_ids out')[i := did] \<rparr>) s')))))"
  by pat_completeness auto
termination
  by (relation "measure (\<lambda>(B, name, mode, packed, F, next_id, did, r). unat next_id - unat did)")
    (auto simp: unat_step_less)

declare docList_loop.simps [simp del]

definition docList :: "'s kv_ops \<Rightarrow> bytes \<Rightarrow> mode_t \<Rightarrow> bool \<Rightarrow> size_t \<Rightarrow> doc_filter option
    \<Rightarrow> doc_out \<Rightarrow> 's doc_db \<Rightarrow> (status \<times> doc_out \<times> 's doc_db) outcome" where
  "docList B name mode packed from_id dfilter out d =
     (if name = [] then Done (InvalidArg, out, d)
      else if \<not> o_supports B YOKAN_MODE_NO_PREFIX then Done (NotSupported, out, d)
      else obind (collGetMetadata B name meta0 d) (\<lambda>(st, m, d1).
        if st \<noteq> OK then Done (st, out, d1)
        else if o_sorted B then
          obind (docList_sorted B name packed from_id dfilter out (dm_db d1)) (\<lambda>(st, out').
            Done (st, out', d1))
        else
          obind (docList_loop B name mode packed (docToKeyValueFilter dfilter name)
                   (cm_next_id m) from_id 0 0 out (dm_db d1)) (\<lambda>(st, i, out', s).
            if st \<noteq> OK then Done (st, out', d1\<lparr> dm_db := s \<rparr>)
            else Done (OK, out'\<lparr> do_ids := fill_rest i (do_ids out'),
                                 do_sizes := fill_rest i (do_sizes out') \<rparr>,
                       d1\<lparr> dm_db := s \<rparr>))))"

text \<open>
  \<open>docIter\<close>: over a sorted backend \<open>iter\<close>, else one \<open>fetch\<close> per identifier, whose callback
  counts the documents that pass.
\<close>

definition docIter_callback :: "doc_filter \<Rightarrow> bytes \<Rightarrow> (size_t \<Rightarrow> bytes \<Rightarrow> 'st \<Rightarrow> status \<times> 'st)
    \<Rightarrow> (nat \<times> 'st) fetch_cb" where
  "docIter_callback dfilter name func key val ist =
     (case val of
        None \<Rightarrow> (OK, ist)
      | Some v \<Rightarrow>
          (let did = idFromKey (length name) key in
           if \<not> d_check dfilter name did v then (OK, ist)
           else case func did v (snd ist) of (st, st') \<Rightarrow> (st, fst ist + 1, st')))"

function docIter_loop :: "(mode_t \<Rightarrow> umem \<Rightarrow> size_t list \<Rightarrow> (nat \<times> 'st) fetch_cb \<Rightarrow> nat \<times> 'st
      \<Rightarrow> 's \<Rightarrow> (status \<times> (nat \<times> 'st) \<times> 's) outcome)
    \<Rightarrow> (nat \<times> 'st) fetch_cb \<Rightarrow> bytes \<Rightarrow> mode_t \<Rightarrow> nat \<Rightarrow> size_t \<Rightarrow> size_t \<Rightarrow> nat \<times> 'st \<Rightarrow> 's
    \<Rightarrow> (status \<times> (nat \<times> 'st) \<times> 's) outcome" where
  "docIter_loop fetch cb name mode limit next_id did ist s =
     (if \<not> ((limit = 0 \<or> fst ist < limit) \<and> did < next_id) then Done (OK, ist, s)
      else
        obind (fetch mode (local_mem (keyFromId name did)) [usize (keyFromId name did)] cb ist s)
          (\<lambda>(st, ist', s').
             if st \<noteq> OK then Done (st, ist', s')
             else docIter_loop fetch cb name mode limit next_id (did + 1) ist' s'))"
  by pat_completeness auto
termination
  by (relation "measure (\<lambda>(fetch, cb, name, mode, limit, next_id, did, r). unat next_id - unat did)")
    (auto simp: unat_step_less)

declare docIter_loop.simps [simp del]

definition docIter :: "'s kv_ops
    \<Rightarrow> (mode_t \<Rightarrow> umem \<Rightarrow> size_t list \<Rightarrow> (nat \<times> 'st) fetch_cb \<Rightarrow> nat \<times> 'st \<Rightarrow> 's
          \<Rightarrow> (status \<times> (nat \<times> 'st) \<times> 's) outcome)
    \<Rightarrow> (mode_t \<Rightarrow> size_t \<Rightarrow> bytes \<Rightarrow> kv_filter \<Rightarrow> bool \<Rightarrow> (bytes \<Rightarrow> bytes \<Rightarrow> 'st \<Rightarrow> status \<times> 'st)
          \<Rightarrow> 's \<Rightarrow> 'st \<Rightarrow> (status \<times> 'st) outcome)
    \<Rightarrow> bytes \<Rightarrow> mode_t \<Rightarrow> size_t \<Rightarrow> size_t \<Rightarrow> doc_filter
    \<Rightarrow> (size_t \<Rightarrow> bytes \<Rightarrow> 'st \<Rightarrow> status \<times> 'st) \<Rightarrow> 'st \<Rightarrow> 's doc_db
    \<Rightarrow> (status \<times> 'st \<times> 's doc_db) outcome" where
  "docIter B fetch iter name mode limit from_id dfilter func st0 d =
     (if name = [] then Done (InvalidArg, st0, d)
      else obind (collGetMetadata B name meta0 d) (\<lambda>(st, m, d1).
        if st \<noteq> OK then Done (st, st0, d1)
        else if o_sorted B then
          obind (iter YOKAN_MODE_INCLUSIVE limit (keyFromId name from_id)
                   (docToKeyValueFilter (Some dfilter) name) False
                   (\<lambda>key val. func (idFromKey (length name) key) val) (dm_db d1) st0)
            (\<lambda>(st, st'). Done (st, st', d1))
        else
          obind (docIter_loop fetch (docIter_callback dfilter name func) name mode (unat limit)
                   (cm_next_id m) from_id (0, st0) (dm_db d1))
            (\<lambda>(st, ist, s). Done (st, snd ist, d1\<lparr> dm_db := s \<rparr>))))"

end
