(* ===== verification/DocContract.thy ===== *)
theory DocContract
  imports DocMixin
begin

text \<open>
  What \<open>DocumentStoreMixin\<close> promises: a collection is its metadata and a map from identifiers to
  documents. The interface it relies on is a locale, interpreted on the map backend.
\<close>

section \<open>Keys of documents\<close>

lemma idFromKey_keyFromId [simp]: "idFromKey (length name) (keyFromId name i) = i"
proof -
  have "take 8 (drop (length name + 1) (keyFromId name i)) = enc64 (ensureBigEndian i)"
    by (simp add: keyFromId_def)
  then show ?thesis by (simp add: idFromKey_def)
qed

lemma keyFromId_inject [simp]: "keyFromId name i = keyFromId name j \<longleftrightarrow> i = j"
  by (metis idFromKey_keyFromId)

lemma length_keyFromId [simp]: "length (keyFromId name i) = length name + 9"
  by (simp add: keyFromId_def)

lemma keyFromId_not_name: "0 \<notin> set name \<Longrightarrow> keyFromId name' i \<noteq> name"
  by (auto simp: keyFromId_def)

lemma keyFromId_name:
  assumes "keyFromId name i = keyFromId name' j"
  shows "name = name'"
proof -
  have "length name = length name'"
    using arg_cong [OF assms, of length] by simp
  then show ?thesis
    using assms by (simp add: keyFromId_def)
qed

lemma usize_keyFromId: "usize (keyFromId name i) = usize name + 1 + 8"
  by (simp add: usize_def)

lemma keysFromIds_packs:
  assumes "fits (keysFromIds name ids)"
  shows "packs (keysFromIds name ids) (map (keyFromId name) ids) (id_ksizes name (length ids))"
proof -
  have "map usize (map (keyFromId name) ids) = id_ksizes name (length ids)"
    by (simp add: usize_keyFromId id_ksizes_def map_replicate_const comp_def)
  then show ?thesis
    using assms by (simp add: packs_def keysFromIds_def)
qed

lemma length_keysFromIds: "length (keysFromIds name ids) = length ids * (length name + 9)"
  by (induction ids) (auto simp: keysFromIds_def)

lemma bytes_meta_meta_bytes [simp]: "bytes_meta (meta_bytes m) = m"
  by (simp add: bytes_meta_def meta_bytes_def)

lemma length_meta_bytes [simp]: "length (meta_bytes m) = 16"
  by (simp add: meta_bytes_def)

text \<open>In the order of the map backend, the documents of a collection are in identifier order.\<close>

lemma keyFromId_order: "DefaultMemCmp (keyFromId name i) (keyFromId name j) \<longleftrightarrow> i < j"
  by (simp add: keyFromId_def be_id_order)

section \<open>The interface of the backend\<close>

text \<open>A mode under which \<open>put\<close> overwrites, and no operation waits or consumes.\<close>

definition plain_mode :: "mode_t \<Rightarrow> bool" where
  "plain_mode mode \<longleftrightarrow> \<not> has_mode mode YOKAN_MODE_NEW_ONLY \<and> \<not> has_mode mode YOKAN_MODE_EXIST_ONLY
     \<and> \<not> has_mode mode YOKAN_MODE_APPEND \<and> \<not> has_mode mode YOKAN_MODE_WAIT
     \<and> \<not> has_mode mode YOKAN_MODE_CONSUME"

lemma plain_mode_0 [simp]: "plain_mode 0"
  by (simp add: plain_mode_def has_mode_def)

locale doc_backend =
  fixes B :: "'s kv_ops"
    and content :: "'s \<Rightarrow> bytes \<rightharpoonup> bytes"
    and ok :: "'s \<Rightarrow> bool"
  assumes put_ok: "ok s \<Longrightarrow> plain_mode mode \<Longrightarrow> packs (um_data keys) ks ksizes
          \<Longrightarrow> packs vals vs vsizes \<Longrightarrow> length ks = length vs \<Longrightarrow> \<forall>v \<in> set vs. sized v
          \<Longrightarrow> \<exists>s'. o_put B mode keys ksizes vals vsizes s = Done (OK, s') \<and> ok s'
                 \<and> content s' = (content s)(ks [\<mapsto>] vs)"
    and get_ok: "ok s \<Longrightarrow> plain_mode mode \<Longrightarrow> packs (um_data keys) ks ksizes \<Longrightarrow> fits vals
          \<Longrightarrow> length vsizes = length ks
          \<Longrightarrow> pack_spec (content s) (length vals) False ks = (ns, out)
          \<Longrightarrow> o_get B mode True keys ksizes vals vsizes s
              = Done (OK, \<lparr> g_vals = out @ drop (length out) vals, g_size = usize out, g_vsizes = ns \<rparr>, s)"
    and length_ok: "ok s \<Longrightarrow> plain_mode mode \<Longrightarrow> packs (um_data keys) ks ksizes
          \<Longrightarrow> length vsizes = length ks
          \<Longrightarrow> o_length B mode keys ksizes vsizes s = Done (OK, map (value_size (content s)) ks, s)"
    and exists_ok: "ok s \<Longrightarrow> plain_mode mode \<Longrightarrow> packs (um_data keys) ks ksizes \<Longrightarrow> bf_ok flags
          \<Longrightarrow> length ks \<le> unat (bf_size flags)
          \<Longrightarrow> \<exists>bf. o_exists B mode keys ksizes flags s = Done (OK, bf, s)
                 \<and> (\<forall>j < length ks. bf_get bf j = Done (ks ! j \<in> dom (content s)))"
    and erase_ok: "ok s \<Longrightarrow> plain_mode mode \<Longrightarrow> packs (um_data keys) ks ksizes
          \<Longrightarrow> \<exists>s'. o_erase B mode keys ksizes s = Done (OK, s') \<and> ok s'
                 \<and> content s' = content s |` (- set ks)"

section \<open>The documents of a collection\<close>

text \<open>The metadata the mixin acts on: what is cached, else what is stored.\<close>

definition coll_view :: "('s \<Rightarrow> bytes \<rightharpoonup> bytes) \<Rightarrow> 's doc_db \<Rightarrow> bytes \<Rightarrow> coll_meta option" where
  "coll_view view d name =
     (case dm_cache d name of
        Some m \<Rightarrow> Some m
      | None \<Rightarrow> (case view (dm_db d) name of
                   Some b \<Rightarrow> if length b = 16 then Some (bytes_meta b) else None
                 | None \<Rightarrow> None))"

definition docs_view :: "('s \<Rightarrow> bytes \<rightharpoonup> bytes) \<Rightarrow> 's doc_db \<Rightarrow> bytes \<Rightarrow> size_t \<Rightarrow> bytes option" where
  "docs_view view d name = (\<lambda>i. view (dm_db d) (keyFromId name i))"

text \<open>The identifiers \<open>docStore\<close> gives to \<open>n\<close> documents.\<close>

definition fresh_ids :: "coll_meta \<Rightarrow> nat \<Rightarrow> size_t list" where
  "fresh_ids m n = map (\<lambda>i. cm_next_id m + of_nat i) [0..<n]"

lemma length_fresh_ids [simp]: "length (fresh_ids m n) = n"
  by (simp add: fresh_ids_def)

lemma map_upds_image:
  "inj f \<Longrightarrow> length ks = length vs
    \<Longrightarrow> (\<lambda>i. (m(map f ks [\<mapsto>] vs)) (f i)) = (\<lambda>i. m (f i))(ks [\<mapsto>] vs)"
proof (induction ks vs arbitrary: m rule: list_induct2')
  case (4 k ks v vs)
  have "(\<lambda>i. (m(f k \<mapsto> v)) (f i)) = (\<lambda>i. m (f i))(k \<mapsto> v)"
    using 4(2) by (auto simp: fun_eq_iff inj_eq)
  then show ?case using 4 by simp
qed auto

lemma map_upds_other: "x \<notin> set ks \<Longrightarrow> (m(ks [\<mapsto>] vs)) x = m x"
  by (rule map_upds_apply_nontin)

lemma inj_keyFromId: "inj (keyFromId name)"
  by (simp add: inj_def)

context doc_backend
begin

abbreviation coll :: "'s doc_db \<Rightarrow> bytes \<Rightarrow> coll_meta option" where
  "coll d \<equiv> coll_view content d"

abbreviation docs :: "'s doc_db \<Rightarrow> bytes \<Rightarrow> size_t \<Rightarrow> bytes option" where
  "docs d \<equiv> docs_view content d"

lemma name_packs: "fits name \<Longrightarrow> packs (um_data (local_mem name)) [name] [usize name]"
  by (simp add: packs_def local_mem_def)

lemma keys_packs:
  "fits (keysFromIds name ids) \<Longrightarrow>
    packs (um_data (local_mem (keysFromIds name ids))) (map (keyFromId name) ids)
      (id_ksizes name (length ids))"
  by (simp add: local_mem_def keysFromIds_packs)

lemma get_meta:
  assumes "ok (dm_db d)" "name \<noteq> []" "fits name" "coll d name = Some m"
  shows "\<exists>d'. collGetMetadata B name m0 d = Done (OK, m, d') \<and> dm_db d' = dm_db d
    \<and> dm_cache d' = (dm_cache d)(name \<mapsto> m)"
proof (cases "dm_cache d name")
  case None
  then obtain b where b: "content (dm_db d) name = Some b" "length b = 16" "m = bytes_meta b"
    using assms(4) by (auto simp: coll_view_def split: option.splits if_splits)
  have "usize b = 16" using b(2) by (simp add: usize_def)
  then have "pack_spec (content (dm_db d)) (length (meta_bytes m0)) False [name] = ([16], b)"
    using b by simp
  then have "o_get B 0 True (local_mem name) [usize name] (meta_bytes m0) [16] (dm_db d)
      = Done (OK, \<lparr> g_vals = b, g_size = usize b, g_vsizes = [16] \<rparr>, dm_db d)"
    using get_ok [OF assms(1) plain_mode_0 name_packs [OF assms(3)], of "meta_bytes m0" "[16]"] b(2)
    by simp
  then show ?thesis
    using None assms(2) b(3) by (auto simp: collGetMetadata_def Let_def YOKAN_KEY_NOT_FOUND_def)
next
  case (Some m')
  then show ?thesis
    using assms(2,4) by (auto simp: collGetMetadata_def coll_view_def map_upd_triv)
qed

lemma put_meta:
  assumes "ok (dm_db d)" "name \<noteq> []" "fits name"
  shows "\<exists>d'. collPutMetadata B name m True d = Done (OK, d') \<and> ok (dm_db d')
    \<and> content (dm_db d') = (content (dm_db d))(name \<mapsto> meta_bytes m)
    \<and> dm_cache d' = (dm_cache d)(name \<mapsto> m)"
proof -
  have "packs (meta_bytes m) [meta_bytes m] [16]"
    by (simp add: packs_def usize_def)
  moreover have "\<forall>v \<in> set [meta_bytes m]. sized v" by (simp add: sized_def)
  ultimately obtain s' where "o_put B 0 (local_mem name) [usize name] (meta_bytes m) [16] (dm_db d)
      = Done (OK, s')" "ok s'" "content s' = (content (dm_db d))([name] [\<mapsto>] [meta_bytes m])"
    using put_ok [OF assms(1) plain_mode_0 name_packs [OF assms(3)]] by force
  then show ?thesis
    using assms(2) by (auto simp: collPutMetadata_def)
qed

text \<open>Creating a collection that does not exist.\<close>

lemma create_law:
  assumes "ok (dm_db d)" "name \<noteq> []" "fits name" "content (dm_db d) name = None"
  shows "\<exists>d'. collCreate B mode name d = Done (OK, d') \<and> ok (dm_db d')
    \<and> coll d' name = Some meta0
    \<and> content (dm_db d') = (content (dm_db d))(name \<mapsto> meta_bytes meta0)
    \<and> dm_cache d' = (dm_cache d)(name \<mapsto> meta0)"
proof -
  have "o_length B 0 (local_mem name) [usize name] [0] (dm_db d)
      = Done (OK, map (value_size (content (dm_db d))) [name], dm_db d)"
    by (rule length_ok [OF assms(1) plain_mode_0 name_packs [OF assms(3)]]) simp
  moreover have "YOKAN_KEY_NOT_FOUND \<noteq> 16" by (simp add: YOKAN_KEY_NOT_FOUND_def)
  ultimately have "priv_collExists B name d = Done (OK, False, d)"
    using assms(2,4) by (simp add: priv_collExists_def value_size_def)
  then show ?thesis
    using put_meta [OF assms(1-3), of meta0]
    by (auto simp: collCreate_def coll_view_def)
qed

text \<open>Storing documents while nobody else acts.\<close>

lemma store_law:
  assumes "ok (dm_db d)" "name \<noteq> []" "0 \<notin> set name" "coll d name = Some m" "plain_mode mode"
    "packs documents vs sizes" "length ids = length vs" "\<forall>v \<in> set vs. sized v"
    "length vs * (length name + 9) < 18446744073709551616" "fits name"
  shows "\<exists>d'. docStore B name mode documents sizes ids [] d = Done (OK, fresh_ids m (length vs), d')
    \<and> ok (dm_db d')
    \<and> coll d' name = Some \<lparr> cm_size = cm_size m + usize vs, cm_next_id = cm_next_id m + usize vs \<rparr>
    \<and> docs d' name = (docs d name)(fresh_ids m (length vs) [\<mapsto>] vs)
    \<and> content (dm_db d') name = Some (meta_bytes
         \<lparr> cm_size = cm_size m + usize vs, cm_next_id = cm_next_id m + usize vs \<rparr>)
    \<and> (\<forall>name'. name' \<noteq> name \<and> 0 \<notin> set name'
         \<longrightarrow> coll d' name' = coll d name' \<and> docs d' name' = docs d name')"
proof -
  let ?new = "fresh_ids m (length vs)"
  let ?m1 = "m\<lparr> cm_next_id := cm_next_id m + usize vs \<rparr>"
  let ?m2 = "?m1\<lparr> cm_size := cm_size m + usize vs \<rparr>"
  have un: "usize ids = usize vs" using assms(7) by (simp add: usize_def)
  obtain d1 where d1: "collGetMetadata B name meta0 d = Done (OK, m, d1)" "dm_db d1 = dm_db d"
    "dm_cache d1 = (dm_cache d)(name \<mapsto> m)"
    using get_meta [OF assms(1,2,10,4)] by blast
  define d2 where "d2 = d1\<lparr> dm_cache := (dm_cache d)(name \<mapsto> ?m1) \<rparr>"
  have reserve: "docStore_reserve B name ids d = Done (OK, ?m1, ?new, d2)"
    using d1 assms(2,7) un
    by (simp add: docStore_reserve_def collPutMetadata_def d2_def fresh_ids_def Let_def)
  have fk: "fits (keysFromIds name ?new)"
    using assms(9) by (simp add: length_keysFromIds)
  obtain s3 where s3: "o_put B mode (local_mem (keysFromIds name ?new)) (id_ksizes name (length ?new))
      documents sizes (dm_db d) = Done (OK, s3)" "ok s3"
      "content s3 = (content (dm_db d))(map (keyFromId name) ?new [\<mapsto>] vs)"
    using put_ok [OF assms(1,5) keys_packs [OF fk] assms(6) _ assms(8)] by auto
  define d3 where "d3 = d2\<lparr> dm_db := s3 \<rparr>"
  have writes: "docStore_write B name mode documents sizes ?new d2 = Done (OK, d3)"
    using s3(1) by (simp add: docStore_write_def d2_def d1(2) d3_def)
  have c3: "coll d3 name = Some ?m1"
    by (simp add: d3_def d2_def coll_view_def)
  obtain d4 where d4: "collGetMetadata B name ?m1 d3 = Done (OK, ?m1, d4)" "dm_db d4 = s3"
    "dm_cache d4 = (dm_cache d3)(name \<mapsto> ?m1)"
    using get_meta [of d3 name ?m1 ?m1] s3(2) assms(2,10) c3 by (auto simp: d3_def)
  obtain d5 where d5: "collPutMetadata B name ?m2 True d4 = Done (OK, d5)" "ok (dm_db d5)"
    "content (dm_db d5) = (content s3)(name \<mapsto> meta_bytes ?m2)"
    "dm_cache d5 = (dm_cache d4)(name \<mapsto> ?m2)"
    using put_meta [of d4 name ?m2] s3(2) assms(2,10) d4(2) by auto
  have "docStore B name mode documents sizes ids [] d = Done (OK, ?new, d5)"
    using reserve writes d4(1) d5(1) un
    by (simp add: docStore_def docStore_count_def)
  moreover have "coll d5 name = Some ?m2" "content (dm_db d5) name = Some (meta_bytes ?m2)"
    using d5(3,4) by (simp_all add: coll_view_def)
  moreover have "docs d5 name = (docs d name)(?new [\<mapsto>] vs)"
  proof -
    have "docs d5 name = (\<lambda>i. ((content (dm_db d))(map (keyFromId name) ?new [\<mapsto>] vs)) (keyFromId name i))"
      using d5(3) s3(3) keyFromId_not_name [OF assms(3)] by (simp add: docs_view_def fun_eq_iff)
    then show ?thesis
      using map_upds_image [OF inj_keyFromId, of ?new vs "content (dm_db d)" name]
      by (simp add: docs_view_def)
  qed
  moreover have "coll d5 name' = coll d name' \<and> docs d5 name' = docs d name'"
    if "name' \<noteq> name" "0 \<notin> set name'" for name'
  proof -
    have k: "x \<notin> set (map (keyFromId name) ?new)" if "\<And>i. x \<noteq> keyFromId name i" for x
      using that by auto
    have "content (dm_db d5) name' = content (dm_db d) name'"
      using d5(3) s3(3) that keyFromId_not_name [OF that(2)] k [of name']
      by (metis fun_upd_other map_upds_other)
    moreover have "content (dm_db d5) (keyFromId name' i) = content (dm_db d) (keyFromId name' i)" for i
      using d5(3) s3(3) that(1) keyFromId_not_name [OF assms(3), of name' i] keyFromId_name
        k [of "keyFromId name' i"]
      by (metis fun_upd_other map_upds_other)
    ultimately show ?thesis
      using that(1) d5(4) d4(3)
      by (auto simp: coll_view_def docs_view_def d3_def d2_def fun_eq_iff split: option.split)
  qed
  moreover have "?m2 = \<lparr> cm_size = cm_size m + usize vs, cm_next_id = cm_next_id m + usize vs \<rparr>"
    by (cases m) simp
  ultimately show ?thesis using d5(2) by auto
qed

text \<open>Loading documents into one packed buffer.\<close>

lemma load_law:
  assumes "ok (dm_db d)" "name \<noteq> []" "fits name" "content (dm_db d) name = Some b" "length b = 16"
    "plain_mode mode" "fits (keysFromIds name ids)" "fits documents" "length sizes = length ids"
    "pack_spec (docs d name) (length documents) False ids = (ns, out)"
  shows "docLoad B name mode True ids documents sizes d
    = Done (OK, \<lparr> g_vals = out @ drop (length out) documents, g_size = usize out, g_vsizes = ns \<rparr>, d)"
proof -
  have "o_length B 0 (local_mem name) [usize name] [0] (dm_db d)
      = Done (OK, map (value_size (content (dm_db d))) [name], dm_db d)"
    by (rule length_ok [OF assms(1) plain_mode_0 name_packs [OF assms(3)]]) simp
  moreover have "usize b = 16" using assms(5) by (simp add: usize_def)
  ultimately have e: "priv_collExists B name d = Done (OK, True, d)"
    using assms(2,4) by (simp add: priv_collExists_def value_size_def)
  have "pack_spec (content (dm_db d)) (length documents) False (map (keyFromId name) ids) = (ns, out)"
    using assms(10) by (simp add: pack_spec_map docs_view_def)
  then show ?thesis
    using get_ok [OF assms(1,6) keys_packs [OF assms(7)] assms(8)] assms(2,9) e
    by (simp add: docLoad_def)
qed

lemma count_bits_law:
  "\<forall>j < n. bf_get bf (i + j) = Done (P (i + j))
    \<Longrightarrow> count_bits b bf i n = Done (of_nat (card {j. i \<le> j \<and> j < i + n \<and> P j = b}))"
proof (induction n arbitrary: i)
  case 0
  have "{j. i \<le> j \<and> j < i + 0 \<and> P j = b} = {}" by auto
  then show ?case by (simp only: count_bits.simps card.empty) simp
next
  case (Suc n)
  have "\<forall>j < n. bf_get bf (Suc i + j) = Done (P (Suc i + j))"
    using Suc.prems by (metis Suc_mono add_Suc_shift)
  note IH = Suc.IH [OF this]
  have "{j. i \<le> j \<and> j < i + Suc n \<and> P j = b}
      = (if P i = b then {i} else {}) \<union> {j. Suc i \<le> j \<and> j < Suc i + n \<and> P j = b}"
    by (auto simp: le_Suc_eq le_eq_less_or_eq)
  moreover have "bf_get bf i = Done (P i)" using Suc.prems by force
  moreover have "card ({i} \<union> {j. Suc i \<le> j \<and> j < Suc i + n \<and> P j = b})
      = Suc (card {j. Suc i \<le> j \<and> j < Suc i + n \<and> P j = b})"
    by (subst card_Un_disjoint) auto
  ultimately show ?case using IH by auto
qed

lemma bits_buffer: "bf_ok \<lparr> bf_data = replicate (1 + n div 8) 0, bf_size = of_nat n \<rparr>"
proof -
  have "unat (of_nat n :: size_t) \<le> n" by (simp add: unat_of_nat)
  then show ?thesis by (simp add: bf_ok_def)
qed

text \<open>
  Erasing documents takes one off the size for every position of \<open>ids\<close> whose document exists.
\<close>

lemma erase_law:
  assumes "ok (dm_db d)" "name \<noteq> []" "0 \<notin> set name" "fits name" "coll d name = Some m"
    "plain_mode mode" "fits (keysFromIds name ids)" "fits ids"
  shows "\<exists>d'. docErase B name mode ids d = Done (OK, d') \<and> ok (dm_db d')
    \<and> docs d' name = docs d name |` (- set ids)
    \<and> coll d' name = Some (m\<lparr> cm_size := cm_size m
         - of_nat (card {j. j < length ids \<and> ids ! j \<in> dom (docs d name)}) \<rparr>)"
proof -
  let ?keys = "map (keyFromId name) ids"
  note keys = keys_packs [OF assms(7)]
  obtain bf where bf: "o_exists B mode (local_mem (keysFromIds name ids)) (id_ksizes name (length ids))
      \<lparr> bf_data = replicate (1 + length ids div 8) 0, bf_size = usize ids \<rparr> (dm_db d)
      = Done (OK, bf, dm_db d)"
    "\<forall>j < length ids. bf_get bf j = Done (?keys ! j \<in> dom (content (dm_db d)))"
    using exists_ok [OF assms(1,6) keys, of "\<lparr> bf_data = replicate (1 + length ids div 8) 0,
        bf_size = usize ids \<rparr>"] bits_buffer [of "length ids"] assms(8)
    by (auto simp: usize_def unat_of_nat)
  have "\<forall>j < length ids. bf_get bf (0 + j) = Done (ids ! (0 + j) \<in> dom (docs d name))"
    using bf(2) by (auto simp: docs_view_def domIff)
  from count_bits_law [OF this, of True]
  have cnt: "count_bits True bf 0 (length ids)
      = Done (of_nat (card {j. j < length ids \<and> ids ! j \<in> dom (docs d name)}))"
    by (simp add: conj_commute)
  obtain d2 where d2: "collGetMetadata B name meta0 d = Done (OK, m, d2)" "dm_db d2 = dm_db d"
    using get_meta [OF assms(1,2,4,5)] by blast
  obtain s3 where s3: "o_erase B mode (local_mem (keysFromIds name ids)) (id_ksizes name (length ids))
      (dm_db d) = Done (OK, s3)" "ok s3" "content s3 = content (dm_db d) |` (- set ?keys)"
    using erase_ok [OF assms(1,6) keys] by blast
  let ?m = "m\<lparr> cm_size := cm_size m
         - of_nat (card {j. j < length ids \<and> ids ! j \<in> dom (docs d name)}) \<rparr>"
  obtain d4 where d4: "collPutMetadata B name ?m True (d2\<lparr> dm_db := s3 \<rparr>) = Done (OK, d4)"
    "ok (dm_db d4)" "content (dm_db d4) = (content s3)(name \<mapsto> meta_bytes ?m)"
    "dm_cache d4 = (dm_cache d2)(name \<mapsto> ?m)"
    using put_meta [of "d2\<lparr> dm_db := s3 \<rparr>" name ?m] s3(2) assms(2,4) by auto
  have same: "d\<lparr> dm_db := dm_db d \<rparr> = d" by simp
  have "docErase B name mode ids d = Done (OK, d4)"
    using bf(1) cnt d2 s3(1) d4(1) assms(2) by (simp add: docErase_def Let_def)
  moreover have "docs d4 name = docs d name |` (- set ids)"
  proof
    fix i
    have "content (dm_db d4) (keyFromId name i) = content s3 (keyFromId name i)"
      using d4(3) keyFromId_not_name [OF assms(3)] by simp
    moreover have "keyFromId name i \<in> set ?keys \<longleftrightarrow> i \<in> set ids" by auto
    ultimately show "docs d4 name i = (docs d name |` (- set ids)) i"
      using s3(3) by (auto simp: docs_view_def restrict_map_def)
  qed
  ultimately show ?thesis using d4(2,4) by (auto simp: coll_view_def)
qed

text \<open>
  With \<open>UPDATE_NEW\<close> the next identifier becomes the largest updated one plus one, whatever it
  was before.
\<close>

lemma update_new_law:
  assumes "ok (dm_db d)" "name \<noteq> []" "0 \<notin> set name" "fits name" "coll d name = Some m"
    "plain_mode mode" "has_mode mode YOKAN_MODE_UPDATE_NEW" "fits (keysFromIds name ids)"
    "packs documents vs sizes" "length ids = length vs" "fits ids" "\<forall>v \<in> set vs. sized v"
  shows "\<exists>d'. docUpdate B name mode ids documents sizes d = Done (OK, d') \<and> ok (dm_db d')
    \<and> docs d' name = (docs d name)(ids [\<mapsto>] vs)
    \<and> coll d' name = Some \<lparr> cm_size = cm_size m
           + of_nat (card {j. j < length ids \<and> ids ! j \<notin> dom (docs d name)}),
         cm_next_id = fold (\<lambda>i m. max m i) ids 0 + 1 \<rparr>"
proof -
  let ?keys = "map (keyFromId name) ids"
  have ls: "length sizes = length ids" using packs_length [OF assms(9)] assms(10) by simp
  note keys = keys_packs [OF assms(8)]
  obtain d1 where d1: "collGetMetadata B name meta0 d = Done (OK, m, d1)" "dm_db d1 = dm_db d"
    using get_meta [OF assms(1,2,4,5)] by blast
  obtain bf where bf: "o_exists B mode (local_mem (keysFromIds name ids)) (id_ksizes name (length ids))
      \<lparr> bf_data = replicate (1 + length sizes div 8) 0, bf_size = usize sizes \<rparr> (dm_db d)
      = Done (OK, bf, dm_db d)"
    "\<forall>j < length ids. bf_get bf j = Done (?keys ! j \<in> dom (content (dm_db d)))"
    using exists_ok [OF assms(1,6) keys, of "\<lparr> bf_data = replicate (1 + length sizes div 8) 0,
        bf_size = usize sizes \<rparr>"] bits_buffer [of "length sizes"] assms(11) ls
    by (auto simp: usize_def unat_of_nat)
  have "\<forall>j < length ids. bf_get bf (0 + j) = Done (ids ! (0 + j) \<in> dom (docs d name))"
    using bf(2) by (auto simp: docs_view_def domIff)
  from count_bits_law [OF this, of False]
  have cnt: "count_bits False bf 0 (length ids)
      = Done (of_nat (card {j. j < length ids \<and> ids ! j \<notin> dom (docs d name)}))"
    by (simp add: conj_commute)
  obtain s3 where s3: "o_put B mode (local_mem (keysFromIds name ids)) (id_ksizes name (length ids))
      documents sizes (dm_db d) = Done (OK, s3)" "ok s3"
      "content s3 = (content (dm_db d))(?keys [\<mapsto>] vs)"
    using put_ok [OF assms(1,6) keys assms(9) _ assms(12)] assms(10) by auto
  let ?m = "m\<lparr> cm_size := cm_size m
         + of_nat (card {j. j < length ids \<and> ids ! j \<notin> dom (docs d name)}),
       cm_next_id := fold (\<lambda>i m. max m i) ids 0 + 1 \<rparr>"
  obtain d4 where d4: "collPutMetadata B name ?m True (d1\<lparr> dm_db := s3 \<rparr>) = Done (OK, d4)"
    "ok (dm_db d4)" "content (dm_db d4) = (content s3)(name \<mapsto> meta_bytes ?m)"
    "dm_cache d4 = (dm_cache d1)(name \<mapsto> ?m)"
    using put_meta [of "d1\<lparr> dm_db := s3 \<rparr>" name ?m] s3(2) assms(2,4) by auto
  have "docUpdate B name mode ids documents sizes d = Done (OK, d4)"
    using bf(1) cnt d1 s3(1) d4(1) assms(2,7) by (simp add: docUpdate_def Let_def)
  moreover have "docs d4 name = (docs d name)(ids [\<mapsto>] vs)"
  proof -
    have "docs d4 name = (\<lambda>i. ((content (dm_db d))(?keys [\<mapsto>] vs)) (keyFromId name i))"
      using d4(3) s3(3) keyFromId_not_name [OF assms(3)] by (simp add: docs_view_def fun_eq_iff)
    then show ?thesis
      using map_upds_image [OF inj_keyFromId assms(10), of "content (dm_db d)" name]
      by (simp add: docs_view_def)
  qed
  ultimately show ?thesis using d4(2,4) by (auto simp: coll_view_def)
qed

end

section \<open>The map backend provides it\<close>

text \<open>A call during which no other thread acts.\<close>

definition alone :: "('a \<times> 'b \<times> 'e list \<times> 's) outcome \<Rightarrow> ('a \<times> 'b \<times> 's) outcome" where
  "alone m = obind m (\<lambda>(a, b, env, s). Done (a, b, s))"

definition map_ops :: "order \<Rightarrow> bool \<Rightarrow> pairs kv_db kv_ops" where
  "map_ops cmp has_lua = \<lparr>
     o_put = map_put cmp,
     o_get = (\<lambda>mode packed keys ksizes vals vsizes s.
                alone (map_get cmp mode packed keys ksizes vals vsizes [] s)),
     o_length = (\<lambda>mode keys ksizes vsizes s. alone (map_length cmp mode keys ksizes vsizes [] s)),
     o_exists = (\<lambda>mode keys ksizes flags s. alone (map_exists cmp mode keys ksizes flags [] s)),
     o_erase = (\<lambda>mode keys ksizes s.
                  obind (map_erase cmp mode keys ksizes [] s) (\<lambda>(st, env, s'). Done (st, s'))),
     o_listkv = map_listKeyValues cmp,
     o_sorted = True,
     o_supports = map_supportsMode has_lua \<rparr>"

definition umap_ops :: "layout \<Rightarrow> bool \<Rightarrow> pairs kv_db kv_ops" where
  "umap_ops layout has_lua = \<lparr>
     o_put = umap_put layout,
     o_get = (\<lambda>mode packed keys ksizes vals vsizes s.
                alone (umap_get layout mode packed keys ksizes vals vsizes [] s)),
     o_length = (\<lambda>mode keys ksizes vsizes s. alone (umap_length layout mode keys ksizes vsizes [] s)),
     o_exists = (\<lambda>mode keys ksizes flags s. alone (umap_exists layout mode keys ksizes flags [] s)),
     o_erase = (\<lambda>mode keys ksizes s.
                  obind (umap_erase layout mode keys ksizes [] s) (\<lambda>(st, env, s'). Done (st, s'))),
     o_listkv = (\<lambda>mode packed start F keys ksizes vals vsizes s.
                   Done (NotSupported, \<lparr> g_vals = keys, g_size = usize keys, g_vsizes = ksizes \<rparr>,
                         \<lparr> g_vals = vals, g_size = usize vals, g_vsizes = vsizes \<rparr>)),
     o_sorted = False,
     o_supports = umap_supportsMode has_lua \<rparr>"

text \<open>Every value of the database is a value that fits a buffer.\<close>

definition kv_sound :: "('c \<Rightarrow> bytes \<rightharpoonup> bytes) \<Rightarrow> ('c \<Rightarrow> bool) \<Rightarrow> 'c kv_db \<Rightarrow> bool" where
  "kv_sound view valid s \<longleftrightarrow> valid (m_db s) \<and> \<not> m_migrated s \<and> (\<forall>v \<in> ran (view (m_db s)). sized v)"

lemma ran_upds:
  "length ks = length vs \<Longrightarrow> \<forall>v \<in> ran m. P v \<Longrightarrow> \<forall>v \<in> set vs. P v \<Longrightarrow> \<forall>v \<in> ran (m(ks [\<mapsto>] vs)). P v"
proof (induction ks vs arbitrary: m rule: list_induct2)
  case Nil
  then show ?case by simp
next
  case (Cons k ks v vs)
  have "\<forall>w \<in> ran (m(k \<mapsto> v)). P w"
    using Cons.prems by (auto simp: ran_def split: if_splits)
  then show ?case using Cons by simp
qed

context kv_container
begin

text \<open>Any record of operations made of the container's is a backend for the mixin.\<close>

lemma container_backend:
  assumes "o_put B = kv_put C"
    "o_get B = (\<lambda>mode packed keys ksizes vals vsizes s.
       alone (kv_get C mode packed keys ksizes vals vsizes [] s))"
    "o_length B = (\<lambda>mode keys ksizes vsizes s. alone (kv_length C mode keys ksizes vsizes [] s))"
    "o_exists B = (\<lambda>mode keys ksizes flags s. alone (kv_exists C mode keys ksizes flags [] s))"
    "o_erase B = (\<lambda>mode keys ksizes s.
       obind (kv_erase C mode keys ksizes [] s) (\<lambda>(st, env, s'). Done (st, s')))"
  shows "doc_backend B (\<lambda>s. abs (m_db s)) (kv_sound abs inv)"
proof
  fix s :: "'c kv_db" and mode ks ksizes and keys :: umem
  assume sound: "kv_sound abs inv s" and mode: "plain_mode mode"
    and keys: "packs (um_data keys) ks ksizes"
  then have ok: "db_ok s" "\<not> m_migrated s" "\<forall>v \<in> ran (content s). sized v"
    by (auto simp: kv_sound_def)
  note m = mode [unfolded plain_mode_def]
  show "\<exists>s'. o_put B mode keys ksizes vals vsizes s = Done (OK, s') \<and> kv_sound abs inv s'
      \<and> content s' = (content s)(ks [\<mapsto>] vs)"
    if v: "packs vals vs vsizes" "length ks = length vs" "\<forall>v \<in> set vs. sized v" for vals vs vsizes
  proof -
    have sp: "put_spec mode (length ks = 1) (content s) (zip ks vs) = (OK, (content s)(ks [\<mapsto>] vs))"
      using put_spec_plain m v(2) by blast
    obtain s' where "kv_put C mode keys ksizes vals vsizes s = Done (OK, s')"
      "db_ok s'" "content s' = (content s)(ks [\<mapsto>] vs)" "m_migrated s' = m_migrated s"
      using put_law [OF ok(1,2) keys v(1,2), of mode] sp by auto
    then show ?thesis
      using assms(1) ok ran_upds [OF v(2), of "content s" sized] v(3) by (auto simp: kv_sound_def)
  qed
  show "o_get B mode True keys ksizes vals vsizes s
      = Done (OK, \<lparr> g_vals = out @ drop (length out) vals, g_size = usize out, g_vsizes = ns \<rparr>, s)"
    if "fits vals" "length vsizes = length ks"
      "pack_spec (content s) (length vals) False ks = (ns, out)" for vals vsizes ns out
    using get_packed_law [OF ok(1,2) keys that(1) _ _ ok(3) that(2,3)] m assms(2)
    by (simp add: alone_def)
  show "o_length B mode keys ksizes vsizes s = Done (OK, map (value_size (content s)) ks, s)"
    if "length vsizes = length ks" for vsizes
    using length_law [OF ok(1,2) keys _ that] m assms(3) by (simp add: alone_def)
  show "\<exists>bf. o_exists B mode keys ksizes flags s = Done (OK, bf, s)
      \<and> (\<forall>j < length ks. bf_get bf j = Done (ks ! j \<in> dom (content s)))"
    if fl: "bf_ok flags" "length ks \<le> unat (bf_size flags)" for flags
  proof -
    obtain bf where "kv_exists C mode keys ksizes flags [] s = Done (OK, bf, [], s)"
      "\<And>j. bf_get bf j = (if j < length ks then Done (ks ! j \<in> dom (content s)) else bf_get flags j)"
      using exists_law [OF ok(1,2) keys _ fl, of mode "[]"] m by metis
    then show ?thesis using assms(4) by (simp add: alone_def)
  qed
  obtain s' where "kv_erase C mode keys ksizes [] s = Done (OK, [], s')"
    "db_ok s'" "content s' = content s |` (- set ks)" "m_migrated s' = m_migrated s"
    using erase_law [OF ok(1,2) keys, of mode "[]"] m by metis
  then show "\<exists>s'. o_erase B mode keys ksizes s = Done (OK, s') \<and> kv_sound abs inv s'
      \<and> content s' = content s |` (- set ks)"
    using assms(5) ok by (auto simp: kv_sound_def ran_def restrict_map_def split: if_splits)
qed

end

context total_comparator
begin

lemma map_backend: "doc_backend (map_ops lt has_lua) (\<lambda>s. map_of (m_db s))
    (kv_sound map_of (nodes_ok lt fst))"
  by (rule map_kv.container_backend)
    (simp_all add: map_ops_def fun_eq_iff map_put_def map_get_def map_length_def map_exists_def
      map_erase_def)

end

context hash_layout
begin

lemma umap_backend: "doc_backend (umap_ops layout has_lua) (\<lambda>s. map_of (m_db s))
    (kv_sound map_of (\<lambda>es. distinct (map fst es)))"
  by (rule umap_kv.container_backend)
    (simp_all add: umap_ops_def fun_eq_iff umap_put_def umap_get_def umap_length_def
      umap_exists_def umap_erase_def)

end

interpretation map_doc: doc_backend "map_ops DefaultMemCmp has_lua" "\<lambda>s. map_of (m_db s)"
  "kv_sound map_of (nodes_ok DefaultMemCmp fst)"
  by (rule memcmp_order.map_backend)

interpretation umap_doc: doc_backend "umap_ops (bucket_layout h n) has_lua"
  "\<lambda>s. map_of (m_db s)" "kv_sound map_of (\<lambda>es. distinct (map fst es))"
  by (rule bucket_order.umap_backend)

end
