(* ===== verification/DocProperties.thy ===== *)
theory DocProperties
  imports MigrationProperties DocContract
begin

text \<open>
  The properties of the document collections that doc-mixin.hpp builds on a key/value backend:
  here on the map and the unordered map backend.
\<close>

abbreviation map_coll :: "pairs kv_db doc_db \<Rightarrow> bytes \<Rightarrow> coll_meta option" where
  "map_coll \<equiv> coll_view (\<lambda>s. map_of (m_db s))"

abbreviation map_docs :: "pairs kv_db doc_db \<Rightarrow> bytes \<Rightarrow> size_t \<Rightarrow> bytes option" where
  "map_docs \<equiv> docs_view (\<lambda>s. map_of (m_db s))"

text \<open>A sound map database: ordered nodes, not migrated, no value of a sentinel size.\<close>

abbreviation map_sound :: "order \<Rightarrow> pairs kv_db \<Rightarrow> bool" where
  "map_sound cmp \<equiv> kv_sound map_of (nodes_ok cmp fst)"

lemma length_below:
  assumes "l * (n + 9) < (b :: nat)"
  shows "l < b"
proof -
  have "l * 1 \<le> l * (n + 9)" by (rule mult_le_mono2) simp
  then show ?thesis using assms by linarith
qed

lemma card_positions:
  assumes "distinct ids"
  shows "card {j. j < length ids \<and> ids ! j \<in> D} = card (set ids \<inter> D)"
proof -
  have "set ids \<inter> D = (!) ids ` {j. j < length ids \<and> ids ! j \<in> D}"
    by (auto simp: in_set_conv_nth)
  moreover have "inj_on ((!) ids) {j. j < length ids \<and> ids ! j \<in> D}"
    using assms by (auto simp: inj_on_def nth_eq_iff_index_eq)
  ultimately show ?thesis by (simp add: card_image)
qed

section \<open>Collections and documents\<close>

text \<open>
  C30: \<open>docStore\<close> gives the documents the next consecutive identifiers of the collection, stores
  them under these, counts them, and leaves the other collections alone.
\<close>

theorem docStore_appends:
  assumes "total_comparator cmp" "map_sound cmp (dm_db d)" "name \<noteq> []" "0 \<notin> set name" "fits name"
    and "map_coll d name = Some m" "plain_mode mode" "packs documents vs sizes" "length ids = length vs"
    and "\<forall>v \<in> set vs. sized v" "length vs * (length name + 9) < 18446744073709551616"
  shows "\<exists>d'. docStore (map_ops cmp has_lua) name mode documents sizes ids [] d
      = Done (OK, map (\<lambda>i. cm_next_id m + of_nat i) [0..<length vs], d')
    \<and> map_sound cmp (dm_db d')
    \<and> map_coll d' name = Some \<lparr> cm_size = cm_size m + usize vs, cm_next_id = cm_next_id m + usize vs \<rparr>
    \<and> map_docs d' name = (map_docs d name)(map (\<lambda>i. cm_next_id m + of_nat i) [0..<length vs] [\<mapsto>] vs)
    \<and> (\<forall>name'. name' \<noteq> name \<and> 0 \<notin> set name'
         \<longrightarrow> map_coll d' name' = map_coll d name' \<and> map_docs d' name' = map_docs d name')"
  using doc_backend.store_law [OF total_comparator.map_backend [OF assms(1)] assms(2,3,4,6-11,5)]
  unfolding fresh_ids_def by blast

text \<open>
  A collection created, filled and read back: \<open>docLoad\<close> of the identifiers that \<open>docStore\<close>
  returned yields the documents stored.
\<close>

lemma docCreate_store_load:
  assumes "total_comparator cmp" "map_sound cmp (dm_db d)" "name \<noteq> []" "0 \<notin> set name" "fits name"
    and "map_of (m_db (dm_db d)) name = None" "packs documents vs sizes" "length ids = length vs"
    and "\<forall>v \<in> set vs. sized v" "length vs * (length name + 9) < 2 ^ 64"
    and "fits buf" "length (concat vs) \<le> length buf" "plain_mode mode"
  shows "\<exists>d1 d2. collCreate (map_ops cmp has_lua) 0 name d = Done (OK, d1)
    \<and> docStore (map_ops cmp has_lua) name mode documents sizes ids [] d1
      = Done (OK, map of_nat [0..<length vs], d2)
    \<and> docLoad (map_ops cmp has_lua) name mode True (map of_nat [0..<length vs]) buf (map (\<lambda>_. 0) vs) d2
      = Done (OK, \<lparr> g_vals = concat vs @ drop (length (concat vs)) buf, g_size = usize (concat vs),
                    g_vsizes = sizes \<rparr>, d2)"
proof -
  note B = total_comparator.map_backend [OF assms(1), of has_lua]
  let ?ids = "map of_nat [0..<length vs] :: size_t list"
  obtain d1 where d1: "collCreate (map_ops cmp has_lua) 0 name d = Done (OK, d1)"
    "map_sound cmp (dm_db d1)" "map_coll d1 name = Some meta0"
    using doc_backend.create_law [OF B assms(2,3,5,6)] by blast
  have fresh: "fresh_ids meta0 (length vs) = ?ids" by (simp add: fresh_ids_def meta0_def)
  have small: "length vs * (length name + 9) < 18446744073709551616" using assms(10) by simp
  let ?m = "meta0\<lparr> cm_size := usize vs, cm_next_id := usize vs \<rparr>"
  obtain d2 where d2: "docStore (map_ops cmp has_lua) name mode documents sizes ids [] d1 = Done (OK, ?ids, d2)"
    "map_sound cmp (dm_db d2)" "map_docs d2 name = (map_docs d1 name)(?ids [\<mapsto>] vs)"
    "\<exists>m. map_of (m_db (dm_db d2)) name = Some (meta_bytes m)"
    using doc_backend.store_law [OF B d1(2) assms(3,4) d1(3) assms(13) assms(7-9) small assms(5)]
    unfolding fresh by blast
  have "length vs < 2 ^ 64"
    using length_below [OF small] by simp
  then have "distinct ?ids"
    by (auto simp: distinct_map inj_on_def unat_of_nat_size dest!: arg_cong [where f = unat])
  then have "map (map_docs d2 name) ?ids = map Some vs"
    unfolding d2(3) by (intro map_upds_distinct) simp_all
  then have pack: "pack_spec (map_docs d2 name) (length buf) False ?ids = (map usize vs, concat vs)"
    by (rule pack_spec_values) (rule assms(12))
  have fk: "fits (keysFromIds name ?ids)"
    using small by (simp add: length_keysFromIds)
  obtain m where m: "map_of (m_db (dm_db d2)) name = Some (meta_bytes m)" using d2(4) by blast
  have "docLoad (map_ops cmp has_lua) name mode True ?ids buf (map (\<lambda>_. 0) vs) d2
      = Done (OK, \<lparr> g_vals = concat vs @ drop (length (concat vs)) buf, g_size = usize (concat vs),
                    g_vsizes = map usize vs \<rparr>, d2)"
    by (rule doc_backend.load_law [OF B d2(2) assms(3,5) m _ assms(13) fk assms(11) _ pack]) simp_all
  moreover have "sizes = map usize vs" using assms(7) by (rule packsE)
  ultimately show ?thesis using d1(1) d2(1) by blast
qed

text \<open>Where the witnesses start: an empty database, and one with the empty collection \<open>a\<close>.\<close>

lemmas doc_concrete = concrete coll_view_def docs_view_def kv_sound_def sized_def plain_mode_def
  meta0_def YOKAN_MODE_UPDATE_NEW_def

definition doc_db0 :: "pairs kv_db doc_db" where
  "doc_db0 = \<lparr> dm_db = map_db [], dm_cache = Map.empty \<rparr>"

definition doc_db1 :: "coll_meta \<Rightarrow> (bytes \<times> bytes) list \<Rightarrow> pairs kv_db doc_db" where
  "doc_db1 m es = \<lparr> dm_db = map_db es, dm_cache = [[97] \<mapsto> m] \<rparr>"

theorem docStore_appends_witness:
  "\<exists>d'. docStore (map_ops DefaultMemCmp False) [97] 0 [5, 6, 7] [2, 1] [0, 0] [] (doc_db1 meta0 [])
      = Done (OK, [0, 1], d')
    \<and> map_coll d' [97] = Some \<lparr> cm_size = 2, cm_next_id = 2 \<rparr> \<and> map_docs d' [97] 1 = Some [7]"
proof -
  have "map_sound DefaultMemCmp (dm_db (doc_db1 meta0 []))" "[97] \<noteq> ([] :: bytes)" "0 \<notin> set [97 :: byte]"
    "fits [97 :: byte]" "map_coll (doc_db1 meta0 []) [97] = Some meta0" "plain_mode 0"
    "packs [5, 6, 7] [[5, 6], [7]] [2, 1]" "length [0 :: size_t, 0] = length [[5 :: byte, 6], [7]]"
    "\<forall>v \<in> set [[5, 6], [7]]. sized v"
    "length [[5 :: byte, 6], [7]] * (length [97 :: byte] + 9) < 18446744073709551616"
    by (simp_all add: doc_concrete doc_db1_def)
  from docStore_appends [OF memcmp_total this, of False] obtain d' where
    "docStore (map_ops DefaultMemCmp False) [97] 0 [5, 6, 7] [2, 1] [0, 0] [] (doc_db1 meta0 [])
      = Done (OK, map (\<lambda>i. cm_next_id meta0 + of_nat i) [0..<length [[5 :: byte, 6], [7]]], d')"
    "map_coll d' [97] = Some \<lparr> cm_size = cm_size meta0 + usize [[5 :: byte, 6], [7]],
       cm_next_id = cm_next_id meta0 + usize [[5 :: byte, 6], [7]] \<rparr>"
    "map_docs d' [97] = (map_docs (doc_db1 meta0 []) [97])
       (map (\<lambda>i. cm_next_id meta0 + of_nat i) [0..<length [[5 :: byte, 6], [7]]] [\<mapsto>] [[5, 6], [7]])"
    by blast
  then show ?thesis
    by (intro exI [of _ d']) (simp add: meta0_def usize_def upt_rec)
qed

lemma docCreate_store_load_witness:
  "\<exists>d1 d2. docStore (map_ops DefaultMemCmp False) [97] 0 [5, 6, 7] [2, 1] [0, 0] [] d1 = Done (OK, [0, 1], d2)
    \<and> docLoad (map_ops DefaultMemCmp False) [97] 0 True [0, 1] [9, 9, 9, 9] [0, 0] d2
      = Done (OK, \<lparr> g_vals = [5, 6, 7, 9], g_size = 3, g_vsizes = [2, 1] \<rparr>, d2)"
proof -
  have "map_sound DefaultMemCmp (dm_db doc_db0)" "[97] \<noteq> ([] :: bytes)" "0 \<notin> set [97 :: byte]"
    "fits [97 :: byte]" "map_of (m_db (dm_db doc_db0)) [97] = None"
    "packs [5, 6, 7] [[5, 6], [7]] [2, 1]" "length [0 :: size_t, 0] = length [[5 :: byte, 6], [7]]"
    "\<forall>v \<in> set [[5, 6], [7]]. sized v"
    "length [[5 :: byte, 6], [7]] * (length [97 :: byte] + 9) < 2 ^ 64"
    "fits [9 :: byte, 9, 9, 9]" "length (concat [[5 :: byte, 6], [7]]) \<le> length [9 :: byte, 9, 9, 9]"
    by (simp_all add: doc_concrete doc_db0_def)
  from docCreate_store_load [OF memcmp_total this plain_mode_0, of False] show ?thesis
    by (elim exE conjE) (intro exI conjI, simp_all add: usize_def upt_rec)
qed

text \<open>
  \<open>docErase\<close> of distinct identifiers removes these documents, takes the number of those that
  were there off the size, and leaves the next identifier.
\<close>

lemma docErase_removes:
  assumes "total_comparator cmp" "map_sound cmp (dm_db d)" "name \<noteq> []" "0 \<notin> set name" "fits name"
    and "map_coll d name = Some m" "plain_mode mode" "fits (keysFromIds name ids)" "distinct ids"
  shows "\<exists>d'. docErase (map_ops cmp has_lua) name mode ids d = Done (OK, d') \<and> map_sound cmp (dm_db d')
    \<and> map_docs d' name = map_docs d name |` (- set ids)
    \<and> map_coll d' name = Some (m\<lparr> cm_size := cm_size m - of_nat (card (set ids \<inter> dom (map_docs d name))) \<rparr>)"
proof -
  have len: "fits ids"
    using assms(8) length_below [of "length ids" "length name"] by (simp add: length_keysFromIds)
  show ?thesis
    using doc_backend.erase_law [OF total_comparator.map_backend [OF assms(1)] assms(2,3,4,5,6,7,8) len]
    unfolding card_positions [OF assms(9)] by blast
qed



section \<open>The keys of the documents\<close>

text \<open>
  The key of a document is its collection's name, a zero byte and the identifier in
  big-endian order. It determines the collection and the identifier, and the keys of a
  collection are ordered by the default comparator as the identifiers are by number.
\<close>

lemma keyFromId_codec:
  "idFromKey (length name) (keyFromId name i) = i
    \<and> (keyFromId name i = keyFromId name' j \<longleftrightarrow> name = name' \<and> i = j)
    \<and> (DefaultMemCmp (keyFromId name i) (keyFromId name j) \<longleftrightarrow> i < j)"
  by (metis idFromKey_keyFromId keyFromId_inject keyFromId_name keyFromId_order)

end
