(* ===== verification/ArrayBackend.thy ===== *)
theory ArrayBackend
  imports Migration Filters
begin

text \<open>
  The array backend (array.cpp): a collection is one growing vector of bytes with the offset
  and size of every document; the identifier of a document is its index. Identifiers, offsets
  and sizes are \<open>size_t\<close>; a document's bytes are read and written through views of the vector.
\<close>

record array_coll =
  ac_data :: bytes
  ac_count :: size_t
  ac_offsets :: "size_t list"
  ac_sizes :: "size_t list"

record array_db =
  ar_colls :: "bytes \<rightharpoonup> array_coll"
  ar_migrated :: bool

definition empty_coll :: array_coll where
  "empty_coll = \<lparr> ac_data = [], ac_count = 0, ac_offsets = [], ac_sizes = [] \<rparr>"

section \<open>Collections\<close>

definition array_supportsMode :: "bool \<Rightarrow> mode_t \<Rightarrow> bool" where
  "array_supportsMode has_lua mode = within_mask mode
     (YOKAN_MODE_INCLUSIVE OR YOKAN_MODE_CONSUME OR YOKAN_MODE_WAIT
      OR (if has_lua then YOKAN_MODE_LUA_FILTER else 0) OR YOKAN_MODE_IGNORE_DOCS
      OR YOKAN_MODE_FILTER_VALUE OR YOKAN_MODE_LIB_FILTER OR YOKAN_MODE_NO_RDMA
      OR YOKAN_MODE_UPDATE_NEW)"

definition array_collCreate :: "mode_t \<Rightarrow> bytes \<Rightarrow> array_db \<Rightarrow> status \<times> array_db" where
  "array_collCreate mode name db =
     (if ar_colls db name \<noteq> None then (KeyExists, db)
      else (OK, db\<lparr> ar_colls := (ar_colls db)(name \<mapsto> empty_coll) \<rparr>))"

definition array_collDrop :: "mode_t \<Rightarrow> bytes \<Rightarrow> array_db \<Rightarrow> status \<times> array_db" where
  "array_collDrop mode name db =
     (if ar_colls db name = None then (NotFound, db)
      else (OK, db\<lparr> ar_colls := (ar_colls db)(name := None) \<rparr>))"

definition array_collExists :: "mode_t \<Rightarrow> bytes \<Rightarrow> array_db \<Rightarrow> status \<times> bool" where
  "array_collExists mode name db = (OK, ar_colls db name \<noteq> None)"

definition array_collLastID :: "mode_t \<Rightarrow> bytes \<Rightarrow> array_db \<Rightarrow> status \<times> size_t option" where
  "array_collLastID mode name db =
     (case ar_colls db name of
        None \<Rightarrow> (NotFound, None)
      | Some coll \<Rightarrow> (OK, Some (usize (ac_sizes coll) - 1)))"

definition array_collSize :: "mode_t \<Rightarrow> bytes \<Rightarrow> array_db \<Rightarrow> status \<times> size_t option" where
  "array_collSize mode name db =
     (case ar_colls db name of
        None \<Rightarrow> (NotFound, None)
      | Some coll \<Rightarrow> (OK, Some (ac_count coll)))"

definition array_destroy :: "array_db \<Rightarrow> array_db" where
  "array_destroy db = db\<lparr> ar_colls := Map.empty \<rparr>"

section \<open>Documents\<close>

definition missing :: "array_coll \<Rightarrow> size_t \<Rightarrow> bool" where
  "missing coll i \<longleftrightarrow> unat i \<ge> length (ac_sizes coll) \<or> ac_sizes coll ! unat i = YOKAN_KEY_NOT_FOUND"

text \<open>The caller's arrays hold at least one entry per identifier.\<close>

definition array_docSize :: "bytes \<Rightarrow> mode_t \<Rightarrow> size_t list \<Rightarrow> size_t list \<Rightarrow> array_db
    \<Rightarrow> (status \<times> size_t list) outcome" where
  "array_docSize name mode ids sizes db =
     (if length sizes < length ids then Undef
      else case ar_colls db name of
        None \<Rightarrow> Done (OK, map (\<lambda>_. YOKAN_KEY_NOT_FOUND) ids @ drop (length ids) sizes)
      | Some coll \<Rightarrow>
          Done (OK, map (\<lambda>i. if unat i < length (ac_sizes coll) then ac_sizes coll ! unat i
                             else YOKAN_KEY_NOT_FOUND) ids @ drop (length ids) sizes))"

fun array_store_loop :: "bytes \<Rightarrow> size_t list \<Rightarrow> nat \<Rightarrow> size_t \<Rightarrow> size_t \<Rightarrow> size_t \<Rightarrow> array_coll
    \<Rightarrow> size_t list \<Rightarrow> (array_coll \<times> size_t list) outcome" where
  "array_store_loop documents [] i did doc_off offset coll ids = Done (coll, ids)"
| "array_store_loop documents (doc_size # sizes) i did doc_off offset coll ids =
     obind (sub_bytes documents doc_off doc_size) (\<lambda>doc.
     obind (memcpy_to (ac_data coll) offset doc) (\<lambda>data.
       if i \<ge> length ids then Undef
       else
         array_store_loop documents sizes (i + 1) (did + 1) (doc_off + doc_size)
           (offset + doc_size)
           (coll\<lparr> ac_data := data, ac_sizes := ac_sizes coll @ [doc_size],
                  ac_offsets := ac_offsets coll @ [offset], ac_count := ac_count coll + 1 \<rparr>)
           (ids[i := did])))"

definition grow :: "bytes \<Rightarrow> array_coll \<Rightarrow> array_coll" where
  "grow documents coll = coll\<lparr> ac_data := ac_data coll @ replicate (length documents) 0 \<rparr>"

definition array_docStore :: "bytes \<Rightarrow> mode_t \<Rightarrow> bytes \<Rightarrow> size_t list \<Rightarrow> size_t list \<Rightarrow> array_db
    \<Rightarrow> (status \<times> size_t list \<times> array_db) outcome" where
  "array_docStore name mode documents sizes ids db =
     (case ar_colls db name of
        None \<Rightarrow> Done (NotFound, ids, db)
      | Some coll \<Rightarrow>
          obind (array_store_loop documents sizes 0 (usize (ac_sizes coll)) 0
                   (usize (ac_data coll)) (grow documents coll) ids)
            (\<lambda>(coll', ids'). Done (OK, ids', db\<lparr> ar_colls := (ar_colls db)(name \<mapsto> coll') \<rparr>)))"

text \<open>Missing identifiers up to \<open>i\<close> are created as erased documents.\<close>

definition array_pad :: "size_t \<Rightarrow> array_coll \<Rightarrow> array_coll" where
  "array_pad i coll =
     (let n = Suc (unat i) - length (ac_sizes coll) in
      coll\<lparr> ac_sizes := ac_sizes coll @ replicate n YOKAN_KEY_NOT_FOUND,
            ac_offsets := ac_offsets coll @ replicate n YOKAN_KEY_NOT_FOUND \<rparr>)"

fun array_update_loop :: "bytes \<Rightarrow> (size_t \<times> size_t) list \<Rightarrow> size_t \<Rightarrow> size_t \<Rightarrow> array_coll
    \<Rightarrow> array_coll outcome" where
  "array_update_loop documents [] doc_off offset coll = Done coll"
| "array_update_loop documents ((i, doc_size) # rest) doc_off offset coll =
     (let coll1 = (if unat i \<ge> length (ac_sizes coll) then array_pad i coll else coll);
          coll2 = (if ac_sizes coll1 ! unat i = YOKAN_KEY_NOT_FOUND
                   then coll1\<lparr> ac_count := ac_count coll1 + 1 \<rparr> else coll1) in
      obind (sub_bytes documents doc_off doc_size) (\<lambda>doc.
      obind (memcpy_to (ac_data coll2) offset doc) (\<lambda>data.
        array_update_loop documents rest (doc_off + doc_size) (offset + doc_size)
          (coll2\<lparr> ac_data := data, ac_sizes := (ac_sizes coll2)[unat i := doc_size],
                  ac_offsets := (ac_offsets coll2)[unat i := offset] \<rparr>))))"

definition array_docUpdate :: "bytes \<Rightarrow> mode_t \<Rightarrow> size_t list \<Rightarrow> bytes \<Rightarrow> size_t list
    \<Rightarrow> array_db \<Rightarrow> (status \<times> array_db) outcome" where
  "array_docUpdate name mode ids documents sizes db =
     (case ar_colls db name of
        None \<Rightarrow> Done (NotFound, db)
      | Some coll \<Rightarrow>
          if \<not> has_mode mode YOKAN_MODE_UPDATE_NEW
             \<and> (\<exists>i \<in> set ids. unat i \<ge> length (ac_sizes coll))
          then Done (InvalidID, db)
          else if length sizes < length ids then Undef
          else
            obind (array_update_loop documents (zip ids sizes) 0 (usize (ac_data coll))
                     (grow documents coll))
              (\<lambda>coll'. Done (OK, db\<lparr> ar_colls := (ar_colls db)(name \<mapsto> coll') \<rparr>)))"

fun array_erase_loop :: "size_t list \<Rightarrow> array_coll \<Rightarrow> array_coll" where
  "array_erase_loop [] coll = coll"
| "array_erase_loop (i # ids) coll =
     (if unat i \<ge> length (ac_sizes coll) then array_erase_loop ids coll
      else
        array_erase_loop ids (coll\<lparr>
          ac_count := (if ac_sizes coll ! unat i \<noteq> YOKAN_KEY_NOT_FOUND then ac_count coll - 1
                       else ac_count coll),
          ac_sizes := (ac_sizes coll)[unat i := YOKAN_KEY_NOT_FOUND],
          ac_offsets := (ac_offsets coll)[unat i := YOKAN_KEY_NOT_FOUND] \<rparr>))"

definition array_docErase :: "bytes \<Rightarrow> mode_t \<Rightarrow> size_t list \<Rightarrow> array_db \<Rightarrow> status \<times> array_db" where
  "array_docErase name mode ids db =
     (case ar_colls db name of
        None \<Rightarrow> (NotFound, db)
      | Some coll \<Rightarrow>
          (OK, db\<lparr> ar_colls := (ar_colls db)(name \<mapsto> array_erase_loop ids coll) \<rparr>))"

section \<open>Loading\<close>

text \<open>The bytes of document \<open>i\<close>.\<close>

definition doc_bytes :: "array_coll \<Rightarrow> size_t \<Rightarrow> bytes outcome" where
  "doc_bytes coll i = sub_bytes (ac_data coll) (ac_offsets coll ! unat i) (ac_sizes coll ! unat i)"

text \<open>A document that does not fit ends the packed loop: the sizes from there on are TOO_SMALL.\<close>

fun array_load_packed :: "array_coll \<Rightarrow> size_t list \<Rightarrow> size_t \<Rightarrow> size_t \<Rightarrow> bytes
    \<Rightarrow> (size_t list \<times> bytes) outcome" where
  "array_load_packed coll [] doc_ptr remaining documents = Done ([], documents)"
| "array_load_packed coll (i # ids) doc_ptr remaining documents =
     (if missing coll i then
        obind (array_load_packed coll ids doc_ptr remaining documents) (\<lambda>(ns, docs).
          Done (YOKAN_KEY_NOT_FOUND # ns, docs))
      else
        (let size = ac_sizes coll ! unat i in
         if size > remaining then
           Done (replicate (Suc (length ids)) YOKAN_SIZE_TOO_SMALL, documents)
         else
           obind (doc_bytes coll i) (\<lambda>doc.
           obind (memcpy_to documents doc_ptr doc) (\<lambda>documents'.
           obind (array_load_packed coll ids (doc_ptr + size) (remaining - size) documents')
             (\<lambda>(ns, docs). Done (size # ns, docs))))))"

text \<open>Unpacked: when a document does not fit, the pointer stays where it is.\<close>

fun array_load_unpacked :: "array_coll \<Rightarrow> (size_t \<times> size_t) list \<Rightarrow> size_t \<Rightarrow> bytes
    \<Rightarrow> (size_t list \<times> bytes) outcome" where
  "array_load_unpacked coll [] doc_ptr documents = Done ([], documents)"
| "array_load_unpacked coll ((i, buffer_size) # rest) doc_ptr documents =
     (if missing coll i then
        obind (array_load_unpacked coll rest (doc_ptr + buffer_size) documents) (\<lambda>(ns, docs).
          Done (YOKAN_KEY_NOT_FOUND # ns, docs))
      else
        (let size = ac_sizes coll ! unat i in
         if size > buffer_size then
           obind (array_load_unpacked coll rest doc_ptr documents) (\<lambda>(ns, docs).
             Done (YOKAN_SIZE_TOO_SMALL # ns, docs))
         else
           obind (doc_bytes coll i) (\<lambda>doc.
           obind (memcpy_to documents doc_ptr doc) (\<lambda>documents'.
           obind (array_load_unpacked coll rest (doc_ptr + buffer_size) documents')
             (\<lambda>(ns, docs). Done (size # ns, docs))))))"

text \<open>\<open>documents.size\<close> is not changed.\<close>

definition array_docLoad :: "bytes \<Rightarrow> mode_t \<Rightarrow> bool \<Rightarrow> size_t list \<Rightarrow> bytes \<Rightarrow> size_t list
    \<Rightarrow> array_db \<Rightarrow> (status \<times> bytes \<times> size_t list) outcome" where
  "array_docLoad name mode packed ids documents sizes db =
     (case ar_colls db name of
        None \<Rightarrow> Done (NotFound, documents, sizes)
      | Some coll \<Rightarrow>
          if length sizes < length ids then Undef
          else
            obind (if packed then array_load_packed coll ids 0 (usize documents) documents
                   else array_load_unpacked coll (zip ids sizes) 0 documents)
              (\<lambda>(ns, docs). Done (OK, docs, ns @ drop (length ids) sizes)))"

text \<open>\<open>docFetch\<close> ignores what the callback returns.\<close>

fun array_fetch_loop :: "array_coll \<Rightarrow> size_t list
    \<Rightarrow> (size_t \<Rightarrow> bytes option \<Rightarrow> 'st \<Rightarrow> status \<times> 'st) \<Rightarrow> 'st \<Rightarrow> 'st outcome" where
  "array_fetch_loop coll [] func st = Done st"
| "array_fetch_loop coll (i # ids) func st =
     (if missing coll i then array_fetch_loop coll ids func (snd (func i None st))
      else obind (doc_bytes coll i) (\<lambda>doc.
             array_fetch_loop coll ids func (snd (func i (Some doc) st))))"

definition array_docFetch :: "bytes \<Rightarrow> mode_t \<Rightarrow> size_t list
    \<Rightarrow> (size_t \<Rightarrow> bytes option \<Rightarrow> 'st \<Rightarrow> status \<times> 'st) \<Rightarrow> 'st \<Rightarrow> array_db
    \<Rightarrow> (status \<times> 'st) outcome" where
  "array_docFetch name mode ids func st db =
     (case ar_colls db name of
        None \<Rightarrow> Done (NotFound, st)
      | Some coll \<Rightarrow> obind (array_fetch_loop coll ids func st) (\<lambda>st'. Done (OK, st')))"

section \<open>Iterating\<close>

text \<open>
  The callback may itself copy into a user buffer, so it returns an outcome. \<open>limit\<close> is the
  \<open>max\<close> of the code: nothing is visited when it is 0.
\<close>

type_synonym 'st doc_cb = "size_t \<Rightarrow> bytes \<Rightarrow> 'st \<Rightarrow> (status \<times> 'st) outcome"

text \<open>One document through the filter: sized, copied to a buffer of that size, handed on.\<close>

definition filter_doc :: "doc_filter \<Rightarrow> bytes \<Rightarrow> bytes \<Rightarrow> bytes outcome" where
  "filter_doc flt name doc =
     (let filtered_size = d_size flt name doc in
      obind (d_copy flt name (replicate (unat filtered_size) 0) 0 filtered_size doc) (\<lambda>(n, buf).
        sub_bytes buf 0 n))"

function array_iter_loop :: "array_coll \<Rightarrow> bytes \<Rightarrow> doc_filter \<Rightarrow> nat \<Rightarrow> 'st doc_cb \<Rightarrow> nat \<Rightarrow> nat
    \<Rightarrow> 'st \<Rightarrow> (status \<times> 'st) outcome" where
  "array_iter_loop coll name flt limit func i did st =
     (if \<not> (i < limit \<and> did < length (ac_sizes coll)) then Done (OK, st)
      else if ac_sizes coll ! did = YOKAN_KEY_NOT_FOUND then
        array_iter_loop coll name flt limit func i (did + 1) st
      else
        obind (doc_bytes coll (of_nat did)) (\<lambda>doc.
          if \<not> d_check flt name (of_nat did) doc then
            (if d_stop flt name doc then Done (OK, st)
             else array_iter_loop coll name flt limit func i (did + 1) st)
          else
            obind (filter_doc flt name doc) (\<lambda>fdoc.
            obind (func (of_nat did) fdoc st) (\<lambda>(status, st').
              if status \<noteq> OK then Done (status, st')
              else array_iter_loop coll name flt limit func (i + 1) (did + 1) st'))))"
  by pat_completeness auto
termination
  by (relation "measure (\<lambda>(coll, name, flt, limit, func, i, did, st). length (ac_sizes coll) - did)")
    auto

declare array_iter_loop.simps [simp del]

definition array_docIter :: "bytes \<Rightarrow> mode_t \<Rightarrow> size_t \<Rightarrow> size_t \<Rightarrow> doc_filter \<Rightarrow> 'st doc_cb
    \<Rightarrow> 'st \<Rightarrow> array_db \<Rightarrow> (status \<times> 'st) outcome" where
  "array_docIter name mode limit from_id flt func st db =
     (case ar_colls db name of
        None \<Rightarrow> Done (NotFound, st)
      | Some coll \<Rightarrow> array_iter_loop coll name flt (unat limit) func 0 (unat from_id) st)"

text \<open>The state the callback of \<open>docList\<close> captures.\<close>

record dl_state =
  dl_i :: nat
  dl_offset :: size_t
  dl_ids :: "size_t list"
  dl_docs :: bytes
  dl_sizes :: "size_t list"

definition array_docList_callback :: "bool \<Rightarrow> dl_state doc_cb" where
  "array_docList_callback packed did doc s =
     (let accept = (\<lambda>docs off. Done (OK, s\<lparr> dl_docs := docs, dl_offset := off,
            dl_ids := (dl_ids s)[dl_i s := did], dl_sizes := (dl_sizes s)[dl_i s := usize doc],
            dl_i := dl_i s + 1 \<rparr>)) in
      if packed then
        (if dl_offset s + usize doc > usize (dl_docs s) then Done (StopIteration, s)
         else obind (memcpy_to (dl_docs s) (dl_offset s) doc) (\<lambda>docs.
                accept docs (dl_offset s + usize doc)))
      else if usize doc > dl_sizes s ! dl_i s then
        Done (OK, s\<lparr> dl_sizes := (dl_sizes s)[dl_i s := YOKAN_SIZE_TOO_SMALL], dl_i := dl_i s + 1 \<rparr>)
      else
        obind (memcpy_to (dl_docs s) (dl_offset s) doc) (\<lambda>docs.
          accept docs (dl_offset s + dl_sizes s ! dl_i s)))"

definition fill_docs :: "nat \<Rightarrow> size_t list \<Rightarrow> size_t list" where
  "fill_docs i xs = take i xs @ replicate (length xs - i) YOKAN_NO_MORE_DOCS"

definition array_docList :: "bytes \<Rightarrow> mode_t \<Rightarrow> bool \<Rightarrow> size_t \<Rightarrow> doc_filter \<Rightarrow> size_t list
    \<Rightarrow> bytes \<Rightarrow> size_t list \<Rightarrow> array_db \<Rightarrow> (status \<times> dl_state) outcome" where
  "array_docList name mode packed from_id flt ids documents doc_sizes db =
     obind (array_docIter name mode (usize ids) from_id flt (array_docList_callback packed)
              \<lparr> dl_i = 0, dl_offset = 0, dl_ids = ids, dl_docs = documents, dl_sizes = doc_sizes \<rparr> db)
       (\<lambda>(status, s). Done (status, s\<lparr> dl_ids := fill_docs (dl_i s) (dl_ids s),
                                      dl_sizes := fill_docs (dl_i s) (dl_sizes s) \<rparr>))"

section \<open>Migration\<close>

text \<open>
  The snapshot walks the collections in the order of the hash table, here the enumeration
  \<open>colls\<close>.
\<close>

fun snapshot_docs :: "bytes \<Rightarrow> (size_t \<times> size_t) list \<Rightarrow> bytes outcome" where
  "snapshot_docs data [] = Done []"
| "snapshot_docs data ((doc_size, doc_offset) # rest) =
     obind (if doc_size = YOKAN_KEY_NOT_FOUND then Done []
            else sub_bytes data doc_offset doc_size) (\<lambda>doc.
     obind (snapshot_docs data rest) (\<lambda>r. Done (enc64 doc_size @ doc @ r)))"

fun snapshot_colls :: "(bytes \<times> array_coll) list \<Rightarrow> bytes outcome" where
  "snapshot_colls [] = Done []"
| "snapshot_colls ((name, coll) # rest) =
     obind (snapshot_docs (ac_data coll) (zip (ac_sizes coll) (ac_offsets coll))) (\<lambda>docs.
     obind (snapshot_colls rest) (\<lambda>r.
       Done (enc64 (usize name) @ name @ enc64 (usize (ac_sizes coll)) @ docs @ r)))"

definition array_snapshot :: "(bytes \<times> array_coll) list \<Rightarrow> bytes outcome" where
  "array_snapshot colls = obind (snapshot_colls colls) (\<lambda>r. Done (enc64 (usize colls) @ r))"

definition array_startMigration :: "(bytes \<times> array_coll) list \<Rightarrow> string \<Rightarrow> array_db \<Rightarrow> filesystem
    \<Rightarrow> (status \<times> mig_handle option \<times> filesystem) outcome" where
  "array_startMigration colls tmpname db fs =
     (if ar_migrated db then Done (Migrated, None, fs)
      else obind (array_snapshot colls) (\<lambda>bs.
             Done (OK, Some \<lparr> mh_filename = tmpname, mh_cancel = False \<rparr>, fs(tmpname \<mapsto> bs))))"

definition array_endMigration :: "mig_handle \<Rightarrow> array_db \<Rightarrow> filesystem \<Rightarrow> array_db \<times> filesystem" where
  "array_endMigration h db fs =
     (if mh_cancel h then db else db\<lparr> ar_migrated := True, ar_colls := Map.empty \<rparr>,
      fs(mh_filename h := None))"

text \<open>
  Nothing checks that the reads succeed. A count that could not be read is an uninitialised
  variable; a document cut short keeps zeros in place of its end.
\<close>

fun recover_docs :: "nat \<Rightarrow> bytes \<Rightarrow> size_t \<Rightarrow> array_coll \<Rightarrow> (array_coll \<times> bytes) outcome" where
  "recover_docs 0 bs doc_offset coll = Done (coll, bs)"
| "recover_docs (Suc n) bs doc_offset coll =
     (case read_bytes 8 bs of
        None \<Rightarrow> Undef
      | Some (sb, r1) \<Rightarrow>
          (let doc_size = dec64 sb;
               coll1 = coll\<lparr> ac_sizes := ac_sizes coll @ [doc_size],
                             ac_offsets := ac_offsets coll @ [doc_offset] \<rparr> in
           if doc_size = YOKAN_KEY_NOT_FOUND then recover_docs n r1 doc_offset coll1
           else
             (let old = take (unat doc_offset) (ac_data coll1);
                  doc = take (unat doc_size) r1;
                  doc' = doc @ replicate (unat doc_size - length doc) 0 in
              recover_docs n (drop (unat doc_size) r1) (doc_offset + doc_size)
                (coll1\<lparr> ac_data := old @ replicate (unat doc_offset - length old) 0 @ doc' \<rparr>))))"

fun recover_colls :: "nat \<Rightarrow> bytes \<Rightarrow> (bytes \<rightharpoonup> array_coll) \<Rightarrow> (bytes \<rightharpoonup> array_coll) outcome" where
  "recover_colls 0 bs m = Done m"
| "recover_colls (Suc n) bs m =
     (case read_bytes 8 bs of
        None \<Rightarrow> Undef
      | Some (nb, r1) \<Rightarrow>
          (let name_size = unat (dec64 nb);
               name0 = take name_size r1;
               name = name0 @ replicate (name_size - length name0) 0 in
           case read_bytes 8 (drop name_size r1) of
             None \<Rightarrow> Undef
           | Some (cb, r2) \<Rightarrow>
               (let coll0 = (case m name of Some coll \<Rightarrow> coll | None \<Rightarrow> empty_coll) in
                obind (recover_docs (unat (dec64 cb)) r2 0 coll0) (\<lambda>(coll, r3).
                  recover_colls n r3 (m(name \<mapsto> coll))))))"

definition array_load_snapshot :: "bytes \<Rightarrow> array_db \<Rightarrow> (status \<times> array_db) outcome" where
  "array_load_snapshot bs db =
     (case read_bytes 8 bs of
        None \<Rightarrow> Undef
      | Some (cb, r) \<Rightarrow>
          obind (recover_colls (unat (dec64 cb)) r (ar_colls db)) (\<lambda>m.
            Done (OK, db\<lparr> ar_colls := m \<rparr>)))"

definition array_recover :: "status \<Rightarrow> string \<Rightarrow> string list \<Rightarrow> filesystem
    \<Rightarrow> (status \<times> array_db option \<times> filesystem) outcome" where
  "array_recover create_status root files fs =
     recover_db array_load_snapshot create_status
       \<lparr> ar_colls = Map.empty, ar_migrated = False \<rparr> root files fs"

section \<open>Invariant and abstraction\<close>

text \<open>
  \<open>live\<close> are the documents that exist. A collection is sound below \<open>b\<close> when it has one offset
  per size, all its documents lie in the first \<open>b\<close> bytes of its data, and the count is the
  number of documents.
\<close>

definition live :: "array_coll \<Rightarrow> nat set" where
  "live coll = {i. i < length (ac_sizes coll) \<and> ac_sizes coll ! i \<noteq> YOKAN_KEY_NOT_FOUND}"

definition sound_below :: "nat \<Rightarrow> array_coll \<Rightarrow> bool" where
  "sound_below b coll \<longleftrightarrow> length (ac_offsets coll) = length (ac_sizes coll)
     \<and> b \<le> length (ac_data coll)
     \<and> (\<forall>i \<in> live coll. unat (ac_offsets coll ! i) + unat (ac_sizes coll ! i) \<le> b)
     \<and> ac_count coll = of_nat (card (live coll))"

definition coll_ok :: "array_coll \<Rightarrow> bool" where
  "coll_ok coll \<longleftrightarrow> sound_below (length (ac_data coll)) coll"

definition coll_docs :: "array_coll \<Rightarrow> nat \<Rightarrow> bytes option" where
  "coll_docs coll i =
     (if i \<in> live coll
      then Some (take (unat (ac_sizes coll ! i)) (drop (unat (ac_offsets coll ! i)) (ac_data coll)))
      else None)"

lemma finite_live [simp]: "finite (live coll)"
  by (simp add: live_def)

lemma dom_coll_docs: "dom (coll_docs coll) = live coll"
  by (auto simp: coll_docs_def split: if_splits)

lemma missing_iff: "missing coll i \<longleftrightarrow> unat i \<notin> live coll"
  by (auto simp: missing_def live_def)

lemma doc_bytes_docs:
  assumes "coll_ok coll" "unat i \<in> live coll"
  shows "\<exists>d. doc_bytes coll i = Done d \<and> coll_docs coll (unat i) = Some d
    \<and> usize d = ac_sizes coll ! unat i \<and> length d = unat (ac_sizes coll ! unat i)"
proof -
  have "unat (ac_offsets coll ! unat i) + unat (ac_sizes coll ! unat i) \<le> length (ac_data coll)"
    using assms by (auto simp: coll_ok_def sound_below_def)
  then show ?thesis
    using assms(2) by (simp add: doc_bytes_def sub_bytes_def coll_docs_def usize_def)
qed

lemma empty_coll_ok [simp]: "coll_ok empty_coll" "coll_docs empty_coll = Map.empty"
  by (auto simp: coll_ok_def sound_below_def empty_coll_def live_def coll_docs_def)

lemma grow_ok: "coll_ok coll \<Longrightarrow> sound_below (length (ac_data coll)) (grow documents coll)"
  by (simp add: coll_ok_def sound_below_def grow_def live_def)

lemma grow_docs: "coll_ok coll \<Longrightarrow> coll_docs (grow documents coll) = coll_docs coll"
  by (auto simp: coll_docs_def coll_ok_def sound_below_def grow_def live_def fun_eq_iff)

text \<open>One document written at \<open>offset\<close> under identifier \<open>i\<close>, as both loops do.\<close>

definition write_doc :: "nat \<Rightarrow> size_t \<Rightarrow> bytes \<Rightarrow> bytes \<Rightarrow> array_coll \<Rightarrow> array_coll" where
  "write_doc i offset doc data coll =
     (let coll1 = (if i \<ge> length (ac_sizes coll) then array_pad (of_nat i) coll else coll);
          coll2 = (if ac_sizes coll1 ! i = YOKAN_KEY_NOT_FOUND
                   then coll1\<lparr> ac_count := ac_count coll1 + 1 \<rparr> else coll1) in
      coll2\<lparr> ac_data := data, ac_sizes := (ac_sizes coll2)[i := usize doc],
             ac_offsets := (ac_offsets coll2)[i := offset] \<rparr>)"

lemma write_doc_live:
  assumes "i < 18446744073709551616" "sized d"
  shows "live (write_doc i offset d data coll) = insert i (live coll)"
    "ac_count (write_doc i offset d data coll)
      = (if i \<in> live coll then ac_count coll else ac_count coll + 1)"
    "length (ac_sizes (write_doc i offset d data coll)) = max (length (ac_sizes coll)) (Suc i)"
    "ac_data (write_doc i offset d data coll) = data"
proof -
  have u: "unat (of_nat i :: size_t) = i" using assms(1) by (simp add: unat_of_nat)
  have n: "usize d \<noteq> YOKAN_KEY_NOT_FOUND" using sized_usize(1) [OF assms(2)] .
  show "live (write_doc i offset d data coll) = insert i (live coll)"
    using u n
    by (auto simp: write_doc_def array_pad_def live_def nth_append nth_list_update Let_def
        split: if_splits)
  show "ac_count (write_doc i offset d data coll)
      = (if i \<in> live coll then ac_count coll else ac_count coll + 1)"
    using u by (auto simp: write_doc_def array_pad_def live_def nth_append Let_def)
  show "length (ac_sizes (write_doc i offset d data coll)) = max (length (ac_sizes coll)) (Suc i)"
    using u by (auto simp: write_doc_def array_pad_def Let_def)
  show "ac_data (write_doc i offset d data coll) = data"
    by (simp add: write_doc_def Let_def)
qed

lemma write_doc_at:
  assumes "i < 18446744073709551616" "length (ac_offsets coll) = length (ac_sizes coll)"
  shows "length (ac_offsets (write_doc i offset d data coll))
      = length (ac_sizes (write_doc i offset d data coll))"
    "ac_sizes (write_doc i offset d data coll) ! i = usize d"
    "ac_offsets (write_doc i offset d data coll) ! i = offset"
    "j \<in> live coll \<Longrightarrow> j \<noteq> i
      \<Longrightarrow> ac_sizes (write_doc i offset d data coll) ! j = ac_sizes coll ! j
        \<and> ac_offsets (write_doc i offset d data coll) ! j = ac_offsets coll ! j"
proof -
  have u: "unat (of_nat i :: size_t) = i" using assms(1) by (simp add: unat_of_nat)
  show "length (ac_offsets (write_doc i offset d data coll))
      = length (ac_sizes (write_doc i offset d data coll))"
    using u assms(2) by (simp add: write_doc_def array_pad_def Let_def)
  show "ac_sizes (write_doc i offset d data coll) ! i = usize d"
    "ac_offsets (write_doc i offset d data coll) ! i = offset"
    using u assms(2) by (simp_all add: write_doc_def array_pad_def Let_def)
  show "j \<in> live coll \<Longrightarrow> j \<noteq> i
      \<Longrightarrow> ac_sizes (write_doc i offset d data coll) ! j = ac_sizes coll ! j
        \<and> ac_offsets (write_doc i offset d data coll) ! j = ac_offsets coll ! j"
    using u assms(2) by (auto simp: write_doc_def array_pad_def live_def nth_append Let_def)
qed

lemma write_doc_ok:
  assumes "sound_below (length w) coll" "ac_data coll = w @ z" "length d \<le> length z"
    "sized d" "fits (w @ z)" "i < 18446744073709551616"
  defines "coll' \<equiv> write_doc i (usize w) d (w @ d @ drop (length d) z) coll"
  shows "sound_below (length (w @ d)) coll'" "coll_docs coll' = (coll_docs coll)(i \<mapsto> d)"
proof -
  have len: "length (ac_offsets coll) = length (ac_sizes coll)"
    and bnd: "\<And>j. j \<in> live coll \<Longrightarrow> unat (ac_offsets coll ! j) + unat (ac_sizes coll ! j) \<le> length w"
    and cnt: "ac_count coll = of_nat (card (live coll))"
    using assms(1) by (auto simp: sound_below_def)
  note lv = write_doc_live [OF assms(6,4), of "usize w" "w @ d @ drop (length d) z" coll,
      folded coll'_def]
  note at = write_doc_at [OF assms(6) len, where offset = "usize w" and d = d
      and data = "w @ d @ drop (length d) z", folded coll'_def]
  have uw: "unat (usize w) = length w" "unat (usize d) = length d"
    using assms(4,5) by (simp_all add: unat_usize sized_fits)
  show "sound_below (length (w @ d)) coll'"
    unfolding sound_below_def
  proof (intro conjI ballI)
    show "length (ac_offsets coll') = length (ac_sizes coll')" by (rule at(1))
    show "length (w @ d) \<le> length (ac_data coll')" using lv(4) assms(3) by simp
    show "unat (ac_offsets coll' ! j) + unat (ac_sizes coll' ! j) \<le> length (w @ d)"
      if "j \<in> live coll'" for j
      using that bnd [of j] at(2,3) at(4) [of j] lv(1) uw by (cases "j = i") auto
    show "ac_count coll' = of_nat (card (live coll'))"
      using lv(1,2) cnt by (auto simp: insert_absorb)
  qed
  show "coll_docs coll' = (coll_docs coll)(i \<mapsto> d)"
  proof
    fix j
    show "coll_docs coll' j = ((coll_docs coll)(i \<mapsto> d)) j"
    proof (cases "j = i")
      case True
      then show ?thesis using lv(1,4) at(2,3) uw by (simp add: coll_docs_def)
    next
      case False
      then show ?thesis
        using lv(1,4) at(4) [of j] bnd [of j] assms(2) by (auto simp: coll_docs_def)
    qed
  qed
qed

lemma sound_below_ok: "sound_below b coll \<Longrightarrow> coll_ok coll"
  by (auto simp: sound_below_def coll_ok_def)

section \<open>What the operations do to the documents\<close>

lemma append_is_write:
  assumes "length (ac_offsets coll) = n" "length (ac_sizes coll) = n" "n < 18446744073709551616"
  shows "coll\<lparr> ac_data := data, ac_sizes := ac_sizes coll @ [usize d],
           ac_offsets := ac_offsets coll @ [offset], ac_count := ac_count coll + 1 \<rparr>
    = write_doc n offset d data coll"
proof -
  have "unat (of_nat n :: size_t) = n" using assms(3) by (simp add: unat_of_nat)
  then show ?thesis using assms(1,2)
    by (cases coll) (simp add: write_doc_def array_pad_def Let_def nth_append list_update_append)
qed

lemma store_loop_law:
  assumes "documents = dpre @ concat ds @ dpost" "fits documents" "sound_below (length w) coll"
    "ac_data coll = w @ z" "length (concat ds) \<le> length z" "fits (w @ z)" "\<forall>d \<in> set ds. sized d"
    "n = length (ac_sizes coll)" "n + length ds < 18446744073709551616" "i + length ds \<le> length ids"
  shows "\<exists>coll'. array_store_loop documents (map usize ds) i (of_nat n) (usize dpre) (usize w) coll ids
      = Done (coll', take i ids @ map of_nat [n..<n + length ds] @ drop (i + length ds) ids)
    \<and> coll_ok coll' \<and> coll_docs coll' = (coll_docs coll)([n..<n + length ds] [\<mapsto>] ds)
    \<and> length (ac_sizes coll') = n + length ds"
  using assms
proof (induction ds arbitrary: dpre w z coll n i ids)
  case Nil
  then show ?case using sound_below_ok by auto
next
  case (Cons d ds)
  let ?z = "drop (length d) z" and ?data = "w @ d @ drop (length d) z"
  let ?coll = "write_doc n (usize w) d ?data coll"
  have d: "sized d" "length d \<le> length z" using Cons.prems(5,7) by auto
  have n: "n < 18446744073709551616" using Cons.prems(9) by simp
  have len: "length (ac_offsets coll) = n" using Cons.prems(3,8) by (simp add: sound_below_def)
  have view: "sub_bytes documents (usize dpre) (usize d) = Done d"
    using Cons.prems(1,2) by (simp add: view_simps)
  have mc: "memcpy_to (ac_data coll) (usize w) d = Done ?data"
    using memcpy_to_append [of w "take (length d) z" "drop (length d) z" d] Cons.prems(4,6) d by simp
  have ok: "sound_below (length (w @ d)) ?coll" "coll_docs ?coll = (coll_docs coll)(n \<mapsto> d)"
    using write_doc_ok [OF Cons.prems(3,4) d(2,1) Cons.prems(6) n] by simp_all
  have step: "coll\<lparr> ac_data := ?data, ac_sizes := ac_sizes coll @ [usize d],
           ac_offsets := ac_offsets coll @ [usize w], ac_count := ac_count coll + 1 \<rparr> = ?coll"
    using append_is_write [OF len Cons.prems(8) [symmetric] n] .
  have sz: "length (ac_sizes ?coll) = Suc n" "ac_data ?coll = (w @ d) @ ?z"
    using write_doc_live [OF n d(1)] Cons.prems(8) by simp_all
  have i: "i < length ids" using Cons.prems(10) by simp
  have "\<exists>coll'. array_store_loop documents (map usize ds) (Suc i) (of_nat (Suc n)) (usize (dpre @ d))
        (usize (w @ d)) ?coll (ids[i := of_nat n])
      = Done (coll', take (Suc i) (ids[i := of_nat n]) @ map of_nat [Suc n..<Suc n + length ds]
          @ drop (Suc i + length ds) (ids[i := of_nat n]))
    \<and> coll_ok coll' \<and> coll_docs coll' = (coll_docs ?coll)([Suc n..<Suc n + length ds] [\<mapsto>] ds)
    \<and> length (ac_sizes coll') = Suc n + length ds"
    using Cons.prems ok(1) sz d by (intro Cons.IH) auto
  then obtain coll' where IH: "array_store_loop documents (map usize ds) (Suc i) (of_nat (Suc n))
        (usize (dpre @ d)) (usize (w @ d)) ?coll (ids[i := of_nat n])
      = Done (coll', take (Suc i) (ids[i := of_nat n]) @ map of_nat [Suc n..<Suc n + length ds]
          @ drop (Suc i + length ds) (ids[i := of_nat n]))"
    "coll_ok coll'" "coll_docs coll' = (coll_docs ?coll)([Suc n..<Suc n + length ds] [\<mapsto>] ds)"
    "length (ac_sizes coll') = Suc n + length ds"
    by blast
  have "array_store_loop documents (map usize (d # ds)) i (of_nat n) (usize dpre) (usize w) coll ids
      = array_store_loop documents (map usize ds) (Suc i) (of_nat (Suc n))
        (usize (dpre @ d)) (usize (w @ d)) ?coll (ids[i := of_nat n])"
    using view mc step i by (simp add: usize_append add.commute)
  moreover have "take (Suc i) (ids[i := of_nat n]) = take i ids @ [of_nat n]"
    using i by (simp add: take_Suc_conv_app_nth)
  moreover have "[n..<n + length (d # ds)] = n # [Suc n..<Suc n + length ds]"
    by (subst upt_conv_Cons) simp_all
  ultimately show ?case
    using IH ok(2) by (intro exI [of _ coll']) simp
qed

lemma update_loop_law:
  assumes "length is = length ds" "documents = dpre @ concat ds @ dpost" "fits documents"
    "sound_below (length w) coll" "ac_data coll = w @ z" "length (concat ds) \<le> length z"
    "fits (w @ z)" "\<forall>d \<in> set ds. sized d"
  shows "\<exists>coll'. array_update_loop documents (zip is (map usize ds)) (usize dpre) (usize w) coll
      = Done coll' \<and> coll_ok coll' \<and> coll_docs coll' = (coll_docs coll)(map unat is [\<mapsto>] ds)"
  using assms
proof (induction "is" ds arbitrary: dpre w z coll rule: list_induct2)
  case Nil
  then show ?case using sound_below_ok by auto
next
  case (Cons j "is" d ds)
  let ?data = "w @ d @ drop (length d) z"
  let ?coll = "write_doc (unat j) (usize w) d ?data coll"
  have d: "sized d" "length d \<le> length z" using Cons.prems(5,7) by auto
  have j: "unat j < 18446744073709551616" by (rule unat_size_less)
  have view: "sub_bytes documents (usize dpre) (usize d) = Done d"
    using Cons.prems(1,2) by (simp add: view_simps)
  have mc: "memcpy_to (ac_data coll) (usize w) d = Done ?data"
    using memcpy_to_append [of w "take (length d) z" "drop (length d) z" d] Cons.prems(4,6) d by simp
  have ok: "sound_below (length (w @ d)) ?coll" "coll_docs ?coll = (coll_docs coll)(unat j \<mapsto> d)"
    using write_doc_ok [OF Cons.prems(3,4) d(2,1) Cons.prems(6) j] by simp_all
  have sz: "ac_data ?coll = (w @ d) @ drop (length d) z"
    using write_doc_live [OF j d(1)] by simp
  have "\<exists>coll'. array_update_loop documents (zip is (map usize ds)) (usize (dpre @ d))
        (usize (w @ d)) ?coll
      = Done coll' \<and> coll_ok coll' \<and> coll_docs coll' = (coll_docs ?coll)(map unat is [\<mapsto>] ds)"
    using Cons.prems ok(1) sz d by (intro Cons.IH) auto
  moreover have "array_update_loop documents (zip (j # is) (map usize (d # ds))) (usize dpre)
        (usize w) coll
      = array_update_loop documents (zip is (map usize ds)) (usize (dpre @ d)) (usize (w @ d)) ?coll"
    using view mc
    by (auto simp: Let_def write_doc_def usize_append array_pad_def)
  ultimately show ?case using ok(2) by simp
qed

lemma array_erase_loop_law:
  assumes "coll_ok coll"
  shows "coll_ok (array_erase_loop ids coll)
    \<and> coll_docs (array_erase_loop ids coll) = coll_docs coll |` (- unat ` set ids)"
  using assms
proof (induction ids arbitrary: coll)
  case Nil
  then show ?case by simp
next
  case (Cons i ids)
  show ?case
  proof (cases "unat i \<ge> length (ac_sizes coll)")
    case True
    then have "unat i \<notin> dom (coll_docs coll)" by (simp add: dom_coll_docs live_def)
    then have "coll_docs coll |` (- unat ` set ids) = coll_docs coll |` (- unat ` set (i # ids))"
      by (auto simp: restrict_map_def fun_eq_iff domIff)
    then show ?thesis using True Cons by simp
  next
    case False
    let ?coll = "coll\<lparr>
          ac_count := (if ac_sizes coll ! unat i \<noteq> YOKAN_KEY_NOT_FOUND then ac_count coll - 1
                       else ac_count coll),
          ac_sizes := (ac_sizes coll)[unat i := YOKAN_KEY_NOT_FOUND],
          ac_offsets := (ac_offsets coll)[unat i := YOKAN_KEY_NOT_FOUND] \<rparr>"
    have lv: "live ?coll = live coll - {unat i}"
      using False by (auto simp: live_def nth_list_update split: if_splits)
    have cnt: "of_nat (card (live coll - {unat i})) = (of_nat (card (live coll)) :: size_t) - 1"
      if "unat i \<in> live coll"
      using that card_Suc_Diff1 [OF finite_live that]
      by (metis add_diff_cancel_left' of_nat_Suc)
    have "coll_ok ?coll"
      unfolding coll_ok_def sound_below_def
    proof (intro conjI ballI)
      show "ac_count ?coll = of_nat (card (live ?coll))"
        unfolding lv using Cons.prems cnt False
        by (auto simp: coll_ok_def sound_below_def live_def)
      show "unat (ac_offsets ?coll ! j) + unat (ac_sizes ?coll ! j) \<le> length (ac_data ?coll)"
        if "j \<in> live ?coll" for j
        using that Cons.prems unfolding lv by (auto simp: coll_ok_def sound_below_def)
    qed (use Cons.prems in \<open>auto simp: coll_ok_def sound_below_def\<close>)
    moreover have "coll_docs ?coll = coll_docs coll |` (- {unat i})"
      by (rule ext) (auto simp: coll_docs_def lv restrict_map_def)
    moreover have "(coll_docs coll |` (- {unat i})) |` (- unat ` set ids)
        = coll_docs coll |` (- unat ` set (i # ids))"
      by (auto simp: restrict_map_def fun_eq_iff)
    ultimately show ?thesis using Cons.IH [of ?coll] False by simp
  qed
qed

text \<open>
  Packed loading: like the packing of the map backends, except that once a document does not
  fit every later size is TOO_SMALL, missing documents included.
\<close>

fun array_pack :: "(nat \<rightharpoonup> bytes) \<Rightarrow> nat \<Rightarrow> size_t list \<Rightarrow> size_t list \<times> bytes" where
  "array_pack m room [] = ([], [])"
| "array_pack m room (i # ids) =
     (case m (unat i) of
        None \<Rightarrow> (case array_pack m room ids of (ns, out) \<Rightarrow> (YOKAN_KEY_NOT_FOUND # ns, out))
      | Some v \<Rightarrow>
          if room < length v then (replicate (Suc (length ids)) YOKAN_SIZE_TOO_SMALL, [])
          else (case array_pack m (room - length v) ids of (ns, out) \<Rightarrow> (usize v # ns, v @ out)))"

lemma load_packed_law:
  assumes "coll_ok coll" "fits (pre @ tail)"
  shows "array_load_packed coll ids (usize pre) (usize tail) (pre @ tail)
    = (case array_pack (coll_docs coll) (length tail) ids of
         (ns, out) \<Rightarrow> Done (ns, pre @ out @ drop (length out) tail))"
  using assms(2)
proof (induction ids arbitrary: pre tail)
  case Nil
  then show ?case by simp
next
  case (Cons i ids)
  show ?case
  proof (cases "unat i \<in> live coll")
    case False
    then have "coll_docs coll (unat i) = None" by (simp add: coll_docs_def)
    then show ?thesis
      using False Cons by (simp add: missing_iff split: prod.split)
  next
    case True
    then obtain d where d: "doc_bytes coll i = Done d" "coll_docs coll (unat i) = Some d"
      "usize d = ac_sizes coll ! unat i" "length d = unat (ac_sizes coll ! unat i)"
      using doc_bytes_docs [OF assms(1)] by blast
    have fd: "fits d" using d(4) unat_size_less by metis
    have le: "ac_sizes coll ! unat i \<le> usize tail \<longleftrightarrow> length d \<le> length tail"
      using usize_le_iff [OF fd, of tail] Cons.prems by (simp add: d(3))
    show ?thesis
    proof (cases "length tail < length d")
      case True
      then show ?thesis
        using \<open>unat i \<in> live coll\<close> d(2) le by (auto simp: missing_iff Let_def not_le)
    next
      case False
      let ?rest = "drop (length d) tail"
      have fit: "length d \<le> length tail" using False by simp
      have mc: "memcpy_to (pre @ tail) (usize pre) d = Done ((pre @ d) @ ?rest)"
        using memcpy_to_append [of pre "take (length d) tail" ?rest d] Cons.prems fit by simp
      have arith: "usize pre + usize d = usize (pre @ d)" "usize tail - usize d = usize ?rest"
        using fit by (simp_all add: usize_def of_nat_diff)
      have "array_load_packed coll ids (usize (pre @ d)) (usize ?rest) ((pre @ d) @ ?rest)
        = (case array_pack (coll_docs coll) (length ?rest) ids of
             (ns, out) \<Rightarrow> Done (ns, (pre @ d) @ out @ drop (length out) ?rest))"
        using Cons.prems fit by (intro Cons.IH) simp
      moreover have "\<not> usize tail < usize d"
        using le fit d(3) by (simp add: not_less)
      ultimately show ?thesis
        using \<open>unat i \<in> live coll\<close> d(1,2) False mc arith
        by (simp add: missing_iff Let_def d(3) [symmetric] split: prod.split) (simp add: add.commute)
    qed
  qed
qed

section \<open>Recovering a snapshot\<close>

text \<open>The bytes of the live documents of a collection, counted with repetition.\<close>

definition live_bytes :: "size_t list \<Rightarrow> nat" where
  "live_bytes sizes = sum_list (map (\<lambda>n. if n = YOKAN_KEY_NOT_FOUND then 0 else unat n) sizes)"

lemma recover_docs_law:
  assumes "\<forall>(n, off) \<in> set prs. n = YOKAN_KEY_NOT_FOUND \<or> unat off + unat n \<le> length data"
    "ac_data coll = w" "length (ac_offsets coll) = length (ac_sizes coll)"
    "length w + live_bytes (map fst prs) < 18446744073709551616"
  shows "\<exists>bs offs ext. snapshot_docs data prs = Done bs
    \<and> recover_docs (length prs) (bs @ rest) (usize w) coll
        = Done (coll\<lparr> ac_data := w @ ext, ac_sizes := ac_sizes coll @ map fst prs,
                      ac_offsets := ac_offsets coll @ offs \<rparr>, rest)
    \<and> length offs = length prs
    \<and> (\<forall>j < length prs. fst (prs ! j) \<noteq> YOKAN_KEY_NOT_FOUND \<longrightarrow>
         unat (offs ! j) + unat (fst (prs ! j)) \<le> length (w @ ext)
         \<and> take (unat (fst (prs ! j))) (drop (unat (offs ! j)) (w @ ext))
           = take (unat (fst (prs ! j))) (drop (unat (snd (prs ! j))) data))"
  using assms
proof (induction prs arbitrary: coll w)
  case Nil
  then show ?case by (auto intro!: exI [of _ "[]"])
next
  case (Cons p prs)
  obtain n off where p: "p = (n, off)" by (cases p)
  show ?case
  proof (cases "n = YOKAN_KEY_NOT_FOUND")
    case True
    let ?coll = "coll\<lparr> ac_sizes := ac_sizes coll @ [n], ac_offsets := ac_offsets coll @ [usize w] \<rparr>"
    obtain bs offs ext where IH: "snapshot_docs data prs = Done bs"
      "recover_docs (length prs) (bs @ rest) (usize w) ?coll
        = Done (?coll\<lparr> ac_data := w @ ext, ac_sizes := ac_sizes ?coll @ map fst prs,
                      ac_offsets := ac_offsets ?coll @ offs \<rparr>, rest)"
      "length offs = length prs"
      "\<forall>j < length prs. fst (prs ! j) \<noteq> YOKAN_KEY_NOT_FOUND \<longrightarrow>
         unat (offs ! j) + unat (fst (prs ! j)) \<le> length (w @ ext)
         \<and> take (unat (fst (prs ! j))) (drop (unat (offs ! j)) (w @ ext))
           = take (unat (fst (prs ! j))) (drop (unat (snd (prs ! j))) data)"
      using Cons.IH [of ?coll w] Cons.prems p True by (auto simp: live_bytes_def)
    show ?thesis
      using IH p True
      by (intro exI [of _ "enc64 n @ bs"] exI [of _ "usize w # offs"] exI [of _ ext])
        (auto simp: nth_Cons split: nat.split)
  next
    case False
    let ?d = "take (unat n) (drop (unat off) data)"
    have bnd: "unat off + unat n \<le> length data" using Cons.prems(1) p False by auto
    then have ld: "length ?d = unat n" by simp
    then have ud: "usize ?d = n" by (simp add: usize_def)
    have lb: "live_bytes (map fst (p # prs)) = unat n + live_bytes (map fst prs)"
      using p False by (simp add: live_bytes_def)
    have fw: "fits w" using Cons.prems(4) by simp
    let ?coll = "coll\<lparr> ac_sizes := ac_sizes coll @ [n], ac_offsets := ac_offsets coll @ [usize w],
                       ac_data := w @ ?d \<rparr>"
    obtain bs offs ext where IH: "snapshot_docs data prs = Done bs"
      "recover_docs (length prs) (bs @ rest) (usize (w @ ?d)) ?coll
        = Done (?coll\<lparr> ac_data := (w @ ?d) @ ext, ac_sizes := ac_sizes ?coll @ map fst prs,
                      ac_offsets := ac_offsets ?coll @ offs \<rparr>, rest)"
      "length offs = length prs"
      "\<forall>j < length prs. fst (prs ! j) \<noteq> YOKAN_KEY_NOT_FOUND \<longrightarrow>
         unat (offs ! j) + unat (fst (prs ! j)) \<le> length ((w @ ?d) @ ext)
         \<and> take (unat (fst (prs ! j))) (drop (unat (offs ! j)) ((w @ ?d) @ ext))
           = take (unat (fst (prs ! j))) (drop (unat (snd (prs ! j))) data)"
      using Cons.IH [of ?coll "w @ ?d"] Cons.prems lb ld by auto
    have sb: "sub_bytes data off n = Done ?d"
      using bnd by (simp add: sub_bytes_def)
    have uw: "unat (usize w) = length w" using fw by (rule unat_usize)
    have "recover_docs (length (p # prs)) ((enc64 n @ ?d @ bs) @ rest) (usize w) coll
        = recover_docs (length prs) (bs @ rest) (usize (w @ ?d)) ?coll"
      using False Cons.prems(2) uw ld ud
      by (simp add: Let_def usize_append)
    moreover have "snapshot_docs data (p # prs) = Done (enc64 n @ ?d @ bs)"
      using p False sb IH(1) by simp
    ultimately show ?thesis
      using IH(2-4) p uw ld
      by (intro exI [of _ "enc64 n @ ?d @ bs"] exI [of _ "usize w # offs"] exI [of _ "?d @ ext"])
        (auto simp: nth_Cons split: nat.split)
  qed
qed

text \<open>A whole collection: the documents come back, the count does not.\<close>

lemma recover_coll_law:
  assumes "coll_ok coll" "live_bytes (ac_sizes coll) < 18446744073709551616"
  shows "\<exists>bs coll'. snapshot_docs (ac_data coll) (zip (ac_sizes coll) (ac_offsets coll)) = Done bs
    \<and> recover_docs (length (ac_sizes coll)) (bs @ rest) 0 empty_coll = Done (coll', rest)
    \<and> coll_docs coll' = coll_docs coll \<and> ac_sizes coll' = ac_sizes coll \<and> ac_count coll' = 0"
proof -
  let ?prs = "zip (ac_sizes coll) (ac_offsets coll)"
  have len: "length (ac_offsets coll) = length (ac_sizes coll)"
    and bnd: "\<And>i. i \<in> live coll \<Longrightarrow> unat (ac_offsets coll ! i) + unat (ac_sizes coll ! i) \<le> length (ac_data coll)"
    using assms(1) by (auto simp: coll_ok_def sound_below_def)
  have fst: "map fst ?prs = ac_sizes coll" using len by simp
  have "\<forall>(n, off) \<in> set ?prs. n = YOKAN_KEY_NOT_FOUND \<or> unat off + unat n \<le> length (ac_data coll)"
    using bnd len by (auto simp: set_zip live_def)
  from recover_docs_law [OF this, of empty_coll "[]" rest] obtain bs offs ext where r:
    "snapshot_docs (ac_data coll) ?prs = Done bs"
    "recover_docs (length ?prs) (bs @ rest) 0 empty_coll
      = Done (\<lparr> ac_data = ext, ac_count = 0, ac_offsets = offs, ac_sizes = ac_sizes coll \<rparr>, rest)"
    "length offs = length ?prs"
    "\<forall>j < length ?prs. fst (?prs ! j) \<noteq> YOKAN_KEY_NOT_FOUND \<longrightarrow>
         unat (offs ! j) + unat (fst (?prs ! j)) \<le> length ext
         \<and> take (unat (fst (?prs ! j))) (drop (unat (offs ! j)) ext)
           = take (unat (fst (?prs ! j))) (drop (unat (snd (?prs ! j))) (ac_data coll))"
    using assms(2) fst by (auto simp: empty_coll_def)
  let ?coll' = "\<lparr> ac_data = ext, ac_count = 0, ac_offsets = offs, ac_sizes = ac_sizes coll \<rparr>"
  have "coll_docs ?coll' = coll_docs coll"
  proof
    fix j
    show "coll_docs ?coll' j = coll_docs coll j"
      using r(4) len by (auto simp: coll_docs_def live_def)
  qed
  then show ?thesis using r len by (intro exI [of _ bs] exI [of _ ?coll']) auto
qed

lemma recover_colls_law:
  assumes "\<forall>(name, coll) \<in> set colls. coll_ok coll \<and> fits name \<and> fits (ac_sizes coll)
      \<and> live_bytes (ac_sizes coll) < 18446744073709551616"
    "distinct (map fst colls)" "\<forall>name \<in> fst ` set colls. m name = None"
  shows "\<exists>bs m'. snapshot_colls colls = Done bs \<and> recover_colls (length colls) bs m = Done m'
    \<and> (\<forall>name. case map_of colls name of
          None \<Rightarrow> m' name = m name
        | Some coll \<Rightarrow> \<exists>coll'. m' name = Some coll' \<and> coll_docs coll' = coll_docs coll
              \<and> ac_sizes coll' = ac_sizes coll \<and> ac_count coll' = 0)"
  using assms
proof (induction colls arbitrary: m)
  case Nil
  then show ?case by simp
next
  case (Cons nc colls)
  obtain name coll where nc: "nc = (name, coll)" by (cases nc)
  have c: "coll_ok coll" "fits name" "fits (ac_sizes coll)"
    "live_bytes (ac_sizes coll) < 18446744073709551616" "m name = None"
    "name \<notin> fst ` set colls"
    using Cons.prems nc by auto
  obtain bs0 where tail: "snapshot_colls colls = Done bs0"
    using Cons.IH [of Map.empty] Cons.prems by auto
  obtain bs coll' where r: "snapshot_docs (ac_data coll) (zip (ac_sizes coll) (ac_offsets coll)) = Done bs"
    "recover_docs (length (ac_sizes coll)) (bs @ bs0) 0 empty_coll = Done (coll', bs0)"
    "coll_docs coll' = coll_docs coll" "ac_sizes coll' = ac_sizes coll" "ac_count coll' = 0"
    using recover_coll_law [OF c(1,4), of bs0] by blast
  let ?m = "m(name \<mapsto> coll')"
  have p1: "\<forall>(name, coll) \<in> set colls. coll_ok coll \<and> fits name \<and> fits (ac_sizes coll)
      \<and> live_bytes (ac_sizes coll) < 18446744073709551616"
    using Cons.prems(1) by simp
  have p2: "distinct (map fst colls)" using Cons.prems(2) by simp
  have pm: "\<forall>n \<in> fst ` set colls. ?m n = None" using Cons.prems(3) c(6) by auto
  obtain bs1 m' where IH1: "snapshot_colls colls = Done bs1"
    "recover_colls (length colls) bs1 ?m = Done m'"
    and IH2: "\<forall>n. case map_of colls n of
          None \<Rightarrow> m' n = ?m n
        | Some coll \<Rightarrow> \<exists>coll'. m' n = Some coll' \<and> coll_docs coll' = coll_docs coll
              \<and> ac_sizes coll' = ac_sizes coll \<and> ac_count coll' = 0"
    using Cons.IH [OF p1 p2 pm] by blast
  have IH: "recover_colls (length colls) bs0 ?m = Done m'" using IH1 tail by simp
  let ?bs = "enc64 (usize name) @ name @ enc64 (usize (ac_sizes coll)) @ bs @ bs0"
  have "snapshot_colls (nc # colls) = Done ?bs"
    using nc r(1) tail by simp
  moreover have "recover_colls (length (nc # colls)) ?bs m = Done m'"
    using c(2,3,5) r(2) IH by (simp add: unat_usize Let_def)
  moreover have "m' name = Some coll'"
  proof -
    have "map_of colls name = None" using c(6) by (simp add: map_of_eq_None_iff)
    then show ?thesis using IH2 [rule_format, of name] by simp
  qed
  then have "case map_of (nc # colls) n of
          None \<Rightarrow> m' n = m n
        | Some coll \<Rightarrow> \<exists>coll'. m' n = Some coll' \<and> coll_docs coll' = coll_docs coll
              \<and> ac_sizes coll' = ac_sizes coll \<and> ac_count coll' = 0" for n
    using IH2 [rule_format, of n] nc r(3-5) by (cases "n = name") (auto split: option.splits)
  ultimately show ?case by blast
qed

end
