(* ===== verification/ArrayProperties.thy ===== *)
theory ArrayProperties
  imports DocProperties ArrayBackend
begin

text \<open>
  The properties of the array backend: its operations on the documents of a collection, seen as
  a map from identifiers to bytes, and the defects of its unpacked load and of its recovery.
\<close>

lemma grow_sizes [simp]: "ac_sizes (grow documents coll) = ac_sizes coll"
  by (simp add: grow_def)

lemma grown:
  assumes "coll_ok coll"
  shows "sound_below (length (ac_data coll)) (grow documents coll)"
    "ac_data (grow documents coll) = ac_data coll @ replicate (length documents) 0"
    "coll_docs (grow documents coll) = coll_docs coll"
  using grow_ok [OF assms] grow_docs [OF assms] by (simp_all add: grow_def)

section \<open>Storing, updating, erasing\<close>

text \<open>
  \<open>docStore\<close> appends the documents under the next identifiers and returns them; the other
  documents stay, and \<open>collSize\<close> counts the documents.
\<close>

lemma array_docStore_appends:
  assumes "ar_colls db name = Some coll" "coll_ok coll" "packs documents ds sizes"
    and "\<forall>d \<in> set ds. sized d" "length ds \<le> length ids" "n = length (ac_sizes coll)"
    and "n + length ds < 2 ^ 64" "length (ac_data coll) + length documents < 2 ^ 64"
  shows "\<exists>coll' db'. array_docStore name mode documents sizes ids db
      = Done (OK, map of_nat [n..<n + length ds] @ drop (length ds) ids, db')
    \<and> ar_colls db' = (ar_colls db)(name \<mapsto> coll') \<and> coll_ok coll'
    \<and> coll_docs coll' = (coll_docs coll)([n..<n + length ds] [\<mapsto>] ds)
    \<and> array_collSize mode name db' = (OK, Some (of_nat (card (dom (coll_docs coll')))))"
proof -
  obtain post where pk: "sizes = map usize ds" "fits documents" "documents = concat ds @ post"
    using assms(3) by (rule packsE)
  note g = grown [OF assms(2), of documents]
  have "\<exists>coll'. array_store_loop documents (map usize ds) 0 (of_nat n) (usize []) (usize (ac_data coll))
        (grow documents coll) ids
      = Done (coll', take 0 ids @ map of_nat [n..<n + length ds] @ drop (0 + length ds) ids)
    \<and> coll_ok coll' \<and> coll_docs coll' = (coll_docs (grow documents coll))([n..<n + length ds] [\<mapsto>] ds)
    \<and> length (ac_sizes coll') = n + length ds"
    using store_loop_law [OF _ pk(2) g(1,2), of "[]" ds post n 0 ids] pk assms(4-8)
    by simp
  then obtain coll' where "array_store_loop documents sizes 0 (usize (ac_sizes coll)) 0 (usize (ac_data coll))
        (grow documents coll) ids
      = Done (coll', map of_nat [n..<n + length ds] @ drop (length ds) ids)"
    "coll_ok coll'" "coll_docs coll' = (coll_docs coll)([n..<n + length ds] [\<mapsto>] ds)"
    using pk(1) assms(6) g(3) by (auto simp: usize_def)
  then show ?thesis
    using assms(1)
    by (auto simp: array_docStore_def array_collSize_def coll_ok_def sound_below_def dom_coll_docs)
qed

text \<open>
  \<open>docUpdate\<close> replaces the documents, or creates them, together with erased documents below
  them, when the mode has \<open>UPDATE_NEW\<close>; without it an identifier that was never given out is
  \<open>InvalidID\<close> and nothing changes.
\<close>

lemma array_docUpdate_replaces:
  assumes "ar_colls db name = Some coll" "coll_ok coll" "packs documents ds sizes" "length ids = length ds"
    and "\<forall>d \<in> set ds. sized d" "length (ac_data coll) + length documents < 2 ^ 64"
  shows "if has_mode mode YOKAN_MODE_UPDATE_NEW \<or> (\<forall>i \<in> set ids. unat i < length (ac_sizes coll))
    then \<exists>coll' db'. array_docUpdate name mode ids documents sizes db = Done (OK, db')
      \<and> ar_colls db' = (ar_colls db)(name \<mapsto> coll') \<and> coll_ok coll'
      \<and> coll_docs coll' = (coll_docs coll)(map unat ids [\<mapsto>] ds)
    else array_docUpdate name mode ids documents sizes db = Done (InvalidID, db)"
proof (cases "has_mode mode YOKAN_MODE_UPDATE_NEW \<or> (\<forall>i \<in> set ids. unat i < length (ac_sizes coll))")
  case False
  then show ?thesis using assms(1) by (auto simp: array_docUpdate_def not_less)
next
  case True
  obtain post where pk: "sizes = map usize ds" "fits documents" "documents = concat ds @ post"
    using assms(3) by (rule packsE)
  note g = grown [OF assms(2), of documents]
  obtain coll' where loop: "array_update_loop documents (zip ids (map usize ds)) (usize []) (usize (ac_data coll))
      (grow documents coll) = Done coll'"
    "coll_ok coll'" "coll_docs coll' = (coll_docs (grow documents coll))(map unat ids [\<mapsto>] ds)"
    using update_loop_law [OF assms(4) _ pk(2) g(1,2), of "[]" post] pk(3) assms(5,6) by auto
  moreover have "\<not> (\<not> has_mode mode YOKAN_MODE_UPDATE_NEW \<and> (\<exists>i \<in> set ids. length (ac_sizes coll) \<le> unat i))"
    using True by (auto simp: not_less [symmetric])
  ultimately have "array_docUpdate name mode ids documents sizes db
      = Done (OK, db\<lparr> ar_colls := (ar_colls db)(name \<mapsto> coll') \<rparr>)"
    using assms(1,4) pk(1) by (simp add: array_docUpdate_def)
  with loop(2,3) g(3) True show ?thesis by auto
qed

text \<open>\<open>docErase\<close> removes exactly the given documents; the identifiers are not given out again.\<close>

lemma array_docErase_removes:
  assumes "ar_colls db name = Some coll" "coll_ok coll"
  shows "\<exists>coll' db'. array_docErase name mode ids db = (OK, db')
    \<and> ar_colls db' = (ar_colls db)(name \<mapsto> coll') \<and> coll_ok coll'
    \<and> coll_docs coll' = coll_docs coll |` (- unat ` set ids)
    \<and> array_collLastID mode name db' = array_collLastID mode name db"
proof -
  have "length (ac_sizes (array_erase_loop ids coll)) = length (ac_sizes coll)"
    by (induction ids coll rule: array_erase_loop.induct) auto
  then show ?thesis
    using array_erase_loop_law [OF assms(2), of ids] assms(1)
    by (auto simp: array_docErase_def array_collLastID_def usize_def)
qed

section \<open>Loading\<close>

text \<open>
  A packed \<open>docLoad\<close> writes the documents one after the other; a missing one is marked
  \<open>KeyNotFound\<close>, and the first that does not fit ends the load: it and everything after it, also
  what does not exist, is marked \<open>SizeTooSmall\<close>.
\<close>

lemma array_docLoad_packed:
  assumes "ar_colls db name = Some coll" "coll_ok coll" "fits documents" "length sizes = length ids"
    and "array_pack (coll_docs coll) (length documents) ids = (ns, out)"
  shows "array_docLoad name mode True ids documents sizes db
    = Done (OK, out @ drop (length out) documents, ns)"
  using load_packed_law [OF assms(2), of "[]" documents ids] assms
  by (simp add: array_docLoad_def)

text \<open>
  An unpacked \<open>docLoad\<close> does not step over the slot of a document that is too large, so the
  next document lands in that slot and not in its own.
\<close>

lemma array_docLoad_shifts:
  assumes "ar_colls db name = Some coll" "coll_ok coll" "coll_docs coll (unat i) = Some big"
    and "coll_docs coll (unat j) = Some d" "sized big" "sized d"
    and "length slot1 < length big" "length slot2 = length d" "length slot1 \<ge> length d" "fits (slot1 @ slot2)"
  shows "array_docLoad name mode False [i, j] (slot1 @ slot2) [usize slot1, usize slot2] db
    = Done (OK, d @ drop (length d) slot1 @ slot2, [YOKAN_SIZE_TOO_SMALL, usize d])"
proof -
  have live: "unat i \<in> live coll" "unat j \<in> live coll"
    using assms(3,4) by (auto simp: coll_docs_def split: if_splits)
  obtain bi where bi: "coll_docs coll (unat i) = Some bi" "usize bi = ac_sizes coll ! unat i"
    using doc_bytes_docs [OF assms(2) live(1)] by blast
  obtain dj where dj: "doc_bytes coll j = Done dj" "coll_docs coll (unat j) = Some dj"
    "usize dj = ac_sizes coll ! unat j"
    using doc_bytes_docs [OF assms(2) live(2)] by blast
  have eq: "bi = big" "dj = d" using assms(3,4) bi(1) dj(2) by simp_all
  have f: "fits slot1" "fits slot2" "fits big" "fits d" using assms(5,6,10) by (auto intro: sized_fits)
  have "usize slot1 < usize big"
    using usize_le_iff [OF f(3,1)] assms(7) by (simp add: not_le [symmetric])
  moreover have "\<not> usize slot2 < usize d" using usize_le_iff [OF f(4,2)] assms(8) by (simp add: not_less)
  moreover have "memcpy_to (slot1 @ slot2) 0 d = Done (d @ drop (length d) slot1 @ slot2)"
  proof -
    obtain a b where ab: "slot1 = a @ b" "length d = length a"
      by (rule that [of "take (length d) slot1" "drop (length d) slot1"]) (use assms(9) in simp_all)
    have "fits ([] @ a @ b @ slot2)" using ab(1) assms(10) by simp
    from memcpy_to_append [OF this ab(2)] show ?thesis using ab by simp
  qed
  ultimately show ?thesis
    using live bi(2) dj(1,3) assms(1) by (simp add: array_docLoad_def missing_iff eq)
qed

section \<open>Migration\<close>

text \<open>
  C32: a database saved by \<open>startMigration\<close> and recovered has the same collections and documents,
  but recovery does not restore the counts: \<open>collSize\<close> answers 0 whatever the collection holds.
\<close>

theorem array_migration_roundtrip:
  assumes "\<not> ar_migrated db" "ar_colls db = map_of colls" "distinct (map fst colls)" "fits colls"
    and "\<forall>(name, coll) \<in> set colls. coll_ok coll \<and> fits name \<and> fits (ac_sizes coll)
      \<and> live_bytes (ac_sizes coll) < 2 ^ 64"
    and "tmpname = ''/tmp/'' @ f"
  shows "\<exists>h fs1 db' fs2. array_startMigration colls tmpname db fs = Done (OK, Some h, fs1)
    \<and> array_recover OK (mh_getRoot h) (mh_getFiles h) fs1 = Done (OK, Some db', fs2)
    \<and> dom (ar_colls db') = dom (ar_colls db)
    \<and> (\<forall>name coll. ar_colls db name = Some coll \<longrightarrow>
         (\<exists>coll'. ar_colls db' name = Some coll' \<and> coll_docs coll' = coll_docs coll
            \<and> ac_sizes coll' = ac_sizes coll)
         \<and> array_collSize mode name db' = (OK, Some 0))"
proof -
  have "\<forall>(name, coll) \<in> set colls. coll_ok coll \<and> fits name \<and> fits (ac_sizes coll)
      \<and> live_bytes (ac_sizes coll) < 18446744073709551616"
    using assms(5) by simp
  then obtain bs m where bs: "snapshot_colls colls = Done bs" "recover_colls (length colls) bs Map.empty = Done m"
    and m: "\<And>name. case map_of colls name of None \<Rightarrow> m name = None
        | Some coll \<Rightarrow> \<exists>coll'. m name = Some coll' \<and> coll_docs coll' = coll_docs coll
              \<and> ac_sizes coll' = ac_sizes coll \<and> ac_count coll' = 0"
    using recover_colls_law [OF _ assms(3), of Map.empty] by auto
  let ?h = "\<lparr> mh_filename = tmpname, mh_cancel = False \<rparr>"
  let ?fs1 = "fs(tmpname \<mapsto> enc64 (usize colls) @ bs)"
  let ?db' = "\<lparr> ar_colls = m, ar_migrated = False \<rparr>"
  have start: "array_startMigration colls tmpname db fs = Done (OK, Some ?h, ?fs1)"
    using assms(1) bs(1) by (simp add: array_startMigration_def array_snapshot_def)
  have load: "array_load_snapshot (enc64 (usize colls) @ bs) \<lparr> ar_colls = Map.empty, ar_migrated = False \<rparr>
      = Done (OK, ?db')"
    using bs(2) assms(4) by (simp add: array_load_snapshot_def unat_usize)
  have rec: "array_recover OK (mh_getRoot ?h) (mh_getFiles ?h) ?fs1 = Done (OK, Some ?db', ?fs1(''/tmp/'' @ f := None))"
    unfolding array_recover_def mh_getRoot_def mh_getFiles_def assms(6) mig_handle.select_convs
    using recover_db_file [where load = array_load_snapshot, OF _ load] assms(6) by simp
  have "m name = None \<longleftrightarrow> map_of colls name = None" for name
    using m [of name] by (auto split: option.splits)
  then have "dom (ar_colls ?db') = dom (ar_colls db)"
    unfolding assms(2) by (simp add: dom_def)
  moreover have "\<forall>name coll. ar_colls db name = Some coll \<longrightarrow>
      (\<exists>coll'. ar_colls ?db' name = Some coll' \<and> coll_docs coll' = coll_docs coll \<and> ac_sizes coll' = ac_sizes coll)
      \<and> array_collSize mode name ?db' = (OK, Some 0)"
  proof (intro allI impI)
    fix name coll assume "ar_colls db name = Some coll"
    then show "(\<exists>coll'. ar_colls ?db' name = Some coll' \<and> coll_docs coll' = coll_docs coll
          \<and> ac_sizes coll' = ac_sizes coll) \<and> array_collSize mode name ?db' = (OK, Some 0)"
      using m [of name] assms(2) by (auto simp: array_collSize_def)
  qed
  ultimately show ?thesis using start rec by blast
qed

theorem array_migration_roundtrip_witness:
  "\<exists>h fs1 db' fs2. array_startMigration [([97], \<lparr> ac_data = [5, 6, 7], ac_count = 2, ac_offsets = [0, 1],
          ac_sizes = [1, 2] \<rparr>)] ''/tmp/x'' \<lparr> ar_colls = [[97] \<mapsto> \<lparr> ac_data = [5, 6, 7], ac_count = 2,
          ac_offsets = [0, 1], ac_sizes = [1, 2] \<rparr>], ar_migrated = False \<rparr> Map.empty = Done (OK, Some h, fs1)
    \<and> array_recover OK (mh_getRoot h) (mh_getFiles h) fs1 = Done (OK, Some db', fs2)
    \<and> array_collSize 0 [97] db' = (OK, Some 0)"
proof -
  let ?coll = "\<lparr> ac_data = [5, 6, 7], ac_count = 2, ac_offsets = [0, 1], ac_sizes = [1, 2] \<rparr>"
  let ?db = "\<lparr> ar_colls = [[97] \<mapsto> ?coll], ar_migrated = False \<rparr>"
  have live: "live ?coll = {0, 1}"
    by (auto simp: live_def YOKAN_KEY_NOT_FOUND_def less_Suc_eq)
  have "live_bytes [1, 2] < 2 ^ 64" by (simp add: live_bytes_def YOKAN_KEY_NOT_FOUND_def)
  with live have all: "\<forall>(name, coll) \<in> set [([97], ?coll)]. coll_ok coll \<and> fits name \<and> fits (ac_sizes coll)
      \<and> live_bytes (ac_sizes coll) < 2 ^ 64"
    by (simp add: coll_ok_def sound_below_def)
  have "\<not> ar_migrated ?db" "ar_colls ?db = map_of [([97], ?coll)]" "distinct (map fst [([97 :: byte], ?coll)])"
    "fits [([97 :: byte], ?coll)]"
    by simp_all
  from array_migration_roundtrip [OF this all, of "''/tmp/x''" "''x''" Map.empty 0]
  obtain h fs1 db' fs2 where "array_startMigration [([97], ?coll)] ''/tmp/x'' ?db Map.empty = Done (OK, Some h, fs1)"
    "array_recover OK (mh_getRoot h) (mh_getFiles h) fs1 = Done (OK, Some db', fs2)"
    and count: "\<And>name coll. ar_colls ?db name = Some coll \<Longrightarrow> array_collSize 0 name db' = (OK, Some 0)"
    by auto
  moreover have "array_collSize 0 [97] db' = (OK, Some 0)" by (rule count [of _ ?coll]) simp
  ultimately show ?thesis by blast
qed

end
