(* ===== verification/LruCache.thy ===== *)
theory LruCache
  imports Prelude
begin

text \<open>
  The cache of open chunks of the log backend (\<open>LogDatabase::LRUCache\<close> in log.cpp): the list of
  its objects in the order of their last use, and the map from identifiers to nodes of the list.
  A node is named by its identifier, which is its first component.
\<close>

record 'a lru =
  lru_max :: size_t
  lru_list :: "(size_t \<times> 'a) list"
  lru_map :: "size_t list"

definition lru_init :: "size_t \<Rightarrow> 'a lru" where
  "lru_init n = \<lparr> lru_max = n, lru_list = [], lru_map = [] \<rparr>"

text \<open>\<open>splice(begin(), ..., it->second)\<close>: the node of \<open>id\<close> goes to the front, now with \<open>obj\<close>.\<close>

definition lru_front :: "size_t \<Rightarrow> 'a \<Rightarrow> (size_t \<times> 'a) list \<Rightarrow> (size_t \<times> 'a) list" where
  "lru_front i obj l = (i, obj) # filter (\<lambda>p. fst p \<noteq> i) l"

text \<open>\<open>m_access_list.back()\<close> of an empty list is undefined.\<close>

definition lru_evict :: "'a lru \<Rightarrow> 'a lru outcome" where
  "lru_evict c =
     (if usize (lru_map c) \<ge> lru_max c then
        (if lru_list c = [] then Undef
         else Done (c\<lparr> lru_map := filter (\<lambda>i. i \<noteq> fst (last (lru_list c))) (lru_map c),
                       lru_list := butlast (lru_list c) \<rparr>))
      else Done c)"

definition lru_put :: "'a \<Rightarrow> size_t \<Rightarrow> 'a lru \<Rightarrow> 'a lru outcome" where
  "lru_put obj i c =
     (if i \<in> set (lru_map c) then Done (c\<lparr> lru_list := lru_front i obj (lru_list c) \<rparr>)
      else obind (lru_evict c) (\<lambda>c1.
             Done (c1\<lparr> lru_list := (i, obj) # lru_list c1, lru_map := i # lru_map c1 \<rparr>)))"

text \<open>\<open>get\<close>: the object of \<open>id\<close>, made with \<open>mk\<close> (which acts on \<open>'s\<close>) when it is not cached.\<close>

definition lru_get :: "(size_t \<Rightarrow> 's \<Rightarrow> ('a \<times> 's) outcome) \<Rightarrow> size_t \<Rightarrow> 'a lru \<Rightarrow> 's
    \<Rightarrow> ('a \<times> 'a lru \<times> 's) outcome" where
  "lru_get mk i c s =
     (if i \<notin> set (lru_map c) then
        obind (mk i s) (\<lambda>(obj, s').
        obind (lru_put obj i c) (\<lambda>c'. Done (obj, c', s')))
      else
        (case map_of (lru_list c) i of
           None \<Rightarrow> Undef
         | Some obj \<Rightarrow> Done (obj, c\<lparr> lru_list := lru_front i obj (lru_list c) \<rparr>, s)))"

section \<open>Invariant\<close>

definition lru_ok :: "'a lru \<Rightarrow> bool" where
  "lru_ok c \<longleftrightarrow> distinct (map fst (lru_list c)) \<and> distinct (lru_map c)
     \<and> set (lru_map c) = fst ` set (lru_list c)
     \<and> length (lru_list c) \<le> unat (lru_max c) \<and> lru_max c \<noteq> 0"

lemma lru_ok_init: "n \<noteq> 0 \<Longrightarrow> lru_ok (lru_init n)"
  by (simp add: lru_ok_def lru_init_def)

lemma lru_ok_lengths: "lru_ok c \<Longrightarrow> length (lru_map c) = length (lru_list c)"
  by (metis distinct_card length_map list.set_map lru_ok_def)

lemma map_fst_front: "map fst (lru_front i obj l) = i # filter (\<lambda>j. j \<noteq> i) (map fst l)"
  by (simp add: lru_front_def filter_map o_def)

lemma lru_full:
  assumes "lru_ok c"
  shows "usize (lru_map c) \<ge> lru_max c \<longleftrightarrow> length (lru_list c) = unat (lru_max c)"
proof -
  have "length (lru_list c) \<le> unat (lru_max c)"
    using assms by (simp add: lru_ok_def)
  moreover from this have "unat (usize (lru_map c)) = length (lru_list c)"
    using unat_size_less [of "lru_max c"] by (simp add: lru_ok_lengths [OF assms] unat_usize)
  ultimately show ?thesis by (auto simp: word_le_nat_alt)
qed

lemma filter_last:
  assumes "distinct (map f l)" "l \<noteq> []"
  shows "butlast l = filter (\<lambda>p. f p \<noteq> f (last l)) l"
proof -
  obtain l' p where l: "l = l' @ [p]" using assms(2) rev_exhaust by blast
  then have "f p \<notin> f ` set l'" using assms(1) by simp
  then have "\<forall>q \<in> set l'. f q \<noteq> f p" by (metis imageI)
  then show ?thesis by (simp add: l filter_id_conv)
qed

lemma lru_evict_ok:
  assumes "lru_ok c"
  shows "\<exists>c1. lru_evict c = Done c1 \<and> lru_max c1 = lru_max c
    \<and> lru_list c1 = (if length (lru_list c) = unat (lru_max c) then butlast (lru_list c)
                     else lru_list c)
    \<and> distinct (lru_map c1) \<and> set (lru_map c1) = fst ` set (lru_list c1)"
proof (cases "length (lru_list c) = unat (lru_max c)")
  case False
  then show ?thesis using assms by (simp add: lru_evict_def lru_full) (simp add: lru_ok_def)
next
  case True
  then have ne: "lru_list c \<noteq> []"
    using assms by (auto simp: lru_ok_def unat_eq_0)
  have "butlast (lru_list c) = filter (\<lambda>p. fst p \<noteq> fst (last (lru_list c))) (lru_list c)"
    using assms ne by (intro filter_last) (auto simp: lru_ok_def)
  then show ?thesis
    using True ne assms by (auto simp: lru_evict_def lru_full [OF assms])
      (auto simp: lru_ok_def intro: rev_image_eqI)
qed

section \<open>A sequence of requests\<close>

fun lru_gets :: "(size_t \<Rightarrow> 's \<Rightarrow> ('a \<times> 's) outcome) \<Rightarrow> size_t list \<Rightarrow> 'a lru \<Rightarrow> 's
    \<Rightarrow> ('a lru \<times> 's) outcome" where
  "lru_gets mk [] c s = Done (c, s)"
| "lru_gets mk (i # is) c s = obind (lru_get mk i c s) (\<lambda>(obj, c', s'). lru_gets mk is c' s')"

text \<open>The identifiers requested, each once, the most recent one first.\<close>

definition recency :: "size_t list \<Rightarrow> size_t list" where
  "recency reqs = rev (remdups reqs)"

lemma recency_snoc: "recency (reqs @ [i]) = i # filter (\<lambda>j. j \<noteq> i) (recency reqs)"
proof -
  have "remdups (reqs @ [i]) = filter (\<lambda>j. j \<noteq> i) (remdups reqs) @ [i]"
    by (induction reqs) auto
  then show ?thesis by (simp add: recency_def rev_filter)
qed

lemma take_front:
  assumes "distinct xs" "n \<noteq> 0"
  shows "take n (i # filter (\<lambda>j. j \<noteq> i) (take n xs)) = take n (i # filter (\<lambda>j. j \<noteq> i) xs)"
proof -
  have "take m (filter (\<lambda>j. j \<noteq> i) (take (Suc m) xs)) = take m (filter (\<lambda>j. j \<noteq> i) xs)" for m
    using assms(1)
  proof (induction xs arbitrary: m)
    case (Cons x xs)
    show ?case
    proof (cases "x = i")
      case True
      then have "filter (\<lambda>j. j \<noteq> i) xs = xs" "filter (\<lambda>j. j \<noteq> i) (take m xs) = take m xs"
        using Cons.prems by (auto simp: filter_id_conv dest: in_set_takeD)
      then show ?thesis by (simp add: True)
    next
      case False
      then show ?thesis using Cons by (cases m) simp_all
    qed
  qed simp
  then show ?thesis using assms(2) by (cases n) simp_all
qed

section \<open>The contract of a cache\<close>

text \<open>
  \<open>mk\<close> builds an object that is good for its identifier as long as the state is admissible
  for it, and never spoils the objects built before.
\<close>

locale object_factory =
  fixes mk :: "size_t \<Rightarrow> 's \<Rightarrow> ('a \<times> 's) outcome"
    and admissible :: "size_t \<Rightarrow> 's \<Rightarrow> bool"
    and good :: "'s \<Rightarrow> size_t \<Rightarrow> 'a \<Rightarrow> bool"
  assumes make_law: "admissible i s \<Longrightarrow> \<exists>obj s'. mk i s = Done (obj, s') \<and> good s' i obj
    \<and> (\<forall>j ob. good s j ob \<longrightarrow> good s' j ob) \<and> (\<forall>j. admissible j s \<longrightarrow> admissible j s')"
begin

lemma get_law:
  assumes "lru_ok c" "admissible i s" "\<forall>(j, ob) \<in> set (lru_list c). good s j ob"
  shows "\<exists>obj c' s'. lru_get mk i c s = Done (obj, c', s') \<and> lru_ok c' \<and> good s' i obj
    \<and> (\<forall>(j, ob) \<in> set (lru_list c'). good s' j ob) \<and> lru_max c' = lru_max c
    \<and> (\<forall>j. admissible j s \<longrightarrow> admissible j s')
    \<and> map fst (lru_list c') = take (unat (lru_max c))
        (i # filter (\<lambda>j. j \<noteq> i) (map fst (lru_list c)))"
proof (cases "i \<in> set (lru_map c)")
  case True
  then have "i \<in> fst ` set (lru_list c)" using assms(1) by (simp add: lru_ok_def)
  then obtain obj where mem: "(i, obj) \<in> set (lru_list c)" by force
  then have look: "map_of (lru_list c) i = Some obj"
    using assms(1) by (simp add: lru_ok_def)
  let ?c = "c\<lparr> lru_list := lru_front i obj (lru_list c) \<rparr>"
  have "i \<in> set (map fst (lru_list c))" using mem by force
  then have "length (filter (\<lambda>j. j \<noteq> i) (map fst (lru_list c))) < length (lru_list c)"
    by (metis (mono_tags, lifting) length_filter_less length_map)
  then have len: "length (i # filter (\<lambda>j. j \<noteq> i) (map fst (lru_list c))) \<le> unat (lru_max c)"
    using assms(1) by (simp add: lru_ok_def)
  have "length (map fst (lru_front i obj (lru_list c))) \<le> unat (lru_max c)"
    unfolding map_fst_front by (rule len)
  moreover have "distinct (map fst (lru_front i obj (lru_list c)))"
    unfolding map_fst_front using assms(1) by (simp add: lru_ok_def)
  moreover have "fst ` set (lru_front i obj (lru_list c)) = fst ` set (lru_list c)"
    using mem by (force simp: lru_front_def)
  ultimately have ok: "lru_ok ?c"
    using assms(1) by (simp add: lru_ok_def)
  have "\<forall>(j, ob) \<in> set (lru_list ?c). good s j ob"
    using assms(3) mem by (auto simp: lru_front_def)
  moreover have "map fst (lru_list ?c) = take (unat (lru_max c))
      (i # filter (\<lambda>j. j \<noteq> i) (map fst (lru_list c)))"
    using len by (simp only: take_all) (simp add: map_fst_front)
  ultimately show ?thesis
    using ok True look assms(3) mem by (intro exI [of _ obj] exI [of _ ?c] exI [of _ s])
      (auto simp: lru_get_def)
next
  case False
  then have new: "i \<notin> set (map fst (lru_list c))" using assms(1) by (auto simp: lru_ok_def)
  obtain obj s' where made: "mk i s = Done (obj, s')" "good s' i obj"
    "\<forall>j ob. good s j ob \<longrightarrow> good s' j ob" "\<forall>j. admissible j s \<longrightarrow> admissible j s'"
    using make_law [OF assms(2)] by blast
  obtain c1 where c1: "lru_evict c = Done c1" "lru_max c1 = lru_max c"
    "lru_list c1 = (if length (lru_list c) = unat (lru_max c) then butlast (lru_list c)
                    else lru_list c)"
    "distinct (lru_map c1)" "set (lru_map c1) = fst ` set (lru_list c1)"
    using lru_evict_ok [OF assms(1)] by blast
  have sub: "set (lru_list c1) \<subseteq> set (lru_list c)"
    using c1(3) by (auto dest: in_set_butlastD)
  let ?n = "unat (lru_max c)"
  have n: "length (lru_list c) \<le> ?n" "?n \<noteq> 0"
    using assms(1) by (auto simp: lru_ok_def unat_eq_0)
  have list1: "lru_list c1 = take (?n - 1) (lru_list c)"
    using n c1(3) by (auto simp: butlast_conv_take)
  have same: "filter (\<lambda>j. j \<noteq> i) (map fst (lru_list c)) = map fst (lru_list c)"
    using new by (auto simp: filter_id_conv)
  let ?c = "c1\<lparr> lru_list := (i, obj) # lru_list c1, lru_map := i # lru_map c1 \<rparr>"
  have "lru_get mk i c s = Done (obj, ?c, s')"
    using False made(1) c1(1) by (simp add: lru_get_def lru_put_def)
  moreover have "lru_ok ?c"
    using assms(1) c1(2,4,5) sub new n list1
    by (auto simp: lru_ok_def take_map [symmetric] intro: distinct_take dest: in_set_takeD)
  moreover have "map fst (lru_list ?c)
      = take ?n (i # filter (\<lambda>j. j \<noteq> i) (map fst (lru_list c)))"
    using n by (cases ?n) (simp_all add: list1 same take_map)
  moreover have "\<forall>(j, ob) \<in> set (lru_list ?c). good s' j ob"
    using assms(3) made(2,3) sub by fastforce
  ultimately show ?thesis using made(2,4) c1(2) by auto
qed

lemma gets_recent:
  assumes "lru_ok c" "\<forall>i \<in> set reqs. admissible i s" "\<forall>(j, ob) \<in> set (lru_list c). good s j ob"
    and "map fst (lru_list c) = take (unat (lru_max c)) (recency before)"
  shows "\<exists>c' s'. lru_gets mk reqs c s = Done (c', s') \<and> lru_ok c'
    \<and> (\<forall>(j, ob) \<in> set (lru_list c'). good s' j ob)
    \<and> map fst (lru_list c') = take (unat (lru_max c)) (recency (before @ reqs))"
  using assms
proof (induction reqs arbitrary: before c s)
  case Nil
  then show ?case by simp
next
  case (Cons i reqs)
  let ?n = "unat (lru_max c)"
  obtain obj c1 s1 where c1: "lru_get mk i c s = Done (obj, c1, s1)" "lru_ok c1"
    "\<forall>(j, ob) \<in> set (lru_list c1). good s1 j ob" "lru_max c1 = lru_max c"
    "\<forall>j. admissible j s \<longrightarrow> admissible j s1"
    "map fst (lru_list c1) = take ?n (i # filter (\<lambda>j. j \<noteq> i) (map fst (lru_list c)))"
    using get_law [of c i s] Cons.prems by force
  have "?n \<noteq> 0" using Cons.prems(1) by (simp add: lru_ok_def unat_eq_0)
  then have "map fst (lru_list c1) = take ?n (recency (before @ [i]))"
    unfolding c1(6) Cons.prems(4) recency_snoc by (intro take_front) (simp_all add: recency_def)
  then show ?case
    using Cons.IH [of c1 s1 "before @ [i]"] c1 Cons.prems(2) by simp
qed

end

end
