(* ===== verification/MappedFile.thy ===== *)
theory MappedFile
  imports LruCache Backend
begin

text \<open>
  The memory-mapped files of the log backend (\<open>LogDatabase::MemoryMappedFile\<close> in log.cpp). The
  file system maps a path to the bytes of the file; a mapping is shared, so what is written
  through it is what the file holds, and a mapping opened later on the same path sees it. The
  system calls are taken to succeed, except \<open>mmap\<close> of no bytes, which the system refuses.
\<close>

type_synonym files = "bytes \<rightharpoonup> bytes"

record mapped =
  mf_name :: bytes
  mf_size :: size_t

definition zero_fill :: "nat \<Rightarrow> bytes \<Rightarrow> bytes" where
  "zero_fill n b = b @ replicate (n - length b) 0"

text \<open>The content of a file; a file that does not exist reads as empty.\<close>

definition file_of :: "files \<Rightarrow> bytes \<Rightarrow> bytes" where
  "file_of fs path = (case fs path of Some b \<Rightarrow> b | None \<Rightarrow> [])"

text \<open>\<open>openFile\<close>: create the file when it is missing, extend it with zeros up to \<open>m_size\<close>, map it.\<close>

definition mm_openFile :: "mapped \<Rightarrow> files \<Rightarrow> status \<times> files" where
  "mm_openFile f fs =
     (let b = file_of fs (mf_name f);
          b' = (if usize b < mf_size f then zero_fill (unat (mf_size f)) b else b) in
      (if mf_size f = 0 then IOError else OK, fs(mf_name f \<mapsto> b')))"

text \<open>The constructor throws the status; no caller catches it.\<close>

definition mm_new :: "bytes \<Rightarrow> size_t \<Rightarrow> files \<Rightarrow> (mapped \<times> files) outcome" where
  "mm_new name n fs =
     (let f = \<lparr> mf_name = name, mf_size = n \<rparr> in
      case mm_openFile f fs of (st, fs') \<Rightarrow> if st \<noteq> OK then Undef else Done (f, fs'))"

text \<open>
  The mapped bytes. Touching a page behind the end of the file, or a file that is gone, is left
  undefined.
\<close>

definition mm_data :: "mapped \<Rightarrow> files \<Rightarrow> bytes outcome" where
  "mm_data f fs = sub_bytes (file_of fs (mf_name f)) 0 (mf_size f)"

definition mm_flush :: "mapped \<Rightarrow> size_t \<Rightarrow> size_t \<Rightarrow> status" where
  "mm_flush f offset n = (if offset + n > mf_size f then SizeError else OK)"

text \<open>Loads and stores through \<open>m_data\<close>, which nothing checks but the bounds of the mapping.\<close>

definition mm_load :: "mapped \<Rightarrow> size_t \<Rightarrow> size_t \<Rightarrow> files \<Rightarrow> bytes outcome" where
  "mm_load f offset n fs = obind (mm_data f fs) (\<lambda>d. sub_bytes d offset n)"

definition mm_store :: "mapped \<Rightarrow> size_t \<Rightarrow> bytes \<Rightarrow> files \<Rightarrow> files outcome" where
  "mm_store f offset buffer fs =
     obind (mm_data f fs) (\<lambda>d. obind (memcpy_to d offset buffer) (\<lambda>d'.
       Done (fs(mf_name f \<mapsto> d' @ drop (length d) (file_of fs (mf_name f))))))"

text \<open>\<open>write\<close>: the source is read only once the bounds are checked.\<close>

definition mm_write :: "mapped \<Rightarrow> size_t \<Rightarrow> bytes outcome \<Rightarrow> size_t \<Rightarrow> bool \<Rightarrow> files
    \<Rightarrow> (status \<times> files) outcome" where
  "mm_write f offset buffer n do_flush fs =
     (if offset + n > mf_size f then Done (SizeError, fs)
      else obind buffer (\<lambda>x. obind (mm_store f offset x fs) (\<lambda>fs'.
             Done (if do_flush then mm_flush f offset n else OK, fs'))))"

text \<open>\<open>read\<close>: the bytes it copies to the caller's buffer, none unless the status is OK.\<close>

definition mm_read :: "mapped \<Rightarrow> size_t \<Rightarrow> size_t \<Rightarrow> files \<Rightarrow> (status \<times> bytes) outcome" where
  "mm_read f offset n fs =
     (if offset + n > mf_size f then Done (SizeError, [])
      else obind (mm_load f offset n fs) (\<lambda>x. Done (OK, x)))"

definition mm_fetch :: "mapped \<Rightarrow> size_t \<Rightarrow> size_t \<Rightarrow> (bytes \<Rightarrow> 'st \<Rightarrow> (status \<times> 'st) outcome) \<Rightarrow> 'st
    \<Rightarrow> files \<Rightarrow> (status \<times> 'st) outcome" where
  "mm_fetch f offset n func st fs =
     (if offset + n > mf_size f then Done (SizeError, st)
      else obind (mm_load f offset n fs) (\<lambda>x. func x st))"

definition mm_extend :: "mapped \<Rightarrow> size_t \<Rightarrow> files \<Rightarrow> status \<times> mapped \<times> files" where
  "mm_extend f new_size fs =
     (if new_size \<le> mf_size f then (OK, f, fs)
      else
        (let f' = f\<lparr> mf_size := new_size \<rparr> in
         case mm_openFile f' fs of (st, fs') \<Rightarrow> (st, f', fs')))"

section \<open>Slices of a file\<close>

definition extent :: "nat \<Rightarrow> nat \<Rightarrow> bytes \<Rightarrow> bytes" where
  "extent o1 n b = take n (drop o1 b)"

definition put_at :: "nat \<Rightarrow> bytes \<Rightarrow> bytes \<Rightarrow> bytes" where
  "put_at o1 x b = take o1 b @ x @ drop (o1 + length x) b"

lemma length_slice: "o1 + n \<le> length b \<Longrightarrow> length (extent o1 n b) = n"
  by (simp add: extent_def)

lemma length_put_at: "o1 + length x \<le> length b \<Longrightarrow> length (put_at o1 x b) = length b"
  by (simp add: put_at_def)

lemma slice_put_same: "o1 \<le> length b \<Longrightarrow> extent o1 (length x) (put_at o1 x b) = x"
  by (simp add: extent_def put_at_def)

lemma slice_put_before: "o2 + n \<le> o1 \<Longrightarrow> o1 \<le> length b \<Longrightarrow> extent o2 n (put_at o1 x b) = extent o2 n b"
  by (simp add: extent_def put_at_def take_drop)

lemma slice_put_after:
  assumes "o1 + length x \<le> o2" "o1 + length x \<le> length b"
  shows "extent o2 n (put_at o1 x b) = extent o2 n b"
proof -
  have "drop o2 (put_at o1 x b) = drop (o2 - (o1 + length x)) (drop (o1 + length x) b)"
    using assms by (simp add: put_at_def drop_append)
  then show ?thesis using assms(1) by (simp add: extent_def)
qed

lemma slice_zero_fill: "o1 + n \<le> length b \<Longrightarrow> extent o1 n (zero_fill m b) = extent o1 n b"
  by (simp add: extent_def zero_fill_def)

lemma length_zero_fill: "length (zero_fill n b) = max n (length b)"
  by (simp add: zero_fill_def)

section \<open>Laws\<close>

text \<open>A mapping is sound when the file is there and long enough.\<close>

definition mapped_ok :: "files \<Rightarrow> mapped \<Rightarrow> bool" where
  "mapped_ok fs f \<longleftrightarrow> fs (mf_name f) \<noteq> None
     \<and> unat (mf_size f) \<le> length (file_of fs (mf_name f)) \<and> mf_size f \<noteq> 0"

lemma file_of_upd [simp]: "file_of (fs(p \<mapsto> b)) q = (if q = p then b else file_of fs q)"
  by (simp add: file_of_def)

lemma mm_data_ok: "mapped_ok fs f \<Longrightarrow> mm_data f fs = Done (take (unat (mf_size f)) (file_of fs (mf_name f)))"
  by (simp add: mm_data_def sub_bytes_def mapped_ok_def)

lemma inside_word:
  assumes "unat off + n \<le> unat (m :: size_t)"
  shows "\<not> off + of_nat n > m" "unat (off + of_nat n) = unat off + n"
proof -
  have n: "unat (of_nat n :: size_t) = n"
    using assms unat_size_less [of m] by (simp add: unat_of_nat_size)
  show "unat (off + of_nat n) = unat off + n"
    using assms unat_size_less [of m] n by (simp add: unat_word_ariths)
  then show "\<not> off + of_nat n > m"
    using assms by (simp add: word_less_nat_alt)
qed

lemma mm_store_law:
  assumes "mapped_ok fs f" "unat off + length x \<le> unat (mf_size f)"
  shows "mm_store f off x fs
    = Done (fs(mf_name f \<mapsto> put_at (unat off) x (file_of fs (mf_name f))))"
proof -
  let ?b = "file_of fs (mf_name f)" and ?m = "unat (mf_size f)"
  have m: "?m \<le> length ?b" using assms(1) by (simp add: mapped_ok_def)
  have "take (unat off) (take ?m ?b) @ x @ drop (unat off + length x) (take ?m ?b) @ drop ?m ?b
      = put_at (unat off) x ?b"
  proof -
    have "drop (unat off + length x) (take ?m ?b) @ drop ?m ?b
        = drop (unat off + length x) (take ?m ?b @ drop ?m ?b)"
      using assms(2) m by (simp only: drop_append) simp
    then show ?thesis using assms(2) by (simp add: put_at_def min_absorb1)
  qed
  then show ?thesis
    using assms m by (simp add: mm_store_def mm_data_ok memcpy_to_def min_absorb2)
qed

lemma mm_write_law:
  assumes "mapped_ok fs f" "unat off + length x \<le> unat (mf_size f)" "n = usize x"
  shows "mm_write f off (Done x) n do_flush fs
    = Done (OK, fs(mf_name f \<mapsto> put_at (unat off) x (file_of fs (mf_name f))))"
  using mm_store_law [OF assms(1,2)] inside_word(1) [OF assms(2)] assms(3)
  by (simp add: mm_write_def mm_flush_def usize_def)

lemma mm_load_law:
  assumes "mapped_ok fs f" "unat off + unat n \<le> unat (mf_size f)"
  shows "mm_load f off n fs = Done (extent (unat off) (unat n) (file_of fs (mf_name f)))"
proof -
  have "take (unat n) (drop (unat off) (take (unat (mf_size f)) (file_of fs (mf_name f))))
      = extent (unat off) (unat n) (file_of fs (mf_name f))"
    using assms(2) by (simp add: extent_def drop_take min_def)
  then show ?thesis
    using assms by (simp add: mm_load_def mm_data_ok sub_bytes_def mapped_ok_def min_absorb2)
qed

lemma mm_read_law:
  assumes "mapped_ok fs f" "unat off + unat n \<le> unat (mf_size f)"
  shows "mm_read f off n fs = Done (OK, extent (unat off) (unat n) (file_of fs (mf_name f)))"
  using mm_load_law [OF assms] inside_word(1) [of off "unat n" "mf_size f"] assms(2)
  by (simp add: mm_read_def)

lemma mm_fetch_law:
  assumes "mapped_ok fs f" "unat off + unat n \<le> unat (mf_size f)"
  shows "mm_fetch f off n func st fs
    = func (extent (unat off) (unat n) (file_of fs (mf_name f))) st"
  using mm_load_law [OF assms] inside_word(1) [of off "unat n" "mf_size f"] assms(2)
  by (simp add: mm_fetch_def)

lemma mm_write_keeps:
  assumes "mapped_ok fs g" "unat off + length x \<le> length (file_of fs (mf_name f))"
  shows "mapped_ok (fs(mf_name f \<mapsto> put_at (unat off) x (file_of fs (mf_name f)))) g"
  using assms by (auto simp: mapped_ok_def length_put_at)

text \<open>A new mapping is sound, and leaves the files as they are up to zeros behind their end.\<close>

lemma mm_new_law:
  assumes "n \<noteq> 0" "fits (file_of fs p)"
  shows "mm_new p n fs = Done (\<lparr> mf_name = p, mf_size = n \<rparr>,
      fs(p \<mapsto> zero_fill (unat n) (file_of fs p)))"
proof -
  have "zero_fill (unat n) b = b" if "\<not> usize b < n" "fits b" for b
    using that by (simp add: zero_fill_def word_less_nat_alt unat_usize)
  then show ?thesis
    using assms by (simp add: mm_new_def mm_openFile_def Let_def)
qed

lemma mm_extend_law:
  assumes "mf_size f < n" "fits (file_of fs (mf_name f))"
  shows "mm_extend f n fs = (OK, f\<lparr> mf_size := n \<rparr>,
      fs(mf_name f \<mapsto> zero_fill (unat n) (file_of fs (mf_name f))))"
proof -
  have "zero_fill (unat n) b = b" if "\<not> usize b < n" "fits b" for b
    using that by (simp add: zero_fill_def word_less_nat_alt unat_usize)
  moreover have "n \<noteq> 0" "\<not> n \<le> mf_size f" using assms(1) by auto
  ultimately show ?thesis
    using assms by (simp add: mm_extend_def mm_openFile_def Let_def)
qed

end
