(* ===== verification/LogCollection.thy ===== *)
theory LogCollection
  imports MappedFile
begin

text \<open>
  A collection of the log backend (\<open>LogDatabase::Collection\<close> in log.cpp). The file \<open>name.meta\<close>
  holds a header and one entry per document; the documents lie in chunk files \<open>name.0\<close>,
  \<open>name.1\<close>, ..., appended to the last one, whose first eight bytes are the offset of its end.
  Header and entries are bytes of the file and are decoded where the code reads them.
\<close>

section \<open>Paths, entries and headers\<close>

text \<open>\<open>std::to_string\<close>.\<close>

fun digits :: "nat \<Rightarrow> bytes" where
  "digits n = (if n < 10 then [48 + of_nat n] else digits (n div 10) @ [48 + of_nat (n mod 10)])"

declare digits.simps [simp del]

definition chunk_path :: "bytes \<Rightarrow> bytes \<Rightarrow> size_t \<Rightarrow> bytes" where
  "chunk_path prefix name k = prefix @ [47] @ name @ [46] @ digits (unat k)"

text \<open>\<open>prefix/name.meta\<close>.\<close>

definition meta_path :: "bytes \<Rightarrow> bytes \<Rightarrow> bytes" where
  "meta_path prefix name = prefix @ [47] @ name @ [46, 109, 101, 116, 97]"

record log_entry =
  e_chunk :: size_t
  e_offset :: size_t
  e_size :: size_t
  e_alloc :: size_t

record log_header =
  h_size :: size_t
  h_next :: size_t
  h_last :: size_t
  h_chunk :: size_t

definition entry0 :: log_entry where
  "entry0 = \<lparr> e_chunk = 0, e_offset = 0, e_size = 0, e_alloc = 0 \<rparr>"

definition entry_bytes :: "log_entry \<Rightarrow> bytes" where
  "entry_bytes e = enc64 (e_chunk e) @ enc64 (e_offset e) @ enc64 (e_size e) @ enc64 (e_alloc e)"

definition bytes_entry :: "bytes \<Rightarrow> log_entry" where
  "bytes_entry b = \<lparr> e_chunk = dec64 (take 8 b), e_offset = dec64 (take 8 (drop 8 b)),
     e_size = dec64 (take 8 (drop 16 b)), e_alloc = dec64 (take 8 (drop 24 b)) \<rparr>"

definition header_bytes :: "log_header \<Rightarrow> bytes" where
  "header_bytes h = enc64 (h_size h) @ enc64 (h_next h) @ enc64 (h_last h) @ enc64 (h_chunk h)"

definition bytes_header :: "bytes \<Rightarrow> log_header" where
  "bytes_header b = \<lparr> h_size = dec64 (take 8 b), h_next = dec64 (take 8 (drop 8 b)),
     h_last = dec64 (take 8 (drop 16 b)), h_chunk = dec64 (take 8 (drop 24 b)) \<rparr>"

lemma entry_bytes_roundtrip [simp]: "bytes_entry (entry_bytes e) = e" "length (entry_bytes e) = 32"
  by (simp_all add: entry_bytes_def bytes_entry_def)

lemma header_bytes_roundtrip [simp]: "bytes_header (header_bytes h) = h"
    "length (header_bytes h) = 32"
  by (simp_all add: header_bytes_def bytes_header_def)

record log_coll =
  lc_name :: bytes
  lc_prefix :: bytes
  lc_chunk_size :: size_t
  lc_meta :: mapped
  lc_last :: "mapped option"
  lc_cache :: "mapped lru"

text \<open>\<open>m_header\<close> points to the start of the mapped metadata file.\<close>

definition log_header :: "log_coll \<Rightarrow> files \<Rightarrow> log_header outcome" where
  "log_header c fs = obind (mm_load (lc_meta c) 0 32 fs) (\<lambda>b. Done (bytes_header b))"

definition log_set_header :: "log_header \<Rightarrow> log_coll \<Rightarrow> files \<Rightarrow> files outcome" where
  "log_set_header h c fs = mm_store (lc_meta c) 0 (header_bytes h) fs"

definition entry_offset :: "size_t \<Rightarrow> size_t" where
  "entry_offset i = 32 + i * 32"

definition writeEntryMetadata :: "size_t \<Rightarrow> log_entry \<Rightarrow> bool \<Rightarrow> log_coll \<Rightarrow> files
    \<Rightarrow> (status \<times> log_coll \<times> files) outcome" where
  "writeEntryMetadata i e do_flush c fs =
     (let offset = entry_offset i;
          meta_size = mf_size (lc_meta c) in
      case (if offset + 32 > meta_size then mm_extend (lc_meta c) (2 * meta_size) fs
            else (OK, lc_meta c, fs)) of
        (st, meta', fs') \<Rightarrow>
          (let c' = c\<lparr> lc_meta := meta' \<rparr> in
           if st \<noteq> OK then Done (st, c', fs')
           else obind (mm_write meta' offset (Done (entry_bytes e)) 32 do_flush fs')
                  (\<lambda>(st, fs2). Done (st, c', fs2))))"

text \<open>When the entry cannot be read, the caller's variable keeps its initial zeros.\<close>

definition readEntryMetadata :: "size_t \<Rightarrow> log_coll \<Rightarrow> files \<Rightarrow> (status \<times> log_entry) outcome" where
  "readEntryMetadata i c fs =
     obind (mm_read (lc_meta c) (entry_offset i) 32 fs)
       (\<lambda>(st, b). Done (st, if st = OK then bytes_entry b else entry0))"

definition flushEntryMetadata :: "size_t \<Rightarrow> size_t \<Rightarrow> log_coll \<Rightarrow> status" where
  "flushEntryMetadata first_id n c = mm_flush (lc_meta c) (entry_offset first_id) (32 * n)"

text \<open>\<open>make_chunk\<close> and the two places that open the last chunk.\<close>

definition open_chunk :: "log_coll \<Rightarrow> size_t \<Rightarrow> size_t \<Rightarrow> files \<Rightarrow> (mapped \<times> files) outcome" where
  "open_chunk c n k fs = mm_new (chunk_path (lc_prefix c) (lc_name c) k) n fs"

text \<open>A null chunk is \<open>None\<close>.\<close>

definition getChunkFromID :: "size_t \<Rightarrow> log_coll \<Rightarrow> files
    \<Rightarrow> (mapped option \<times> log_coll \<times> files) outcome" where
  "getChunkFromID k c fs =
     obind (log_header c fs) (\<lambda>h.
       if k = h_last h then
         (case lc_last c of
            Some f \<Rightarrow> Done (Some f, c, fs)
          | None \<Rightarrow> obind (open_chunk c (h_chunk h) k fs) (\<lambda>(f, fs').
                      Done (Some f, c\<lparr> lc_last := Some f \<rparr>, fs')))
       else if k = h_last h + 1 then
         obind (open_chunk c (h_chunk h) k fs) (\<lambda>(f, fs1).
         obind (log_set_header (h\<lparr> h_last := h_last h + 1 \<rparr>) c fs1) (\<lambda>fs2.
           Done (Some f, c\<lparr> lc_last := Some f \<rparr>, fs2)))
       else if k < h_last h then
         obind (lru_get (open_chunk c (h_chunk h)) k (lc_cache c) fs) (\<lambda>(f, cache', fs').
           Done (Some f, c\<lparr> lc_cache := cache' \<rparr>, fs'))
       else Done (None, c, fs))"

section \<open>The constructor\<close>

definition log_open :: "bytes \<Rightarrow> bytes \<Rightarrow> size_t \<Rightarrow> size_t \<Rightarrow> files \<Rightarrow> (log_coll \<times> files) outcome" where
  "log_open name prefix chunk_size cache_size fs =
     obind (mm_new (meta_path prefix name) (8 * 8 * 4096) fs) (\<lambda>(meta, fs1).
       let c = \<lparr> lc_name = name, lc_prefix = prefix, lc_chunk_size = chunk_size, lc_meta = meta,
                 lc_last = None, lc_cache = lru_init cache_size \<rparr> in
       obind (log_header c fs1) (\<lambda>h0.
       obind (log_set_header (h0\<lparr> h_chunk := chunk_size \<rparr>) c fs1) (\<lambda>fs2.
       obind (getChunkFromID (h_last h0) c fs2) (\<lambda>(ch, c', fs3). Done (c', fs3)))))"

section \<open>Operations\<close>

definition log_erase :: "size_t \<Rightarrow> log_coll \<Rightarrow> files \<Rightarrow> (status \<times> log_coll \<times> files) outcome" where
  "log_erase i c fs =
     obind (log_header c fs) (\<lambda>h.
       if i \<ge> h_next h then Done (InvalidID, c, fs)
       else obind (readEntryMetadata i c fs) (\<lambda>(st, e).
         if st \<noteq> OK then Done (st, c, fs)
         else if e_size e = YOKAN_KEY_NOT_FOUND then Done (OK, c, fs)
         else obind (writeEntryMetadata i (e\<lparr> e_chunk := YOKAN_KEY_NOT_FOUND,
                       e_size := YOKAN_KEY_NOT_FOUND, e_offset := YOKAN_KEY_NOT_FOUND \<rparr>) True c fs)
           (\<lambda>(st, c', fs1).
             if st \<noteq> OK then Done (st, c', fs1)
             else obind (log_header c' fs1) (\<lambda>h1.
                  obind (log_set_header (h1\<lparr> h_size := h_size h1 - 1 \<rparr>) c' fs1) (\<lambda>fs2.
                    Done (OK, c', fs2))))))"

text \<open>Where the next document of this size goes: the end of the last chunk, or a new chunk.\<close>

definition log_room :: "size_t \<Rightarrow> size_t \<Rightarrow> log_coll \<Rightarrow> files
    \<Rightarrow> (size_t \<times> log_coll \<times> files) outcome" where
  "log_room n next_offset c fs =
     (if n > lc_chunk_size c - next_offset then
        obind (log_header c fs) (\<lambda>h.
        obind (getChunkFromID (h_last h + 1) c fs) (\<lambda>(ch, c', fs'). Done (8, c', fs')))
      else Done (next_offset, c, fs))"

text \<open>
  Writing one document to the last chunk: the bytes, the new end of the chunk, the entry.
  The flag tells which of the two failed writes the caller sees.
\<close>

definition log_write_doc :: "size_t \<Rightarrow> bytes outcome \<Rightarrow> size_t \<Rightarrow> size_t \<Rightarrow> bool \<Rightarrow> log_coll \<Rightarrow> files
    \<Rightarrow> (status \<times> bool \<times> log_coll \<times> files) outcome" where
  "log_write_doc i doc n next_offset do_flush c fs =
     (case lc_last c of
        None \<Rightarrow> Undef
      | Some f \<Rightarrow>
          obind (log_header c fs) (\<lambda>h.
          obind (mm_write f next_offset doc n False fs) (\<lambda>(st, fs1).
            if st \<noteq> OK then Done (st, False, c, fs1)
            else obind (mm_write f 0 (Done (enc64 (next_offset + n))) 8 False fs1) (\<lambda>(st, fs2).
              if st \<noteq> OK then Done (st, False, c, fs2)
              else obind (writeEntryMetadata i \<lparr> e_chunk = h_last h, e_offset = next_offset,
                            e_size = n, e_alloc = n \<rparr> do_flush c fs2)
                (\<lambda>(st, c', fs3). Done (st, True, c', fs3))))))"

text \<open>\<open>next_offset\<close> as the last chunk records it, and the status of the read.\<close>

definition log_next_offset :: "log_coll \<Rightarrow> files \<Rightarrow> (status \<times> size_t) outcome" where
  "log_next_offset c fs =
     (case lc_last c of
        None \<Rightarrow> Undef
      | Some f \<Rightarrow> obind (mm_read f 0 8 fs) (\<lambda>(st, b).
          Done (st, if dec64 b = 0 then 8 else dec64 b)))"

fun log_append_loop :: "bytes \<Rightarrow> size_t list \<Rightarrow> nat \<Rightarrow> size_t \<Rightarrow> size_t \<Rightarrow> size_t list \<Rightarrow> log_coll
    \<Rightarrow> files \<Rightarrow> (status \<times> size_t list \<times> log_coll \<times> files) outcome" where
  "log_append_loop data [] k next_offset doc_offset ids c fs = Done (OK, ids, c, fs)"
| "log_append_loop data (n # sizes) k next_offset doc_offset ids c fs =
     obind (log_header c fs) (\<lambda>h.
     obind (log_room n next_offset c fs) (\<lambda>(next_offset, c1, fs1).
     obind (log_write_doc (h_next h) (sub_bytes data doc_offset n) n next_offset False c1 fs1)
       (\<lambda>(st, entry_written, c2, fs2).
         if st \<noteq> OK then Done (st, ids[k := h_next h], c2, fs2)
         else obind (log_header c2 fs2) (\<lambda>h2.
              obind (log_set_header (h2\<lparr> h_next := h_next h2 + 1, h_size := h_size h2 + 1 \<rparr>)
                       c2 fs2) (\<lambda>fs3.
                log_append_loop data sizes (Suc k) (next_offset + n) (doc_offset + n)
                  (ids[k := h_next h]) c2 fs3)))))"

text \<open>The flushes at the end change nothing and their status is dropped.\<close>

definition log_append :: "bytes \<Rightarrow> size_t list \<Rightarrow> size_t list \<Rightarrow> log_coll \<Rightarrow> files
    \<Rightarrow> (status \<times> size_t list \<times> log_coll \<times> files) outcome" where
  "log_append data sizes ids c fs =
     (if length sizes < length ids then Undef
      else
        (let sizes = take (length ids) sizes in
         if \<exists>n \<in> set sizes. n > lc_chunk_size c then Done (SizeError, ids, c, fs)
         else obind (log_next_offset c fs) (\<lambda>(st, next_offset).
                if st \<noteq> OK then Done (st, ids, c, fs)
                else log_append_loop data sizes 0 next_offset 0 ids c fs)))"

text \<open>
  \<open>update\<close>, first part: identifiers up to the largest one of the call become entries of erased
  documents. \<open>n\<close> is their number; \<open>id <= max_id\<close> never fails when \<open>max_id\<close> is the largest
  identifier there is.
\<close>

primrec log_pad :: "nat \<Rightarrow> size_t \<Rightarrow> log_coll \<Rightarrow> files \<Rightarrow> (status \<times> log_coll \<times> files) outcome" where
  "log_pad 0 i c fs = Done (OK, c, fs)"
| "log_pad (Suc n) i c fs =
     obind (log_header c fs) (\<lambda>h.
     obind (writeEntryMetadata i \<lparr> e_chunk = h_last h, e_offset = YOKAN_KEY_NOT_FOUND,
              e_size = YOKAN_KEY_NOT_FOUND, e_alloc = 0 \<rparr> False c fs) (\<lambda>(st, c', fs1).
       if st \<noteq> OK then Done (st, c', fs1)
       else obind (log_header c' fs1) (\<lambda>h1.
            obind (log_set_header (h1\<lparr> h_next := h_next h1 + 1 \<rparr>) c' fs1) (\<lambda>fs2.
              log_pad n (i + 1) c' fs2))))"

definition log_pad_to :: "size_t \<Rightarrow> log_coll \<Rightarrow> files \<Rightarrow> (status \<times> log_coll \<times> files) outcome" where
  "log_pad_to max_id c fs =
     obind (log_header c fs) (\<lambda>h.
     obind (log_pad (Suc (unat max_id) - unat (h_next h)) (h_next h) c fs) (\<lambda>(st, c', fs').
       if st = OK \<and> max_id = - 1 then Hung else Done (st, c', fs')))"

text \<open>
  Second part: documents that fit the space of the document they replace are written in place.
  The entries read, and updated, are kept for the third part.
\<close>

fun log_update_inplace :: "bytes \<Rightarrow> (size_t \<times> size_t) list \<Rightarrow> size_t \<Rightarrow> log_coll \<Rightarrow> files
    \<Rightarrow> (status \<times> log_entry list \<times> log_coll \<times> files) outcome" where
  "log_update_inplace data [] doc_offset c fs = Done (OK, [], c, fs)"
| "log_update_inplace data ((i, n) # rest) doc_offset c fs =
     obind (readEntryMetadata i c fs) (\<lambda>(st, e).
       if st \<noteq> OK then Done (st, [], c, fs)
       else if n > e_alloc e then
         obind (log_update_inplace data rest (doc_offset + n) c fs) (\<lambda>(st, es, c', fs').
           Done (st, e # es, c', fs'))
       else
         obind (if n \<noteq> 0 then
                  obind (getChunkFromID (e_chunk e) c fs) (\<lambda>(ch, c1, fs1).
                    case ch of
                      None \<Rightarrow> Undef
                    | Some f \<Rightarrow>
                        obind (mm_write f (e_offset e) (sub_bytes data doc_offset n) n True fs1)
                          (\<lambda>(st, fs2). Done (st, c1, fs2)))
                else Done (OK, c, fs)) (\<lambda>(st, c1, fs1).
           if st \<noteq> OK then Done (st, [], c1, fs1)
           else
             obind (if e_size e \<noteq> n
                    then writeEntryMetadata i (e\<lparr> e_size := n \<rparr>) False c1 fs1
                    else Done (OK, c1, fs1)) (\<lambda>(st, c2, fs2).
               if st \<noteq> OK then Done (st, [], c2, fs2)
               else
                 obind (if e_size e = YOKAN_KEY_NOT_FOUND then
                          obind (log_header c2 fs2) (\<lambda>h.
                            log_set_header (h\<lparr> h_size := h_size h + 1 \<rparr>) c2 fs2)
                        else Done fs2) (\<lambda>fs3.
                 obind (log_update_inplace data rest (doc_offset + n) c2 fs3)
                   (\<lambda>(st, es, c', fs'). Done (st, e\<lparr> e_size := n \<rparr> # es, c', fs'))))))"

text \<open>
  Third part: the others are appended. A failed write of the document leaves the loop (the flag
  is \<open>False\<close>), a failed write of the entry leaves \<open>update\<close>.
\<close>

fun log_update_append :: "bytes \<Rightarrow> (size_t \<times> size_t \<times> log_entry) list \<Rightarrow> size_t \<Rightarrow> size_t
    \<Rightarrow> log_coll \<Rightarrow> files \<Rightarrow> (status \<times> bool \<times> log_coll \<times> files) outcome" where
  "log_update_append data [] next_offset doc_offset c fs = Done (OK, False, c, fs)"
| "log_update_append data ((i, n, e) # rest) next_offset doc_offset c fs =
     (if n \<le> e_alloc e then log_update_append data rest next_offset (doc_offset + n) c fs
      else
        obind (log_room n next_offset c fs) (\<lambda>(next_offset, c1, fs1).
        obind (log_write_doc i (sub_bytes data doc_offset n) n next_offset True c1 fs1)
          (\<lambda>(st, entry_written, c2, fs2).
            if st \<noteq> OK then Done (st, entry_written, c2, fs2)
            else
              obind (if e_size e = YOKAN_KEY_NOT_FOUND then
                       obind (log_header c2 fs2) (\<lambda>h.
                         log_set_header (h\<lparr> h_size := h_size h + 1 \<rparr>) c2 fs2)
                     else Done fs2) (\<lambda>fs3.
                log_update_append data rest (next_offset + n) (doc_offset + n) c2 fs3))))"

text \<open>
  \<open>ids[0]\<close> is read whatever the number of identifiers. The status of the third part is replaced
  by the one of the flush.
\<close>

definition log_update :: "size_t list \<Rightarrow> bytes \<Rightarrow> size_t list \<Rightarrow> log_coll \<Rightarrow> files
    \<Rightarrow> (status \<times> log_coll \<times> files) outcome" where
  "log_update ids data sizes c fs =
     (if length sizes < length ids then Undef
      else
        (let sizes = take (length ids) sizes in
         if \<exists>n \<in> set sizes. n > lc_chunk_size c then Done (SizeError, c, fs)
         else if ids = [] then Undef
         else
           (let min_id = Min (set ids); max_id = Max (set ids) in
            obind (log_pad_to max_id c fs) (\<lambda>(st, c1, fs1).
              if st \<noteq> OK then Done (st, c1, fs1)
              else obind (log_update_inplace data (zip ids sizes) 0 c1 fs1)
                (\<lambda>(st, entries, c2, fs2).
                  if st \<noteq> OK then Done (st, c2, fs2)
                  else obind (log_next_offset c2 fs2) (\<lambda>(st, next_offset).
                    if st \<noteq> OK then Done (st, c2, fs2)
                    else obind (log_update_append data (zip ids (zip sizes entries))
                                  next_offset 0 c2 fs2) (\<lambda>(st, returned, c3, fs3).
                      if returned then Done (st, c3, fs3)
                      else Done (flushEntryMetadata min_id (max_id - min_id + 1) c3, c3, fs3))))))))"

text \<open>\<open>read\<close>: the bytes it copies, with their size, when the status is OK.\<close>

definition log_read :: "size_t \<Rightarrow> size_t \<Rightarrow> log_coll \<Rightarrow> files
    \<Rightarrow> (status \<times> bytes \<times> log_coll \<times> files) outcome" where
  "log_read i buf_size c fs =
     obind (log_header c fs) (\<lambda>h.
       if i \<ge> h_next h then Done (InvalidID, [], c, fs)
       else obind (readEntryMetadata i c fs) (\<lambda>(st, e).
         if st \<noteq> OK then Done (st, [], c, fs)
         else if e_size e = YOKAN_KEY_NOT_FOUND then Done (NotFound, [], c, fs)
         else if buf_size < e_size e then Done (SizeError, [], c, fs)
         else obind (getChunkFromID (e_chunk e) c fs) (\<lambda>(ch, c1, fs1).
           case ch of
             None \<Rightarrow> Undef
           | Some f \<Rightarrow> obind (mm_read f (e_offset e) (e_size e) fs1)
               (\<lambda>(st, doc). Done (st, doc, c1, fs1)))))"

text \<open>\<open>fetch\<close>: a document that is not there is \<open>None\<close> for the callback.\<close>

definition log_fetch :: "size_t \<Rightarrow> (size_t \<Rightarrow> bytes option \<Rightarrow> 'st \<Rightarrow> (status \<times> 'st) outcome) \<Rightarrow> 'st
    \<Rightarrow> log_coll \<Rightarrow> files \<Rightarrow> (status \<times> 'st \<times> log_coll \<times> files) outcome" where
  "log_fetch i cb st0 c fs =
     obind (log_header c fs) (\<lambda>h.
       if i \<ge> h_next h
       then obind (cb i None st0) (\<lambda>(st, st1). Done (st, st1, c, fs))
       else obind (readEntryMetadata i c fs) (\<lambda>(st, e).
         if st = NotFound \<or> e_size e = YOKAN_KEY_NOT_FOUND
         then obind (cb i None st0) (\<lambda>(st, st1). Done (st, st1, c, fs))
         else obind (getChunkFromID (e_chunk e) c fs) (\<lambda>(ch, c1, fs1).
           case ch of
             None \<Rightarrow> Undef
           | Some f \<Rightarrow> obind (mm_fetch f (e_offset e) (e_size e) (\<lambda>doc. cb i (Some doc)) st0 fs1)
               (\<lambda>(st, st1). Done (st, st1, c1, fs1)))))"

definition log_entrySize :: "size_t \<Rightarrow> log_coll \<Rightarrow> files \<Rightarrow> (status \<times> size_t option) outcome" where
  "log_entrySize i c fs =
     obind (log_header c fs) (\<lambda>h.
       if i \<ge> h_next h then Done (NotFound, None)
       else obind (readEntryMetadata i c fs) (\<lambda>(st, e).
         if st \<noteq> OK then Done (st, None) else Done (st, Some (e_size e))))"

definition log_last_id :: "log_coll \<Rightarrow> files \<Rightarrow> size_t outcome" where
  "log_last_id c fs = obind (log_header c fs) (\<lambda>h. Done (h_next h - 1))"

definition log_size :: "log_coll \<Rightarrow> files \<Rightarrow> size_t outcome" where
  "log_size c fs = obind (log_header c fs) (\<lambda>h. Done (h_size h))"

end
