(* ===== verification/LogContract.thy ===== *)
theory LogContract
  imports LogCollection
begin

text \<open>
  What a log collection on disk stands for: a map from identifiers to documents. The invariant
  relates the bytes of the metadata file and of the chunks to it, and the operations of
  \<open>LogCollection\<close> are the corresponding updates of the map.
\<close>

section \<open>Paths are different\<close>

lemma digits_ne: "digits n \<noteq> []"
  by (subst digits.simps) simp

lemma digit_inject: "m < 10 \<Longrightarrow> n < 10 \<Longrightarrow> (of_nat m :: byte) = of_nat n \<longleftrightarrow> m = n"
  by (simp add: word_of_nat_eq_iff take_bit_nat_eq_self)

lemma digits_inject [simp]: "digits m = digits n \<longleftrightarrow> m = n"
proof
  show "digits m = digits n \<Longrightarrow> m = n"
  proof (induction m arbitrary: n rule: digits.induct)
    case (1 m)
    show ?case
    proof (cases "m < 10 \<or> n < 10")
      case True
      then show ?thesis
        using 1(2) by (subst (asm) (1 2) digits.simps)
          (auto simp: digit_inject digits_ne digits_ne [symmetric] split: if_splits)
    next
      case False
      then have "digits (m div 10) @ [48 + of_nat (m mod 10)]
          = digits (n div 10) @ [48 + of_nat (n mod 10)]"
        using 1(2) by (metis digits.simps)
      then have "m div 10 = n div 10" "m mod 10 = n mod 10"
        using 1(1) False by (simp_all add: digit_inject)
      then show ?thesis by (metis div_mult_mod_eq)
    qed
  qed
qed simp

lemma chunk_path_inject [simp]: "chunk_path p name k = chunk_path p name j \<longleftrightarrow> k = j"
  by (simp add: chunk_path_def word_unat_eq_iff)

lemma last_digits: "\<exists>m<10. last (digits n) = 48 + of_nat m"
  by (subst digits.simps) (auto intro: exI [of _ n] exI [of _ "n mod 10"])

lemma meta_not_chunk [simp]: "meta_path p name \<noteq> chunk_path p name k"
    "chunk_path p name k \<noteq> meta_path p name"
proof -
  obtain m where m: "m < 10" "last (digits (unat k)) = 48 + of_nat m"
    using last_digits by blast
  have "last (chunk_path p name k) = 48 + of_nat m"
    using m(2) digits_ne by (simp add: chunk_path_def)
  moreover have "(48 + of_nat m :: byte) \<noteq> 97"
  proof
    assume "(48 + of_nat m :: byte) = 97"
    then have "(of_nat m :: byte) = 97 - 48" by (metis add_diff_cancel_left')
    then have "unat (of_nat m :: byte) = unat (49 :: byte)" by simp
    then show False using m(1) by (simp add: unat_of_nat)
  qed
  moreover have "last (meta_path p name) = 97" by (simp add: meta_path_def)
  ultimately show "meta_path p name \<noteq> chunk_path p name k" by metis
  then show "chunk_path p name k \<noteq> meta_path p name" by simp
qed

section \<open>Views\<close>

abbreviation metaf :: "log_coll \<Rightarrow> files \<Rightarrow> bytes" where
  "metaf c fs \<equiv> file_of fs (mf_name (lc_meta c))"

definition hdr :: "log_coll \<Rightarrow> files \<Rightarrow> log_header" where
  "hdr c fs = bytes_header (extent 0 32 (metaf c fs))"

definition ent :: "log_coll \<Rightarrow> files \<Rightarrow> size_t \<Rightarrow> log_entry" where
  "ent c fs i = bytes_entry (extent (32 + 32 * unat i) 32 (metaf c fs))"

definition chunk_map :: "log_coll \<Rightarrow> size_t \<Rightarrow> mapped" where
  "chunk_map c k = \<lparr> mf_name = chunk_path (lc_prefix c) (lc_name c) k, mf_size = lc_chunk_size c \<rparr>"

abbreviation chunkf :: "log_coll \<Rightarrow> files \<Rightarrow> size_t \<Rightarrow> bytes" where
  "chunkf c fs k \<equiv> file_of fs (chunk_path (lc_prefix c) (lc_name c) k)"

text \<open>The end of a chunk as its first eight bytes record it.\<close>

definition chunk_end :: "log_coll \<Rightarrow> files \<Rightarrow> size_t \<Rightarrow> size_t" where
  "chunk_end c fs k = (let w = dec64 (extent 0 8 (chunkf c fs k)) in if w = 0 then 8 else w)"

definition live_ids :: "log_coll \<Rightarrow> files \<Rightarrow> size_t set" where
  "live_ids c fs = {i. i < h_next (hdr c fs) \<and> e_size (ent c fs i) \<noteq> YOKAN_KEY_NOT_FOUND}"

definition log_docs :: "log_coll \<Rightarrow> files \<Rightarrow> size_t \<rightharpoonup> bytes" where
  "log_docs c fs i =
     (if i \<in> live_ids c fs
      then (let e = ent c fs i in Some (extent (unat (e_offset e)) (unat (e_size e)) (chunkf c fs (e_chunk e))))
      else None)"

lemma dom_log_docs: "dom (log_docs c fs) = live_ids c fs"
  by (auto simp: log_docs_def Let_def split: if_splits)

section \<open>Invariant\<close>

text \<open>The files and mappings of a collection; \<open>h\<close> is its header.\<close>

definition files_ok :: "log_coll \<Rightarrow> files \<Rightarrow> bool" where
  "files_ok c fs \<longleftrightarrow> (\<forall>p. fits (file_of fs p))
     \<and> mf_name (lc_meta c) = meta_path (lc_prefix c) (lc_name c) \<and> mapped_ok fs (lc_meta c)
     \<and> 32 * (unat (h_next (hdr c fs)) + 1) \<le> unat (mf_size (lc_meta c))
     \<and> h_chunk (hdr c fs) = lc_chunk_size c \<and> 8 \<le> unat (lc_chunk_size c)
     \<and> lc_last c = Some (chunk_map c (h_last (hdr c fs))) \<and> h_last (hdr c fs) \<noteq> - 1
     \<and> (\<forall>k \<le> h_last (hdr c fs). mapped_ok fs (chunk_map c k))
     \<and> lru_ok (lc_cache c) \<and> (\<forall>(k, f) \<in> set (lru_list (lc_cache c)). f = chunk_map c k)"

text \<open>An entry whose document lies in a chunk, before \<open>limit\<close> when the chunk is the last one.\<close>

definition entry_ok :: "log_coll \<Rightarrow> size_t \<Rightarrow> nat \<Rightarrow> log_entry \<Rightarrow> bool" where
  "entry_ok c lst limit e \<longleftrightarrow> e_chunk e \<le> lst \<and> 8 \<le> unat (e_offset e)
     \<and> unat (e_offset e) + unat (e_alloc e) \<le> (if e_chunk e = lst then limit else unat (lc_chunk_size c))
     \<and> unat (e_size e) \<le> unat (e_alloc e)"

text \<open>\<open>limit\<close> is where the next document goes.\<close>

definition log_ok_at :: "nat \<Rightarrow> log_coll \<Rightarrow> files \<Rightarrow> bool" where
  "log_ok_at limit c fs \<longleftrightarrow> files_ok c fs \<and> 8 \<le> limit \<and> limit \<le> unat (lc_chunk_size c)
     \<and> (\<forall>i \<in> live_ids c fs. entry_ok c (h_last (hdr c fs)) limit (ent c fs i))
     \<and> h_size (hdr c fs) = of_nat (card (live_ids c fs))"

definition log_ok :: "log_coll \<Rightarrow> files \<Rightarrow> bool" where
  "log_ok c fs \<longleftrightarrow> log_ok_at (unat (chunk_end c fs (h_last (hdr c fs)))) c fs"

section \<open>Header and entries\<close>

lemma meta_room:
  assumes "files_ok c fs" "i \<le> h_next (hdr c fs)"
  shows "32 * (unat i + 1) \<le> unat (mf_size (lc_meta c))" "unat (entry_offset i) = 32 + 32 * unat i"
proof -
  show r: "32 * (unat i + 1) \<le> unat (mf_size (lc_meta c))"
    using assms by (simp add: files_ok_def word_le_nat_alt)
  then show "unat (entry_offset i) = 32 + 32 * unat i"
    using unat_size_less [of "mf_size (lc_meta c)"]
    by (simp add: entry_offset_def unat_word_ariths)
qed

lemma log_header_law: "files_ok c fs \<Longrightarrow> log_header c fs = Done (hdr c fs)"
  unfolding log_header_def hdr_def
  by (subst mm_load_law) (auto simp: files_ok_def)

lemma readEntry_law:
  assumes "files_ok c fs" "i < h_next (hdr c fs)"
  shows "readEntryMetadata i c fs = Done (OK, ent c fs i)"
proof -
  have "i + 1 \<le> h_next (hdr c fs)" using assms(2) by (simp add: inc_le)
  then have "32 + 32 * unat i + 32 \<le> unat (mf_size (lc_meta c))"
    using meta_room(1) [OF assms(1), of "i + 1"] assms(2) by (simp add: unat_plus_one)
  moreover have "unat (entry_offset i) = 32 + 32 * unat i"
    using assms(2) by (intro meta_room(2) [OF assms(1)]) simp
  ultimately show ?thesis
    using assms(1) unfolding readEntryMetadata_def
    by (subst mm_read_law) (auto simp: files_ok_def ent_def)
qed

text \<open>A new content of the metadata file that leaves everything else alone.\<close>

lemma log_set_header_law:
  assumes "files_ok c fs"
  shows "log_set_header h c fs
    = Done (fs(mf_name (lc_meta c) \<mapsto> put_at 0 (header_bytes h) (metaf c fs)))"
  using assms unfolding log_set_header_def
  by (subst mm_store_law) (auto simp: files_ok_def)

lemma fits_put_at: "o1 + length x \<le> length b \<Longrightarrow> fits b \<Longrightarrow> fits (put_at o1 x b)"
  by (simp add: length_put_at)

text \<open>The views after a change of the metadata file.\<close>

lemma chunk_map_meta [simp]: "chunk_map (c\<lparr> lc_meta := m \<rparr>) = chunk_map c"
    "chunk_map (c\<lparr> lc_cache := ca \<rparr>) = chunk_map c" "chunk_map (c\<lparr> lc_last := l \<rparr>) = chunk_map c"
  by (simp_all add: chunk_map_def fun_eq_iff)

lemma files_meta:
  assumes "files_ok c fs"
  shows "mapped_ok fs (lc_meta c)" "fits (metaf c fs)"
    "unat (mf_size (lc_meta c)) \<le> length (metaf c fs)" "mf_size (lc_meta c) \<noteq> 0"
    "mf_name (lc_meta c) = meta_path (lc_prefix c) (lc_name c)"
    "32 * (unat (h_next (hdr c fs)) + 1) \<le> unat (mf_size (lc_meta c))"
    "h_chunk (hdr c fs) = lc_chunk_size c"
  using assms unfolding files_ok_def mapped_ok_def by blast+

lemma meta_length:
  assumes "files_ok c fs"
  shows "32 * (unat (h_next (hdr c fs)) + 1) \<le> length (metaf c fs)"
  using files_meta(3,6) [OF assms] by linarith

lemma files_ok_meta_last:
  assumes "files_ok c fs" "mf_name m' = mf_name (lc_meta c)" "fits b'"
    and "unat (mf_size m') \<le> length b'" "mf_size m' \<noteq> 0"
    and "bytes_header (extent 0 32 b') = h'" "h_chunk h' = lc_chunk_size c"
    and "\<forall>k \<le> h_last h'. mapped_ok fs (chunk_map c k)" "h_last h' \<noteq> - 1"
    and "32 * (unat (h_next h') + 1) \<le> unat (mf_size m')"
  shows "files_ok (c\<lparr> lc_meta := m', lc_last := Some (chunk_map c (h_last h')) \<rparr>)
      (fs(mf_name (lc_meta c) \<mapsto> b'))"
    and "hdr (c\<lparr> lc_meta := m', lc_last := l \<rparr>) (fs(mf_name (lc_meta c) \<mapsto> b')) = h'"
    and "chunkf c (fs(mf_name (lc_meta c) \<mapsto> b')) = chunkf c fs"
proof -
  note name = files_meta(5) [OF assms(1)]
  show h: "hdr (c\<lparr> lc_meta := m', lc_last := l \<rparr>) (fs(mf_name (lc_meta c) \<mapsto> b')) = h'" for l
    using assms(2,6) by (simp add: hdr_def)
  have "mapped_ok (fs(mf_name (lc_meta c) \<mapsto> b')) (chunk_map c k)" if "mapped_ok fs (chunk_map c k)" for k
    using that name by (simp add: mapped_ok_def chunk_map_def)
  then show "files_ok (c\<lparr> lc_meta := m', lc_last := Some (chunk_map c (h_last h')) \<rparr>)
      (fs(mf_name (lc_meta c) \<mapsto> b'))"
    using assms(1-5,7-10) name unfolding files_ok_def h by (simp add: mapped_ok_def)
  show "chunkf c (fs(mf_name (lc_meta c) \<mapsto> b')) = chunkf c fs"
    by (simp add: name fun_eq_iff)
qed

lemma files_ok_meta:
  assumes "files_ok c fs" "mf_name m' = mf_name (lc_meta c)" "fits b'"
    and "unat (mf_size m') \<le> length b'" "mf_size m' \<noteq> 0"
    and "bytes_header (extent 0 32 b') = h'" "h_chunk h' = lc_chunk_size c"
    and "h_last h' = h_last (hdr c fs)" "32 * (unat (h_next h') + 1) \<le> unat (mf_size m')"
  shows "files_ok (c\<lparr> lc_meta := m' \<rparr>) (fs(mf_name (lc_meta c) \<mapsto> b'))"
    and "hdr (c\<lparr> lc_meta := m' \<rparr>) (fs(mf_name (lc_meta c) \<mapsto> b')) = h'"
    and "chunkf c (fs(mf_name (lc_meta c) \<mapsto> b')) = chunkf c fs"
proof -
  have last: "lc_last c = Some (chunk_map c (h_last h'))"
    "\<forall>k \<le> h_last h'. mapped_ok fs (chunk_map c k)" "h_last h' \<noteq> - 1"
    using assms(1,8) by (simp_all add: files_ok_def)
  have "c\<lparr> lc_meta := m', lc_last := Some (chunk_map c (h_last h')) \<rparr> = c\<lparr> lc_meta := m' \<rparr>"
    using last(1) by simp
  then show "files_ok (c\<lparr> lc_meta := m' \<rparr>) (fs(mf_name (lc_meta c) \<mapsto> b'))"
    "hdr (c\<lparr> lc_meta := m' \<rparr>) (fs(mf_name (lc_meta c) \<mapsto> b')) = h'"
    "chunkf c (fs(mf_name (lc_meta c) \<mapsto> b')) = chunkf c fs"
    using files_ok_meta_last [OF assms(1-7) last(2,3) assms(9)] by metis+
qed

lemma set_header_ok:
  assumes "files_ok c fs" "h_chunk h = lc_chunk_size c" "h_last h = h_last (hdr c fs)"
    and "32 * (unat (h_next h) + 1) \<le> unat (mf_size (lc_meta c))"
  shows "\<exists>fs'. log_set_header h c fs = Done fs' \<and> files_ok c fs' \<and> hdr c fs' = h
    \<and> ent c fs' = ent c fs \<and> chunkf c fs' = chunkf c fs"
proof -
  let ?b = "put_at 0 (header_bytes h) (metaf c fs)"
  have len: "32 \<le> length (metaf c fs)" using meta_length [OF assms(1)] by simp
  then have b: "extent 0 32 ?b = header_bytes h" "length ?b = length (metaf c fs)"
    using slice_put_same [of 0 "metaf c fs" "header_bytes h"] by (simp_all add: length_put_at)
  have m: "c\<lparr> lc_meta := lc_meta c \<rparr> = c" by simp
  have sz: "unat (mf_size (lc_meta c)) \<le> length (metaf c fs)" "mf_size (lc_meta c) \<noteq> 0"
    using files_meta [OF assms(1)] by simp_all
  have ok: "files_ok c (fs(mf_name (lc_meta c) \<mapsto> ?b))" "hdr c (fs(mf_name (lc_meta c) \<mapsto> ?b)) = h"
      "chunkf c (fs(mf_name (lc_meta c) \<mapsto> ?b)) = chunkf c fs"
    using files_ok_meta [OF assms(1), of "lc_meta c" ?b h] assms(2-4) b sz
      files_meta(2) [OF assms(1)] by (simp_all add: m)
  have "extent (32 + 32 * unat i) 32 ?b = extent (32 + 32 * unat i) 32 (metaf c fs)"
    for i :: size_t
    using len by (intro slice_put_after) simp_all
  then have "ent c (fs(mf_name (lc_meta c) \<mapsto> ?b)) = ent c fs"
    by (simp add: ent_def fun_eq_iff)
  then show ?thesis using ok log_set_header_law [OF assms(1)] by blast
qed

lemma write_entry_ok:
  assumes "files_ok c fs" "i \<le> h_next (hdr c fs)" "unat i < 2 ^ 50"
  shows "\<exists>m' fs'. writeEntryMetadata i e do_flush c fs = Done (OK, c\<lparr> lc_meta := m' \<rparr>, fs')
    \<and> files_ok (c\<lparr> lc_meta := m' \<rparr>) fs' \<and> hdr (c\<lparr> lc_meta := m' \<rparr>) fs' = hdr c fs
    \<and> ent (c\<lparr> lc_meta := m' \<rparr>) fs' i = e
    \<and> (\<forall>j < h_next (hdr c fs). j \<noteq> i \<longrightarrow> ent (c\<lparr> lc_meta := m' \<rparr>) fs' j = ent c fs j)
    \<and> 32 * (unat i + 2) \<le> unat (mf_size m') \<and> chunkf c fs' = chunkf c fs
    \<and> mf_size (lc_meta c) \<le> mf_size m'"
proof -
  let ?mf = "metaf c fs" and ?name = "mf_name (lc_meta c)" and ?m = "lc_meta c"
  have off: "unat (entry_offset i) = 32 + 32 * unat i" and room: "32 * (unat i + 1) \<le> unat (mf_size ?m)"
    using meta_room [OF assms(1,2)] by simp_all
  have off32: "unat (entry_offset i + 32) = 64 + 32 * unat i"
    using off assms(3) by (simp add: unat_word_ariths)
  have sz: "unat (mf_size ?m) \<le> length ?mf" "mf_size ?m \<noteq> 0" "fits ?mf" "mapped_ok fs ?m"
    using files_meta [OF assms(1)] by simp_all
  obtain m' b where grown: "(if entry_offset i + 32 > mf_size ?m then mm_extend ?m (2 * mf_size ?m) fs
        else (OK, ?m, fs)) = (OK, m', fs(?name \<mapsto> b))" "mf_name m' = ?name"
      "32 * (unat i + 2) \<le> unat (mf_size m')" "mf_size ?m \<le> mf_size m'"
      "unat (mf_size m') \<le> length b" "fits b" "length ?mf \<le> length b"
      "\<forall>o1 n. o1 + n \<le> length ?mf \<longrightarrow> extent o1 n b = extent o1 n ?mf"
  proof (cases "entry_offset i + 32 > mf_size ?m")
    case True
    then have small: "unat (mf_size ?m) < 64 + 32 * unat i"
      using off32 by (simp add: word_less_nat_alt)
    then have dbl: "unat (2 * mf_size ?m) = 2 * unat (mf_size ?m)"
      using assms(3) by (simp add: unat_word_ariths)
    then have "mf_size ?m < 2 * mf_size ?m"
      using sz(2) by (simp add: word_less_nat_alt unat_gt_0)
    then have "mm_extend ?m (2 * mf_size ?m) fs
        = (OK, ?m\<lparr> mf_size := 2 * mf_size ?m \<rparr>, fs(?name \<mapsto> zero_fill (unat (2 * mf_size ?m)) ?mf))"
      using sz(3) by (rule mm_extend_law)
    then show ?thesis
      using True room dbl sz(3) small \<open>mf_size ?m < 2 * mf_size ?m\<close> unat_size_less [of "2 * mf_size ?m"]
      by (intro that [of "?m\<lparr> mf_size := 2 * mf_size ?m \<rparr>" "zero_fill (unat (2 * mf_size ?m)) ?mf"])
        (simp_all add: length_zero_fill slice_zero_fill)
  next
    case False
    have "fs(?name \<mapsto> ?mf) = fs"
      using sz(4) by (auto simp: mapped_ok_def file_of_def)
    moreover have "64 + 32 * unat i \<le> unat (mf_size ?m)"
      using False off32 by (simp add: word_less_nat_alt)
    ultimately show ?thesis using False sz by (intro that [of ?m ?mf]) simp_all
  qed
  let ?c = "c\<lparr> lc_meta := m' \<rparr>" and ?fs1 = "fs(?name \<mapsto> b)"
  let ?b = "put_at (32 + 32 * unat i) (entry_bytes e) b"
  have m1: "mapped_ok ?fs1 m'"
    using grown(2,3,5) by (auto simp: mapped_ok_def unat_eq_0 [symmetric])
  have len: "32 + 32 * unat i + 32 \<le> length b" using grown(3,5) by simp
  have wr: "mm_write m' (entry_offset i) (Done (entry_bytes e)) 32 do_flush ?fs1
      = Done (OK, ?fs1(?name \<mapsto> ?b))"
    using mm_write_law [OF m1, of "entry_offset i" "entry_bytes e" 32 do_flush] grown(2,3) off
    by (simp add: usize_def)
  have fs2: "?fs1(?name \<mapsto> ?b) = fs(?name \<mapsto> ?b)" by simp
  have h: "bytes_header (extent 0 32 ?b) = hdr c fs"
  proof -
    have "extent 0 32 ?b = extent 0 32 b" using len by (intro slice_put_before) simp_all
    also have "\<dots> = extent 0 32 ?mf" using grown(8) meta_length [OF assms(1)] by simp
    finally show ?thesis by (simp add: hdr_def)
  qed
  have hn: "h_chunk (hdr c fs) = lc_chunk_size c"
      "32 * (unat (h_next (hdr c fs)) + 1) \<le> unat (mf_size m')"
    using files_meta(6,7) [OF assms(1)] grown(4) by (simp_all add: word_le_nat_alt)
  have ok: "files_ok ?c (fs(?name \<mapsto> ?b))" "hdr ?c (fs(?name \<mapsto> ?b)) = hdr c fs"
      "chunkf c (fs(?name \<mapsto> ?b)) = chunkf c fs"
    using files_ok_meta [OF assms(1) grown(2), of ?b "hdr c fs"] h hn len grown(5,6) m1
    by (simp_all add: length_put_at mapped_ok_def)
  have "ent ?c (fs(?name \<mapsto> ?b)) i = e"
    using slice_put_same [of "32 + 32 * unat i" b "entry_bytes e"] len grown(2)
    by (simp add: ent_def)
  moreover have "ent ?c (fs(?name \<mapsto> ?b)) j = ent c fs j" if "j < h_next (hdr c fs)" "j \<noteq> i" for j
  proof -
    have "extent (32 + 32 * unat j) 32 ?b = extent (32 + 32 * unat j) 32 b"
    proof (cases "unat j < unat i")
      case True
      then show ?thesis using len by (intro slice_put_before) simp_all
    next
      case False
      then have "unat i < unat j" using that(2) by (metis linorder_neqE_nat word_unat_eq_iff)
      then show ?thesis using len by (intro slice_put_after) simp_all
    qed
    also have "\<dots> = extent (32 + 32 * unat j) 32 ?mf"
    proof -
      have "unat j < unat (h_next (hdr c fs))" using that(1) by (simp add: word_less_nat_alt)
      then show ?thesis using grown(8) meta_length [OF assms(1)] by simp
    qed
    finally show ?thesis using grown(2) by (simp add: ent_def)
  qed
  moreover have "writeEntryMetadata i e do_flush c fs = Done (OK, ?c, fs(?name \<mapsto> ?b))"
    unfolding writeEntryMetadata_def Let_def grown(1) using wr fs2 by simp
  ultimately show ?thesis using ok grown(3,4) by blast
qed

section \<open>Chunks\<close>

lemma views_cache [simp]:
  "hdr (c\<lparr> lc_cache := ca \<rparr>) = hdr c" "ent (c\<lparr> lc_cache := ca \<rparr>) = ent c"
  "live_ids (c\<lparr> lc_cache := ca \<rparr>) = live_ids c" "log_docs (c\<lparr> lc_cache := ca \<rparr>) = log_docs c"
  "entry_ok (c\<lparr> lc_cache := ca \<rparr>) = entry_ok c" "chunk_end (c\<lparr> lc_cache := ca \<rparr>) = chunk_end c"
  by (simp_all add: fun_eq_iff hdr_def ent_def live_ids_def log_docs_def entry_ok_def chunk_end_def)

lemma views_last [simp]:
  "hdr (c\<lparr> lc_last := l \<rparr>) = hdr c" "ent (c\<lparr> lc_last := l \<rparr>) = ent c"
  "live_ids (c\<lparr> lc_last := l \<rparr>) = live_ids c" "log_docs (c\<lparr> lc_last := l \<rparr>) = log_docs c"
  "entry_ok (c\<lparr> lc_last := l \<rparr>) = entry_ok c" "chunk_end (c\<lparr> lc_last := l \<rparr>) = chunk_end c"
  by (simp_all add: fun_eq_iff hdr_def ent_def live_ids_def log_docs_def entry_ok_def chunk_end_def)

text \<open>The chunk cache: opening a chunk makes its mapping, whichever chunks are open.\<close>

interpretation chunks: object_factory "open_chunk c n"
    "\<lambda>k fs. n \<noteq> 0 \<and> (\<forall>p. fits (file_of fs p))"
    "\<lambda>fs k f. f = \<lparr> mf_name = chunk_path (lc_prefix c) (lc_name c) k, mf_size = n \<rparr> \<and> mapped_ok fs f"
proof unfold_locales
  fix k fs
  assume a: "n \<noteq> 0 \<and> (\<forall>p. fits (file_of fs p))"
  let ?p = "chunk_path (lc_prefix c) (lc_name c) k"
  let ?fs = "fs(?p \<mapsto> zero_fill (unat n) (file_of fs ?p))"
  have "open_chunk c n k fs = Done (\<lparr> mf_name = ?p, mf_size = n \<rparr>, ?fs)"
    using a by (simp add: open_chunk_def mm_new_law)
  moreover have "\<forall>p. fits (file_of ?fs p)"
    using a unat_size_less [of n] by (simp add: length_zero_fill)
  moreover have "mapped_ok ?fs f" if "mapped_ok fs f" for f
    using that by (auto simp: mapped_ok_def length_zero_fill)
  moreover have "mapped_ok ?fs \<lparr> mf_name = ?p, mf_size = n \<rparr>"
    using a by (simp add: mapped_ok_def length_zero_fill)
  ultimately show "\<exists>obj s'. open_chunk c n k fs = Done (obj, s')
      \<and> (obj = \<lparr> mf_name = ?p, mf_size = n \<rparr> \<and> mapped_ok s' obj)
      \<and> (\<forall>j ob. ob = \<lparr> mf_name = chunk_path (lc_prefix c) (lc_name c) j, mf_size = n \<rparr> \<and> mapped_ok fs ob
          \<longrightarrow> ob = \<lparr> mf_name = chunk_path (lc_prefix c) (lc_name c) j, mf_size = n \<rparr> \<and> mapped_ok s' ob)
      \<and> (\<forall>j. n \<noteq> 0 \<and> (\<forall>p. fits (file_of fs p)) \<longrightarrow> n \<noteq> 0 \<and> (\<forall>p. fits (file_of s' p)))"
    using a by blast
qed

text \<open>Opening a chunk that is already on disk changes no file.\<close>

lemma open_chunk_again:
  assumes "mapped_ok fs (chunk_map c k)" "\<forall>p. fits (file_of fs p)"
  shows "open_chunk c (lc_chunk_size c) k fs = Done (chunk_map c k, fs)"
proof -
  have "zero_fill (unat (lc_chunk_size c)) (chunkf c fs k) = chunkf c fs k"
    "fs (chunk_path (lc_prefix c) (lc_name c) k) \<noteq> None" "lc_chunk_size c \<noteq> 0"
    using assms(1) by (simp_all add: mapped_ok_def chunk_map_def zero_fill_def)
  moreover from this have "fs(chunk_path (lc_prefix c) (lc_name c) k \<mapsto> chunkf c fs k) = fs"
    by (auto simp: file_of_def)
  ultimately show ?thesis
    using assms(2) by (simp add: open_chunk_def mm_new_law chunk_map_def)
qed

interpretation known_chunks: object_factory "open_chunk c (lc_chunk_size c)"
    "\<lambda>k fs. fs = fs0 \<and> mapped_ok fs0 (chunk_map c k) \<and> (\<forall>p. fits (file_of fs0 p))"
    "\<lambda>fs k f. fs = fs0 \<and> f = chunk_map c k"
  by unfold_locales (auto simp: open_chunk_again)

lemma next_above:
  assumes "(j :: size_t) \<le> m" "m \<noteq> - 1"
  shows "j < m + 1"
proof -
  have "unat m \<noteq> unat (- 1 :: size_t)" using assms(2) by (metis word_unat_eq_iff)
  then have "unat m < 18446744073709551615"
    using unat_size_less [of m] by (simp add: unat_minus_one)
  then have "unat (m + 1) = unat m + 1" by (simp add: unat_word_ariths)
  then show ?thesis using assms(1) by (simp add: word_le_nat_alt word_less_nat_alt)
qed

lemma not_above: "(j :: size_t) \<le> m + 1 \<Longrightarrow> j \<noteq> m + 1 \<Longrightarrow> j \<le> m"
  by (metis inc_le le_less_linear order_antisym)

lemma get_chunk_ok:
  assumes "files_ok c fs" "k \<le> h_last (hdr c fs)"
  shows "\<exists>ca. getChunkFromID k c fs = Done (Some (chunk_map c k), c\<lparr> lc_cache := ca \<rparr>, fs)
    \<and> files_ok (c\<lparr> lc_cache := ca \<rparr>) fs"
proof (cases "k = h_last (hdr c fs)")
  case True
  have "c\<lparr> lc_cache := lc_cache c \<rparr> = c" by simp
  moreover have "getChunkFromID k c fs = Done (Some (chunk_map c k), c, fs)"
    using assms(1) True by (simp add: getChunkFromID_def log_header_law files_ok_def)
  ultimately show ?thesis using assms(1) by metis
next
  case False
  then have less: "k < h_last (hdr c fs)" using assms(2) by simp
  have "h_last (hdr c fs) \<noteq> - 1" using assms(1) by (simp add: files_ok_def)
  then have ne: "k \<noteq> h_last (hdr c fs) + 1"
    using next_above [OF assms(2)] by blast
  have c: "lru_ok (lc_cache c)" "\<forall>(j, f) \<in> set (lru_list (lc_cache c)). fs = fs \<and> f = chunk_map c j"
    "mapped_ok fs (chunk_map c k)" "\<forall>p. fits (file_of fs p)"
    using assms by (simp_all add: files_ok_def)
  obtain f ca fs' where g: "lru_get (open_chunk c (lc_chunk_size c)) k (lc_cache c) fs = Done (f, ca, fs')"
    "lru_ok ca" "fs' = fs \<and> f = chunk_map c k" "\<forall>(j, f) \<in> set (lru_list ca). fs' = fs \<and> f = chunk_map c j"
    using known_chunks.get_law [OF c(1), where i = k and s = fs and ?fs0.0 = fs and ca = c] c(2-4)
    by blast
  have "getChunkFromID k c fs = Done (Some (chunk_map c k), c\<lparr> lc_cache := ca \<rparr>, fs)"
    using less False ne g(1,3) files_meta(7) [OF assms(1)]
    by (simp add: getChunkFromID_def log_header_law [OF assms(1)])
  moreover have "files_ok (c\<lparr> lc_cache := ca \<rparr>) fs"
    using assms(1) g(2,4) by (auto simp: files_ok_def)
  ultimately show ?thesis by blast
qed

lemma new_chunk_ok:
  assumes "files_ok c fs" "h_last (hdr c fs) + 1 \<noteq> - 1"
  defines "k \<equiv> h_last (hdr c fs) + 1"
  shows "\<exists>fs'. getChunkFromID k c fs
      = Done (Some (chunk_map c k), c\<lparr> lc_last := Some (chunk_map c k) \<rparr>, fs')
    \<and> files_ok (c\<lparr> lc_last := Some (chunk_map c k) \<rparr>) fs'
    \<and> hdr c fs' = (hdr c fs)\<lparr> h_last := k \<rparr> \<and> ent c fs' = ent c fs
    \<and> (\<forall>j \<le> h_last (hdr c fs). chunkf c fs' j = chunkf c fs j)"
proof -
  let ?p = "chunk_path (lc_prefix c) (lc_name c) k" and ?n = "lc_chunk_size c" and ?h = "hdr c fs"
  let ?fs1 = "fs(?p \<mapsto> zero_fill (unat ?n) (file_of fs ?p))" and ?h' = "?h\<lparr> h_last := k \<rparr>"
  have gt: "j \<noteq> k" if "j \<le> h_last ?h" for j
    using next_above [OF that] assms(1) unfolding k_def by (auto simp: files_ok_def)
  have name: "?p \<noteq> mf_name (lc_meta c)"
    using files_meta(5) [OF assms(1)] by simp
  have n0: "?n \<noteq> 0" "\<forall>p. fits (file_of fs p)" using assms(1) by (auto simp: files_ok_def)
  have open1: "open_chunk c ?n k fs = Done (chunk_map c k, ?fs1)"
    using n0 by (simp add: open_chunk_def mm_new_law chunk_map_def)
  have same: "hdr c ?fs1 = ?h" "ent c ?fs1 = ent c fs"
    using name by (simp_all add: hdr_def ent_def fun_eq_iff)
  have maps: "\<forall>j \<le> h_last ?h'. mapped_ok ?fs1 (chunk_map c j)"
  proof (intro allI impI)
    fix j assume j: "j \<le> h_last ?h'"
    show "mapped_ok ?fs1 (chunk_map c j)"
    proof (cases "j = k")
      case True
      then show ?thesis using n0 by (simp add: mapped_ok_def chunk_map_def length_zero_fill)
    next
      case False
      then have "j \<le> h_last ?h" using j not_above unfolding k_def by simp
      then show ?thesis
        using assms(1) False by (simp add: files_ok_def mapped_ok_def chunk_map_def)
    qed
  qed
  have ok1: "files_ok c ?fs1"
  proof -
    have "mapped_ok ?fs1 (lc_meta c)" using files_meta(1) [OF assms(1)] name by (simp add: mapped_ok_def)
    moreover have "\<forall>j \<le> h_last ?h. mapped_ok ?fs1 (chunk_map c j)"
      using assms(1) gt by (simp add: files_ok_def mapped_ok_def chunk_map_def)
    moreover have "\<forall>p. fits (file_of ?fs1 p)"
      using n0 unat_size_less [of ?n] by (simp add: length_zero_fill)
    ultimately show ?thesis using assms(1) unfolding files_ok_def same by blast
  qed
  let ?b = "put_at 0 (header_bytes ?h') (metaf c ?fs1)" and ?fs2 = "?fs1(mf_name (lc_meta c) \<mapsto> put_at 0 (header_bytes ?h') (metaf c ?fs1))"
  have len: "32 \<le> length (metaf c ?fs1)" using meta_length [OF ok1] by simp
  then have b: "extent 0 32 ?b = header_bytes ?h'" "length ?b = length (metaf c ?fs1)"
    using slice_put_same [of 0 "metaf c ?fs1" "header_bytes ?h'"] by (simp_all add: length_put_at)
  have next1: "32 * (unat (h_next ?h') + 1) \<le> unat (mf_size (lc_meta c))" "h_chunk ?h' = ?n"
    using files_meta(6,7) [OF assms(1)] by simp_all
  have "h_last ?h' \<noteq> - 1" using assms(2) by (simp add: k_def)
  note upd = files_ok_meta_last [OF ok1 refl _ _ _ _ next1(2) maps this next1(1), of ?b]
  have m: "c\<lparr> lc_meta := lc_meta c, lc_last := l \<rparr> = c\<lparr> lc_last := l \<rparr>" for l by simp
  have ok2: "files_ok (c\<lparr> lc_last := Some (chunk_map c k) \<rparr>) ?fs2" "hdr c ?fs2 = ?h'"
    "chunkf c ?fs2 = chunkf c ?fs1"
    using upd files_meta(2-4) [OF ok1] b by (simp_all add: m)
  have "extent (32 + 32 * unat i) 32 ?b = extent (32 + 32 * unat i) 32 (metaf c ?fs1)" for i :: size_t
    using len by (intro slice_put_after) simp_all
  then have ents: "ent c ?fs2 = ent c fs"
    using same(2) by (simp add: ent_def fun_eq_iff)
  have "getChunkFromID k c fs
      = Done (Some (chunk_map c k), c\<lparr> lc_last := Some (chunk_map c k) \<rparr>, ?fs2)"
    using gt [of "h_last ?h"] open1 log_set_header_law [OF ok1, of ?h'] next1(2)
    by (simp add: getChunkFromID_def log_header_law [OF assms(1)] k_def)
  moreover have "\<forall>j \<le> h_last ?h. chunkf c ?fs2 j = chunkf c fs j"
    using ok2(3) gt by (simp add: fun_eq_iff)
  ultimately show ?thesis using ok2 ents by blast
qed

section \<open>Writing a document\<close>

text \<open>The bytes of a chunk may change as long as their number does not.\<close>

lemma files_ok_chunk:
  assumes "files_ok c fs" "length b = length (chunkf c fs k)" "fs (chunk_path (lc_prefix c) (lc_name c) k) \<noteq> None"
  shows "files_ok c (fs(chunk_path (lc_prefix c) (lc_name c) k \<mapsto> b))"
    and "hdr c (fs(chunk_path (lc_prefix c) (lc_name c) k \<mapsto> b)) = hdr c fs"
    and "ent c (fs(chunk_path (lc_prefix c) (lc_name c) k \<mapsto> b)) = ent c fs"
proof -
  let ?fs = "fs(chunk_path (lc_prefix c) (lc_name c) k \<mapsto> b)"
  note name = files_meta(5) [OF assms(1)]
  show h: "hdr c ?fs = hdr c fs" "ent c ?fs = ent c fs"
    by (simp_all add: hdr_def ent_def fun_eq_iff name)
  have "mapped_ok ?fs f" if "mapped_ok fs f" for f
    using that assms(2) by (auto simp: mapped_ok_def)
  moreover have "\<forall>p. fits (file_of ?fs p)"
    using assms(1,2) by (simp add: files_ok_def)
  ultimately show "files_ok c ?fs"
    using assms(1) unfolding files_ok_def h by blast
qed

lemma last_chunk:
  assumes "files_ok c fs"
  shows "mapped_ok fs (chunk_map c (h_last (hdr c fs)))" "lc_last c = Some (chunk_map c (h_last (hdr c fs)))"
    "unat (lc_chunk_size c) \<le> length (chunkf c fs (h_last (hdr c fs)))"
    "fs (chunk_path (lc_prefix c) (lc_name c) (h_last (hdr c fs))) \<noteq> None"
  using assms by (auto simp: files_ok_def mapped_ok_def chunk_map_def)

text \<open>Bytes written to the last chunk: first the document, then the new end.\<close>

lemma write_last_ok:
  assumes "files_ok c fs" "unat off + length x \<le> unat (lc_chunk_size c)" "n = usize x"
  defines "l \<equiv> h_last (hdr c fs)"
  shows "\<exists>fs'. mm_write (chunk_map c l) off (Done x) n fl fs = Done (OK, fs')
    \<and> files_ok c fs' \<and> hdr c fs' = hdr c fs \<and> ent c fs' = ent c fs
    \<and> (\<forall>k. k \<noteq> l \<longrightarrow> chunkf c fs' k = chunkf c fs k)
    \<and> chunkf c fs' l = put_at (unat off) x (chunkf c fs l)"
proof -
  let ?p = "chunk_path (lc_prefix c) (lc_name c) l"
  note l = last_chunk [OF assms(1), folded l_def]
  have "length (put_at (unat off) x (chunkf c fs l)) = length (chunkf c fs l)"
    using assms(2) l(3) by (simp add: length_put_at)
  note ok = files_ok_chunk [OF assms(1) this l(4)]
  have "mm_write (chunk_map c l) off (Done x) n fl fs
      = Done (OK, fs(?p \<mapsto> put_at (unat off) x (chunkf c fs l)))"
    using mm_write_law [OF l(1), of off x n fl] assms(2,3) by (simp add: chunk_map_def)
  then show ?thesis
    using ok by (intro exI [of _ "fs(?p \<mapsto> put_at (unat off) x (chunkf c fs l))"]) simp
qed

lemma log_write_doc_ok:
  assumes "files_ok c fs" "8 \<le> unat off" "unat off + length x \<le> unat (lc_chunk_size c)" "n = usize x"
    and "i \<le> h_next (hdr c fs)" "unat i < 2 ^ 50"
  defines "l \<equiv> h_last (hdr c fs)"
  shows "\<exists>m' fs'. log_write_doc i (Done x) n off fl c fs = Done (OK, True, c\<lparr> lc_meta := m' \<rparr>, fs')
    \<and> files_ok (c\<lparr> lc_meta := m' \<rparr>) fs' \<and> hdr (c\<lparr> lc_meta := m' \<rparr>) fs' = hdr c fs
    \<and> ent (c\<lparr> lc_meta := m' \<rparr>) fs' i = \<lparr> e_chunk = l, e_offset = off, e_size = n, e_alloc = n \<rparr>
    \<and> (\<forall>j < h_next (hdr c fs). j \<noteq> i \<longrightarrow> ent (c\<lparr> lc_meta := m' \<rparr>) fs' j = ent c fs j)
    \<and> 32 * (unat i + 2) \<le> unat (mf_size m') \<and> mf_size (lc_meta c) \<le> mf_size m'
    \<and> (\<forall>k. k \<noteq> l \<longrightarrow> chunkf c fs' k = chunkf c fs k)
    \<and> (\<forall>o1 n1. 8 \<le> o1 \<and> o1 + n1 \<le> unat off
        \<longrightarrow> extent o1 n1 (chunkf c fs' l) = extent o1 n1 (chunkf c fs l))
    \<and> extent (unat off) (length x) (chunkf c fs' l) = x \<and> chunk_end c fs' l = off + n"
proof -
  note last = last_chunk [OF assms(1), folded l_def]
  obtain fs1 where fs1: "mm_write (chunk_map c l) off (Done x) n False fs = Done (OK, fs1)"
    "files_ok c fs1" "hdr c fs1 = hdr c fs" "ent c fs1 = ent c fs"
    "\<forall>k. k \<noteq> l \<longrightarrow> chunkf c fs1 k = chunkf c fs k"
    "chunkf c fs1 l = put_at (unat off) x (chunkf c fs l)"
    using write_last_ok [OF assms(1,3,4), of False, folded l_def] by blast
  have end8: "unat (0 :: size_t) + length (enc64 (off + n)) \<le> unat (lc_chunk_size c)"
    using assms(1) by (simp add: files_ok_def)
  obtain fs2 where fs2: "mm_write (chunk_map c l) 0 (Done (enc64 (off + n))) 8 False fs1 = Done (OK, fs2)"
    "files_ok c fs2" "hdr c fs2 = hdr c fs" "ent c fs2 = ent c fs"
    "\<forall>k. k \<noteq> l \<longrightarrow> chunkf c fs2 k = chunkf c fs k"
    "chunkf c fs2 l = put_at 0 (enc64 (off + n)) (put_at (unat off) x (chunkf c fs l))"
    using write_last_ok [OF fs1(2) end8, of 8 False] fs1(3-6)
    by (simp add: l_def usize_def) metis
  let ?e = "\<lparr> e_chunk = l, e_offset = off, e_size = n, e_alloc = n \<rparr>"
  obtain m' fs3 where fs3: "writeEntryMetadata i ?e fl c fs2 = Done (OK, c\<lparr> lc_meta := m' \<rparr>, fs3)"
    "files_ok (c\<lparr> lc_meta := m' \<rparr>) fs3" "hdr (c\<lparr> lc_meta := m' \<rparr>) fs3 = hdr c fs"
    "ent (c\<lparr> lc_meta := m' \<rparr>) fs3 i = ?e"
    "\<forall>j < h_next (hdr c fs). j \<noteq> i \<longrightarrow> ent (c\<lparr> lc_meta := m' \<rparr>) fs3 j = ent c fs j"
    "32 * (unat i + 2) \<le> unat (mf_size m')" "chunkf c fs3 = chunkf c fs2"
    "mf_size (lc_meta c) \<le> mf_size m'"
    using write_entry_ok [OF fs2(2), of i ?e fl] assms(5,6) fs2(3,4) by auto
  have same: "chunkf c fs3 k = chunkf c fs2 k" for k
    using fs3(7) by (rule fun_cong)
  let ?b = "chunkf c fs l"
  have len: "unat off + length x \<le> length ?b" using assms(3) last(3) by simp
  have old: "extent o1 n1 (chunkf c fs3 l) = extent o1 n1 ?b" if "8 \<le> o1 \<and> o1 + n1 \<le> unat off" for o1 n1
  proof -
    have "extent o1 n1 (chunkf c fs3 l) = extent o1 n1 (put_at (unat off) x ?b)"
      unfolding same fs2(6) using that len assms(2)
      by (intro slice_put_after) (simp_all add: length_put_at)
    then show ?thesis using that len by (simp add: slice_put_before)
  qed
  have new: "extent (unat off) (length x) (chunkf c fs3 l) = x"
  proof -
    have "extent (unat off) (length x) (chunkf c fs3 l)
        = extent (unat off) (length x) (put_at (unat off) x ?b)"
      unfolding same fs2(6) using len assms(2)
      by (intro slice_put_after) (simp_all add: length_put_at)
    then show ?thesis using len by (simp add: slice_put_same)
  qed
  have "chunk_end c fs3 l = off + n"
  proof -
    have "extent 0 8 (chunkf c fs3 l) = enc64 (off + n)"
      unfolding same fs2(6)
      using slice_put_same [of 0 "put_at (unat off) x ?b" "enc64 (off + n)"] by simp
    moreover have "unat (off + n) = unat off + length x"
      using inside_word(2) [OF assms(3)] by (simp add: assms(4) usize_def)
    then have "off + n \<noteq> 0" using assms(2) by (metis add_is_0 not_numeral_le_zero unat_0)
    ultimately show ?thesis by (simp add: chunk_end_def)
  qed
  moreover have "log_write_doc i (Done x) n off fl c fs = Done (OK, True, c\<lparr> lc_meta := m' \<rparr>, fs3)"
    using fs1(1) fs2(1) fs3(1) last(2)
    by (simp add: log_write_doc_def log_header_law [OF assms(1)] l_def)
  ultimately show ?thesis
    using fs3(2-6,8) fs2(5) old new same by (intro exI [of _ m'] exI [of _ fs3]) simp
qed

section \<open>Appending documents\<close>

abbreviation same_coll :: "log_coll \<Rightarrow> log_coll \<Rightarrow> bool" where
  "same_coll c c' \<equiv> lc_name c' = lc_name c \<and> lc_prefix c' = lc_prefix c
     \<and> lc_chunk_size c' = lc_chunk_size c"

lemma live_entry:
  assumes "log_ok_at limit c fs" "i \<in> live_ids c fs"
  shows "e_chunk (ent c fs i) \<le> h_last (hdr c fs)" "8 \<le> unat (e_offset (ent c fs i))"
    "unat (e_offset (ent c fs i)) + unat (e_alloc (ent c fs i)) \<le> unat (lc_chunk_size c)"
    "unat (e_size (ent c fs i)) \<le> unat (e_alloc (ent c fs i))"
    "e_chunk (ent c fs i) = h_last (hdr c fs)
      \<Longrightarrow> unat (e_offset (ent c fs i)) + unat (e_alloc (ent c fs i)) \<le> limit"
proof -
  have e: "entry_ok c (h_last (hdr c fs)) limit (ent c fs i)" and limit: "limit \<le> unat (lc_chunk_size c)"
    using assms unfolding log_ok_at_def by blast+
  show "e_chunk (ent c fs i) \<le> h_last (hdr c fs)" "8 \<le> unat (e_offset (ent c fs i))"
    "unat (e_size (ent c fs i)) \<le> unat (e_alloc (ent c fs i))"
    using e unfolding entry_ok_def by blast+
  show "unat (e_offset (ent c fs i)) + unat (e_alloc (ent c fs i)) \<le> unat (lc_chunk_size c)"
    using e limit by (cases "e_chunk (ent c fs i) = h_last (hdr c fs)") (simp_all add: entry_ok_def)
  show "unat (e_offset (ent c fs i)) + unat (e_alloc (ent c fs i)) \<le> limit"
    if "e_chunk (ent c fs i) = h_last (hdr c fs)"
    using e that by (simp add: entry_ok_def)
qed

text \<open>A document that does not fit behind the last one opens a chunk.\<close>

lemma new_room:
  assumes "log_ok_at limit c fs" "n > lc_chunk_size c - off" "h_last (hdr c fs) + 1 \<noteq> - 1"
  defines "l \<equiv> h_last (hdr c fs) + 1"
  shows "\<exists>fs'. log_room n off c fs = Done (8, c\<lparr> lc_last := Some (chunk_map c l) \<rparr>, fs')
    \<and> log_ok_at 8 (c\<lparr> lc_last := Some (chunk_map c l) \<rparr>) fs'
    \<and> log_docs c fs' = log_docs c fs \<and> hdr c fs' = (hdr c fs)\<lparr> h_last := l \<rparr>"
proof -
  have ok: "files_ok c fs" "8 \<le> limit" "limit \<le> unat (lc_chunk_size c)"
    "h_size (hdr c fs) = of_nat (card (live_ids c fs))"
    using assms(1) by (simp_all add: log_ok_at_def)
  let ?l = "h_last (hdr c fs)"
  let ?c = "c\<lparr> lc_last := Some (chunk_map c (?l + 1)) \<rparr>"
  obtain fs' where fs': "getChunkFromID (?l + 1) c fs
      = Done (Some (chunk_map c (?l + 1)), ?c, fs')" "files_ok ?c fs'"
    "hdr c fs' = (hdr c fs)\<lparr> h_last := ?l + 1 \<rparr>" "ent c fs' = ent c fs"
    "\<forall>j \<le> ?l. chunkf c fs' j = chunkf c fs j"
    using new_chunk_ok [OF ok(1) assms(3)] by blast
  have live: "live_ids c fs' = live_ids c fs" by (simp add: live_ids_def fs'(3,4))
  have le: "e_chunk (ent c fs i) \<le> ?l" "e_chunk (ent c fs i) < ?l + 1" if "i \<in> live_ids c fs" for i
  proof -
    show "e_chunk (ent c fs i) \<le> ?l" using live_entry(1) [OF assms(1) that] .
    then show "e_chunk (ent c fs i) < ?l + 1"
      using ok(1) by (intro next_above) (simp_all add: files_ok_def)
  qed
  have "entry_ok c (?l + 1) 8 (ent c fs i)" if "i \<in> live_ids c fs" for i
    using le(2) [OF that] live_entry(2-4) [OF assms(1) that]
    by (simp add: entry_ok_def less_imp_le less_imp_neq)
  then have "log_ok_at 8 ?c fs'"
    using fs'(2-4) ok by (simp add: log_ok_at_def live)
  moreover have "log_docs c fs' = log_docs c fs"
    using fs'(4,5) le by (auto simp: log_docs_def live fun_eq_iff Let_def)
  ultimately show ?thesis
    using assms(2) fs'(1,3) by (simp add: log_room_def log_header_law [OF ok(1)] l_def)
qed

text \<open>\<open>n\<close> bytes are left at \<open>next_offset\<close>, in the last chunk or in a new one.\<close>

lemma room_ok:
  assumes "log_ok_at (unat off) c fs" "unat n + 8 \<le> unat (lc_chunk_size c)"
    and "h_last (hdr c fs) + 1 \<noteq> - 1"
  shows "\<exists>off' c' fs'. log_room n off c fs = Done (off', c', fs') \<and> log_ok_at (unat off') c' fs'
    \<and> unat off' + unat n \<le> unat (lc_chunk_size c) \<and> same_coll c c'
    \<and> log_docs c' fs' = log_docs c fs \<and> h_next (hdr c' fs') = h_next (hdr c fs)
    \<and> (h_last (hdr c' fs') = h_last (hdr c fs) \<or> h_last (hdr c' fs') = h_last (hdr c fs) + 1)"
proof (cases "n > lc_chunk_size c - off")
  case False
  have off: "unat off \<le> unat (lc_chunk_size c)" using assms(1) by (simp add: log_ok_at_def)
  then have "unat (lc_chunk_size c - off) = unat (lc_chunk_size c) - unat off"
    by (simp add: unat_sub word_le_nat_alt)
  then have "unat off + unat n \<le> unat (lc_chunk_size c)"
    using False off by (simp add: word_less_nat_alt)
  then show ?thesis using False assms(1) by (simp add: log_room_def)
next
  case True
  then show ?thesis using new_room [OF assms(1) True assms(3)] assms(2) by auto
qed

text \<open>One document appended under the next identifier.\<close>

lemma append_one:
  assumes "log_ok_at (unat off) c fs" "unat off + length x \<le> unat (lc_chunk_size c)" "n = usize x"
    and "unat (h_next (hdr c fs)) < 2 ^ 50"
  defines "i \<equiv> h_next (hdr c fs)"
  shows "\<exists>c' fs1 fs'. log_write_doc i (Done x) n off False c fs = Done (OK, True, c', fs1)
    \<and> log_header c' fs1 = Done (hdr c fs)
    \<and> log_set_header ((hdr c fs)\<lparr> h_next := i + 1, h_size := h_size (hdr c fs) + 1 \<rparr>) c' fs1 = Done fs'
    \<and> log_ok_at (unat (off + n)) c' fs' \<and> same_coll c c'
    \<and> log_docs c' fs' = (log_docs c fs)(i \<mapsto> x)
    \<and> hdr c' fs' = (hdr c fs)\<lparr> h_next := i + 1, h_size := h_size (hdr c fs) + 1 \<rparr>
    \<and> chunk_end c' fs' (h_last (hdr c fs)) = off + n"
proof -
  let ?h = "hdr c fs" and ?l = "h_last (hdr c fs)"
  have ok: "files_ok c fs" "8 \<le> unat off" "unat off \<le> unat (lc_chunk_size c)"
    "h_size (hdr c fs) = of_nat (card (live_ids c fs))"
    using assms(1) by (simp_all add: log_ok_at_def)
  let ?e = "\<lparr> e_chunk = ?l, e_offset = off, e_size = n, e_alloc = n \<rparr>"
  obtain m' fs1 where w: "log_write_doc i (Done x) n off False c fs = Done (OK, True, c\<lparr> lc_meta := m' \<rparr>, fs1)"
    "files_ok (c\<lparr> lc_meta := m' \<rparr>) fs1" "hdr (c\<lparr> lc_meta := m' \<rparr>) fs1 = ?h"
    "ent (c\<lparr> lc_meta := m' \<rparr>) fs1 i = ?e"
    "\<forall>j < h_next ?h. j \<noteq> i \<longrightarrow> ent (c\<lparr> lc_meta := m' \<rparr>) fs1 j = ent c fs j"
    "32 * (unat i + 2) \<le> unat (mf_size m')" "mf_size (lc_meta c) \<le> mf_size m'"
    "\<forall>k. k \<noteq> ?l \<longrightarrow> chunkf c fs1 k = chunkf c fs k"
    "\<forall>o1 n1. 8 \<le> o1 \<and> o1 + n1 \<le> unat off
        \<longrightarrow> extent o1 n1 (chunkf c fs1 ?l) = extent o1 n1 (chunkf c fs ?l)"
    "extent (unat off) (length x) (chunkf c fs1 ?l) = x" "chunk_end c fs1 ?l = off + n"
    using log_write_doc_ok [OF ok(1,2) assms(2,3), of i False] assms(4) unfolding i_def by auto
  let ?c = "c\<lparr> lc_meta := m' \<rparr>"
  let ?h' = "?h\<lparr> h_next := i + 1, h_size := h_size ?h + 1 \<rparr>"
  have "unat (i + 1) = unat i + 1" using assms(4) by (simp add: i_def unat_word_ariths)
  then have h': "32 * (unat (h_next ?h') + 1) \<le> unat (mf_size (lc_meta ?c))"
    "h_chunk ?h' = lc_chunk_size ?c" "h_last ?h' = h_last (hdr ?c fs1)"
    using w(3,6) files_meta(7) [OF ok(1)] by simp_all
  obtain fs' where f: "log_set_header ?h' ?c fs1 = Done fs'" "files_ok ?c fs'" "hdr ?c fs' = ?h'"
    "ent ?c fs' = ent ?c fs1" "chunkf ?c fs' = chunkf ?c fs1"
    using set_header_ok [OF w(2) h'(2,3,1)] by blast
  have chunks: "chunkf c fs' k = chunkf c fs1 k" for k
    using f(5) by (simp add: fun_eq_iff)
  have nxt: "h_next ?h = i" by (simp add: i_def)
  have step: "j < i + 1 \<longleftrightarrow> j < i \<or> j = i" for j
    using \<open>unat (i + 1) = unat i + 1\<close> by (auto simp: word_less_nat_alt word_unat_eq_iff less_Suc_eq)
  have len: "length x < 2 ^ 64" using assms(2) unat_size_less [of "lc_chunk_size c"] by simp
  have n: "unat n = length x" using assms(3) len by (simp add: unat_usize)
  have "n \<noteq> YOKAN_KEY_NOT_FOUND"
  proof
    assume "n = YOKAN_KEY_NOT_FOUND"
    then have "length x = 2 ^ 64 - 1" using n by (simp add: YOKAN_KEY_NOT_FOUND_def unat_minus_one)
    then show False using assms(2) ok(2) unat_size_less [of "lc_chunk_size c"] by simp
  qed
  then have live: "live_ids ?c fs' = insert i (live_ids c fs)"
    using w(4,5) nxt by (auto simp: live_ids_def f(3,4) step)
  have new: "i \<notin> live_ids c fs" by (simp add: live_ids_def nxt)
  have ents: "ent ?c fs' i = ?e" "\<forall>j \<in> live_ids c fs. ent ?c fs' j = ent c fs j"
    using w(4,5) new nxt by (auto simp: f(4) live_ids_def)
  have sum: "unat (off + n) = unat off + length x"
    using inside_word(2) [OF assms(2)] assms(3) by (simp add: usize_def)
  have "entry_ok ?c ?l (unat (off + n)) (ent ?c fs' j)" if "j \<in> live_ids c fs" for j
    using live_entry [OF assms(1) that] ents(2) that sum by (auto simp: entry_ok_def)
  moreover have "entry_ok ?c ?l (unat (off + n)) ?e"
    using ok(2) by (simp add: entry_ok_def sum n)
  moreover have "h_size ?h + 1 = of_nat (card (live_ids ?c fs'))"
    using ok(4) new finite_subset [OF subset_UNIV finite_class.finite_UNIV, of "live_ids c fs"]
    by (simp add: live)
  ultimately have at: "log_ok_at (unat (off + n)) ?c fs'"
    using f(2,3) ok(2) assms(2) ents(1) by (simp add: log_ok_at_def live sum)
  have "log_docs ?c fs' = (log_docs c fs)(i \<mapsto> x)"
  proof
    fix j
    show "log_docs ?c fs' j = ((log_docs c fs)(i \<mapsto> x)) j"
    proof (cases "j \<in> live_ids c fs")
      case True
      let ?o = "unat (e_offset (ent c fs j))" and ?n = "unat (e_size (ent c fs j))"
      have "extent ?o ?n (chunkf c fs1 (e_chunk (ent c fs j)))
          = extent ?o ?n (chunkf c fs (e_chunk (ent c fs j)))"
        using live_entry [OF assms(1) True] w(8,9) by (cases "e_chunk (ent c fs j) = ?l") auto
      then show ?thesis
        using True new ents(2) by (auto simp: log_docs_def live Let_def chunks)
    next
      case False
      then show ?thesis
        using ents(1) w(10) n by (auto simp: log_docs_def live Let_def chunks)
    qed
  qed
  moreover have "chunk_end ?c fs' ?l = off + n"
    using w(11) chunks by (simp add: chunk_end_def)
  ultimately show ?thesis
    using w(1) f(1,3) at log_header_law [OF w(2)] w(3) by (intro exI [of _ ?c] exI [of _ fs1] exI [of _ fs']) simp
qed

definition fresh_from :: "size_t \<Rightarrow> nat \<Rightarrow> size_t list" where
  "fresh_from i n = map (\<lambda>k. i + of_nat k) [0..<n]"

lemma fresh_from_Suc: "fresh_from i (Suc n) = i # fresh_from (i + 1) n"
proof -
  have "[0..<Suc n] = 0 # map Suc [0..<n]" by (simp add: map_Suc_upt upt_conv_Cons del: upt_Suc)
  then show ?thesis by (simp add: fresh_from_def o_def add.assoc del: upt_Suc)
qed

lemma append_loop_ok:
  assumes "log_ok_at (unat off) c fs" "chunk_end c fs (h_last (hdr c fs)) = off"
    and "fits (pre @ concat xs @ post)" "\<forall>x \<in> set xs. length x + 8 \<le> unat (lc_chunk_size c)"
    and "unat (h_next (hdr c fs)) + length xs < 2 ^ 50"
    and "unat (h_last (hdr c fs)) + length xs < 2 ^ 63" "length ids = k + length xs"
  shows "\<exists>c' fs'. log_append_loop (pre @ concat xs @ post) (map usize xs) k off (usize pre) ids c fs
      = Done (OK, take k ids @ fresh_from (h_next (hdr c fs)) (length xs), c', fs')
    \<and> log_ok c' fs' \<and> same_coll c c'
    \<and> log_docs c' fs' = (log_docs c fs)(fresh_from (h_next (hdr c fs)) (length xs) [\<mapsto>] xs)
    \<and> h_next (hdr c' fs') = h_next (hdr c fs) + usize xs
    \<and> unat (h_last (hdr c' fs')) \<le> unat (h_last (hdr c fs)) + length xs"
  using assms
proof (induction xs arbitrary: off c fs pre k ids)
  case Nil
  then show ?case by (simp add: fresh_from_def log_ok_def)
next
  case (Cons x xs)
  let ?n = "usize x" and ?h = "hdr c fs" and ?i = "h_next (hdr c fs)"
  have fx: "fits x" using Cons.prems(3) by simp
  have room: "unat ?n + 8 \<le> unat (lc_chunk_size c)"
    using Cons.prems(4) fx by (simp add: unat_usize)
  have last: "h_last ?h + 1 \<noteq> - 1"
  proof
    assume "h_last ?h + 1 = - 1"
    then have "h_last ?h = - 2" by (simp add: eq_neg_iff_add_eq_0 add.assoc)
    then show False using Cons.prems(6) by simp
  qed
  have next_last: "unat (h_last ?h + 1) = unat (h_last ?h) + 1"
    using Cons.prems(6) by (simp add: unat_word_ariths)
  obtain off1 c1 fs1 where r: "log_room ?n off c fs = Done (off1, c1, fs1)" "log_ok_at (unat off1) c1 fs1"
    "unat off1 + unat ?n \<le> unat (lc_chunk_size c)" "same_coll c c1" "log_docs c1 fs1 = log_docs c fs"
    "h_next (hdr c1 fs1) = ?i" "h_last (hdr c1 fs1) = h_last ?h \<or> h_last (hdr c1 fs1) = h_last ?h + 1"
    using room_ok [OF Cons.prems(1) room last] by blast
  have l1: "unat (h_last (hdr c1 fs1)) \<le> unat (h_last ?h) + 1"
    using r(7) next_last by auto
  have fit: "unat off1 + length x \<le> unat (lc_chunk_size c1)"
    using r(3,4) fx by (simp add: unat_usize)
  let ?h2 = "(hdr c1 fs1)\<lparr> h_next := ?i + 1, h_size := h_size (hdr c1 fs1) + 1 \<rparr>"
  obtain c2 fs2 fs3 where w: "log_write_doc ?i (Done x) ?n off1 False c1 fs1 = Done (OK, True, c2, fs2)"
    "log_header c2 fs2 = Done (hdr c1 fs1)" "log_set_header ?h2 c2 fs2 = Done fs3"
    "log_ok_at (unat (off1 + ?n)) c2 fs3" "same_coll c1 c2" "log_docs c2 fs3 = (log_docs c1 fs1)(?i \<mapsto> x)"
    "hdr c2 fs3 = ?h2" "chunk_end c2 fs3 (h_last (hdr c1 fs1)) = off1 + ?n"
    using append_one [OF r(2) fit refl] Cons.prems(5) r(6) by auto
  have pre: "sub_bytes (pre @ x @ concat xs @ post) (usize pre) ?n = Done x"
    using Cons.prems(3) sub_bytes_append [of pre x "concat xs @ post"] by simp
  have i1: "unat (?i + 1) = unat ?i + 1" using Cons.prems(5) by (simp add: unat_word_ariths)
  have "chunk_end c2 fs3 (h_last (hdr c2 fs3)) = off1 + ?n" using w(7,8) by simp
  moreover have "fits ((pre @ x) @ concat xs @ post)" using Cons.prems(3) by simp
  moreover have "\<forall>y \<in> set xs. length y + 8 \<le> unat (lc_chunk_size c2)"
    using Cons.prems(4) r(4) w(5) by simp
  moreover have "unat (h_next (hdr c2 fs3)) + length xs < 2 ^ 50"
    using Cons.prems(5) w(7) i1 by simp
  moreover have "unat (h_last (hdr c2 fs3)) + length xs < 2 ^ 63"
    using Cons.prems(6) w(7) l1 by simp
  moreover have "length (ids[k := ?i]) = Suc k + length xs" using Cons.prems(7) by simp
  ultimately obtain c' fs' where ih:
    "log_append_loop ((pre @ x) @ concat xs @ post) (map usize xs) (Suc k) (off1 + ?n) (usize (pre @ x))
        (ids[k := ?i]) c2 fs3
      = Done (OK, take (Suc k) (ids[k := ?i]) @ fresh_from (h_next (hdr c2 fs3)) (length xs), c', fs')"
    "log_ok c' fs'" "same_coll c2 c'"
    "log_docs c' fs' = (log_docs c2 fs3)(fresh_from (h_next (hdr c2 fs3)) (length xs) [\<mapsto>] xs)"
    "h_next (hdr c' fs') = h_next (hdr c2 fs3) + usize xs"
    "unat (h_last (hdr c' fs')) \<le> unat (h_last (hdr c2 fs3)) + length xs"
    using Cons.IH [OF w(4), of "pre @ x" "ids[k := ?i]" "Suc k"] by blast
  have take: "take (Suc k) (ids[k := ?i]) = take k ids @ [?i]"
    using Cons.prems(7) by (simp add: take_Suc_conv_app_nth)
  have files: "files_ok c fs" using Cons.prems(1) by (simp add: log_ok_at_def)
  have "log_append_loop (pre @ concat (x # xs) @ post) (map usize (x # xs)) k off (usize pre) ids c fs
      = Done (OK, take k ids @ fresh_from ?i (length (x # xs)), c', fs')"
    using r(1,6) w(1-3,7) ih(1) pre take
    by (simp add: log_header_law [OF files] usize_append fresh_from_Suc)
  moreover have "h_next (hdr c' fs') = ?i + usize (x # xs)"
    using ih(5) w(7) by (simp add: usize_def)
  moreover have "unat (h_last (hdr c' fs')) \<le> unat (h_last ?h) + length (x # xs)"
    using ih(6) w(7) l1 by simp
  ultimately show ?case
    using ih(2-4) r(4-6) w(5-7) by (intro exI [of _ c'] exI [of _ fs']) (simp add: fresh_from_Suc)
qed

lemma next_offset_ok:
  assumes "log_ok c fs"
  shows "log_next_offset c fs = Done (OK, chunk_end c fs (h_last (hdr c fs)))"
proof -
  have ok: "files_ok c fs" using assms by (simp add: log_ok_def log_ok_at_def)
  note last = last_chunk [OF ok]
  have "unat (0 :: size_t) + unat (8 :: size_t) \<le> unat (mf_size (chunk_map c (h_last (hdr c fs))))"
    using ok by (simp add: files_ok_def chunk_map_def)
  note mm_read_law [OF last(1) this]
  then show ?thesis
    using last(2) by (simp add: log_next_offset_def chunk_end_def chunk_map_def Let_def)
qed

lemma append_ok:
  assumes "log_ok c fs" "packs data xs sizes" "length ids = length xs"
    and "\<forall>x \<in> set xs. length x + 8 \<le> unat (lc_chunk_size c)"
    and "unat (h_next (hdr c fs)) + length xs < 2 ^ 50"
    and "unat (h_last (hdr c fs)) + length xs < 2 ^ 63"
  shows "\<exists>c' fs'. log_append data sizes ids c fs
      = Done (OK, fresh_from (h_next (hdr c fs)) (length xs), c', fs')
    \<and> log_ok c' fs' \<and> same_coll c c'
    \<and> log_docs c' fs' = (log_docs c fs)(fresh_from (h_next (hdr c fs)) (length xs) [\<mapsto>] xs)
    \<and> h_next (hdr c' fs') = h_next (hdr c fs) + usize xs
    \<and> unat (h_last (hdr c' fs')) \<le> unat (h_last (hdr c fs)) + length xs"
proof -
  obtain post where d: "sizes = map usize xs" "data = concat xs @ post" "fits data"
    using assms(2) by (auto elim: packsE)
  have small: "\<not> usize x > lc_chunk_size c" if "x \<in> set xs" for x
  proof -
    have "length x \<le> unat (lc_chunk_size c)" using assms(4) that by fastforce
    then show ?thesis
      using unat_usize_le [of x] by (simp add: word_less_nat_alt)
  qed
  have at: "log_ok_at (unat (chunk_end c fs (h_last (hdr c fs)))) c fs"
    using assms(1) by (simp add: log_ok_def)
  have "fits ([] @ concat xs @ post)" "length ids = 0 + length xs" using d assms(3) by simp_all
  from append_loop_ok [OF at refl this(1) assms(4,5,6) this(2)] small show ?thesis
    using d assms(3) by (auto simp: log_append_def next_offset_ok [OF assms(1)])
qed

section \<open>Reading and erasing\<close>

lemma log_ok_files: "log_ok c fs \<Longrightarrow> files_ok c fs"
  by (simp add: log_ok_def log_ok_at_def)

lemma log_ok_cache:
  "log_ok c fs \<Longrightarrow> files_ok (c\<lparr> lc_cache := ca \<rparr>) fs \<Longrightarrow> log_ok (c\<lparr> lc_cache := ca \<rparr>) fs"
  by (simp add: log_ok_def log_ok_at_def)

text \<open>The bytes of a live document are where its entry says.\<close>

lemma doc_extent:
  assumes "log_ok c fs" "i \<in> live_ids c fs"
  defines "e \<equiv> ent c fs i"
  shows "mapped_ok fs (chunk_map c (e_chunk e))"
    "unat (e_offset e) + unat (e_size e) \<le> unat (mf_size (chunk_map c (e_chunk e)))"
    "log_docs c fs i = Some (extent (unat (e_offset e)) (unat (e_size e)) (chunkf c fs (e_chunk e)))"
    "length (the (log_docs c fs i)) = unat (e_size e)" "e_size e \<noteq> YOKAN_KEY_NOT_FOUND"
proof -
  have at: "log_ok_at (unat (chunk_end c fs (h_last (hdr c fs)))) c fs"
    using assms(1) by (simp add: log_ok_def)
  note le = live_entry [OF at assms(2), folded e_def]
  show m: "mapped_ok fs (chunk_map c (e_chunk e))"
    using log_ok_files [OF assms(1)] le(1) by (simp add: files_ok_def)
  show r: "unat (e_offset e) + unat (e_size e) \<le> unat (mf_size (chunk_map c (e_chunk e)))"
    using le(3,4) by (simp add: chunk_map_def)
  show d: "log_docs c fs i = Some (extent (unat (e_offset e)) (unat (e_size e)) (chunkf c fs (e_chunk e)))"
    using assms(2) by (simp add: log_docs_def Let_def e_def)
  have "unat (mf_size (chunk_map c (e_chunk e))) \<le> length (chunkf c fs (e_chunk e))"
    using m by (simp add: mapped_ok_def chunk_map_def)
  then show "length (the (log_docs c fs i)) = unat (e_size e)"
    using r by (simp add: d length_slice)
  show "e_size e \<noteq> YOKAN_KEY_NOT_FOUND"
    using assms(2) by (simp add: live_ids_def e_def)
qed

text \<open>What \<open>read\<close> answers, by the document.\<close>

definition read_answer :: "log_coll \<Rightarrow> files \<Rightarrow> size_t \<Rightarrow> size_t \<Rightarrow> status \<times> bytes" where
  "read_answer c fs i buf_size =
     (case log_docs c fs i of
        None \<Rightarrow> (if i \<ge> h_next (hdr c fs) then InvalidID else NotFound, [])
      | Some d \<Rightarrow> if buf_size < usize d then (SizeError, []) else (OK, d))"

lemma read_ok:
  assumes "log_ok c fs"
  shows "\<exists>ca. log_read i buf_size c fs = Done (case read_answer c fs i buf_size of (st, d) \<Rightarrow>
      (st, d, c\<lparr> lc_cache := ca \<rparr>, fs)) \<and> log_ok (c\<lparr> lc_cache := ca \<rparr>) fs"
proof -
  note ok = log_ok_files [OF assms]
  have c: "c\<lparr> lc_cache := lc_cache c \<rparr> = c" by simp
  show ?thesis
  proof (cases "i \<in> live_ids c fs")
    case False
    then have none: "log_docs c fs i = None" by (simp add: log_docs_def)
    have "log_read i buf_size c fs = Done (if i \<ge> h_next (hdr c fs) then InvalidID else NotFound, [], c, fs)"
      using False readEntry_law [OF ok, of i]
      by (auto simp: log_read_def log_header_law [OF ok] live_ids_def not_le)
    then show ?thesis using none c assms by (intro exI [of _ "lc_cache c"]) (simp add: read_answer_def)
  next
    case True
    let ?e = "ent c fs i"
    note e = doc_extent [OF assms True]
    have i: "i < h_next (hdr c fs)" using True by (simp add: live_ids_def)
    have "unat (usize (the (log_docs c fs i))) = unat (e_size ?e)"
      using e(4) unat_size_less [of "e_size ?e"] by (simp add: unat_usize)
    then have n: "usize (the (log_docs c fs i)) = e_size ?e" by (simp add: word_unat_eq_iff)
    show ?thesis
    proof (cases "buf_size < e_size ?e")
      case True
      then have "log_read i buf_size c fs = Done (SizeError, [], c, fs)"
        using i e(5) by (simp add: log_read_def log_header_law [OF ok] readEntry_law [OF ok i])
      moreover have "read_answer c fs i buf_size = (SizeError, [])"
        using True e(3) n by (simp add: read_answer_def)
      ultimately show ?thesis using c assms by (intro exI [of _ "lc_cache c"]) simp
    next
      case False
      have "e_chunk ?e \<le> h_last (hdr c fs)"
        using live_entry(1) assms True by (simp add: log_ok_def)
      then obtain ca where ca: "getChunkFromID (e_chunk ?e) c fs
          = Done (Some (chunk_map c (e_chunk ?e)), c\<lparr> lc_cache := ca \<rparr>, fs)"
        "files_ok (c\<lparr> lc_cache := ca \<rparr>) fs"
        using get_chunk_ok [OF ok] by blast
      have "log_read i buf_size c fs = Done (OK, the (log_docs c fs i), c\<lparr> lc_cache := ca \<rparr>, fs)"
        using i e(3,5) ca(1) False mm_read_law [OF e(1,2)]
        by (simp add: log_read_def log_header_law [OF ok] readEntry_law [OF ok i] chunk_map_def)
      moreover have "read_answer c fs i buf_size = (OK, the (log_docs c fs i))"
        using False e(3) n by (simp add: read_answer_def)
      ultimately show ?thesis using log_ok_cache [OF assms ca(2)] by auto
    qed
  qed
qed

lemma fetch_ok:
  assumes "log_ok c fs"
  shows "\<exists>ca. log_fetch i cb st c fs = obind (cb i (log_docs c fs i) st)
      (\<lambda>(r, st'). Done (r, st', c\<lparr> lc_cache := ca \<rparr>, fs)) \<and> log_ok (c\<lparr> lc_cache := ca \<rparr>) fs"
proof -
  note ok = log_ok_files [OF assms]
  have c: "c\<lparr> lc_cache := lc_cache c \<rparr> = c" by simp
  show ?thesis
  proof (cases "i \<in> live_ids c fs")
    case False
    then have none: "log_docs c fs i = None" by (simp add: log_docs_def)
    have "log_fetch i cb st c fs = obind (cb i None st) (\<lambda>(r, st'). Done (r, st', c, fs))"
      using False readEntry_law [OF ok, of i]
      by (auto simp: log_fetch_def log_header_law [OF ok] live_ids_def not_le)
    then show ?thesis using none c assms by (intro exI [of _ "lc_cache c"]) simp
  next
    case True
    let ?e = "ent c fs i"
    note e = doc_extent [OF assms True]
    have i: "i < h_next (hdr c fs)" using True by (simp add: live_ids_def)
    have "e_chunk ?e \<le> h_last (hdr c fs)"
      using live_entry(1) assms True by (simp add: log_ok_def)
    then obtain ca where ca: "getChunkFromID (e_chunk ?e) c fs
        = Done (Some (chunk_map c (e_chunk ?e)), c\<lparr> lc_cache := ca \<rparr>, fs)"
      "files_ok (c\<lparr> lc_cache := ca \<rparr>) fs"
      using get_chunk_ok [OF ok] by blast
    have "log_fetch i cb st c fs = obind (cb i (log_docs c fs i) st)
        (\<lambda>(r, st'). Done (r, st', c\<lparr> lc_cache := ca \<rparr>, fs))"
      using i e(3,5) ca(1) mm_fetch_law [OF e(1,2), of "\<lambda>doc. cb i (Some doc)" st]
      by (simp add: log_fetch_def log_header_law [OF ok] readEntry_law [OF ok i] chunk_map_def not_le [symmetric])
    then show ?thesis using log_ok_cache [OF assms ca(2)] by auto
  qed
qed

lemma entrySize_ok:
  assumes "log_ok c fs"
  shows "log_entrySize i c fs = Done (if i \<ge> h_next (hdr c fs) then (NotFound, None)
    else (OK, Some (case log_docs c fs i of None \<Rightarrow> YOKAN_KEY_NOT_FOUND | Some d \<Rightarrow> usize d)))"
proof (cases "i \<ge> h_next (hdr c fs)")
  case True
  then show ?thesis by (simp add: log_entrySize_def log_header_law [OF log_ok_files [OF assms]])
next
  case False
  then have i: "i < h_next (hdr c fs)" by simp
  have "usize (the (log_docs c fs i)) = e_size (ent c fs i)" if "i \<in> live_ids c fs"
    using doc_extent(4) [OF assms that] unat_size_less [of "e_size (ent c fs i)"]
    by (simp add: word_unat_eq_iff unat_usize)
  then have "e_size (ent c fs i) = (case log_docs c fs i of None \<Rightarrow> YOKAN_KEY_NOT_FOUND | Some d \<Rightarrow> usize d)"
    using i by (auto simp: log_docs_def live_ids_def Let_def)
  then show ?thesis
    using False readEntry_law [OF log_ok_files [OF assms] i]
    by (simp add: log_entrySize_def log_header_law [OF log_ok_files [OF assms]])
qed

lemma finite_live_ids [simp]: "finite (live_ids c fs)"
  by (rule finite_subset [OF subset_UNIV finite_class.finite_UNIV])

lemma log_erase_ok:
  assumes "log_ok c fs" "i \<in> live_ids c fs" "unat i < 2 ^ 50"
  shows "\<exists>c' fs'. log_erase i c fs = Done (OK, c', fs') \<and> log_ok c' fs' \<and> same_coll c c'
    \<and> log_docs c' fs' = (log_docs c fs)(i := None)
    \<and> hdr c' fs' = (hdr c fs)\<lparr> h_size := h_size (hdr c fs) - 1 \<rparr>
    \<and> ent c' fs' i = (ent c fs i)\<lparr> e_chunk := YOKAN_KEY_NOT_FOUND, e_size := YOKAN_KEY_NOT_FOUND,
        e_offset := YOKAN_KEY_NOT_FOUND \<rparr>"
proof -
  note ok = log_ok_files [OF assms(1)]
  have at: "log_ok_at (unat (chunk_end c fs (h_last (hdr c fs)))) c fs"
    using assms(1) by (simp add: log_ok_def)
  have i: "i < h_next (hdr c fs)" "e_size (ent c fs i) \<noteq> YOKAN_KEY_NOT_FOUND"
    using assms(2) by (simp_all add: live_ids_def)
  let ?e = "(ent c fs i)\<lparr> e_chunk := YOKAN_KEY_NOT_FOUND, e_size := YOKAN_KEY_NOT_FOUND,
      e_offset := YOKAN_KEY_NOT_FOUND \<rparr>"
  obtain m' fs1 where w: "writeEntryMetadata i ?e True c fs = Done (OK, c\<lparr> lc_meta := m' \<rparr>, fs1)"
    "files_ok (c\<lparr> lc_meta := m' \<rparr>) fs1" "hdr (c\<lparr> lc_meta := m' \<rparr>) fs1 = hdr c fs"
    "ent (c\<lparr> lc_meta := m' \<rparr>) fs1 i = ?e"
    "\<forall>j < h_next (hdr c fs). j \<noteq> i \<longrightarrow> ent (c\<lparr> lc_meta := m' \<rparr>) fs1 j = ent c fs j"
    "chunkf c fs1 = chunkf c fs"
    using write_entry_ok [OF ok less_imp_le [OF i(1)] assms(3), of ?e True] by blast
  let ?c = "c\<lparr> lc_meta := m' \<rparr>" and ?h = "(hdr c fs)\<lparr> h_size := h_size (hdr c fs) - 1 \<rparr>"
  have h: "h_chunk ?h = lc_chunk_size ?c" "h_last ?h = h_last (hdr ?c fs1)"
    "32 * (unat (h_next ?h) + 1) \<le> unat (mf_size (lc_meta ?c))"
    using files_meta(6,7) [OF w(2)] w(3) by simp_all
  obtain fs' where f: "log_set_header ?h ?c fs1 = Done fs'" "files_ok ?c fs'" "hdr ?c fs' = ?h"
    "ent ?c fs' = ent ?c fs1" "chunkf ?c fs' = chunkf ?c fs1"
    using set_header_ok [OF w(2) h] by blast
  have live: "live_ids ?c fs' = live_ids c fs - {i}"
    using w(4,5) by (auto simp: live_ids_def f(3,4))
  have ents: "ent ?c fs' j = ent c fs j" if "j \<in> live_ids c fs" "j \<noteq> i" for j
    using w(5) that by (simp add: f(4) live_ids_def)
  have chunks: "chunkf c fs' k = chunkf c fs k" for k
    using f(5) w(6) by (simp add: fun_eq_iff)
  have "card (live_ids c fs) = Suc (card (live_ids c fs - {i}))"
    using assms(2) by (intro card_Suc_Diff1 [symmetric]) simp_all
  then have "of_nat (card (live_ids c fs)) - 1 = (of_nat (card (live_ids c fs - {i})) :: size_t)"
    by simp
  then have size: "h_size ?h = of_nat (card (live_ids ?c fs'))"
    using at unfolding log_ok_at_def live by simp
  moreover have "chunk_end ?c fs' k = chunk_end c fs k" for k
    by (simp add: chunk_end_def chunks)
  moreover have "entry_ok ?c l n e = entry_ok c l n e" for l n e
    by (simp add: entry_ok_def)
  ultimately have "log_ok ?c fs'"
    using at f(2,3) ents by (simp add: log_ok_def log_ok_at_def live)
  moreover have "log_docs ?c fs' = (log_docs c fs)(i := None)"
    using ents by (auto simp: log_docs_def live Let_def chunks fun_eq_iff)
  moreover have "log_erase i c fs = Done (OK, ?c, fs')"
    using i w(1) f(1) w(3) by (simp add: log_erase_def log_header_law [OF ok] readEntry_law [OF ok]
      log_header_law [OF w(2)] not_le)
  ultimately show ?thesis using f(3,4) w(4) by auto
qed

lemma erase_absent:
  assumes "log_ok c fs" "i \<notin> live_ids c fs"
  shows "\<exists>st. log_erase i c fs = Done (st, c, fs)"
  using assms(2) readEntry_law [OF log_ok_files [OF assms(1)], of i]
  by (auto simp: log_erase_def log_header_law [OF log_ok_files [OF assms(1)]] live_ids_def not_le)

section \<open>Opening a collection\<close>

text \<open>The mapping of the metadata file that the constructor makes.\<close>

definition meta_map :: "bytes \<Rightarrow> bytes \<Rightarrow> mapped" where
  "meta_map prefix name = \<lparr> mf_name = meta_path prefix name, mf_size = 262144 \<rparr>"

lemma open_law:
  fixes fs prefix name
  defines "b \<equiv> zero_fill 262144 (file_of fs (meta_path prefix name))"
  defines "h \<equiv> bytes_header (extent 0 32 b)"
  defines "cp \<equiv> chunk_path prefix name (h_last h)"
  assumes "\<forall>p. fits (file_of fs p)" "n \<noteq> 0"
  shows "\<exists>c fs'. log_open name prefix n cache_size fs = Done (c, fs')
    \<and> c = \<lparr> lc_name = name, lc_prefix = prefix, lc_chunk_size = n, lc_meta = meta_map prefix name,
            lc_last = Some \<lparr> mf_name = cp, mf_size = n \<rparr>, lc_cache = lru_init cache_size \<rparr>
    \<and> fs' = fs(meta_path prefix name \<mapsto> put_at 0 (header_bytes (h\<lparr> h_chunk := n \<rparr>)) b,
             cp \<mapsto> zero_fill (unat n) (file_of fs cp))
    \<and> hdr c fs' = h\<lparr> h_chunk := n \<rparr>
    \<and> (\<forall>i. ent c fs' i = bytes_entry (extent (32 + 32 * unat i) 32 b))"
proof -
  let ?mp = "meta_path prefix name" and ?m = "meta_map prefix name"
  let ?new = "\<lparr> lc_name = name, lc_prefix = prefix, lc_chunk_size = n, lc_meta = ?m,
      lc_last = None, lc_cache = lru_init cache_size \<rparr>"
  let ?b = "put_at 0 (header_bytes (h\<lparr> h_chunk := n \<rparr>)) b"
  let ?fs1 = "fs(?mp \<mapsto> b)" and ?fs2 = "fs(?mp \<mapsto> ?b)"
  have len: "262144 \<le> length b" by (simp add: b_def length_zero_fill)
  have s0: "unat (8 * 8 * 4096 :: size_t) = 262144" "unat (mf_size ?m) = 262144" "unat (32 :: size_t) = 32"
    by (simp_all add: meta_map_def)
  have new: "mm_new ?mp (8 * 8 * 4096) fs = Done (?m, ?fs1)"
    using mm_new_law [of "8 * 8 * 4096" fs ?mp] assms(4) by (simp add: b_def meta_map_def)
  have m1: "mapped_ok ?fs1 ?m" using len by (simp add: mapped_ok_def meta_map_def)
  have h1: "log_header ?new ?fs1 = Done h"
    using mm_load_law [OF m1, of 0 32] by (simp add: log_header_def meta_map_def h_def)
  have set1: "log_set_header (h\<lparr> h_chunk := n \<rparr>) ?new ?fs1 = Done ?fs2"
    using mm_store_law [OF m1, of 0 "header_bytes (h\<lparr> h_chunk := n \<rparr>)"]
    by (simp add: log_set_header_def meta_map_def)
  have len2: "length ?b = length b" using len by (simp add: length_put_at)
  have m2: "mapped_ok ?fs2 ?m" using len len2 by (simp add: mapped_ok_def meta_map_def)
  have e32: "extent 0 32 ?b = header_bytes (h\<lparr> h_chunk := n \<rparr>)"
    using slice_put_same [of 0 b "header_bytes (h\<lparr> h_chunk := n \<rparr>)"] by simp
  have h2: "log_header ?new ?fs2 = Done (h\<lparr> h_chunk := n \<rparr>)"
    using mm_load_law [OF m2, of 0 32] e32 by (simp add: log_header_def meta_map_def)
  let ?f = "\<lparr> mf_name = cp, mf_size = n \<rparr>"
  let ?fs3 = "?fs2(cp \<mapsto> zero_fill (unat n) (file_of fs cp))"
  let ?c = "?new\<lparr> lc_last := Some ?f \<rparr>"
  have ne: "cp \<noteq> ?mp" by (simp add: cp_def)
  have chunk: "open_chunk ?new n (h_last h) ?fs2 = Done (?f, ?fs3)"
    using mm_new_law [OF assms(5), of ?fs2 cp] assms(4) ne by (simp add: open_chunk_def cp_def)
  have get: "getChunkFromID (h_last h) ?new ?fs2 = Done (Some ?f, ?c, ?fs3)"
    using h2 chunk by (simp add: getChunkFromID_def)
  have open1: "log_open name prefix n cache_size fs = Done (?c, ?fs3)"
    using new h1 set1 get by (simp add: log_open_def)
  have hdr3: "hdr ?c ?fs3 = h\<lparr> h_chunk := n \<rparr>"
    using ne e32 by (simp add: hdr_def meta_map_def)
  have "extent (32 + 32 * unat i) 32 ?b = extent (32 + 32 * unat i) 32 b" for i :: size_t
    using len by (intro slice_put_after) simp_all
  then have "ent ?c ?fs3 i = bytes_entry (extent (32 + 32 * unat i) 32 b)" for i
    using ne by (simp add: ent_def meta_map_def)
  then show ?thesis using open1 hdr3 by (intro exI [of _ ?c] exI [of _ ?fs3]) simp
qed

lemma dec64_zeros: "dec64 (replicate n 0) = 0"
  by (induction n) auto

lemma extent_zeros: "o1 + n \<le> m \<Longrightarrow> extent o1 n (replicate m 0) = replicate n 0"
  by (simp add: extent_def)

lemma open_fresh:
  assumes "\<forall>p. fits (file_of fs p)" "8 \<le> unat n" "cache_size \<noteq> 0"
    and "fs (meta_path prefix name) = None" "fs (chunk_path prefix name 0) = None"
  shows "\<exists>c fs'. log_open name prefix n cache_size fs = Done (c, fs') \<and> log_ok c fs'
    \<and> log_docs c fs' = Map.empty \<and> hdr c fs' = \<lparr> h_size = 0, h_next = 0, h_last = 0, h_chunk = n \<rparr>
    \<and> lc_name c = name \<and> lc_prefix c = prefix \<and> lc_chunk_size c = n"
proof -
  have n0: "n \<noteq> 0" using assms(2) by auto
  have b: "zero_fill 262144 (file_of fs (meta_path prefix name)) = replicate 262144 0"
    using assms(4) by (simp add: file_of_def zero_fill_def)
  have e0: "extent 0 32 (replicate 262144 0) = replicate 32 (0 :: byte)"
    by (rule extent_zeros) simp
  have h: "bytes_header (extent 0 32 (replicate 262144 0))
      = \<lparr> h_size = 0, h_next = 0, h_last = 0, h_chunk = 0 \<rparr>"
    unfolding e0 by (simp add: bytes_header_def dec64_zeros)
  obtain c fs' where c: "log_open name prefix n cache_size fs = Done (c, fs')"
    "c = \<lparr> lc_name = name, lc_prefix = prefix, lc_chunk_size = n, lc_meta = meta_map prefix name,
          lc_last = Some \<lparr> mf_name = chunk_path prefix name 0, mf_size = n \<rparr>, lc_cache = lru_init cache_size \<rparr>"
    "fs' = fs(meta_path prefix name \<mapsto> put_at 0 (header_bytes \<lparr> h_size = 0, h_next = 0, h_last = 0, h_chunk = n \<rparr>)
        (replicate 262144 0), chunk_path prefix name 0 \<mapsto> zero_fill (unat n) (file_of fs (chunk_path prefix name 0)))"
    "hdr c fs' = \<lparr> h_size = 0, h_next = 0, h_last = 0, h_chunk = n \<rparr>"
    using open_law [OF assms(1) n0, of name prefix cache_size] unfolding b h by force
  have chunk: "file_of fs' (chunk_path prefix name 0) = replicate (unat n) 0"
    using assms(5) by (simp add: c(3) zero_fill_def) (simp add: file_of_def)
  have "length (put_at 0 (header_bytes \<lparr> h_size = 0, h_next = 0, h_last = 0, h_chunk = n \<rparr>)
      (replicate 262144 0)) = 262144"
    by (subst length_put_at) simp_all
  then have meta: "fs' (meta_path prefix name) \<noteq> None" "length (file_of fs' (meta_path prefix name)) = 262144"
    by (simp_all add: c(3))
  have "chunk_end c fs' 0 = 8"
    using extent_zeros [of 0 8 "unat n"] assms(2) by (simp add: chunk_end_def c(2) chunk dec64_zeros)
  moreover have "fits (file_of fs' p)" for p
  proof -
    have "file_of fs' p = file_of fs p" if "p \<noteq> meta_path prefix name" "p \<noteq> chunk_path prefix name 0"
      using that by (simp add: c(3))
    then show ?thesis
      using assms(1) meta(2) chunk unat_size_less [of n] by (cases "p = meta_path prefix name"; cases "p = chunk_path prefix name 0") auto
  qed
  moreover have "mapped_ok fs' (meta_map prefix name)"
    using meta by (simp add: mapped_ok_def meta_map_def)
  moreover have "mapped_ok fs' (chunk_map c 0)"
    using n0 by (simp add: mapped_ok_def chunk_map_def c(2) chunk) (simp add: c(3))
  moreover have "lru_ok (lru_init cache_size)" using assms(3) by (rule lru_ok_init)
  moreover have live: "live_ids c fs' = {}" by (simp add: live_ids_def c(4))
  moreover have "lc_chunk_size c = n" "lc_meta c = meta_map prefix name" "lc_name c = name"
    "lc_prefix c = prefix" "lc_cache c = lru_init cache_size" "lc_last c = Some (chunk_map c 0)"
    by (simp_all add: c(2) chunk_map_def)
  ultimately have "log_ok c fs'"
    using assms(2) unfolding log_ok_def log_ok_at_def files_ok_def c(4)
    by (simp add: meta_map_def lru_init_def)
  moreover have "log_docs c fs' = Map.empty" by (simp add: log_docs_def live fun_eq_iff)
  ultimately show ?thesis using c(1,2,4) by auto
qed

text \<open>
  Opening the files of a sound collection again. The constructor maps \<open>8 * 8 * 4096\<close> bytes of
  the metadata file whatever its size, so all entries must lie there.
\<close>

lemma open_again:
  assumes "log_ok c fs" "cache_size \<noteq> 0" "32 * (unat (h_next (hdr c fs)) + 1) \<le> 262144"
  shows "\<exists>c' fs'. log_open (lc_name c) (lc_prefix c) (lc_chunk_size c) cache_size fs = Done (c', fs')
    \<and> log_ok c' fs' \<and> same_coll c c' \<and> log_docs c' fs' = log_docs c fs \<and> hdr c' fs' = hdr c fs"
proof -
  let ?n = "lc_chunk_size c" and ?p = "lc_prefix c" and ?name = "lc_name c" and ?h = "hdr c fs"
  note ok = log_ok_files [OF assms(1)]
  have fits: "\<forall>p. fits (file_of fs p)" and n8: "8 \<le> unat ?n" using ok by (simp_all add: files_ok_def)
  have n0: "?n \<noteq> 0" using n8 by auto
  let ?b = "zero_fill 262144 (file_of fs (meta_path ?p ?name))"
  have mf: "file_of fs (meta_path ?p ?name) = metaf c fs"
    using files_meta(5) [OF ok] by simp
  have inb: "32 * (unat (h_next ?h) + 1) \<le> length (metaf c fs)" by (rule meta_length [OF ok])
  have "extent 0 32 ?b = extent 0 32 (metaf c fs)"
    unfolding mf using inb by (intro slice_zero_fill) simp
  then have h: "bytes_header (extent 0 32 ?b) = ?h" by (simp add: hdr_def)
  have hc: "?h\<lparr> h_chunk := ?n \<rparr> = ?h" using files_meta(7) [OF ok] by simp
  let ?cp = "chunk_path ?p ?name (h_last ?h)"
  obtain c' fs' where c: "log_open ?name ?p ?n cache_size fs = Done (c', fs')"
    "c' = \<lparr> lc_name = ?name, lc_prefix = ?p, lc_chunk_size = ?n, lc_meta = meta_map ?p ?name,
          lc_last = Some \<lparr> mf_name = ?cp, mf_size = ?n \<rparr>, lc_cache = lru_init cache_size \<rparr>"
    "fs' = fs(meta_path ?p ?name \<mapsto> put_at 0 (header_bytes ?h) ?b, ?cp \<mapsto> zero_fill (unat ?n) (file_of fs ?cp))"
    "hdr c' fs' = ?h" "\<forall>i. ent c' fs' i = bytes_entry (extent (32 + 32 * unat i) 32 ?b)"
    using open_law [OF fits n0, of ?name ?p cache_size] unfolding h hc by blast
  note last = last_chunk [OF ok]
  have "zero_fill (unat ?n) (file_of fs ?cp) = file_of fs ?cp"
    using last(3) by (simp add: zero_fill_def)
  then have chunks: "file_of fs' q = file_of fs q" if "q \<noteq> meta_path ?p ?name" for q
    using that by (simp add: c(3))
  have some: "fs' q \<noteq> None" if "fs q \<noteq> None" for q using that by (simp add: c(3))
  have len: "262144 \<le> length ?b" by (simp add: length_zero_fill)
  have lmeta: "length (file_of fs' (meta_path ?p ?name)) = length ?b"
    using len by (simp add: c(3) length_put_at)
  have ent: "ent c' fs' i = ent c fs i" if "i < h_next ?h" for i
  proof -
    have "unat i < unat (h_next ?h)" using that by (simp add: word_less_nat_alt)
    then have "extent (32 + 32 * unat i) 32 ?b = extent (32 + 32 * unat i) 32 (metaf c fs)"
      unfolding mf using inb by (intro slice_zero_fill) simp
    then show ?thesis using c(5) by (simp add: ent_def)
  qed
  have live: "live_ids c' fs' = live_ids c fs" using ent by (auto simp: live_ids_def c(4))
  have cm: "chunk_map c' = chunk_map c" "entry_ok c' = entry_ok c"
    by (simp_all add: chunk_map_def entry_ok_def c(2) fun_eq_iff)
  have end1: "chunk_end c' fs' k = chunk_end c fs k" for k
    using chunks by (simp add: chunk_end_def c(2))
  have "fits (file_of fs' q)" for q
    using fits chunks lmeta by (cases "q = meta_path ?p ?name") (simp_all add: length_zero_fill mf)
  moreover have "mapped_ok fs' (chunk_map c k)" if "mapped_ok fs (chunk_map c k)" for k
    using that chunks some by (simp add: mapped_ok_def chunk_map_def)
  moreover have "mapped_ok fs' (meta_map ?p ?name)"
    using lmeta len by (simp add: mapped_ok_def meta_map_def) (simp add: c(3))
  moreover have "lru_ok (lru_init cache_size)" using assms(2) by (rule lru_ok_init)
  moreover have c2: "lc_chunk_size c' = ?n" "lc_meta c' = meta_map ?p ?name" "lc_name c' = ?name"
    "lc_prefix c' = ?p" "lc_cache c' = lru_init cache_size" "lc_last c' = Some (chunk_map c (h_last ?h))"
    by (simp_all add: c(2) chunk_map_def)
  ultimately have "files_ok c' fs'"
    using ok n8 assms(3) unfolding files_ok_def c(4) cm c2
    by (simp add: meta_map_def lru_init_def)
  moreover have "\<forall>i \<in> live_ids c fs. ent c' fs' i = ent c fs i"
    using ent by (simp add: live_ids_def)
  ultimately have "log_ok c' fs'"
    using assms(1) unfolding log_ok_def log_ok_at_def end1 c(4) live cm c2 by simp
  moreover have "log_docs c' fs' = log_docs c fs"
    using \<open>\<forall>i \<in> live_ids c fs. ent c' fs' i = ent c fs i\<close> chunks
    by (auto simp: log_docs_def live Let_def fun_eq_iff c2)
  ultimately show ?thesis using c(1,4) c2 by auto
qed

end
