(* ===== verification/LogBackend.thy ===== *)
theory LogBackend
  imports LogContract ArrayBackend
begin

text \<open>
  The log backend (log.cpp): document collections kept in memory-mapped files of the directory
  \<open>m_path\<close>. The database holds the open collections; their content is in the file system, which
  every operation takes and returns.
\<close>

record log_db =
  ld_colls :: "bytes \<rightharpoonup> log_coll"
  ld_path :: bytes
  ld_chunk_size :: size_t
  ld_cache_size :: size_t
  ld_migrated :: bool

definition log_supportsMode :: "bool \<Rightarrow> mode_t \<Rightarrow> bool" where
  "log_supportsMode has_lua mode = within_mask mode
     (YOKAN_MODE_INCLUSIVE OR YOKAN_MODE_CONSUME OR YOKAN_MODE_WAIT
      OR (if has_lua then YOKAN_MODE_LUA_FILTER else 0) OR YOKAN_MODE_IGNORE_DOCS
      OR YOKAN_MODE_FILTER_VALUE OR YOKAN_MODE_LIB_FILTER OR YOKAN_MODE_NO_RDMA
      OR YOKAN_MODE_UPDATE_NEW)"

text \<open>The file \<open>p\<close> and everything below the directory \<open>p\<close>.\<close>

definition fs_remove_all :: "bytes \<Rightarrow> files \<Rightarrow> files" where
  "fs_remove_all p fs = (\<lambda>q. if q = p \<or> take (length p + 1) q = p @ [47] then None else fs q)"

section \<open>Collections\<close>

definition log_collCreate :: "mode_t \<Rightarrow> bytes \<Rightarrow> log_db \<Rightarrow> files \<Rightarrow> (status \<times> log_db \<times> files) outcome" where
  "log_collCreate mode name db fs =
     (if ld_colls db name \<noteq> None then Done (KeyExists, db, fs)
      else obind (log_open name (ld_path db) (ld_chunk_size db) (ld_cache_size db) fs) (\<lambda>(c, fs').
             Done (OK, db\<lparr> ld_colls := (ld_colls db)(name \<mapsto> c) \<rparr>, fs')))"

text \<open>What is removed is a directory of the collection's name, which nothing creates.\<close>

definition log_collDrop :: "mode_t \<Rightarrow> bytes \<Rightarrow> log_db \<Rightarrow> files \<Rightarrow> status \<times> log_db \<times> files" where
  "log_collDrop mode name db fs =
     (if ld_colls db name = None then (NotFound, db, fs)
      else (OK, db\<lparr> ld_colls := (ld_colls db)(name := None) \<rparr>,
            fs_remove_all (ld_path db @ [47] @ name) fs))"

definition log_collExists :: "mode_t \<Rightarrow> bytes \<Rightarrow> log_db \<Rightarrow> status \<times> bool" where
  "log_collExists mode name db = (OK, ld_colls db name \<noteq> None)"

definition log_collLastID :: "mode_t \<Rightarrow> bytes \<Rightarrow> log_db \<Rightarrow> files \<Rightarrow> (status \<times> size_t option) outcome" where
  "log_collLastID mode name db fs =
     (case ld_colls db name of
        None \<Rightarrow> Done (NotFound, None)
      | Some c \<Rightarrow> obind (log_last_id c fs) (\<lambda>i. Done (OK, Some i)))"

definition log_collSize :: "mode_t \<Rightarrow> bytes \<Rightarrow> log_db \<Rightarrow> files \<Rightarrow> (status \<times> size_t option) outcome" where
  "log_collSize mode name db fs =
     (case ld_colls db name of
        None \<Rightarrow> Done (NotFound, None)
      | Some c \<Rightarrow> obind (log_size c fs) (\<lambda>n. Done (OK, Some n)))"

section \<open>Documents\<close>

fun log_docSize_loop :: "log_coll \<Rightarrow> size_t list \<Rightarrow> nat \<Rightarrow> size_t list \<Rightarrow> files
    \<Rightarrow> (status \<times> size_t list) outcome" where
  "log_docSize_loop c [] k sizes fs = Done (OK, sizes)"
| "log_docSize_loop c (i # ids) k sizes fs =
     obind (log_entrySize i c fs) (\<lambda>(st, n).
       if st = NotFound then log_docSize_loop c ids (Suc k) (sizes[k := YOKAN_KEY_NOT_FOUND]) fs
       else if st \<noteq> OK then Done (st, sizes)
       else log_docSize_loop c ids (Suc k) (sizes[k := the n]) fs)"

definition log_docSize :: "bytes \<Rightarrow> mode_t \<Rightarrow> size_t list \<Rightarrow> size_t list \<Rightarrow> log_db \<Rightarrow> files
    \<Rightarrow> (status \<times> size_t list) outcome" where
  "log_docSize name mode ids sizes db fs =
     (if length sizes < length ids then Undef
      else case ld_colls db name of
        None \<Rightarrow> Done (OK, map (\<lambda>_. YOKAN_KEY_NOT_FOUND) ids @ drop (length ids) sizes)
      | Some c \<Rightarrow> log_docSize_loop c ids 0 sizes fs)"

definition log_docStore :: "bytes \<Rightarrow> mode_t \<Rightarrow> bytes \<Rightarrow> size_t list \<Rightarrow> size_t list \<Rightarrow> log_db \<Rightarrow> files
    \<Rightarrow> (status \<times> size_t list \<times> log_db \<times> files) outcome" where
  "log_docStore name mode documents sizes ids db fs =
     (case ld_colls db name of
        None \<Rightarrow> Done (NotFound, ids, db, fs)
      | Some c \<Rightarrow> obind (log_append documents sizes ids c fs) (\<lambda>(st, ids', c', fs').
          Done (st, ids', db\<lparr> ld_colls := (ld_colls db)(name \<mapsto> c') \<rparr>, fs')))"

definition log_docUpdate :: "bytes \<Rightarrow> mode_t \<Rightarrow> size_t list \<Rightarrow> bytes \<Rightarrow> size_t list \<Rightarrow> log_db \<Rightarrow> files
    \<Rightarrow> (status \<times> log_db \<times> files) outcome" where
  "log_docUpdate name mode ids documents sizes db fs =
     (case ld_colls db name of
        None \<Rightarrow> Done (NotFound, db, fs)
      | Some c \<Rightarrow> obind (log_last_id c fs) (\<lambda>last_id.
          if \<not> has_mode mode YOKAN_MODE_UPDATE_NEW \<and> (\<exists>i \<in> set ids. i > last_id)
          then Done (InvalidID, db, fs)
          else obind (log_update ids documents sizes c fs) (\<lambda>(st, c', fs').
            Done (st, db\<lparr> ld_colls := (ld_colls db)(name \<mapsto> c') \<rparr>, fs'))))"

text \<open>A document that does not fit ends the packed loop.\<close>

fun log_load_packed :: "size_t list \<Rightarrow> size_t \<Rightarrow> size_t \<Rightarrow> bytes \<Rightarrow> log_coll \<Rightarrow> files
    \<Rightarrow> (status \<times> size_t list \<times> bytes \<times> log_coll \<times> files) outcome" where
  "log_load_packed [] doc_ptr remaining documents c fs = Done (OK, [], documents, c, fs)"
| "log_load_packed (i # ids) doc_ptr remaining documents c fs =
     obind (log_read i remaining c fs) (\<lambda>(st, doc, c1, fs1).
       if st = SizeError
       then Done (OK, replicate (Suc (length ids)) YOKAN_SIZE_TOO_SMALL, documents, c1, fs1)
       else if st = NotFound \<or> st = InvalidID then
         obind (log_load_packed ids doc_ptr remaining documents c1 fs1) (\<lambda>(st, ns, docs, c2, fs2).
           Done (st, YOKAN_KEY_NOT_FOUND # ns, docs, c2, fs2))
       else if st \<noteq> OK then Done (st, [], documents, c1, fs1)
       else
         obind (memcpy_to documents doc_ptr doc) (\<lambda>documents'.
         let n = usize doc;
             used = (if n \<le> YOKAN_LAST_VALID_SIZE then n else 0) in
         obind (log_load_packed ids (doc_ptr + used) (remaining - used) documents' c1 fs1)
           (\<lambda>(st, ns, docs, c2, fs2). Done (st, n # ns, docs, c2, fs2))))"

fun log_load_unpacked :: "(size_t \<times> size_t) list \<Rightarrow> size_t \<Rightarrow> bytes \<Rightarrow> log_coll \<Rightarrow> files
    \<Rightarrow> (status \<times> size_t list \<times> bytes \<times> log_coll \<times> files) outcome" where
  "log_load_unpacked [] doc_ptr documents c fs = Done (OK, [], documents, c, fs)"
| "log_load_unpacked ((i, buf_size) # rest) doc_ptr documents c fs =
     obind (log_read i buf_size c fs) (\<lambda>(st, doc, c1, fs1).
       if st \<notin> {OK, InvalidID, NotFound, SizeError} then Done (st, [], documents, c1, fs1)
       else
         obind (if st = OK then memcpy_to documents doc_ptr doc else Done documents) (\<lambda>documents'.
         obind (log_load_unpacked rest (doc_ptr + buf_size) documents' c1 fs1)
           (\<lambda>(st', ns, docs, c2, fs2).
             Done (st', (if st = OK then usize doc
                         else if st = SizeError then YOKAN_SIZE_TOO_SMALL
                         else YOKAN_KEY_NOT_FOUND) # ns, docs, c2, fs2))))"

definition log_docLoad :: "bytes \<Rightarrow> mode_t \<Rightarrow> bool \<Rightarrow> size_t list \<Rightarrow> bytes \<Rightarrow> size_t list \<Rightarrow> log_db
    \<Rightarrow> files \<Rightarrow> (status \<times> bytes \<times> size_t list \<times> log_db \<times> files) outcome" where
  "log_docLoad name mode packed ids documents sizes db fs =
     (case ld_colls db name of
        None \<Rightarrow> Done (NotFound, documents, sizes, db, fs)
      | Some c \<Rightarrow>
          if length sizes < length ids then Undef
          else
            obind (if packed then log_load_packed ids 0 (usize documents) documents c fs
                   else log_load_unpacked (zip ids sizes) 0 documents c fs)
              (\<lambda>(st, ns, docs, c', fs'). Done (st, docs, ns @ drop (length ns) sizes,
                 db\<lparr> ld_colls := (ld_colls db)(name \<mapsto> c') \<rparr>, fs')))"

text \<open>\<open>docFetch\<close> and \<open>docErase\<close> drop the status of each step.\<close>

fun log_fetch_loop :: "size_t list \<Rightarrow> (size_t \<Rightarrow> bytes option \<Rightarrow> 'st \<Rightarrow> (status \<times> 'st) outcome) \<Rightarrow> 'st
    \<Rightarrow> log_coll \<Rightarrow> files \<Rightarrow> ('st \<times> log_coll \<times> files) outcome" where
  "log_fetch_loop [] func st c fs = Done (st, c, fs)"
| "log_fetch_loop (i # ids) func st c fs =
     obind (log_fetch i func st c fs) (\<lambda>(status, st', c', fs'). log_fetch_loop ids func st' c' fs')"

definition log_docFetch :: "bytes \<Rightarrow> mode_t \<Rightarrow> size_t list
    \<Rightarrow> (size_t \<Rightarrow> bytes option \<Rightarrow> 'st \<Rightarrow> (status \<times> 'st) outcome) \<Rightarrow> 'st \<Rightarrow> log_db \<Rightarrow> files
    \<Rightarrow> (status \<times> 'st \<times> log_db \<times> files) outcome" where
  "log_docFetch name mode ids func st db fs =
     (case ld_colls db name of
        None \<Rightarrow> Done (NotFound, st, db, fs)
      | Some c \<Rightarrow> obind (log_fetch_loop ids func st c fs) (\<lambda>(st', c', fs').
          Done (OK, st', db\<lparr> ld_colls := (ld_colls db)(name \<mapsto> c') \<rparr>, fs')))"

fun log_erase_loop :: "size_t list \<Rightarrow> log_coll \<Rightarrow> files \<Rightarrow> (log_coll \<times> files) outcome" where
  "log_erase_loop [] c fs = Done (c, fs)"
| "log_erase_loop (i # ids) c fs =
     obind (log_erase i c fs) (\<lambda>(status, c', fs'). log_erase_loop ids c' fs')"

definition log_docErase :: "bytes \<Rightarrow> mode_t \<Rightarrow> size_t list \<Rightarrow> log_db \<Rightarrow> files
    \<Rightarrow> (status \<times> log_db \<times> files) outcome" where
  "log_docErase name mode ids db fs =
     (case ld_colls db name of
        None \<Rightarrow> Done (NotFound, db, fs)
      | Some c \<Rightarrow> obind (log_erase_loop ids c fs) (\<lambda>(c', fs').
          Done (OK, db\<lparr> ld_colls := (ld_colls db)(name \<mapsto> c') \<rparr>, fs')))"

section \<open>Iterating\<close>

text \<open>What the callback of \<open>docIter\<close> captures: \<open>id\<close>, \<open>i\<close>, \<open>status\<close>, and the caller's state.\<close>

record 'st log_iter =
  li_id :: size_t
  li_i :: size_t
  li_status :: status
  li_st :: 'st

definition log_iter_callback :: "bytes \<Rightarrow> doc_filter \<Rightarrow> size_t \<Rightarrow> 'st doc_cb \<Rightarrow> size_t \<Rightarrow> bytes option
    \<Rightarrow> 'st log_iter \<Rightarrow> (status \<times> 'st log_iter) outcome" where
  "log_iter_callback name flt limit func did doc s =
     (case doc of
        None \<Rightarrow> Done (OK, s\<lparr> li_id := li_id s + 1 \<rparr>)
      | Some d \<Rightarrow>
          if \<not> d_check flt name (li_id s) d then
            (if d_stop flt name d then Done (OK, s\<lparr> li_i := limit \<rparr>)
             else Done (OK, s\<lparr> li_id := li_id s + 1 \<rparr>))
          else
            obind (filter_doc flt name d) (\<lambda>fdoc.
            obind (func (li_id s) fdoc (li_st s)) (\<lambda>(status, st').
              if status \<noteq> OK
              then Done (OK, s\<lparr> li_status := status, li_st := st', li_i := limit \<rparr>)
              else Done (OK, s\<lparr> li_status := status, li_st := st', li_id := li_id s + 1,
                                 li_i := li_i s + 1 \<rparr>))))"

text \<open>The loop of \<open>docIter\<close>; \<open>None\<close> is a loop that never ends.\<close>

partial_function (option) log_iter_loop :: "bytes \<Rightarrow> doc_filter \<Rightarrow> size_t \<Rightarrow> 'st doc_cb \<Rightarrow> 'st log_iter
    \<Rightarrow> log_coll \<Rightarrow> files \<Rightarrow> (status \<times> 'st \<times> log_coll \<times> files) outcome option" where
  "log_iter_loop name flt limit func s c fs =
     (case log_last_id c fs of
        Done last_id \<Rightarrow>
          (if \<not> (li_i s < limit \<and> li_id s \<le> last_id) then Some (Done (li_status s, li_st s, c, fs))
           else
             (case log_fetch (li_id s) (log_iter_callback name flt limit func) s c fs of
                Done (status, s', c', fs') \<Rightarrow>
                  (if li_status s' \<noteq> OK then Some (Done (li_status s', li_st s', c', fs'))
                   else log_iter_loop name flt limit func s' c' fs')
              | Undef \<Rightarrow> Some Undef
              | Hung \<Rightarrow> Some Hung))
      | Undef \<Rightarrow> Some Undef
      | Hung \<Rightarrow> Some Hung)"

definition log_docIter :: "bytes \<Rightarrow> mode_t \<Rightarrow> size_t \<Rightarrow> size_t \<Rightarrow> doc_filter \<Rightarrow> 'st doc_cb \<Rightarrow> 'st \<Rightarrow> log_db
    \<Rightarrow> files \<Rightarrow> (status \<times> 'st \<times> log_db \<times> files) outcome" where
  "log_docIter name mode limit from_id flt func st db fs =
     (case ld_colls db name of
        None \<Rightarrow> Done (NotFound, st, db, fs)
      | Some c \<Rightarrow>
          (case log_iter_loop name flt limit func
                  \<lparr> li_id = from_id, li_i = 0, li_status = OK, li_st = st \<rparr> c fs of
             None \<Rightarrow> Hung
           | Some r \<Rightarrow> obind r (\<lambda>(status, st', c', fs').
               Done (status, st', db\<lparr> ld_colls := (ld_colls db)(name \<mapsto> c') \<rparr>, fs'))))"

text \<open>The callback of \<open>docList\<close> is the one of array.cpp, word for word.\<close>

definition log_docList :: "bytes \<Rightarrow> mode_t \<Rightarrow> bool \<Rightarrow> size_t \<Rightarrow> doc_filter \<Rightarrow> size_t list \<Rightarrow> bytes
    \<Rightarrow> size_t list \<Rightarrow> log_db \<Rightarrow> files \<Rightarrow> (status \<times> dl_state \<times> log_db \<times> files) outcome" where
  "log_docList name mode packed from_id flt ids documents doc_sizes db fs =
     obind (log_docIter name mode (usize ids) from_id flt (array_docList_callback packed)
              \<lparr> dl_i = 0, dl_offset = 0, dl_ids = ids, dl_docs = documents, dl_sizes = doc_sizes \<rparr> db fs)
       (\<lambda>(status, s, db', fs'). Done (status, s\<lparr> dl_ids := fill_docs (dl_i s) (dl_ids s),
          dl_sizes := fill_docs (dl_i s) (dl_sizes s) \<rparr>, db', fs'))"

section \<open>Opening, destroying, migrating\<close>

definition log_destroy :: "log_db \<Rightarrow> files \<Rightarrow> log_db \<times> files" where
  "log_destroy db fs = (db\<lparr> ld_colls := Map.empty \<rparr>, fs_remove_all (ld_path db) fs)"

text \<open>\<open>filename.substr(filename.find_last_of('/') + 1)\<close>, and what \<open>recover\<close> keeps of the root.\<close>

definition after_slash :: "bytes \<Rightarrow> bytes" where
  "after_slash s = rev (takeWhile (\<lambda>b. b \<noteq> 47) (rev s))"

definition before_slash :: "bytes \<Rightarrow> bytes" where
  "before_slash s = (if 47 \<in> set s then rev (tl (dropWhile (\<lambda>b. b \<noteq> 47) (rev s))) else s)"

text \<open>\<open>entries\<close> are the regular files that the directory iterator yields, in its order.\<close>

fun log_open_all :: "bytes list \<Rightarrow> log_db \<Rightarrow> files \<Rightarrow> (log_db \<times> files) outcome" where
  "log_open_all [] db fs = Done (db, fs)"
| "log_open_all (filename # entries) db fs =
     (let suffix = drop (length filename - 5) filename;
          base = after_slash filename;
          name = take (length base - 5) base in
      if length filename \<le> 5 \<or> suffix \<noteq> [46, 109, 101, 116, 97] then log_open_all entries db fs
      else obind (log_open name (ld_path db) (ld_chunk_size db) (ld_cache_size db) fs) (\<lambda>(c, fs').
             log_open_all entries
               (if ld_colls db name \<noteq> None then db
                else db\<lparr> ld_colls := (ld_colls db)(name \<mapsto> c) \<rparr>) fs'))"

definition log_open_db :: "bytes \<Rightarrow> size_t \<Rightarrow> size_t \<Rightarrow> bytes list \<Rightarrow> files \<Rightarrow> (log_db \<times> files) outcome" where
  "log_open_db path chunk_size cache_size entries fs =
     log_open_all entries \<lparr> ld_colls = Map.empty, ld_path = path, ld_chunk_size = chunk_size,
       ld_cache_size = cache_size, ld_migrated = False \<rparr> fs"

definition log_recover :: "bytes \<Rightarrow> size_t \<Rightarrow> size_t \<Rightarrow> bytes list \<Rightarrow> files
    \<Rightarrow> (status \<times> log_db \<times> files) outcome" where
  "log_recover root chunk_size cache_size entries fs =
     obind (log_open_db (before_slash root) chunk_size cache_size entries fs) (\<lambda>(db, fs').
       Done (OK, db, fs'))"

text \<open>The handle only remembers whether it was cancelled.\<close>

definition log_startMigration :: "log_db \<Rightarrow> status \<times> bool option" where
  "log_startMigration db = (if ld_migrated db then (Migrated, None) else (OK, Some False))"

definition log_endMigration :: "bool \<Rightarrow> log_db \<Rightarrow> files \<Rightarrow> log_db \<times> files" where
  "log_endMigration cancelled db fs =
     (if cancelled then (db, fs)
      else case log_destroy db fs of (db', fs') \<Rightarrow> (db'\<lparr> ld_migrated := True \<rparr>, fs'))"

end
