(* ===== verification/LogProperties.thy ===== *)
theory LogProperties
  imports ArrayProperties LogBackend
begin

text \<open>
  The properties of the log backend: its operations on the documents of a collection kept in
  files, the cache of open chunks, and the defects of \<open>docIter\<close> and \<open>docUpdate\<close>.
\<close>

section \<open>A fresh collection\<close>

text \<open>A database in the directory \<open>d\<close> with chunks of \<open>n\<close> bytes, nothing on disk.\<close>

definition log_db0 :: "size_t \<Rightarrow> log_db" where
  "log_db0 n = \<lparr> ld_colls = Map.empty, ld_path = [100], ld_chunk_size = n, ld_cache_size = 2,
                 ld_migrated = False \<rparr>"

lemma fresh_coll:
  assumes "8 \<le> unat n"
  obtains c fs where "log_collCreate 0 name (log_db0 n) Map.empty
      = Done (OK, (log_db0 n)\<lparr> ld_colls := [name \<mapsto> c] \<rparr>, fs)" "log_ok c fs"
    "log_docs c fs = Map.empty" "hdr c fs = \<lparr> h_size = 0, h_next = 0, h_last = 0, h_chunk = n \<rparr>"
    "lc_name c = name" "lc_prefix c = [100]" "lc_chunk_size c = n"
proof -
  obtain c fs where "log_open name [100] n 2 Map.empty = Done (c, fs)" "log_ok c fs"
    "log_docs c fs = Map.empty" "hdr c fs = \<lparr> h_size = 0, h_next = 0, h_last = 0, h_chunk = n \<rparr>"
    "lc_name c = name" "lc_prefix c = [100]" "lc_chunk_size c = n"
    using open_fresh [of Map.empty n 2 "[100]" name] assms by (auto simp: file_of_def)
  then show ?thesis using that by (simp add: log_collCreate_def log_db0_def)
qed

section \<open>Storing and loading\<close>

text \<open>
  C33: \<open>docStore\<close> appends the documents to the chunks, opening new ones as they fill up, and
  returns the next identifiers; the other documents stay, and \<open>collSize\<close> counts the documents.
\<close>

theorem log_docStore_appends:
  assumes "ld_colls db name = Some c" "log_ok c fs" "packs documents xs sizes" "length ids = length xs"
    and "\<forall>x \<in> set xs. length x + 8 \<le> unat (lc_chunk_size c)"
    and "unat (h_next (hdr c fs)) + length xs < 2 ^ 50" "unat (h_last (hdr c fs)) + length xs < 2 ^ 63"
  shows "\<exists>c' fs'. log_docStore name mode documents sizes ids db fs
      = Done (OK, fresh_from (h_next (hdr c fs)) (length xs), db\<lparr> ld_colls := (ld_colls db)(name \<mapsto> c') \<rparr>, fs')
    \<and> log_ok c' fs'
    \<and> log_docs c' fs' = (log_docs c fs)(fresh_from (h_next (hdr c fs)) (length xs) [\<mapsto>] xs)
    \<and> log_collSize mode name (db\<lparr> ld_colls := (ld_colls db)(name \<mapsto> c') \<rparr>) fs'
        = Done (OK, Some (of_nat (card (dom (log_docs c' fs')))))"
proof -
  obtain c' fs' where a: "log_append documents sizes ids c fs
      = Done (OK, fresh_from (h_next (hdr c fs)) (length xs), c', fs')" "log_ok c' fs'"
    "log_docs c' fs' = (log_docs c fs)(fresh_from (h_next (hdr c fs)) (length xs) [\<mapsto>] xs)"
    using append_ok [OF assms(2-7)] by blast
  have "h_size (hdr c' fs') = of_nat (card (dom (log_docs c' fs')))"
    using a(2) by (simp add: log_ok_def log_ok_at_def dom_log_docs)
  then show ?thesis
    using a assms(1) log_header_law [OF log_ok_files [OF a(2)]]
    by (auto simp: log_docStore_def log_collSize_def log_size_def)
qed

theorem log_docStore_appends_witness:
  "\<exists>db fs db' fs'. log_collCreate 0 [97] (log_db0 16) Map.empty = Done (OK, db, fs)
    \<and> log_docStore [97] 0 [1, 2, 3, 4, 5, 6, 7, 8, 9] [8, 1] [0, 0] db fs = Done (OK, [0, 1], db', fs')
    \<and> log_collSize 0 [97] db' fs' = Done (OK, Some 2)"
proof -
  obtain c fs where c: "log_collCreate 0 [97] (log_db0 16) Map.empty
      = Done (OK, (log_db0 16)\<lparr> ld_colls := [[97] \<mapsto> c] \<rparr>, fs)" "log_ok c fs"
    "log_docs c fs = Map.empty" "hdr c fs = \<lparr> h_size = 0, h_next = 0, h_last = 0, h_chunk = 16 \<rparr>"
    "lc_chunk_size c = 16"
    by (rule fresh_coll [of 16 "[97]"]) simp_all
  let ?db = "(log_db0 16)\<lparr> ld_colls := [[97] \<mapsto> c] \<rparr>"
  have "ld_colls ?db [97] = Some c" "packs [1, 2, 3, 4, 5, 6, 7, 8, 9] [[1, 2, 3, 4, 5, 6, 7, 8], [9]] [8, 1]"
    "length [0, 0 :: size_t] = length [[1, 2, 3, 4, 5, 6, 7, 8], [9 :: byte]]"
    "\<forall>x \<in> set [[1, 2, 3, 4, 5, 6, 7, 8], [9 :: byte]]. length x + 8 \<le> unat (lc_chunk_size c)"
    "unat (h_next (hdr c fs)) + length [[1, 2, 3, 4, 5, 6, 7, 8], [9 :: byte]] < 2 ^ 50"
    "unat (h_last (hdr c fs)) + length [[1, 2, 3, 4, 5, 6, 7, 8], [9 :: byte]] < 2 ^ 63"
    using c(4,5) by (simp_all add: packs_def usize_def)
  from log_docStore_appends [OF this(1) c(2) this(2-6), of 0] c(1,3,4) show ?thesis
    by (fastforce simp: fresh_from_def upt_conv_Cons)
qed

text \<open>Two documents in a collection of chunks of 16 bytes.\<close>

lemma two_docs:
  obtains db :: log_db and c fs where "ld_colls db [97] = Some c" "log_ok c fs"
    "log_docs c fs = [0 \<mapsto> [5], 1 \<mapsto> [6, 7]]" "h_next (hdr c fs) = 2"
    "lc_name c = [97]" "lc_prefix c = [100]" "lc_chunk_size c = 16" "unat (h_last (hdr c fs)) \<le> 2"
proof -
  obtain c0 fs0 where c0: "log_collCreate 0 [97] (log_db0 16) Map.empty
      = Done (OK, (log_db0 16)\<lparr> ld_colls := [[97] \<mapsto> c0] \<rparr>, fs0)" "log_ok c0 fs0"
    "log_docs c0 fs0 = Map.empty" "hdr c0 fs0 = \<lparr> h_size = 0, h_next = 0, h_last = 0, h_chunk = 16 \<rparr>"
    "lc_name c0 = [97]" "lc_prefix c0 = [100]" "lc_chunk_size c0 = 16"
    by (rule fresh_coll [of 16 "[97]"]) simp_all
  have "packs [5, 6, 7] [[5], [6, 7]] [1, 2]" "length [0, 0 :: size_t] = length [[5], [6, 7 :: byte]]"
    "\<forall>x \<in> set [[5], [6, 7 :: byte]]. length x + 8 \<le> unat (lc_chunk_size c0)"
    "unat (h_next (hdr c0 fs0)) + length [[5], [6, 7 :: byte]] < 2 ^ 50"
    "unat (h_last (hdr c0 fs0)) + length [[5], [6, 7 :: byte]] < 2 ^ 63"
    using c0(4,7) by (simp_all add: packs_def usize_def)
  from append_ok [OF c0(2) this] obtain c fs where c: "log_append [5, 6, 7] [1, 2] [0, 0] c0 fs0
      = Done (OK, [0, 1], c, fs)" "log_ok c fs" "same_coll c0 c"
    "log_docs c fs = [0 \<mapsto> [5], 1 \<mapsto> [6, 7]]" "h_next (hdr c fs) = usize [[5], [6, 7 :: byte]]"
    "unat (h_last (hdr c fs)) \<le> 2"
    using c0(3,4) by (auto simp: fresh_from_def upt_conv_Cons)
  then show ?thesis
    using c c0 by (intro that [of "(log_db0 16)\<lparr> ld_colls := [[97] \<mapsto> c] \<rparr>" c fs]) (simp_all add: usize_def)
qed

text \<open>A read, by what the collection stands for.\<close>

lemma read_cases:
  assumes "log_ok c fs"
  obtains c1 where "log_ok c1 fs" "same_coll c c1" "log_docs c1 fs = log_docs c fs"
    "log_read i n c fs = (case read_answer c fs i n of (st, d) \<Rightarrow> Done (st, d, c1, fs))"
proof -
  obtain ca where "log_read i n c fs = Done (case read_answer c fs i n of (st, d) \<Rightarrow>
      (st, d, c\<lparr> lc_cache := ca \<rparr>, fs))" "log_ok (c\<lparr> lc_cache := ca \<rparr>) fs"
    using read_ok [OF assms] by blast
  then show ?thesis by (intro that [of "c\<lparr> lc_cache := ca \<rparr>"]) (auto split: prod.split)
qed

lemma log_load_packed_law:
  assumes "log_ok c fs" "fits (pre @ tail)" "length tail \<le> unat YOKAN_LAST_VALID_SIZE"
  shows "\<exists>c'. log_load_packed ids (usize pre) (usize tail) (pre @ tail) c fs
    = (case array_pack (\<lambda>n. log_docs c fs (of_nat n)) (length tail) ids of
         (ns, out) \<Rightarrow> Done (OK, ns, pre @ out @ drop (length out) tail, c', fs))
    \<and> log_ok c' fs \<and> log_docs c' fs = log_docs c fs"
  using assms
proof (induction ids arbitrary: pre tail c)
  case Nil
  then show ?case by auto
next
  case (Cons i ids)
  obtain c1 where c1: "log_ok c1 fs" "log_docs c1 fs = log_docs c fs"
    "log_read i (usize tail) c fs = (case read_answer c fs i (usize tail) of (st, d) \<Rightarrow> Done (st, d, c1, fs))"
    using read_cases [OF Cons.prems(1)] by metis
  have i: "of_nat (unat i) = i" by simp
  show ?case
  proof (cases "log_docs c fs i")
    case None
    obtain c' where "log_load_packed ids (usize pre) (usize tail) (pre @ tail) c1 fs
      = (case array_pack (\<lambda>n. log_docs c fs (of_nat n)) (length tail) ids of
           (ns, out) \<Rightarrow> Done (OK, ns, pre @ out @ drop (length out) tail, c', fs))"
      "log_ok c' fs" "log_docs c' fs = log_docs c fs"
      using Cons.IH [OF c1(1) Cons.prems(2,3)] c1(2) by auto
    then show ?thesis
      using None c1(3) i by (auto simp: read_answer_def split: prod.split)
  next
    case (Some d)
    then have "i \<in> live_ids c fs" by (metis domI dom_log_docs)
    then have "length d = unat (e_size (ent c fs i))"
      using doc_extent(4) [OF Cons.prems(1), of i] Some by simp
    then have fd: "fits d" using unat_size_less by metis
    have le: "usize tail < usize d \<longleftrightarrow> length tail < length d"
      using usize_le_iff [OF fd, of tail] Cons.prems(2) by (simp add: not_le [symmetric])
    show ?thesis
    proof (cases "length tail < length d")
      case True
      then show ?thesis
        using Some le i c1 by (intro exI [of _ c1]) (simp add: read_answer_def)
    next
      case False
      let ?rest = "drop (length d) tail"
      have fit: "length d \<le> length tail" using False by simp
      have mc: "memcpy_to (pre @ tail) (usize pre) d = Done ((pre @ d) @ ?rest)"
        using memcpy_to_append [of pre "take (length d) tail" ?rest d] Cons.prems(2) fit by simp
      have arith: "usize pre + usize d = usize (pre @ d)" "usize tail - usize d = usize ?rest"
        using fit by (simp_all add: usize_def of_nat_diff)
      have valid: "usize d \<le> YOKAN_LAST_VALID_SIZE"
        using fit Cons.prems(3) fd by (simp add: word_le_nat_alt unat_usize)
      have "fits ((pre @ d) @ ?rest)" "length ?rest \<le> unat YOKAN_LAST_VALID_SIZE"
        using Cons.prems(2,3) fit by simp_all
      then obtain c' where "log_load_packed ids (usize (pre @ d)) (usize ?rest) ((pre @ d) @ ?rest) c1 fs
        = (case array_pack (\<lambda>n. log_docs c fs (of_nat n)) (length ?rest) ids of
             (ns, out) \<Rightarrow> Done (OK, ns, (pre @ d) @ out @ drop (length out) ?rest, c', fs))"
        "log_ok c' fs" "log_docs c' fs = log_docs c fs"
        using Cons.IH [OF c1(1), of "pre @ d" ?rest] unfolding c1(2) by blast
      moreover have "read_answer c fs i (usize tail) = (OK, d)"
        using Some le False by (simp add: read_answer_def)
      ultimately show ?thesis
        using Some False c1(3) mc arith valid i
        by (auto simp: Let_def split: prod.split) (simp add: add.commute)
    qed
  qed
qed

text \<open>
  C34: a packed \<open>docLoad\<close> of the log backend and of the array backend are the same function of the
  documents stored: the same bytes, the same sizes and markers, for any identifiers.
\<close>

theorem log_docLoad_like_array:
  assumes "ld_colls ldb name = Some c" "log_ok c fs" "ar_colls adb name = Some coll" "coll_ok coll"
    and "\<forall>i. coll_docs coll (unat i) = log_docs c fs i"
    and "length documents \<le> unat YOKAN_LAST_VALID_SIZE" "length sizes = length ids"
  shows "\<exists>docs ns ldb'. array_docLoad name mode True ids documents sizes adb = Done (OK, docs, ns)
    \<and> log_docLoad name mode True ids documents sizes ldb fs = Done (OK, docs, ns, ldb', fs)"
proof -
  have fits: "fits documents" using assms(6) unat_size_less [of YOKAN_LAST_VALID_SIZE] by linarith
  obtain ns out where p: "array_pack (coll_docs coll) (length documents) ids = (ns, out)"
    by force
  have "array_pack (\<lambda>n. log_docs c fs (of_nat n)) room is = array_pack (coll_docs coll) room is" for room "is"
    using assms(5) by (induction "is" arbitrary: room) (auto split: option.split)
  then obtain c' where l: "log_load_packed ids 0 (usize documents) documents c fs
      = Done (OK, ns, out @ drop (length out) documents, c', fs)"
    using log_load_packed_law [OF assms(2), of "[]" documents ids] fits assms(6) p by auto
  have len: "length ns = length ids"
  proof -
    have "array_pack m room is = (ns, out) \<Longrightarrow> length ns = length is" for m room "is" ns out
      by (induction m room "is" arbitrary: ns out rule: array_pack.induct)
        (auto split: option.splits if_splits prod.splits)
    then show ?thesis using p by blast
  qed
  have "array_docLoad name mode True ids documents sizes adb = Done (OK, out @ drop (length out) documents, ns)"
    using load_packed_law [OF assms(4), of "[]" documents ids] fits p assms(3,7)
    by (simp add: array_docLoad_def)
  then show ?thesis using l len assms(1,7) by (auto simp: log_docLoad_def)
qed

theorem log_docLoad_like_array_witness:
  "\<exists>adb db fs db'. array_docLoad [97] 0 True [1, 0, 5] [0, 0, 0, 0] [0, 0, 0] adb
      = Done (OK, [6, 7, 5, 0], [2, 1, YOKAN_KEY_NOT_FOUND])
    \<and> log_docLoad [97] 0 True [1, 0, 5] [0, 0, 0, 0] [0, 0, 0] db fs
      = Done (OK, [6, 7, 5, 0], [2, 1, YOKAN_KEY_NOT_FOUND], db', fs)"
proof -
  obtain db :: log_db and c fs where db: "ld_colls db [97] = Some c" "log_ok c fs"
    "log_docs c fs = [0 \<mapsto> [5], 1 \<mapsto> [6, 7]]"
    by (rule two_docs) blast
  let ?coll = "\<lparr> ac_data = [5, 6, 7], ac_count = 2, ac_offsets = [0, 1], ac_sizes = [1, 2] \<rparr>"
  let ?adb = "\<lparr> ar_colls = [[97] \<mapsto> ?coll], ar_migrated = False \<rparr>"
  have a1: "ar_colls ?adb [97] = Some ?coll" by simp
  have a2: "coll_ok ?coll"
  proof -
    have "live ?coll = {0, 1}"
      by (auto simp: live_def less_2_cases_iff YOKAN_KEY_NOT_FOUND_def)
    then show ?thesis by (simp add: coll_ok_def sound_below_def)
  qed
  have a3: "\<forall>i. coll_docs ?coll (unat i) = log_docs c fs i"
  proof
    fix i :: size_t
    have "coll_docs ?coll n = (if n = 0 then Some [5] else if n = 1 then Some [6, 7] else None)" for n
      by (auto simp: coll_docs_def live_def nth_Cons YOKAN_KEY_NOT_FOUND_def split: nat.splits)
    then show "coll_docs ?coll (unat i) = log_docs c fs i"
      by (simp add: db(3) word_unat_eq_iff)
  qed
  have a4: "length [0, 0, 0, 0 :: byte] \<le> unat YOKAN_LAST_VALID_SIZE"
    "length [0, 0, 0 :: size_t] = length [1, 0, 5 :: size_t]"
    by (simp_all add: YOKAN_LAST_VALID_SIZE_def)
  obtain docs ns db' where "array_docLoad [97] 0 True [1, 0, 5] [0, 0, 0, 0] [0, 0, 0] ?adb = Done (OK, docs, ns)"
    "log_docLoad [97] 0 True [1, 0, 5] [0, 0, 0, 0] [0, 0, 0] db fs = Done (OK, docs, ns, db', fs)"
    using log_docLoad_like_array [OF db(1,2) a1 a2 a3 a4, of 0] by (elim exE conjE)
  moreover have "array_docLoad [97] 0 True [1, 0, 5] [0, 0, 0, 0] [0, 0, 0] ?adb
      = Done (OK, [6, 7, 5, 0], [2, 1, YOKAN_KEY_NOT_FOUND])"
    by code_simp
  ultimately show ?thesis by auto
qed

section \<open>Erasing\<close>

lemma log_erase_loop_law:
  assumes "log_ok c fs" "unat (h_next (hdr c fs)) < 2 ^ 50"
  shows "\<exists>c' fs'. log_erase_loop ids c fs = Done (c', fs') \<and> log_ok c' fs' \<and> same_coll c c'
    \<and> log_docs c' fs' = log_docs c fs |` (- set ids) \<and> h_next (hdr c' fs') = h_next (hdr c fs)"
  using assms
proof (induction ids arbitrary: c fs)
  case Nil
  then show ?case by (simp add: restrict_map_def)
next
  case (Cons i ids)
  have "\<exists>st c1 fs1. log_erase i c fs = Done (st, c1, fs1) \<and> log_ok c1 fs1 \<and> same_coll c c1
    \<and> log_docs c1 fs1 = (log_docs c fs)(i := None) \<and> h_next (hdr c1 fs1) = h_next (hdr c fs)"
  proof (cases "i \<in> live_ids c fs")
    case True
    then have "unat i < unat (h_next (hdr c fs))" by (simp add: live_ids_def word_less_nat_alt)
    then have "unat i < 2 ^ 50" using Cons.prems(2) by simp
    then obtain c1 fs1 where "log_erase i c fs = Done (OK, c1, fs1)" "log_ok c1 fs1" "same_coll c c1"
      "log_docs c1 fs1 = (log_docs c fs)(i := None)"
      "hdr c1 fs1 = (hdr c fs)\<lparr> h_size := h_size (hdr c fs) - 1 \<rparr>"
      using log_erase_ok [OF Cons.prems(1) True] by blast
    then show ?thesis by auto
  next
    case False
    then have "(log_docs c fs)(i := None) = log_docs c fs" by (auto simp: log_docs_def fun_eq_iff)
    then show ?thesis using erase_absent [OF Cons.prems(1) False] Cons.prems(1) by auto
  qed
  then obtain st c1 fs1 where c1: "log_erase i c fs = Done (st, c1, fs1)" "log_ok c1 fs1" "same_coll c c1"
    "log_docs c1 fs1 = (log_docs c fs)(i := None)" "h_next (hdr c1 fs1) = h_next (hdr c fs)"
    by blast
  moreover obtain c' fs' where "log_erase_loop ids c1 fs1 = Done (c', fs')" "log_ok c' fs'"
    "same_coll c1 c'" "log_docs c' fs' = log_docs c1 fs1 |` (- set ids)"
    "h_next (hdr c' fs') = h_next (hdr c1 fs1)"
    using Cons.IH [OF c1(2)] Cons.prems(2) c1(5) by auto
  moreover have "(log_docs c fs)(i := None) |` (- set ids) = log_docs c fs |` (- set (i # ids))"
    by (auto simp: restrict_map_def fun_eq_iff)
  ultimately show ?case by simp
qed

text \<open>
  \<open>docErase\<close> removes exactly the given documents, whatever the identifiers; they are not given
  out again.
\<close>

lemma log_docErase_removes:
  assumes "ld_colls db name = Some c" "log_ok c fs" "unat (h_next (hdr c fs)) < 2 ^ 50"
  shows "\<exists>c' fs'. log_docErase name mode ids db fs
      = Done (OK, db\<lparr> ld_colls := (ld_colls db)(name \<mapsto> c') \<rparr>, fs')
    \<and> log_ok c' fs' \<and> log_docs c' fs' = log_docs c fs |` (- set ids)
    \<and> log_collLastID mode name (db\<lparr> ld_colls := (ld_colls db)(name \<mapsto> c') \<rparr>) fs'
        = log_collLastID mode name db fs"
proof -
  obtain c' fs' where "log_erase_loop ids c fs = Done (c', fs')" and c': "log_ok c' fs'"
    "log_docs c' fs' = log_docs c fs |` (- set ids)" "h_next (hdr c' fs') = h_next (hdr c fs)"
    using log_erase_loop_law [OF assms(2,3)] by blast
  then show ?thesis
    using assms(1) log_header_law [OF log_ok_files [OF c'(1)]] log_header_law [OF log_ok_files [OF assms(2)]]
    by (auto simp: log_docErase_def log_collLastID_def log_last_id_def)
qed

section \<open>Opening the database again\<close>




section \<open>Iterating\<close>


text \<open>Handing at most \<open>n\<close> documents that pass the filter to \<open>func\<close>.\<close>

fun iter_docs :: "bytes \<Rightarrow> doc_filter \<Rightarrow> 'st doc_cb \<Rightarrow> nat \<Rightarrow> (size_t \<times> bytes) list \<Rightarrow> 'st
    \<Rightarrow> (status \<times> 'st) outcome" where
  "iter_docs name flt func 0 ds st = Done (OK, st)"
| "iter_docs name flt func (Suc n) [] st = Done (OK, st)"
| "iter_docs name flt func (Suc n) ((i, d) # ds) st =
     (if \<not> d_check flt name i d
      then (if d_stop flt name d then Done (OK, st) else iter_docs name flt func (Suc n) ds st)
      else obind (filter_doc flt name d) (\<lambda>fdoc. obind (func i fdoc st) (\<lambda>(r, st').
             if r \<noteq> OK then Done (r, st') else iter_docs name flt func n ds st')))"



lemma iter_docs_0 [simp]: "iter_docs name flt func n [] st = Done (OK, st)"
  by (cases n) simp_all

lemma last_id_law: "log_ok c fs \<Longrightarrow> log_last_id c fs = Done (h_next (hdr c fs) - 1)"
  by (simp add: log_last_id_def log_header_law [OF log_ok_files])

lemma not_after_last:
  assumes "(nxt :: size_t) \<noteq> 0"
  shows "i \<le> nxt - 1 \<longleftrightarrow> i < nxt"
proof -
  have "unat (nxt - 1) = unat nxt - 1" by (rule Word.unat_minus_one [OF assms])
  moreover have "0 < unat nxt" using assms by (simp add: unat_gt_0)
  ultimately show ?thesis by (simp add: word_le_nat_alt word_less_nat_alt) linarith
qed

lemma hdr_cache [simp]: "hdr (c\<lparr> lc_cache := ca \<rparr>) fs = hdr c fs"
    "log_docs (c\<lparr> lc_cache := ca \<rparr>) fs = log_docs c fs"
  by (simp_all add: hdr_def ent_def live_ids_def log_docs_def fun_eq_iff)




text \<open>
  C37: on a collection that never had a document \<open>docIter\<close> does not end: \<open>last_id\<close> wraps to the
  largest identifier, so that every identifier is tried, again and again.
\<close>

theorem log_docIter_hangs:
  assumes "ld_colls db name = Some c" "log_ok c fs" "h_next (hdr c fs) = 0" "0 < limit"
  shows "log_docIter name mode limit from_id flt func st db fs = Hung"
proof -
  let ?s0 = "\<lparr> li_id = from_id, li_i = 0, li_status = OK, li_st = st \<rparr>"
  have False if ret: "log_iter_loop name flt limit func ?s0 c fs = Some r" for r
  proof -
    let ?P = "\<lambda>_ _ limit _ (s :: 'a log_iter) c fs _.
      \<not> (log_ok c fs \<and> h_next (hdr c fs) = 0 \<and> li_i s < limit \<and> li_status s = OK)"
    have "?P name flt limit func ?s0 c fs r"
    proof (rule log_iter_loop.raw_induct [where P = ?P, OF _ ret])
      fix loop and name :: bytes and flt limit and func :: "'a doc_cb" and s c fs r
      assume IH: "\<And>name flt limit func s c fs r. loop name flt limit func s c fs = Some r
          \<Longrightarrow> ?P name flt limit func s c fs r"
        and eq: "(case log_last_id c fs of
          Done last_id \<Rightarrow>
            (if \<not> (li_i s < limit \<and> li_id s \<le> last_id) then Some (Done (li_status s, li_st s, c, fs))
             else
               (case log_fetch (li_id s) (log_iter_callback name flt limit func) s c fs of
                  Done (status, s', c', fs') \<Rightarrow>
                    (if li_status s' \<noteq> OK then Some (Done (li_status s', li_st s', c', fs'))
                     else loop name flt limit func s' c' fs')
                | Undef \<Rightarrow> Some Undef
                | Hung \<Rightarrow> Some Hung))
        | Undef \<Rightarrow> Some Undef
        | Hung \<Rightarrow> Some Hung) = Some r"
      show "?P name flt limit func s c fs r"
      proof
        assume a: "log_ok c fs \<and> h_next (hdr c fs) = 0 \<and> li_i s < limit \<and> li_status s = OK"
        let ?cb = "log_iter_callback name flt limit func" and ?s = "s\<lparr> li_id := li_id s + 1 \<rparr>"
        have "log_last_id c fs = Done (- 1)" using a by (simp add: last_id_law)
        moreover have "log_fetch (li_id s) ?cb s c fs = Done (OK, ?s, c, fs)"
          using a by (simp add: log_fetch_def log_header_law log_ok_files log_iter_callback_def)
        ultimately have "loop name flt limit func ?s c fs = Some r" using eq a by simp
        then show False using IH a by fastforce
      qed
    qed
    then show False using assms(2-4) by simp
  qed
  then show ?thesis
    using assms(1) by (cases "log_iter_loop name flt limit func ?s0 c fs") (auto simp: log_docIter_def)
qed

theorem log_docIter_hangs_witness:
  "\<exists>db fs. log_collCreate 0 [97] (log_db0 16) Map.empty = Done (OK, db, fs)
    \<and> log_docIter [97] 0 1 0 DefaultDocFilter (\<lambda>i d st. Done (OK, st)) () db fs = Hung"
proof -
  obtain c fs where c: "log_collCreate 0 [97] (log_db0 16) Map.empty
      = Done (OK, (log_db0 16)\<lparr> ld_colls := [[97] \<mapsto> c] \<rparr>, fs)" "log_ok c fs"
    "hdr c fs = \<lparr> h_size = 0, h_next = 0, h_last = 0, h_chunk = 16 \<rparr>"
    by (rule fresh_coll [of 16 "[97]"]) simp_all
  have "log_docIter [97] 0 1 0 DefaultDocFilter (\<lambda>i d st. Done (OK, st)) ()
      ((log_db0 16)\<lparr> ld_colls := [[97] \<mapsto> c] \<rparr>) fs = Hung"
    using c(2,3) by (intro log_docIter_hangs [of _ _ c]) simp_all
  then show ?thesis using c(1) by blast
qed

section \<open>Where \<open>update\<close> goes wrong\<close>

lemma next_not_max:
  assumes "unat (l :: size_t) < 2 ^ 63"
  shows "l + 1 \<noteq> - 1"
proof
  assume "l + 1 = - 1"
  then have "l = - 1 - 1" by (metis add_diff_cancel_right')
  then have "unat l = unat (- 1 - 1 :: size_t)" by simp
  then show False using assms by simp
qed

lemma up_to_last: "(i :: size_t) < nxt \<Longrightarrow> i \<le> nxt - 1"
  using not_after_last [of nxt i] by fastforce

lemma pad_none:
  assumes "log_ok c fs" "i < h_next (hdr c fs)"
  shows "log_pad_to i c fs = Done (OK, c, fs)"
proof -
  have "unat i < unat (h_next (hdr c fs))" using assms(2) by (simp add: word_less_nat_alt)
  then have "Suc (unat i) - unat (h_next (hdr c fs)) = 0" by simp
  moreover have "i \<noteq> - 1" using assms(2) by (metis leD word_n1_ge)
  ultimately show ?thesis by (simp add: log_pad_to_def log_header_law [OF log_ok_files [OF assms(1)]])
qed

lemma flush_entry_ok:
  assumes "files_ok c fs" "i < h_next (hdr c fs)"
  shows "flushEntryMetadata i 1 c = OK"
proof -
  have "i + 1 \<le> h_next (hdr c fs)" "unat (i + 1) = unat i + 1"
    using assms(2) by (simp_all add: inc_le unat_plus_one)
  then have "32 * (unat i + 2) \<le> unat (mf_size (lc_meta c))"
    using meta_room(1) [OF assms(1), of "i + 1"] by simp
  then have "unat (entry_offset i) + 32 \<le> unat (mf_size (lc_meta c))"
    using meta_room(2) [OF assms(1), of i] assms(2) by simp
  then show ?thesis
    using inside_word(1) [of "entry_offset i" 32 "mf_size (lc_meta c)"]
    by (simp add: flushEntryMetadata_def mm_flush_def)
qed

text \<open>A document that does not fit an empty chunk: a new chunk is opened and nothing is written.\<close>

lemma too_large_for_chunk:
  assumes "log_ok c fs" "unat (lc_chunk_size c) < unat n + 8" "unat n + 8 < 2 ^ 64"
    and "unat (h_last (hdr c fs)) < 2 ^ 63"
  obtains fs' where "log_room n (chunk_end c fs (h_last (hdr c fs))) c fs
      = Done (8, c\<lparr> lc_last := Some (chunk_map c (h_last (hdr c fs) + 1)) \<rparr>, fs')"
    "log_docs (c\<lparr> lc_last := Some (chunk_map c (h_last (hdr c fs) + 1)) \<rparr>) fs' = log_docs c fs"
    "log_write_doc i doc n 8 fl (c\<lparr> lc_last := Some (chunk_map c (h_last (hdr c fs) + 1)) \<rparr>) fs'
      = Done (SizeError, False, c\<lparr> lc_last := Some (chunk_map c (h_last (hdr c fs) + 1)) \<rparr>, fs')"
proof -
  let ?h = "hdr c fs" and ?stop = "chunk_end c fs (h_last (hdr c fs))"
  let ?c1 = "c\<lparr> lc_last := Some (chunk_map c (h_last ?h + 1)) \<rparr>"
  have at: "log_ok_at (unat ?stop) c fs" using assms(1) by (simp add: log_ok_def)
  then have "8 \<le> unat ?stop" "unat ?stop \<le> unat (lc_chunk_size c)"
    by (simp_all add: log_ok_at_def)
  then have full: "n > lc_chunk_size c - ?stop"
    using assms(2) by (simp add: word_less_nat_alt unat_sub word_le_nat_alt)
  obtain fs1 where room: "log_room n ?stop c fs = Done (8, ?c1, fs1)" "log_ok_at 8 ?c1 fs1"
    "log_docs c fs1 = log_docs c fs"
    using new_room [OF at full next_not_max [OF assms(4)]] by blast
  have docs1: "log_docs ?c1 fs1 = log_docs c fs1"
    by (simp add: hdr_def ent_def live_ids_def log_docs_def fun_eq_iff)
  have "files_ok ?c1 fs1" using room(2) by (simp add: log_ok_at_def)
  moreover have "8 + n > lc_chunk_size c"
    using assms(2,3) by (simp add: word_less_nat_alt unat_word_ariths)
  ultimately have "log_write_doc i doc n 8 fl ?c1 fs1 = Done (SizeError, False, ?c1, fs1)"
    using log_header_law [of ?c1 fs1] by (simp add: log_write_doc_def mm_write_def chunk_map_def)
  then show thesis using that room(1,3) docs1 by metis
qed

text \<open>
  C38: a document of more than \<open>chunk_size - 8\<close> bytes passes the check of \<open>update\<close>, but fits no chunk. The
  failed write is forgotten when the flush at the end sets the status: \<open>docUpdate\<close> answers OK and
  the documents are what they were.
\<close>

theorem log_docUpdate_forgets:
  assumes "ld_colls db name = Some c" "log_ok c fs" "log_docs c fs i = Some d"
    and "unat (lc_chunk_size c) < length x + 8" "length x \<le> unat (lc_chunk_size c)"
    and "unat (h_last (hdr c fs)) < 2 ^ 63" "length x + 8 < 2 ^ 64"
  shows "\<exists>db' c' fs'. log_docUpdate name mode [i] x [usize x] db fs = Done (OK, db', fs')
    \<and> ld_colls db' name = Some c' \<and> log_docs c' fs' = log_docs c fs"
proof -
  let ?h = "hdr c fs" and ?n = "usize x" and ?e = "ent c fs i"
  let ?c1 = "c\<lparr> lc_last := Some (chunk_map c (h_last ?h + 1)) \<rparr>"
  note ok = log_ok_files [OF assms(2)]
  have live: "i \<in> live_ids c fs" by (metis assms(3) domI dom_log_docs)
  then have i: "i < h_next ?h" by (simp add: live_ids_def)
  have n: "unat ?n = length x" using assms(7) by (simp add: unat_usize)
  have at: "log_ok_at (unat (chunk_end c fs (h_last ?h))) c fs" using assms(2) by (simp add: log_ok_def)
  have alloc: "e_alloc ?e < ?n" "?n \<le> lc_chunk_size c"
    using live_entry(2,3) [OF at live] assms(4,5) n
    by (simp_all add: word_less_nat_alt word_le_nat_alt)
  obtain fs1 where room: "log_room ?n (chunk_end c fs (h_last ?h)) c fs = Done (8, ?c1, fs1)"
    "log_docs ?c1 fs1 = log_docs c fs"
    "log_write_doc i (sub_bytes x 0 ?n) ?n 8 True ?c1 fs1 = Done (SizeError, False, ?c1, fs1)"
    using too_large_for_chunk [of c fs ?n i "sub_bytes x 0 ?n" True] assms(2,4,6,7) n by metis
  have larger: "(?n \<le> e_alloc ?e) = False" using alloc(1) by simp
  have "log_update_inplace x [(i, ?n)] 0 c fs = Done (OK, [?e], c, fs)"
    using alloc(1) readEntry_law [OF ok i] by simp
  moreover have "flushEntryMetadata i 1 ?c1 = OK"
    using flush_entry_ok [OF ok i] by (simp add: flushEntryMetadata_def)
  ultimately have "log_update [i] x [?n] c fs = Done (OK, ?c1, fs1)"
    using room leD [OF alloc(2)] next_offset_ok [OF assms(2)] pad_none [OF assms(2) i]
    by (simp add: log_update_def Let_def larger del: log_update_inplace.simps)
  then show ?thesis
    using assms(1) last_id_law [OF assms(2)] up_to_last [OF i] room(2)
    by (auto simp: log_docUpdate_def not_less)
qed

theorem log_docUpdate_forgets_witness:
  "\<exists>db fs c db' fs' c'. ld_colls db [97] = Some c \<and> log_docs c fs 1 = Some [6, 7]
    \<and> log_docUpdate [97] 0 [1] (replicate 9 1) [9] db fs = Done (OK, db', fs')
    \<and> ld_colls db' [97] = Some c' \<and> log_docs c' fs' 1 = Some [6, 7]"
proof -
  obtain db :: log_db and c fs where db: "ld_colls db [97] = Some c" "log_ok c fs"
    "log_docs c fs = [0 \<mapsto> [5], 1 \<mapsto> [6, 7]]" "h_next (hdr c fs) = 2" "lc_chunk_size c = 16"
    "unat (h_last (hdr c fs)) \<le> 2"
    by (rule two_docs) blast
  have "log_docs c fs 1 = Some [6, 7]" using db(3) by simp
  moreover have "unat (lc_chunk_size c) < length (replicate 9 (1 :: byte)) + 8"
    "length (replicate 9 (1 :: byte)) \<le> unat (lc_chunk_size c)"
    "unat (h_last (hdr c fs)) < 2 ^ 63" "length (replicate 9 (1 :: byte)) + 8 < 2 ^ 64"
    using db(4-6) by simp_all
  ultimately show ?thesis
    using log_docUpdate_forgets [OF db(1,2), of 1 "[6, 7]" "replicate 9 1" 0] db(1)
    by (fastforce simp: usize_def)
qed

text \<open>
  C39: \<open>erase\<close> sets the chunk of the entry to \<open>YOKAN_KEY_NOT_FOUND\<close> but keeps the size of its allocation.
  A later \<open>docUpdate\<close> with a document of at most the erased one's size takes the allocation for usable
  and writes through a null chunk.
\<close>

theorem log_update_erased:
  assumes "ld_colls db name = Some c" "log_ok c fs" "log_docs c fs i = Some d"
    and "x \<noteq> []" "length x \<le> length d"
    and "unat (h_next (hdr c fs)) < 2 ^ 50" "unat (h_last (hdr c fs)) < 2 ^ 63"
  shows "\<exists>db' fs'. log_docErase name mode [i] db fs = Done (OK, db', fs')
    \<and> log_docUpdate name mode [i] x [usize x] db' fs' = Undef"
proof -
  let ?h = "hdr c fs" and ?n = "usize x" and ?e = "ent c fs i"
  have live: "i \<in> live_ids c fs" by (metis assms(3) domI dom_log_docs)
  then have i: "i < h_next ?h" by (simp add: live_ids_def)
  then have "unat i < unat (h_next ?h)" by (simp add: word_less_nat_alt)
  then obtain c' fs' where er: "log_erase i c fs = Done (OK, c', fs')" "log_ok c' fs'" "same_coll c c'"
    "hdr c' fs' = ?h\<lparr> h_size := h_size ?h - 1 \<rparr>"
    "ent c' fs' i = ?e\<lparr> e_chunk := YOKAN_KEY_NOT_FOUND, e_size := YOKAN_KEY_NOT_FOUND,
        e_offset := YOKAN_KEY_NOT_FOUND \<rparr>"
    using log_erase_ok [OF assms(2) live] assms(6) by auto
  have at: "log_ok_at (unat (chunk_end c fs (h_last ?h))) c fs" using assms(2) by (simp add: log_ok_def)
  note e = live_entry [OF at live]
  have "length d = unat (e_size ?e)" using doc_extent(4) [OF assms(2) live] assms(3) by simp
  then have len: "length x \<le> unat (e_alloc ?e)" "length x \<le> unat (lc_chunk_size c)"
    using assms(5) e(3,4) by simp_all
  then have fx: "fits x" using unat_size_less [of "lc_chunk_size c"] by linarith
  then have n: "unat ?n = length x" by (simp add: unat_usize)
  then have "\<not> e_alloc ?e < ?n" "\<not> lc_chunk_size c' < ?n" "?n \<noteq> 0"
    using len assms(4) er(3) by (auto simp: word_less_nat_alt simp flip: unat_eq_0)
  moreover have "getChunkFromID YOKAN_KEY_NOT_FOUND c' fs' = Done (None, c', fs')"
  proof -
    have "h_last ?h \<noteq> - 1" using log_ok_files [OF assms(2)] by (simp add: files_ok_def)
    then show ?thesis
      using er(4) next_not_max [OF assms(7)] by (auto simp: getChunkFromID_def log_header_law [OF log_ok_files [OF er(2)]]
          YOKAN_KEY_NOT_FOUND_def dest: leD)
  qed
  moreover have "i < h_next (hdr c' fs')" using i er(4) by simp
  ultimately have "log_update [i] x [?n] c' fs' = Undef"
    using pad_none [OF er(2), of i] readEntry_law [OF log_ok_files [OF er(2)], of i] er(5)
    by (simp add: log_update_def)
  moreover have "i \<le> h_next ?h - 1"
    by (rule up_to_last [OF i])
  ultimately show ?thesis
    using assms(1) er(1,4) last_id_law [OF er(2)]
    by (auto simp: log_docErase_def log_docUpdate_def not_less)
qed

theorem log_update_erased_witness:
  "\<exists>db fs c db' fs'. ld_colls db [97] = Some c \<and> log_docs c fs 1 = Some [6, 7]
    \<and> log_docErase [97] 0 [1] db fs = Done (OK, db', fs') \<and> log_docUpdate [97] 0 [1] [8] [1] db' fs' = Undef"
proof -
  obtain db :: log_db and c fs where db: "ld_colls db [97] = Some c" "log_ok c fs"
    "log_docs c fs = [0 \<mapsto> [5], 1 \<mapsto> [6, 7]]" "h_next (hdr c fs) = 2"
    "unat (h_last (hdr c fs)) \<le> 2"
    by (rule two_docs) blast
  have "log_docs c fs 1 = Some [6, 7]" using db(3) by simp
  moreover have "[8 :: byte] \<noteq> []" "length [8 :: byte] \<le> length [6, 7 :: byte]"
    "unat (h_next (hdr c fs)) < 2 ^ 50" "unat (h_last (hdr c fs)) < 2 ^ 63"
    using db(4,5) by simp_all
  ultimately show ?thesis
    using log_update_erased [OF db(1,2), of 1 "[6, 7]" "[8]" 0] db(1)
    by (fastforce simp: usize_def)
qed

section \<open>The cache of open chunks\<close>

text \<open>
  C40: after any sequence of requests for chunks the cache holds the chunks requested last, each once,
  as many as it has room for, latest first; each object is a mapping of the file of its chunk.
\<close>

theorem chunk_cache_recent:
  assumes "chunk_size \<noteq> 0" "cache_size \<noteq> 0" "\<forall>p. fits (file_of fs p)"
  shows "\<exists>cache fs'. lru_gets (open_chunk c chunk_size) reqs (lru_init cache_size) fs = Done (cache, fs')
    \<and> map fst (lru_list cache) = take (unat cache_size) (recency reqs)
    \<and> (\<forall>(k, f) \<in> set (lru_list cache). f = \<lparr> mf_name = chunk_path (lc_prefix c) (lc_name c) k,
         mf_size = chunk_size \<rparr> \<and> mapped_ok fs' f)"
proof -
  have max: "lru_max (lru_init cache_size :: mapped lru) = cache_size" by (simp add: lru_init_def)
  have "\<exists>cache fs'. lru_gets (open_chunk c chunk_size) reqs (lru_init cache_size) fs = Done (cache, fs')
    \<and> lru_ok cache
    \<and> (\<forall>(k, f) \<in> set (lru_list cache). f = \<lparr> mf_name = chunk_path (lc_prefix c) (lc_name c) k,
         mf_size = chunk_size \<rparr> \<and> mapped_ok fs' f)
    \<and> map fst (lru_list cache) = take (unat (lru_max (lru_init cache_size :: mapped lru))) (recency ([] @ reqs))"
    using assms by (intro chunks.gets_recent) (simp_all add: lru_ok_init max, simp_all add: lru_init_def recency_def)
  then show ?thesis unfolding max append_Nil by (elim exE conjE, intro exI conjI)
qed

theorem chunk_cache_recent_witness:
  "\<exists>(c :: log_coll) cache fs'. lru_gets (open_chunk c 16) [0, 1, 0, 2] (lru_init 2) Map.empty = Done (cache, fs')
    \<and> map fst (lru_list cache) = [2, 0]"
proof -
  obtain c :: log_coll where "c = \<lparr> lc_name = [97], lc_prefix = [100], lc_chunk_size = 16, lc_meta = meta_map [100] [97],
    lc_last = None, lc_cache = lru_init 2 \<rparr>" by simp
  have "\<forall>p. fits (file_of Map.empty p)" by (simp add: file_of_def)
  moreover have "take (unat (2 :: size_t)) (recency [0, 1, 0, 2]) = [2, 0]" by code_simp
  ultimately have "\<exists>cache fs'. lru_gets (open_chunk c 16) [0, 1, 0, 2] (lru_init 2) Map.empty = Done (cache, fs')
      \<and> map fst (lru_list cache) = [2, 0]"
    using chunk_cache_recent [of 16 2 Map.empty c "[0, 1, 0, 2]"] by auto
  then show ?thesis by (rule exI)
qed

end
