(* ===== verification/BulkCache.thy ===== *)
theory BulkCache
  imports Prelude
begin

text \<open>
  The bulk caches of the provider (src/src/buffer): pools of buffers registered for transfers.
  A handler takes a buffer of at least the size it asks for and gives it back when it is done;
  the buffer keeps its content. The heap and the registration are arguments; a buffer is known
  by the address of its data.
\<close>

section \<open>Buffers and the heap\<close>

datatype hg_mode = HG_BULK_READ_ONLY | HG_BULK_WRITE_ONLY | HG_BULK_READWRITE

datatype hg_return = HG_SUCCESS | HG_FAILURE | HG_NOMEM

record yk_buffer =
  yb_size :: size_t
  yb_mode :: hg_mode
  yb_addr :: size_t
  yb_data :: bytes

text \<open>
  \<open>new (std::nothrow) char[n]\<close> with the bytes it finds there, \<open>delete[]\<close>, and \<open>margo_bulk_create\<close>.
\<close>

record 'h allocator =
  al_new :: "size_t \<Rightarrow> 'h \<Rightarrow> (size_t \<times> bytes) option \<times> 'h"
  al_delete :: "size_t \<Rightarrow> 'h \<Rightarrow> 'h"
  al_register :: "size_t \<Rightarrow> size_t \<Rightarrow> hg_mode \<Rightarrow> 'h \<Rightarrow> hg_return \<times> 'h"

text \<open>\<open>live\<close> is the set of addresses in use.\<close>

definition allocator_ok :: "'h allocator \<Rightarrow> ('h \<Rightarrow> size_t set) \<Rightarrow> bool" where
  "allocator_ok A live \<longleftrightarrow>
     (\<forall>n h a d h'. al_new A n h = (Some (a, d), h')
        \<longrightarrow> a \<notin> live h \<and> live h' = insert a (live h) \<and> length d = unat n)
     \<and> (\<forall>n h h'. al_new A n h = (None, h') \<longrightarrow> live h' = live h)
     \<and> (\<forall>a h. live (al_delete A a h) = live h - {a})
     \<and> (\<forall>a n m h r h'. al_register A a n m h = (r, h') \<longrightarrow> live h' = live h)"

text \<open>What a handler sees of a cache (\<open>yk_bulk_cache\<close>).\<close>

record 'c bulk_cache =
  bc_get :: "size_t \<Rightarrow> hg_mode \<Rightarrow> 'c \<Rightarrow> yk_buffer option \<times> 'c"
  bc_release :: "yk_buffer \<Rightarrow> 'c \<Rightarrow> 'c"

definition buffer_ok :: "yk_buffer \<Rightarrow> bool" where
  "buffer_ok b \<longleftrightarrow> length (yb_data b) = unat (yb_size b)"

text \<open>The allocation at the end of each \<open>get\<close>.\<close>

definition new_buffer :: "'h allocator \<Rightarrow> size_t \<Rightarrow> hg_mode \<Rightarrow> 'h \<Rightarrow> yk_buffer option \<times> 'h" where
  "new_buffer A buf_size mode h =
     (case al_new A buf_size h of
        (None, h1) \<Rightarrow> (None, h1)
      | (Some (a, d), h1) \<Rightarrow>
          (case al_register A a buf_size mode h1 of
             (hret, h2) \<Rightarrow>
               if hret \<noteq> HG_SUCCESS then (None, al_delete A a h2)
               else (Some \<lparr> yb_size = buf_size, yb_mode = mode, yb_addr = a, yb_data = d \<rparr>, h2)))"

section \<open>The default cache\<close>

record 'h default_bulk =
  db_heap :: 'h
  db_num_allocated :: size_t

definition default_bulk_cache_init :: "'h \<Rightarrow> 'h default_bulk" where
  "default_bulk_cache_init h = \<lparr> db_heap = h, db_num_allocated = 0 \<rparr>"

text \<open>The counter is incremented before the allocation, which may fail.\<close>

definition default_bulk_cache_get :: "'h allocator \<Rightarrow> size_t \<Rightarrow> hg_mode \<Rightarrow> 'h default_bulk
    \<Rightarrow> yk_buffer option \<times> 'h default_bulk" where
  "default_bulk_cache_get A n mode c =
     (if n = 0 then (None, c)
      else case new_buffer A n mode (db_heap c) of
        (r, h) \<Rightarrow> (r, c\<lparr> db_heap := h, db_num_allocated := db_num_allocated c + 1 \<rparr>))"

definition default_bulk_cache_release :: "'h allocator \<Rightarrow> yk_buffer \<Rightarrow> 'h default_bulk
    \<Rightarrow> 'h default_bulk" where
  "default_bulk_cache_release A b c =
     c\<lparr> db_heap := al_delete A (yb_addr b) (db_heap c), db_num_allocated := db_num_allocated c - 1 \<rparr>"

section \<open>Ordered sets of buffers\<close>

text \<open>\<open>bulk_less\<close>, and a \<open>std::set\<close> or \<open>std::map\<close> under it as the list of its nodes.\<close>

definition bulk_less :: "yk_buffer \<Rightarrow> yk_buffer \<Rightarrow> bool" where
  "bulk_less a b = (if yb_size a \<noteq> yb_size b then yb_size a < yb_size b else yb_addr a < yb_addr b)"

definition bset_insert :: "yk_buffer \<Rightarrow> yk_buffer list \<Rightarrow> yk_buffer list" where
  "bset_insert b s =
     (let lo = takeWhile (\<lambda>x. bulk_less x b) s; hi = dropWhile (\<lambda>x. bulk_less x b) s in
      if hi \<noteq> [] \<and> \<not> bulk_less b (hd hi) then s else lo @ b # hi)"

definition bset_lower_bound :: "yk_buffer \<Rightarrow> yk_buffer list \<Rightarrow> yk_buffer list" where
  "bset_lower_bound b s = dropWhile (\<lambda>x. bulk_less x b) s"

text \<open>\<open>find\<close> followed by \<open>erase\<close>; erasing the end iterator is undefined and cannot happen below.\<close>

definition bset_erase :: "yk_buffer \<Rightarrow> yk_buffer list \<Rightarrow> yk_buffer list" where
  "bset_erase b s = filter (\<lambda>x. bulk_less x b \<or> bulk_less b x) s"

definition lbound :: "size_t \<Rightarrow> hg_mode \<Rightarrow> yk_buffer" where
  "lbound n mode = \<lparr> yb_size = n, yb_mode = mode, yb_addr = 0, yb_data = [] \<rparr>"

section \<open>The cache that keeps every buffer\<close>

record 'h keep_all_bulk =
  ka_heap :: 'h
  ka_num_in_use :: size_t
  ka_set :: "hg_mode \<Rightarrow> yk_buffer list"

definition keep_all_bulk_cache_init :: "'h \<Rightarrow> 'h keep_all_bulk" where
  "keep_all_bulk_cache_init h = \<lparr> ka_heap = h, ka_num_in_use = 0, ka_set = (\<lambda>_. []) \<rparr>"

text \<open>\<open>grow n\<close> is \<open>size*(1.0 + cache->margin)\<close>, in floating point.\<close>

definition keep_all_bulk_cache_get :: "'h allocator \<Rightarrow> (size_t \<Rightarrow> size_t) \<Rightarrow> size_t \<Rightarrow> hg_mode
    \<Rightarrow> 'h keep_all_bulk \<Rightarrow> yk_buffer option \<times> 'h keep_all_bulk" where
  "keep_all_bulk_cache_get A grow n mode c =
     (if n = 0 then (None, c)
      else case bset_lower_bound (lbound n mode) (ka_set c mode) of
        result # _ \<Rightarrow>
          (Some result, c\<lparr> ka_set := (ka_set c)(mode := bset_erase result (ka_set c mode)),
                           ka_num_in_use := ka_num_in_use c + 1 \<rparr>)
      | [] \<Rightarrow>
          (case new_buffer A (grow n) mode (ka_heap c) of
             (None, h) \<Rightarrow> (None, c\<lparr> ka_heap := h \<rparr>)
           | (Some b, h) \<Rightarrow> (Some b, c\<lparr> ka_heap := h, ka_num_in_use := ka_num_in_use c + 1 \<rparr>)))"

definition keep_all_bulk_cache_release :: "yk_buffer \<Rightarrow> 'h keep_all_bulk \<Rightarrow> 'h keep_all_bulk" where
  "keep_all_bulk_cache_release b c =
     c\<lparr> ka_num_in_use := ka_num_in_use c - 1,
        ka_set := (ka_set c)(yb_mode b := bset_insert b (ka_set c (yb_mode b))) \<rparr>"

definition free_all :: "'h allocator \<Rightarrow> yk_buffer list \<Rightarrow> 'h \<Rightarrow> 'h" where
  "free_all A bs h = fold (\<lambda>b. al_delete A (yb_addr b)) bs h"

definition keep_all_bulk_cache_finalize :: "'h allocator \<Rightarrow> 'h keep_all_bulk \<Rightarrow> 'h" where
  "keep_all_bulk_cache_finalize A c =
     free_all A (ka_set c HG_BULK_READ_ONLY @ ka_set c HG_BULK_WRITE_ONLY
                 @ ka_set c HG_BULK_READWRITE) (ka_heap c)"

section \<open>The cache that keeps the buffers used last\<close>

record 'h lru_bulk =
  lb_heap :: 'h
  lb_num_in_use :: size_t
  lb_queue :: "hg_mode \<Rightarrow> yk_buffer list"
  lb_set :: "hg_mode \<Rightarrow> yk_buffer list"
  lb_capacity :: size_t

definition lru_bulk_cache_init :: "size_t \<Rightarrow> 'h \<Rightarrow> 'h lru_bulk" where
  "lru_bulk_cache_init capacity h = \<lparr> lb_heap = h, lb_num_in_use = 0, lb_queue = (\<lambda>_. []),
     lb_set = (\<lambda>_. []), lb_capacity = capacity \<rparr>"

text \<open>\<open>list->erase(it->second)\<close>: the node of the list that holds the buffer.\<close>

definition queue_erase :: "yk_buffer \<Rightarrow> yk_buffer list \<Rightarrow> yk_buffer list" where
  "queue_erase b q = filter (\<lambda>x. yb_addr x \<noteq> yb_addr b) q"

definition lru_bulk_cache_get :: "'h allocator \<Rightarrow> (size_t \<Rightarrow> size_t) \<Rightarrow> size_t \<Rightarrow> hg_mode
    \<Rightarrow> 'h lru_bulk \<Rightarrow> yk_buffer option \<times> 'h lru_bulk" where
  "lru_bulk_cache_get A grow n mode c =
     (if n = 0 then (None, c)
      else case bset_lower_bound (lbound n mode) (lb_set c mode) of
        result # _ \<Rightarrow>
          (Some result, c\<lparr> lb_queue := (lb_queue c)(mode := queue_erase result (lb_queue c mode)),
                           lb_set := (lb_set c)(mode := bset_erase result (lb_set c mode)),
                           lb_num_in_use := lb_num_in_use c + 1 \<rparr>)
      | [] \<Rightarrow>
          (case new_buffer A (grow n) mode (lb_heap c) of
             (None, h) \<Rightarrow> (None, c\<lparr> lb_heap := h \<rparr>)
           | (Some b, h) \<Rightarrow> (Some b, c\<lparr> lb_heap := h, lb_num_in_use := lb_num_in_use c + 1 \<rparr>)))"

definition lru_bulk_cache_release :: "'h allocator \<Rightarrow> yk_buffer \<Rightarrow> 'h lru_bulk \<Rightarrow> 'h lru_bulk" where
  "lru_bulk_cache_release A b c =
     (let m = yb_mode b;
          q = b # lb_queue c m;
          s = bset_insert b (lb_set c m);
          c1 = c\<lparr> lb_num_in_use := lb_num_in_use c - 1 \<rparr> in
      if unat (lb_capacity c) < length q
      then c1\<lparr> lb_queue := (lb_queue c)(m := butlast q),
               lb_set := (lb_set c)(m := bset_erase (last q) s),
               lb_heap := al_delete A (yb_addr (last q)) (lb_heap c) \<rparr>
      else c1\<lparr> lb_queue := (lb_queue c)(m := q), lb_set := (lb_set c)(m := s) \<rparr>)"

definition lru_bulk_cache_finalize :: "'h allocator \<Rightarrow> 'h lru_bulk \<Rightarrow> 'h" where
  "lru_bulk_cache_finalize A c =
     free_all A (lb_set c HG_BULK_READ_ONLY @ lb_set c HG_BULK_WRITE_ONLY
                 @ lb_set c HG_BULK_READWRITE) (lb_heap c)"

section \<open>Handlers at work\<close>

text \<open>
  What handlers do to a cache: take a buffer, or give back the \<open>k\<close>-th one that is out, with
  another content of the same length.
\<close>

datatype pool_event = Take size_t hg_mode | Give nat bytes

definition pool_step :: "(size_t \<Rightarrow> hg_mode \<Rightarrow> 'c \<Rightarrow> yk_buffer option \<times> 'c) \<Rightarrow> (yk_buffer \<Rightarrow> 'c \<Rightarrow> 'c)
    \<Rightarrow> pool_event \<Rightarrow> yk_buffer list \<times> 'c \<Rightarrow> yk_buffer list \<times> 'c" where
  "pool_step get release ev sc = (case sc of (out, c) \<Rightarrow>
     (case ev of
        Take n m \<Rightarrow> (case get n m c of (None, c') \<Rightarrow> (out, c') | (Some b, c') \<Rightarrow> (b # out, c'))
      | Give k d \<Rightarrow>
          if k < length out \<and> length d = length (yb_data (out ! k))
          then (take k out @ drop (Suc k) out, release ((out ! k)\<lparr> yb_data := d \<rparr>) c)
          else (out, c)))"

definition pool_run :: "(size_t \<Rightarrow> hg_mode \<Rightarrow> 'c \<Rightarrow> yk_buffer option \<times> 'c) \<Rightarrow> (yk_buffer \<Rightarrow> 'c \<Rightarrow> 'c)
    \<Rightarrow> pool_event list \<Rightarrow> yk_buffer list \<times> 'c \<Rightarrow> yk_buffer list \<times> 'c" where
  "pool_run get release evs = fold (pool_step get release) evs"

section \<open>The contract of a cache\<close>

text \<open>
  \<open>inv lent c\<close>: the state of the cache when the buffers at the addresses \<open>lent\<close> are with handlers.
\<close>

locale buffer_pool =
  fixes get :: "size_t \<Rightarrow> hg_mode \<Rightarrow> 'c \<Rightarrow> yk_buffer option \<times> 'c"
    and release :: "yk_buffer \<Rightarrow> 'c \<Rightarrow> 'c"
    and inv :: "size_t set \<Rightarrow> 'c \<Rightarrow> bool"
  assumes get_none: "inv lent c \<Longrightarrow> get n m c = (None, c') \<Longrightarrow> inv lent c'"
    and get_some: "inv lent c \<Longrightarrow> get n m c = (Some b, c') \<Longrightarrow> inv (insert (yb_addr b) lent) c'
        \<and> yb_addr b \<notin> lent \<and> buffer_ok b \<and> n \<le> yb_size b \<and> yb_mode b = m"
    and put_back: "inv lent c \<Longrightarrow> yb_addr b \<in> lent \<Longrightarrow> buffer_ok b
        \<Longrightarrow> inv (lent - {yb_addr b}) (release b c)"
begin

text \<open>A buffer taken and given back, whatever its content is by then.\<close>

lemma borrow:
  assumes "inv lent c" "get n m c = (Some b, c')" "length d = length (yb_data b)"
  shows "inv lent (release (b\<lparr> yb_data := d \<rparr>) c')"
proof -
  note b = get_some [OF assms(1,2)]
  then have "inv (insert (yb_addr b) lent - {yb_addr b}) (release (b\<lparr> yb_data := d \<rparr>) c')"
    using put_back [of "insert (yb_addr b) lent" c' "b\<lparr> yb_data := d \<rparr>"] assms(3)
    by (simp add: buffer_ok_def)
  then show ?thesis using b by simp
qed

lemma step:
  assumes "inv (yb_addr ` set out) c" "distinct (map yb_addr out)" "\<forall>b \<in> set out. buffer_ok b"
    and "pool_step get release ev (out, c) = (out', c')"
  shows "inv (yb_addr ` set out') c' \<and> distinct (map yb_addr out') \<and> (\<forall>b \<in> set out'. buffer_ok b)"
proof (cases ev)
  case (Take n m)
  obtain r c1 where g: "get n m c = (r, c1)" by force
  show ?thesis
  proof (cases r)
    case None
    then show ?thesis using assms Take g get_none [OF assms(1)] by (auto simp: pool_step_def)
  next
    case (Some b)
    note b = get_some [OF assms(1) g [unfolded Some]]
    then show ?thesis using assms(2-4) Take g Some by (auto simp: pool_step_def)
  qed
next
  case (Give k d)
  show ?thesis
  proof (cases "k < length out \<and> length d = length (yb_data (out ! k))")
    case False
    then show ?thesis using assms Give by (auto simp: pool_step_def)
  next
    case True
    let ?b = "out ! k" and ?rest = "take k out @ drop (Suc k) out"
    have k: "k < length out" "length d = length (yb_data ?b)" using True by simp_all
    have out: "out = take k out @ ?b # drop (Suc k) out" using k(1) by (simp add: id_take_nth_drop)
    have d: "distinct (map yb_addr (take k out @ ?b # drop (Suc k) out))"
      unfolding out [symmetric] by (rule assms(2))
    have "set out = insert ?b (set ?rest)" by (subst out) auto
    moreover have "yb_addr ?b \<notin> yb_addr ` set ?rest" using d by auto
    ultimately have lent: "yb_addr ` set ?rest = yb_addr ` set out - {yb_addr ?b}" by auto
    have mem: "?b \<in> set out" using k(1) by simp
    then have ok: "buffer_ok (?b\<lparr> yb_data := d \<rparr>)" using assms(3) k(2) by (auto simp: buffer_ok_def)
    have "inv (yb_addr ` set out - {yb_addr ?b}) (release (?b\<lparr> yb_data := d \<rparr>) c)"
      using put_back [OF assms(1) _ ok] mem by simp
    moreover have "distinct (map yb_addr ?rest)" using d by auto
    moreover have "set ?rest \<subseteq> set out" using set_take_subset set_drop_subset by fastforce
    then have "\<forall>b \<in> set ?rest. buffer_ok b" using assms(3) by blast
    moreover have "out' = ?rest" "c' = release (?b\<lparr> yb_data := d \<rparr>) c"
      using assms(4) Give True by (simp_all add: pool_step_def)
    ultimately show ?thesis using lent by simp
  qed
qed

lemma run:
  assumes "inv (yb_addr ` set out) c" "distinct (map yb_addr out)" "\<forall>b \<in> set out. buffer_ok b"
    and "pool_run get release evs (out, c) = (out', c')"
  shows "inv (yb_addr ` set out') c' \<and> distinct (map yb_addr out') \<and> (\<forall>b \<in> set out'. buffer_ok b)"
  using assms
proof (induction evs arbitrary: out c)
  case Nil
  then show ?case by (simp add: pool_run_def)
next
  case (Cons ev evs)
  obtain out1 c1 where s: "pool_step get release ev (out, c) = (out1, c1)" by force
  have "pool_run get release evs (out1, c1) = (out', c')"
    using Cons.prems(4) s by (simp add: pool_run_def)
  then show ?case using Cons.IH step [OF Cons.prems(1-3) s] by blast
qed

end

end
