(* ===== verification/BulkCacheContract.thy ===== *)
theory BulkCacheContract
  imports BulkCache
begin

text \<open>
  The three bulk caches keep the contract \<open>buffer_pool\<close>: at every moment the live buffers are
  those lent to handlers and those in the pool, and no buffer is both or lent twice.
\<close>

section \<open>Who owns the buffers\<close>

definition owned :: "('h \<Rightarrow> size_t set) \<Rightarrow> 'h \<Rightarrow> size_t set \<Rightarrow> yk_buffer set \<Rightarrow> bool" where
  "owned live h lent P \<longleftrightarrow> live h = lent \<union> yb_addr ` P \<and> lent \<inter> yb_addr ` P = {}
     \<and> inj_on yb_addr P \<and> (\<forall>b \<in> P. buffer_ok b)"

lemma addr_remove: "inj_on yb_addr P \<Longrightarrow> b \<in> P \<Longrightarrow> yb_addr ` (P - {b}) = yb_addr ` P - {yb_addr b}"
  using inj_on_image_set_diff [of yb_addr P P "{b}"] by simp

lemma owned_take:
  assumes "owned live h lent P" "b \<in> P"
  shows "owned live h (insert (yb_addr b) lent) (P - {b})" "yb_addr b \<notin> lent" "buffer_ok b"
proof -
  have P: "inj_on yb_addr P" "live h = lent \<union> yb_addr ` P" "lent \<inter> yb_addr ` P = {}"
    "\<forall>b \<in> P. buffer_ok b"
    using assms(1) by (simp_all add: owned_def)
  have "inj_on yb_addr (P - {b})" using P(1) by (rule inj_on_diff)
  then show "owned live h (insert (yb_addr b) lent) (P - {b})"
    using P assms(2) by (auto simp: owned_def addr_remove)
  show "yb_addr b \<notin> lent" "buffer_ok b" using P(3,4) assms(2) by blast+
qed

lemma owned_give:
  assumes "owned live h lent P" "yb_addr b \<in> lent" "buffer_ok b"
  shows "owned live h (lent - {yb_addr b}) (insert b P)"
proof -
  have "yb_addr b \<notin> yb_addr ` P" using assms by (auto simp: owned_def)
  then show ?thesis using assms by (auto simp: owned_def)
qed

lemma owned_drop:
  assumes "allocator_ok A live" "owned live h lent P" "b \<in> P"
  shows "owned live (al_delete A (yb_addr b) h) lent (P - {b})"
proof -
  have P: "inj_on yb_addr P" "live h = lent \<union> yb_addr ` P" "lent \<inter> yb_addr ` P = {}"
    "\<forall>b \<in> P. buffer_ok b"
    using assms(2) by (simp_all add: owned_def)
  have "inj_on yb_addr (P - {b})" using P(1) by (rule inj_on_diff)
  moreover have "live (al_delete A (yb_addr b) h) = live h - {yb_addr b}"
    using assms(1) by (simp add: allocator_ok_def)
  ultimately show ?thesis using P assms(3) by (auto simp: owned_def addr_remove)
qed

lemma allocatorD:
  assumes "allocator_ok A live"
  shows "al_new A n h = (Some (a, d), h') \<Longrightarrow> a \<notin> live h \<and> live h' = insert a (live h) \<and> length d = unat n"
    "al_new A n h = (None, h') \<Longrightarrow> live h' = live h"
    "live (al_delete A a h) = live h - {a}"
    "al_register A a n m h = (r, h') \<Longrightarrow> live h' = live h"
  using assms by (simp_all add: allocator_ok_def)

lemma new_buffer_ok:
  assumes "allocator_ok A live" "new_buffer A n mode h = (r, h')"
  shows "case r of None \<Rightarrow> live h' = live h
    | Some b \<Rightarrow> live h' = insert (yb_addr b) (live h) \<and> yb_addr b \<notin> live h \<and> buffer_ok b
        \<and> yb_size b = n \<and> yb_mode b = mode"
proof -
  obtain x h1 where x: "al_new A n h = (x, h1)" by force
  show ?thesis
  proof (cases x)
    case None
    then show ?thesis
      using assms(2) x allocatorD(2) [OF assms(1)] by (auto simp: new_buffer_def)
  next
    case (Some ad)
    obtain a d where ad: "ad = (a, d)" by force
    obtain hret h2 where reg: "al_register A a n mode h1 = (hret, h2)" by force
    have n: "a \<notin> live h" "live h1 = insert a (live h)" "length d = unat n"
      using allocatorD(1) [OF assms(1)] x Some ad by blast+
    have h2: "live h2 = live h1" by (rule allocatorD(4) [OF assms(1) reg])
    show ?thesis
    proof (cases "hret = HG_SUCCESS")
      case True
      then show ?thesis
        using assms(2) x reg Some ad n h2 by (auto simp: new_buffer_def buffer_ok_def)
    next
      case False
      have "live h' = live h2 - {a}"
        using False assms(2) x reg Some ad allocatorD(3) [OF assms(1)] by (auto simp: new_buffer_def)
      moreover have "r = None" using False assms(2) x reg Some ad by (auto simp: new_buffer_def)
      ultimately show ?thesis using n h2 by simp
    qed
  qed
qed

lemma owned_new:
  assumes "allocator_ok A live" "owned live h lent P" "new_buffer A n mode h = (Some b, h')"
  shows "owned live h' (insert (yb_addr b) lent) P" "yb_addr b \<notin> lent"
    "buffer_ok b" "yb_size b = n" "yb_mode b = mode"
  using new_buffer_ok [OF assms(1,3)] assms(2) by (auto simp: owned_def)

lemma owned_new_none:
  assumes "allocator_ok A live" "owned live h lent P" "new_buffer A n mode h = (None, h')"
  shows "owned live h' lent P"
  using new_buffer_ok [OF assms(1,3)] assms(2) by (auto simp: owned_def)

section \<open>Ordered sets\<close>

lemma bulk_less_trans: "bulk_less a b \<Longrightarrow> bulk_less b c \<Longrightarrow> bulk_less a c"
  by (auto simp: bulk_less_def split: if_splits)

lemma bulk_less_irrefl [simp]: "\<not> bulk_less a a"
  by (simp add: bulk_less_def)

lemma bulk_less_total: "yb_addr a \<noteq> yb_addr b \<Longrightarrow> bulk_less a b \<or> bulk_less b a"
  by (auto simp: bulk_less_def)

abbreviation bset_ok :: "yk_buffer list \<Rightarrow> bool" where
  "bset_ok s \<equiv> sorted_wrt bulk_less s"

lemma bset_insert_law:
  assumes "bset_ok s" "yb_addr b \<notin> yb_addr ` set s"
  shows "bset_ok (bset_insert b s)" "set (bset_insert b s) = insert b (set s)"
proof -
  let ?lo = "takeWhile (\<lambda>x. bulk_less x b) s" and ?hi = "dropWhile (\<lambda>x. bulk_less x b) s"
  have s: "?lo @ ?hi = s" by simp
  have above: "bulk_less b x" if "x \<in> set ?hi" for x
  proof -
    have "\<not> bulk_less x b"
    proof (rule dropWhile_upward [OF assms(1) _ that])
      show "\<not> bulk_less y b" if "\<not> bulk_less z b" "bulk_less z y" for z y
        using that bulk_less_trans by blast
    qed
    moreover have "yb_addr x \<noteq> yb_addr b" using that assms(2) by (metis imageI set_dropWhileD)
    ultimately show ?thesis using bulk_less_total by blast
  qed
  have below: "bulk_less x b" if "x \<in> set ?lo" for x using that by (rule set_takeWhileD [THEN conjunct2])
  have split: "bset_insert b s = ?lo @ b # ?hi"
  proof -
    have "\<not> (?hi \<noteq> [] \<and> \<not> bulk_less b (hd ?hi))" using above hd_in_set by blast
    then show ?thesis unfolding bset_insert_def Let_def by (rule if_not_P)
  qed
  show "bset_ok (bset_insert b s)"
    unfolding split using assms(1) s below above by (intro sorted_wrt_insert_mid) simp_all
  have "set s = set ?lo \<union> set ?hi" by (metis s set_append)
  then show "set (bset_insert b s) = insert b (set s)" by (auto simp: split)
qed

lemma bset_erase_law:
  assumes "bset_ok s" "inj_on yb_addr (set s)" "b \<in> set s"
  shows "bset_ok (bset_erase b s)" "set (bset_erase b s) = set s - {b}"
proof -
  show "bset_ok (bset_erase b s)" using assms(1) by (simp add: bset_erase_def sorted_wrt_filter)
  have "bulk_less x b \<or> bulk_less b x" if "x \<in> set s" "x \<noteq> b" for x
    using that assms(2,3) bulk_less_total [of x b] by (auto dest: inj_onD)
  then show "set (bset_erase b s) = set s - {b}" by (auto simp: bset_erase_def)
qed

text \<open>The buffer found is the smallest one that is large enough.\<close>

lemma bset_lower_bound_law:
  assumes "bset_lower_bound (lbound n mode) s = b # rest"
  shows "b \<in> set s" "n \<le> yb_size b"
    "bset_ok s \<Longrightarrow> x \<in> set s \<Longrightarrow> n \<le> yb_size x \<Longrightarrow> yb_size b \<le> yb_size x"
proof -
  let ?P = "\<lambda>x. bulk_less x (lbound n mode)"
  have d: "dropWhile ?P s = b # rest" using assms by (simp add: bset_lower_bound_def)
  then show "b \<in> set s" by (metis list.set_intros(1) set_dropWhileD)
  have large: "bulk_less x (lbound n mode) \<longleftrightarrow> yb_size x < n" for x
    by (auto simp: bulk_less_def lbound_def)
  have "\<not> ?P b" using d by (metis hd_dropWhile list.distinct(1) list.sel(1))
  then show "n \<le> yb_size b" by (simp add: large)
  assume a: "bset_ok s" "x \<in> set s" "n \<le> yb_size x"
  then have "x \<in> set (takeWhile ?P s) \<or> x \<in> set (b # rest)"
    using d by (metis Un_iff set_append takeWhile_dropWhile_id)
  moreover have "x \<notin> set (takeWhile ?P s)" using a(3) by (auto dest: set_takeWhileD simp: large)
  moreover have "bset_ok (b # rest)" using a(1) d by (metis sorted_wrt_dropWhile)
  ultimately show "yb_size b \<le> yb_size x" by (auto simp: bulk_less_def split: if_splits)
qed

section \<open>Pools by mode\<close>

definition pooled :: "(hg_mode \<Rightarrow> yk_buffer list) \<Rightarrow> yk_buffer set" where
  "pooled f = set (f HG_BULK_READ_ONLY) \<union> set (f HG_BULK_WRITE_ONLY) \<union> set (f HG_BULK_READWRITE)"

definition by_mode :: "(hg_mode \<Rightarrow> yk_buffer list) \<Rightarrow> bool" where
  "by_mode f \<longleftrightarrow> (\<forall>m. bset_ok (f m) \<and> (\<forall>b \<in> set (f m). yb_mode b = m))"

lemma pooled_iff: "b \<in> pooled f \<longleftrightarrow> (\<exists>m. b \<in> set (f m))"
  unfolding pooled_def by (metis (full_types) Un_iff hg_mode.exhaust)

lemma by_modeD: "by_mode f \<Longrightarrow> bset_ok (f m)" "by_mode f \<Longrightarrow> b \<in> set (f m) \<Longrightarrow> yb_mode b = m"
  by (simp_all add: by_mode_def)

lemma pooled_inj: "inj_on yb_addr (pooled f) \<Longrightarrow> inj_on yb_addr (set (f m))"
  by (rule inj_on_subset) (auto simp: pooled_iff)

lemma pooled_erase:
  assumes "by_mode f" "inj_on yb_addr (pooled f)" "b \<in> set (f m)"
  shows "by_mode (f(m := bset_erase b (f m)))"
    "pooled (f(m := bset_erase b (f m))) = pooled f - {b}"
proof -
  note law = bset_erase_law [OF by_modeD(1) [OF assms(1)] pooled_inj [OF assms(2)] assms(3)]
  show "by_mode (f(m := bset_erase b (f m)))" using law assms(1) by (auto simp: by_mode_def)
  have "b \<notin> set (f k)" if "k \<noteq> m" for k using that assms(3) by_modeD(2) [OF assms(1)] by metis
  then have "x \<in> set ((f(m := bset_erase b (f m))) k) \<longleftrightarrow> x \<in> set (f k) \<and> x \<noteq> b" for x k
    using law(2) by auto
  then show "pooled (f(m := bset_erase b (f m))) = pooled f - {b}"
    unfolding set_eq_iff pooled_iff Diff_iff by blast
qed

lemma pooled_insert:
  assumes "by_mode f" "yb_addr b \<notin> yb_addr ` pooled f"
  defines "m \<equiv> yb_mode b"
  shows "by_mode (f(m := bset_insert b (f m)))"
    "pooled (f(m := bset_insert b (f m))) = insert b (pooled f)"
proof -
  have "yb_addr b \<notin> yb_addr ` set (f m)" using assms(2) pooled_iff [of _ f] by fastforce
  note law = bset_insert_law [OF by_modeD(1) [OF assms(1)] this]
  show "by_mode (f(m := bset_insert b (f m)))" using law assms(1) by (auto simp: by_mode_def m_def)
  show "pooled (f(m := bset_insert b (f m))) = insert b (pooled f)"
    using law(2) by (auto simp: set_eq_iff pooled_iff split: if_splits)
qed


section \<open>The caches keep the contract\<close>

text \<open>\<open>grow\<close> never shrinks a size, which holds for sizes a \<open>double\<close> represents exactly.\<close>

definition grows :: "(size_t \<Rightarrow> size_t) \<Rightarrow> bool" where
  "grows grow \<longleftrightarrow> (\<forall>n. n \<le> grow n)"

definition default_bulk_inv :: "'h allocator \<Rightarrow> ('h \<Rightarrow> size_t set) \<Rightarrow> size_t set \<Rightarrow> 'h default_bulk \<Rightarrow> bool" where
  "default_bulk_inv A live lent c \<longleftrightarrow> allocator_ok A live \<and> owned live (db_heap c) lent {}"

definition keep_all_inv :: "'h allocator \<Rightarrow> ('h \<Rightarrow> size_t set) \<Rightarrow> (size_t \<Rightarrow> size_t) \<Rightarrow> size_t set
    \<Rightarrow> 'h keep_all_bulk \<Rightarrow> bool" where
  "keep_all_inv A live grow lent c \<longleftrightarrow> allocator_ok A live \<and> grows grow
     \<and> owned live (ka_heap c) lent (pooled (ka_set c)) \<and> by_mode (ka_set c)
     \<and> finite lent \<and> ka_num_in_use c = of_nat (card lent)"

text \<open>The list and the map hold the same buffers, at most \<open>capacity\<close> of each mode.\<close>

definition lru_bulk_inv :: "'h allocator \<Rightarrow> ('h \<Rightarrow> size_t set) \<Rightarrow> (size_t \<Rightarrow> size_t) \<Rightarrow> size_t set
    \<Rightarrow> 'h lru_bulk \<Rightarrow> bool" where
  "lru_bulk_inv A live grow lent c \<longleftrightarrow> allocator_ok A live \<and> grows grow
     \<and> owned live (lb_heap c) lent (pooled (lb_set c)) \<and> by_mode (lb_set c)
     \<and> (\<forall>m. set (lb_queue c m) = set (lb_set c m) \<and> distinct (map yb_addr (lb_queue c m))
            \<and> length (lb_queue c m) \<le> unat (lb_capacity c))
     \<and> finite lent \<and> lb_num_in_use c = of_nat (card lent)"

interpretation default_pool: buffer_pool "default_bulk_cache_get A" "default_bulk_cache_release A"
    "default_bulk_inv A live"
proof unfold_locales
  fix lent and c c' :: "'a default_bulk" and n m b
  assume inv: "default_bulk_inv A live lent c"
  show "default_bulk_cache_get A n m c = (None, c') \<Longrightarrow> default_bulk_inv A live lent c'"
    using inv owned_new_none [of A live "db_heap c" lent "{}"]
    by (auto simp: default_bulk_cache_get_def default_bulk_inv_def split: if_splits prod.splits)
  show "default_bulk_inv A live (insert (yb_addr b) lent) c' \<and> yb_addr b \<notin> lent \<and> buffer_ok b
      \<and> n \<le> yb_size b \<and> yb_mode b = m" if "default_bulk_cache_get A n m c = (Some b, c')"
    using that inv owned_new [of A live "db_heap c" lent "{}" n m b]
    by (auto simp: default_bulk_cache_get_def default_bulk_inv_def split: if_splits prod.splits)
  show "default_bulk_inv A live (lent - {yb_addr b}) (default_bulk_cache_release A b c)"
    if "yb_addr b \<in> lent" "buffer_ok b"
    using that inv owned_drop [of A live "db_heap c" "lent - {yb_addr b}" "{b}" b]
      owned_give [of live "db_heap c" lent "{}" b]
    by (simp add: default_bulk_inv_def default_bulk_cache_release_def)
qed

lemma card_lend: "finite lent \<Longrightarrow> a \<notin> lent \<Longrightarrow> of_nat (card (insert a lent)) = (of_nat (card lent) + 1 :: size_t)"
  by simp

lemma card_return:
  assumes "finite lent" "a \<in> lent"
  shows "of_nat (card (lent - {a})) = (of_nat (card lent) - 1 :: size_t)"
proof -
  have "card lent = Suc (card (lent - {a}))" using assms by (rule card.remove)
  then show ?thesis by simp
qed

interpretation keep_all_pool: buffer_pool "keep_all_bulk_cache_get A grow" "keep_all_bulk_cache_release"
    "keep_all_inv A live grow"
proof unfold_locales
  fix lent and c c' :: "'a keep_all_bulk" and n m b
  assume "keep_all_inv A live grow lent c"
  then have inv: "allocator_ok A live" "grows grow" "owned live (ka_heap c) lent (pooled (ka_set c))"
    "by_mode (ka_set c)" "finite lent" "ka_num_in_use c = of_nat (card lent)"
    by (simp_all add: keep_all_inv_def)
  show "keep_all_inv A live grow lent c'" if "keep_all_bulk_cache_get A grow n m c = (None, c')"
    using that inv owned_new_none [OF inv(1,3)]
    by (auto simp: keep_all_bulk_cache_get_def keep_all_inv_def split: if_splits prod.splits list.splits option.splits)
  show "keep_all_inv A live grow (insert (yb_addr b) lent) c' \<and> yb_addr b \<notin> lent \<and> buffer_ok b
      \<and> n \<le> yb_size b \<and> yb_mode b = m" if get: "keep_all_bulk_cache_get A grow n m c = (Some b, c')"
  proof (cases "bset_lower_bound (lbound n m) (ka_set c m)")
    case Nil
    obtain r h where nb: "new_buffer A (grow n) m (ka_heap c) = (r, h)" by force
    then have b: "r = Some b" "c' = c\<lparr> ka_heap := h, ka_num_in_use := ka_num_in_use c + 1 \<rparr>"
      using get Nil by (auto simp: keep_all_bulk_cache_get_def split: if_splits option.splits)
    note new = owned_new [OF inv(1,3) nb [unfolded b(1)]]
    show ?thesis
      using new inv card_lend [OF inv(5) new(2)] by (simp add: keep_all_inv_def b(2) grows_def)
  next
    case (Cons x rest)
    have x: "x = b" "c' = c\<lparr> ka_set := (ka_set c)(m := bset_erase b (ka_set c m)),
        ka_num_in_use := ka_num_in_use c + 1 \<rparr>"
      using get Cons by (auto simp: keep_all_bulk_cache_get_def split: if_splits)
    note lb = bset_lower_bound_law(1,2) [OF Cons [unfolded x(1)]]
    have "b \<in> pooled (ka_set c)" using lb(1) by (auto simp: pooled_iff)
    note take = owned_take [OF inv(3) this]
    have "inj_on yb_addr (pooled (ka_set c))" using inv(3) by (simp add: owned_def)
    note erase = pooled_erase [OF inv(4) this lb(1)]
    show ?thesis
      using take erase inv lb(2) by_modeD(2) [OF inv(4) lb(1)] card_lend [OF inv(5) take(2)]
      by (simp add: keep_all_inv_def x(2))
  qed
  show "keep_all_inv A live grow (lent - {yb_addr b}) (keep_all_bulk_cache_release b c)"
    if b: "yb_addr b \<in> lent" "buffer_ok b"
  proof -
    have "yb_addr b \<notin> yb_addr ` pooled (ka_set c)" using b(1) inv(3) by (auto simp: owned_def)
    note ins = pooled_insert [OF inv(4) this]
    show ?thesis
      using ins owned_give [OF inv(3) b] inv card_return [OF inv(5) b(1)]
      by (simp add: keep_all_inv_def keep_all_bulk_cache_release_def)
  qed
qed


lemma queue_erase_set:
  assumes "inj_on yb_addr (set q)" "b \<in> set q"
  shows "set (queue_erase b q) = set q - {b}"
  using assms by (auto simp: queue_erase_def inj_on_def)

lemma lru_bulk_invD:
  assumes "lru_bulk_inv A live grow lent c"
  shows "allocator_ok A live" "grows grow" "owned live (lb_heap c) lent (pooled (lb_set c))"
    "by_mode (lb_set c)" "set (lb_queue c m) = set (lb_set c m)" "distinct (map yb_addr (lb_queue c m))"
    "length (lb_queue c m) \<le> unat (lb_capacity c)" "finite lent"
    "lb_num_in_use c = of_nat (card lent)" "inj_on yb_addr (pooled (lb_set c))"
    "inj_on yb_addr (set (lb_set c m))"
proof -
  show i: "inj_on yb_addr (pooled (lb_set c))" using assms by (simp add: lru_bulk_inv_def owned_def)
  show "inj_on yb_addr (set (lb_set c m))" by (rule pooled_inj [OF i])
qed (use assms in \<open>simp_all add: lru_bulk_inv_def\<close>)

text \<open>A buffer pushed to a full list drives out the last one, which may be itself.\<close>

lemma lru_release_ok:
  assumes "lru_bulk_inv A live grow lent c" "yb_addr b \<in> lent" "buffer_ok b"
  shows "lru_bulk_inv A live grow (lent - {yb_addr b}) (lru_bulk_cache_release A b c)"
proof -
  note inv = lru_bulk_invD [OF assms(1)]
  let ?m = "yb_mode b"
  define q where "q = b # lb_queue c ?m"
  define S where "S = (lb_set c)(?m := bset_insert b (lb_set c ?m))"
  have fresh: "yb_addr b \<notin> yb_addr ` pooled (lb_set c)" using assms(2) inv(3) by (auto simp: owned_def)
  note ins = pooled_insert [OF inv(4) fresh, folded S_def]
  have own: "owned live (lb_heap c) (lent - {yb_addr b}) (pooled S)"
    unfolding ins(2) by (rule owned_give [OF inv(3) assms(2,3)])
  have count: "of_nat (card (lent - {yb_addr b})) = lb_num_in_use c - 1"
    using card_return [OF inv(8) assms(2)] inv(9) by simp
  have "yb_addr b \<notin> yb_addr ` set (lb_set c ?m)" using fresh pooled_iff by fastforce
  then have bq: "yb_addr b \<notin> yb_addr ` set (lb_queue c ?m)" by (simp add: inv(5))
  then have dq: "distinct (map yb_addr q)" using inv(6) by (simp add: q_def)
  have Sm: "set (S ?m) = set q"
    using bset_insert_law(2) [OF by_modeD(1) [OF inv(4)], of b ?m] bq by (simp add: inv(5) q_def S_def)
  show ?thesis
  proof (cases "unat (lb_capacity c) < length q")
    case False
    let ?c = "c\<lparr> lb_num_in_use := lb_num_in_use c - 1, lb_queue := (lb_queue c)(?m := q), lb_set := S \<rparr>"
    have "lru_bulk_cache_release A b c = ?c"
      using False by (simp add: lru_bulk_cache_release_def Let_def q_def S_def)
    moreover have "set (lb_queue ?c m) = set (lb_set ?c m) \<and> distinct (map yb_addr (lb_queue ?c m))
        \<and> length (lb_queue ?c m) \<le> unat (lb_capacity ?c)" for m
      using Sm dq False inv(5-7) by (simp add: S_def)
    ultimately show ?thesis
      using own ins(1) inv(1,2,8) count by (simp add: lru_bulk_inv_def)
  next
    case True
    define l where "l = last q"
    define S' where "S' = S(?m := bset_erase l (S ?m))"
    have ne: "q \<noteq> []" by (simp add: q_def)
    let ?c = "c\<lparr> lb_num_in_use := lb_num_in_use c - 1, lb_queue := (lb_queue c)(?m := butlast q),
      lb_set := S', lb_heap := al_delete A (yb_addr l) (lb_heap c) \<rparr>"
    have l: "l \<in> set (S ?m)" unfolding Sm l_def by (rule last_in_set [OF ne])
    have inj: "inj_on yb_addr (pooled S)" using own by (simp add: owned_def)
    note er = pooled_erase [OF ins(1) inj l, folded S'_def]
    have "l \<in> pooled S" using l by (auto simp: pooled_iff)
    note drop = owned_drop [OF inv(1) own this, folded er(2)]
    have q: "butlast q @ [l] = q" unfolding l_def by (rule append_butlast_last_id [OF ne])
    have dl: "distinct (map yb_addr (butlast q))" using dq by (metis distinct_butlast map_butlast)
    have "distinct (butlast q @ [l])" unfolding q using dq by (simp add: distinct_map)
    then have "l \<notin> set (butlast q)" by simp
    moreover have "set q = insert l (set (butlast q))" by (metis Un_insert_right list.set(1,2) q set_append sup_bot_right)
    ultimately have "set (butlast q) = set (S' ?m)"
      using bset_erase_law(2) [OF by_modeD(1) [OF ins(1)] pooled_inj [OF inj] l] Sm by (auto simp: S'_def)
    moreover have "length (butlast q) \<le> unat (lb_capacity c)" using inv(7) [of ?m] by (simp add: q_def)
    ultimately have "set (lb_queue ?c m) = set (lb_set ?c m) \<and> distinct (map yb_addr (lb_queue ?c m))
        \<and> length (lb_queue ?c m) \<le> unat (lb_capacity ?c)" for m
      using dl inv(5-7) by (simp add: S'_def S_def)
    moreover have "lru_bulk_cache_release A b c = ?c"
      using True by (simp add: lru_bulk_cache_release_def Let_def q_def S_def l_def S'_def)
    ultimately show ?thesis
      using drop er(1) inv(1,2,8) count by (simp add: lru_bulk_inv_def)
  qed
qed

interpretation lru_pool: buffer_pool "lru_bulk_cache_get A grow" "lru_bulk_cache_release A"
    "lru_bulk_inv A live grow"
proof unfold_locales
  fix lent and c c' :: "'a lru_bulk" and n m b
  assume c: "lru_bulk_inv A live grow lent c"
  note inv = lru_bulk_invD [OF c]
  show "lru_bulk_inv A live grow lent c'" if "lru_bulk_cache_get A grow n m c = (None, c')"
    using that c owned_new_none [OF inv(1,3)]
    by (auto simp: lru_bulk_cache_get_def lru_bulk_inv_def split: if_splits prod.splits list.splits option.splits)
  show "lru_bulk_inv A live grow (insert (yb_addr b) lent) c' \<and> yb_addr b \<notin> lent \<and> buffer_ok b
      \<and> n \<le> yb_size b \<and> yb_mode b = m" if get: "lru_bulk_cache_get A grow n m c = (Some b, c')"
  proof (cases "bset_lower_bound (lbound n m) (lb_set c m)")
    case Nil
    obtain r h where nb: "new_buffer A (grow n) m (lb_heap c) = (r, h)" by force
    then have b: "r = Some b" "c' = c\<lparr> lb_heap := h, lb_num_in_use := lb_num_in_use c + 1 \<rparr>"
      using get Nil by (auto simp: lru_bulk_cache_get_def split: if_splits option.splits)
    note new = owned_new [OF inv(1,3) nb [unfolded b(1)]]
    show ?thesis
      using new c card_lend [OF inv(8) new(2)] by (simp add: lru_bulk_inv_def b(2) grows_def)
  next
    case (Cons x rest)
    have x: "x = b" "c' = c\<lparr> lb_queue := (lb_queue c)(m := queue_erase b (lb_queue c m)),
        lb_set := (lb_set c)(m := bset_erase b (lb_set c m)), lb_num_in_use := lb_num_in_use c + 1 \<rparr>"
      using get Cons by (auto simp: lru_bulk_cache_get_def split: if_splits)
    note lb = bset_lower_bound_law(1,2) [OF Cons [unfolded x(1)]]
    have "b \<in> pooled (lb_set c)" using lb(1) by (auto simp: pooled_iff)
    note take = owned_take [OF inv(3) this]
    note erase = pooled_erase [OF inv(4,10) lb(1)]
    have q: "set (queue_erase b (lb_queue c m)) = set (bset_erase b (lb_set c m))"
      using queue_erase_set [of "lb_queue c m" b] bset_erase_law(2) [OF by_modeD(1) [OF inv(4)] inv(11) lb(1)]
        inv(5,11) lb(1) by simp
    have "distinct (map yb_addr (queue_erase b (lb_queue c m)))"
      unfolding queue_erase_def by (rule distinct_map_filter [OF inv(6)])
    moreover have "length (queue_erase b (lb_queue c m)) \<le> unat (lb_capacity c)"
      unfolding queue_erase_def using inv(7) length_filter_le le_trans by blast
    ultimately show ?thesis
      using take erase inv(1,2,5-9) lb(2) by_modeD(2) [OF inv(4) lb(1)] card_lend [OF inv(8) take(2)] q
      by (simp add: lru_bulk_inv_def x(2))
  qed
  show "lru_bulk_inv A live grow (lent - {yb_addr b}) (lru_bulk_cache_release A b c)"
    if "yb_addr b \<in> lent" "buffer_ok b"
    by (rule lru_release_ok [OF c that])
qed

end
