(* ===== verification/Rpc.thy ===== *)
theory Rpc
  imports BulkCacheContract DocMixin
begin

text \<open>
  The common part of the RPC handlers (src/src/server) and of the client (src/src/client). Margo
  and Mercury are arguments: what they give a handler is the record \<open>rpc\<close>, what a client call
  gets from them the record \<open>endpoint\<close>. \<open>margo_ok\<close> is the documented behaviour of the bulk
  transfers that the properties rely on.
\<close>

section \<open>Arrays of sizes in a buffer\<close>

text \<open>\<open>reinterpret_cast<size_t*>\<close> of a part of the buffer.\<close>

definition enc_list :: "size_t list \<Rightarrow> bytes" where
  "enc_list ns = concat (map enc64 ns)"

fun dec_list :: "nat \<Rightarrow> bytes \<Rightarrow> size_t list" where
  "dec_list 0 b = []"
| "dec_list (Suc n) b = dec64 (take 8 b) # dec_list n (drop 8 b)"

definition read_sizes :: "bytes \<Rightarrow> size_t \<Rightarrow> size_t \<Rightarrow> size_t list outcome" where
  "read_sizes d off cnt =
     (if unat off + 8 * unat cnt \<le> length d
      then Done (dec_list (unat cnt) (drop (unat off) d)) else Undef)"

lemma enc_list_simps [simp]: "enc_list [] = []" "enc_list (n # ns) = enc64 n @ enc_list ns"
    "length (enc_list ns) = 8 * length ns"
  by (simp_all add: enc_list_def length_concat comp_def sum_list_triv)

lemma dec_enc_list [simp]: "dec_list (length ns) (enc_list ns @ rest) = ns"
  by (induction ns) auto

lemma length_dec_list [simp]: "length (dec_list n b) = n"
  by (induction n arbitrary: b) auto

text \<open>\<open>std::accumulate\<close> with \<open>std::min\<close>, from the largest \<open>size_t\<close>.\<close>

definition min_size :: "size_t list \<Rightarrow> size_t" where
  "min_size ns = foldl min (- 1) ns"

lemma min_size_0: "min_size ns = 0 \<longleftrightarrow> 0 \<in> set ns"
proof -
  have min0: "min a n = 0 \<longleftrightarrow> a = 0 \<or> n = 0" for a n :: size_t
    by (cases "a \<le> n") (auto simp: min_def)
  have "foldl min a ns = 0 \<longleftrightarrow> a = 0 \<or> 0 \<in> set ns" for a :: size_t
    by (induction ns arbitrary: a) (simp_all only: foldl_Nil foldl_Cons min0 list.set empty_iff
      insert_iff simp_thms disj_assoc eq_commute [of 0])
  then show ?thesis by (simp add: min_size_def)
qed

section \<open>What Margo gives a handler\<close>

type_synonym addr = nat

text \<open>
  \<open>rpc_pull addr bulk roff loff n d m\<close> is \<open>margo_bulk_transfer(..., HG_BULK_PULL, addr, bulk, roff,
  buffer->bulk, loff, n)\<close> on a local buffer with the content \<open>d\<close> when the memory of the origin is
  \<open>m\<close>: the return value and the new content of the buffer; \<open>rpc_push\<close> the opposite direction.
  \<open>rpc_ipush\<close> is \<open>margo_bulk_itransfer\<close> with the \<open>margo_wait\<close> that follows: both return values.
\<close>

record ('i, 'b, 'm) rpc =
  rpc_instance :: bool
  rpc_provider :: bool
  rpc_input :: "'i option"
  rpc_lookup :: "bytes \<Rightarrow> addr option"
  rpc_dup :: "addr option"
  rpc_pull :: "addr \<Rightarrow> 'b \<Rightarrow> size_t \<Rightarrow> size_t \<Rightarrow> size_t \<Rightarrow> bytes \<Rightarrow> 'm \<Rightarrow> hg_return \<times> bytes"
  rpc_push :: "addr \<Rightarrow> 'b \<Rightarrow> size_t \<Rightarrow> size_t \<Rightarrow> size_t \<Rightarrow> bytes \<Rightarrow> 'm \<Rightarrow> hg_return \<times> 'm"
  rpc_ipush :: "addr \<Rightarrow> 'b \<Rightarrow> size_t \<Rightarrow> size_t \<Rightarrow> size_t \<Rightarrow> bytes \<Rightarrow> 'm \<Rightarrow> hg_return \<times> hg_return \<times> 'm"

text \<open>The provider's database and bulk cache, and the memory of the origin.\<close>

record ('s, 'c, 'm) world =
  w_db :: "'s option"
  w_cache :: 'c
  w_mem :: 'm

text \<open>The virtual functions of \<open>DatabaseInterface\<close> that the key/value handlers call.\<close>

record 's database = "'s kv_ops" +
  d_count :: "mode_t \<Rightarrow> 's \<Rightarrow> status \<times> size_t option"
  d_listKeys :: "mode_t \<Rightarrow> bool \<Rightarrow> bytes \<Rightarrow> kv_filter \<Rightarrow> bytes \<Rightarrow> size_t list \<Rightarrow> 's
     \<Rightarrow> (status \<times> get_out) outcome"

section \<open>The steps every handler makes\<close>

text \<open>\<open>ret\<close> answers with an error code, \<open>k\<close> goes on.\<close>

definition handler_input :: "('i, 'b, 'm) rpc \<Rightarrow> (yk_return_t \<Rightarrow> 'r) \<Rightarrow> ('i \<Rightarrow> 'r) \<Rightarrow> 'r" where
  "handler_input R ret k =
     (if \<not> rpc_instance R then ret YOKAN_ERR_INVALID_MID
      else if \<not> rpc_provider R then ret YOKAN_ERR_INVALID_PROVIDER
      else case rpc_input R of None \<Rightarrow> ret YOKAN_ERR_FROM_MERCURY | Some inp \<Rightarrow> k inp)"

definition resolve_origin :: "('i, 'b, 'm) rpc \<Rightarrow> bytes option \<Rightarrow> (yk_return_t \<Rightarrow> 'r) \<Rightarrow> (addr \<Rightarrow> 'r) \<Rightarrow> 'r" where
  "resolve_origin R origin ret k =
     (case (case origin of Some str \<Rightarrow> rpc_lookup R str | None \<Rightarrow> rpc_dup R) of
        None \<Rightarrow> ret YOKAN_ERR_FROM_MERCURY
      | Some a \<Rightarrow> k a)"

definition check_database :: "(mode_t \<Rightarrow> bool) \<Rightarrow> mode_t \<Rightarrow> 's option \<Rightarrow> (yk_return_t \<Rightarrow> 'r) \<Rightarrow> ('s \<Rightarrow> 'r) \<Rightarrow> 'r" where
  "check_database supports mode db ret k =
     (case db of
        None \<Rightarrow> ret YOKAN_ERR_INVALID_DATABASE
      | Some s \<Rightarrow> if \<not> supports mode then ret YOKAN_ERR_MODE else k s)"

text \<open>
  The buffer a handler works with is released at its end (\<open>DEFER\<close>), whatever the answer.
  A body answers with what it made of the buffer.
\<close>

definition with_buffer :: "'c bulk_cache \<Rightarrow> size_t \<Rightarrow> hg_mode \<Rightarrow> ('s, 'c, 'm) world
    \<Rightarrow> (yk_buffer \<Rightarrow> ('s, 'c, 'm) world \<Rightarrow> ('o \<times> yk_buffer \<times> ('s, 'c, 'm) world) outcome)
    \<Rightarrow> (yk_return_t \<Rightarrow> 'o) \<Rightarrow> ('o \<times> ('s, 'c, 'm) world) outcome" where
  "with_buffer P n mode w body err =
     (case bc_get P n mode (w_cache w) of
        (None, c) \<Rightarrow> Done (err YOKAN_ERR_ALLOCATION, w\<lparr> w_cache := c \<rparr>)
      | (Some b, c) \<Rightarrow>
          obind (body b (w\<lparr> w_cache := c \<rparr>)) (\<lambda>(r, b', w').
            Done (r, w'\<lparr> w_cache := bc_release P b' (w_cache w') \<rparr>)))"

definition pull :: "('i, 'b, 'm) rpc \<Rightarrow> addr \<Rightarrow> 'b \<Rightarrow> size_t \<Rightarrow> size_t \<Rightarrow> size_t \<Rightarrow> yk_buffer
    \<Rightarrow> ('s, 'c, 'm) world \<Rightarrow> (yk_return_t \<Rightarrow> 'o)
    \<Rightarrow> (yk_buffer \<Rightarrow> ('o \<times> yk_buffer \<times> ('s, 'c, 'm) world) outcome)
    \<Rightarrow> ('o \<times> yk_buffer \<times> ('s, 'c, 'm) world) outcome" where
  "pull R a bulk roff loff n b w err k =
     (case rpc_pull R a bulk roff loff n (yb_data b) (w_mem w) of
        (hret, d) \<Rightarrow>
          (let b' = b\<lparr> yb_data := d \<rparr> in
           if hret \<noteq> HG_SUCCESS then Done (err YOKAN_ERR_FROM_MERCURY, b', w) else k b'))"

definition push :: "('i, 'b, 'm) rpc \<Rightarrow> addr \<Rightarrow> 'b \<Rightarrow> size_t \<Rightarrow> size_t \<Rightarrow> size_t \<Rightarrow> yk_buffer
    \<Rightarrow> ('s, 'c, 'm) world \<Rightarrow> (yk_return_t \<Rightarrow> 'o)
    \<Rightarrow> (('s, 'c, 'm) world \<Rightarrow> ('o \<times> yk_buffer \<times> ('s, 'c, 'm) world) outcome)
    \<Rightarrow> ('o \<times> yk_buffer \<times> ('s, 'c, 'm) world) outcome" where
  "push R a bulk roff loff n b w err k =
     (case rpc_push R a bulk roff loff n (yb_data b) (w_mem w) of
        (hret, m) \<Rightarrow>
          (let w' = w\<lparr> w_mem := m \<rparr> in
           if hret \<noteq> HG_SUCCESS then Done (err YOKAN_ERR_FROM_MERCURY, b, w') else k w'))"

text \<open>A part of the buffer as user memory; the database writes into it in place.\<close>

definition buf_umem :: "yk_buffer \<Rightarrow> size_t \<Rightarrow> size_t \<Rightarrow> umem outcome" where
  "buf_umem b off n = sub_umem \<lparr> um_addr = yb_addr b, um_data = yb_data b \<rparr> off n"

definition buf_store :: "yk_buffer \<Rightarrow> size_t \<Rightarrow> bytes \<Rightarrow> yk_buffer outcome" where
  "buf_store b off x = obind (memcpy_to (yb_data b) off x) (\<lambda>d. Done (b\<lparr> yb_data := d \<rparr>))"

section \<open>Arguments\<close>

record 'b bulk_in =
  bi_mode :: mode_t
  bi_count :: size_t
  bi_offset :: size_t
  bi_size :: size_t
  bi_origin :: "bytes option"
  bi_bulk :: 'b

record 'b get_in = "'b bulk_in" +
  gi_packed :: bool

text \<open>The modes that exclude each other (\<open>CHECK_MODE_VALID\<close>, in the client).\<close>

definition incompatible_modes :: "(mode_t \<times> mode_t) list" where
  "incompatible_modes =
     [(YOKAN_MODE_APPEND, YOKAN_MODE_NEW_ONLY), (YOKAN_MODE_NEW_ONLY, YOKAN_MODE_EXIST_ONLY),
      (YOKAN_MODE_SUFFIX, YOKAN_MODE_LUA_FILTER), (YOKAN_MODE_LIB_FILTER, YOKAN_MODE_SUFFIX),
      (YOKAN_MODE_LUA_FILTER, YOKAN_MODE_LIB_FILTER)]"

definition mode_valid :: "mode_t \<Rightarrow> bool" where
  "mode_valid mode \<longleftrightarrow> (\<forall>(a, b) \<in> set incompatible_modes. \<not> (has_mode mode a \<and> has_mode mode b))"

section \<open>What the properties assume of Margo\<close>

text \<open>
  \<open>segs a bulk m\<close> are the buffers that the handle exposes in the memory of the process at \<open>a\<close>,
  one after the other. A transfer inside both sides copies bytes, one that leaves either fails
  (Mercury checks the sizes of both handles) and changes nothing.
\<close>

definition margo_ok :: "(addr \<Rightarrow> 'b \<Rightarrow> 'm \<Rightarrow> bytes list) \<Rightarrow> ('i, 'b, 'm) rpc \<Rightarrow> bool" where
  "margo_ok segs R \<longleftrightarrow>
     (\<forall>a bulk roff loff n d m. let region = concat (segs a bulk m) in
        (if unat roff + unat n \<le> length region \<and> unat loff + unat n \<le> length d
         then rpc_pull R a bulk roff loff n d m = (HG_SUCCESS,
                take (unat loff) d @ take (unat n) (drop (unat roff) region)
                @ drop (unat loff + unat n) d)
            \<and> (\<exists>m'. rpc_push R a bulk roff loff n d m = (HG_SUCCESS, m')
                 \<and> rpc_ipush R a bulk roff loff n d m = (HG_SUCCESS, HG_SUCCESS, m')
                 \<and> map length (segs a bulk m') = map length (segs a bulk m)
                 \<and> concat (segs a bulk m') = take (unat roff) region
                     @ take (unat n) (drop (unat loff) d) @ drop (unat roff + unat n) region)
         else rpc_pull R a bulk roff loff n d m = (HG_FAILURE, d)
            \<and> rpc_push R a bulk roff loff n d m = (HG_FAILURE, m)
            \<and> rpc_ipush R a bulk roff loff n d m = (HG_FAILURE, HG_FAILURE, m)))"

text \<open>The buffer a pull writes keeps its length.\<close>

definition pull_keeps_size :: "('i, 'b, 'm) rpc \<Rightarrow> bool" where
  "pull_keeps_size R \<longleftrightarrow>
     (\<forall>a bulk roff loff n d m. length (snd (rpc_pull R a bulk roff loff n d m)) = length d)"

lemma margo_okD:
  assumes "margo_ok segs R"
  shows "unat roff + unat n \<le> length (concat (segs a bulk m)) \<Longrightarrow> unat loff + unat n \<le> length d
      \<Longrightarrow> rpc_pull R a bulk roff loff n d m = (HG_SUCCESS, take (unat loff) d
            @ take (unat n) (drop (unat roff) (concat (segs a bulk m))) @ drop (unat loff + unat n) d)"
    and "unat roff + unat n \<le> length (concat (segs a bulk m)) \<Longrightarrow> unat loff + unat n \<le> length d
      \<Longrightarrow> \<exists>m'. rpc_push R a bulk roff loff n d m = (HG_SUCCESS, m')
            \<and> rpc_ipush R a bulk roff loff n d m = (HG_SUCCESS, HG_SUCCESS, m')
            \<and> map length (segs a bulk m') = map length (segs a bulk m)
            \<and> concat (segs a bulk m') = take (unat roff) (concat (segs a bulk m))
                @ take (unat n) (drop (unat loff) d)
                @ drop (unat roff + unat n) (concat (segs a bulk m))"
    and "\<not> (unat roff + unat n \<le> length (concat (segs a bulk m)) \<and> unat loff + unat n \<le> length d)
      \<Longrightarrow> rpc_pull R a bulk roff loff n d m = (HG_FAILURE, d)
        \<and> rpc_push R a bulk roff loff n d m = (HG_FAILURE, m)
        \<and> rpc_ipush R a bulk roff loff n d m = (HG_FAILURE, HG_FAILURE, m)"
  using assms [unfolded margo_ok_def Let_def, rule_format, of roff n a bulk m loff d] by auto

lemma margo_ok_keeps_size: "margo_ok segs R \<Longrightarrow> pull_keeps_size R"
  unfolding pull_keeps_size_def
proof (intro allI)
  fix a bulk roff loff n d m
  assume R: "margo_ok segs R"
  show "length (snd (rpc_pull R a bulk roff loff n d m)) = length d"
  proof (cases "unat roff + unat n \<le> length (concat (segs a bulk m)) \<and> unat loff + unat n \<le> length d")
    case True
    then show ?thesis using margo_okD(1) [OF R, of roff n a bulk m loff d] by (auto simp: min_def simp del: length_concat)
  next
    case False
    then show ?thesis using margo_okD(3) [OF R] by simp
  qed
qed

end
