(* ===== verification/KvHandlers.thy ===== *)
theory KvHandlers
  imports Rpc
begin

text \<open>
  The RPC handlers of the key/value operations (src/src/server: put, get, length, exists, erase,
  count, list_keys, list_keyvals). A handler that moves data by RDMA takes a buffer from the bulk
  cache, pulls the arguments from the origin, calls the database on views of the buffer, and pushes
  the results back; a \<open>direct\<close> handler finds the arguments in its input and answers in its output.
\<close>

section \<open>The two kinds of handler\<close>

type_synonym ('o, 's, 'c, 'm) reply = "('o \<times> yk_buffer \<times> ('s, 'c, 'm) world) outcome"

definition bulk_op :: "('i, 'b, 'm) rpc \<Rightarrow> 'c bulk_cache \<Rightarrow> 's database \<Rightarrow> ('i \<Rightarrow> bytes option)
    \<Rightarrow> ('i \<Rightarrow> mode_t) \<Rightarrow> ('i \<Rightarrow> size_t) \<Rightarrow> hg_mode \<Rightarrow> (yk_return_t \<Rightarrow> 'o)
    \<Rightarrow> ('i \<Rightarrow> addr \<Rightarrow> 's \<Rightarrow> yk_buffer \<Rightarrow> ('s, 'c, 'm) world \<Rightarrow> ('o, 's, 'c, 'm) reply)
    \<Rightarrow> ('s, 'c, 'm) world \<Rightarrow> ('o \<times> ('s, 'c, 'm) world) outcome" where
  "bulk_op R P D origin_of mode_of size_of access err work w =
     (let ret = (\<lambda>e. Done (err e, w)) in
      handler_input R ret (\<lambda>inp.
      resolve_origin R (origin_of inp) ret (\<lambda>a.
      check_database (o_supports D) (mode_of inp) (w_db w) ret (\<lambda>db.
      with_buffer P (size_of inp) access w (work inp a db) err))))"

definition direct_op :: "('i, 'b, 'm) rpc \<Rightarrow> 's database \<Rightarrow> ('i \<Rightarrow> mode_t) \<Rightarrow> (yk_return_t \<Rightarrow> 'o)
    \<Rightarrow> ('i \<Rightarrow> 's \<Rightarrow> ('o \<times> 's option) outcome) \<Rightarrow> 's option \<Rightarrow> ('o \<times> 's option) outcome" where
  "direct_op R D mode_of err work db =
     (let ret = (\<lambda>e. Done (err e, db)) in
      handler_input R ret (\<lambda>inp.
      check_database (o_supports D) (mode_of inp) db ret (work inp)))"

section \<open>put\<close>

definition put_work :: "('i, 'b, 'm) rpc \<Rightarrow> 's database \<Rightarrow> 'b bulk_in \<Rightarrow> addr \<Rightarrow> 's \<Rightarrow> yk_buffer
    \<Rightarrow> ('s, 'c, 'm) world \<Rightarrow> (yk_return_t, 's, 'c, 'm) reply" where
  "put_work R D inp a db b w =
     (let n = bi_count inp in
      pull R a (bi_bulk inp) (bi_offset inp) 0 (bi_size inp) b w id (\<lambda>b.
      obind (read_sizes (yb_data b) 0 n) (\<lambda>ksizes.
      obind (read_sizes (yb_data b) (n * 8) n) (\<lambda>vsizes.
      let total_ksize = accumulate ksizes; total_vsize = accumulate vsizes in
      if min_size ksizes = 0 then Done (YOKAN_ERR_INVALID_ARGS, b, w)
      else if bi_size inp < 2 * n * 8 + total_ksize + total_vsize
      then Done (YOKAN_ERR_INVALID_ARGS, b, w)
      else
        obind (buf_umem b (2 * n * 8) total_ksize) (\<lambda>keys.
        obind (sub_bytes (yb_data b) (2 * n * 8 + total_ksize) total_vsize) (\<lambda>vals.
        obind (o_put D (bi_mode inp) keys ksizes vals vsizes db) (\<lambda>(st, db').
          Done (status_ret st, b, w\<lparr> w_db := Some db' \<rparr>))))))))"

definition yk_put_ult :: "('b bulk_in, 'b, 'm) rpc \<Rightarrow> 'c bulk_cache \<Rightarrow> 's database
    \<Rightarrow> ('s, 'c, 'm) world \<Rightarrow> (yk_return_t \<times> ('s, 'c, 'm) world) outcome" where
  "yk_put_ult R P D w = bulk_op R P D bi_origin bi_mode bi_size HG_BULK_READWRITE id (put_work R D) w"

record put_direct_in =
  pd_mode :: mode_t
  pd_ksizes :: "size_t list"
  pd_vsizes :: "size_t list"
  pd_keys :: umem
  pd_vals :: bytes

definition yk_put_direct_ult :: "(put_direct_in, 'b, 'm) rpc \<Rightarrow> 's database \<Rightarrow> 's option
    \<Rightarrow> (yk_return_t \<times> 's option) outcome" where
  "yk_put_direct_ult R D db = direct_op R D pd_mode id (\<lambda>inp s.
     if min_size (pd_ksizes inp) = 0 then Done (YOKAN_ERR_INVALID_ARGS, Some s)
     else obind (o_put D (pd_mode inp) (pd_keys inp) (pd_ksizes inp) (pd_vals inp) (pd_vsizes inp) s)
       (\<lambda>(st, s'). Done (status_ret st, Some s'))) db"

section \<open>get\<close>

text \<open>
  The values and their sizes are pushed by two concurrent transfers; when the second fails the
  handler returns without waiting for the first.
\<close>

definition get_push :: "('i, 'b, 'm) rpc \<Rightarrow> 'b get_in \<Rightarrow> addr \<Rightarrow> size_t \<Rightarrow> size_t \<Rightarrow> get_out
    \<Rightarrow> yk_buffer \<Rightarrow> ('s, 'c, 'm) world \<Rightarrow> (yk_return_t, 's, 'c, 'm) reply" where
  "get_push R inp a vals_offset remaining_vsize out b w =
     (let n = bi_count inp;
          send_sizes = (\<lambda>w. push R a (bi_bulk inp) (bi_offset inp + n * 8) (n * 8) (n * 8) b w id) in
      if g_size out \<noteq> 0 then
        (let xfer_size = (if n = 1 then g_vsizes out ! 0 else remaining_vsize) in
         case rpc_ipush R a (bi_bulk inp) (bi_offset inp + vals_offset) vals_offset xfer_size
                (yb_data b) (w_mem w) of
           (hret, waited, m) \<Rightarrow>
             (let w' = w\<lparr> w_mem := m \<rparr> in
              if hret \<noteq> HG_SUCCESS then Done (YOKAN_ERR_FROM_MERCURY, b, w')
              else send_sizes w' (\<lambda>w'.
                Done (if waited \<noteq> HG_SUCCESS then YOKAN_ERR_FROM_MERCURY else YOKAN_SUCCESS, b, w'))))
      else send_sizes w (\<lambda>w. Done (YOKAN_SUCCESS, b, w)))"

definition get_values :: "('i, 'b, 'm) rpc \<Rightarrow> 's database \<Rightarrow> 'b get_in \<Rightarrow> addr \<Rightarrow> size_t list
    \<Rightarrow> size_t list \<Rightarrow> 's \<Rightarrow> yk_buffer \<Rightarrow> ('s, 'c, 'm) world \<Rightarrow> (yk_return_t, 's, 'c, 'm) reply" where
  "get_values R D inp a ksizes vsizes db b w =
     (let n = bi_count inp; keys_offset = n * 8 * 2; total_ksize = accumulate ksizes;
          vals_offset = keys_offset + total_ksize; remaining_vsize = bi_size inp - vals_offset in
      pull R a (bi_bulk inp) (bi_offset inp + keys_offset) keys_offset total_ksize b w id (\<lambda>b.
      obind (buf_umem b keys_offset total_ksize) (\<lambda>keys.
      obind (sub_bytes (yb_data b) vals_offset remaining_vsize) (\<lambda>vals.
      obind (o_get D (bi_mode inp) (gi_packed inp) keys ksizes vals vsizes db) (\<lambda>(st, out, db').
      obind (buf_store b (n * 8) (enc_list (g_vsizes out))) (\<lambda>b.
      obind (buf_store b vals_offset (g_vals out)) (\<lambda>b.
      let w' = w\<lparr> w_db := Some db' \<rparr> in
      if st \<noteq> OK then Done (status_ret st, b, w')
      else get_push R inp a vals_offset remaining_vsize out b w')))))))"

definition get_work :: "('i, 'b, 'm) rpc \<Rightarrow> 's database \<Rightarrow> 'b get_in \<Rightarrow> addr \<Rightarrow> 's \<Rightarrow> yk_buffer
    \<Rightarrow> ('s, 'c, 'm) world \<Rightarrow> (yk_return_t, 's, 'c, 'm) reply" where
  "get_work R D inp a db b w =
     (let n = bi_count inp in
      pull R a (bi_bulk inp) (bi_offset inp) 0 (if gi_packed inp then n * 8 else n * 8 * 2) b w id (\<lambda>b.
      obind (read_sizes (yb_data b) 0 n) (\<lambda>ksizes.
      obind (read_sizes (yb_data b) (n * 8) n) (\<lambda>vsizes.
      let vals_offset = n * 8 * 2 + accumulate ksizes in
      if min_size ksizes = 0 then Done (YOKAN_ERR_INVALID_ARGS, b, w)
      else if bi_size inp < vals_offset then Done (YOKAN_ERR_INVALID_ARGS, b, w)
      else if \<not> gi_packed inp \<and> bi_size inp < vals_offset + accumulate vsizes
      then Done (YOKAN_ERR_INVALID_ARGS, b, w)
      else get_values R D inp a ksizes vsizes db b w))))"

definition yk_get_ult :: "('b get_in, 'b, 'm) rpc \<Rightarrow> 'c bulk_cache \<Rightarrow> 's database
    \<Rightarrow> ('s, 'c, 'm) world \<Rightarrow> (yk_return_t \<times> ('s, 'c, 'm) world) outcome" where
  "yk_get_ult R P D w = bulk_op R P D bi_origin bi_mode bi_size HG_BULK_READWRITE id (get_work R D) w"

record get_direct_in =
  gd_mode :: mode_t
  gd_vbufsize :: size_t
  gd_ksizes :: "size_t list"
  gd_keys :: umem

text \<open>The answer of a direct operation: the return value, the sizes and the bytes.\<close>

type_synonym direct_out = "yk_return_t \<times> size_t list \<times> bytes"

definition zeros :: "size_t \<Rightarrow> bytes" where
  "zeros n = replicate (unat n) 0"

definition no_out :: "yk_return_t \<Rightarrow> direct_out" where
  "no_out e = (e, [], [])"

definition yk_get_direct_ult :: "(get_direct_in, 'b, 'm) rpc \<Rightarrow> 's database \<Rightarrow> 's option
    \<Rightarrow> (direct_out \<times> 's option) outcome" where
  "yk_get_direct_ult R D db = direct_op R D gd_mode no_out (\<lambda>inp s.
     if min_size (gd_ksizes inp) = 0 then Done (no_out YOKAN_ERR_INVALID_ARGS, Some s)
     else obind (o_get D (gd_mode inp) True (gd_keys inp) (gd_ksizes inp) (zeros (gd_vbufsize inp))
                   (replicate (length (gd_ksizes inp)) 0) s) (\<lambda>(st, out, s').
       if st \<noteq> OK then Done (no_out (status_ret st), Some s')
       else obind (sub_bytes (g_vals out) 0 (g_size out)) (\<lambda>vals.
         Done ((YOKAN_SUCCESS, g_vsizes out, vals), Some s')))) db"

section \<open>length\<close>

definition length_work :: "('i, 'b, 'm) rpc \<Rightarrow> 's database \<Rightarrow> 'b bulk_in \<Rightarrow> addr \<Rightarrow> 's \<Rightarrow> yk_buffer
    \<Rightarrow> ('s, 'c, 'm) world \<Rightarrow> (yk_return_t, 's, 'c, 'm) reply" where
  "length_work R D inp a db b w =
     (let n = bi_count inp; keys_offset = n * 8 in
      pull R a (bi_bulk inp) (bi_offset inp) 0 (n * 8) b w id (\<lambda>b.
      obind (read_sizes (yb_data b) 0 n) (\<lambda>ksizes.
      let total_ksize = accumulate ksizes; vsizes_offset = keys_offset + total_ksize in
      if min_size ksizes = 0 then Done (YOKAN_ERR_INVALID_ARGS, b, w)
      else if bi_size inp < vsizes_offset + n * 8 then Done (YOKAN_ERR_INVALID_ARGS, b, w)
      else
        pull R a (bi_bulk inp) (bi_offset inp + keys_offset) keys_offset total_ksize b w id (\<lambda>b.
        obind (buf_umem b keys_offset total_ksize) (\<lambda>keys.
        obind (read_sizes (yb_data b) vsizes_offset n) (\<lambda>vsizes.
        obind (o_length D (bi_mode inp) keys ksizes vsizes db) (\<lambda>(st, vsizes', db').
        obind (buf_store b vsizes_offset (enc_list vsizes')) (\<lambda>b.
        let w' = w\<lparr> w_db := Some db' \<rparr> in
        if st \<noteq> OK then Done (status_ret st, b, w')
        else push R a (bi_bulk inp) (bi_offset inp + vsizes_offset) vsizes_offset (n * 8) b w' id
          (\<lambda>w. Done (YOKAN_SUCCESS, b, w))))))))))"

definition yk_length_ult :: "('b bulk_in, 'b, 'm) rpc \<Rightarrow> 'c bulk_cache \<Rightarrow> 's database
    \<Rightarrow> ('s, 'c, 'm) world \<Rightarrow> (yk_return_t \<times> ('s, 'c, 'm) world) outcome" where
  "yk_length_ult R P D w =
     bulk_op R P D bi_origin bi_mode bi_size HG_BULK_READWRITE id (length_work R D) w"

record keys_direct_in =
  kd_mode :: mode_t
  kd_keys :: umem
  kd_sizes :: "size_t list"

text \<open>
  \<open>yk_length_direct_ult\<close> does not check that there is a database; the sizes are part of the answer
  as soon as the input has been read.
\<close>

definition yk_length_direct_ult :: "(keys_direct_in, 'b, 'm) rpc \<Rightarrow> 's database \<Rightarrow> 's option
    \<Rightarrow> ((yk_return_t \<times> size_t list) \<times> 's option) outcome" where
  "yk_length_direct_ult R D db =
     handler_input R (\<lambda>e. Done ((e, []), db)) (\<lambda>inp.
       let vsizes = replicate (length (kd_sizes inp)) 0 in
       case db of
         None \<Rightarrow> Undef
       | Some s \<Rightarrow>
           if \<not> o_supports D (kd_mode inp) then Done ((YOKAN_ERR_MODE, vsizes), db)
           else if min_size (kd_sizes inp) = 0 then Done ((YOKAN_ERR_INVALID_ARGS, vsizes), db)
           else obind (o_length D (kd_mode inp) (kd_keys inp) (kd_sizes inp) vsizes s)
             (\<lambda>(st, vsizes', s'). Done ((status_ret st, vsizes'), Some s')))"

section \<open>exists\<close>

text \<open>
  \<open>std::ceil(((double)count)/8.0)\<close>, exact for the numbers of keys whose sizes fit in memory
  (below \<open>2^53\<close>).
\<close>

definition flags_size :: "size_t \<Rightarrow> size_t" where
  "flags_size n = (n + 7) div 8"

definition exists_work :: "('i, 'b, 'm) rpc \<Rightarrow> 's database \<Rightarrow> 'b bulk_in \<Rightarrow> addr \<Rightarrow> 's \<Rightarrow> yk_buffer
    \<Rightarrow> ('s, 'c, 'm) world \<Rightarrow> (yk_return_t, 's, 'c, 'm) reply" where
  "exists_work R D inp a db b w =
     (let n = bi_count inp; keys_offset = n * 8 in
      pull R a (bi_bulk inp) (bi_offset inp) 0 (n * 8) b w id (\<lambda>b.
      obind (read_sizes (yb_data b) 0 n) (\<lambda>ksizes.
      let total_ksize = accumulate ksizes; flags_offset = keys_offset + total_ksize in
      if min_size ksizes = 0 then Done (YOKAN_ERR_INVALID_ARGS, b, w)
      else if bi_size inp < flags_offset + flags_size n then Done (YOKAN_ERR_INVALID_ARGS, b, w)
      else
        pull R a (bi_bulk inp) (bi_offset inp + keys_offset) keys_offset total_ksize b w id (\<lambda>b.
        obind (buf_store b flags_offset (zeros (flags_size n))) (\<lambda>b.
        obind (buf_umem b keys_offset total_ksize) (\<lambda>keys.
        obind (o_exists D (bi_mode inp) keys ksizes
                 \<lparr> bf_data = zeros (flags_size n), bf_size = n \<rparr> db) (\<lambda>(st, flags, db').
        obind (buf_store b flags_offset (bf_data flags)) (\<lambda>b.
        let w' = w\<lparr> w_db := Some db' \<rparr> in
        if st \<noteq> OK then Done (status_ret st, b, w')
        else push R a (bi_bulk inp) (bi_offset inp + flags_offset) flags_offset (flags_size n) b w' id
          (\<lambda>w. Done (YOKAN_SUCCESS, b, w))))))))))"

definition yk_exists_ult :: "('b bulk_in, 'b, 'm) rpc \<Rightarrow> 'c bulk_cache \<Rightarrow> 's database
    \<Rightarrow> ('s, 'c, 'm) world \<Rightarrow> (yk_return_t \<times> ('s, 'c, 'm) world) outcome" where
  "yk_exists_ult R P D w =
     bulk_op R P D bi_origin bi_mode bi_size HG_BULK_READWRITE id (exists_work R D) w"

definition yk_exists_direct_ult :: "(keys_direct_in, 'b, 'm) rpc \<Rightarrow> 's database \<Rightarrow> 's option
    \<Rightarrow> ((yk_return_t \<times> bytes) \<times> 's option) outcome" where
  "yk_exists_direct_ult R D db = direct_op R D kd_mode (\<lambda>e. (e, [])) (\<lambda>inp s.
     if min_size (kd_sizes inp) = 0 then Done ((YOKAN_ERR_INVALID_ARGS, []), Some s)
     else (let n = usize (kd_sizes inp) in
       obind (o_exists D (kd_mode inp) (kd_keys inp) (kd_sizes inp)
                \<lparr> bf_data = zeros (flags_size n), bf_size = n \<rparr> s) (\<lambda>(st, flags, s').
         Done ((status_ret st, bf_data flags), Some s')))) db"

section \<open>erase, count\<close>

definition erase_work :: "('i, 'b, 'm) rpc \<Rightarrow> 's database \<Rightarrow> 'b bulk_in \<Rightarrow> addr \<Rightarrow> 's \<Rightarrow> yk_buffer
    \<Rightarrow> ('s, 'c, 'm) world \<Rightarrow> (yk_return_t, 's, 'c, 'm) reply" where
  "erase_work R D inp a db b w =
     (let n = bi_count inp in
      pull R a (bi_bulk inp) (bi_offset inp) 0 (bi_size inp) b w id (\<lambda>b.
      obind (read_sizes (yb_data b) 0 n) (\<lambda>ksizes.
      let total_ksize = accumulate ksizes in
      if min_size ksizes = 0 then Done (YOKAN_ERR_INVALID_ARGS, b, w)
      else if bi_size inp < n * 8 + total_ksize then Done (YOKAN_ERR_INVALID_ARGS, b, w)
      else
        obind (buf_umem b (n * 8) total_ksize) (\<lambda>keys.
        obind (o_erase D (bi_mode inp) keys ksizes db) (\<lambda>(st, db').
          Done (status_ret st, b, w\<lparr> w_db := Some db' \<rparr>))))))"

definition yk_erase_ult :: "('b bulk_in, 'b, 'm) rpc \<Rightarrow> 'c bulk_cache \<Rightarrow> 's database
    \<Rightarrow> ('s, 'c, 'm) world \<Rightarrow> (yk_return_t \<times> ('s, 'c, 'm) world) outcome" where
  "yk_erase_ult R P D w =
     bulk_op R P D bi_origin bi_mode bi_size HG_BULK_WRITE_ONLY id (erase_work R D) w"

definition yk_erase_direct_ult :: "(keys_direct_in, 'b, 'm) rpc \<Rightarrow> 's database \<Rightarrow> 's option
    \<Rightarrow> (yk_return_t \<times> 's option) outcome" where
  "yk_erase_direct_ult R D db = direct_op R D kd_mode id (\<lambda>inp s.
     if min_size (kd_sizes inp) = 0 then Done (YOKAN_ERR_INVALID_ARGS, Some s)
     else obind (o_erase D (kd_mode inp) (kd_keys inp) (kd_sizes inp) s)
       (\<lambda>(st, s'). Done (status_ret st, Some s'))) db"

text \<open>The count is not set when the operation fails.\<close>

definition yk_count_ult :: "(mode_t, 'b, 'm) rpc \<Rightarrow> 's database \<Rightarrow> 's option
    \<Rightarrow> ((yk_return_t \<times> size_t option) \<times> 's option) outcome" where
  "yk_count_ult R D db = direct_op R D id (\<lambda>e. (e, None)) (\<lambda>mode s.
     case d_count D mode s of (st, n) \<Rightarrow> Done ((status_ret st, n), Some s)) db"

section \<open>listKeys, listKeyValues\<close>

record 'b list_in =
  li_mode :: mode_t
  li_packed :: bool
  li_count :: size_t
  li_from_ksize :: size_t
  li_filter_size :: size_t
  li_offset :: size_t
  li_keys_buf_size :: size_t
  li_vals_buf_size :: size_t
  li_origin :: "bytes option"
  li_bulk :: 'b

text \<open>The filter the arguments name: \<open>makeKeyValueFilter\<close> of the factory.\<close>

type_synonym filter_maker = "mode_t \<Rightarrow> bytes \<Rightarrow> kv_filter option"

text \<open>The arguments, and without \<open>packed\<close> the sizes, are pulled only when there are any.\<close>

definition list_pull :: "('i, 'b, 'm) rpc \<Rightarrow> 'b list_in \<Rightarrow> addr \<Rightarrow> size_t \<Rightarrow> yk_buffer
    \<Rightarrow> ('s, 'c, 'm) world \<Rightarrow> (yk_buffer \<Rightarrow> (yk_return_t, 's, 'c, 'm) reply)
    \<Rightarrow> (yk_return_t, 's, 'c, 'm) reply" where
  "list_pull R inp a sizes_size b w k =
     (let size_to_transfer = li_from_ksize inp + li_filter_size inp
            + (if li_packed inp then 0 else sizes_size) in
      if size_to_transfer > 0 then pull R a (li_bulk inp) (li_offset inp) 0 size_to_transfer b w id k
      else k b)"

definition list_keys_size :: "'b list_in \<Rightarrow> size_t" where
  "list_keys_size inp =
     li_from_ksize inp + li_filter_size inp + li_count inp * 8 + li_keys_buf_size inp"

definition list_keys_work :: "('i, 'b, 'm) rpc \<Rightarrow> filter_maker \<Rightarrow> 's database \<Rightarrow> 'b list_in \<Rightarrow> addr
    \<Rightarrow> 's \<Rightarrow> yk_buffer \<Rightarrow> ('s, 'c, 'm) world \<Rightarrow> (yk_return_t, 's, 'c, 'm) reply" where
  "list_keys_work R mkF D inp a db b w =
     (let n = li_count inp; ksizes_offset = li_from_ksize inp + li_filter_size inp;
          keys_offset = ksizes_offset + n * 8 in
      list_pull R inp a (n * 8) b w (\<lambda>b.
      obind (sub_bytes (yb_data b) 0 (li_from_ksize inp)) (\<lambda>from_key.
      obind (sub_bytes (yb_data b) (li_from_ksize inp) (li_filter_size inp)) (\<lambda>filter_data.
      case mkF (li_mode inp) filter_data of
        None \<Rightarrow> Done (YOKAN_ERR_INVALID_FILTER, b, w)
      | Some F \<Rightarrow>
          obind (read_sizes (yb_data b) ksizes_offset n) (\<lambda>ksizes.
          obind (sub_bytes (yb_data b) keys_offset (li_keys_buf_size inp)) (\<lambda>keys.
          obind (d_listKeys D (li_mode inp) (li_packed inp) from_key F keys ksizes db) (\<lambda>(st, out).
          obind (buf_store b ksizes_offset (enc_list (g_vsizes out))) (\<lambda>b.
          obind (buf_store b keys_offset (g_vals out)) (\<lambda>b.
          if st \<noteq> OK then Done (status_ret st, b, w)
          else push R a (li_bulk inp) (li_offset inp + ksizes_offset) ksizes_offset
                 (n * 8 + g_size out) b w id (\<lambda>w. Done (YOKAN_SUCCESS, b, w)))))))))))"

definition yk_list_keys_ult :: "('b list_in, 'b, 'm) rpc \<Rightarrow> 'c bulk_cache \<Rightarrow> filter_maker
    \<Rightarrow> 's database \<Rightarrow> ('s, 'c, 'm) world \<Rightarrow> (yk_return_t \<times> ('s, 'c, 'm) world) outcome" where
  "yk_list_keys_ult R P mkF D w =
     bulk_op R P D li_origin li_mode list_keys_size HG_BULK_READWRITE id (list_keys_work R mkF D) w"

record list_direct_in =
  ld_mode :: mode_t
  ld_count :: size_t
  ld_from_key :: bytes
  ld_filter :: bytes
  ld_keys_buf_size :: size_t
  ld_vals_buf_size :: size_t

definition yk_list_keys_direct_ult :: "(list_direct_in, 'b, 'm) rpc \<Rightarrow> filter_maker \<Rightarrow> 's database
    \<Rightarrow> 's option \<Rightarrow> (direct_out \<times> 's option) outcome" where
  "yk_list_keys_direct_ult R mkF D db = direct_op R D ld_mode no_out (\<lambda>inp s.
     case mkF (ld_mode inp) (ld_filter inp) of
       None \<Rightarrow> Done (no_out YOKAN_ERR_INVALID_FILTER, Some s)
     | Some F \<Rightarrow>
         obind (d_listKeys D (ld_mode inp) True (ld_from_key inp) F (zeros (ld_keys_buf_size inp))
                  (replicate (unat (ld_count inp)) 0) s) (\<lambda>(st, out).
           if st \<noteq> OK then Done (no_out (status_ret st), Some s)
           else obind (sub_bytes (g_vals out) 0 (g_size out)) (\<lambda>keys.
             Done ((YOKAN_SUCCESS, g_vsizes out, keys), Some s)))) db"

definition list_keyvals_size :: "'b list_in \<Rightarrow> size_t" where
  "list_keyvals_size inp =
     li_from_ksize inp + li_filter_size inp + 2 * li_count inp * 8 + li_keys_buf_size inp
     + li_vals_buf_size inp"

text \<open>The whole area of the results is pushed back, not only what was written.\<close>

definition list_keyvals_work :: "('i, 'b, 'm) rpc \<Rightarrow> filter_maker \<Rightarrow> 's database \<Rightarrow> 'b list_in \<Rightarrow> addr
    \<Rightarrow> 's \<Rightarrow> yk_buffer \<Rightarrow> ('s, 'c, 'm) world \<Rightarrow> (yk_return_t, 's, 'c, 'm) reply" where
  "list_keyvals_work R mkF D inp a db b w =
     (let n = li_count inp; ksizes_offset = li_from_ksize inp + li_filter_size inp;
          vsizes_offset = ksizes_offset + n * 8; keys_offset = vsizes_offset + n * 8;
          vals_offset = keys_offset + li_keys_buf_size inp in
      list_pull R inp a (2 * n * 8) b w (\<lambda>b.
      obind (sub_bytes (yb_data b) 0 (li_from_ksize inp)) (\<lambda>from_key.
      obind (sub_bytes (yb_data b) (li_from_ksize inp) (li_filter_size inp)) (\<lambda>filter_data.
      case mkF (li_mode inp) filter_data of
        None \<Rightarrow> Done (YOKAN_ERR_INVALID_FILTER, b, w)
      | Some F \<Rightarrow>
          obind (read_sizes (yb_data b) ksizes_offset n) (\<lambda>ksizes.
          obind (read_sizes (yb_data b) vsizes_offset n) (\<lambda>vsizes.
          obind (sub_bytes (yb_data b) keys_offset (li_keys_buf_size inp)) (\<lambda>keys.
          obind (sub_bytes (yb_data b) vals_offset (li_vals_buf_size inp)) (\<lambda>vals.
          obind (o_listkv D (li_mode inp) (li_packed inp) from_key F keys ksizes vals vsizes db)
            (\<lambda>(st, ks, vs).
          obind (buf_store b ksizes_offset (enc_list (g_vsizes ks))) (\<lambda>b.
          obind (buf_store b vsizes_offset (enc_list (g_vsizes vs))) (\<lambda>b.
          obind (buf_store b keys_offset (g_vals ks)) (\<lambda>b.
          obind (buf_store b vals_offset (g_vals vs)) (\<lambda>b.
          if st \<noteq> OK then Done (status_ret st, b, w)
          else push R a (li_bulk inp) (li_offset inp + ksizes_offset) ksizes_offset
                 (2 * n * 8 + li_keys_buf_size inp + li_vals_buf_size inp) b w id
                 (\<lambda>w. Done (YOKAN_SUCCESS, b, w)))))))))))))))"

definition yk_list_keyvals_ult :: "('b list_in, 'b, 'm) rpc \<Rightarrow> 'c bulk_cache \<Rightarrow> filter_maker
    \<Rightarrow> 's database \<Rightarrow> ('s, 'c, 'm) world \<Rightarrow> (yk_return_t \<times> ('s, 'c, 'm) world) outcome" where
  "yk_list_keyvals_ult R P mkF D w =
     bulk_op R P D li_origin li_mode list_keyvals_size HG_BULK_READWRITE id
       (list_keyvals_work R mkF D) w"

definition yk_list_keyvals_direct_ult :: "(list_direct_in, 'b, 'm) rpc \<Rightarrow> filter_maker \<Rightarrow> 's database
    \<Rightarrow> 's option \<Rightarrow> ((direct_out \<times> size_t list \<times> bytes) \<times> 's option) outcome" where
  "yk_list_keyvals_direct_ult R mkF D db = direct_op R D ld_mode (\<lambda>e. (no_out e, [], [])) (\<lambda>inp s.
     case mkF (ld_mode inp) (ld_filter inp) of
       None \<Rightarrow> Done ((no_out YOKAN_ERR_INVALID_FILTER, [], []), Some s)
     | Some F \<Rightarrow>
         (let sizes = replicate (unat (ld_count inp)) 0 in
          obind (o_listkv D (ld_mode inp) True (ld_from_key inp) F
                   (zeros (ld_keys_buf_size inp)) sizes (zeros (ld_vals_buf_size inp)) sizes s)
            (\<lambda>(st, ks, vs).
              if st \<noteq> OK then Done ((no_out (status_ret st), [], []), Some s)
              else obind (sub_bytes (g_vals ks) 0 (g_size ks)) (\<lambda>keys.
                   obind (sub_bytes (g_vals vs) 0 (g_size vs)) (\<lambda>vals.
                   Done (((YOKAN_SUCCESS, g_vsizes ks, keys), g_vsizes vs, vals), Some s)))))) db"

end
