(* ===== verification/DocHandlers.thy ===== *)
theory DocHandlers
  imports KvHandlers
begin

text \<open>
  The RPC handlers of the collections and documents (src/src/server: coll_create, coll_drop,
  coll_exists, coll_last_id, coll_size, doc_store, doc_update, doc_load, doc_length, doc_erase,
  doc_list), over the document interface of a database.
\<close>

section \<open>The document interface of a database\<close>

record 's doc_store =
  ds_supportsMode :: "mode_t \<Rightarrow> bool"
  ds_collCreate :: "mode_t \<Rightarrow> bytes \<Rightarrow> 's \<Rightarrow> (status \<times> 's) outcome"
  ds_collDrop :: "mode_t \<Rightarrow> bytes \<Rightarrow> 's \<Rightarrow> (status \<times> 's) outcome"
  ds_collExists :: "mode_t \<Rightarrow> bytes \<Rightarrow> 's \<Rightarrow> (status \<times> bool option \<times> 's) outcome"
  ds_collLastID :: "mode_t \<Rightarrow> bytes \<Rightarrow> 's \<Rightarrow> (status \<times> size_t option \<times> 's) outcome"
  ds_collSize :: "mode_t \<Rightarrow> bytes \<Rightarrow> 's \<Rightarrow> (status \<times> size_t option \<times> 's) outcome"
  ds_docSize :: "bytes \<Rightarrow> mode_t \<Rightarrow> size_t list \<Rightarrow> size_t list \<Rightarrow> 's
     \<Rightarrow> (status \<times> size_t list \<times> 's) outcome"
  ds_docStore :: "bytes \<Rightarrow> mode_t \<Rightarrow> bytes \<Rightarrow> size_t list \<Rightarrow> size_t list \<Rightarrow> 's
     \<Rightarrow> (status \<times> size_t list \<times> 's) outcome"
  ds_docUpdate :: "bytes \<Rightarrow> mode_t \<Rightarrow> size_t list \<Rightarrow> bytes \<Rightarrow> size_t list \<Rightarrow> 's \<Rightarrow> (status \<times> 's) outcome"
  ds_docLoad :: "bytes \<Rightarrow> mode_t \<Rightarrow> bool \<Rightarrow> size_t list \<Rightarrow> bytes \<Rightarrow> size_t list \<Rightarrow> 's
     \<Rightarrow> (status \<times> get_out \<times> 's) outcome"
  ds_docErase :: "bytes \<Rightarrow> mode_t \<Rightarrow> size_t list \<Rightarrow> 's \<Rightarrow> (status \<times> 's) outcome"
  ds_docList :: "bytes \<Rightarrow> mode_t \<Rightarrow> bool \<Rightarrow> size_t \<Rightarrow> doc_filter \<Rightarrow> doc_out \<Rightarrow> 's
     \<Rightarrow> (status \<times> doc_out \<times> 's) outcome"

text \<open>A handler whose arguments all come with the input.\<close>

definition doc_op :: "('i, 'b, 'm) rpc \<Rightarrow> 's doc_store \<Rightarrow> ('i \<Rightarrow> mode_t) \<Rightarrow> (yk_return_t \<Rightarrow> 'o)
    \<Rightarrow> ('i \<Rightarrow> 's \<Rightarrow> ('o \<times> 's) outcome) \<Rightarrow> 's option \<Rightarrow> ('o \<times> 's option) outcome" where
  "doc_op R D mode_of err work db =
     (let ret = (\<lambda>e. Done (err e, db)) in
      handler_input R ret (\<lambda>inp.
      check_database (ds_supportsMode D) (mode_of inp) db ret (\<lambda>s.
      obind (work inp s) (\<lambda>(out, s'). Done (out, Some s')))))"

text \<open>A handler that uses a buffer of the bulk cache.\<close>

definition doc_bulk_op :: "('i, 'b, 'm) rpc \<Rightarrow> 'c bulk_cache \<Rightarrow> 's doc_store \<Rightarrow> ('i \<Rightarrow> bytes option)
    \<Rightarrow> ('i \<Rightarrow> mode_t) \<Rightarrow> ('i \<Rightarrow> size_t) \<Rightarrow> (yk_return_t \<Rightarrow> 'o)
    \<Rightarrow> ('i \<Rightarrow> addr \<Rightarrow> 's \<Rightarrow> yk_buffer \<Rightarrow> ('s, 'c, 'm) world \<Rightarrow> ('o, 's, 'c, 'm) reply)
    \<Rightarrow> ('s, 'c, 'm) world \<Rightarrow> ('o \<times> ('s, 'c, 'm) world) outcome" where
  "doc_bulk_op R P D origin_of mode_of size_of err work w =
     (let ret = (\<lambda>e. Done (err e, w)) in
      handler_input R ret (\<lambda>inp.
      resolve_origin R (origin_of inp) ret (\<lambda>a.
      check_database (ds_supportsMode D) (mode_of inp) (w_db w) ret (\<lambda>db.
      with_buffer P (size_of inp) HG_BULK_READWRITE w (work inp a db) err))))"

section \<open>Collections\<close>

record coll_in =
  ci_mode :: mode_t
  ci_name :: bytes

definition yk_coll_create_ult :: "(coll_in, 'b, 'm) rpc \<Rightarrow> 's doc_store \<Rightarrow> 's option
    \<Rightarrow> (yk_return_t \<times> 's option) outcome" where
  "yk_coll_create_ult R D db = doc_op R D ci_mode id (\<lambda>inp s.
     obind (ds_collCreate D (ci_mode inp) (ci_name inp) s) (\<lambda>(st, s'). Done (status_ret st, s'))) db"

definition yk_coll_drop_ult :: "(coll_in, 'b, 'm) rpc \<Rightarrow> 's doc_store \<Rightarrow> 's option
    \<Rightarrow> (yk_return_t \<times> 's option) outcome" where
  "yk_coll_drop_ult R D db = doc_op R D ci_mode id (\<lambda>inp s.
     obind (ds_collDrop D (ci_mode inp) (ci_name inp) s) (\<lambda>(st, s'). Done (status_ret st, s'))) db"

text \<open>What an operation that failed did not set is not initialised: \<open>None\<close>.\<close>

definition yk_coll_exists_ult :: "(coll_in, 'b, 'm) rpc \<Rightarrow> 's doc_store \<Rightarrow> 's option
    \<Rightarrow> ((yk_return_t \<times> bool option) \<times> 's option) outcome" where
  "yk_coll_exists_ult R D db = doc_op R D ci_mode (\<lambda>e. (e, None)) (\<lambda>inp s.
     obind (ds_collExists D (ci_mode inp) (ci_name inp) s) (\<lambda>(st, flag, s').
       Done ((status_ret st, flag), s'))) db"

definition yk_coll_last_id_ult :: "(coll_in, 'b, 'm) rpc \<Rightarrow> 's doc_store \<Rightarrow> 's option
    \<Rightarrow> ((yk_return_t \<times> size_t option) \<times> 's option) outcome" where
  "yk_coll_last_id_ult R D db = doc_op R D ci_mode (\<lambda>e. (e, None)) (\<lambda>inp s.
     obind (ds_collLastID D (ci_mode inp) (ci_name inp) s) (\<lambda>(st, last_id, s').
       Done ((status_ret st, last_id), s'))) db"

definition yk_coll_size_ult :: "(coll_in, 'b, 'm) rpc \<Rightarrow> 's doc_store \<Rightarrow> 's option
    \<Rightarrow> ((yk_return_t \<times> size_t option) \<times> 's option) outcome" where
  "yk_coll_size_ult R D db = doc_op R D ci_mode (\<lambda>e. (e, None)) (\<lambda>inp s.
     obind (ds_collSize D (ci_mode inp) (ci_name inp) s) (\<lambda>(st, size, s').
       Done ((status_ret st, size), s'))) db"

section \<open>docErase, docSize\<close>

record ids_in = coll_in +
  ii_ids :: "size_t list"

definition yk_doc_erase_ult :: "(ids_in, 'b, 'm) rpc \<Rightarrow> 's doc_store \<Rightarrow> 's option
    \<Rightarrow> (yk_return_t \<times> 's option) outcome" where
  "yk_doc_erase_ult R D db = doc_op R D ci_mode id (\<lambda>inp s.
     obind (ds_docErase D (ci_name inp) (ci_mode inp) (ii_ids inp) s) (\<lambda>(st, s').
       Done (status_ret st, s'))) db"

definition yk_doc_length_ult :: "(ids_in, 'b, 'm) rpc \<Rightarrow> 's doc_store \<Rightarrow> 's option
    \<Rightarrow> ((yk_return_t \<times> size_t list) \<times> 's option) outcome" where
  "yk_doc_length_ult R D db = doc_op R D ci_mode (\<lambda>e. (e, [])) (\<lambda>inp s.
     obind (ds_docSize D (ci_name inp) (ci_mode inp) (ii_ids inp)
              (replicate (length (ii_ids inp)) 0) s) (\<lambda>(st, sizes, s').
       Done ((status_ret st, if st = OK then sizes else []), s'))) db"

section \<open>docStore\<close>

record 'b doc_store_in = "'b bulk_in" +
  dsi_name :: bytes

definition doc_store_work :: "('i, 'b, 'm) rpc \<Rightarrow> 's doc_store \<Rightarrow> 'b doc_store_in \<Rightarrow> addr \<Rightarrow> 's
    \<Rightarrow> yk_buffer \<Rightarrow> ('s, 'c, 'm) world \<Rightarrow> (yk_return_t \<times> size_t list, 's, 'c, 'm) reply" where
  "doc_store_work R D inp a db b w =
     (let n = bi_count inp in
      pull R a (bi_bulk inp) (bi_offset inp) 0 (bi_size inp) b w (\<lambda>e. (e, [])) (\<lambda>b.
      obind (read_sizes (yb_data b) 0 n) (\<lambda>sizes.
      let total_doc_size = accumulate sizes in
      if bi_size inp < n * 8 + total_doc_size then Done ((YOKAN_ERR_INVALID_ARGS, []), b, w)
      else
        obind (sub_bytes (yb_data b) (n * 8) total_doc_size) (\<lambda>docs.
        obind (ds_docStore D (dsi_name inp) (bi_mode inp) docs sizes (replicate (unat n) 0) db)
          (\<lambda>(st, ids, db').
          Done ((status_ret st, if st = OK then ids else []), b, w\<lparr> w_db := Some db' \<rparr>))))))"

definition yk_doc_store_ult :: "('b doc_store_in, 'b, 'm) rpc \<Rightarrow> 'c bulk_cache \<Rightarrow> 's doc_store
    \<Rightarrow> ('s, 'c, 'm) world \<Rightarrow> ((yk_return_t \<times> size_t list) \<times> ('s, 'c, 'm) world) outcome" where
  "yk_doc_store_ult R P D w =
     doc_bulk_op R P D bi_origin bi_mode bi_size (\<lambda>e. (e, [])) (doc_store_work R D) w"

record docs_in = coll_in +
  di_sizes :: "size_t list"
  di_docs :: bytes

definition yk_doc_store_direct_ult :: "(docs_in, 'b, 'm) rpc \<Rightarrow> 's doc_store \<Rightarrow> 's option
    \<Rightarrow> ((yk_return_t \<times> size_t list) \<times> 's option) outcome" where
  "yk_doc_store_direct_ult R D db = doc_op R D ci_mode (\<lambda>e. (e, [])) (\<lambda>inp s.
     obind (ds_docStore D (ci_name inp) (ci_mode inp) (di_docs inp) (di_sizes inp)
              (replicate (length (di_sizes inp)) 0) s) (\<lambda>(st, ids, s').
       Done ((status_ret st, if st = OK then ids else []), s'))) db"

section \<open>docUpdate\<close>

record 'b ids_bulk_in = ids_in +
  ib_offset :: size_t
  ib_size :: size_t
  ib_origin :: "bytes option"
  ib_bulk :: 'b

text \<open>Here the buffer is taken and filled before the database is checked.\<close>

definition doc_update_work :: "('i, 'b, 'm) rpc \<Rightarrow> 's doc_store \<Rightarrow> 'b ids_bulk_in \<Rightarrow> addr
    \<Rightarrow> yk_buffer \<Rightarrow> ('s, 'c, 'm) world \<Rightarrow> (yk_return_t, 's, 'c, 'm) reply" where
  "doc_update_work R D inp a b w =
     (let n = usize (ii_ids inp) in
      pull R a (ib_bulk inp) (ib_offset inp) 0 (ib_size inp) b w id (\<lambda>b.
      check_database (ds_supportsMode D) (ci_mode inp) (w_db w) (\<lambda>e. Done (e, b, w)) (\<lambda>db.
      obind (read_sizes (yb_data b) 0 n) (\<lambda>sizes.
      let total_doc_size = accumulate sizes in
      if ib_size inp < n * 8 + total_doc_size then Done (YOKAN_ERR_INVALID_ARGS, b, w)
      else
        obind (sub_bytes (yb_data b) (n * 8) total_doc_size) (\<lambda>docs.
        obind (ds_docUpdate D (ci_name inp) (ci_mode inp) (ii_ids inp) docs sizes db) (\<lambda>(st, db').
          Done (status_ret st, b, w\<lparr> w_db := Some db' \<rparr>)))))))"

definition yk_doc_update_ult :: "('b ids_bulk_in, 'b, 'm) rpc \<Rightarrow> 'c bulk_cache \<Rightarrow> 's doc_store
    \<Rightarrow> ('s, 'c, 'm) world \<Rightarrow> (yk_return_t \<times> ('s, 'c, 'm) world) outcome" where
  "yk_doc_update_ult R P D w =
     (let ret = (\<lambda>e. Done (e, w)) in
      handler_input R ret (\<lambda>inp.
      resolve_origin R (ib_origin inp) ret (\<lambda>a.
      with_buffer P (ib_size inp) HG_BULK_READWRITE w (doc_update_work R D inp a) id)))"

record ids_docs_in = ids_in +
  id_sizes :: "size_t list"
  id_docs :: bytes

definition yk_doc_update_direct_ult :: "(ids_docs_in, 'b, 'm) rpc \<Rightarrow> 's doc_store \<Rightarrow> 's option
    \<Rightarrow> (yk_return_t \<times> 's option) outcome" where
  "yk_doc_update_direct_ult R D db = doc_op R D ci_mode id (\<lambda>inp s.
     obind (ds_docUpdate D (ci_name inp) (ci_mode inp) (ii_ids inp) (id_docs inp) (id_sizes inp) s)
       (\<lambda>(st, s'). Done (status_ret st, s'))) db"

section \<open>docLoad\<close>

record 'b doc_load_in = "'b ids_bulk_in" +
  dl_packed :: bool

text \<open>
  The size of the region is not compared with what the sizes take: \<open>in.size - docs_offset\<close> wraps.
\<close>

definition doc_load_push :: "('i, 'b, 'm) rpc \<Rightarrow> 'b doc_load_in \<Rightarrow> addr \<Rightarrow> size_t \<Rightarrow> get_out
    \<Rightarrow> yk_buffer \<Rightarrow> ('s, 'c, 'm) world \<Rightarrow> (yk_return_t, 's, 'c, 'm) reply" where
  "doc_load_push R inp a docs_offset out b w =
     (let send_sizes = (\<lambda>w. push R a (ib_bulk inp) (ib_offset inp) 0 docs_offset b w id) in
      if g_size out \<noteq> 0 then
        (case rpc_ipush R a (ib_bulk inp) (ib_offset inp + docs_offset) docs_offset
                (ib_size inp - docs_offset) (yb_data b) (w_mem w) of
           (hret, waited, m) \<Rightarrow>
             (let w' = w\<lparr> w_mem := m \<rparr> in
              if hret \<noteq> HG_SUCCESS then Done (YOKAN_ERR_FROM_MERCURY, b, w')
              else send_sizes w' (\<lambda>w'.
                Done (if waited \<noteq> HG_SUCCESS then YOKAN_ERR_FROM_MERCURY else YOKAN_SUCCESS, b, w'))))
      else send_sizes w (\<lambda>w. Done (YOKAN_SUCCESS, b, w)))"

definition doc_load_read :: "('i, 'b, 'm) rpc \<Rightarrow> 's doc_store \<Rightarrow> 'b doc_load_in \<Rightarrow> addr \<Rightarrow> 's
    \<Rightarrow> ('s, 'c, 'm) world \<Rightarrow> yk_buffer \<Rightarrow> (yk_return_t, 's, 'c, 'm) reply" where
  "doc_load_read R D inp a db w b =
     (let n = usize (ii_ids inp); docs_offset = n * 8 in
      obind (read_sizes (yb_data b) 0 n) (\<lambda>sizes.
      obind (sub_bytes (yb_data b) docs_offset (ib_size inp - docs_offset)) (\<lambda>docs.
      obind (ds_docLoad D (ci_name inp) (ci_mode inp) (dl_packed inp) (ii_ids inp) docs sizes db)
        (\<lambda>(st, out, db').
      obind (buf_store b 0 (enc_list (g_vsizes out))) (\<lambda>b.
      obind (buf_store b docs_offset (g_vals out)) (\<lambda>b.
      let w' = w\<lparr> w_db := Some db' \<rparr> in
      if st \<noteq> OK then Done (status_ret st, b, w')
      else doc_load_push R inp a docs_offset out b w'))))))"

definition doc_load_work :: "('i, 'b, 'm) rpc \<Rightarrow> 's doc_store \<Rightarrow> 'b doc_load_in \<Rightarrow> addr \<Rightarrow> 's
    \<Rightarrow> yk_buffer \<Rightarrow> ('s, 'c, 'm) world \<Rightarrow> (yk_return_t, 's, 'c, 'm) reply" where
  "doc_load_work R D inp a db b w =
     (if \<not> dl_packed inp
      then pull R a (ib_bulk inp) (ib_offset inp) 0 (usize (ii_ids inp) * 8) b w id
             (doc_load_read R D inp a db w)
      else doc_load_read R D inp a db w b)"

definition yk_doc_load_ult :: "('b doc_load_in, 'b, 'm) rpc \<Rightarrow> 'c bulk_cache \<Rightarrow> 's doc_store
    \<Rightarrow> ('s, 'c, 'm) world \<Rightarrow> (yk_return_t \<times> ('s, 'c, 'm) world) outcome" where
  "yk_doc_load_ult R P D w =
     doc_bulk_op R P D ib_origin ci_mode ib_size id (doc_load_work R D) w"

record load_direct_in = ids_in +
  ldi_bufsize :: size_t

definition yk_doc_load_direct_ult :: "(load_direct_in, 'b, 'm) rpc \<Rightarrow> 's doc_store \<Rightarrow> 's option
    \<Rightarrow> (direct_out \<times> 's option) outcome" where
  "yk_doc_load_direct_ult R D db = doc_op R D ci_mode no_out (\<lambda>inp s.
     obind (ds_docLoad D (ci_name inp) (ci_mode inp) True (ii_ids inp) (zeros (ldi_bufsize inp))
              (replicate (length (ii_ids inp)) 0) s) (\<lambda>(st, out, s').
       if st \<noteq> OK then Done (no_out (status_ret st), s')
       else obind (sub_bytes (g_vals out) 0 (g_size out)) (\<lambda>docs.
         Done ((YOKAN_SUCCESS, g_vsizes out, docs), s')))) db"

section \<open>docList\<close>

record 'b doc_list_in = coll_in +
  dli_packed :: bool
  dli_count :: size_t
  dli_from_id :: size_t
  dli_filter_size :: size_t
  dli_offset :: size_t
  dli_docs_buf_size :: size_t
  dli_origin :: "bytes option"
  dli_bulk :: 'b

type_synonym doc_filter_maker = "mode_t \<Rightarrow> bytes \<Rightarrow> doc_filter option"

definition doc_list_size :: "'b doc_list_in \<Rightarrow> size_t" where
  "doc_list_size inp =
     dli_filter_size inp + dli_count inp * 8 + dli_count inp * 8 + dli_docs_buf_size inp"

definition doc_list_read :: "('i, 'b, 'm) rpc \<Rightarrow> doc_filter_maker \<Rightarrow> 's doc_store \<Rightarrow> 'b doc_list_in
    \<Rightarrow> addr \<Rightarrow> 's \<Rightarrow> ('s, 'c, 'm) world \<Rightarrow> yk_buffer \<Rightarrow> (yk_return_t, 's, 'c, 'm) reply" where
  "doc_list_read R mkF D inp a db w b =
     (let n = dli_count inp; doc_sizes_offset = dli_filter_size inp;
          doc_ids_offset = doc_sizes_offset + n * 8; docs_offset = doc_ids_offset + n * 8 in
      obind (sub_bytes (yb_data b) 0 (dli_filter_size inp)) (\<lambda>filter_data.
      case mkF (ci_mode inp) filter_data of
        None \<Rightarrow> Done (YOKAN_ERR_INVALID_FILTER, b, w)
      | Some F \<Rightarrow>
          obind (read_sizes (yb_data b) doc_sizes_offset n) (\<lambda>sizes.
          obind (read_sizes (yb_data b) doc_ids_offset n) (\<lambda>ids.
          obind (sub_bytes (yb_data b) docs_offset (dli_docs_buf_size inp)) (\<lambda>docs.
          obind (ds_docList D (ci_name inp) (ci_mode inp) (dli_packed inp) (dli_from_id inp) F
                   \<lparr> do_ids = ids, do_docs = docs, do_size = usize docs, do_sizes = sizes \<rparr> db)
            (\<lambda>(st, out, db').
          obind (buf_store b doc_sizes_offset (enc_list (do_sizes out))) (\<lambda>b.
          obind (buf_store b doc_ids_offset (enc_list (do_ids out))) (\<lambda>b.
          obind (buf_store b docs_offset (do_docs out)) (\<lambda>b.
          let w' = w\<lparr> w_db := Some db' \<rparr> in
          if st \<noteq> OK then Done (status_ret st, b, w')
          else push R a (dli_bulk inp) (dli_offset inp + doc_sizes_offset) doc_sizes_offset
                 (n * 8 + n * 8 + dli_docs_buf_size inp) b w' id
                 (\<lambda>w. Done (YOKAN_SUCCESS, b, w)))))))))))"

definition doc_list_work :: "('i, 'b, 'm) rpc \<Rightarrow> doc_filter_maker \<Rightarrow> 's doc_store \<Rightarrow> 'b doc_list_in
    \<Rightarrow> addr \<Rightarrow> 's \<Rightarrow> yk_buffer \<Rightarrow> ('s, 'c, 'm) world \<Rightarrow> (yk_return_t, 's, 'c, 'm) reply" where
  "doc_list_work R mkF D inp a db b w =
     (let size_to_transfer = dli_filter_size inp
            + (if dli_packed inp then 0 else dli_count inp * 8) in
      if size_to_transfer > 0
      then pull R a (dli_bulk inp) (dli_offset inp) 0 size_to_transfer b w id
             (doc_list_read R mkF D inp a db w)
      else doc_list_read R mkF D inp a db w b)"

definition yk_doc_list_ult :: "('b doc_list_in, 'b, 'm) rpc \<Rightarrow> 'c bulk_cache \<Rightarrow> doc_filter_maker
    \<Rightarrow> 's doc_store \<Rightarrow> ('s, 'c, 'm) world \<Rightarrow> (yk_return_t \<times> ('s, 'c, 'm) world) outcome" where
  "yk_doc_list_ult R P mkF D w =
     doc_bulk_op R P D dli_origin ci_mode doc_list_size id (doc_list_work R mkF D) w"

record doc_list_direct_in = coll_in +
  dld_count :: size_t
  dld_from_id :: size_t
  dld_filter :: bytes
  dld_bufsize :: size_t

text \<open>The answer: the return value, the identifiers, the sizes and the documents.\<close>

definition yk_doc_list_direct_ult :: "(doc_list_direct_in, 'b, 'm) rpc \<Rightarrow> doc_filter_maker
    \<Rightarrow> 's doc_store \<Rightarrow> 's option \<Rightarrow> ((direct_out \<times> size_t list) \<times> 's option) outcome" where
  "yk_doc_list_direct_ult R mkF D db = doc_op R D ci_mode (\<lambda>e. (no_out e, [])) (\<lambda>inp s.
     case mkF (ci_mode inp) (dld_filter inp) of
       None \<Rightarrow> Done ((no_out YOKAN_ERR_INVALID_FILTER, []), s)
     | Some F \<Rightarrow>
         (let blank = replicate (unat (dld_count inp)) 0 in
          obind (ds_docList D (ci_name inp) (ci_mode inp) True (dld_from_id inp) F
                   \<lparr> do_ids = blank, do_docs = zeros (dld_bufsize inp),
                     do_size = dld_bufsize inp, do_sizes = blank \<rparr> s) (\<lambda>(st, out, s').
            if st \<noteq> OK then Done ((no_out (status_ret st), []), s')
            else obind (sub_bytes (do_docs out) 0 (do_size out)) (\<lambda>docs.
              Done (((YOKAN_SUCCESS, do_sizes out, docs), do_ids out), s'))))) db"

end
