(* ===== verification/RpcContract.thy ===== *)
theory RpcContract
  imports DocHandlers
begin

text \<open>
  What the handlers of the operations keep: whatever happens, the buffer a handler has taken goes
  back to the pool as it was taken, up to its content.
\<close>

section \<open>Handlers keep their buffer\<close>

definition same_buffer :: "yk_buffer \<Rightarrow> yk_buffer \<Rightarrow> bool" where
  "same_buffer b b' \<longleftrightarrow> b' = b\<lparr> yb_data := yb_data b' \<rparr> \<and> length (yb_data b') = length (yb_data b)"

lemma same_buffer_refl [simp, intro]: "same_buffer b b"
  by (simp add: same_buffer_def)

lemma same_buffer_data: "same_buffer b b1 \<Longrightarrow> length d = length (yb_data b1)
    \<Longrightarrow> same_buffer b (b1\<lparr> yb_data := d \<rparr>)"
  by (cases b; cases b1) (simp add: same_buffer_def)

lemma same_buffer_store:
  "same_buffer b b1 \<Longrightarrow> buf_store b1 off x = Done b' \<Longrightarrow> same_buffer b b'"
  by (auto simp: buf_store_def obind_Done_iff memcpy_to_length intro: same_buffer_data)

text \<open>A reply made while the buffer was \<open>b\<close> and the cache \<open>c\<close>.\<close>

definition keeps :: "yk_buffer \<Rightarrow> 'c \<Rightarrow> ('o, 's, 'c, 'm) reply \<Rightarrow> bool" where
  "keeps b c r \<longleftrightarrow> (\<forall>out b' w'. r = Done (out, b', w') \<longrightarrow> same_buffer b b' \<and> w_cache w' = c)"

lemma keeps_Done:
  "same_buffer b b' \<Longrightarrow> w_cache w' = c \<Longrightarrow> keeps b c (Done (out, b', w'))"
  by (simp add: keeps_def)

lemma keeps_Undef: "keeps b c Undef"
  by (simp add: keeps_def)

lemma keeps_obind:
  "(\<And>x. r = Done x \<Longrightarrow> keeps b c (f x)) \<Longrightarrow> keeps b c (obind r f)"
  by (cases r) (simp_all add: keeps_def)

lemma keeps_if:
  "(Q \<Longrightarrow> keeps b c x) \<Longrightarrow> (\<not> Q \<Longrightarrow> keeps b c y) \<Longrightarrow> keeps b c (if Q then x else y)"
  by simp

lemma keeps_case_prod:
  "(\<And>x y. p = (x, y) \<Longrightarrow> keeps b c (f x y)) \<Longrightarrow> keeps b c (case p of (x, y) \<Rightarrow> f x y)"
  by (cases p) simp

lemma keeps_case_option:
  "(r = None \<Longrightarrow> keeps b c x) \<Longrightarrow> (\<And>y. r = Some y \<Longrightarrow> keeps b c (f y))
    \<Longrightarrow> keeps b c (case r of None \<Rightarrow> x | Some y \<Rightarrow> f y)"
  by (cases r) simp_all

lemma keeps_pull:
  assumes "pull_keeps_size R" "same_buffer b b1" "w_cache w = c"
    and "\<And>b'. same_buffer b b' \<Longrightarrow> keeps b c (k b')"
  shows "keeps b c (pull R a bulk roff loff n b1 w err k)"
proof -
  obtain hret d where t: "rpc_pull R a bulk roff loff n (yb_data b1) (w_mem w) = (hret, d)" by force
  then have "length d = length (yb_data b1)"
    using assms(1) by (metis pull_keeps_size_def snd_conv)
  then have "same_buffer b (b1\<lparr> yb_data := d \<rparr>)" using assms(2) by (rule same_buffer_data [rotated])
  then show ?thesis
    using t assms(3,4) by (simp add: pull_def Let_def keeps_Done)
qed

lemma keeps_push:
  assumes "same_buffer b b1" "w_cache w = c" "\<And>w'. w_cache w' = c \<Longrightarrow> keeps b c (k w')"
  shows "keeps b c (push R a bulk roff loff n b1 w err k)"
  using assms by (auto simp: push_def Let_def keeps_Done split: prod.split)

lemma keeps_check_database:
  "(\<And>e. keeps b c (ret e)) \<Longrightarrow> (\<And>s. db = Some s \<Longrightarrow> keeps b c (k s))
    \<Longrightarrow> keeps b c (check_database supports mode db ret k)"
  by (auto simp: check_database_def split: option.split)

lemma keeps_store:
  "same_buffer b b1 \<Longrightarrow> (\<And>b'. same_buffer b b' \<Longrightarrow> keeps b c (f b'))
    \<Longrightarrow> keeps b c (obind (buf_store b1 off x) f)"
  by (rule keeps_obind) (blast intro: same_buffer_store)

text \<open>The shape of a handler is followed from its first step to its answer.\<close>

lemmas keeps_step = keeps_store keeps_pull keeps_push keeps_Done keeps_Undef keeps_if keeps_case_prod
  keeps_case_option keeps_check_database keeps_obind

lemma put_work_keeps: "pull_keeps_size R \<Longrightarrow> keeps b (w_cache w) (put_work R D inp a db b w)"
  unfolding put_work_def Let_def by (rule keeps_step | assumption | simp)+

lemma get_push_keeps:
  "same_buffer b b1 \<Longrightarrow> w_cache w = c \<Longrightarrow> keeps b c (get_push R inp a voff rest out b1 w)"
  unfolding get_push_def Let_def by (rule keeps_step | assumption | simp)+

lemma get_work_keeps: "pull_keeps_size R \<Longrightarrow> keeps b (w_cache w) (get_work R D inp a db b w)"
  unfolding get_work_def get_values_def Let_def
  by (rule get_push_keeps keeps_step | assumption | simp)+

lemma length_work_keeps: "pull_keeps_size R \<Longrightarrow> keeps b (w_cache w) (length_work R D inp a db b w)"
  unfolding length_work_def Let_def by (rule keeps_step | assumption | simp)+

lemma exists_work_keeps: "pull_keeps_size R \<Longrightarrow> keeps b (w_cache w) (exists_work R D inp a db b w)"
  unfolding exists_work_def Let_def by (rule keeps_step | assumption | simp)+

lemma erase_work_keeps: "pull_keeps_size R \<Longrightarrow> keeps b (w_cache w) (erase_work R D inp a db b w)"
  unfolding erase_work_def Let_def by (rule keeps_step | assumption | simp)+

lemma keeps_list_pull:
  assumes "pull_keeps_size R" "same_buffer b b1" "w_cache w = c"
    and "\<And>b'. same_buffer b b' \<Longrightarrow> keeps b c (k b')"
  shows "keeps b c (list_pull R inp a sz b1 w k)"
  unfolding list_pull_def Let_def by (rule keeps_step assms | assumption | simp)+

lemma list_keys_work_keeps:
  "pull_keeps_size R \<Longrightarrow> keeps b (w_cache w) (list_keys_work R mkF D inp a db b w)"
  unfolding list_keys_work_def Let_def by (rule keeps_list_pull keeps_step | assumption | simp)+

lemma list_keyvals_work_keeps:
  "pull_keeps_size R \<Longrightarrow> keeps b (w_cache w) (list_keyvals_work R mkF D inp a db b w)"
  unfolding list_keyvals_work_def Let_def by (rule keeps_list_pull keeps_step | assumption | simp)+

lemma doc_store_work_keeps:
  "pull_keeps_size R \<Longrightarrow> keeps b (w_cache w) (doc_store_work R D inp a db b w)"
  unfolding doc_store_work_def Let_def by (rule keeps_step | assumption | simp)+

lemma doc_update_work_keeps:
  "pull_keeps_size R \<Longrightarrow> keeps b (w_cache w) (doc_update_work R D inp a b w)"
  unfolding doc_update_work_def Let_def by (rule keeps_step | assumption | simp)+

lemma doc_load_push_keeps:
  "same_buffer b b1 \<Longrightarrow> w_cache w = c \<Longrightarrow> keeps b c (doc_load_push R inp a doff out b1 w)"
  unfolding doc_load_push_def Let_def by (rule keeps_step | assumption | simp)+

lemma doc_load_read_keeps:
  "same_buffer b b1 \<Longrightarrow> w_cache w = c \<Longrightarrow> keeps b c (doc_load_read R D inp a db w b1)"
  unfolding doc_load_read_def Let_def by (rule doc_load_push_keeps keeps_step | assumption | simp)+

lemma doc_load_work_keeps:
  "pull_keeps_size R \<Longrightarrow> keeps b (w_cache w) (doc_load_work R D inp a db b w)"
  unfolding doc_load_work_def by (rule doc_load_read_keeps keeps_step | assumption | simp)+

lemma doc_list_read_keeps:
  "same_buffer b b1 \<Longrightarrow> w_cache w = c \<Longrightarrow> keeps b c (doc_list_read R mkF D inp a db w b1)"
  unfolding doc_list_read_def Let_def by (rule keeps_step | assumption | simp)+

lemma doc_list_work_keeps:
  "pull_keeps_size R \<Longrightarrow> keeps b (w_cache w) (doc_list_work R mkF D inp a db b w)"
  unfolding doc_list_work_def Let_def by (rule doc_list_read_keeps keeps_step | assumption | simp)+

section \<open>Handlers and pools\<close>

text \<open>What the bulk cache offers a handler.\<close>

definition pool_ops :: "(size_t \<Rightarrow> hg_mode \<Rightarrow> 'c \<Rightarrow> yk_buffer option \<times> 'c) \<Rightarrow> (yk_buffer \<Rightarrow> 'c \<Rightarrow> 'c)
    \<Rightarrow> 'c bulk_cache" where
  "pool_ops get release = \<lparr> bc_get = get, bc_release = release \<rparr>"

context buffer_pool begin

lemma with_buffer_inv:
  assumes "inv lent (w_cache w)" "\<And>b w. keeps b (w_cache w) (work b w)"
    and "with_buffer (pool_ops get release) n mode w work err = Done (out, w')"
  shows "inv lent (w_cache w')"
proof -
  obtain r c where g: "get n mode (w_cache w) = (r, c)" by force
  show ?thesis
  proof (cases r)
    case None
    then show ?thesis
      using assms(1,3) g get_none [OF assms(1)] by (auto simp: with_buffer_def pool_ops_def)
  next
    case (Some b)
    with g assms(3) obtain b' w1 where work: "work b (w\<lparr> w_cache := c \<rparr>) = Done (out, b', w1)"
      and w': "w' = w1\<lparr> w_cache := release b' (w_cache w1) \<rparr>"
      by (auto simp: with_buffer_def pool_ops_def obind_Done_iff split: prod.splits)
    then have "same_buffer b b'" "w_cache w1 = c"
      using assms(2) [of b "w\<lparr> w_cache := c \<rparr>"] by (auto simp: keeps_def)
    then show ?thesis
      using borrow [OF assms(1) g [unfolded Some], of "yb_data b'"] w' by (simp add: same_buffer_def)
  qed
qed

lemma bulk_op_inv:
  assumes "inv lent (w_cache w)" "\<And>inp a db b w. keeps b (w_cache w) (work inp a db b w)"
    and "bulk_op R (pool_ops get release) D origin_of mode_of size_of access err work w = Done (out, w')"
  shows "inv lent (w_cache w')"
  using assms(1,3)
  by (auto simp: bulk_op_def Let_def handler_input_def resolve_origin_def check_database_def
      split: if_splits option.splits intro: with_buffer_inv [OF assms(1) assms(2)])

lemma doc_bulk_op_inv:
  assumes "inv lent (w_cache w)" "\<And>inp a db b w. keeps b (w_cache w) (work inp a db b w)"
    and "doc_bulk_op R (pool_ops get release) D origin_of mode_of size_of err work w = Done (out, w')"
  shows "inv lent (w_cache w')"
  using assms(1,3)
  by (auto simp: doc_bulk_op_def Let_def handler_input_def resolve_origin_def check_database_def
      split: if_splits option.splits intro: with_buffer_inv [OF assms(1) assms(2)])

end

end
