(* ===== verification/KvClient.thy ===== *)
theory KvClient
  imports KvHandlers
begin

text \<open>
  The client side of the key/value operations (src/src/client: put, get, length, exists, erase,
  count, list_keys, list_keyvals) and the decoding of answers into the caller's buffers (types.h).
  A null pointer is \<open>None\<close>. The RPC itself is the record \<open>channel\<close>, the exposed memory the record
  \<open>bulk_api\<close>.
\<close>

section \<open>Arguments behind pointers\<close>

definition c_array :: "size_t \<Rightarrow> 'a list option \<Rightarrow> 'a list outcome" where
  "c_array n p = (case p of
       None \<Rightarrow> if n = 0 then Done [] else Undef
     | Some xs \<Rightarrow> if unat n \<le> length xs then Done (take (unat n) xs) else Undef)"

text \<open>The \<open>i\<close>-th pointer with \<open>n\<close> bytes behind it.\<close>

fun c_arrays :: "size_t list \<Rightarrow> bytes option list \<Rightarrow> bytes list outcome" where
  "c_arrays [] ps = Done []"
| "c_arrays (n # ns) [] = Undef"
| "c_arrays (n # ns) (p # ps) =
     obind (c_array n p) (\<lambda>x. obind (c_arrays ns ps) (\<lambda>xs. Done (x # xs)))"

text \<open>
  \<open>for(unsigned i = 0; i < count; i++) if(ksizes[i] == 0) return ...\<close> with a \<open>size_t\<close> bound: from
  \<open>2^32\<close> keys on the loop has no end.
\<close>

definition check_ksizes :: "size_t list \<Rightarrow> 'r outcome \<Rightarrow> 'r outcome \<Rightarrow> 'r outcome" where
  "check_ksizes ns bad k =
     (if 0 \<in> set (take 4294967296 ns) then bad
      else if length ns < 4294967296 then k else Hung)"

text \<open>The caller's array with its front overwritten.\<close>

definition c_back :: "'a list \<Rightarrow> 'a list option \<Rightarrow> 'a list option" where
  "c_back new p = map_option (\<lambda>xs. new @ drop (length new) xs) p"

section \<open>RPCs\<close>

text \<open>
  \<open>ch_create\<close>, \<open>ch_free\<close> are the return values of \<open>margo_create\<close> and \<open>margo_free_output\<close>;
  \<open>ch_forward\<close> is \<open>margo_provider_forward\<close> with \<open>margo_get_output\<close>: the return value, the output
  when it could be had, and the world the handler left.
\<close>

record ('i, 'o, 'w) channel =
  ch_create :: hg_return
  ch_forward :: "'i \<Rightarrow> 'w \<Rightarrow> (hg_return \<times> 'o option \<times> 'w) outcome"
  ch_free :: hg_return

definition call_rpc :: "('i, 'o, 'w) channel \<Rightarrow> 'i \<Rightarrow> 'w \<Rightarrow> (yk_return_t \<Rightarrow> 'w \<Rightarrow> 'r outcome)
    \<Rightarrow> ('o \<Rightarrow> 'w \<Rightarrow> 'r outcome) \<Rightarrow> 'r outcome" where
  "call_rpc C inp w err k =
     (if ch_create C \<noteq> HG_SUCCESS then err YOKAN_ERR_FROM_MERCURY w
      else obind (ch_forward C inp w) (\<lambda>(hret, out, w').
        if hret \<noteq> HG_SUCCESS then err YOKAN_ERR_FROM_MERCURY w'
        else case out of None \<Rightarrow> err YOKAN_ERR_FROM_MERCURY w' | Some out \<Rightarrow> k out w'))"

text \<open>The value of an operation once the output has been freed.\<close>

definition freed :: "('i, 'o, 'w) channel \<Rightarrow> yk_return_t \<Rightarrow> yk_return_t" where
  "freed C ret = (if ch_free C \<noteq> HG_SUCCESS then YOKAN_ERR_FROM_MERCURY else ret)"

text \<open>An RPC that answers with a return value alone.\<close>

definition simple_rpc :: "('i, yk_return_t, 'w) channel \<Rightarrow> mode_t \<Rightarrow> 'i \<Rightarrow> 'w
    \<Rightarrow> (yk_return_t \<times> 'w) outcome" where
  "simple_rpc C mode inp w =
     (if \<not> mode_valid mode then Done (YOKAN_ERR_MODE, w)
      else call_rpc C inp w (\<lambda>e w. Done (e, w)) (\<lambda>ret w. Done (freed C ret, w)))"

text \<open>
  \<open>hg_proc_uint64_list\<close> and \<open>hg_proc_raw_data\<close> decode into the buffer of the caller, whose size
  must do. A null buffer is allocated instead, and its content lost.
\<close>

definition proc_into :: "'a list \<Rightarrow> 'a list \<Rightarrow> hg_return \<times> 'a list" where
  "proc_into buf wire =
     (if length wire \<le> length buf then (HG_SUCCESS, wire @ drop (length wire) buf)
      else (HG_NOMEM, buf))"

section \<open>Exposed memory\<close>

text \<open>
  \<open>ba_create\<close> is \<open>margo_bulk_create\<close> on buffers with the given contents, \<open>ba_segments\<close> what these
  buffers hold.
\<close>

record ('b, 'm) bulk_api =
  ba_create :: "hg_mode \<Rightarrow> bytes list \<Rightarrow> 'm \<Rightarrow> ('b \<times> 'm) option"
  ba_segments :: "'b \<Rightarrow> 'm \<Rightarrow> bytes list"

text \<open>\<open>k\<close> with a handle on the segments; its answer with the segments as the call left them.\<close>

definition with_bulk :: "('b, 'm) bulk_api \<Rightarrow> hg_mode \<Rightarrow> bytes list \<Rightarrow> ('s, 'c, 'm) world
    \<Rightarrow> ('b \<Rightarrow> ('s, 'c, 'm) world \<Rightarrow> (yk_return_t \<times> ('s, 'c, 'm) world) outcome)
    \<Rightarrow> (yk_return_t \<times> bytes list \<times> ('s, 'c, 'm) world) outcome" where
  "with_bulk B access segs w k =
     (case ba_create B access segs (w_mem w) of
        None \<Rightarrow> Done (YOKAN_ERR_FROM_MERCURY, segs, w)
      | Some (bulk, m) \<Rightarrow>
          obind (k bulk (w\<lparr> w_mem := m \<rparr>)) (\<lambda>(ret, w').
            Done (ret, ba_segments B bulk (w_mem w'), w')))"

definition without_segs :: "(yk_return_t \<times> bytes list \<times> 'w) outcome \<Rightarrow> (yk_return_t \<times> 'w) outcome" where
  "without_segs r = obind r (\<lambda>(ret, segs, w). Done (ret, w))"

definition nonempty :: "bytes list \<Rightarrow> bytes list" where
  "nonempty xs = filter (\<lambda>x. x \<noteq> []) xs"

section \<open>put\<close>

definition yk_put_direct :: "(put_direct_in, yk_return_t, 'w) channel \<Rightarrow> mode_t \<Rightarrow> size_t \<Rightarrow> bytes option
    \<Rightarrow> size_t list option \<Rightarrow> bytes option \<Rightarrow> size_t list option \<Rightarrow> 'w \<Rightarrow> (yk_return_t \<times> 'w) outcome" where
  "yk_put_direct C mode n keys ksizes vals vsizes w =
     (if n = 0 then Done (YOKAN_SUCCESS, w)
      else if keys = None \<or> ksizes = None \<or> vsizes = None then Done (YOKAN_ERR_INVALID_ARGS, w)
      else if \<not> mode_valid mode then Done (YOKAN_ERR_MODE, w)
      else
        obind (c_array n ksizes) (\<lambda>ks.
        obind (c_array n vsizes) (\<lambda>vs.
        if vals = None \<and> accumulate vs \<noteq> 0 then Done (YOKAN_ERR_INVALID_ARGS, w)
        else
          obind (c_array (accumulate ks) keys) (\<lambda>kdata.
          obind (c_array (accumulate vs) vals) (\<lambda>vdata.
          simple_rpc C mode \<lparr> pd_mode = mode, pd_ksizes = ks, pd_vsizes = vs,
            pd_keys = local_mem kdata, pd_vals = vdata \<rparr> w)))))"

definition yk_put_bulk :: "('b bulk_in, yk_return_t, 'w) channel \<Rightarrow> mode_t \<Rightarrow> size_t \<Rightarrow> bytes option
    \<Rightarrow> 'b \<Rightarrow> size_t \<Rightarrow> size_t \<Rightarrow> 'w \<Rightarrow> (yk_return_t \<times> 'w) outcome" where
  "yk_put_bulk C mode n origin data offset sz w =
     (if n \<noteq> 0 \<and> sz = 0 then Done (YOKAN_ERR_INVALID_ARGS, w)
      else simple_rpc C mode \<lparr> bi_mode = mode, bi_count = n, bi_offset = offset, bi_size = sz,
             bi_origin = origin, bi_bulk = data \<rparr> w)"

definition yk_put_packed :: "(put_direct_in, yk_return_t, ('s, 'c, 'm) world) channel
    \<Rightarrow> ('b bulk_in, yk_return_t, ('s, 'c, 'm) world) channel \<Rightarrow> ('b, 'm) bulk_api
    \<Rightarrow> mode_t \<Rightarrow> size_t \<Rightarrow> bytes option \<Rightarrow> size_t list option \<Rightarrow> bytes option \<Rightarrow> size_t list option
    \<Rightarrow> ('s, 'c, 'm) world \<Rightarrow> (yk_return_t \<times> ('s, 'c, 'm) world) outcome" where
  "yk_put_packed CD C B mode n keys ksizes vals vsizes w =
     (if has_mode mode YOKAN_MODE_NO_RDMA then yk_put_direct CD mode n keys ksizes vals vsizes w
      else if n = 0 then Done (YOKAN_SUCCESS, w)
      else if keys = None \<or> ksizes = None \<or> vsizes = None then Done (YOKAN_ERR_INVALID_ARGS, w)
      else
        obind (c_array n ksizes) (\<lambda>ks.
        obind (c_array n vsizes) (\<lambda>vs.
        let ktotal = accumulate ks; vtotal = accumulate vs;
            total_size = accumulate [n * 8, n * 8, ktotal, vtotal] in
        if ktotal = 0 then Done (YOKAN_ERR_INVALID_ARGS, w)
        else if vtotal \<noteq> 0 \<and> vals = None then Done (YOKAN_ERR_INVALID_ARGS, w)
        else
          obind (c_array ktotal keys) (\<lambda>kdata.
          obind (c_array vtotal vals) (\<lambda>vdata.
          without_segs (with_bulk B HG_BULK_READ_ONLY
            ([enc_list ks, enc_list vs, kdata] @ (if vtotal \<noteq> 0 then [vdata] else [])) w
            (\<lambda>bulk. yk_put_bulk C mode n None bulk 0 total_size)))))))"

definition yk_put :: "(put_direct_in, yk_return_t, ('s, 'c, 'm) world) channel
    \<Rightarrow> ('b bulk_in, yk_return_t, ('s, 'c, 'm) world) channel \<Rightarrow> ('b, 'm) bulk_api
    \<Rightarrow> mode_t \<Rightarrow> bytes option \<Rightarrow> size_t \<Rightarrow> bytes option \<Rightarrow> size_t
    \<Rightarrow> ('s, 'c, 'm) world \<Rightarrow> (yk_return_t \<times> ('s, 'c, 'm) world) outcome" where
  "yk_put CD C B mode key ksize val vsize w =
     (if ksize = 0 then Done (YOKAN_ERR_INVALID_ARGS, w)
      else yk_put_packed CD C B mode 1 key (Some [ksize]) val (Some [vsize]) w)"

text \<open>
  \<open>values[i]\<close> of size 0 is not exposed. With one key the direct call gets the caller's pointers,
  else packed copies, which are never null.
\<close>

definition yk_put_multi :: "(put_direct_in, yk_return_t, ('s, 'c, 'm) world) channel
    \<Rightarrow> ('b bulk_in, yk_return_t, ('s, 'c, 'm) world) channel \<Rightarrow> ('b, 'm) bulk_api
    \<Rightarrow> mode_t \<Rightarrow> size_t \<Rightarrow> bytes option list option \<Rightarrow> size_t list option \<Rightarrow> bytes option list option
    \<Rightarrow> size_t list option \<Rightarrow> ('s, 'c, 'm) world \<Rightarrow> (yk_return_t \<times> ('s, 'c, 'm) world) outcome" where
  "yk_put_multi CD C B mode n keys ksizes vals vsizes w =
     (if n = 0 then Done (YOKAN_SUCCESS, w)
      else if keys = None \<or> ksizes = None \<or> vals = None \<or> vsizes = None
      then Done (YOKAN_ERR_INVALID_ARGS, w)
      else
        obind (c_array n ksizes) (\<lambda>ks.
        obind (c_array n vsizes) (\<lambda>vs.
        obind (c_array n keys) (\<lambda>kptrs.
        obind (c_array n vals) (\<lambda>vptrs.
        if has_mode mode YOKAN_MODE_NO_RDMA then
          (if n = 1 then yk_put_direct CD mode n (kptrs ! 0) (Some ks) (vptrs ! 0) (Some vs) w
           else
             obind (c_arrays ks kptrs) (\<lambda>kds.
             obind (c_arrays vs vptrs) (\<lambda>vds.
             yk_put_direct CD mode n (Some (concat kds)) (Some ks) (Some (concat vds)) (Some vs) w)))
        else
          check_ksizes ks (Done (YOKAN_ERR_INVALID_ARGS, w))
            (obind (c_arrays ks kptrs) (\<lambda>kds.
             obind (c_arrays vs vptrs) (\<lambda>vds.
             without_segs (with_bulk B HG_BULK_READ_ONLY
               ([enc_list ks, enc_list vs] @ kds @ nonempty vds) w
               (\<lambda>bulk. yk_put_bulk C mode n None bulk 0
                  (accumulate (n * 8 # n * 8 # ks @ filter (\<lambda>v. v \<noteq> 0) vs))))))))))))"

section \<open>get\<close>

text \<open>A get answers with the return value, the value sizes, the values, and the world.\<close>

type_synonym 'w got = "yk_return_t \<times> size_t list option \<times> bytes option \<times> 'w"

definition yk_get_direct :: "(get_direct_in, direct_out, 'w) channel \<Rightarrow> mode_t \<Rightarrow> size_t
    \<Rightarrow> bytes option \<Rightarrow> size_t list option \<Rightarrow> size_t \<Rightarrow> bytes option \<Rightarrow> size_t list option \<Rightarrow> 'w
    \<Rightarrow> 'w got outcome" where
  "yk_get_direct C mode n keys ksizes vbufsize vals vsizes w =
     (if n = 0 then Done (YOKAN_SUCCESS, vsizes, vals, w)
      else if keys = None \<or> ksizes = None \<or> vsizes = None \<or> (vals = None \<and> vbufsize \<noteq> 0)
      then Done (YOKAN_ERR_INVALID_ARGS, vsizes, vals, w)
      else if \<not> mode_valid mode then Done (YOKAN_ERR_MODE, vsizes, vals, w)
      else
        obind (c_array n ksizes) (\<lambda>ks.
        obind (c_array n vsizes) (\<lambda>vs.
        obind (c_array vbufsize vals) (\<lambda>vbuf.
        obind (c_array (accumulate ks) keys) (\<lambda>kdata.
        call_rpc C \<lparr> gd_mode = mode, gd_vbufsize = vbufsize, gd_ksizes = ks, gd_keys = local_mem kdata \<rparr> w
          (\<lambda>e w. Done (e, vsizes, vals, w))
          (\<lambda>(ret, out_vsizes, out_vals) w.
             case proc_into vs out_vsizes of (hret, vs') \<Rightarrow>
               if hret \<noteq> HG_SUCCESS then Done (YOKAN_ERR_FROM_MERCURY, c_back vs' vsizes, vals, w)
               else case (if vals = None then (HG_SUCCESS, []) else proc_into vbuf out_vals) of
                 (hret, vbuf') \<Rightarrow>
                   Done (if hret \<noteq> HG_SUCCESS then YOKAN_ERR_FROM_MERCURY else freed C ret,
                         c_back vs' vsizes, c_back vbuf' vals, w)))))))"

definition yk_get_bulk :: "('b get_in, yk_return_t, 'w) channel \<Rightarrow> mode_t \<Rightarrow> size_t \<Rightarrow> bytes option
    \<Rightarrow> 'b \<Rightarrow> size_t \<Rightarrow> size_t \<Rightarrow> bool \<Rightarrow> 'w \<Rightarrow> (yk_return_t \<times> 'w) outcome" where
  "yk_get_bulk C mode n origin data offset sz packed w =
     (if n \<noteq> 0 \<and> sz = 0 then Done (YOKAN_ERR_INVALID_ARGS, w)
      else simple_rpc C mode \<lparr> bi_mode = mode, bi_count = n, bi_offset = offset, bi_size = sz,
             bi_origin = origin, bi_bulk = data, gi_packed = packed \<rparr> w)"

definition yk_get_packed :: "(get_direct_in, direct_out, ('s, 'c, 'm) world) channel
    \<Rightarrow> ('b get_in, yk_return_t, ('s, 'c, 'm) world) channel \<Rightarrow> ('b, 'm) bulk_api
    \<Rightarrow> mode_t \<Rightarrow> size_t \<Rightarrow> bytes option \<Rightarrow> size_t list option \<Rightarrow> size_t \<Rightarrow> bytes option
    \<Rightarrow> size_t list option \<Rightarrow> ('s, 'c, 'm) world \<Rightarrow> ('s, 'c, 'm) world got outcome" where
  "yk_get_packed CD C B mode n keys ksizes vbufsize vals vsizes w =
     (if has_mode mode YOKAN_MODE_NO_RDMA
      then yk_get_direct CD mode n keys ksizes vbufsize vals vsizes w
      else if n = 0 then Done (YOKAN_SUCCESS, vsizes, vals, w)
      else if keys = None \<or> ksizes = None \<or> vsizes = None \<or> (vals = None \<and> vbufsize \<noteq> 0)
      then Done (YOKAN_ERR_INVALID_ARGS, vsizes, vals, w)
      else
        obind (c_array n ksizes) (\<lambda>ks.
        obind (c_array n vsizes) (\<lambda>vs.
        let ktotal = accumulate ks; total_size = accumulate [n * 8, n * 8, ktotal, vbufsize] in
        if ktotal = 0 then Done (YOKAN_ERR_INVALID_ARGS, vsizes, vals, w)
        else
          obind (c_array ktotal keys) (\<lambda>kdata.
          obind (c_array vbufsize vals) (\<lambda>vbuf.
          obind (with_bulk B HG_BULK_READWRITE
              ([enc_list ks, enc_list vs, kdata] @ (if vbufsize \<noteq> 0 then [vbuf] else [])) w
              (\<lambda>bulk. yk_get_bulk C mode n None bulk 0 total_size True)) (\<lambda>(ret, segs, w').
            Done (ret, c_back (dec_list (unat n) (segs ! 1)) vsizes,
                  if vbufsize \<noteq> 0 then c_back (segs ! 3) vals else vals, w')))))))"

text \<open>\<open>*vsize\<close> is the room of the buffer before the call and the size of the value after it.\<close>

definition yk_get :: "(get_direct_in, direct_out, ('s, 'c, 'm) world) channel
    \<Rightarrow> ('b get_in, yk_return_t, ('s, 'c, 'm) world) channel \<Rightarrow> ('b, 'm) bulk_api
    \<Rightarrow> mode_t \<Rightarrow> bytes option \<Rightarrow> size_t \<Rightarrow> bytes option \<Rightarrow> size_t
    \<Rightarrow> ('s, 'c, 'm) world \<Rightarrow> (yk_return_t \<times> size_t \<times> bytes option \<times> ('s, 'c, 'm) world) outcome" where
  "yk_get CD C B mode key ksize val vsize w =
     (if ksize = 0 then Done (YOKAN_ERR_INVALID_ARGS, vsize, val, w)
      else
        obind (yk_get_packed CD C B mode 1 key (Some [ksize]) vsize val (Some [vsize]) w)
          (\<lambda>(ret, vsizes, val', w').
            let vsize' = the vsizes ! 0 in
            if ret \<noteq> YOKAN_SUCCESS then Done (ret, vsize', val', w')
            else if vsize' = YOKAN_SIZE_TOO_SMALL then Done (YOKAN_ERR_BUFFER_SIZE, vsize', val', w')
            else if vsize' = YOKAN_KEY_NOT_FOUND then Done (YOKAN_ERR_KEY_NOT_FOUND, vsize', val', w')
            else Done (YOKAN_SUCCESS, vsize', val', w')))"

text \<open>
  Without \<open>packed\<close> each value has its own buffer; one of size 0 is not exposed. \<open>put_back\<close> hands
  the exposed buffers out again.
\<close>

fun put_back :: "size_t list \<Rightarrow> bytes option list \<Rightarrow> bytes list \<Rightarrow> bytes option list" where
  "put_back [] ps segs = ps"
| "put_back (n # ns) [] segs = []"
| "put_back (n # ns) (p # ps) segs =
     (if n = 0 then p # put_back ns ps segs
      else case segs of
             [] \<Rightarrow> p # put_back ns ps []
           | s # segs \<Rightarrow> c_back s p # put_back ns ps segs)"

definition yk_get_multi :: "('b get_in, yk_return_t, ('s, 'c, 'm) world) channel \<Rightarrow> ('b, 'm) bulk_api
    \<Rightarrow> mode_t \<Rightarrow> size_t \<Rightarrow> bytes option list option \<Rightarrow> size_t list option \<Rightarrow> bytes option list option
    \<Rightarrow> size_t list option \<Rightarrow> ('s, 'c, 'm) world
    \<Rightarrow> (yk_return_t \<times> size_t list option \<times> bytes option list option \<times> ('s, 'c, 'm) world) outcome" where
  "yk_get_multi C B mode n keys ksizes vals vsizes w =
     (if n = 0 then Done (YOKAN_SUCCESS, vsizes, vals, w)
      else if keys = None \<or> ksizes = None \<or> vals = None \<or> vsizes = None
      then Done (YOKAN_ERR_INVALID_ARGS, vsizes, vals, w)
      else
        obind (c_array n ksizes) (\<lambda>ks.
        obind (c_array n vsizes) (\<lambda>vs.
        obind (c_array n keys) (\<lambda>kptrs.
        obind (c_array n vals) (\<lambda>vptrs.
        check_ksizes ks (Done (YOKAN_ERR_INVALID_ARGS, vsizes, vals, w))
          (obind (c_arrays ks kptrs) (\<lambda>kds.
           obind (c_arrays vs vptrs) (\<lambda>vds.
           obind (with_bulk B HG_BULK_READWRITE ([enc_list ks, enc_list vs] @ kds @ nonempty vds) w
               (\<lambda>bulk. yk_get_bulk C mode n None bulk 0
                  (accumulate (n * 8 # n * 8 # ks @ filter (\<lambda>v. v \<noteq> 0) vs)) False))
             (\<lambda>(ret, segs, w').
               Done (ret, c_back (dec_list (unat n) (segs ! 1)) vsizes,
                     c_back (put_back vs vptrs (drop (2 + unat n) segs)) vals, w'))))))))))"

end
