(* ===== verification/KvClientQuery.thy ===== *)
theory KvClientQuery
  imports KvClient
begin

text \<open>
  The client side of length, exists, erase, count, list_keys and list_keyvals (src/src/client).
\<close>

section \<open>length\<close>

text \<open>The sizes and the world an operation leaves.\<close>

type_synonym 'w lengths = "yk_return_t \<times> size_t list option \<times> 'w"

definition yk_length_direct :: "(keys_direct_in, yk_return_t \<times> size_t list, 'w) channel \<Rightarrow> mode_t
    \<Rightarrow> size_t \<Rightarrow> bytes option \<Rightarrow> size_t list option \<Rightarrow> size_t list option \<Rightarrow> 'w \<Rightarrow> 'w lengths outcome" where
  "yk_length_direct C mode n keys ksizes vsizes w =
     (if n = 0 then Done (YOKAN_SUCCESS, vsizes, w)
      else if keys = None \<or> ksizes = None \<or> vsizes = None
      then Done (YOKAN_ERR_INVALID_ARGS, vsizes, w)
      else if \<not> mode_valid mode then Done (YOKAN_ERR_MODE, vsizes, w)
      else
        obind (c_array n ksizes) (\<lambda>ks.
        obind (c_array n vsizes) (\<lambda>vs.
        obind (c_array (accumulate ks) keys) (\<lambda>kdata.
        call_rpc C \<lparr> kd_mode = mode, kd_keys = local_mem kdata, kd_sizes = ks \<rparr> w
          (\<lambda>e w. Done (e, vsizes, w))
          (\<lambda>(ret, out_sizes) w.
             case proc_into vs out_sizes of (hret, vs') \<Rightarrow>
               Done (if hret \<noteq> HG_SUCCESS then YOKAN_ERR_FROM_MERCURY else freed C ret,
                     c_back vs' vsizes, w))))))"

definition yk_length_bulk :: "('b bulk_in, yk_return_t, 'w) channel \<Rightarrow> mode_t \<Rightarrow> size_t \<Rightarrow> bytes option
    \<Rightarrow> 'b \<Rightarrow> size_t \<Rightarrow> size_t \<Rightarrow> 'w \<Rightarrow> (yk_return_t \<times> 'w) outcome" where
  "yk_length_bulk C mode n origin data offset sz w =
     (if n \<noteq> 0 \<and> sz = 0 then Done (YOKAN_ERR_INVALID_ARGS, w)
      else simple_rpc C mode \<lparr> bi_mode = mode, bi_count = n, bi_offset = offset, bi_size = sz,
             bi_origin = origin, bi_bulk = data \<rparr> w)"

definition yk_length_packed :: "(keys_direct_in, yk_return_t \<times> size_t list, ('s, 'c, 'm) world) channel
    \<Rightarrow> ('b bulk_in, yk_return_t, ('s, 'c, 'm) world) channel \<Rightarrow> ('b, 'm) bulk_api
    \<Rightarrow> mode_t \<Rightarrow> size_t \<Rightarrow> bytes option \<Rightarrow> size_t list option \<Rightarrow> size_t list option
    \<Rightarrow> ('s, 'c, 'm) world \<Rightarrow> ('s, 'c, 'm) world lengths outcome" where
  "yk_length_packed CD C B mode n keys ksizes vsizes w =
     (if has_mode mode YOKAN_MODE_NO_RDMA then yk_length_direct CD mode n keys ksizes vsizes w
      else if n = 0 then Done (YOKAN_SUCCESS, vsizes, w)
      else if keys = None \<or> ksizes = None \<or> vsizes = None
      then Done (YOKAN_ERR_INVALID_ARGS, vsizes, w)
      else
        obind (c_array n ksizes) (\<lambda>ks.
        obind (c_array n vsizes) (\<lambda>vs.
        let ktotal = accumulate ks; total_size = accumulate [n * 8, ktotal, n * 8] in
        if ktotal = 0 then Done (YOKAN_ERR_INVALID_ARGS, vsizes, w)
        else
          obind (c_array ktotal keys) (\<lambda>kdata.
          obind (with_bulk B HG_BULK_READWRITE [enc_list ks, kdata, enc_list vs] w
              (\<lambda>bulk. yk_length_bulk C mode n None bulk 0 total_size)) (\<lambda>(ret, segs, w').
            Done (ret, c_back (dec_list (unat n) (segs ! 2)) vsizes, w'))))))"

definition yk_length :: "(keys_direct_in, yk_return_t \<times> size_t list, ('s, 'c, 'm) world) channel
    \<Rightarrow> ('b bulk_in, yk_return_t, ('s, 'c, 'm) world) channel \<Rightarrow> ('b, 'm) bulk_api
    \<Rightarrow> mode_t \<Rightarrow> bytes option \<Rightarrow> size_t \<Rightarrow> size_t list option
    \<Rightarrow> ('s, 'c, 'm) world \<Rightarrow> ('s, 'c, 'm) world lengths outcome" where
  "yk_length CD C B mode key ksize vsize w =
     (if ksize = 0 then Done (YOKAN_ERR_INVALID_ARGS, vsize, w)
      else
        obind (yk_length_packed CD C B mode 1 key (Some [ksize]) vsize w) (\<lambda>(ret, vsize', w').
          if ret = YOKAN_SUCCESS \<and> the vsize' ! 0 = YOKAN_KEY_NOT_FOUND
          then Done (YOKAN_ERR_KEY_NOT_FOUND, vsize', w') else Done (ret, vsize', w')))"

definition yk_length_multi :: "(keys_direct_in, yk_return_t \<times> size_t list, ('s, 'c, 'm) world) channel
    \<Rightarrow> ('b bulk_in, yk_return_t, ('s, 'c, 'm) world) channel \<Rightarrow> ('b, 'm) bulk_api
    \<Rightarrow> mode_t \<Rightarrow> size_t \<Rightarrow> bytes option list option \<Rightarrow> size_t list option \<Rightarrow> size_t list option
    \<Rightarrow> ('s, 'c, 'm) world \<Rightarrow> ('s, 'c, 'm) world lengths outcome" where
  "yk_length_multi CD C B mode n keys ksizes vsizes w =
     (if n = 0 then Done (YOKAN_SUCCESS, vsizes, w)
      else if keys = None \<or> ksizes = None \<or> vsizes = None
      then Done (YOKAN_ERR_INVALID_ARGS, vsizes, w)
      else
        obind (c_array n ksizes) (\<lambda>ks.
        obind (c_array n vsizes) (\<lambda>vs.
        obind (c_array n keys) (\<lambda>kptrs.
        if has_mode mode YOKAN_MODE_NO_RDMA then
          (if n = 1 then yk_length_direct CD mode n (kptrs ! 0) (Some ks) vsizes w
           else obind (c_arrays ks kptrs) (\<lambda>kds.
                yk_length_direct CD mode n (Some (concat kds)) (Some ks) vsizes w))
        else
          check_ksizes ks (Done (YOKAN_ERR_INVALID_ARGS, vsizes, w))
            (obind (c_arrays ks kptrs) (\<lambda>kds.
             obind (with_bulk B HG_BULK_READWRITE ([enc_list ks] @ kds @ [enc_list vs]) w
                 (\<lambda>bulk. yk_length_bulk C mode n None bulk 0 (accumulate (n * 8 # ks @ [n * 8]))))
               (\<lambda>(ret, segs, w').
                 Done (ret, c_back (dec_list (unat n) (segs ! (1 + unat n))) vsizes, w'))))))))"

section \<open>exists\<close>

type_synonym 'w flagged = "yk_return_t \<times> bytes option \<times> 'w"

definition yk_exists_direct :: "(keys_direct_in, yk_return_t \<times> bytes, 'w) channel \<Rightarrow> mode_t
    \<Rightarrow> size_t \<Rightarrow> bytes option \<Rightarrow> size_t list option \<Rightarrow> bytes option \<Rightarrow> 'w \<Rightarrow> 'w flagged outcome" where
  "yk_exists_direct C mode n keys ksizes flags w =
     (if n = 0 then Done (YOKAN_SUCCESS, flags, w)
      else if keys = None \<or> ksizes = None \<or> flags = None
      then Done (YOKAN_ERR_INVALID_ARGS, flags, w)
      else if \<not> mode_valid mode then Done (YOKAN_ERR_MODE, flags, w)
      else
        obind (c_array n ksizes) (\<lambda>ks.
        obind (c_array (flags_size n) flags) (\<lambda>fs.
        obind (c_array (accumulate ks) keys) (\<lambda>kdata.
        call_rpc C \<lparr> kd_mode = mode, kd_keys = local_mem kdata, kd_sizes = ks \<rparr> w
          (\<lambda>e w. Done (e, flags, w))
          (\<lambda>(ret, out_flags) w.
             case proc_into fs out_flags of (hret, fs') \<Rightarrow>
               Done (if hret \<noteq> HG_SUCCESS then YOKAN_ERR_FROM_MERCURY else freed C ret,
                     c_back fs' flags, w))))))"

definition yk_exists_bulk :: "('b bulk_in, yk_return_t, 'w) channel \<Rightarrow> mode_t \<Rightarrow> size_t \<Rightarrow> bytes option
    \<Rightarrow> 'b \<Rightarrow> size_t \<Rightarrow> size_t \<Rightarrow> 'w \<Rightarrow> (yk_return_t \<times> 'w) outcome" where
  "yk_exists_bulk C mode n origin data offset sz w =
     (if n \<noteq> 0 \<and> sz = 0 then Done (YOKAN_ERR_INVALID_ARGS, w)
      else simple_rpc C mode \<lparr> bi_mode = mode, bi_count = n, bi_offset = offset, bi_size = sz,
             bi_origin = origin, bi_bulk = data \<rparr> w)"

text \<open>
  The RDMA calls expose one byte of \<open>flags\<close> per key, the direct call one bit: a caller's bit field
  of \<open>ceil(count/8)\<close> bytes is left by the registered region.
\<close>

definition yk_exists_packed :: "(keys_direct_in, yk_return_t \<times> bytes, ('s, 'c, 'm) world) channel
    \<Rightarrow> ('b bulk_in, yk_return_t, ('s, 'c, 'm) world) channel \<Rightarrow> ('b, 'm) bulk_api
    \<Rightarrow> mode_t \<Rightarrow> size_t \<Rightarrow> bytes option \<Rightarrow> size_t list option \<Rightarrow> bytes option
    \<Rightarrow> ('s, 'c, 'm) world \<Rightarrow> ('s, 'c, 'm) world flagged outcome" where
  "yk_exists_packed CD C B mode n keys ksizes flags w =
     (if has_mode mode YOKAN_MODE_NO_RDMA then yk_exists_direct CD mode n keys ksizes flags w
      else if n = 0 then Done (YOKAN_SUCCESS, flags, w)
      else if keys = None \<or> ksizes = None \<or> flags = None
      then Done (YOKAN_ERR_INVALID_ARGS, flags, w)
      else
        obind (c_array n ksizes) (\<lambda>ks.
        let ktotal = accumulate ks; total_size = accumulate [n * 8, ktotal, n] in
        if ktotal = 0 then Done (YOKAN_ERR_INVALID_ARGS, flags, w)
        else
          obind (c_array ktotal keys) (\<lambda>kdata.
          obind (c_array n flags) (\<lambda>fs.
          obind (with_bulk B HG_BULK_READWRITE [enc_list ks, kdata, fs] w
              (\<lambda>bulk. yk_exists_bulk C mode n None bulk 0 total_size)) (\<lambda>(ret, segs, w').
            Done (ret, c_back (segs ! 2) flags, w'))))))"

definition yk_exists :: "(keys_direct_in, yk_return_t \<times> bytes, ('s, 'c, 'm) world) channel
    \<Rightarrow> ('b bulk_in, yk_return_t, ('s, 'c, 'm) world) channel \<Rightarrow> ('b, 'm) bulk_api
    \<Rightarrow> mode_t \<Rightarrow> bytes option \<Rightarrow> size_t \<Rightarrow> bytes option
    \<Rightarrow> ('s, 'c, 'm) world \<Rightarrow> ('s, 'c, 'm) world flagged outcome" where
  "yk_exists CD C B mode key ksize flag w =
     (if ksize = 0 then Done (YOKAN_ERR_INVALID_ARGS, flag, w)
      else yk_exists_packed CD C B mode 1 key (Some [ksize]) flag w)"

definition yk_exists_multi :: "(keys_direct_in, yk_return_t \<times> bytes, ('s, 'c, 'm) world) channel
    \<Rightarrow> ('b bulk_in, yk_return_t, ('s, 'c, 'm) world) channel \<Rightarrow> ('b, 'm) bulk_api
    \<Rightarrow> mode_t \<Rightarrow> size_t \<Rightarrow> bytes option list option \<Rightarrow> size_t list option \<Rightarrow> bytes option
    \<Rightarrow> ('s, 'c, 'm) world \<Rightarrow> ('s, 'c, 'm) world flagged outcome" where
  "yk_exists_multi CD C B mode n keys ksizes flags w =
     (if n = 0 then Done (YOKAN_SUCCESS, flags, w)
      else if keys = None \<or> ksizes = None \<or> flags = None
      then Done (YOKAN_ERR_INVALID_ARGS, flags, w)
      else
        obind (c_array n ksizes) (\<lambda>ks.
        obind (c_array n keys) (\<lambda>kptrs.
        if has_mode mode YOKAN_MODE_NO_RDMA then
          (if n = 1 then yk_exists_direct CD mode n (kptrs ! 0) (Some ks) flags w
           else obind (c_arrays ks kptrs) (\<lambda>kds.
                yk_exists_direct CD mode n (Some (concat kds)) (Some ks) flags w))
        else
          check_ksizes ks (Done (YOKAN_ERR_INVALID_ARGS, flags, w))
            (obind (c_arrays ks kptrs) (\<lambda>kds.
             obind (c_array n flags) (\<lambda>fs.
             obind (with_bulk B HG_BULK_READWRITE ([enc_list ks] @ kds @ [fs]) w
                 (\<lambda>bulk. yk_exists_bulk C mode n None bulk 0 (accumulate (n * 8 # ks @ [n]))))
               (\<lambda>(ret, segs, w'). Done (ret, c_back (segs ! (1 + unat n)) flags, w'))))))))"

section \<open>erase\<close>

definition yk_erase_direct :: "(keys_direct_in, yk_return_t, 'w) channel \<Rightarrow> mode_t \<Rightarrow> size_t
    \<Rightarrow> bytes option \<Rightarrow> size_t list option \<Rightarrow> 'w \<Rightarrow> (yk_return_t \<times> 'w) outcome" where
  "yk_erase_direct C mode n keys ksizes w =
     (if n = 0 then Done (YOKAN_SUCCESS, w)
      else if keys = None \<or> ksizes = None then Done (YOKAN_ERR_INVALID_ARGS, w)
      else if \<not> mode_valid mode then Done (YOKAN_ERR_MODE, w)
      else
        obind (c_array n ksizes) (\<lambda>ks.
        obind (c_array (accumulate ks) keys) (\<lambda>kdata.
        simple_rpc C mode \<lparr> kd_mode = mode, kd_keys = local_mem kdata, kd_sizes = ks \<rparr> w)))"

definition yk_erase_bulk :: "('b bulk_in, yk_return_t, 'w) channel \<Rightarrow> mode_t \<Rightarrow> size_t \<Rightarrow> bytes option
    \<Rightarrow> 'b \<Rightarrow> size_t \<Rightarrow> size_t \<Rightarrow> 'w \<Rightarrow> (yk_return_t \<times> 'w) outcome" where
  "yk_erase_bulk C mode n origin data offset sz w =
     (if n \<noteq> 0 \<and> sz = 0 then Done (YOKAN_ERR_INVALID_ARGS, w)
      else simple_rpc C mode \<lparr> bi_mode = mode, bi_count = n, bi_offset = offset, bi_size = sz,
             bi_origin = origin, bi_bulk = data \<rparr> w)"

definition yk_erase_packed :: "(keys_direct_in, yk_return_t, ('s, 'c, 'm) world) channel
    \<Rightarrow> ('b bulk_in, yk_return_t, ('s, 'c, 'm) world) channel \<Rightarrow> ('b, 'm) bulk_api
    \<Rightarrow> mode_t \<Rightarrow> size_t \<Rightarrow> bytes option \<Rightarrow> size_t list option
    \<Rightarrow> ('s, 'c, 'm) world \<Rightarrow> (yk_return_t \<times> ('s, 'c, 'm) world) outcome" where
  "yk_erase_packed CD C B mode n keys ksizes w =
     (if has_mode mode YOKAN_MODE_NO_RDMA then yk_erase_direct CD mode n keys ksizes w
      else if n = 0 then Done (YOKAN_SUCCESS, w)
      else if keys = None \<or> ksizes = None then Done (YOKAN_ERR_INVALID_ARGS, w)
      else
        obind (c_array n ksizes) (\<lambda>ks.
        let ktotal = accumulate ks; total_size = accumulate [n * 8, ktotal] in
        if ktotal = 0 then Done (YOKAN_ERR_INVALID_ARGS, w)
        else
          obind (c_array ktotal keys) (\<lambda>kdata.
          without_segs (with_bulk B HG_BULK_READ_ONLY [enc_list ks, kdata] w
            (\<lambda>bulk. yk_erase_bulk C mode n None bulk 0 total_size)))))"

definition yk_erase :: "(keys_direct_in, yk_return_t, ('s, 'c, 'm) world) channel
    \<Rightarrow> ('b bulk_in, yk_return_t, ('s, 'c, 'm) world) channel \<Rightarrow> ('b, 'm) bulk_api
    \<Rightarrow> mode_t \<Rightarrow> bytes option \<Rightarrow> size_t
    \<Rightarrow> ('s, 'c, 'm) world \<Rightarrow> (yk_return_t \<times> ('s, 'c, 'm) world) outcome" where
  "yk_erase CD C B mode key ksize w =
     (if ksize = 0 then Done (YOKAN_ERR_INVALID_ARGS, w)
      else yk_erase_packed CD C B mode 1 key (Some [ksize]) w)"

definition yk_erase_multi :: "(keys_direct_in, yk_return_t, ('s, 'c, 'm) world) channel
    \<Rightarrow> ('b bulk_in, yk_return_t, ('s, 'c, 'm) world) channel \<Rightarrow> ('b, 'm) bulk_api
    \<Rightarrow> mode_t \<Rightarrow> size_t \<Rightarrow> bytes option list option \<Rightarrow> size_t list option
    \<Rightarrow> ('s, 'c, 'm) world \<Rightarrow> (yk_return_t \<times> ('s, 'c, 'm) world) outcome" where
  "yk_erase_multi CD C B mode n keys ksizes w =
     (if n = 0 then Done (YOKAN_SUCCESS, w)
      else if keys = None \<or> ksizes = None then Done (YOKAN_ERR_INVALID_ARGS, w)
      else
        obind (c_array n ksizes) (\<lambda>ks.
        obind (c_array n keys) (\<lambda>kptrs.
        if has_mode mode YOKAN_MODE_NO_RDMA then
          (if n = 1 then yk_erase_direct CD mode 1 (kptrs ! 0) (Some ks) w
           else obind (c_arrays ks kptrs) (\<lambda>kds.
                yk_erase_direct CD mode n (Some (concat kds)) (Some ks) w))
        else
          check_ksizes ks (Done (YOKAN_ERR_INVALID_ARGS, w))
            (obind (c_arrays ks kptrs) (\<lambda>kds.
             without_segs (with_bulk B HG_BULK_READ_ONLY ([enc_list ks] @ kds) w
               (\<lambda>bulk. yk_erase_bulk C mode n None bulk 0 (accumulate (n * 8 # ks)))))))))"

section \<open>count\<close>

text \<open>\<open>*count\<close> is written on success only.\<close>

definition yk_count :: "(mode_t, yk_return_t \<times> size_t option, 'w) channel \<Rightarrow> mode_t \<Rightarrow> size_t option \<Rightarrow> 'w
    \<Rightarrow> (yk_return_t \<times> size_t option \<times> 'w) outcome" where
  "yk_count C mode n w =
     (if \<not> mode_valid mode then Done (YOKAN_ERR_MODE, n, w)
      else call_rpc C mode w (\<lambda>e w. Done (e, n, w)) (\<lambda>(ret, out_count) w.
        Done (freed C ret, if ret = YOKAN_SUCCESS then out_count else n, w)))"

section \<open>list_keys\<close>

text \<open>A start key or filter of no bytes is not exposed.\<close>

definition arg_segments :: "bytes \<Rightarrow> bytes \<Rightarrow> bytes list" where
  "arg_segments from_key filter_data = nonempty [from_key, filter_data]"

definition yk_list_keys_direct :: "(list_direct_in, direct_out, 'w) channel \<Rightarrow> mode_t
    \<Rightarrow> bytes option \<Rightarrow> size_t \<Rightarrow> bytes option \<Rightarrow> size_t \<Rightarrow> size_t \<Rightarrow> bytes option \<Rightarrow> size_t
    \<Rightarrow> size_t list option \<Rightarrow> 'w \<Rightarrow> 'w got outcome" where
  "yk_list_keys_direct C mode from_key from_ksize flt filter_size n keys keys_buf_size ksizes w =
     (if n = 0 then Done (YOKAN_SUCCESS, ksizes, keys, w)
      else if (from_key = None \<and> from_ksize \<noteq> 0) \<or> (flt = None \<and> filter_size \<noteq> 0)
      then Done (YOKAN_ERR_INVALID_ARGS, ksizes, keys, w)
      else if \<not> mode_valid mode then Done (YOKAN_ERR_MODE, ksizes, keys, w)
      else
        obind (c_array from_ksize from_key) (\<lambda>from_data.
        obind (c_array filter_size flt) (\<lambda>filter_data.
        obind (c_array n ksizes) (\<lambda>ks.
        obind (c_array keys_buf_size keys) (\<lambda>kbuf.
        call_rpc C \<lparr> ld_mode = mode, ld_count = n, ld_from_key = from_data, ld_filter = filter_data,
                     ld_keys_buf_size = keys_buf_size, ld_vals_buf_size = 0 \<rparr> w
          (\<lambda>e w. Done (e, ksizes, keys, w))
          (\<lambda>(ret, out_ksizes, out_keys) w.
             case proc_into ks out_ksizes of (hret, ks') \<Rightarrow>
               if hret \<noteq> HG_SUCCESS then Done (YOKAN_ERR_FROM_MERCURY, c_back ks' ksizes, keys, w)
               else case proc_into kbuf out_keys of (hret, kbuf') \<Rightarrow>
                 Done (if hret \<noteq> HG_SUCCESS then YOKAN_ERR_FROM_MERCURY else freed C ret,
                       c_back ks' ksizes, c_back kbuf' keys, w)))))))"

definition yk_list_keys_bulk :: "('b list_in, yk_return_t, 'w) channel \<Rightarrow> mode_t \<Rightarrow> size_t \<Rightarrow> size_t
    \<Rightarrow> bytes option \<Rightarrow> 'b \<Rightarrow> size_t \<Rightarrow> size_t \<Rightarrow> bool \<Rightarrow> size_t \<Rightarrow> 'w \<Rightarrow> (yk_return_t \<times> 'w) outcome" where
  "yk_list_keys_bulk C mode from_ksize filter_size origin data offset keys_buf_size packed n w =
     (if n = 0 then Done (YOKAN_SUCCESS, w)
      else simple_rpc C mode \<lparr> li_mode = mode, li_packed = packed, li_count = n,
             li_from_ksize = from_ksize, li_filter_size = filter_size, li_offset = offset,
             li_keys_buf_size = keys_buf_size, li_vals_buf_size = 0, li_origin = origin,
             li_bulk = data \<rparr> w)"

text \<open>One buffer per key, each of a size above 0.\<close>

definition yk_list_keys :: "('b list_in, yk_return_t, ('s, 'c, 'm) world) channel \<Rightarrow> ('b, 'm) bulk_api
    \<Rightarrow> mode_t \<Rightarrow> bytes option \<Rightarrow> size_t \<Rightarrow> bytes option \<Rightarrow> size_t \<Rightarrow> size_t \<Rightarrow> bytes option list option
    \<Rightarrow> size_t list option \<Rightarrow> ('s, 'c, 'm) world
    \<Rightarrow> (yk_return_t \<times> size_t list option \<times> bytes option list option \<times> ('s, 'c, 'm) world) outcome" where
  "yk_list_keys C B mode from_key from_ksize flt filter_size n keys ksizes w =
     (if n = 0 then Done (YOKAN_SUCCESS, ksizes, keys, w)
      else if (from_key = None \<and> from_ksize \<noteq> 0) \<or> (flt = None \<and> filter_size \<noteq> 0)
      then Done (YOKAN_ERR_INVALID_ARGS, ksizes, keys, w)
      else
        obind (c_array from_ksize from_key) (\<lambda>from_data.
        obind (c_array filter_size flt) (\<lambda>filter_data.
        obind (c_array n ksizes) (\<lambda>ks.
        obind (c_array n keys) (\<lambda>kptrs.
        check_ksizes ks (Done (YOKAN_ERR_INVALID_ARGS, ksizes, keys, w))
          (obind (c_arrays ks kptrs) (\<lambda>kbufs.
           let args = arg_segments from_data filter_data in
           obind (with_bulk B HG_BULK_READWRITE (args @ [enc_list ks] @ kbufs) w
               (\<lambda>bulk. yk_list_keys_bulk C mode from_ksize filter_size None bulk 0 (accumulate ks) False n))
             (\<lambda>(ret, segs, w').
               let back = drop (length args) segs in
               Done (ret, c_back (dec_list (unat n) (back ! 0)) ksizes,
                     c_back (put_back ks kptrs (drop 1 back)) keys, w')))))))))"

definition yk_list_keys_packed :: "(list_direct_in, direct_out, ('s, 'c, 'm) world) channel
    \<Rightarrow> ('b list_in, yk_return_t, ('s, 'c, 'm) world) channel \<Rightarrow> ('b, 'm) bulk_api \<Rightarrow> mode_t
    \<Rightarrow> bytes option \<Rightarrow> size_t \<Rightarrow> bytes option \<Rightarrow> size_t \<Rightarrow> size_t \<Rightarrow> bytes option \<Rightarrow> size_t
    \<Rightarrow> size_t list option \<Rightarrow> ('s, 'c, 'm) world \<Rightarrow> ('s, 'c, 'm) world got outcome" where
  "yk_list_keys_packed CD C B mode from_key from_ksize flt filter_size n keys keys_buf_size ksizes w =
     (if has_mode mode YOKAN_MODE_NO_RDMA
      then yk_list_keys_direct CD mode from_key from_ksize flt filter_size n keys keys_buf_size ksizes w
      else if n = 0 then Done (YOKAN_SUCCESS, ksizes, keys, w)
      else if (from_key = None \<and> from_ksize \<noteq> 0) \<or> (flt = None \<and> filter_size \<noteq> 0)
      then Done (YOKAN_ERR_INVALID_ARGS, ksizes, keys, w)
      else
        obind (c_array from_ksize from_key) (\<lambda>from_data.
        obind (c_array filter_size flt) (\<lambda>filter_data.
        obind (c_array n ksizes) (\<lambda>ks.
        obind (c_array keys_buf_size keys) (\<lambda>kbuf.
        let args = arg_segments from_data filter_data in
        obind (with_bulk B HG_BULK_READWRITE (args @ [enc_list ks, kbuf]) w
            (\<lambda>bulk. yk_list_keys_bulk C mode from_ksize filter_size None bulk 0 keys_buf_size True n))
          (\<lambda>(ret, segs, w').
            let back = drop (length args) segs in
            Done (ret, c_back (dec_list (unat n) (back ! 0)) ksizes, c_back (back ! 1) keys, w')))))))"

section \<open>list_keyvals\<close>

text \<open>Sizes and buffer of the keys, then of the values.\<close>

type_synonym 'w listed = "yk_return_t \<times> size_t list option \<times> bytes option \<times> size_t list option
  \<times> bytes option \<times> 'w"

definition yk_list_keyvals_direct :: "(list_direct_in, direct_out \<times> size_t list \<times> bytes, 'w) channel
    \<Rightarrow> mode_t \<Rightarrow> bytes option \<Rightarrow> size_t \<Rightarrow> bytes option \<Rightarrow> size_t \<Rightarrow> size_t \<Rightarrow> bytes option \<Rightarrow> size_t
    \<Rightarrow> size_t list option \<Rightarrow> bytes option \<Rightarrow> size_t \<Rightarrow> size_t list option \<Rightarrow> 'w \<Rightarrow> 'w listed outcome" where
  "yk_list_keyvals_direct C mode from_key from_ksize flt filter_size n keys keys_buf_size ksizes
       vals vals_buf_size vsizes w =
     (let same = (\<lambda>e w. Done (e, ksizes, keys, vsizes, vals, w)) in
      if n = 0 then same YOKAN_SUCCESS w
      else if (from_key = None \<and> from_ksize \<noteq> 0) \<or> (flt = None \<and> filter_size \<noteq> 0)
      then same YOKAN_ERR_INVALID_ARGS w
      else if \<not> mode_valid mode then same YOKAN_ERR_MODE w
      else
        obind (c_array from_ksize from_key) (\<lambda>from_data.
        obind (c_array filter_size flt) (\<lambda>filter_data.
        obind (c_array n ksizes) (\<lambda>ks.
        obind (c_array n vsizes) (\<lambda>vs.
        obind (c_array keys_buf_size keys) (\<lambda>kbuf.
        obind (c_array vals_buf_size vals) (\<lambda>vbuf.
        call_rpc C \<lparr> ld_mode = mode, ld_count = n, ld_from_key = from_data, ld_filter = filter_data,
                     ld_keys_buf_size = keys_buf_size, ld_vals_buf_size = vals_buf_size \<rparr> w same
          (\<lambda>((ret, out_ksizes, out_keys), out_vsizes, out_vals) w.
             let (h1, ks') = proc_into ks out_ksizes;
                 (h2, vs') = (if h1 = HG_SUCCESS then proc_into vs out_vsizes else (h1, vs));
                 (h3, kbuf') = (if h2 = HG_SUCCESS then proc_into kbuf out_keys else (h2, kbuf));
                 (h4, vbuf') = (if h3 = HG_SUCCESS then proc_into vbuf out_vals else (h3, vbuf)) in
             Done (if h4 \<noteq> HG_SUCCESS then YOKAN_ERR_FROM_MERCURY else freed C ret,
                   c_back ks' ksizes, c_back kbuf' keys, c_back vs' vsizes, c_back vbuf' vals, w)))))))))"

definition yk_list_keyvals_bulk :: "('b list_in, yk_return_t, 'w) channel \<Rightarrow> mode_t \<Rightarrow> size_t
    \<Rightarrow> size_t \<Rightarrow> bytes option \<Rightarrow> 'b \<Rightarrow> size_t \<Rightarrow> size_t \<Rightarrow> size_t \<Rightarrow> bool \<Rightarrow> size_t \<Rightarrow> 'w
    \<Rightarrow> (yk_return_t \<times> 'w) outcome" where
  "yk_list_keyvals_bulk C mode from_ksize filter_size origin data offset keys_buf_size vals_buf_size
       packed n w =
     (if n = 0 then Done (YOKAN_SUCCESS, w)
      else simple_rpc C mode \<lparr> li_mode = mode, li_packed = packed, li_count = n,
             li_from_ksize = from_ksize, li_filter_size = filter_size, li_offset = offset,
             li_keys_buf_size = keys_buf_size, li_vals_buf_size = vals_buf_size,
             li_origin = origin, li_bulk = data \<rparr> w)"

text \<open>One buffer per key and per value; here those of size 0 are left out.\<close>

definition yk_list_keyvals :: "('b list_in, yk_return_t, ('s, 'c, 'm) world) channel \<Rightarrow> ('b, 'm) bulk_api
    \<Rightarrow> mode_t \<Rightarrow> bytes option \<Rightarrow> size_t \<Rightarrow> bytes option \<Rightarrow> size_t \<Rightarrow> size_t \<Rightarrow> bytes option list option
    \<Rightarrow> size_t list option \<Rightarrow> bytes option list option \<Rightarrow> size_t list option \<Rightarrow> ('s, 'c, 'm) world
    \<Rightarrow> (yk_return_t \<times> size_t list option \<times> bytes option list option \<times> size_t list option
        \<times> bytes option list option \<times> ('s, 'c, 'm) world) outcome" where
  "yk_list_keyvals C B mode from_key from_ksize flt filter_size n keys ksizes vals vsizes w =
     (let same = (\<lambda>e. Done (e, ksizes, keys, vsizes, vals, w)) in
      if n = 0 then same YOKAN_SUCCESS
      else if (from_key = None \<and> from_ksize \<noteq> 0) \<or> (flt = None \<and> filter_size \<noteq> 0)
      then same YOKAN_ERR_INVALID_ARGS
      else
        obind (c_array from_ksize from_key) (\<lambda>from_data.
        obind (c_array filter_size flt) (\<lambda>filter_data.
        obind (c_array n ksizes) (\<lambda>ks.
        obind (c_array n vsizes) (\<lambda>vs.
        obind (c_array n keys) (\<lambda>kptrs.
        obind (c_array n vals) (\<lambda>vptrs.
        if length ks \<ge> 4294967296 then Hung
        else
          obind (c_arrays ks kptrs) (\<lambda>kbufs.
          obind (c_arrays vs vptrs) (\<lambda>vbufs.
          let args = arg_segments from_data filter_data; kne = nonempty kbufs in
          obind (with_bulk B HG_BULK_READWRITE
              (args @ [enc_list ks, enc_list vs] @ kne @ nonempty vbufs) w
              (\<lambda>bulk. yk_list_keyvals_bulk C mode from_ksize filter_size None bulk 0 (accumulate ks)
                 (accumulate vs) False n))
            (\<lambda>(ret, segs, w').
              let back = drop (length args) segs; bufs = drop 2 back in
              Done (ret, c_back (dec_list (unat n) (back ! 0)) ksizes,
                    c_back (put_back ks kptrs bufs) keys,
                    c_back (dec_list (unat n) (back ! 1)) vsizes,
                    c_back (put_back vs vptrs (drop (length kne) bufs)) vals, w')))))))))))"

definition yk_list_keyvals_packed ::
  "(list_direct_in, direct_out \<times> size_t list \<times> bytes, ('s, 'c, 'm) world) channel
    \<Rightarrow> ('b list_in, yk_return_t, ('s, 'c, 'm) world) channel \<Rightarrow> ('b, 'm) bulk_api \<Rightarrow> mode_t
    \<Rightarrow> bytes option \<Rightarrow> size_t \<Rightarrow> bytes option \<Rightarrow> size_t \<Rightarrow> size_t \<Rightarrow> bytes option \<Rightarrow> size_t
    \<Rightarrow> size_t list option \<Rightarrow> bytes option \<Rightarrow> size_t \<Rightarrow> size_t list option \<Rightarrow> ('s, 'c, 'm) world
    \<Rightarrow> ('s, 'c, 'm) world listed outcome" where
  "yk_list_keyvals_packed CD C B mode from_key from_ksize flt filter_size n keys keys_buf_size ksizes
       vals vals_buf_size vsizes w =
     (let same = (\<lambda>e. Done (e, ksizes, keys, vsizes, vals, w)) in
      if has_mode mode YOKAN_MODE_NO_RDMA
      then yk_list_keyvals_direct CD mode from_key from_ksize flt filter_size n keys keys_buf_size
             ksizes vals vals_buf_size vsizes w
      else if n = 0 then same YOKAN_SUCCESS
      else if (from_key = None \<and> from_ksize \<noteq> 0) \<or> (flt = None \<and> filter_size \<noteq> 0)
      then same YOKAN_ERR_INVALID_ARGS
      else
        obind (c_array from_ksize from_key) (\<lambda>from_data.
        obind (c_array filter_size flt) (\<lambda>filter_data.
        obind (c_array n ksizes) (\<lambda>ks.
        obind (c_array n vsizes) (\<lambda>vs.
        obind (c_array keys_buf_size keys) (\<lambda>kbuf.
        obind (c_array vals_buf_size vals) (\<lambda>vbuf.
        let args = arg_segments from_data filter_data in
        obind (with_bulk B HG_BULK_READWRITE (args @ [enc_list ks, enc_list vs, kbuf, vbuf]) w
            (\<lambda>bulk. yk_list_keyvals_bulk C mode from_ksize filter_size None bulk 0 keys_buf_size
               vals_buf_size True n))
          (\<lambda>(ret, segs, w').
            let back = drop (length args) segs in
            Done (ret, c_back (dec_list (unat n) (back ! 0)) ksizes, c_back (back ! 2) keys,
                  c_back (dec_list (unat n) (back ! 1)) vsizes, c_back (back ! 3) vals, w')))))))))"

end
