(* ===== verification/RpcTransfers.thy ===== *)
theory RpcTransfers
  imports RpcContract KvClientQuery KvContract
begin

text \<open>
  Requests that are laid out as the client lays them out: what the transfers bring into the buffer,
  and what the handlers of put and get then do.
\<close>

section \<open>Layout\<close>

lemma usize_enc_list: "usize (enc_list ns) = usize ns * 8"
  by (simp add: usize_def)

lemma usize_map [simp]: "usize (map f xs) = usize xs"
  by (simp add: usize_def)

lemma read_sizes_at:
  assumes "fits (pre @ enc_list ns @ post)"
  shows "read_sizes (pre @ enc_list ns @ post) (usize pre) (usize ns) = Done ns"
  using assms by (simp add: read_sizes_def unat_usize)

lemma pull_at:
  assumes "margo_ok segs R" "concat (segs a bulk (w_mem w)) = pre @ x @ post" "fits (pre @ x @ post)"
    and "unat loff + length x \<le> length (yb_data b)"
  shows "pull R a bulk (usize pre) loff (usize x) b w err k
    = k (b\<lparr> yb_data := take (unat loff) (yb_data b) @ x @ drop (unat loff + length x) (yb_data b) \<rparr>)"
  using margo_okD(1) [OF assms(1), of "usize pre" "usize x" a bulk "w_mem w" loff "yb_data b"] assms(2-4)
  by (simp add: pull_def unat_usize)

lemma push_at:
  assumes "margo_ok segs R" "concat (segs a bulk (w_mem w)) = pre @ x @ post" "fits (pre @ x @ post)"
    and "yb_data b = dpre @ y @ dpost" "length y = length x" "fits (yb_data b)"
  obtains m where "push R a bulk (usize pre) (usize dpre) (usize x) b w err k = k (w\<lparr> w_mem := m \<rparr>)"
    "map length (segs a bulk m) = map length (segs a bulk (w_mem w))"
    "concat (segs a bulk m) = pre @ y @ post"
proof -
  have "unat (usize pre) = length pre" "unat (usize x) = length x" "unat (usize dpre) = length dpre"
    using assms(3,4,6) by (simp_all add: unat_usize)
  then show thesis
    using margo_okD(2) [OF assms(1), of "usize pre" "usize x" a bulk "w_mem w" "usize dpre" "yb_data b"]
      assms(2,4,5) that by (auto simp: push_def)
qed

lemma ipush_at:
  assumes "margo_ok segs R" "concat (segs a bulk m) = pre @ x @ post" "fits (pre @ x @ post)"
    and "d = dpre @ y @ dpost" "length y = length x" "fits d"
  obtains m' where
    "rpc_ipush R a bulk (usize pre) (usize dpre) (usize x) d m = (HG_SUCCESS, HG_SUCCESS, m')"
    "map length (segs a bulk m') = map length (segs a bulk m)"
    "concat (segs a bulk m') = pre @ y @ post"
proof -
  have "unat (usize pre) = length pre" "unat (usize x) = length x" "unat (usize dpre) = length dpre"
    using assms(3,4,6) by (simp_all add: unat_usize)
  then show thesis
    using margo_okD(2) [OF assms(1), of "usize pre" "usize x" a bulk m "usize dpre" d]
      assms(2,4,5) that by auto
qed

section \<open>put\<close>

lemma put_work_law:
  assumes R: "margo_ok segs R"
    and region: "concat (segs a (bi_bulk inp) (w_mem w)) = pre @ req @ post" "fits (pre @ req @ post)"
    and req: "req = enc_list ksizes @ enc_list vsizes @ kdata @ vdata" "length vsizes = length ksizes"
    and inp: "bi_count inp = usize ksizes" "bi_offset inp = usize pre" "bi_size inp = usize req"
    and sizes: "accumulate ksizes = usize kdata" "accumulate vsizes = usize vdata" "0 \<notin> set ksizes"
    and room: "length req \<le> length (yb_data b)" "fits (yb_data b)"
  shows "put_work R D inp a db b w
    = obind (o_put D (bi_mode inp) \<lparr> um_addr = yb_addr b + usize ksizes * 16, um_data = kdata \<rparr> ksizes
               vdata vsizes db) (\<lambda>(st, db').
        Done (status_ret st, b\<lparr> yb_data := req @ drop (length req) (yb_data b) \<rparr>, w\<lparr> w_db := Some db' \<rparr>))"
proof -
  define rest where "rest = drop (length req) (yb_data b)"
  have fit: "fits (req @ rest)" using room by (simp add: rest_def)
  have k: "read_sizes (req @ rest) 0 (usize ksizes) = Done ksizes"
    using read_sizes_at [of "[]" ksizes "enc_list vsizes @ kdata @ vdata @ rest"] fit req(1) by simp
  have n: "usize vsizes = usize ksizes" using req(2) by (simp add: usize_def)
  have v: "read_sizes (req @ rest) (usize ksizes * 8) (usize ksizes) = Done vsizes"
    using read_sizes_at [of "enc_list ksizes" vsizes "kdata @ vdata @ rest"] fit req(1) n
    by (simp add: usize_enc_list)
  define hdr where "hdr = enc_list ksizes @ enc_list vsizes"
  have hdr: "2 * usize ksizes * 8 = usize hdr" by (simp add: hdr_def usize_append usize_enc_list n)
  have whole: "req @ rest = hdr @ kdata @ vdata @ rest" by (simp add: req(1) hdr_def)
  have um: "buf_umem (b\<lparr> yb_data := req @ rest \<rparr>) (usize hdr) (usize kdata)
      = Done \<lparr> um_addr = yb_addr b + usize hdr, um_data = kdata \<rparr>"
    using sub_umem_append [of hdr kdata "vdata @ rest"] fit whole by (simp add: buf_umem_def)
  have vals: "sub_bytes (req @ rest) (usize hdr + usize kdata) (usize vdata) = Done vdata"
    using sub_bytes_append [of "hdr @ kdata" vdata rest] fit whole by (simp add: usize_append)
  have total: "usize req = usize hdr + usize kdata + usize vdata"
    by (simp add: req(1) hdr_def usize_append add.assoc)
  have p: "pull R a (bi_bulk inp) (bi_offset inp) 0 (usize req) b w err k
      = k (b\<lparr> yb_data := req @ rest \<rparr>)" for err k
    using pull_at [OF R region, of 0 b] room(1) inp(2,3) by (simp add: rest_def)
  have addr: "usize hdr = usize ksizes * 16" by (simp flip: hdr)
  have "\<not> usize req < 2 * usize ksizes * 8 + usize kdata + usize vdata" by (simp add: total hdr)
  then show ?thesis
    using k v um vals inp(1,3) sizes
    unfolding rest_def [symmetric]
    by (simp add: put_work_def Let_def p min_size_0 hdr addr outcome_simps)
qed

section \<open>get\<close>

text \<open>
  What arrives in the caller's value buffer: nothing when no byte was written, the one value of a
  single key, else the whole area of the server's buffer.
\<close>

definition delivered :: "get_out \<Rightarrow> bytes \<Rightarrow> size_t \<Rightarrow> bytes" where
  "delivered out vbuf n =
     (if g_size out = 0 then vbuf
      else if n = 1 then take (unat (g_vsizes out ! 0)) (g_vals out) @ drop (unat (g_vsizes out ! 0)) vbuf
      else g_vals out)"

text \<open>One key alone, without \<open>packed\<close>, and no value: the sentinel is taken for the size to push.\<close>

definition overrun :: "get_out \<Rightarrow> nat \<Rightarrow> size_t \<Rightarrow> bool" where
  "overrun out room n \<longleftrightarrow> g_size out \<noteq> 0 \<and> n = 1 \<and> room < unat (g_vsizes out ! 0)"

lemma delivered_length:
  "length (g_vals out) = length vbuf \<Longrightarrow> length (delivered out vbuf n) = length vbuf"
  by (auto simp: delivered_def min_def)

lemma get_push_law:
  assumes R: "margo_ok segs R"
    and region: "concat (segs a (bi_bulk inp) (w_mem w)) = hdr @ ss @ kdata @ vbuf"
      "fits (hdr @ ss @ kdata @ vbuf)"
    and buf: "yb_data b = hdr @ enc_list (g_vsizes out) @ kdata @ g_vals out @ rest" "fits (yb_data b)"
    and len: "length ss = length hdr" "length (enc_list (g_vsizes out)) = length hdr"
      "length (g_vals out) = length vbuf" "usize hdr = bi_count inp * 8"
    and inp: "bi_offset inp = 0"
  obtains m where "get_push R inp a (usize (hdr @ ss @ kdata)) (usize vbuf) out b w
      = Done (if overrun out (length vbuf) (bi_count inp) then YOKAN_ERR_FROM_MERCURY
              else YOKAN_SUCCESS, b, w\<lparr> w_mem := m \<rparr>)"
    "map length (segs a (bi_bulk inp) m) = map length (segs a (bi_bulk inp) (w_mem w))"
    "concat (segs a (bi_bulk inp) m)
      = (if overrun out (length vbuf) (bi_count inp) then hdr @ ss @ kdata @ vbuf
         else hdr @ enc_list (g_vsizes out) @ kdata @ delivered out vbuf (bi_count inp))"
proof -
  let ?bulk = "bi_bulk inp" and ?n = "bi_count inp"
  define vs where "vs = enc_list (g_vsizes out)"
  note buf = buf [folded vs_def] and len = len [folded vs_def]
  have usize_ss: "usize ss = ?n * 8" "usize hdr = ?n * 8"
    using len by (simp_all add: usize_def)
  have sizes: "\<exists>m. push R a ?bulk (bi_offset inp + ?n * 8) (?n * 8) (?n * 8) b w' id k = k (w'\<lparr> w_mem := m \<rparr>)
      \<and> map length (segs a ?bulk m) = map length (segs a ?bulk (w_mem w'))
      \<and> concat (segs a ?bulk m) = hdr @ vs @ kdata @ v"
    if at: "concat (segs a ?bulk (w_mem w')) = hdr @ ss @ kdata @ v" "length v = length vbuf"
    for w' v k
  proof -
    obtain m where m: "push R a ?bulk (usize hdr) (usize hdr) (usize ss) b w' id k = k (w'\<lparr> w_mem := m \<rparr>)"
      "map length (segs a ?bulk m) = map length (segs a ?bulk (w_mem w'))"
      "concat (segs a ?bulk m) = hdr @ vs @ kdata @ v"
      by (rule push_at [OF R, of a ?bulk w' hdr ss "kdata @ v" b hdr vs "kdata @ g_vals out @ rest"])
        (use at region(2) buf len in simp_all)
    show ?thesis by (rule exI [of _ m]) (use m inp(1) usize_ss in simp)
  qed
  show thesis
  proof (cases "g_size out = 0")
    case True
    then show thesis
      using sizes [OF region(1) refl, of "\<lambda>w. Done (YOKAN_SUCCESS, b, w)"] that
      by (auto simp: get_push_def vs_def delivered_def overrun_def)
  next
    case False
    show thesis
    proof (cases "overrun out (length vbuf) ?n")
      case True
      have "\<not> unat (usize (hdr @ ss @ kdata)) + unat (g_vsizes out ! 0) \<le> length (hdr @ ss @ kdata @ vbuf)"
        using True region(2) by (simp add: overrun_def unat_usize)
      then have "rpc_ipush R a ?bulk (usize (hdr @ ss @ kdata)) (usize (hdr @ ss @ kdata)) (g_vsizes out ! 0)
          (yb_data b) (w_mem w) = (HG_FAILURE, HG_FAILURE, w_mem w)"
        using margo_okD(3) [OF R, of "usize (hdr @ ss @ kdata)" "g_vsizes out ! 0" a ?bulk "w_mem w"] region(1)
        by simp
      then show thesis
        using that [of "w_mem w"] True False region(1) inp(1) by (simp add: get_push_def overrun_def)
    next
    case fit: False
    define x where "x = (if ?n = 1 then g_vsizes out ! 0 else usize vbuf)"
    have xle: "unat x \<le> length vbuf" using fit False region(2) by (auto simp: x_def unat_usize overrun_def)
    define v where "v = take (unat x) (g_vals out) @ drop (unat x) vbuf"
    have ux: "usize (take (unat x) vbuf) = x" using xle by (simp add: usize_def)
    have off: "usize (hdr @ ss @ kdata) = usize (hdr @ vs @ kdata)"
      using len by (simp add: usize_def)
    obtain m where m: "rpc_ipush R a ?bulk (usize (hdr @ ss @ kdata)) (usize (hdr @ ss @ kdata)) x
          (yb_data b) (w_mem w) = (HG_SUCCESS, HG_SUCCESS, m)"
      "map length (segs a ?bulk m) = map length (segs a ?bulk (w_mem w))"
      "concat (segs a ?bulk m) = hdr @ ss @ kdata @ v"
      using ipush_at [OF R, of a ?bulk "w_mem w" "hdr @ ss @ kdata" "take (unat x) vbuf"
          "drop (unat x) vbuf" "yb_data b" "hdr @ vs @ kdata" "take (unat x) (g_vals out)"
          "drop (unat x) (g_vals out) @ rest"] region buf len xle ux off by (auto simp: v_def)
    have "length v = length vbuf" using xle len(3) by (simp add: v_def)
    moreover have "v = delivered out vbuf ?n"
      using False len(3) region(2) by (simp add: delivered_def v_def x_def unat_usize)
    ultimately show thesis
      using sizes [of "w\<lparr> w_mem := m \<rparr>" v] m False fit that inp(1)
      by (fastforce simp: get_push_def Let_def vs_def x_def)
    qed
  qed
qed

text \<open>The bytes that an earlier user of the buffer left where the values go.\<close>

definition stale :: "yk_buffer \<Rightarrow> nat \<Rightarrow> nat \<Rightarrow> bytes" where
  "stale b off n = take n (drop off (yb_data b))"

lemma split_at: "n \<le> length d \<Longrightarrow> d = take n d @ drop n d"
  by simp

lemma min_size_ok: "0 \<notin> set ns \<Longrightarrow> min_size ns \<noteq> 0"
  by (simp add: min_size_0)

lemma dec_list_take: "dec_list n (take (8 * n) d) = dec_list n d"
  by (induction n arbitrary: d) (simp_all add: drop_take)

text \<open>What the handler has in its buffer when it calls the database.\<close>

lemma get_values_law:
  assumes R: "margo_ok segs R"
    and region: "concat (segs a (bi_bulk inp) (w_mem w)) = enc_list ksizes @ se @ kdata @ vbuf"
      "fits (enc_list ksizes @ se @ kdata @ vbuf)"
    and inp: "bi_count inp = usize ksizes" "bi_offset inp = 0"
      "bi_size inp = usize (enc_list ksizes @ se @ kdata @ vbuf)"
    and len: "length se = 8 * length ksizes" "accumulate ksizes = usize kdata"
    and buf: "yb_data b = enc_list ksizes @ st @ rest" "length st = length se"
      "length kdata + length vbuf \<le> length rest" "fits (yb_data b)"
  defines "v0 \<equiv> take (length vbuf) (drop (length kdata) rest)"
  assumes get: "o_get D (bi_mode inp) (gi_packed inp) \<lparr> um_addr = yb_addr b + 16 * usize ksizes,
        um_data = kdata \<rparr> ksizes v0 vsizes db = Done (OK, out, db')"
      "length (g_vsizes out) = length ksizes" "length (g_vals out) = length vbuf"
  obtains m d where "get_values R D inp a ksizes vsizes db b w
      = Done (if overrun out (length vbuf) (bi_count inp) then YOKAN_ERR_FROM_MERCURY else YOKAN_SUCCESS,
              b\<lparr> yb_data := d \<rparr>, w\<lparr> w_db := Some db', w_mem := m \<rparr>)"
    "length d = length (yb_data b)"
    "map length (segs a (bi_bulk inp) m) = map length (segs a (bi_bulk inp) (w_mem w))"
    "concat (segs a (bi_bulk inp) m)
      = (if overrun out (length vbuf) (bi_count inp) then enc_list ksizes @ se @ kdata @ vbuf
         else enc_list ksizes @ enc_list (g_vsizes out) @ kdata @ delivered out vbuf (bi_count inp))"
proof -
  let ?ke = "enc_list ksizes" and ?ve = "enc_list (g_vsizes out)"
  define tl where "tl = drop (length kdata + length vbuf) rest"
  have lv0: "length v0 = length vbuf" using buf(3) by (simp add: v0_def)
  have rest: "rest = take (length kdata) rest @ v0 @ tl"
    unfolding v0_def tl_def by (metis add.commute append_take_drop_id drop_drop)
  have fit: "fits (?ke @ st @ kdata @ v0 @ tl)"
    using buf lv0 by (subst (asm) rest) (simp add: tl_def)
  have ko: "usize (?ke @ se) = 16 * usize ksizes" "usize (?ke @ st) = 16 * usize ksizes"
    "usize (?ke @ ?ve) = 16 * usize ksizes" "usize ?ke = usize ksizes * 8"
    using len(1) buf(2) get(2) by (simp_all add: usize_def)
  have vo: "usize (?ke @ se @ kdata) = 16 * usize ksizes + usize kdata"
    "usize (?ke @ st @ kdata) = 16 * usize ksizes + usize kdata"
    "usize (?ke @ ?ve @ kdata) = 16 * usize ksizes + usize kdata"
    using ko(1-3) by (metis append.assoc usize_append)+
  have room: "bi_size inp - (16 * usize ksizes + usize kdata) = usize vbuf"
  proof -
    have "bi_size inp = usize (?ke @ se @ kdata) + usize vbuf" using inp(3) by (simp add: usize_append add.assoc)
    then show ?thesis unfolding vo(1) by simp
  qed
  have pulled: "pull R a (bi_bulk inp) (bi_offset inp + 16 * usize ksizes) (16 * usize ksizes)
      (usize kdata) b w id k = k (b\<lparr> yb_data := ?ke @ st @ kdata @ v0 @ tl \<rparr>)" for k
  proof -
    have "unat (16 * usize ksizes) = length ?ke + length st"
      using buf fit by (subst ko(2) [symmetric]) (simp add: unat_usize)
    moreover have "drop (length ?ke + length st + length kdata) (yb_data b) = v0 @ tl"
      unfolding buf(1) by (subst rest) (use buf(3) in simp)
    ultimately show ?thesis
      using pull_at [OF R, of a "bi_bulk inp" w "?ke @ se" kdata vbuf "16 * usize ksizes" b] region
        buf(1,3) ko(1) inp(2) by simp
  qed
  have keys: "buf_umem (b\<lparr> yb_data := ?ke @ st @ kdata @ v0 @ tl \<rparr>) (16 * usize ksizes) (usize kdata)
      = Done \<lparr> um_addr = yb_addr b + 16 * usize ksizes, um_data = kdata \<rparr>"
    using sub_umem_append [of "?ke @ st" kdata "v0 @ tl"] fit ko(2) by (simp add: buf_umem_def)
  have vals: "sub_bytes (?ke @ st @ kdata @ v0 @ tl) (16 * usize ksizes + usize kdata) (usize vbuf) = Done v0"
    using sub_bytes_append [of "?ke @ st @ kdata" v0 tl] fit vo(2) lv0 by (simp add: usize_def)
  have s1: "memcpy_to (?ke @ st @ kdata @ v0 @ tl) (usize ksizes * 8) ?ve = Done (?ke @ ?ve @ kdata @ v0 @ tl)"
    using memcpy_to_append [of ?ke st "kdata @ v0 @ tl" ?ve] fit ko(4) get(2) len(1) buf(2) by simp
  have s2: "memcpy_to (?ke @ ?ve @ kdata @ v0 @ tl) (16 * usize ksizes + usize kdata) (g_vals out)
      = Done (?ke @ ?ve @ kdata @ g_vals out @ tl)"
    using memcpy_to_append [of "?ke @ ?ve @ kdata" v0 tl "g_vals out"] fit vo(3) lv0 get(2,3) len(1) buf(2)
    by simp
  define b' where "b' = b\<lparr> yb_data := ?ke @ ?ve @ kdata @ g_vals out @ tl \<rparr>"
  have run: "get_values R D inp a ksizes vsizes db b w
      = get_push R inp a (usize (?ke @ se @ kdata)) (usize vbuf) out b' (w\<lparr> w_db := Some db' \<rparr>)"
    unfolding vo(1) using get(1) inp(1) len(2) room
    by (simp add: get_values_def Let_def pulled keys vals s1 s2 buf_store_def b'_def outcome_simps)
  obtain m where m: "get_push R inp a (usize (?ke @ se @ kdata)) (usize vbuf) out b' (w\<lparr> w_db := Some db' \<rparr>)
      = Done (if overrun out (length vbuf) (bi_count inp) then YOKAN_ERR_FROM_MERCURY else YOKAN_SUCCESS,
              b', w\<lparr> w_db := Some db', w_mem := m \<rparr>)"
    "map length (segs a (bi_bulk inp) m) = map length (segs a (bi_bulk inp) (w_mem w))"
    "concat (segs a (bi_bulk inp) m)
      = (if overrun out (length vbuf) (bi_count inp) then ?ke @ se @ kdata @ vbuf
         else ?ke @ ?ve @ kdata @ delivered out vbuf (bi_count inp))"
    by (rule get_push_law [OF R, of a inp "w\<lparr> w_db := Some db' \<rparr>" ?ke se kdata vbuf b' out tl])
      (use region get fit lv0 len buf ko inp(1,2) in \<open>simp_all add: b'_def\<close>)
  show thesis
    by (rule that [of "?ke @ ?ve @ kdata @ g_vals out @ tl" m])
      (use run m get(2,3) len(1) buf in \<open>simp_all add: b'_def tl_def\<close>)
qed

text \<open>
  A get hands the database the keys, the sizes (the caller's, or with \<open>packed\<close> whatever the buffer
  held) and a value buffer with stale content, and delivers what the database wrote.
\<close>

lemma get_work_law:
  assumes R: "margo_ok segs R"
    and region: "concat (segs a (bi_bulk inp) (w_mem w)) = enc_list ksizes @ enc_list vs0 @ kdata @ vbuf"
      "fits (enc_list ksizes @ enc_list vs0 @ kdata @ vbuf)"
    and inp: "bi_count inp = usize ksizes" "bi_offset inp = 0"
      "bi_size inp = usize (enc_list ksizes @ enc_list vs0 @ kdata @ vbuf)"
    and len: "length vs0 = length ksizes" "accumulate ksizes = usize kdata" "0 \<notin> set ksizes"
      "\<not> gi_packed inp \<Longrightarrow> accumulate vs0 = usize vbuf"
    and room: "16 * length ksizes + length kdata + length vbuf \<le> length (yb_data b)" "fits (yb_data b)"
  defines "v0 \<equiv> stale b (16 * length ksizes + length kdata) (length vbuf)"
    and "vsizes \<equiv> (if gi_packed inp then dec_list (length ksizes) (drop (8 * length ksizes) (yb_data b))
                   else vs0)"
  assumes get: "o_get D (bi_mode inp) (gi_packed inp) \<lparr> um_addr = yb_addr b + 16 * usize ksizes,
        um_data = kdata \<rparr> ksizes v0 vsizes db = Done (OK, out, db')"
      "length (g_vsizes out) = length ksizes" "length (g_vals out) = length vbuf"
  obtains m d where "get_work R D inp a db b w
      = Done (if overrun out (length vbuf) (bi_count inp) then YOKAN_ERR_FROM_MERCURY else YOKAN_SUCCESS,
              b\<lparr> yb_data := d \<rparr>, w\<lparr> w_db := Some db', w_mem := m \<rparr>)"
    "length d = length (yb_data b)"
    "map length (segs a (bi_bulk inp) m) = map length (segs a (bi_bulk inp) (w_mem w))"
    "concat (segs a (bi_bulk inp) m)
      = (if overrun out (length vbuf) (bi_count inp) then enc_list ksizes @ enc_list vs0 @ kdata @ vbuf
         else enc_list ksizes @ enc_list (g_vsizes out) @ kdata @ delivered out vbuf (bi_count inp))"
proof -
  let ?ke = "enc_list ksizes" and ?se = "enc_list vs0" and ?n = "length ksizes"
  define st where "st = (if gi_packed inp then take (8 * ?n) (drop (8 * ?n) (yb_data b)) else ?se)"
  define rest where "rest = drop (16 * ?n) (yb_data b)"
  define d1 where "d1 = ?ke @ st @ rest"
  define xn where "xn = (if gi_packed inp then usize ksizes * 8 else usize ksizes * 8 * 2)"
  have lst: "length st = 8 * ?n" using room len(1) by (simp add: st_def)
  have ld1: "length d1 = length (yb_data b)" using lst room by (simp add: d1_def rest_def)
  have stale_st: "take (8 * ?n) (drop (8 * ?n) (yb_data b)) @ rest = drop (8 * ?n) (yb_data b)"
  proof -
    have "rest = drop (8 * ?n) (drop (8 * ?n) (yb_data b))" by (simp add: rest_def)
    then show ?thesis by (simp only: append_take_drop_id)
  qed
  have pulled: "pull R a (bi_bulk inp) (bi_offset inp) 0 xn b w id k = k (b\<lparr> yb_data := d1 \<rparr>)" for k
  proof (cases "gi_packed inp")
    case True
    have "xn = usize ?ke" using True by (simp add: xn_def usize_enc_list)
    then show ?thesis
      using pull_at [OF R, of a "bi_bulk inp" w "[]" ?ke "?se @ kdata @ vbuf" 0 b] region room inp(2) True
        stale_st by (simp add: d1_def st_def)
  next
    case False
    have "xn = usize (?ke @ ?se)" using False len(1) by (simp add: xn_def usize_def)
    then show ?thesis
      using pull_at [OF R, of a "bi_bulk inp" w "[]" "?ke @ ?se" "kdata @ vbuf" 0 b] region room inp(2) False
        len(1) by (simp add: d1_def st_def rest_def)
  qed
  have fit: "fits d1" using ld1 room(2) by simp
  have k: "read_sizes d1 0 (usize ksizes) = Done ksizes"
    using read_sizes_at [of "[]" ksizes "st @ rest"] fit by (simp add: d1_def)
  have v: "read_sizes d1 (usize ksizes * 8) (usize ksizes) = Done vsizes"
  proof (cases "gi_packed inp")
    case True
    have "unat (usize ksizes * 8) = 8 * ?n" "unat (usize ksizes) = ?n"
      using fit unfolding usize_enc_list [symmetric] by (simp_all add: d1_def unat_usize)
    moreover have "drop (8 * ?n) d1 = drop (8 * ?n) (yb_data b)"
      using True stale_st by (simp add: d1_def st_def)
    ultimately show ?thesis
      using True ld1 room(1) by (simp add: read_sizes_def vsizes_def)
  next
    case False
    have "usize vs0 = usize ksizes" using len(1) by (simp add: usize_def)
    then show ?thesis
      using read_sizes_at [of ?ke vs0 rest] fit False by (simp add: d1_def st_def vsizes_def usize_enc_list)
  qed
  have off: "16 * usize ksizes + usize kdata = usize (?ke @ ?se @ kdata)"
    using len(1) by (simp add: usize_def)
  have total: "bi_size inp = usize (?ke @ ?se @ kdata) + usize vbuf"
    using inp(3) by (simp add: usize_append add.assoc)
  have ge: "\<not> bi_size inp < usize (?ke @ ?se @ kdata)"
    using view_inside [of "[]" "?ke @ ?se @ kdata" vbuf] region(2) inp(3) by (simp add: usize_def)
  have run: "get_work R D inp a db b w = get_values R D inp a ksizes vsizes db (b\<lparr> yb_data := d1 \<rparr>) w"
    using inp(1) len ge total k v min_size_ok [OF len(3)] off
    by (simp add: get_work_def Let_def pulled [unfolded xn_def] vsizes_def outcome_simps)
  have v0: "v0 = take (length vbuf) (drop (length kdata) rest)"
    by (simp add: v0_def stale_def rest_def add.commute)
  obtain m d where "get_values R D inp a ksizes vsizes db (b\<lparr> yb_data := d1 \<rparr>) w
      = Done (if overrun out (length vbuf) (bi_count inp) then YOKAN_ERR_FROM_MERCURY else YOKAN_SUCCESS,
              b\<lparr> yb_data := d1, yb_data := d \<rparr>, w\<lparr> w_db := Some db', w_mem := m \<rparr>)"
    "length d = length d1" "map length (segs a (bi_bulk inp) m) = map length (segs a (bi_bulk inp) (w_mem w))"
    "concat (segs a (bi_bulk inp) m)
      = (if overrun out (length vbuf) (bi_count inp) then ?ke @ ?se @ kdata @ vbuf
         else ?ke @ enc_list (g_vsizes out) @ kdata @ delivered out vbuf (bi_count inp))"
    by (rule get_values_law [OF R, of a inp w ksizes ?se kdata vbuf "b\<lparr> yb_data := d1 \<rparr>" st rest D vsizes
          db out db'])
      (use region inp len lst room get fit v0 in \<open>simp_all add: d1_def rest_def\<close>)
  then show thesis using that run ld1 by simp
qed

section \<open>A client connected to a provider\<close>

text \<open>An RPC that reaches the handler, and whose answer reaches the client.\<close>

definition channel_to :: "('i \<Rightarrow> 'w \<Rightarrow> ('o \<times> 'w) outcome) \<Rightarrow> ('i, 'o, 'w) channel" where
  "channel_to h = \<lparr> ch_create = HG_SUCCESS,
     ch_forward = (\<lambda>inp w. obind (h inp w) (\<lambda>(out, w'). Done (HG_SUCCESS, Some out, w'))),
     ch_free = HG_SUCCESS \<rparr>"

text \<open>A direct handler in the provider's world.\<close>

definition on_db :: "('s option \<Rightarrow> ('o \<times> 's option) outcome) \<Rightarrow> ('s, 'c, 'm) world
    \<Rightarrow> ('o \<times> ('s, 'c, 'm) world) outcome" where
  "on_db h w = obind (h (w_db w)) (\<lambda>(out, db). Done (out, w\<lparr> w_db := db \<rparr>))"

text \<open>The provider exists, and the caller has the address \<open>a\<close>.\<close>

definition reaches :: "('i, 'b, 'm) rpc \<Rightarrow> addr \<Rightarrow> bool" where
  "reaches R a \<longleftrightarrow> rpc_instance R \<and> rpc_provider R \<and> rpc_dup R = Some a"

text \<open>Non-empty buffers of the client at \<open>a\<close> can be exposed.\<close>

definition bulk_ok :: "(addr \<Rightarrow> 'b \<Rightarrow> 'm \<Rightarrow> bytes list) \<Rightarrow> addr \<Rightarrow> ('b, 'm) bulk_api \<Rightarrow> bool" where
  "bulk_ok segs a B \<longleftrightarrow>
     (\<forall>access xs m. [] \<notin> set xs \<longrightarrow>
        (\<exists>bulk m'. ba_create B access xs m = Some (bulk, m') \<and> segs a bulk m' = xs))
     \<and> (\<forall>bulk m. ba_segments B bulk m = segs a bulk m)"

lemma bulk_okD:
  assumes "bulk_ok segs a B" "[] \<notin> set xs"
  obtains bulk m' where "ba_create B access xs m = Some (bulk, m')" "segs a bulk m' = xs"
    "\<And>m. ba_segments B bulk m = segs a bulk m"
  using assms unfolding bulk_ok_def by blast

lemma simple_rpc_to:
  "mode_valid mode \<Longrightarrow> simple_rpc (channel_to h) mode inp w = h inp w"
  by (cases "h inp w")
    (auto simp: simple_rpc_def call_rpc_def channel_to_def freed_def outcome_simps)

lemma margo_ok_input [simp]: "margo_ok segs (R\<lparr> rpc_input := i \<rparr>) = margo_ok segs R"
  by (simp add: margo_ok_def)

lemma reaches_input [simp]: "reaches (R\<lparr> rpc_input := i \<rparr>) a = reaches R a"
  by (simp add: reaches_def)

context buffer_pool begin

text \<open>A bulk handler either has no buffer, or does its work with one that is large enough.\<close>

lemma bulk_op_runs:
  assumes "inv lent (w_cache w)" "reaches R a" "rpc_input R = Some inp" "origin_of inp = None"
    and "w_db w = Some db" "o_supports D (mode_of inp)"
  obtains (alloc) c where "inv lent c" "get (size_of inp) access (w_cache w) = (None, c)"
      "bulk_op R (pool_ops get release) D origin_of mode_of size_of access err work w
        = Done (err YOKAN_ERR_ALLOCATION, w\<lparr> w_cache := c \<rparr>)"
    | (works) b c where "buffer_ok b" "size_of inp \<le> yb_size b"
      "get (size_of inp) access (w_cache w) = (Some b, c)"
      "bulk_op R (pool_ops get release) D origin_of mode_of size_of access err work w
        = obind (work inp a db b (w\<lparr> w_cache := c \<rparr>)) (\<lambda>(r, b', w').
            Done (r, w'\<lparr> w_cache := release b' (w_cache w') \<rparr>))"
proof -
  obtain r c where g: "get (size_of inp) access (w_cache w) = (r, c)" by force
  have run: "bulk_op R (pool_ops get release) D origin_of mode_of size_of access err work w
      = with_buffer (pool_ops get release) (size_of inp) access w (work inp a db) err"
    using assms(2-6)
    by (simp add: bulk_op_def handler_input_def resolve_origin_def check_database_def reaches_def)
  show thesis
  proof (cases r)
    case None
    then show thesis
      using alloc [of c] g run get_none [OF assms(1)] by (simp add: with_buffer_def pool_ops_def)
  next
    case (Some b)
    then show thesis
      using works [of b c] g run get_some [OF assms(1)] by (simp add: with_buffer_def pool_ops_def)
  qed
qed

text \<open>A put over RDMA calls the database once with the client's pairs, whatever pool serves it.\<close>

lemma put_rdma_law:
  assumes inv: "inv {} (w_cache w)" and R: "margo_ok segs R" "reaches R a" and B: "bulk_ok segs a B"
    and db: "w_db w = Some db" "o_supports D mode" "mode_valid mode"
    and segs: "[] \<notin> set xs" "concat xs = req" "fits req"
    and req: "req = enc_list (map usize ks) @ enc_list (map usize vs) @ concat ks @ concat vs"
    and ks: "ks \<noteq> []" "\<forall>k \<in> set ks. usize k \<noteq> 0" "length ks = length vs"
    and put: "\<And>x. \<exists>st db'. o_put D mode \<lparr> um_addr = x, um_data = concat ks \<rparr> (map usize ks)
                 (concat vs) (map usize vs) db = Done (st, db') \<and> Q st db'"
  defines "C \<equiv> channel_to (\<lambda>inp. yk_put_ult (R\<lparr> rpc_input := Some inp \<rparr>) (pool_ops get release) D)"
  shows "\<exists>ret w'. without_segs (with_bulk B access xs w
        (\<lambda>bulk. yk_put_bulk C mode (usize ks) None bulk 0 (usize req))) = Done (ret, w')
    \<and> inv {} (w_cache w')
    \<and> (ret = YOKAN_ERR_ALLOCATION \<and> fst (get (usize req) HG_BULK_READWRITE (w_cache w)) = None
         \<and> w_db w' = Some db
       \<or> (\<exists>st db'. ret = status_ret st \<and> w_db w' = Some db' \<and> Q st db'))"
proof -
  obtain bulk m where b: "ba_create B access xs (w_mem w) = Some (bulk, m)" "segs a bulk m = xs"
    using bulk_okD [OF B segs(1)] by blast
  define inp where "inp = \<lparr> bi_mode = mode, bi_count = usize ks, bi_offset = 0, bi_size = usize req,
    bi_origin = None, bi_bulk = bulk \<rparr>"
  define Ri where "Ri = R\<lparr> rpc_input := Some inp \<rparr>"
  define w1 where "w1 = w\<lparr> w_mem := m \<rparr>"
  define P where "P = pool_ops get release"
  have nonzero: "req \<noteq> []" using req ks(1) by (cases ks) auto
  then have size0: "usize req \<noteq> 0" using segs(3) by (metis length_0_conv unat_0 unat_usize)
  have call: "without_segs (with_bulk B access xs w
        (\<lambda>bulk. yk_put_bulk C mode (usize ks) None bulk 0 (usize req))) = yk_put_ult Ri P D w1"
    using b size0 db(3) simple_rpc_to [OF db(3), of _ inp w1]
    by (cases "yk_put_ult Ri P D w1")
      (auto simp: with_bulk_def without_segs_def yk_put_bulk_def C_def Ri_def P_def w1_def inp_def outcome_simps)
  have Ri: "margo_ok segs Ri" "reaches Ri a" "rpc_input Ri = Some inp" using R by (simp_all add: Ri_def)
  have w1: "inv {} (w_cache w1)" "w_db w1 = Some db" using inv db(1) by (simp_all add: w1_def)
  have inp: "bi_origin inp = None" "o_supports D (bi_mode inp)" using db(2) by (simp_all add: inp_def)
  consider (alloc) c where "inv {} c" "get (bi_size inp) HG_BULK_READWRITE (w_cache w1) = (None, c)"
      "yk_put_ult Ri P D w1 = Done (YOKAN_ERR_ALLOCATION, w1\<lparr> w_cache := c \<rparr>)"
    | (works) b c where "buffer_ok b" "bi_size inp \<le> yb_size b"
      "get (bi_size inp) HG_BULK_READWRITE (w_cache w1) = (Some b, c)"
      "yk_put_ult Ri P D w1 = obind (put_work Ri D inp a db b (w1\<lparr> w_cache := c \<rparr>))
         (\<lambda>(r, b', w'). Done (r, w'\<lparr> w_cache := release b' (w_cache w') \<rparr>))"
    using bulk_op_runs [OF w1(1) Ri(2,3), of bi_origin db D bi_mode bi_size HG_BULK_READWRITE id
        "put_work Ri D"] inp w1(2) by (auto simp: yk_put_ult_def P_def)
  then show ?thesis
  proof cases
    case alloc
    then show ?thesis using call w1(2) by (auto simp: inp_def w1_def)
  next
    case (works b c)
    obtain st db' where put': "o_put D mode \<lparr> um_addr = yb_addr b + usize ks * 16, um_data = concat ks \<rparr>
        (map usize ks) (concat vs) (map usize vs) db = Done (st, db')" "Q st db'" using put by blast
    have room: "length req \<le> length (yb_data b)" "fits (yb_data b)"
      using works(1,2) segs(3) unsigned_less [of "yb_size b", where ?'a = nat]
      by (simp_all add: buffer_ok_def inp_def word_le_nat_alt unat_usize)
    have law: "put_work Ri D inp a db b (w1\<lparr> w_cache := c \<rparr>)
        = obind (o_put D (bi_mode inp) \<lparr> um_addr = yb_addr b + usize (map usize ks :: size_t list) * 16,
              um_data = concat ks \<rparr> (map usize ks) (concat vs) (map usize vs) db) (\<lambda>(st, db').
            Done (status_ret st, b\<lparr> yb_data := req @ drop (length req) (yb_data b) \<rparr>,
                  w1\<lparr> w_cache := c, w_db := Some db' \<rparr>))"
      by (rule put_work_law [OF Ri(1), where pre = "[]" and post = "[]"])
        (use b(2) segs req ks room in \<open>auto simp: inp_def w1_def accumulate_usize\<close>)
    have "put_work Ri D inp a db b (w1\<lparr> w_cache := c \<rparr>) = Done (status_ret st,
        b\<lparr> yb_data := req @ drop (length req) (yb_data b) \<rparr>, w1\<lparr> w_cache := c, w_db := Some db' \<rparr>)"
      unfolding law using put'(1) by (simp add: inp_def)
    then have run: "yk_put_ult Ri P D w1 = Done (status_ret st, w1\<lparr> w_cache := release
        (b\<lparr> yb_data := req @ drop (length req) (yb_data b) \<rparr>) c, w_db := Some db' \<rparr>)"
      using works(4) by simp
    have "inv {} (release (b\<lparr> yb_data := req @ drop (length req) (yb_data b) \<rparr>) c)"
      by (rule borrow [OF w1(1) works(3)]) (use room in simp)
    then show ?thesis using call run put'(2) by auto
  qed
qed

text \<open>
  A get over RDMA: the database is called with what the pool's buffer held where the values go, and
  with packed on sizes it held; \<open>buf\<close> is that buffer.
\<close>

lemma get_rdma_law:
  assumes inv: "inv {} (w_cache w)" and R: "margo_ok segs R" "reaches R a" and B: "bulk_ok segs a B"
    and db: "w_db w = Some db" "o_supports D mode" "mode_valid mode"
    and segs: "[] \<notin> set xs" "concat xs = req" "fits req"
    and req: "req = enc_list (map usize ks) @ enc_list vs0 @ concat ks @ vbuf"
    and ks: "ks \<noteq> []" "\<forall>k \<in> set ks. usize k \<noteq> 0" "length vs0 = length ks"
      "\<not> packed \<Longrightarrow> accumulate vs0 = usize vbuf"
    and get: "\<And>x v0 vs1. length v0 = length vbuf \<Longrightarrow> length vs1 = length ks \<Longrightarrow> (\<not> packed \<Longrightarrow> vs1 = vs0)
        \<Longrightarrow> \<exists>out db'. o_get D mode packed \<lparr> um_addr = x, um_data = concat ks \<rparr> (map usize ks) v0 vs1 db
                = Done (OK, out, db') \<and> length (g_vsizes out) = length ks
              \<and> length (g_vals out) = length vbuf
              \<and> Q v0 out db'"
  defines "C \<equiv> channel_to (\<lambda>inp. yk_get_ult (R\<lparr> rpc_input := Some inp \<rparr>) (pool_ops get release) D)"
  shows "\<exists>ret xs' w'. with_bulk B access xs w
        (\<lambda>bulk. yk_get_bulk C mode (usize ks) None bulk 0 (usize req) packed) = Done (ret, xs', w')
    \<and> inv {} (w_cache w') \<and> map length xs' = map length xs
    \<and> (ret = YOKAN_ERR_ALLOCATION \<and> fst (get (usize req) HG_BULK_READWRITE (w_cache w)) = None
         \<and> w_db w' = Some db \<and> xs' = xs
       \<or> (\<exists>buf c out db'. w_db w' = Some db' \<and> buffer_ok buf \<and> usize req \<le> yb_size buf
            \<and> get (usize req) HG_BULK_READWRITE (w_cache w) = (Some buf, c)
            \<and> length (g_vsizes out) = length ks \<and> length (g_vals out) = length vbuf
            \<and> Q (stale buf (16 * length ks + length (concat ks)) (length vbuf)) out db'
            \<and> (if overrun out (length vbuf) (usize ks) then ret = YOKAN_ERR_FROM_MERCURY \<and> concat xs' = req
                else ret = YOKAN_SUCCESS
                  \<and> concat xs' = enc_list (map usize ks) @ enc_list (g_vsizes out) @ concat ks
                      @ delivered out vbuf (usize ks))))"
proof -
  obtain bulk m where b: "ba_create B access xs (w_mem w) = Some (bulk, m)" "segs a bulk m = xs"
    "\<And>m. ba_segments B bulk m = segs a bulk m"
    using bulk_okD [OF B segs(1)] by blast
  define inp where "inp = \<lparr> bi_mode = mode, bi_count = usize ks, bi_offset = 0, bi_size = usize req,
    bi_origin = None, bi_bulk = bulk, gi_packed = packed \<rparr>"
  define Ri where "Ri = R\<lparr> rpc_input := Some inp \<rparr>"
  define w1 where "w1 = w\<lparr> w_mem := m \<rparr>"
  define P where "P = pool_ops get release"
  have nonzero: "req \<noteq> []" using req ks(1) by (cases ks) auto
  then have size0: "usize req \<noteq> 0" using segs(3) by (metis length_0_conv unat_0 unat_usize)
  have call: "with_bulk B access xs w
        (\<lambda>bulk. yk_get_bulk C mode (usize ks) None bulk 0 (usize req) packed)
      = obind (yk_get_ult Ri P D w1) (\<lambda>(ret, w'). Done (ret, segs a bulk (w_mem w'), w'))"
    using b size0 db(3) simple_rpc_to [OF db(3), of _ inp w1]
    by (cases "yk_get_ult Ri P D w1")
      (auto simp: with_bulk_def yk_get_bulk_def C_def Ri_def P_def w1_def inp_def outcome_simps)
  have Ri: "margo_ok segs Ri" "reaches Ri a" "rpc_input Ri = Some inp" using R by (simp_all add: Ri_def)
  have w1: "inv {} (w_cache w1)" "w_db w1 = Some db" "w_mem w1 = m"
    using inv db(1) by (simp_all add: w1_def)
  have inp: "bi_origin inp = None" "o_supports D (bi_mode inp)" using db(2) by (simp_all add: inp_def)
  consider (alloc) c where "inv {} c" "get (bi_size inp) HG_BULK_READWRITE (w_cache w1) = (None, c)"
      "yk_get_ult Ri P D w1 = Done (YOKAN_ERR_ALLOCATION, w1\<lparr> w_cache := c \<rparr>)"
    | (works) b c where "buffer_ok b" "bi_size inp \<le> yb_size b"
      "get (bi_size inp) HG_BULK_READWRITE (w_cache w1) = (Some b, c)"
      "yk_get_ult Ri P D w1 = obind (get_work Ri D inp a db b (w1\<lparr> w_cache := c \<rparr>))
         (\<lambda>(r, b', w'). Done (r, w'\<lparr> w_cache := release b' (w_cache w') \<rparr>))"
    using bulk_op_runs [OF w1(1) Ri(2,3), of bi_origin db D bi_mode bi_size HG_BULK_READWRITE id
        "get_work Ri D"] inp w1(2) by (auto simp: yk_get_ult_def P_def)
  then show ?thesis
  proof cases
    case alloc
    then show ?thesis using call w1(2,3) b(2) by (auto simp: inp_def w1_def)
  next
    case (works buf c)
    have room: "length req \<le> length (yb_data buf)" "fits (yb_data buf)"
      using works(1,2) segs(3) unsigned_less [of "yb_size buf", where ?'a = nat]
      by (simp_all add: buffer_ok_def inp_def word_le_nat_alt unat_usize)
    let ?n = "length (map usize ks :: size_t list)"
    define v0 where "v0 = stale buf (16 * ?n + length (concat ks)) (length vbuf)"
    define vs1 where "vs1 = (if packed then dec_list ?n (drop (8 * ?n) (yb_data buf)) else vs0)"
    have lv0: "length v0 = length vbuf" using room(1) req ks(3) by (simp add: v0_def stale_def)
    have vs1: "length vs1 = length ks" "\<not> packed \<Longrightarrow> vs1 = vs0" using ks(3) by (simp_all add: vs1_def)
    obtain out db' where g: "o_get D mode packed \<lparr> um_addr = yb_addr buf + 16 * usize ks, um_data = concat ks \<rparr>
        (map usize ks) v0 vs1 db = Done (OK, out, db')" "length (g_vsizes out) = length ks"
      "length (g_vals out) = length vbuf" "Q v0 out db'"
      using get [OF lv0 vs1] by blast
    obtain m' d where law: "get_work Ri D inp a db buf (w1\<lparr> w_cache := c \<rparr>)
        = Done (if overrun out (length vbuf) (usize ks) then YOKAN_ERR_FROM_MERCURY else YOKAN_SUCCESS,
                buf\<lparr> yb_data := d \<rparr>, w1\<lparr> w_cache := c, w_db := Some db', w_mem := m' \<rparr>)"
      "length d = length (yb_data buf)" "map length (segs a bulk m') = map length xs"
      "concat (segs a bulk m') = (if overrun out (length vbuf) (usize ks) then req
         else enc_list (map usize ks) @ enc_list (g_vsizes out) @ concat ks
                @ delivered out vbuf (usize ks))"
      by (rule get_work_law [OF Ri(1), of a inp "w1\<lparr> w_cache := c \<rparr>" "map usize ks" vs0 "concat ks" vbuf buf
            D db out db'])
        (use b(2) segs req ks room g in \<open>auto simp: inp_def w1_def accumulate_usize v0_def vs1_def\<close>)
    have "inv {} (release (buf\<lparr> yb_data := d \<rparr>) c)"
      by (rule borrow [OF w1(1) works(3) law(2)])
    moreover have "get (usize req) HG_BULK_READWRITE (w_cache w) = (Some buf, c)" "usize req \<le> yb_size buf"
      using works(2,3) by (simp_all add: inp_def w1_def)
    moreover have "Q (stale buf (16 * length ks + length (concat ks)) (length vbuf)) out db'"
      using g(4) by (simp add: v0_def)
    ultimately show ?thesis using call works(1,4) law g(2,3) by auto
  qed
qed

end

section \<open>What the client exposes\<close>

text \<open>The region of a put: sizes, keys and values back to back.\<close>

definition put_region :: "bytes list \<Rightarrow> bytes list \<Rightarrow> bytes" where
  "put_region ks vs = enc_list (map usize ks) @ enc_list (map usize vs) @ concat ks @ concat vs"

text \<open>The keys a client can pass: none is empty, no more than the loops can count.\<close>

definition client_keys :: "bytes list \<Rightarrow> bool" where
  "client_keys ks \<longleftrightarrow> ks \<noteq> [] \<and> [] \<notin> set ks \<and> length ks < 4294967296"

lemma c_array_all [simp]: "fits xs \<Longrightarrow> c_array (usize xs) (Some xs) = Done xs"
  by (simp add: c_array_def unat_usize)

lemma length_le_concat: "x \<in> set xs \<Longrightarrow> length x \<le> length (concat xs)"
  by (induction xs) auto

lemma c_arrays_all: "\<forall>x \<in> set xs. fits x \<Longrightarrow> c_arrays (map usize xs) (map Some xs) = Done xs"
  by (induction xs) (auto simp: outcome_simps)

lemma usize_0: "fits x \<Longrightarrow> usize x = 0 \<longleftrightarrow> x = []"
  by (metis length_0_conv unat_eq_zero unat_usize)

lemma accumulate_nonzero: "\<forall>x \<in> set xs. fits x
    \<Longrightarrow> accumulate (filter (\<lambda>v. v \<noteq> 0) (map usize xs)) = usize (concat xs)"
  by (induction xs) (auto simp: accumulate_sum_list usize_append usize_0)

lemma nonempty_no_Nil [simp]: "[] \<notin> set (nonempty xs)"
  by (simp add: nonempty_def)

lemma enc_list_eq_Nil [simp]: "enc_list ns = [] \<longleftrightarrow> ns = []" "[] = enc_list ns \<longleftrightarrow> ns = []"
proof -
  show "enc_list ns = [] \<longleftrightarrow> ns = []"
    unfolding length_0_conv [symmetric] enc_list_simps(3) by simp
  then show "[] = enc_list ns \<longleftrightarrow> ns = []" by (simp add: eq_commute [of "[]"])
qed

lemma concat_nonempty [simp]: "concat (nonempty xs) = concat xs"
  by (induction xs) (auto simp: nonempty_def)

lemma put_region_fits:
  assumes "fits (put_region ks vs)" "length ks = length vs"
  shows "fits (concat ks)" "fits (concat vs)" "\<forall>x \<in> set ks. fits x" "\<forall>x \<in> set vs. fits x"
    "fits ks" "fits (map usize ks :: size_t list)" "fits (map usize vs :: size_t list)"
  using assms by (auto simp: put_region_def dest!: length_le_concat)

lemma usize_put_region:
  "length ks = length vs \<Longrightarrow> usize (put_region ks vs)
    = accumulate [usize ks * 8, usize ks * 8, usize (concat ks), usize (concat vs)]"
  by (simp add: put_region_def usize_append usize_enc_list accumulate_sum_list usize_def add.assoc)

lemma yk_put_packed_exposes:
  assumes "\<not> has_mode mode YOKAN_MODE_NO_RDMA" "client_keys ks" "length ks = length vs"
    and "fits (put_region ks vs)"
  shows "yk_put_packed CD C B mode (usize ks) (Some (concat ks)) (Some (map usize ks)) (Some (concat vs))
      (Some (map usize vs)) w
    = without_segs (with_bulk B HG_BULK_READ_ONLY
        ([enc_list (map usize ks), enc_list (map usize vs), concat ks] @ nonempty [concat vs]) w
        (\<lambda>bulk. yk_put_bulk C mode (usize ks) None bulk 0 (usize (put_region ks vs))))"
proof -
  note f = put_region_fits [OF assms(4,3)]
  have n: "usize ks \<noteq> 0" using assms(2) f(5) by (simp add: client_keys_def usize_0)
  have k: "\<exists>x \<in> set ks. x \<noteq> []" using assms(2) by (cases ks) (auto simp: client_keys_def)
  have a: "c_array (usize ks) (Some (map usize ks)) = Done (map usize ks :: size_t list)"
    "c_array (usize ks) (Some (map usize vs)) = Done (map usize vs :: size_t list)"
    using c_array_all [OF f(6)] c_array_all [OF f(7)] assms(3) by (simp_all add: usize_def)
  show ?thesis
    using assms(1) n k a f(1,2)
    by (auto simp: yk_put_packed_def Let_def accumulate_usize usize_put_region [OF assms(3)] usize_0
        nonempty_def outcome_simps)
qed

lemma yk_put_multi_exposes:
  assumes "\<not> has_mode mode YOKAN_MODE_NO_RDMA" "client_keys ks" "length ks = length vs"
    and "fits (put_region ks vs)"
  shows "yk_put_multi CD C B mode (usize ks) (Some (map Some ks)) (Some (map usize ks))
      (Some (map Some vs)) (Some (map usize vs)) w
    = without_segs (with_bulk B HG_BULK_READ_ONLY
        ([enc_list (map usize ks), enc_list (map usize vs)] @ ks @ nonempty vs) w
        (\<lambda>bulk. yk_put_bulk C mode (usize ks) None bulk 0 (usize (put_region ks vs))))"
proof -
  note f = put_region_fits [OF assms(4,3)]
  have n: "usize ks \<noteq> 0" using assms(2) f(5) by (simp add: client_keys_def usize_0)
  have a: "c_array (usize ks) (Some (map usize ks)) = Done (map usize ks :: size_t list)"
    "c_array (usize ks) (Some (map usize vs)) = Done (map usize vs :: size_t list)"
    "c_array (usize ks) (Some (map Some ks)) = Done (map Some ks)"
    "c_array (usize ks) (Some (map Some vs)) = Done (map Some vs)"
    using f(6,7) assms(3) by (simp_all add: usize_def c_array_def unat_of_nat)
  have "0 \<notin> set (map usize ks :: size_t list)"
    using assms(2) f(3) by (auto simp: client_keys_def usize_0)
  then have c: "check_ksizes (map usize ks) bad k = k" for bad k :: "'z outcome"
    using assms(2) by (auto simp: check_ksizes_def client_keys_def dest: in_set_takeD)
  have t: "accumulate (usize ks * 8 # usize ks * 8 # map usize ks
        @ filter (\<lambda>v. v \<noteq> 0) (map usize vs)) = usize (put_region ks vs)"
    using accumulate_nonzero [OF f(4)]
    by (simp add: usize_put_region [OF assms(3)] accumulate_sum_list flip: accumulate_usize)
  show ?thesis
    using assms(1) n f(3,4)
    by (simp add: yk_put_multi_def a c t c_arrays_all outcome_simps)
qed

text \<open>The region of a get: key sizes, value sizes, keys and the room for the values.\<close>

definition get_region :: "bytes list \<Rightarrow> size_t list \<Rightarrow> bytes \<Rightarrow> bytes" where
  "get_region ks vs0 vbuf = enc_list (map usize ks) @ enc_list vs0 @ concat ks @ vbuf"

lemma get_region_fits:
  assumes "fits (get_region ks vs0 vbuf)" "length vs0 = length ks"
  shows "fits (concat ks)" "fits vbuf" "\<forall>x \<in> set ks. fits x" "fits ks" "fits (map usize ks :: size_t list)"
    "fits vs0"
  using assms by (auto simp: get_region_def dest!: length_le_concat)

lemma usize_get_region:
  "length vs0 = length ks \<Longrightarrow> usize (get_region ks vs0 vbuf)
    = accumulate [usize ks * 8, usize ks * 8, usize (concat ks), usize vbuf]"
  by (simp add: get_region_def usize_append usize_enc_list accumulate_sum_list usize_def add.assoc)

lemma client_keysD:
  assumes "client_keys ks" "\<forall>x \<in> set ks. fits x"
  shows "ks \<noteq> []" "\<forall>k \<in> set ks. usize k \<noteq> 0" "\<exists>x \<in> set ks. x \<noteq> []"
    "check_ksizes (map usize ks) bad k = k"
proof -
  show ks: "ks \<noteq> []" "\<forall>k \<in> set ks. usize k \<noteq> 0" using assms by (auto simp: client_keys_def usize_0)
  show "\<exists>x \<in> set ks. x \<noteq> []" using assms(1) by (cases ks) (auto simp: client_keys_def)
  show "check_ksizes (map usize ks) bad k = k"
    using assms(1) ks(2) by (fastforce simp: check_ksizes_def client_keys_def dest: in_set_takeD)
qed

lemma yk_get_packed_exposes:
  assumes "\<not> has_mode mode YOKAN_MODE_NO_RDMA" "client_keys ks" "length vs0 = length ks"
    and "fits (get_region ks vs0 vbuf)"
  shows "yk_get_packed CD C B mode (usize ks) (Some (concat ks)) (Some (map usize ks)) (usize vbuf)
      (Some vbuf) (Some vs0) w
    = obind (with_bulk B HG_BULK_READWRITE
        ([enc_list (map usize ks), enc_list vs0, concat ks] @ nonempty [vbuf]) w
        (\<lambda>bulk. yk_get_bulk C mode (usize ks) None bulk 0 (usize (get_region ks vs0 vbuf)) True))
        (\<lambda>(ret, segs, w'). Done (ret, c_back (dec_list (length ks) (segs ! 1)) (Some vs0),
           if vbuf \<noteq> [] then c_back (segs ! 3) (Some vbuf) else Some vbuf, w'))"
proof -
  note f = get_region_fits [OF assms(4,3)]
  note ks = client_keysD [OF assms(2) f(3)]
  have n: "usize ks \<noteq> 0" using ks(1) f(4) by (simp add: usize_0)
  have a: "c_array (usize ks) (Some (map usize ks)) = Done (map usize ks :: size_t list)"
    "c_array (usize ks) (Some vs0) = Done vs0" "unat (usize ks) = length ks"
    using f(4-6) assms(3) by (simp_all add: usize_def c_array_def unat_of_nat)
  show ?thesis
    using assms(1) n ks(3) a f(1,2)
    by (auto simp: yk_get_packed_def Let_def accumulate_usize usize_get_region [OF assms(3)] usize_0
        nonempty_def outcome_simps)
qed

lemma yk_get_multi_exposes:
  assumes "client_keys ks" "length slots = length ks"
    and "fits (get_region ks (map usize slots) (concat slots))"
  shows "yk_get_multi C B mode (usize ks) (Some (map Some ks)) (Some (map usize ks))
      (Some (map Some slots)) (Some (map usize slots)) w
    = obind (with_bulk B HG_BULK_READWRITE
        ([enc_list (map usize ks), enc_list (map usize slots)] @ ks @ nonempty slots) w
        (\<lambda>bulk. yk_get_bulk C mode (usize ks) None bulk 0
           (usize (get_region ks (map usize slots) (concat slots))) False))
        (\<lambda>(ret, segs, w'). Done (ret, c_back (dec_list (length ks) (segs ! 1)) (Some (map usize slots)),
           c_back (put_back (map usize slots) (map Some slots) (drop (2 + length ks) segs))
             (Some (map Some slots)), w'))"
proof -
  have len: "length (map usize slots :: size_t list) = length ks" using assms(2) by simp
  note f = get_region_fits [OF assms(3) len]
  note ks = client_keysD [OF assms(1) f(3)]
  have fs: "\<forall>x \<in> set slots. fits x" using f(2) by (auto dest: length_le_concat)
  have n: "usize ks \<noteq> 0" using ks(1) f(4) by (simp add: usize_0)
  have a: "c_array (usize ks) (Some (map usize ks)) = Done (map usize ks :: size_t list)"
    "c_array (usize ks) (Some (map usize slots)) = Done (map usize slots :: size_t list)"
    "c_array (usize ks) (Some (map Some ks)) = Done (map Some ks)"
    "c_array (usize ks) (Some (map Some slots)) = Done (map Some slots)" "unat (usize ks) = length ks"
    using f(4) assms(2) by (simp_all add: usize_def c_array_def unat_of_nat)
  have t: "accumulate (usize ks * 8 # usize ks * 8 # map usize ks
        @ filter (\<lambda>v. v \<noteq> 0) (map usize slots)) = usize (get_region ks (map usize slots) (concat slots))"
    using accumulate_nonzero [OF fs]
    by (simp add: usize_get_region [OF len] accumulate_sum_list flip: accumulate_usize)
  show ?thesis
    using n f(3) fs by (simp add: yk_get_multi_def a ks(4) t c_arrays_all outcome_simps)
qed

text \<open>Buffers with the lengths of the exposed ones are told apart in the region.\<close>

lemma segments_eq:
  assumes "map length xs = map length ys" "concat xs = concat ys"
  shows "xs = ys"
proof -
  have "length xs = length ys" using assms(1) by (rule map_eq_imp_length_eq)
  moreover have "\<forall>(x, y) \<in> set (zip xs ys). length x = length y"
    using assms(1) by (clarsimp simp: set_zip) (metis nth_map)
  ultimately show ?thesis using assms(2) by (simp add: concat_eq_concat_iff)
qed

lemma put_back_slots:
  assumes "\<forall>x \<in> set slots. fits x" "list_all2 (\<lambda>x y. length x = length y) new slots"
  shows "put_back (map usize slots) (map Some slots) (nonempty new) = map Some new"
  using assms(2,1)
  by (induction rule: list_all2_induct) (auto simp: nonempty_def usize_0 c_back_def)

end
