(* ===== verification/Loopback.thy ===== *)
theory Loopback
  imports RpcTransfers
begin

text \<open>
  A transport inside one process and an allocator of a single block: they show that what the
  properties assume of Margo, Mercury and the heap can hold, and carry the concrete examples.
\<close>

fun resplit :: "nat list \<Rightarrow> bytes \<Rightarrow> bytes list" where
  "resplit [] b = []"
| "resplit (n # ns) b = take n b # resplit ns (drop n b)"

definition loop_push :: "addr \<Rightarrow> unit \<Rightarrow> size_t \<Rightarrow> size_t \<Rightarrow> size_t \<Rightarrow> bytes \<Rightarrow> bytes list
    \<Rightarrow> hg_return \<times> bytes list" where
  "loop_push a bulk roff loff n d m =
     (let region = concat m in
      if unat roff + unat n \<le> length region \<and> unat loff + unat n \<le> length d
      then (HG_SUCCESS, resplit (map length m) (take (unat roff) region
              @ take (unat n) (drop (unat loff) d) @ drop (unat roff + unat n) region))
      else (HG_FAILURE, m))"

definition loop_pull :: "addr \<Rightarrow> unit \<Rightarrow> size_t \<Rightarrow> size_t \<Rightarrow> size_t \<Rightarrow> bytes \<Rightarrow> bytes list
    \<Rightarrow> hg_return \<times> bytes" where
  "loop_pull a bulk roff loff n d m =
     (let region = concat m in
      if unat roff + unat n \<le> length region \<and> unat loff + unat n \<le> length d
      then (HG_SUCCESS, take (unat loff) d @ take (unat n) (drop (unat roff) region)
              @ drop (unat loff + unat n) d)
      else (HG_FAILURE, d))"

definition loop_rpc :: "'i option \<Rightarrow> ('i, unit, bytes list) rpc" where
  "loop_rpc inp = \<lparr> rpc_instance = True, rpc_provider = True, rpc_input = inp,
     rpc_lookup = (\<lambda>_. None), rpc_dup = Some 0, rpc_pull = loop_pull, rpc_push = loop_push,
     rpc_ipush = (\<lambda>a bulk roff loff n d m. case loop_push a bulk roff loff n d m of
        (hret, m') \<Rightarrow> (hret, hret, m')) \<rparr>"

definition loop_bulk :: "(unit, bytes list) bulk_api" where
  "loop_bulk = \<lparr> ba_create = (\<lambda>access xs m. Some ((), xs)), ba_segments = (\<lambda>bulk m. m) \<rparr>"

definition loop_segs :: "addr \<Rightarrow> unit \<Rightarrow> bytes list \<Rightarrow> bytes list" where
  "loop_segs a bulk m = m"

lemma resplit_concat: "sum_list ns = length b \<Longrightarrow> concat (resplit ns b) = b
    \<and> map length (resplit ns b) = ns"
  by (induction ns b rule: resplit.induct) auto

lemma loop_margo: "margo_ok loop_segs (loop_rpc inp)"
  unfolding margo_ok_def Let_def
proof (intro allI)
  fix a :: addr and bulk roff loff n d and m :: "bytes list"
  show "if unat roff + unat n \<le> length (concat (loop_segs a bulk m)) \<and> unat loff + unat n \<le> length d
    then rpc_pull (loop_rpc inp) a bulk roff loff n d m = (HG_SUCCESS, take (unat loff) d
        @ take (unat n) (drop (unat roff) (concat (loop_segs a bulk m))) @ drop (unat loff + unat n) d)
      \<and> (\<exists>m'. rpc_push (loop_rpc inp) a bulk roff loff n d m = (HG_SUCCESS, m')
           \<and> rpc_ipush (loop_rpc inp) a bulk roff loff n d m = (HG_SUCCESS, HG_SUCCESS, m')
           \<and> map length (loop_segs a bulk m') = map length (loop_segs a bulk m)
           \<and> concat (loop_segs a bulk m') = take (unat roff) (concat (loop_segs a bulk m))
               @ take (unat n) (drop (unat loff) d)
               @ drop (unat roff + unat n) (concat (loop_segs a bulk m)))
    else rpc_pull (loop_rpc inp) a bulk roff loff n d m = (HG_FAILURE, d)
      \<and> rpc_push (loop_rpc inp) a bulk roff loff n d m = (HG_FAILURE, m)
      \<and> rpc_ipush (loop_rpc inp) a bulk roff loff n d m = (HG_FAILURE, HG_FAILURE, m)"
  proof (cases "unat roff + unat n \<le> length (concat m) \<and> unat loff + unat n \<le> length d")
    case True
    define new where "new = take (unat roff) (concat m) @ take (unat n) (drop (unat loff) d)
      @ drop (unat roff + unat n) (concat m)"
    have "sum_list (map length m) = length new"
      using True by (auto simp: new_def min_def length_concat)
    then show ?thesis
      using True resplit_concat [of "map length m" new]
      by (simp add: loop_rpc_def loop_pull_def loop_push_def loop_segs_def Let_def flip: new_def)
  next
    case False
    then show ?thesis
      by (auto simp: loop_rpc_def loop_pull_def loop_push_def loop_segs_def Let_def)
  qed
qed

lemma loop_reaches: "reaches (loop_rpc inp) 0"
  by (simp add: reaches_def loop_rpc_def)

lemma loop_bulk_ok: "bulk_ok loop_segs 0 loop_bulk"
  by (simp add: bulk_ok_def loop_bulk_def loop_segs_def)

section \<open>A heap of one block\<close>

text \<open>The block is at address 1, and full of \<open>junk\<close>.\<close>

definition one_block :: "byte \<Rightarrow> bool allocator" where
  "one_block junk = \<lparr>
     al_new = (\<lambda>n used. if used then (None, True) else (Some (1, replicate (unat n) junk), True)),
     al_delete = (\<lambda>a used. used \<and> a \<noteq> 1),
     al_register = (\<lambda>a n mode used. (HG_SUCCESS, used)) \<rparr>"

definition block_live :: "bool \<Rightarrow> size_t set" where
  "block_live used = (if used then {1} else {})"

lemma one_block_ok: "allocator_ok (one_block junk) block_live"
  by (auto simp: allocator_ok_def one_block_def block_live_def split: if_splits)

lemma empty_lru: "lru_bulk_inv (one_block junk) block_live id {} (lru_bulk_cache_init n False)"
  by (auto simp: lru_bulk_inv_def lru_bulk_cache_init_def one_block_ok grows_def owned_def pooled_def
      by_mode_def block_live_def)

definition loop_world :: "'s \<Rightarrow> ('s, bool lru_bulk, bytes list) world" where
  "loop_world s = \<lparr> w_db = Some s, w_cache = lru_bulk_cache_init 1 False, w_mem = [] \<rparr>"

end
