(* ===== verification/RpcProperties.thy ===== *)
theory RpcProperties
  imports Loopback DocContract MapProperties
begin

text \<open>
  The properties of the key/value service as a whole: a client, the transfers, a provider with its
  bulk cache, and the map backend.
\<close>

section \<open>The service\<close>

definition map_database :: "order \<Rightarrow> bool \<Rightarrow> pairs kv_db database" where
  "map_database cmp has_lua =
     kv_ops.extend (map_ops cmp has_lua) (database.fields (map_count cmp) (map_listKeys cmp))"

lemma map_database_simps [simp]:
  "o_put (map_database cmp has_lua) = map_put cmp"
  "o_get (map_database cmp has_lua) = (\<lambda>mode packed keys ksizes vals vsizes s.
     alone (map_get cmp mode packed keys ksizes vals vsizes [] s))"
  "o_supports (map_database cmp has_lua) = map_supportsMode has_lua"
  "d_count (map_database cmp has_lua) = map_count cmp"
  by (simp_all add: map_database_def map_ops_def kv_ops.defs database.defs)

definition lru_ops :: "'h allocator \<Rightarrow> (size_t \<Rightarrow> size_t) \<Rightarrow> 'h lru_bulk bulk_cache" where
  "lru_ops A grow = pool_ops (lru_bulk_cache_get A grow) (lru_bulk_cache_release A)"

definition put_channel :: "'h allocator \<Rightarrow> (size_t \<Rightarrow> size_t) \<Rightarrow> order \<Rightarrow> bool \<Rightarrow> ('b bulk_in, 'b, 'm) rpc
    \<Rightarrow> ('b bulk_in, yk_return_t, (pairs kv_db, 'h lru_bulk, 'm) world) channel" where
  "put_channel A grow cmp has_lua R = channel_to (\<lambda>inp.
     yk_put_ult (R\<lparr> rpc_input := Some inp \<rparr>) (lru_ops A grow) (map_database cmp has_lua))"

definition get_channel :: "'h allocator \<Rightarrow> (size_t \<Rightarrow> size_t) \<Rightarrow> order \<Rightarrow> bool \<Rightarrow> ('b get_in, 'b, 'm) rpc
    \<Rightarrow> ('b get_in, yk_return_t, (pairs kv_db, 'h lru_bulk, 'm) world) channel" where
  "get_channel A grow cmp has_lua R = channel_to (\<lambda>inp.
     yk_get_ult (R\<lparr> rpc_input := Some inp \<rparr>) (lru_ops A grow) (map_database cmp has_lua))"

definition put_direct_channel :: "order \<Rightarrow> bool \<Rightarrow> (put_direct_in, 'b, 'm) rpc
    \<Rightarrow> (put_direct_in, yk_return_t, (pairs kv_db, 'c, 'm) world) channel" where
  "put_direct_channel cmp has_lua R = channel_to (\<lambda>inp.
     on_db (yk_put_direct_ult (R\<lparr> rpc_input := Some inp \<rparr>) (map_database cmp has_lua)))"

definition get_direct_channel :: "order \<Rightarrow> bool \<Rightarrow> (get_direct_in, 'b, 'm) rpc
    \<Rightarrow> (get_direct_in, direct_out, (pairs kv_db, 'c, 'm) world) channel" where
  "get_direct_channel cmp has_lua R = channel_to (\<lambda>inp.
     on_db (yk_get_direct_ult (R\<lparr> rpc_input := Some inp \<rparr>) (map_database cmp has_lua)))"

text \<open>A provider whose cache has no buffer out and whose database stores \<open>s\<close>.\<close>

definition serving :: "'h allocator \<Rightarrow> ('h \<Rightarrow> size_t set) \<Rightarrow> (size_t \<Rightarrow> size_t) \<Rightarrow> order \<Rightarrow> pairs kv_db
    \<Rightarrow> (pairs kv_db, 'h lru_bulk, 'm) world \<Rightarrow> bool" where
  "serving A live grow cmp s w \<longleftrightarrow> lru_bulk_inv A live grow {} (w_cache w) \<and> w_db w = Some s
     \<and> nodes_ok cmp fst (m_db s) \<and> \<not> m_migrated s"

text \<open>The cache has no buffer for a transfer of \<open>region\<close>, and cannot allocate one.\<close>

definition no_room :: "'h allocator \<Rightarrow> (size_t \<Rightarrow> size_t) \<Rightarrow> bytes \<Rightarrow> ('s, 'h lru_bulk, 'm) world \<Rightarrow> bool" where
  "no_room A grow region w \<longleftrightarrow>
     fst (lru_bulk_cache_get A grow (usize region) HG_BULK_READWRITE (w_cache w)) = None"

section \<open>put over the network\<close>

lemma loop_serving: "nodes_ok DefaultMemCmp fst db
    \<Longrightarrow> serving (one_block junk) block_live id DefaultMemCmp (map_db db) (loop_world (map_db db))"
  by (simp add: serving_def loop_world_def empty_lru map_db_def)

lemma first_buffer:
  "lru_bulk_cache_get (one_block junk) id n mode (w_cache (loop_world s)) = (Some b, c)
    \<Longrightarrow> yb_data b = replicate (unat n) junk"
  by (auto simp: loop_world_def lru_bulk_cache_get_def lru_bulk_cache_init_def new_buffer_def
      one_block_def bset_lower_bound_def split: if_splits)

lemma first_room: "no_room (one_block junk) id region (loop_world s) \<longleftrightarrow> usize region = 0"
  by (auto simp: no_room_def loop_world_def lru_bulk_cache_get_def lru_bulk_cache_init_def new_buffer_def
      one_block_def bset_lower_bound_def split: if_splits)

lemma default_mode: "map_supportsMode has_lua YOKAN_MODE_DEFAULT" "mode_valid YOKAN_MODE_DEFAULT"
    "\<not> has_mode YOKAN_MODE_DEFAULT flag"
  by (simp_all add: map_supportsMode_def within_mask_def mode_valid_def has_mode_def YOKAN_MODE_DEFAULT_def)

lemma put_spec_status: "fst (put_spec mode single m kvs) \<in> {OK, KeyExists, NotFound}"
proof (induction kvs arbitrary: m)
  case (Cons kv kvs)
  obtain k v where kv: "kv = (k, v)" by force
  obtain st m' where one: "put_one_spec mode single m k v = (st, m')" by force
  then have "st \<in> {OK, KeyExists, NotFound}" by (auto simp: put_one_spec_def split: if_splits)
  then show ?case using Cons.IH [of m'] one kv by auto
qed simp

lemma map_put_called:
  assumes "total_comparator cmp" "nodes_ok cmp fst (m_db s)" "\<not> m_migrated s" "length ks = length vs"
    "fits (concat ks)" "fits (concat vs)"
  shows "\<exists>st db'. o_put (map_database cmp has_lua) mode \<lparr> um_addr = x, um_data = concat ks \<rparr> (map usize ks)
      (concat vs) (map usize vs) s = Done (st, db')
    \<and> st = fst (put_spec mode (length ks = 1) (map_of (m_db s)) (zip ks vs))
    \<and> nodes_ok cmp fst (m_db db') \<and> \<not> m_migrated db'
    \<and> map_of (m_db db') = snd (put_spec mode (length ks = 1) (map_of (m_db s)) (zip ks vs))"
proof -
  have "packs (concat ks) ks (map usize ks)" "packs (concat vs) vs (map usize vs)"
    using assms(5,6) packsI [of ks "[]"] packsI [of vs "[]"] by simp_all
  then show ?thesis
    using kv_container.put_law [OF map_is_container [OF assms(1)] assms(2,3), of
        "\<lparr> um_addr = x, um_data = concat ks \<rparr>" ks "map usize ks" "concat vs" vs "map usize vs" mode]
      assms(3,4) by (auto simp: map_put_def)
qed

text \<open>
  C3: a put of several pairs over RDMA (\<open>yk_put_multi\<close>) is the specified update of the stored map,
  and answers with the specified status, for every mode the client and the backend accept; a provider
  that has no memory for the transfer answers \<open>YOKAN_ERR_ALLOCATION\<close> and changes nothing. Every buffer
  is back in the bulk cache.
\<close>

theorem rpc_put_multi_refines:
  assumes "total_comparator cmp" "serving A live grow cmp s w"
    and "margo_ok segs R" "reaches R a" "bulk_ok segs a B"
    and "map_supportsMode has_lua mode" "mode_valid mode" "\<not> has_mode mode YOKAN_MODE_NO_RDMA"
    and "client_keys ks" "length ks = length vs" "fits (put_region ks vs)"
  shows "\<exists>ret w'. yk_put_multi CD (put_channel A grow cmp has_lua R) B mode (usize ks) (Some (map Some ks))
      (Some (map usize ks)) (Some (map Some vs)) (Some (map usize vs)) w = Done (ret, w')
    \<and> (if ret = YOKAN_ERR_ALLOCATION then no_room A grow (put_region ks vs) w \<and> serving A live grow cmp s w'
       else ret = status_ret (fst (put_spec mode (length ks = 1) (map_of (m_db s)) (zip ks vs)))
         \<and> (\<exists>s'. serving A live grow cmp s' w'
              \<and> map_of (m_db s') = snd (put_spec mode (length ks = 1) (map_of (m_db s)) (zip ks vs))))"
proof -
  note f = put_region_fits [OF assms(11,10)]
  note ks = client_keysD [OF assms(9) f(3)]
  have s: "lru_bulk_inv A live grow {} (w_cache w)" "w_db w = Some s" "nodes_ok cmp fst (m_db s)"
    "\<not> m_migrated s" using assms(2) by (simp_all add: serving_def)
  let ?xs = "[enc_list (map usize ks), enc_list (map usize vs)] @ ks @ nonempty vs"
  have xs: "[] \<notin> set ?xs" "concat ?xs = put_region ks vs"
    using ks(1) assms(9,10) by (auto simp: put_region_def client_keys_def)
  let ?sp = "put_spec mode (length ks = 1) (map_of (m_db s)) (zip ks vs)"
  let ?Q = "\<lambda>st s'. st = fst ?sp \<and> nodes_ok cmp fst (m_db s') \<and> \<not> m_migrated s'
    \<and> map_of (m_db s') = snd ?sp"
  obtain ret w' where run: "yk_put_multi CD (put_channel A grow cmp has_lua R) B mode (usize ks)
        (Some (map Some ks)) (Some (map usize ks)) (Some (map Some vs)) (Some (map usize vs)) w = Done (ret, w')"
      "lru_bulk_inv A live grow {} (w_cache w')"
      "ret = YOKAN_ERR_ALLOCATION \<and> no_room A grow (put_region ks vs) w \<and> w_db w' = Some s
        \<or> (\<exists>st s'. ret = status_ret st \<and> w_db w' = Some s' \<and> ?Q st s')"
    unfolding yk_put_multi_exposes [OF assms(8-11)] put_channel_def lru_ops_def no_room_def
    using lru_pool.put_rdma_law [OF s(1) assms(3-5) s(2) _ assms(7) xs assms(11) put_region_def ks(1,2)
        assms(10), of "map_database cmp has_lua" ?Q HG_BULK_READ_ONLY]
      map_put_called [OF assms(1) s(3,4) assms(10) f(1,2)] assms(6) by auto
  have "fst ?sp \<in> {OK, KeyExists, NotFound}" by (rule put_spec_status)
  then show ?thesis using run s by (auto simp: serving_def)
qed

theorem rpc_put_multi_refines_witness:
  "\<exists>ret w'. yk_put_multi (put_direct_channel DefaultMemCmp False (loop_rpc None))
      (put_channel (one_block 0) id DefaultMemCmp False (loop_rpc None)) loop_bulk YOKAN_MODE_DEFAULT 2
      (Some [Some [1], Some [2]]) (Some [1, 1]) (Some [Some [5], Some []]) (Some [1, 0])
      (loop_world (map_db [([1], [9])])) = Done (ret, w')
    \<and> ret = YOKAN_SUCCESS \<and> (\<exists>s'. w_db w' = Some s' \<and> map_of (m_db s') = [[1] \<mapsto> [5], [2] \<mapsto> []])"
proof -
  have r: "fits (put_region [[1], [2]] [[5], []])" "client_keys [[1], [2]]"
    by (simp_all add: put_region_def client_keys_def)
  have spec: "put_spec YOKAN_MODE_DEFAULT False [[1] \<mapsto> [9]] (zip [[1], [2]] [[5], []])
      = (OK, [[1] \<mapsto> [5], [2] \<mapsto> []])"
    by (simp add: put_one_spec_def default_mode)
  show ?thesis
    using rpc_put_multi_refines [OF memcmp_total loop_serving [of "[([1], [9])]" 0] loop_margo [of None]
        loop_reaches loop_bulk_ok default_mode(1) [of False] default_mode(2,3) r(2) _ r(1),
        of "put_direct_channel DefaultMemCmp False (loop_rpc None)"] spec
    by (auto simp: serving_def map_db_def nodes_ok_def usize_def first_room put_region_def split: if_splits)
qed

section \<open>get over the network\<close>

lemma pack_spec_single:
  assumes "pack_spec m room False [k] = (ns, vs)" "vs \<noteq> []" "\<forall>v \<in> ran m. fits v"
  shows "unat (ns ! 0) = length vs" "length vs \<le> room"
proof -
  obtain v where k: "m k = Some v" using assms(1,2) by (cases "m k") simp_all
  then have v: "\<not> room < length v" "ns = [usize v]" "vs = v"
    using assms(1,2) by (auto split: if_splits)
  have "fits v" using assms(3) k by (auto intro: ranI)
  then show "unat (ns ! 0) = length vs" "length vs \<le> room" using v by (simp_all add: unat_usize)
qed

lemma map_get_called:
  assumes "total_comparator cmp" "nodes_ok cmp fst (m_db s)" "\<not> m_migrated s" "fits (concat ks)"
    and "\<not> has_mode mode YOKAN_MODE_WAIT" "\<not> has_mode mode YOKAN_MODE_CONSUME"
    and "\<forall>v \<in> ran (map_of (m_db s)). sized v" "fits vbuf" "length v0 = length vbuf"
    and "length vs1 = length ks" "pack_spec (map_of (m_db s)) (length vbuf) False ks = (ns, vs)"
  shows "\<exists>out db'. o_get (map_database cmp has_lua) mode True \<lparr> um_addr = x, um_data = concat ks \<rparr>
      (map usize ks) v0 vs1 s = Done (OK, out, db')
    \<and> length (g_vsizes out) = length ks \<and> length (g_vals out) = length vbuf \<and> db' = s
    \<and> out = \<lparr> g_vals = vs @ drop (length vs) v0, g_size = usize vs, g_vsizes = ns \<rparr>"
proof -
  have "packs (concat ks) ks (map usize ks)" using assms(4) packsI [of ks "[]"] by simp
  then have "map_get cmp mode True \<lparr> um_addr = x, um_data = concat ks \<rparr> (map usize ks) v0 vs1 [] s
      = Done (OK, \<lparr> g_vals = vs @ drop (length vs) v0, g_size = usize vs, g_vsizes = ns \<rparr>, [], s)"
    unfolding map_get_def
    using kv_container.get_packed_law [OF map_is_container [OF assms(1)] assms(2,3)] assms(5-11) by simp
  then show ?thesis
    using pack_spec_lengths [of "map_of (m_db s)" "length vbuf" False ks] assms(9,11)
    by (simp add: alone_def outcome_simps)
qed

text \<open>What a packed get leaves in the handler's buffer, and what of it reaches the caller.\<close>

definition packed_out :: "size_t list \<Rightarrow> bytes \<Rightarrow> bytes \<Rightarrow> get_out" where
  "packed_out ns vs v0 = \<lparr> g_vals = vs @ drop (length vs) v0, g_size = usize vs, g_vsizes = ns \<rparr>"

definition packed_back :: "nat \<Rightarrow> bytes \<Rightarrow> bytes \<Rightarrow> bytes \<Rightarrow> bytes" where
  "packed_back n vs vbuf v0 = vs @ drop (length vs) (if vs = [] \<or> n = 1 then vbuf else v0)"

lemma packed_delivered:
  assumes "pack_spec m (length vbuf) False ks = (ns, vs)" "\<forall>v \<in> ran m. sized v" "fits vbuf" "fits ks"
  shows "length ns = length ks" "length vs \<le> length vbuf"
    and "\<not> overrun (packed_out ns vs v0) (length vbuf) (usize ks)"
    and "delivered (packed_out ns vs v0) vbuf (usize ks) = packed_back (length ks) vs vbuf v0"
proof -
  show sp: "length ns = length ks" "length vs \<le> length vbuf"
    using pack_spec_lengths [of m "length vbuf" False ks] assms(1) by simp_all
  have z: "usize vs = 0 \<longleftrightarrow> vs = []" using sp(2) assms(3) by (intro usize_0) simp
  have size: "usize ks = 1 \<longleftrightarrow> length ks = 1"
    using assms(4) by (metis One_nat_def of_nat_1 unat_1 unat_usize usize_def)
  have one: "unat (ns ! 0) = length vs" if l: "length ks = 1" "vs \<noteq> []"
  proof -
    obtain k where k: "ks = [k]" using l(1) by (auto simp: length_Suc_conv)
    have "\<forall>v \<in> ran m. fits v" using assms(2) sized_fits by blast
    then show ?thesis using pack_spec_single(1) [OF assms(1) [unfolded k] l(2)] by simp
  qed
  show "\<not> overrun (packed_out ns vs v0) (length vbuf) (usize ks)"
    using one sp(2) size z by (auto simp: overrun_def packed_out_def)
  show "delivered (packed_out ns vs v0) vbuf (usize ks) = packed_back (length ks) vs vbuf v0"
    using one size z by (auto simp: delivered_def packed_out_def packed_back_def)
qed

lemma packed_segments:
  assumes "map length xs = map length ([enc_list (map usize ks), enc_list vs0, concat ks] @ nonempty [vbuf])"
    and "concat xs = enc_list (map usize ks) @ enc_list ns @ concat ks @ v"
    and "length ns = length ks" "length vs0 = length ks" "length v = length vbuf"
  shows "dec_list (length ks) (xs ! 1) = ns" "vbuf \<noteq> [] \<longrightarrow> xs ! 3 = v"
proof -
  have "xs = [enc_list (map usize ks), enc_list ns, concat ks] @ nonempty [v]"
    using assms by (intro segments_eq) (auto simp: nonempty_def)
  then show "dec_list (length ks) (xs ! 1) = ns" "vbuf \<noteq> [] \<longrightarrow> xs ! 3 = v"
    using assms(3,5) dec_enc_list [of ns "[]"] by (auto simp: nonempty_def)
qed

text \<open>The transfer, up to what the exposed segments hold after it.\<close>

lemma get_packed_transfer:
  assumes "total_comparator cmp" "serving A live grow cmp s w"
    and "margo_ok segs R" "reaches R a" "bulk_ok segs a B"
    and "map_supportsMode has_lua mode" "mode_valid mode"
    and "\<not> has_mode mode YOKAN_MODE_WAIT" "\<not> has_mode mode YOKAN_MODE_CONSUME"
    and "client_keys ks" "length vs0 = length ks" "fits (get_region ks vs0 vbuf)"
    and "\<forall>v \<in> ran (map_of (m_db s)). sized v"
    and "pack_spec (map_of (m_db s)) (length vbuf) False ks = (ns, vs)"
  defines "xs \<equiv> [enc_list (map usize ks), enc_list vs0, concat ks] @ nonempty [vbuf]"
    and "n \<equiv> usize (get_region ks vs0 vbuf)"
  shows "\<exists>ret xs' w'. with_bulk B HG_BULK_READWRITE xs w (\<lambda>bulk. yk_get_bulk
        (get_channel A grow cmp has_lua R) mode (usize ks) None bulk 0 n True) = Done (ret, xs', w')
    \<and> serving A live grow cmp s w' \<and> map length xs' = map length xs
    \<and> (ret = YOKAN_ERR_ALLOCATION \<and> no_room A grow (get_region ks vs0 vbuf) w
         \<and> concat xs' = get_region ks vs0 vbuf
       \<or> (\<exists>buf c. ret = YOKAN_SUCCESS
            \<and> length (packed_back (length ks) vs vbuf
                    (stale buf (16 * length ks + length (concat ks)) (length vbuf))) = length vbuf
            \<and> lru_bulk_cache_get A grow n HG_BULK_READWRITE (w_cache w) = (Some buf, c)
            \<and> concat xs' = enc_list (map usize ks) @ enc_list ns @ concat ks
                @ packed_back (length ks) vs vbuf
                    (stale buf (16 * length ks + length (concat ks)) (length vbuf))))"
proof -
  note f = get_region_fits [OF assms(12,11)]
  note ks = client_keysD [OF assms(10) f(3)]
  note out = packed_delivered [OF assms(14,13) f(2,4)]
  have s: "lru_bulk_inv A live grow {} (w_cache w)" "w_db w = Some s" "nodes_ok cmp fst (m_db s)"
    "\<not> m_migrated s" using assms(2) by (simp_all add: serving_def)
  have xs: "[] \<notin> set xs" "concat xs = get_region ks vs0 vbuf"
    using ks(1,3) assms(10,11) by (auto simp: xs_def get_region_def client_keys_def)
  have get: "\<exists>o' db'. o_get (map_database cmp has_lua) mode True \<lparr> um_addr = x, um_data = concat ks \<rparr>
      (map usize ks) v0 vs1 s = Done (OK, o', db') \<and> length (g_vsizes o') = length ks
      \<and> length (g_vals o') = length vbuf \<and> (db' = s \<and> o' = packed_out ns vs v0)"
    if "length v0 = length vbuf" "length vs1 = length ks" for x v0 vs1
    using map_get_called [OF assms(1) s(3,4) f(1) assms(8,9,13) f(2) that assms(14)]
    unfolding packed_out_def by blast
  have sup: "o_supports (map_database cmp has_lua) mode" using assms(6) by simp
  have "\<exists>ret xs' w'. with_bulk B HG_BULK_READWRITE xs w (\<lambda>bulk. yk_get_bulk
        (get_channel A grow cmp has_lua R) mode (usize ks) None bulk 0 n True) = Done (ret, xs', w')
    \<and> lru_bulk_inv A live grow {} (w_cache w') \<and> map length xs' = map length xs
    \<and> (ret = YOKAN_ERR_ALLOCATION \<and> no_room A grow (get_region ks vs0 vbuf) w \<and> w_db w' = Some s \<and> xs' = xs
       \<or> (\<exists>buf c o' db'. w_db w' = Some db' \<and> buffer_ok buf \<and> n \<le> yb_size buf
            \<and> lru_bulk_cache_get A grow n HG_BULK_READWRITE (w_cache w) = (Some buf, c)
            \<and> length (g_vsizes o') = length ks \<and> length (g_vals o') = length vbuf
            \<and> (db' = s \<and> o' = packed_out ns vs
                 (stale buf (16 * length ks + length (concat ks)) (length vbuf)))
            \<and> (if overrun o' (length vbuf) (usize ks)
                then ret = YOKAN_ERR_FROM_MERCURY \<and> concat xs' = get_region ks vs0 vbuf
                else ret = YOKAN_SUCCESS \<and> concat xs' = enc_list (map usize ks) @ enc_list (g_vsizes o')
                  @ concat ks @ delivered o' vbuf (usize ks))))"
    unfolding get_channel_def lru_ops_def n_def no_room_def
    by (rule lru_pool.get_rdma_law [OF s(1) assms(3-5) s(2) sup assms(7) xs assms(12) get_region_def
        ks(1,2) assms(11), where Q = "\<lambda>v0 o' db'. db' = s \<and> o' = packed_out ns vs v0"]) (simp, rule get)
  then show ?thesis
  proof (elim exE conjE disjE, goal_cases)
    case (1 ret xs' w')
    then show ?case using s(3,4) xs(2) by (auto simp: serving_def)
  next
    case (2 ret xs' w' buf c o' db')
    have "serving A live grow cmp s w'" using 2 s(3,4) by (simp add: serving_def)
    moreover have "ret = YOKAN_SUCCESS" "concat xs' = enc_list (map usize ks) @ enc_list ns @ concat ks
        @ packed_back (length ks) vs vbuf (stale buf (16 * length ks + length (concat ks)) (length vbuf))"
      using 2 out(3,4) by (auto simp: packed_out_def)
    moreover have "length (packed_back (length ks) vs vbuf
        (stale buf (16 * length ks + length (concat ks)) (length vbuf))) = length vbuf"
      using 2(9-12) out(2) by (auto simp: packed_out_def packed_back_def)
    ultimately show ?case using 2(1,3,5-7) by blast
  qed
qed

lemma get_packed_served:
  assumes "total_comparator cmp" "serving A live grow cmp s w"
    and "margo_ok segs R" "reaches R a" "bulk_ok segs a B"
    and "map_supportsMode has_lua mode" "mode_valid mode" "\<not> has_mode mode YOKAN_MODE_NO_RDMA"
    and "\<not> has_mode mode YOKAN_MODE_WAIT" "\<not> has_mode mode YOKAN_MODE_CONSUME"
    and "client_keys ks" "length vs0 = length ks" "fits (get_region ks vs0 vbuf)"
    and "\<forall>v \<in> ran (map_of (m_db s)). sized v"
    and "pack_spec (map_of (m_db s)) (length vbuf) False ks = (ns, vs)"
  obtains ret vsizes' vals' w' where
    "yk_get_packed CD (get_channel A grow cmp has_lua R) B mode (usize ks) (Some (concat ks))
      (Some (map usize ks)) (usize vbuf) (Some vbuf) (Some vs0) w = Done (ret, Some vsizes', Some vals', w')"
    "serving A live grow cmp s w'"
    "length vals' = length vbuf"
    "ret = YOKAN_ERR_ALLOCATION \<and> no_room A grow (get_region ks vs0 vbuf) w \<and> vsizes' = vs0 \<and> vals' = vbuf
     \<or> ret = YOKAN_SUCCESS \<and> vsizes' = ns
       \<and> (\<exists>buf c. lru_bulk_cache_get A grow (usize (get_region ks vs0 vbuf)) HG_BULK_READWRITE (w_cache w)
                   = (Some buf, c)
            \<and> vals' = packed_back (length ks) vs vbuf
                (stale buf (16 * length ks + length (concat ks)) (length vbuf)))"
proof -
  note f = get_region_fits [OF assms(13,12)]
  note out = packed_delivered [OF assms(15,14) f(2,4)]
  note goal = that
  define n where "n = usize (get_region ks vs0 vbuf)"
  obtain ret xs' w' where run: "with_bulk B HG_BULK_READWRITE
        ([enc_list (map usize ks), enc_list vs0, concat ks] @ nonempty [vbuf]) w
        (\<lambda>bulk. yk_get_bulk (get_channel A grow cmp has_lua R) mode (usize ks) None bulk 0 n True)
        = Done (ret, xs', w')" "serving A live grow cmp s w'"
      "map length xs' = map length ([enc_list (map usize ks), enc_list vs0, concat ks] @ nonempty [vbuf])"
      "ret = YOKAN_ERR_ALLOCATION \<and> no_room A grow (get_region ks vs0 vbuf) w
         \<and> concat xs' = get_region ks vs0 vbuf
       \<or> (\<exists>buf c. ret = YOKAN_SUCCESS
            \<and> length (packed_back (length ks) vs vbuf
                    (stale buf (16 * length ks + length (concat ks)) (length vbuf))) = length vbuf
            \<and> lru_bulk_cache_get A grow n HG_BULK_READWRITE (w_cache w) = (Some buf, c)
            \<and> concat xs' = enc_list (map usize ks) @ enc_list ns @ concat ks
                @ packed_back (length ks) vs vbuf
                    (stale buf (16 * length ks + length (concat ks)) (length vbuf)))"
    using get_packed_transfer [OF assms(1-7,9-15)] unfolding n_def by blast
  have answer: "yk_get_packed CD (get_channel A grow cmp has_lua R) B mode (usize ks) (Some (concat ks))
      (Some (map usize ks)) (usize vbuf) (Some vbuf) (Some vs0) w
      = Done (ret, c_back (dec_list (length ks) (xs' ! 1)) (Some vs0),
        if vbuf \<noteq> [] then c_back (xs' ! 3) (Some vbuf) else Some vbuf, w')"
    unfolding yk_get_packed_exposes [OF assms(8,11-13)] run(1) [unfolded n_def] by (simp add: outcome_simps)
  have fin: thesis
    if "concat xs' = enc_list (map usize ks) @ enc_list ns' @ concat ks @ v" "length ns' = length ks"
      "length v = length vbuf" "ret = YOKAN_ERR_ALLOCATION \<and> no_room A grow (get_region ks vs0 vbuf) w \<and> ns' = vs0 \<and> v = vbuf
         \<or> ret = YOKAN_SUCCESS \<and> ns' = ns \<and> (\<exists>buf c.
              lru_bulk_cache_get A grow n HG_BULK_READWRITE (w_cache w) = (Some buf, c)
            \<and> v = packed_back (length ks) vs vbuf
                (stale buf (16 * length ks + length (concat ks)) (length vbuf)))" for ns' v
    using packed_segments [OF run(3) that(1,2) assms(12) that(3)] that(2-4) answer run(2) assms(12)
      goal [of ret ns' v w']
    by (cases "vbuf = []") (auto simp: c_back_def n_def)
  show thesis
    using run(4) fin [of vs0 vbuf] fin [of ns] out(1,2) assms(12)
    by (auto simp: get_region_def)
qed

text \<open>
  C6: a packed get over RDMA (\<open>yk_get_packed\<close>) without \<open>WAIT\<close> and \<open>CONSUME\<close> brings the sizes and the
  values, one after the other, into the caller's buffers as the specification of a packed get says, and
  leaves the database and the pool as they were; without memory for the transfer the caller's buffers
  are untouched.
\<close>

theorem rpc_get_packed_returns:
  assumes "total_comparator cmp" "serving A live grow cmp s w"
    and "margo_ok segs R" "reaches R a" "bulk_ok segs a B"
    and "map_supportsMode has_lua mode" "mode_valid mode" "\<not> has_mode mode YOKAN_MODE_NO_RDMA"
    and "\<not> has_mode mode YOKAN_MODE_WAIT" "\<not> has_mode mode YOKAN_MODE_CONSUME"
    and "client_keys ks" "length vs0 = length ks" "fits (get_region ks vs0 vbuf)"
    and "\<forall>v \<in> ran (map_of (m_db s)). sized v"
    and "pack_spec (map_of (m_db s)) (length vbuf) False ks = (ns, vs)"
  shows "\<exists>ret vsizes' vals' w'. yk_get_packed CD (get_channel A grow cmp has_lua R) B mode (usize ks)
      (Some (concat ks)) (Some (map usize ks)) (usize vbuf) (Some vbuf) (Some vs0) w
        = Done (ret, Some vsizes', Some vals', w')
    \<and> serving A live grow cmp s w' \<and> length vals' = length vbuf
    \<and> (if ret = YOKAN_ERR_ALLOCATION
       then no_room A grow (get_region ks vs0 vbuf) w \<and> vsizes' = vs0 \<and> vals' = vbuf
       else ret = YOKAN_SUCCESS \<and> vsizes' = ns \<and> take (length vs) vals' = vs)"
  by (rule get_packed_served [OF assms, where CD = CD]) (intro exI conjI, assumption+, auto simp: packed_back_def)

text \<open>
  C16: the rest of the caller's buffer is overwritten all the same: unless there is one key only, the
  bytes after the values are what the server's recycled buffer held before, the content of an earlier
  request.
\<close>

theorem rpc_get_packed_leaks:
  assumes "total_comparator cmp" "serving A live grow cmp s w"
    and "margo_ok segs R" "reaches R a" "bulk_ok segs a B"
    and "map_supportsMode has_lua mode" "mode_valid mode" "\<not> has_mode mode YOKAN_MODE_NO_RDMA"
    and "\<not> has_mode mode YOKAN_MODE_WAIT" "\<not> has_mode mode YOKAN_MODE_CONSUME"
    and "client_keys ks" "length vs0 = length ks" "fits (get_region ks vs0 vbuf)"
    and "\<forall>v \<in> ran (map_of (m_db s)). sized v"
    and "pack_spec (map_of (m_db s)) (length vbuf) False ks = (ns, vs)"
    and "length ks \<noteq> 1" "vs \<noteq> []"
  shows "\<exists>ret vsizes' vals' w'. yk_get_packed CD (get_channel A grow cmp has_lua R) B mode (usize ks)
      (Some (concat ks)) (Some (map usize ks)) (usize vbuf) (Some vbuf) (Some vs0) w
        = Done (ret, Some vsizes', Some vals', w')
    \<and> (no_room A grow (get_region ks vs0 vbuf) w
       \<or> (\<exists>buf c. lru_bulk_cache_get A grow (usize (get_region ks vs0 vbuf)) HG_BULK_READWRITE (w_cache w)
                    = (Some buf, c)
            \<and> vals' = vs @ drop (length vs) (stale buf (16 * length ks + length (concat ks)) (length vbuf))))"
  by (rule get_packed_served [OF assms(1-15), where CD = CD])
    (insert assms(16,17), intro exI conjI, assumption, auto simp: packed_back_def)

lemma served_map: "map_of (m_db (map_db kvs)) = map_of kvs"
  by (simp add: map_db_def)

theorem rpc_get_packed_returns_witness:
  "\<exists>ret vsizes' vals' w'. yk_get_packed (get_direct_channel DefaultMemCmp False (loop_rpc None))
      (get_channel (one_block 7) id DefaultMemCmp False (loop_rpc None))
      loop_bulk YOKAN_MODE_DEFAULT 1 (Some [1]) (Some [1]) 2 (Some [0, 0]) (Some [0])
      (loop_world (map_db [([1], [5])])) = Done (ret, Some vsizes', Some vals', w')
    \<and> ret = YOKAN_SUCCESS \<and> vsizes' = [1] \<and> take 1 vals' = [5]"
proof -
  have r: "client_keys [[1]]" "length [0 :: size_t] = length [[1 :: byte]]" "fits (get_region [[1]] [0] [0, 0])"
    "\<forall>v \<in> ran (map_of (m_db (map_db [([1], [5])]))). sized v"
    "pack_spec (map_of (m_db (map_db [([1], [5])]))) (length [0 :: byte, 0]) False [[1]] = ([1], [5])"
    "nodes_ok DefaultMemCmp fst [([1 :: byte], [5 :: byte])]"
    by (simp_all add: get_region_def client_keys_def usize_def served_map sized_def nodes_ok_def)
  show ?thesis
    using rpc_get_packed_returns [OF memcmp_total loop_serving [OF r(6), of 7] loop_margo [of None]
        loop_reaches loop_bulk_ok default_mode(1) [of False] default_mode(2,3,3,3) r(1-5),
        where CD = "get_direct_channel DefaultMemCmp False (loop_rpc None)"]
    by (elim exE conjE) (intro exI conjI,
      auto simp: usize_def first_room get_region_def split: if_splits)
qed

theorem rpc_get_packed_leaks_witness:
  "\<exists>ret vsizes' vals' w'. yk_get_packed (get_direct_channel DefaultMemCmp False (loop_rpc None))
      (get_channel (one_block 7) id DefaultMemCmp False (loop_rpc None))
      loop_bulk YOKAN_MODE_DEFAULT 2 (Some [1, 2]) (Some [1, 1]) 3 (Some [0, 0, 0]) (Some [0, 0])
      (loop_world (map_db [([1], [5])])) = Done (ret, Some vsizes', Some vals', w')
    \<and> vals' = [5, 7, 7]"
proof -
  have r: "client_keys [[1 :: byte], [2]]" "length [0 :: size_t, 0] = length [[1 :: byte], [2]]"
    "fits (get_region [[1 :: byte], [2]] [0, 0] [0, 0, 0])"
    "\<forall>v \<in> ran (map_of (m_db (map_db [([1 :: byte], [5 :: byte])]))). sized v"
    "pack_spec (map_of (m_db (map_db [([1 :: byte], [5 :: byte])]))) (length [0 :: byte, 0, 0]) False [[1], [2]]
      = ([1, YOKAN_KEY_NOT_FOUND], [5])"
    "length [[1 :: byte], [2]] \<noteq> 1" "[5 :: byte] \<noteq> []"
    "nodes_ok DefaultMemCmp fst [([1 :: byte], [5 :: byte])]"
    by (simp_all add: get_region_def client_keys_def usize_def served_map sized_def nodes_ok_def)
  show ?thesis
    using rpc_get_packed_leaks [OF memcmp_total loop_serving [OF r(8), of 7] loop_margo [of None]
        loop_reaches loop_bulk_ok default_mode(1) [of False] default_mode(2,3,3,3) r(1-7),
        where CD = "get_direct_channel DefaultMemCmp False (loop_rpc None)"]
    by (elim exE conjE) (intro exI conjI, simp add: usize_def,
      auto dest!: first_buffer simp: stale_def usize_def get_region_def first_room)
qed

end
