(* ===== verification/RpcTypes.thy ===== *)
theory RpcTypes
  imports RpcProperties
begin

text \<open>
  The shape of what a get answers, in every mode and whatever other threads do, and of what the client
  makes of it: an answer always fits the buffers it is decoded into.
\<close>

section \<open>The buffers of a get\<close>

definition get_shape :: "nat \<Rightarrow> nat \<Rightarrow> size_t \<Rightarrow> get_out \<Rightarrow> bool" where
  "get_shape nvals nsizes room out \<longleftrightarrow>
     length (g_vals out) = nvals \<and> length (g_vsizes out) = nsizes \<and> g_size out \<le> room"

lemma valCopy_shape:
  "valCopy mode dst off room v = Done (n, dst') \<Longrightarrow>
     length dst' = length dst \<and> (n \<noteq> YOKAN_SIZE_TOO_SMALL \<longrightarrow> n \<le> room)"
  by (auto simp: valCopy_def obind_Done_iff dest: memcpy_to_length split: if_splits)

lemma get_loop_shape:
  "kv_get_loop C mode keys ksizes i koff voff out env s = Done (st, out', env', s') \<Longrightarrow>
     length (g_vals out') = length (g_vals out) \<and> length (g_vsizes out') = length (g_vsizes out)
     \<and> g_size out' = g_size out"
proof (induction ksizes arbitrary: i koff voff out env s)
  case (Cons ksize ksizes)
  obtain key r env1 s1 where found: "sub_umem keys koff ksize = Done key"
    "find_retry (kv_look C (um_data key)) (has_mode mode YOKAN_MODE_WAIT) key env s = Done (r, env1, s1)"
    using Cons.prems by (auto simp: Let_def obind_Done_iff split: prod.splits)
  show ?case
    using Cons.prems found
    by (cases r) (auto simp: Let_def obind_Done_iff split: prod.splits dest!: Cons.IH valCopy_shape)
qed simp

lemma get_packed_loop_shape:
  "kv_get_packed_loop C mode keys ksizes i koff voff room small out env s = Done (st, out', env', s')
     \<Longrightarrow> room \<le> g_size out
     \<Longrightarrow> length (g_vals out') = length (g_vals out) \<and> length (g_vsizes out') = length (g_vsizes out)
       \<and> g_size out' \<le> g_size out"
proof (induction ksizes arbitrary: i koff voff room small out env s)
  case Nil
  then show ?case by (auto simp: word_sub_le)
next
  case (Cons ksize ksizes)
  have less: "room - n \<le> g_size out" if "n \<le> room" for n
    using that Cons.prems(2) by (meson order_trans word_sub_le)
  obtain key r env1 s1 where found: "sub_umem keys koff ksize = Done key"
    "find_retry (kv_look C (um_data key)) (has_mode mode YOKAN_MODE_WAIT) key env s = Done (r, env1, s1)"
    using Cons.prems by (auto simp: Let_def obind_Done_iff split: prod.splits)
  show ?case
    using Cons.prems found
    by (cases r) (auto simp: Let_def obind_Done_iff less split: prod.splits if_splits
        dest!: Cons.IH valCopy_shape)
qed

lemma kv_get_shape:
  assumes "kv_get C mode packed keys ksizes vals vsizes env s = Done (st, out, env', s')"
  shows "get_shape (length vals) (length vsizes) (usize vals) out"
  using assms
  by (auto simp: kv_get_def Let_def obind_Done_iff get_shape_def split: if_splits prod.splits
      dest!: get_loop_shape get_packed_loop_shape)

lemma erase_loop_status:
  "kv_erase_loop C mode_wait keys ksizes off env s = Done (st, env', s') \<Longrightarrow> st \<in> {OK, InvalidArg, TimedOut}"
proof (induction ksizes arbitrary: off env s)
  case (Cons ksize ksizes)
  show ?case
  proof (cases "off + ksize > usize (um_data keys)")
    case False
    obtain key r env1 s1 where found: "sub_umem keys off ksize = Done key"
      "find_retry (kv_look C (um_data key)) mode_wait key env s = Done (r, env1, s1)"
      using Cons.prems False by (auto simp: obind_Done_iff split: prod.splits)
    then show ?thesis
      using Cons.prems False by (cases r) (auto dest!: Cons.IH)
  qed (use Cons.prems in auto)
qed simp

lemma get_loop_status:
  "kv_get_loop C mode keys ksizes i koff voff out env s = Done (st, out', env', s') \<Longrightarrow> st \<in> {OK, TimedOut}"
proof (induction ksizes arbitrary: i koff voff out env s)
  case (Cons ksize ksizes)
  obtain key r env1 s1 where found: "sub_umem keys koff ksize = Done key"
    "find_retry (kv_look C (um_data key)) (has_mode mode YOKAN_MODE_WAIT) key env s = Done (r, env1, s1)"
    using Cons.prems by (auto simp: Let_def obind_Done_iff split: prod.splits)
  show ?case
    using Cons.prems found
    by (cases r) (auto simp: Let_def obind_Done_iff split: prod.splits dest!: Cons.IH)
qed simp

lemma get_packed_loop_status:
  "kv_get_packed_loop C mode keys ksizes i koff voff room small out env s = Done (st, out', env', s')
     \<Longrightarrow> st \<in> {OK, TimedOut}"
proof (induction ksizes arbitrary: i koff voff room small out env s)
  case (Cons ksize ksizes)
  obtain key r env1 s1 where found: "sub_umem keys koff ksize = Done key"
    "find_retry (kv_look C (um_data key)) (has_mode mode YOKAN_MODE_WAIT) key env s = Done (r, env1, s1)"
    using Cons.prems by (auto simp: Let_def obind_Done_iff split: prod.splits)
  show ?case
    using Cons.prems found
    by (cases r) (auto simp: Let_def obind_Done_iff split: prod.splits if_splits dest!: Cons.IH)
qed simp

lemma kv_get_status:
  assumes "kv_get C mode packed keys ksizes vals vsizes env s = Done (st, out, env', s')"
  shows "st \<in> {OK, InvalidArg, TimedOut, Migrated}"
  using assms
  by (auto simp: kv_get_def kv_erase_def Let_def obind_Done_iff split: if_splits prod.splits
      dest!: get_loop_status get_packed_loop_status erase_loop_status)

lemma map_database_get_shape:
  assumes "o_get (map_database cmp has_lua) mode packed keys ksizes vals vsizes s = Done (st, out, s')"
  shows "get_shape (length vals) (length vsizes) (usize vals) out \<and> status_ret st \<noteq> YOKAN_ERR_FROM_MERCURY"
  using assms unfolding map_database_simps map_get_def
  by (auto simp: alone_def obind_Done_iff dest: kv_get_shape kv_get_status)

section \<open>Direct answers\<close>

lemma usize_zeros [simp]: "usize (zeros n) = n" "length (zeros n) = unat n"
  by (simp_all add: zeros_def usize_def)

lemma sub_bytes_length: "sub_bytes b off n = Done x \<Longrightarrow> length x = unat n"
  by (auto simp: sub_bytes_def split: if_splits)

lemma get_direct_answer:
  assumes "yk_get_direct_ult (R\<lparr> rpc_input := Some inp \<rparr>) (map_database cmp has_lua) db
      = Done ((ret, sizes, bytes), db')" "reaches R a"
  shows "ret \<noteq> YOKAN_ERR_FROM_MERCURY" "sizes = [] \<or> length sizes = length (gd_ksizes inp)"
    "length bytes \<le> unat (gd_vbufsize inp)"
proof -
  have "ret \<noteq> YOKAN_ERR_FROM_MERCURY \<and> (sizes = [] \<or> length sizes = length (gd_ksizes inp))
      \<and> length bytes \<le> unat (gd_vbufsize inp)"
    using assms
    by (auto simp: yk_get_direct_ult_def direct_op_def handler_input_def reaches_def check_database_def
        no_out_def obind_Done_iff get_shape_def word_le_nat_alt
        split: option.splits if_splits prod.splits
        simp del: map_database_simps
        dest!: map_database_get_shape sub_bytes_length)
  then show "ret \<noteq> YOKAN_ERR_FROM_MERCURY" "sizes = [] \<or> length sizes = length (gd_ksizes inp)"
    "length bytes \<le> unat (gd_vbufsize inp)" by simp_all
qed

lemma channel_to_simps [simp]:
  "freed (channel_to h) r = r"
  "call_rpc (channel_to h) inp w err k = obind (h inp w) (\<lambda>(out, w'). k out w')"
  by (cases "h inp w"; auto simp: freed_def call_rpc_def channel_to_def)+

lemma c_array_length: "c_array n p = Done xs \<Longrightarrow> length xs = unat n"
  by (auto simp: c_array_def split: option.splits if_splits)

lemma c_array_Some: "c_array n (Some xs) = Done ys \<Longrightarrow> ys = take (unat n) xs \<and> unat n \<le> length xs"
  by (auto simp: c_array_def split: if_splits)

text \<open>
  C10: a direct get leaves the caller's two buffers as long as they were and never fails to decode an
  answer, whatever the mode, the keys and the sizes: the handler answers with no sizes or one for each
  key, and with no more bytes than the caller asked for.
\<close>

theorem rpc_get_direct_typed:
  assumes "reaches R a"
    and "yk_get_direct (get_direct_channel cmp has_lua R) mode n keys ksizes vbufsize vals vsizes w
      = Done (ret, vsizes', vals', w')"
  shows "ret \<noteq> YOKAN_ERR_FROM_MERCURY \<and> map_option length vsizes' = map_option length vsizes
    \<and> map_option length vals' = map_option length vals"
proof (cases "n = 0 \<or> keys = None \<or> ksizes = None \<or> vsizes = None \<or> (vals = None \<and> vbufsize \<noteq> 0)
    \<or> \<not> mode_valid mode")
  case True
  then show ?thesis using assms(2) by (auto simp: yk_get_direct_def split: if_splits)
next
  case False
  then obtain kp vp where p: "ksizes = Some kp" "vsizes = Some vp" by auto
  let ?inp = "\<lambda>ks kdata. \<lparr> gd_mode = mode, gd_vbufsize = vbufsize, gd_ksizes = ks, gd_keys = local_mem kdata \<rparr>"
  from False assms(2) p obtain ks vs vbuf kdata out db' where
    args: "c_array n (Some kp) = Done ks" "c_array n (Some vp) = Done vs" "c_array vbufsize vals = Done vbuf"
    and call: "yk_get_direct_ult (R\<lparr> rpc_input := Some (?inp ks kdata) \<rparr>) (map_database cmp has_lua) (w_db w)
        = Done (out, db')"
    and ans: "(case out of (ret, out_vsizes, out_vals) \<Rightarrow>
             case proc_into vs out_vsizes of (hret, vs') \<Rightarrow>
               if hret \<noteq> HG_SUCCESS then Done (YOKAN_ERR_FROM_MERCURY, c_back vs' vsizes, vals, w\<lparr> w_db := db' \<rparr>)
               else case (if vals = None then (HG_SUCCESS, []) else proc_into vbuf out_vals) of
                 (hret, vbuf') \<Rightarrow>
                   Done (if hret \<noteq> HG_SUCCESS then YOKAN_ERR_FROM_MERCURY else ret,
                         c_back vs' vsizes, c_back vbuf' vals, w\<lparr> w_db := db' \<rparr>))
        = Done (ret, vsizes', vals', w')"
    by (auto simp: yk_get_direct_def get_direct_channel_def on_db_def
        obind_Done_iff cong: if_cong split del: if_split)
  obtain ret' sizes bytes where out: "out = (ret', sizes, bytes)" by (cases out) auto
  note shape = get_direct_answer [OF call [unfolded out] assms(1)]
  have "length sizes \<le> length vs" using shape(2) args(1,2) [THEN c_array_length] by auto
  moreover have "vals = None \<or> length bytes \<le> length vbuf"
    using shape(3) args(3) [THEN c_array_length] by auto
  ultimately show ?thesis
    using ans out shape(1) p args(2,3)
    by (cases vals) (auto simp: proc_into_def c_back_def dest!: c_array_Some)
qed

section \<open>Direct calls on well-formed arguments\<close>


lemma get_direct_runs:
  assumes "total_comparator cmp" "w_db w = Some s" "nodes_ok cmp fst (m_db s)" "\<not> m_migrated s"
    and "reaches R a" "map_supportsMode has_lua mode" "mode_valid mode"
    and "\<not> has_mode mode YOKAN_MODE_WAIT" "\<not> has_mode mode YOKAN_MODE_CONSUME"
    and "client_keys ks" "length vs0 = length ks" "fits (get_region ks vs0 vbuf)"
    and "\<forall>v \<in> ran (map_of (m_db s)). sized v"
    and "pack_spec (map_of (m_db s)) (length vbuf) False ks = (ns, vs)"
  shows "yk_get_direct (get_direct_channel cmp has_lua R) mode (usize ks) (Some (concat ks))
      (Some (map usize ks)) (usize vbuf) (Some vbuf) (Some vs0) w
    = Done (YOKAN_SUCCESS, Some ns, Some (vs @ drop (length vs) vbuf), w)"
proof -
  note f = get_region_fits [OF assms(12,11)]
  note ks = client_keysD [OF assms(10) f(3)]
  note out = packed_delivered [OF assms(14,13) f(2,4)]
  have n: "usize ks \<noteq> 0" using ks(1) f(4) by (simp add: usize_0)
  have a: "c_array (usize ks) (Some (map usize ks)) = Done (map usize ks :: size_t list)"
    "c_array (usize ks) (Some vs0) = Done vs0" "c_array (usize vbuf) (Some vbuf) = Done vbuf"
    "c_array (accumulate (map usize ks)) (Some (concat ks)) = Done (concat ks)"
    using f assms(11) by (simp_all add: accumulate_usize) (simp_all add: usize_def c_array_def unat_of_nat)
  have z: "length (zeros (usize vbuf)) = length vbuf" using f(2) by (simp add: unat_usize)
  have min: "min_size (map usize ks) \<noteq> 0" using ks(2) by (auto simp: min_size_0)
  have get: "o_get (map_database cmp has_lua) mode True (local_mem (concat ks)) (map usize ks)
      (zeros (usize vbuf)) (replicate (length ks) 0) s
    = Done (OK, \<lparr> g_vals = vs @ drop (length vs) (zeros (usize vbuf)), g_size = usize vs, g_vsizes = ns \<rparr>, s)"
    using map_get_called [OF assms(1,3,4) f(1) assms(8,9,13) f(2) z _ assms(14), of "replicate (length ks) 0"]
    unfolding local_mem_def by auto
  have vals: "sub_bytes (vs @ rest) 0 (usize vs) = Done vs" for rest
    using out(2) f(2) by (simp add: sub_bytes_def unat_usize)
  show ?thesis
    using n a min get vals assms(2,5-7) out(1,2)
    by (simp add: yk_get_direct_def get_direct_channel_def on_db_def yk_get_direct_ult_def proc_into_def
        direct_op_def handler_input_def check_database_def reaches_def c_back_def assms(11))
qed

theorem rpc_get_direct_typed_witness:
  "\<exists>ret vsizes' vals' w'. yk_get_direct (get_direct_channel DefaultMemCmp False (loop_rpc None))
      YOKAN_MODE_DEFAULT 2 (Some [1, 2]) (Some [1, 1]) 3 (Some [0, 0, 0]) (Some [0, 0])
      (loop_world (map_db [([1], [5])])) = Done (ret, vsizes', vals', w')
    \<and> ret \<noteq> YOKAN_ERR_FROM_MERCURY \<and> map_option length vsizes' = Some 2 \<and> map_option length vals' = Some 3"
proof -
  let ?w = "loop_world (map_db [([1 :: byte], [5 :: byte])])"
  have r: "client_keys [[1 :: byte], [2]]" "length [0 :: size_t, 0] = length [[1 :: byte], [2]]"
    "fits (get_region [[1 :: byte], [2]] [0, 0] [0, 0, 0])"
    "\<forall>v \<in> ran (map_of (m_db (map_db [([1 :: byte], [5 :: byte])]))). sized v"
    "nodes_ok DefaultMemCmp fst (m_db (map_db [([1 :: byte], [5 :: byte])]))"
    "\<not> m_migrated (map_db [([1 :: byte], [5 :: byte])])" "w_db ?w = Some (map_db [([1], [5])])"
    by (simp_all add: get_region_def client_keys_def served_map sized_def nodes_ok_def map_db_def loop_world_def)
  obtain ns vs where p: "pack_spec (map_of (m_db (map_db [([1 :: byte], [5 :: byte])])))
      (length [0 :: byte, 0, 0]) False [[1], [2]] = (ns, vs)" by fastforce
  have run: "yk_get_direct (get_direct_channel DefaultMemCmp False (loop_rpc None))
      YOKAN_MODE_DEFAULT 2 (Some [1, 2]) (Some [1, 1]) 3 (Some [0, 0, 0]) (Some [0, 0]) ?w
      = Done (YOKAN_SUCCESS, Some ns, Some (vs @ drop (length vs) [0, 0, 0]), ?w)"
    using get_direct_runs [OF memcmp_total r(7,5,6) loop_reaches default_mode(1) [of False]
        default_mode(2,3,3) r(1-4) p] by (simp add: usize_def)
  show ?thesis
    using rpc_get_direct_typed [OF loop_reaches run] run by auto
qed



end
