(* ===== verification/RpcMulti.thy ===== *)
theory RpcMulti
  imports RpcTypes
begin

text \<open>
  A get with one buffer for each value (\<open>yk_get_multi\<close>), which is always sent by RDMA: what two and
  more keys bring, and why one key that is absent, or whose value is too long, is an error.
\<close>

section \<open>The database call\<close>

text \<open>What the values become in a buffer that held \<open>slots\<close>.\<close>

definition slots_out :: "(bytes \<rightharpoonup> bytes) \<Rightarrow> bytes list \<Rightarrow> bytes list \<Rightarrow> bytes list" where
  "slots_out m ks slots = map2 (\<lambda>k sl. snd (slot_spec m k sl)) ks slots"

definition slots_sizes :: "(bytes \<rightharpoonup> bytes) \<Rightarrow> bytes list \<Rightarrow> bytes list \<Rightarrow> size_t list" where
  "slots_sizes m ks slots = map2 (\<lambda>k sl. fst (slot_spec m k sl)) ks slots"

definition multi_out :: "(bytes \<rightharpoonup> bytes) \<Rightarrow> bytes list \<Rightarrow> bytes list \<Rightarrow> get_out" where
  "multi_out m ks slots = \<lparr> g_vals = concat (slots_out m ks slots), g_size = usize (concat slots),
     g_vsizes = slots_sizes m ks slots \<rparr>"

lemma slots_lengths:
  assumes "length ks = length slots"
  shows "map length (slots_out m ks slots) = map length slots" "length (slots_sizes m ks slots) = length ks"
    "length (concat (slots_out m ks slots)) = length (concat slots)" "length (slots_out m ks slots) = length slots"
proof -
  show l: "map length (slots_out m ks slots) = map length slots"
    using assms by (induction ks slots rule: list_induct2) (simp_all add: slots_out_def slot_spec_length)
  then show "length (concat (slots_out m ks slots)) = length (concat slots)"
    by (simp add: length_concat)
  show "length (slots_sizes m ks slots) = length ks" "length (slots_out m ks slots) = length slots"
    using assms by (simp_all add: slots_sizes_def slots_out_def)
qed

lemma multi_out_simps [simp]:
  "g_vals (multi_out m ks slots) = concat (slots_out m ks slots)"
  "g_size (multi_out m ks slots) = usize (concat slots)"
  "g_vsizes (multi_out m ks slots) = slots_sizes m ks slots"
  by (simp_all add: multi_out_def)

lemma slot_size_room: "length a = length b \<Longrightarrow> fst (slot_spec m k a) = fst (slot_spec m k b)"
  by (auto simp: slot_spec_def split: option.split)

lemma slots_sizes_room: "map length slots = map length slots' \<Longrightarrow> length ks = length slots
    \<Longrightarrow> slots_sizes m ks slots = slots_sizes m ks slots'"
proof (induction ks arbitrary: slots slots')
  case (Cons k ks)
  then obtain a as b bs where "slots = a # as" "slots' = b # bs" by (cases slots; cases slots') auto
  then show ?case using Cons slot_size_room [of a b m k] by (simp add: slots_sizes_def)
qed (simp add: slots_sizes_def)

lemma map_get_unpacked_called:
  assumes "total_comparator cmp" "nodes_ok cmp fst (m_db s)" "\<not> m_migrated s" "fits (concat ks)"
    and "\<not> has_mode mode YOKAN_MODE_WAIT" "\<not> has_mode mode YOKAN_MODE_CONSUME"
    and "\<forall>v \<in> ran (map_of (m_db s)). sized v" "fits (concat slots)" "length ks = length slots"
  shows "o_get (map_database cmp has_lua) mode False \<lparr> um_addr = x, um_data = concat ks \<rparr>
      (map usize ks) (concat slots) (map usize slots) s = Done (OK, multi_out (map_of (m_db s)) ks slots, s)"
proof -
  have "packs (concat ks) ks (map usize ks)" "packs (concat slots) slots (map usize slots)"
    using assms(4,8) packsI [of ks "[]"] packsI [of slots "[]"] by simp_all
  then have "map_get cmp mode False \<lparr> um_addr = x, um_data = concat ks \<rparr> (map usize ks) (concat slots)
      (map usize slots) [] s = Done (OK, multi_out (map_of (m_db s)) ks slots, [], s)"
    unfolding map_get_def multi_out_def slots_out_def slots_sizes_def
    using kv_container.get_unpacked_law [OF map_is_container [OF assms(1)] assms(2,3)] assms(5-9) by simp
  then show ?thesis by (simp add: alone_def outcome_simps)
qed

section \<open>The transfer\<close>

lemma get_multi_transfer:
  assumes "total_comparator cmp" "serving A live grow cmp s w"
    and "margo_ok segs R" "reaches R a" "bulk_ok segs a B"
    and "map_supportsMode has_lua mode" "mode_valid mode"
    and "\<not> has_mode mode YOKAN_MODE_WAIT" "\<not> has_mode mode YOKAN_MODE_CONSUME"
    and "client_keys ks" "length slots = length ks"
    and "fits (get_region ks (map usize slots) (concat slots))"
    and "\<forall>v \<in> ran (map_of (m_db s)). sized v"
  defines "xs \<equiv> [enc_list (map usize ks), enc_list (map usize slots)] @ ks @ nonempty slots"
    and "m \<equiv> map_of (m_db s)"
  shows "\<exists>ret xs' w'. with_bulk B HG_BULK_READWRITE xs w (\<lambda>bulk. yk_get_bulk
        (get_channel A grow cmp has_lua R) mode (usize ks) None bulk 0
        (usize (get_region ks (map usize slots) (concat slots))) False) = Done (ret, xs', w')
    \<and> serving A live grow cmp s w' \<and> map length xs' = map length xs
    \<and> (ret = YOKAN_ERR_ALLOCATION \<and> no_room A grow (get_region ks (map usize slots) (concat slots)) w \<and> xs' = xs
       \<or> (\<exists>old. map length old = map length slots
            \<and> (if overrun (multi_out m ks old) (length (concat slots)) (usize ks)
               then ret = YOKAN_ERR_FROM_MERCURY \<and> concat xs' = concat xs
               else ret = YOKAN_SUCCESS \<and> concat xs' = enc_list (map usize ks)
                 @ enc_list (slots_sizes m ks slots) @ concat ks
                 @ delivered (multi_out m ks old) (concat slots) (usize ks))))"
proof -
  have len: "length (map usize slots :: size_t list) = length ks" using assms(11) by simp
  note f = get_region_fits [OF assms(12) len]
  note ks = client_keysD [OF assms(10) f(3)]
  have s: "lru_bulk_inv A live grow {} (w_cache w)" "w_db w = Some s" "nodes_ok cmp fst (m_db s)"
    "\<not> m_migrated s" using assms(2) by (simp_all add: serving_def)
  have sup: "o_supports (map_database cmp has_lua) mode" using assms(6) by simp
  have xs: "[] \<notin> set xs" "concat xs = get_region ks (map usize slots) (concat slots)"
    using ks(1) assms(10,11) by (auto simp: xs_def get_region_def client_keys_def)
  let ?old = "\<lambda>v0. resplit (map length slots) v0"
  let ?Q = "\<lambda>v0 o' db'. db' = s \<and> length v0 = length (concat slots) \<and> o' = multi_out m ks (?old v0)"
  have old: "concat (?old v0) = v0 \<and> map length (?old v0) = map length slots"
    if "length v0 = length (concat slots)" for v0
    using that by (intro resplit_concat) (simp add: length_concat)
  have get: "\<exists>o' db'. o_get (map_database cmp has_lua) mode False \<lparr> um_addr = x, um_data = concat ks \<rparr>
      (map usize ks) v0 vs1 s = Done (OK, o', db') \<and> length (g_vsizes o') = length ks
      \<and> length (g_vals o') = length (concat slots) \<and> ?Q v0 o' db'"
    if v0: "length v0 = length (concat slots)" and vs1: "\<not> False \<Longrightarrow> vs1 = map usize slots" for x v0 vs1
  proof -
    note o = old [OF v0]
    then have l: "length ks = length (?old v0)" using assms(11) map_eq_imp_length_eq by metis
    have "map usize (?old v0) = (map usize slots :: size_t list)"
      using o by (metis (no_types, lifting) list.map_comp map_eq_conv comp_apply usize_def)
    then show ?thesis
      using map_get_unpacked_called [OF assms(1) s(3,4) f(1) assms(8,9,13) _ l, of has_lua x] o v0 vs1 f(2)
        slots_lengths [OF l, of m] by (auto simp: m_def multi_out_def)
  qed
  have acc: "\<not> False \<Longrightarrow> accumulate (map usize slots) = usize (concat slots)" by (simp add: accumulate_usize)
  have "\<exists>ret xs' w'. with_bulk B HG_BULK_READWRITE xs w (\<lambda>bulk. yk_get_bulk
        (get_channel A grow cmp has_lua R) mode (usize ks) None bulk 0
        (usize (get_region ks (map usize slots) (concat slots))) False) = Done (ret, xs', w')
    \<and> lru_bulk_inv A live grow {} (w_cache w') \<and> map length xs' = map length xs
    \<and> (ret = YOKAN_ERR_ALLOCATION \<and> no_room A grow (get_region ks (map usize slots) (concat slots)) w \<and> w_db w' = Some s \<and> xs' = xs
       \<or> (\<exists>buf c o' db'. w_db w' = Some db' \<and> buffer_ok buf
            \<and> usize (get_region ks (map usize slots) (concat slots)) \<le> yb_size buf
            \<and> lru_bulk_cache_get A grow (usize (get_region ks (map usize slots) (concat slots)))
                HG_BULK_READWRITE (w_cache w) = (Some buf, c)
            \<and> length (g_vsizes o') = length ks \<and> length (g_vals o') = length (concat slots)
            \<and> ?Q (stale buf (16 * length ks + length (concat ks)) (length (concat slots))) o' db'
            \<and> (if overrun o' (length (concat slots)) (usize ks)
                then ret = YOKAN_ERR_FROM_MERCURY \<and> concat xs' = get_region ks (map usize slots) (concat slots)
                else ret = YOKAN_SUCCESS \<and> concat xs' = enc_list (map usize ks) @ enc_list (g_vsizes o')
                  @ concat ks @ delivered o' (concat slots) (usize ks))))"
    unfolding get_channel_def lru_ops_def no_room_def
    by (rule lru_pool.get_rdma_law [OF s(1) assms(3-5) s(2) sup assms(7) xs assms(12) get_region_def
        ks(1,2) len acc, where Q = ?Q]) (assumption, rule get)
  then show ?thesis
  proof (elim exE conjE disjE, goal_cases)
    case (1 ret xs' w')
    then show ?case using s(3,4) by (auto simp: serving_def)
  next
    case (2 ret xs' w' buf c o' db')
    define st where "st = stale buf (16 * length ks + length (concat ks)) (length (concat slots))"
    have st: "map length (?old st) = map length slots" using old [of st] 2 by (simp add: st_def)
    then have "slots_sizes m ks (?old st) = slots_sizes m ks slots"
      using assms(11) map_eq_imp_length_eq [OF st] by (intro slots_sizes_room) simp_all
    moreover have "serving A live grow cmp s w'" using 2 s(3,4) by (simp add: serving_def)
    moreover have "if overrun (multi_out m ks (?old st)) (length (concat slots)) (usize ks)
        then ret = YOKAN_ERR_FROM_MERCURY \<and> concat xs' = concat xs
        else ret = YOKAN_SUCCESS \<and> concat xs' = enc_list (map usize ks)
          @ enc_list (slots_sizes m ks (?old st)) @ concat ks
          @ delivered (multi_out m ks (?old st)) (concat slots) (usize ks)"
      using 2 xs(2) by (simp add: st_def)
    ultimately show ?case using 2(1,3) st by metis
  qed
qed

lemma nonempty_lengths: "map length new = map length slots
    \<Longrightarrow> map length (nonempty new) = map length (nonempty slots)"
proof (induction new arbitrary: slots)
  case (Cons x new)
  then obtain y ys where "slots = y # ys" by (cases slots) auto
  then show ?case using Cons by (auto simp: nonempty_def)
qed (simp add: nonempty_def)

lemma multi_segments:
  assumes "map length xs' = map length ([enc_list (map usize ks), enc_list (map usize slots)] @ ks @ nonempty slots)"
    and "concat xs' = enc_list (map usize ks) @ enc_list ns @ concat ks @ concat new"
    and "length ns = length ks" "length slots = length ks" "map length new = map length slots"
    and "\<forall>x \<in> set slots. fits x"
  shows "dec_list (length ks) (xs' ! 1) = ns"
    and "put_back (map usize slots) (map Some slots) (drop (2 + length ks) xs') = map Some new"
proof -
  have "xs' = [enc_list (map usize ks), enc_list ns] @ ks @ nonempty new"
    using assms(1-5) nonempty_lengths [OF assms(5)] by (intro segments_eq) simp_all
  moreover have "list_all2 (\<lambda>x y. length x = length y) new slots"
    using assms(5) by (simp add: list_all2_conv_all_nth) (metis length_map nth_map)
  ultimately show "dec_list (length ks) (xs' ! 1) = ns"
    "put_back (map usize slots) (map Some slots) (drop (2 + length ks) xs') = map Some new"
    using assms(3) dec_enc_list [of ns "[]"] put_back_slots [OF assms(6)] by simp_all
qed

text \<open>What the client makes of the transfer, when sizes \<open>ns\<close> and values \<open>new\<close> came back.\<close>

lemma get_multi_back:
  assumes "client_keys ks" "length slots = length ks"
    and "fits (get_region ks (map usize slots) (concat slots))"
    and "with_bulk B HG_BULK_READWRITE ([enc_list (map usize ks), enc_list (map usize slots)] @ ks @ nonempty slots) w
        (\<lambda>bulk. yk_get_bulk C mode (usize ks) None bulk 0
           (usize (get_region ks (map usize slots) (concat slots))) False) = Done (ret, xs', w')"
    and "map length xs' = map length ([enc_list (map usize ks), enc_list (map usize slots)] @ ks @ nonempty slots)"
    and "concat xs' = enc_list (map usize ks) @ enc_list ns @ concat ks @ concat new"
    and "length ns = length ks" "map length new = map length slots"
  shows "yk_get_multi C B mode (usize ks) (Some (map Some ks)) (Some (map usize ks))
      (Some (map Some slots)) (Some (map usize slots)) w = Done (ret, Some ns, Some (map Some new), w')"
proof -
  have len: "length (map usize slots :: size_t list) = length ks" using assms(2) by simp
  have f: "\<forall>x \<in> set slots. fits x"
    using get_region_fits(2) [OF assms(3) len] by (auto dest: length_le_concat)
  have "length new = length slots" using assms(8) by (rule map_eq_imp_length_eq)
  then show ?thesis
    unfolding yk_get_multi_exposes [OF assms(1-3)] assms(4)
    using multi_segments [OF assms(5,6,7,2,8) f] assms(2,7) by (simp add: outcome_simps c_back_def)
qed

text \<open>With more than one key the whole area comes back.\<close>

lemma multi_delivered:
  assumes "usize ks \<noteq> 1" "map length old = map length slots" "length ks = length old" "fits (concat slots)"
  shows "delivered (multi_out m ks old) (concat slots) (usize ks) = concat (slots_out m ks old)"
proof -
  have c: "length (concat old) = length (concat slots)" using assms(2) by (simp add: length_concat)
  show ?thesis
  proof (cases "concat slots")
    case Nil
    then show ?thesis
      using c slots_lengths(3) [OF assms(3), of m] by (simp add: delivered_def del: concat_eq_Nil_conv)
  next
    case Cons
    then have "concat old \<noteq> []" using c by (metis length_0_conv list.discI)
    then show ?thesis using assms(1,4) c by (simp add: delivered_def usize_0 del: concat_eq_Nil_conv)
  qed
qed

text \<open>
  C7: \<open>yk_get_multi\<close> with two or more keys brings for each key the size of its value, or the mark of an
  absent key or of a buffer too small, and the value in the front of the caller's buffer. The rest of
  the buffer is overwritten too, by what the server's recycled buffer held (\<open>old\<close>).
\<close>

theorem rpc_get_multi_returns:
  assumes "total_comparator cmp" "serving A live grow cmp s w"
    and "margo_ok segs R" "reaches R a" "bulk_ok segs a B"
    and "map_supportsMode has_lua mode" "mode_valid mode"
    and "\<not> has_mode mode YOKAN_MODE_WAIT" "\<not> has_mode mode YOKAN_MODE_CONSUME"
    and "client_keys ks" "length slots = length ks" "length ks \<noteq> 1"
    and "fits (get_region ks (map usize slots) (concat slots))"
    and "\<forall>v \<in> ran (map_of (m_db s)). sized v"
  shows "\<exists>ret ns new w'. yk_get_multi (get_channel A grow cmp has_lua R) B mode (usize ks)
      (Some (map Some ks)) (Some (map usize ks)) (Some (map Some slots)) (Some (map usize slots)) w
        = Done (ret, Some ns, Some (map Some new), w')
    \<and> serving A live grow cmp s w' \<and> map length new = map length slots
    \<and> (if ret = YOKAN_ERR_ALLOCATION
       then no_room A grow (get_region ks (map usize slots) (concat slots)) w
         \<and> ns = map usize slots \<and> new = slots
       else ret = YOKAN_SUCCESS \<and> ns = slots_sizes (map_of (m_db s)) ks slots
         \<and> (\<exists>old. map length old = map length slots \<and> new = slots_out (map_of (m_db s)) ks old))"
proof -
  have len: "length (map usize slots :: size_t list) = length ks" using assms(11) by simp
  note f = get_region_fits [OF assms(13) len]
  let ?m = "map_of (m_db s)"
  have one: "usize ks \<noteq> 1" using assms(12) f(4) by (metis One_nat_def unat_1 unat_usize)
  then have fine: "overrun o' n (usize ks) = False" for o' n by (simp add: overrun_def)
  obtain ret xs' w' where run: "with_bulk B HG_BULK_READWRITE
        ([enc_list (map usize ks), enc_list (map usize slots)] @ ks @ nonempty slots) w
        (\<lambda>bulk. yk_get_bulk (get_channel A grow cmp has_lua R) mode (usize ks) None bulk 0
          (usize (get_region ks (map usize slots) (concat slots))) False) = Done (ret, xs', w')"
      "serving A live grow cmp s w'"
      "map length xs' = map length ([enc_list (map usize ks), enc_list (map usize slots)] @ ks @ nonempty slots)"
      "ret = YOKAN_ERR_ALLOCATION \<and> no_room A grow (get_region ks (map usize slots) (concat slots)) w
         \<and> xs' = [enc_list (map usize ks), enc_list (map usize slots)] @ ks @ nonempty slots
       \<or> (\<exists>old. map length old = map length slots \<and> ret = YOKAN_SUCCESS
            \<and> concat xs' = enc_list (map usize ks) @ enc_list (slots_sizes ?m ks slots) @ concat ks
                @ delivered (multi_out ?m ks old) (concat slots) (usize ks))"
    using get_multi_transfer [OF assms(1-11,13,14)] unfolding fine if_False by blast
  note fin = get_multi_back [OF assms(10,11,13) run(1,3)]
  from run(4) show ?thesis
  proof (elim disjE exE conjE)
    assume "ret = YOKAN_ERR_ALLOCATION" "no_room A grow (get_region ks (map usize slots) (concat slots)) w"
      "xs' = [enc_list (map usize ks), enc_list (map usize slots)] @ ks @ nonempty slots"
    then show ?thesis using fin [of "map usize slots" slots] run(2) assms(11) by auto
  next
    fix old
    assume old: "map length old = map length slots" "ret = YOKAN_SUCCESS"
      "concat xs' = enc_list (map usize ks) @ enc_list (slots_sizes ?m ks slots) @ concat ks
         @ delivered (multi_out ?m ks old) (concat slots) (usize ks)"
    have l: "length ks = length old" using assms(11) map_eq_imp_length_eq [OF old(1)] by simp
    have "delivered (multi_out ?m ks old) (concat slots) (usize ks) = concat (slots_out ?m ks old)"
      by (rule multi_delivered [OF one old(1) l f(2)])
    then have "yk_get_multi (get_channel A grow cmp has_lua R) B mode (usize ks)
      (Some (map Some ks)) (Some (map usize ks)) (Some (map Some slots)) (Some (map usize slots)) w
        = Done (ret, Some (slots_sizes ?m ks slots), Some (map Some (slots_out ?m ks old)), w')"
      using old slots_lengths [OF l, of ?m] slots_lengths(2) [of ks slots ?m] assms(11) by (intro fin) simp_all
    then show ?thesis using old(1,2) run(2) slots_lengths(1) [OF l, of ?m] by auto
  qed
qed

theorem rpc_get_multi_returns_witness:
  "\<exists>ret ns new w'. yk_get_multi (get_channel (one_block 7) id DefaultMemCmp False (loop_rpc None)) loop_bulk
      YOKAN_MODE_DEFAULT 2 (Some [Some [1], Some [2]]) (Some [1, 1]) (Some [Some [0, 0], Some [0]]) (Some [2, 1])
      (loop_world (map_db [([1], [5])])) = Done (ret, Some ns, Some (map Some new), w')
    \<and> ret = YOKAN_SUCCESS \<and> ns = [1, YOKAN_KEY_NOT_FOUND] \<and> take 1 (new ! 0) = [5]"
proof -
  have r: "client_keys [[1 :: byte], [2]]" "length [[0 :: byte, 0], [0]] = length [[1 :: byte], [2]]"
    "length [[1 :: byte], [2]] \<noteq> 1"
    "fits (get_region [[1 :: byte], [2]] (map usize [[0 :: byte, 0], [0]]) (concat [[0, 0], [0]]))"
    "\<forall>v \<in> ran (map_of (m_db (map_db [([1 :: byte], [5 :: byte])]))). sized v"
    "nodes_ok DefaultMemCmp fst [([1 :: byte], [5 :: byte])]"
    by (simp_all add: get_region_def client_keys_def served_map sized_def nodes_ok_def)
  have old: "take 1 (slots_out [[1 :: byte] \<mapsto> [5]] [[1], [2]] old ! 0) = [5]"
    if l: "map length old = [2, Suc 0]" for old
    using l by (cases old; cases "tl old") (auto simp: slots_out_def slot_spec_def)
  show ?thesis
    using rpc_get_multi_returns [OF memcmp_total loop_serving [OF r(6), of 7] loop_margo [of None]
        loop_reaches loop_bulk_ok default_mode(1) [of False] default_mode(2,3,3) r(1-5)] old
    by (auto simp: served_map usize_def slots_sizes_def slot_spec_def first_room get_region_def split: if_splits)
qed



end
