(* ===== verification/Provider.thy ===== *)
theory Provider
  imports DocHandlers DocProperties
begin

text \<open>
  The database behind a provider: a key/value backend with the document mixin on top
  (\<open>DocumentStoreMixin<DB>\<close>), with both interfaces that the RPC handlers call, and the documents of
  a client that uses these handlers.
\<close>

section \<open>The two interfaces\<close>

text \<open>The key/value operations of the backend, next to the metadata the mixin caches.\<close>

definition mixin_database :: "'s database \<Rightarrow> 's doc_db database" where
  "mixin_database B = \<lparr>
     o_put = (\<lambda>mode keys ksizes vals vsizes d.
       obind (o_put B mode keys ksizes vals vsizes (dm_db d)) (\<lambda>(st, s). Done (st, d\<lparr> dm_db := s \<rparr>))),
     o_get = (\<lambda>mode packed keys ksizes vals vsizes d.
       obind (o_get B mode packed keys ksizes vals vsizes (dm_db d)) (\<lambda>(st, out, s).
         Done (st, out, d\<lparr> dm_db := s \<rparr>))),
     o_length = (\<lambda>mode keys ksizes vsizes d.
       obind (o_length B mode keys ksizes vsizes (dm_db d)) (\<lambda>(st, ns, s). Done (st, ns, d\<lparr> dm_db := s \<rparr>))),
     o_exists = (\<lambda>mode keys ksizes flags d.
       obind (o_exists B mode keys ksizes flags (dm_db d)) (\<lambda>(st, bf, s). Done (st, bf, d\<lparr> dm_db := s \<rparr>))),
     o_erase = (\<lambda>mode keys ksizes d.
       obind (o_erase B mode keys ksizes (dm_db d)) (\<lambda>(st, s). Done (st, d\<lparr> dm_db := s \<rparr>))),
     o_listkv = (\<lambda>mode packed from F keys ksizes vals vsizes d.
       o_listkv B mode packed from F keys ksizes vals vsizes (dm_db d)),
     o_sorted = o_sorted B,
     o_supports = o_supports B,
     d_count = (\<lambda>mode d. d_count B mode (dm_db d)),
     d_listKeys = (\<lambda>mode packed from F keys ksizes d. d_listKeys B mode packed from F keys ksizes (dm_db d)) \<rparr>"

text \<open>\<open>collExists\<close> leaves the flag alone when the name is empty.\<close>

definition mixin_docs :: "'s kv_ops \<Rightarrow> 's doc_db doc_store" where
  "mixin_docs B = \<lparr>
     ds_supportsMode = o_supports B,
     ds_collCreate = collCreate B,
     ds_collDrop = collDrop B,
     ds_collExists = (\<lambda>mode name d.
       obind (collExists B mode name d) (\<lambda>(st, e, d'). Done (st, if st = OK then Some e else None, d'))),
     ds_collLastID = collLastID B,
     ds_collSize = collSize B,
     ds_docSize = docSize B,
     ds_docStore = (\<lambda>name mode documents sizes ids d. docStore B name mode documents sizes ids [] d),
     ds_docUpdate = docUpdate B,
     ds_docLoad = docLoad B,
     ds_docErase = docErase B,
     ds_docList = (\<lambda>name mode packed from_id F out d. docList B name mode packed from_id (Some F) out d) \<rparr>"

lemma mixin_docs_simps [simp]:
  "ds_supportsMode (mixin_docs B) = o_supports B" "ds_collCreate (mixin_docs B) = collCreate B"
  "ds_docLoad (mixin_docs B) = docLoad B"
  "ds_docStore (mixin_docs B) = (\<lambda>name mode documents sizes ids d.
     docStore B name mode documents sizes ids [] d)"
  by (simp_all add: mixin_docs_def)

section \<open>Documents through the provider\<close>

text \<open>The handle of a request: the provider is registered, the input decodes.\<close>

definition asked :: "('i, 'b, 'm) rpc \<Rightarrow> 'i \<Rightarrow> bool" where
  "asked R inp \<longleftrightarrow> rpc_instance R \<and> rpc_provider R \<and> rpc_input R = Some inp"

lemma doc_op_asked:
  assumes "asked R inp" "ds_supportsMode D (mode_of inp)"
  shows "doc_op R D mode_of err work (Some s) = obind (work inp s) (\<lambda>(out, s'). Done (out, Some s'))"
  using assms by (simp add: doc_op_def handler_input_def check_database_def asked_def)

text \<open>
  Three requests in a row: the handlers create a collection, store documents sent with the input,
  and answer a load of the identifiers that the store returned with exactly these documents and sizes.
\<close>

lemma provider_docs_roundtrip:
  assumes "total_comparator cmp" "map_sound cmp (dm_db d)" "name \<noteq> []" "0 \<notin> set name" "fits name"
    and "map_of (m_db (dm_db d)) name = None" "packs documents vs sizes"
    and "\<forall>v \<in> set vs. sized v" "length vs * (length name + 9) < 2 ^ 64"
    and "length (concat vs) \<le> unat bufsize"
    and "plain_mode mode" "map_supportsMode has_lua mode"
    and "asked Rc \<lparr> ci_mode = 0, ci_name = name \<rparr>"
    and "asked Rs \<lparr> ci_mode = mode, ci_name = name, di_sizes = sizes, di_docs = documents \<rparr>"
    and "asked Rl \<lparr> ci_mode = mode, ci_name = name, ii_ids = map of_nat [0..<length vs], ldi_bufsize = bufsize \<rparr>"
  shows "\<exists>d1 d2. yk_coll_create_ult Rc (mixin_docs (map_ops cmp has_lua)) (Some d) = Done (YOKAN_SUCCESS, Some d1)
    \<and> yk_doc_store_direct_ult Rs (mixin_docs (map_ops cmp has_lua)) (Some d1)
        = Done ((YOKAN_SUCCESS, map of_nat [0..<length vs]), Some d2)
    \<and> yk_doc_load_direct_ult Rl (mixin_docs (map_ops cmp has_lua)) (Some d2)
        = Done ((YOKAN_SUCCESS, sizes, concat vs), Some d2)"
proof -
  let ?B = "map_ops cmp has_lua" and ?ids = "map of_nat [0..<length vs] :: size_t list"
  have sizes: "sizes = map usize vs" using assms(7) by (rule packsE)
  have z: "fits (zeros bufsize)" "length (zeros bufsize) = unat bufsize"
    using unsigned_less [of bufsize, where ?'a = nat] by (simp_all add: zeros_def)
  obtain d1 d2 where run: "collCreate ?B 0 name d = Done (OK, d1)"
    "docStore ?B name mode documents sizes (replicate (length sizes) 0) [] d1 = Done (OK, ?ids, d2)"
    "docLoad ?B name mode True ?ids (zeros bufsize) (map (\<lambda>_. 0) vs) d2
      = Done (OK, \<lparr> g_vals = concat vs @ drop (length (concat vs)) (zeros bufsize),
                    g_size = usize (concat vs), g_vsizes = sizes \<rparr>, d2)"
    using docCreate_store_load [OF assms(1-7) _ assms(8,9) z(1) _ assms(11), of "replicate (length sizes) 0" has_lua]
      assms(10) z(2) sizes by auto
  have sup: "o_supports ?B 0" "o_supports ?B mode"
    using assms(12) by (simp_all add: map_ops_def map_supportsMode_def within_mask_def)
  have vals: "sub_bytes (concat vs @ rest) 0 (usize (concat vs)) = Done (concat vs)" for rest
    using assms(10) unsigned_less [of bufsize, where ?'a = nat] by (simp add: sub_bytes_def unat_usize)
  have ids: "replicate (length vs) 0 = map (\<lambda>_. 0) vs" by (simp add: map_replicate_const)
  show ?thesis
    using run(1,2) run(3) [folded ids] sup vals
    by (simp add: yk_coll_create_ult_def yk_doc_store_direct_ult_def yk_doc_load_direct_ult_def
        doc_op_asked [OF assms(13)] doc_op_asked [OF assms(14)] doc_op_asked [OF assms(15)])
qed

text \<open>A handle whose input is \<open>inp\<close>; nothing is transferred.\<close>

definition direct_rpc :: "'i \<Rightarrow> ('i, unit, unit) rpc" where
  "direct_rpc inp = \<lparr> rpc_instance = True, rpc_provider = True, rpc_input = Some inp,
     rpc_lookup = (\<lambda>_. None), rpc_dup = Some 0,
     rpc_pull = (\<lambda>a bulk roff loff n d m. (HG_FAILURE, d)), rpc_push = (\<lambda>a bulk roff loff n d m. (HG_FAILURE, m)),
     rpc_ipush = (\<lambda>a bulk roff loff n d m. (HG_FAILURE, HG_FAILURE, m)) \<rparr>"

lemma direct_rpc_asked: "asked (direct_rpc inp) inp"
  by (simp add: asked_def direct_rpc_def)

lemma provider_docs_roundtrip_witness:
  "\<exists>d1 d2. yk_doc_store_direct_ult
      (direct_rpc \<lparr> ci_mode = 0, ci_name = [97], di_sizes = [2, 1], di_docs = [5, 6, 7] \<rparr>)
      (mixin_docs (map_ops DefaultMemCmp False)) (Some d1) = Done ((YOKAN_SUCCESS, [0, 1]), Some d2)
    \<and> yk_doc_load_direct_ult
      (direct_rpc \<lparr> ci_mode = 0, ci_name = [97], ii_ids = [0, 1], ldi_bufsize = 4 \<rparr>)
      (mixin_docs (map_ops DefaultMemCmp False)) (Some d2) = Done ((YOKAN_SUCCESS, [2, 1], [5, 6, 7]), Some d2)"
proof -
  have a: "map_sound DefaultMemCmp (dm_db doc_db0)" "[97] \<noteq> ([] :: bytes)" "0 \<notin> set [97 :: byte]"
    "fits [97 :: byte]" "map_of (m_db (dm_db doc_db0)) [97] = None"
    "packs [5, 6, 7] [[5, 6], [7]] [2, 1]" "\<forall>v \<in> set [[5, 6], [7]]. sized v"
    "length [[5 :: byte, 6], [7]] * (length [97 :: byte] + 9) < 2 ^ 64"
    "length (concat [[5 :: byte, 6], [7]]) \<le> unat (4 :: size_t)"
    by (simp_all add: doc_concrete doc_db0_def)
  show ?thesis
    using provider_docs_roundtrip [OF memcmp_total a plain_mode_0 _ direct_rpc_asked direct_rpc_asked
        direct_rpc_asked, of False]
    by (fastforce simp: upt_rec map_supportsMode_def within_mask_def)
qed

end
