(* ===== verification/Serving.thy ===== *)
theory Serving
  imports RpcProperties Provider
begin

text \<open>
  A provider that serves requests, and its pool of buffers: every handler gives its buffer back,
  whatever it answers; the least-recently-used cache keeps no more than its capacity and frees all;
  what a handler does with a count that its buffer cannot hold.
\<close>

section \<open>Requests\<close>

text \<open>The requests whose handlers use the bulk cache (the registered RPCs of provider.cpp).\<close>

datatype 'b request =
    Put "'b bulk_in" | Get "'b get_in" | Length "'b bulk_in" | Exists "'b bulk_in" | Erase "'b bulk_in"
  | ListKeys "'b list_in" | ListKeyvals "'b list_in"
  | DocStore "'b doc_store_in" | DocUpdate "'b ids_bulk_in" | DocLoad "'b doc_load_in"
  | DocList "'b doc_list_in"

text \<open>The handle \<open>R\<close> with the input of a request.\<close>

definition with_input :: "('i, 'b, 'm) rpc \<Rightarrow> 'j \<Rightarrow> ('j, 'b, 'm) rpc" where
  "with_input R inp = \<lparr> rpc_instance = rpc_instance R, rpc_provider = rpc_provider R, rpc_input = Some inp,
     rpc_lookup = rpc_lookup R, rpc_dup = rpc_dup R, rpc_pull = rpc_pull R, rpc_push = rpc_push R,
     rpc_ipush = rpc_ipush R \<rparr>"

record 's backend =
  be_kv :: "'s database"
  be_doc :: "'s doc_store"
  be_filter :: filter_maker
  be_doc_filter :: doc_filter_maker

definition no_ids :: "(yk_return_t \<times> 'w) outcome \<Rightarrow> ((yk_return_t \<times> size_t list) \<times> 'w) outcome" where
  "no_ids r = obind r (\<lambda>(ret, w). Done ((ret, []), w))"

fun serve :: "(unit, 'b, 'm) rpc \<Rightarrow> 'c bulk_cache \<Rightarrow> 's backend \<Rightarrow> 'b request \<Rightarrow> ('s, 'c, 'm) world
    \<Rightarrow> ((yk_return_t \<times> size_t list) \<times> ('s, 'c, 'm) world) outcome" where
  "serve R P D (Put inp) w = no_ids (yk_put_ult (with_input R inp) P (be_kv D) w)"
| "serve R P D (Get inp) w = no_ids (yk_get_ult (with_input R inp) P (be_kv D) w)"
| "serve R P D (Length inp) w = no_ids (yk_length_ult (with_input R inp) P (be_kv D) w)"
| "serve R P D (Exists inp) w = no_ids (yk_exists_ult (with_input R inp) P (be_kv D) w)"
| "serve R P D (Erase inp) w = no_ids (yk_erase_ult (with_input R inp) P (be_kv D) w)"
| "serve R P D (ListKeys inp) w =
     no_ids (yk_list_keys_ult (with_input R inp) P (be_filter D) (be_kv D) w)"
| "serve R P D (ListKeyvals inp) w =
     no_ids (yk_list_keyvals_ult (with_input R inp) P (be_filter D) (be_kv D) w)"
| "serve R P D (DocStore inp) w = yk_doc_store_ult (with_input R inp) P (be_doc D) w"
| "serve R P D (DocUpdate inp) w = no_ids (yk_doc_update_ult (with_input R inp) P (be_doc D) w)"
| "serve R P D (DocLoad inp) w = no_ids (yk_doc_load_ult (with_input R inp) P (be_doc D) w)"
| "serve R P D (DocList inp) w =
     no_ids (yk_doc_list_ult (with_input R inp) P (be_doc_filter D) (be_doc D) w)"

fun serve_all :: "(unit, 'b, 'm) rpc \<Rightarrow> 'c bulk_cache \<Rightarrow> 's backend \<Rightarrow> 'b request list
    \<Rightarrow> ('s, 'c, 'm) world \<Rightarrow> ((yk_return_t \<times> size_t list) list \<times> ('s, 'c, 'm) world) outcome" where
  "serve_all R P D [] w = Done ([], w)"
| "serve_all R P D (q # qs) w =
     obind (serve R P D q w) (\<lambda>(ans, w'). obind (serve_all R P D qs w') (\<lambda>(answers, w'').
       Done (ans # answers, w'')))"

lemma with_input_keeps: "pull_keeps_size R \<Longrightarrow> pull_keeps_size (with_input R inp)"
  by (simp add: pull_keeps_size_def with_input_def)

lemma no_ids_Done: "no_ids r = Done (ans, w) \<Longrightarrow> \<exists>ret. r = Done (ret, w)"
  by (auto simp: no_ids_def obind_Done_iff)

context buffer_pool begin

lemma doc_update_inv:
  assumes "inv lent (w_cache w)" "pull_keeps_size R"
    and "yk_doc_update_ult R (pool_ops get release) D w = Done (out, w')"
  shows "inv lent (w_cache w')"
  using assms(1,3)
  by (auto simp: yk_doc_update_ult_def Let_def handler_input_def resolve_origin_def
      split: if_splits option.splits
      intro: with_buffer_inv [OF assms(1) doc_update_work_keeps [OF assms(2)]])

lemma serve_inv:
  assumes "inv lent (w_cache w)" "pull_keeps_size R"
    and "serve R (pool_ops get release) D q w = Done (ans, w')"
  shows "inv lent (w_cache w')"
proof -
  note k = with_input_keeps [OF assms(2)]
  show ?thesis
    using assms(3)
    by (cases q)
      (auto simp: yk_put_ult_def yk_get_ult_def yk_length_ult_def yk_exists_ult_def yk_erase_ult_def
        yk_list_keys_ult_def yk_list_keyvals_ult_def yk_doc_store_ult_def yk_doc_load_ult_def yk_doc_list_ult_def
        dest!: no_ids_Done
        intro: doc_update_inv [OF assms(1) k]
          bulk_op_inv [OF assms(1) put_work_keeps [OF k]] bulk_op_inv [OF assms(1) get_work_keeps [OF k]]
          bulk_op_inv [OF assms(1) length_work_keeps [OF k]] bulk_op_inv [OF assms(1) exists_work_keeps [OF k]]
          bulk_op_inv [OF assms(1) erase_work_keeps [OF k]] bulk_op_inv [OF assms(1) list_keys_work_keeps [OF k]]
          bulk_op_inv [OF assms(1) list_keyvals_work_keeps [OF k]]
          doc_bulk_op_inv [OF assms(1) doc_store_work_keeps [OF k]]
          doc_bulk_op_inv [OF assms(1) doc_load_work_keeps [OF k]]
          doc_bulk_op_inv [OF assms(1) doc_list_work_keeps [OF k]])
qed

lemma serve_all_inv:
  assumes "inv lent (w_cache w)" "pull_keeps_size R"
    and "serve_all R (pool_ops get release) D qs w = Done (answers, w')"
  shows "inv lent (w_cache w')"
  using assms(1,3)
proof (induction qs arbitrary: w answers)
  case (Cons q qs)
  then obtain ans w1 rest where "serve R (pool_ops get release) D q w = Done (ans, w1)"
    "serve_all R (pool_ops get release) D qs w1 = Done (rest, w')"
    by (auto simp: obind_Done_iff split: prod.splits)
  then show ?case using Cons.IH serve_inv [OF Cons.prems(1) assms(2)] by blast
qed simp

end





section \<open>The pool of the most recently used buffers\<close>

lemma lru_init_inv:
  assumes "allocator_ok A live" "live h = {}" "grows grow"
  shows "lru_bulk_inv A live grow {} (lru_bulk_cache_init n h)"
  using assms by (auto simp: lru_bulk_inv_def lru_bulk_cache_init_def owned_def pooled_def by_mode_def)

lemma free_all_live:
  assumes "allocator_ok A live"
  shows "live (free_all A bs h) = live h - yb_addr ` set bs"
proof (induction bs arbitrary: h)
  case (Cons b bs)
  have "live (al_delete A (yb_addr b) h) = live h - {yb_addr b}" by (rule allocatorD(3) [OF assms])
  then show ?case using Cons by (auto simp: free_all_def)
qed (simp add: free_all_def)

lemma lru_capacity_kept:
  "pool_run (lru_bulk_cache_get A grow) (lru_bulk_cache_release A) evs (out, c) = (out', c')
     \<Longrightarrow> lb_capacity c' = lb_capacity c"
proof (induction evs arbitrary: out c)
  case (Cons ev evs)
  obtain out1 c1 where s: "pool_step (lru_bulk_cache_get A grow) (lru_bulk_cache_release A) ev (out, c) = (out1, c1)"
    by force
  then have "lb_capacity c1 = lb_capacity c"
    by (cases ev) (auto simp: pool_step_def lru_bulk_cache_get_def lru_bulk_cache_release_def Let_def
        split: if_splits list.splits option.splits prod.splits)
  then show ?case using Cons s by (simp add: pool_run_def)
qed (simp add: pool_run_def)

text \<open>
  C14: whatever buffers handlers take and give back, in whatever order, the least-recently-used cache
  keeps at most \<open>capacity\<close> buffers of each mode, its counter is the number of buffers that are out, no
  two of which are the same, and once all are back \<open>finalize\<close> leaves no block of the heap allocated.
\<close>

theorem lru_pool_bounded:
  assumes "allocator_ok A live" "live h = {}" "grows grow"
    and "pool_run (lru_bulk_cache_get A grow) (lru_bulk_cache_release A) evs ([], lru_bulk_cache_init n h)
      = (out, c)"
  shows "(\<forall>m. length (lb_queue c m) \<le> unat n) \<and> distinct (map yb_addr out)
    \<and> lb_num_in_use c = usize out \<and> live (lb_heap c) = yb_addr ` (set out \<union> pooled (lb_set c))
    \<and> (out = [] \<longrightarrow> live (lru_bulk_cache_finalize A c) = {})"
proof -
  have inv: "lru_bulk_inv A live grow (yb_addr ` set out) c" "distinct (map yb_addr out)"
    using lru_pool.run [of A live grow "[]" "lru_bulk_cache_init n h" evs out c]
      lru_init_inv [OF assms(1-3)] assms(4) by simp_all
  have card: "card (yb_addr ` set out) = length out"
    using distinct_card [OF inv(2)] by simp
  have modes: "pooled (lb_set c) = set (lb_set c HG_BULK_READ_ONLY) \<union> set (lb_set c HG_BULK_WRITE_ONLY)
      \<union> set (lb_set c HG_BULK_READWRITE)"
    by (auto simp: pooled_iff) (metis hg_mode.exhaust)
  have "live (lb_heap c) = yb_addr ` (set out \<union> pooled (lb_set c))"
    using inv(1) by (simp add: lru_bulk_inv_def owned_def image_Un)
  moreover have "out = [] \<Longrightarrow> live (lru_bulk_cache_finalize A c) = {}"
    using calculation free_all_live [OF assms(1)] modes by (auto simp: lru_bulk_cache_finalize_def)
  moreover have "lb_capacity c = n"
    using lru_capacity_kept [OF assms(4)] by (simp add: lru_bulk_cache_init_def)
  ultimately show ?thesis using inv card by (simp add: lru_bulk_inv_def usize_def)
qed

theorem lru_pool_bounded_witness:
  "\<exists>b c. pool_run (lru_bulk_cache_get (one_block 0) id) (lru_bulk_cache_release (one_block 0))
      [Take 4 HG_BULK_READWRITE, Give 0 [1, 2, 3, 4], Take 3 HG_BULK_READWRITE] ([], lru_bulk_cache_init 1 False)
      = ([b], c) \<and> yb_data b = [1, 2, 3, 4] \<and> lb_num_in_use c = 1
    \<and> block_live (lb_heap c) = yb_addr ` ({b} \<union> pooled (lb_set c))"
proof -
  have run: "case pool_run (lru_bulk_cache_get (one_block 0) id) (lru_bulk_cache_release (one_block 0))
      [Take 4 HG_BULK_READWRITE, Give 0 [1, 2, 3, 4], Take 3 HG_BULK_READWRITE] ([], lru_bulk_cache_init 1 False)
      of ([b], c) \<Rightarrow> yb_data b = [1, 2, 3, 4] | _ \<Rightarrow> False"
    by code_simp
  have pre: "block_live False = {}" "grows id" by (simp_all add: block_live_def grows_def)
  show ?thesis
    using run lru_pool_bounded [OF one_block_ok [of 0] pre, of "[Take 4 HG_BULK_READWRITE, Give 0 [1, 2, 3, 4],
        Take 3 HG_BULK_READWRITE]" 1]
    by (auto simp: usize_def split: prod.split_asm list.split_asm)
qed

section \<open>Counts that do not fit\<close>

text \<open>
  The put handler walks over the \<open>count\<close> sizes at the front of its buffer before it compares
  them with the size of the region: a request whose count is more than the buffer holds makes it read
  past the end of the buffer, which is undefined.
\<close>

lemma put_count_unchecked:
  assumes "margo_ok segs R" "reaches R a" "rpc_input R = Some inp" "bi_origin inp = None"
    and "w_db w = Some s" "o_supports D (bi_mode inp)" "lru_bulk_inv A live grow {} (w_cache w)"
    and "lru_bulk_cache_get A grow (bi_size inp) HG_BULK_READWRITE (w_cache w) = (Some b, c)"
    and "unat (bi_offset inp) + unat (bi_size inp) \<le> length (concat (segs a (bi_bulk inp) (w_mem w)))"
    and "unat (yb_size b) < 8 * unat (bi_count inp)"
  shows "yk_put_ult R (lru_ops A grow) D w = Undef"
proof -
  have b: "length (yb_data b) = unat (yb_size b)" "bi_size inp \<le> yb_size b"
    using lru_pool.get_some [OF assms(7,8)] by (simp_all add: buffer_ok_def)
  obtain d where pull: "rpc_pull R a (bi_bulk inp) (bi_offset inp) 0 (bi_size inp) (yb_data b) (w_mem w)
      = (HG_SUCCESS, d)"
    using margo_okD(1) [OF assms(1,9), of 0 "yb_data b"] b by (simp add: word_le_nat_alt)
  have "length (snd (rpc_pull R a (bi_bulk inp) (bi_offset inp) 0 (bi_size inp) (yb_data b) (w_mem w)))
      = length (yb_data b)"
    using margo_ok_keeps_size [OF assms(1)] by (simp add: pull_keeps_size_def)
  then have "length d = unat (yb_size b)" using pull b(1) by simp
  then have "read_sizes d 0 (bi_count inp) = Undef" using assms(10) by (simp add: read_sizes_def)
  then have "put_work R D inp a s b (w\<lparr> w_cache := c \<rparr>) = Undef"
    using pull by (simp add: put_work_def pull_def Let_def)
  then show ?thesis
    using assms(2-6,8)
    by (simp add: yk_put_ult_def bulk_op_def handler_input_def resolve_origin_def check_database_def
        reaches_def with_buffer_def lru_ops_def pool_ops_def)
qed

end
