(* ===== verification/DocClient.thy ===== *)
theory DocClient
  imports KvClientQuery DocHandlers
begin

text \<open>
  The client side of the collections and documents (src/src/client: coll_create, coll_drop,
  coll_exists, coll_last_id, coll_size, doc_store, doc_update, doc_load, doc_length, doc_erase,
  doc_list), over the channels and the exposed memory of KvClient. A collection is named by the
  bytes of a C string.
\<close>

section \<open>Answers behind pointers\<close>

text \<open>
  Decoding into the \<open>n\<close> cells behind a pointer. Behind a null pointer the decoder allocates, and
  what it decodes is lost.
\<close>

definition proc_ptr :: "size_t \<Rightarrow> 'a list option \<Rightarrow> 'a list \<Rightarrow> (hg_return \<times> 'a list option) outcome" where
  "proc_ptr n p wire = (case p of
       None \<Rightarrow> Done (HG_SUCCESS, None)
     | Some _ \<Rightarrow> obind (c_array n p) (\<lambda>buf.
         case proc_into buf wire of (hret, buf') \<Rightarrow> Done (hret, c_back buf' p)))"

text \<open>An RPC that answers with a return value and a list for the caller's buffer.\<close>

definition list_rpc :: "('i, yk_return_t \<times> size_t list, 'w) channel \<Rightarrow> size_t \<Rightarrow> size_t list option
    \<Rightarrow> 'i \<Rightarrow> 'w \<Rightarrow> 'w lengths outcome" where
  "list_rpc C n out inp w =
     call_rpc C inp w (\<lambda>e w. Done (e, out, w)) (\<lambda>(ret, wire) w.
       obind (proc_ptr n out wire) (\<lambda>(hret, out').
         Done (if hret \<noteq> HG_SUCCESS then YOKAN_ERR_FROM_MERCURY else freed C ret, out', w)))"

text \<open>An RPC whose answer may set \<open>*p\<close>, on success and when \<open>p\<close> is not null.\<close>

definition value_rpc :: "('i, yk_return_t \<times> 'a option, 'w) channel \<Rightarrow> mode_t \<Rightarrow> 'a option option \<Rightarrow> 'i
    \<Rightarrow> 'w \<Rightarrow> (yk_return_t \<times> 'a option option \<times> 'w) outcome" where
  "value_rpc C mode p inp w =
     (if \<not> mode_valid mode then Done (YOKAN_ERR_MODE, p, w)
      else call_rpc C inp w (\<lambda>e w. Done (e, p, w)) (\<lambda>(ret, val) w.
        Done (freed C ret, if ret = YOKAN_SUCCESS \<and> p \<noteq> None then Some val else p, w)))"

text \<open>\<open>k\<close> with a handle on segments that it only reads, and with the caller's output \<open>out\<close>.\<close>

definition with_read_bulk :: "('b, 'm) bulk_api \<Rightarrow> bytes list \<Rightarrow> 'r \<Rightarrow> ('s, 'c, 'm) world
    \<Rightarrow> ('b \<Rightarrow> ('s, 'c, 'm) world \<Rightarrow> (yk_return_t \<times> 'r \<times> ('s, 'c, 'm) world) outcome)
    \<Rightarrow> (yk_return_t \<times> 'r \<times> ('s, 'c, 'm) world) outcome" where
  "with_read_bulk B segs out w k =
     (case ba_create B HG_BULK_READ_ONLY segs (w_mem w) of
        None \<Rightarrow> Done (YOKAN_ERR_FROM_MERCURY, out, w)
      | Some (bulk, m) \<Rightarrow> k bulk (w\<lparr> w_mem := m \<rparr>))"

section \<open>Collections\<close>

definition yk_collection_create :: "(coll_in, yk_return_t, 'w) channel \<Rightarrow> bytes \<Rightarrow> mode_t \<Rightarrow> 'w
    \<Rightarrow> (yk_return_t \<times> 'w) outcome" where
  "yk_collection_create C name mode w = simple_rpc C mode \<lparr> ci_mode = mode, ci_name = name \<rparr> w"

definition yk_collection_drop :: "(coll_in, yk_return_t, 'w) channel \<Rightarrow> bytes \<Rightarrow> mode_t \<Rightarrow> 'w
    \<Rightarrow> (yk_return_t \<times> 'w) outcome" where
  "yk_collection_drop C name mode w = simple_rpc C mode \<lparr> ci_mode = mode, ci_name = name \<rparr> w"

text \<open>
  \<open>flag\<close>, \<open>id_ptr\<close> and \<open>size\<close> may be null. A value inside is \<open>None\<close> while nothing has been written to it,
  as in the answer of the handlers.
\<close>

definition yk_collection_exists :: "(coll_in, yk_return_t \<times> bool option, 'w) channel \<Rightarrow> bytes \<Rightarrow> mode_t
    \<Rightarrow> bool option option \<Rightarrow> 'w \<Rightarrow> (yk_return_t \<times> bool option option \<times> 'w) outcome" where
  "yk_collection_exists C name mode flag w = value_rpc C mode flag \<lparr> ci_mode = mode, ci_name = name \<rparr> w"

definition yk_collection_last_id :: "(coll_in, yk_return_t \<times> size_t option, 'w) channel \<Rightarrow> bytes
    \<Rightarrow> mode_t \<Rightarrow> size_t option option \<Rightarrow> 'w \<Rightarrow> (yk_return_t \<times> size_t option option \<times> 'w) outcome" where
  "yk_collection_last_id C name mode id_ptr w = value_rpc C mode id_ptr \<lparr> ci_mode = mode, ci_name = name \<rparr> w"

definition yk_collection_size :: "(coll_in, yk_return_t \<times> size_t option, 'w) channel \<Rightarrow> bytes
    \<Rightarrow> mode_t \<Rightarrow> size_t option option \<Rightarrow> 'w \<Rightarrow> (yk_return_t \<times> size_t option option \<times> 'w) outcome" where
  "yk_collection_size C name mode sz w = value_rpc C mode sz \<lparr> ci_mode = mode, ci_name = name \<rparr> w"

section \<open>doc_store\<close>

text \<open>The direct call does not check the mode itself.\<close>

definition yk_doc_store_direct :: "(docs_in, yk_return_t \<times> size_t list, 'w) channel \<Rightarrow> bytes \<Rightarrow> mode_t
    \<Rightarrow> size_t \<Rightarrow> bytes option \<Rightarrow> size_t list option \<Rightarrow> size_t list option \<Rightarrow> 'w \<Rightarrow> 'w lengths outcome" where
  "yk_doc_store_direct C collection mode n records rsizes ids w =
     (if n = 0 then Done (YOKAN_SUCCESS, ids, w)
      else if rsizes = None then Done (YOKAN_ERR_INVALID_ARGS, ids, w)
      else
        obind (c_array n rsizes) (\<lambda>rs.
        if records = None \<and> accumulate rs \<noteq> 0 then Done (YOKAN_ERR_INVALID_ARGS, ids, w)
        else
          obind (c_array (accumulate rs) records) (\<lambda>rdata.
          list_rpc C n ids \<lparr> ci_mode = mode, ci_name = collection, di_sizes = rs, di_docs = rdata \<rparr> w)))"

definition yk_doc_store_bulk :: "('b doc_store_in, yk_return_t \<times> size_t list, 'w) channel \<Rightarrow> bytes
    \<Rightarrow> mode_t \<Rightarrow> size_t \<Rightarrow> bytes option \<Rightarrow> 'b \<Rightarrow> size_t \<Rightarrow> size_t \<Rightarrow> size_t list option \<Rightarrow> 'w
    \<Rightarrow> 'w lengths outcome" where
  "yk_doc_store_bulk C name mode n origin data offset sz ids w =
     (if \<not> mode_valid mode then Done (YOKAN_ERR_MODE, ids, w)
      else list_rpc C n ids \<lparr> bi_mode = mode, bi_count = n, bi_offset = offset, bi_size = sz,
             bi_origin = origin, bi_bulk = data, dsi_name = name \<rparr> w)"

definition yk_doc_store_packed :: "(docs_in, yk_return_t \<times> size_t list, ('s, 'c, 'm) world) channel
    \<Rightarrow> ('b doc_store_in, yk_return_t \<times> size_t list, ('s, 'c, 'm) world) channel \<Rightarrow> ('b, 'm) bulk_api
    \<Rightarrow> bytes \<Rightarrow> mode_t \<Rightarrow> size_t \<Rightarrow> bytes option \<Rightarrow> size_t list option \<Rightarrow> size_t list option
    \<Rightarrow> ('s, 'c, 'm) world \<Rightarrow> ('s, 'c, 'm) world lengths outcome" where
  "yk_doc_store_packed CD C B collection mode n records rsizes ids w =
     (if has_mode mode YOKAN_MODE_NO_RDMA
      then yk_doc_store_direct CD collection mode n records rsizes ids w
      else if n = 0 then Done (YOKAN_SUCCESS, ids, w)
      else if rsizes = None then Done (YOKAN_ERR_INVALID_ARGS, ids, w)
      else
        obind (c_array n rsizes) (\<lambda>rs.
        let rtotal = accumulate rs; total_size = accumulate [n * 8, rtotal] in
        if rtotal \<noteq> 0 \<and> records = None then Done (YOKAN_ERR_INVALID_ARGS, ids, w)
        else
          obind (c_array rtotal records) (\<lambda>rdata.
          with_read_bulk B (enc_list rs # (if rtotal \<noteq> 0 then [rdata] else [])) ids w
            (\<lambda>bulk. yk_doc_store_bulk C collection mode n None bulk 0 total_size ids))))"

text \<open>
  As in a put of many keys: a record of size 0 is not exposed, packed copies go with the direct call,
  and the loop over the sizes counts with an \<open>unsigned\<close>.
\<close>

definition yk_doc_store_multi :: "(docs_in, yk_return_t \<times> size_t list, ('s, 'c, 'm) world) channel
    \<Rightarrow> ('b doc_store_in, yk_return_t \<times> size_t list, ('s, 'c, 'm) world) channel \<Rightarrow> ('b, 'm) bulk_api
    \<Rightarrow> bytes \<Rightarrow> mode_t \<Rightarrow> size_t \<Rightarrow> bytes option list option \<Rightarrow> size_t list option \<Rightarrow> size_t list option
    \<Rightarrow> ('s, 'c, 'm) world \<Rightarrow> ('s, 'c, 'm) world lengths outcome" where
  "yk_doc_store_multi CD C B collection mode n records rsizes ids w =
     (if n = 0 then Done (YOKAN_SUCCESS, ids, w)
      else if records = None \<or> rsizes = None then Done (YOKAN_ERR_INVALID_ARGS, ids, w)
      else
        obind (c_array n rsizes) (\<lambda>rs.
        obind (c_array n records) (\<lambda>rptrs.
        if has_mode mode YOKAN_MODE_NO_RDMA then
          (if n > 1
           then obind (c_arrays rs rptrs) (\<lambda>rds.
                yk_doc_store_direct CD collection mode n (Some (concat rds)) (Some rs) ids w)
           else yk_doc_store_direct CD collection mode n (rptrs ! 0) (Some rs) ids w)
        else if length rs \<ge> 4294967296 then Hung
        else
          obind (c_arrays rs rptrs) (\<lambda>rds.
          with_read_bulk B (enc_list rs # nonempty rds) ids w
            (\<lambda>bulk. yk_doc_store_bulk C collection mode n None bulk 0
               (accumulate (n * 8 # filter (\<lambda>r. r \<noteq> 0) rs)) ids)))))"

definition yk_doc_store :: "(docs_in, yk_return_t \<times> size_t list, ('s, 'c, 'm) world) channel
    \<Rightarrow> ('b doc_store_in, yk_return_t \<times> size_t list, ('s, 'c, 'm) world) channel \<Rightarrow> ('b, 'm) bulk_api
    \<Rightarrow> bytes \<Rightarrow> mode_t \<Rightarrow> bytes option \<Rightarrow> size_t \<Rightarrow> size_t list option
    \<Rightarrow> ('s, 'c, 'm) world \<Rightarrow> ('s, 'c, 'm) world lengths outcome" where
  "yk_doc_store CD C B collection mode record_data sz id_ptr w =
     yk_doc_store_packed CD C B collection mode 1 record_data (Some [sz]) id_ptr w"

section \<open>doc_update\<close>

definition yk_doc_update_direct :: "(ids_docs_in, yk_return_t, 'w) channel \<Rightarrow> bytes \<Rightarrow> mode_t \<Rightarrow> size_t
    \<Rightarrow> size_t list option \<Rightarrow> bytes option \<Rightarrow> size_t list option \<Rightarrow> 'w \<Rightarrow> (yk_return_t \<times> 'w) outcome" where
  "yk_doc_update_direct C collection mode n ids records rsizes w =
     (if n = 0 then Done (YOKAN_SUCCESS, w)
      else if rsizes = None \<or> ids = None then Done (YOKAN_ERR_INVALID_ARGS, w)
      else if \<not> mode_valid mode then Done (YOKAN_ERR_MODE, w)
      else
        obind (c_array n rsizes) (\<lambda>rs.
        if records = None \<and> accumulate rs \<noteq> 0 then Done (YOKAN_ERR_INVALID_ARGS, w)
        else
          obind (c_array n ids) (\<lambda>is.
          obind (c_array (accumulate rs) records) (\<lambda>rdata.
          simple_rpc C mode \<lparr> ci_mode = mode, ci_name = collection, ii_ids = is, id_sizes = rs,
            id_docs = rdata \<rparr> w))))"

definition yk_doc_update_bulk :: "('b ids_bulk_in, yk_return_t, 'w) channel \<Rightarrow> bytes \<Rightarrow> mode_t \<Rightarrow> size_t
    \<Rightarrow> size_t list option \<Rightarrow> bytes option \<Rightarrow> 'b \<Rightarrow> size_t \<Rightarrow> size_t \<Rightarrow> 'w \<Rightarrow> (yk_return_t \<times> 'w) outcome" where
  "yk_doc_update_bulk C name mode n ids origin data offset sz w =
     (if \<not> mode_valid mode then Done (YOKAN_ERR_MODE, w)
      else
        obind (c_array n ids) (\<lambda>is.
        simple_rpc C mode \<lparr> ci_mode = mode, ci_name = name, ii_ids = is, ib_offset = offset,
          ib_size = sz, ib_origin = origin, ib_bulk = data \<rparr> w))"

definition yk_doc_update_packed :: "(ids_docs_in, yk_return_t, ('s, 'c, 'm) world) channel
    \<Rightarrow> ('b ids_bulk_in, yk_return_t, ('s, 'c, 'm) world) channel \<Rightarrow> ('b, 'm) bulk_api
    \<Rightarrow> bytes \<Rightarrow> mode_t \<Rightarrow> size_t \<Rightarrow> size_t list option \<Rightarrow> bytes option \<Rightarrow> size_t list option
    \<Rightarrow> ('s, 'c, 'm) world \<Rightarrow> (yk_return_t \<times> ('s, 'c, 'm) world) outcome" where
  "yk_doc_update_packed CD C B collection mode n ids records rsizes w =
     (if has_mode mode YOKAN_MODE_NO_RDMA
      then yk_doc_update_direct CD collection mode n ids records rsizes w
      else if n = 0 then Done (YOKAN_SUCCESS, w)
      else if rsizes = None \<or> ids = None then Done (YOKAN_ERR_INVALID_ARGS, w)
      else
        obind (c_array n rsizes) (\<lambda>rs.
        let rtotal = accumulate rs; total_size = accumulate [n * 8, rtotal] in
        if rtotal \<noteq> 0 \<and> records = None then Done (YOKAN_ERR_INVALID_ARGS, w)
        else
          obind (c_array rtotal records) (\<lambda>rdata.
          without_segs (with_bulk B HG_BULK_READ_ONLY
            (enc_list rs # (if rtotal \<noteq> 0 then [rdata] else [])) w
            (\<lambda>bulk. yk_doc_update_bulk C collection mode n ids None bulk 0 total_size)))))"

definition yk_doc_update_multi :: "(ids_docs_in, yk_return_t, ('s, 'c, 'm) world) channel
    \<Rightarrow> ('b ids_bulk_in, yk_return_t, ('s, 'c, 'm) world) channel \<Rightarrow> ('b, 'm) bulk_api
    \<Rightarrow> bytes \<Rightarrow> mode_t \<Rightarrow> size_t \<Rightarrow> size_t list option \<Rightarrow> bytes option list option \<Rightarrow> size_t list option
    \<Rightarrow> ('s, 'c, 'm) world \<Rightarrow> (yk_return_t \<times> ('s, 'c, 'm) world) outcome" where
  "yk_doc_update_multi CD C B collection mode n ids records rsizes w =
     (if n = 0 then Done (YOKAN_SUCCESS, w)
      else if records = None \<or> rsizes = None \<or> ids = None then Done (YOKAN_ERR_INVALID_ARGS, w)
      else
        obind (c_array n rsizes) (\<lambda>rs.
        obind (c_array n records) (\<lambda>rptrs.
        if has_mode mode YOKAN_MODE_NO_RDMA then
          (if n = 1 then yk_doc_update_direct CD collection mode n ids (rptrs ! 0) (Some rs) w
           else obind (c_arrays rs rptrs) (\<lambda>rds.
                yk_doc_update_direct CD collection mode n ids (Some (concat rds)) (Some rs) w))
        else if length rs \<ge> 4294967296 then Hung
        else
          obind (c_arrays rs rptrs) (\<lambda>rds.
          without_segs (with_bulk B HG_BULK_READ_ONLY (enc_list rs # nonempty rds) w
            (\<lambda>bulk. yk_doc_update_bulk C collection mode n ids None bulk 0
               (accumulate (n * 8 # filter (\<lambda>r. r \<noteq> 0) rs))))))))"

definition yk_doc_update :: "(ids_docs_in, yk_return_t, ('s, 'c, 'm) world) channel
    \<Rightarrow> ('b ids_bulk_in, yk_return_t, ('s, 'c, 'm) world) channel \<Rightarrow> ('b, 'm) bulk_api
    \<Rightarrow> bytes \<Rightarrow> mode_t \<Rightarrow> size_t \<Rightarrow> bytes option \<Rightarrow> size_t
    \<Rightarrow> ('s, 'c, 'm) world \<Rightarrow> (yk_return_t \<times> ('s, 'c, 'm) world) outcome" where
  "yk_doc_update CD C B collection mode id_val record_data sz w =
     yk_doc_update_packed CD C B collection mode 1 (Some [id_val]) record_data (Some [sz]) w"

section \<open>doc_load\<close>

text \<open>Sizes and records, as a get.\<close>

definition yk_doc_load_direct :: "(load_direct_in, direct_out, 'w) channel \<Rightarrow> bytes \<Rightarrow> mode_t \<Rightarrow> size_t
    \<Rightarrow> size_t list option \<Rightarrow> size_t \<Rightarrow> bytes option \<Rightarrow> size_t list option \<Rightarrow> 'w \<Rightarrow> 'w got outcome" where
  "yk_doc_load_direct C collection mode n ids rbufsize records rsizes w =
     (if n = 0 then Done (YOKAN_SUCCESS, rsizes, records, w)
      else if ids = None \<or> rsizes = None \<or> (records = None \<and> rbufsize \<noteq> 0)
      then Done (YOKAN_ERR_INVALID_ARGS, rsizes, records, w)
      else if \<not> mode_valid mode then Done (YOKAN_ERR_MODE, rsizes, records, w)
      else
        obind (c_array n ids) (\<lambda>is.
        call_rpc C \<lparr> ci_mode = mode, ci_name = collection, ii_ids = is, ldi_bufsize = rbufsize \<rparr> w
          (\<lambda>e w. Done (e, rsizes, records, w))
          (\<lambda>(ret, out_sizes, out_docs) w.
             obind (proc_ptr n rsizes out_sizes) (\<lambda>(hret, rsizes').
             if hret \<noteq> HG_SUCCESS then Done (YOKAN_ERR_FROM_MERCURY, rsizes', records, w)
             else
               obind (proc_ptr rbufsize records out_docs) (\<lambda>(hret, records').
               Done (if hret \<noteq> HG_SUCCESS then YOKAN_ERR_FROM_MERCURY else freed C ret,
                     rsizes', records', w))))))"

definition yk_doc_load_bulk :: "('b doc_load_in, yk_return_t, 'w) channel \<Rightarrow> bytes \<Rightarrow> mode_t \<Rightarrow> size_t
    \<Rightarrow> size_t list option \<Rightarrow> bytes option \<Rightarrow> 'b \<Rightarrow> size_t \<Rightarrow> size_t \<Rightarrow> bool \<Rightarrow> 'w
    \<Rightarrow> (yk_return_t \<times> 'w) outcome" where
  "yk_doc_load_bulk C name mode n ids origin data offset sz packed w =
     (if \<not> mode_valid mode then Done (YOKAN_ERR_MODE, w)
      else
        obind (c_array n ids) (\<lambda>is.
        simple_rpc C mode \<lparr> ci_mode = mode, ci_name = name, ii_ids = is, ib_offset = offset,
          ib_size = sz, ib_origin = origin, ib_bulk = data, dl_packed = packed \<rparr> w))"

definition yk_doc_load_packed :: "(load_direct_in, direct_out, ('s, 'c, 'm) world) channel
    \<Rightarrow> ('b doc_load_in, yk_return_t, ('s, 'c, 'm) world) channel \<Rightarrow> ('b, 'm) bulk_api
    \<Rightarrow> bytes \<Rightarrow> mode_t \<Rightarrow> size_t \<Rightarrow> size_t list option \<Rightarrow> size_t \<Rightarrow> bytes option \<Rightarrow> size_t list option
    \<Rightarrow> ('s, 'c, 'm) world \<Rightarrow> ('s, 'c, 'm) world got outcome" where
  "yk_doc_load_packed CD C B collection mode n ids rbufsize records rsizes w =
     (if has_mode mode YOKAN_MODE_NO_RDMA
      then yk_doc_load_direct CD collection mode n ids rbufsize records rsizes w
      else if n = 0 then Done (YOKAN_SUCCESS, rsizes, records, w)
      else if ids = None \<or> rsizes = None \<or> (records = None \<and> rbufsize \<noteq> 0)
      then Done (YOKAN_ERR_INVALID_ARGS, rsizes, records, w)
      else
        obind (c_array n rsizes) (\<lambda>rs.
        obind (c_array rbufsize records) (\<lambda>rbuf.
        obind (with_bulk B HG_BULK_READWRITE (enc_list rs # (if rbufsize \<noteq> 0 then [rbuf] else [])) w
            (\<lambda>bulk. yk_doc_load_bulk C collection mode n ids None bulk 0
               (accumulate [n * 8, rbufsize]) True)) (\<lambda>(ret, segs, w').
          Done (ret, c_back (dec_list (unat n) (segs ! 0)) rsizes,
                if rbufsize \<noteq> 0 then c_back (segs ! 1) records else records, w')))))"

text \<open>Here \<open>YOKAN_MODE_NO_RDMA\<close> makes no difference.\<close>

definition yk_doc_load_multi :: "('b doc_load_in, yk_return_t, ('s, 'c, 'm) world) channel
    \<Rightarrow> ('b, 'm) bulk_api \<Rightarrow> bytes \<Rightarrow> mode_t \<Rightarrow> size_t \<Rightarrow> size_t list option \<Rightarrow> bytes option list option
    \<Rightarrow> size_t list option \<Rightarrow> ('s, 'c, 'm) world
    \<Rightarrow> (yk_return_t \<times> size_t list option \<times> bytes option list option \<times> ('s, 'c, 'm) world) outcome" where
  "yk_doc_load_multi C B collection mode n ids records rsizes w =
     (if n = 0 then Done (YOKAN_SUCCESS, rsizes, records, w)
      else if ids = None \<or> rsizes = None \<or> records = None
      then Done (YOKAN_ERR_INVALID_ARGS, rsizes, records, w)
      else
        obind (c_array n rsizes) (\<lambda>rs.
        obind (c_array n records) (\<lambda>rptrs.
        if length rs \<ge> 4294967296 then Hung
        else
          obind (c_arrays rs rptrs) (\<lambda>rbufs.
          obind (with_bulk B HG_BULK_READWRITE (enc_list rs # nonempty rbufs) w
              (\<lambda>bulk. yk_doc_load_bulk C collection mode n ids None bulk 0
                 (accumulate (n * 8 # filter (\<lambda>r. r \<noteq> 0) rs)) False)) (\<lambda>(ret, segs, w').
            Done (ret, c_back (dec_list (unat n) (segs ! 0)) rsizes,
                  c_back (put_back rs rptrs (drop 1 segs)) records, w'))))))"

text \<open>\<open>*size\<close> is the room of the buffer before the call and the size of the record after it.\<close>

definition yk_doc_load :: "(load_direct_in, direct_out, ('s, 'c, 'm) world) channel
    \<Rightarrow> ('b doc_load_in, yk_return_t, ('s, 'c, 'm) world) channel \<Rightarrow> ('b, 'm) bulk_api
    \<Rightarrow> bytes \<Rightarrow> mode_t \<Rightarrow> size_t \<Rightarrow> bytes option \<Rightarrow> size_t option
    \<Rightarrow> ('s, 'c, 'm) world \<Rightarrow> (yk_return_t \<times> size_t option \<times> bytes option \<times> ('s, 'c, 'm) world) outcome" where
  "yk_doc_load CD C B collection mode id_val record_data sz w = (case sz of
       None \<Rightarrow> Done (YOKAN_ERR_INVALID_ARGS, None, record_data, w)
     | Some room \<Rightarrow>
         obind (yk_doc_load_packed CD C B collection mode 1 (Some [id_val]) room record_data (Some [room]) w)
           (\<lambda>(ret, sizes', record', w').
             let sz' = the sizes' ! 0 in
             if ret \<noteq> YOKAN_SUCCESS then Done (ret, Some sz', record', w')
             else if sz' = YOKAN_SIZE_TOO_SMALL then Done (YOKAN_ERR_BUFFER_SIZE, Some sz', record', w')
             else if sz' = YOKAN_KEY_NOT_FOUND then Done (YOKAN_ERR_KEY_NOT_FOUND, Some sz', record', w')
             else Done (YOKAN_SUCCESS, Some sz', record', w')))"

section \<open>doc_length, doc_erase\<close>

definition yk_doc_length_multi :: "(ids_in, yk_return_t \<times> size_t list, 'w) channel \<Rightarrow> bytes \<Rightarrow> mode_t
    \<Rightarrow> size_t \<Rightarrow> size_t list option \<Rightarrow> size_t list option \<Rightarrow> 'w \<Rightarrow> 'w lengths outcome" where
  "yk_doc_length_multi C collection mode n ids rsizes w =
     (if n = 0 then Done (YOKAN_SUCCESS, rsizes, w)
      else if ids = None \<or> rsizes = None then Done (YOKAN_ERR_INVALID_ARGS, rsizes, w)
      else if \<not> mode_valid mode then Done (YOKAN_ERR_MODE, rsizes, w)
      else
        obind (c_array n ids) (\<lambda>is.
        list_rpc C n rsizes \<lparr> ci_mode = mode, ci_name = collection, ii_ids = is \<rparr> w))"

definition yk_doc_length :: "(ids_in, yk_return_t \<times> size_t list, 'w) channel \<Rightarrow> bytes \<Rightarrow> mode_t
    \<Rightarrow> size_t \<Rightarrow> size_t list option \<Rightarrow> 'w \<Rightarrow> 'w lengths outcome" where
  "yk_doc_length C collection mode id_val sz w =
     (if sz = None then Done (YOKAN_ERR_INVALID_ARGS, sz, w)
      else
        obind (yk_doc_length_multi C collection mode 1 (Some [id_val]) sz w) (\<lambda>(ret, sz', w').
          if ret = YOKAN_SUCCESS \<and> the sz' ! 0 = YOKAN_KEY_NOT_FOUND
          then Done (YOKAN_ERR_KEY_NOT_FOUND, sz', w') else Done (ret, sz', w')))"

definition yk_doc_erase_multi :: "(ids_in, yk_return_t, 'w) channel \<Rightarrow> bytes \<Rightarrow> mode_t
    \<Rightarrow> size_t \<Rightarrow> size_t list option \<Rightarrow> 'w \<Rightarrow> (yk_return_t \<times> 'w) outcome" where
  "yk_doc_erase_multi C collection mode n ids w =
     (if n = 0 then Done (YOKAN_SUCCESS, w)
      else if ids = None then Done (YOKAN_ERR_INVALID_ARGS, w)
      else if \<not> mode_valid mode then Done (YOKAN_ERR_MODE, w)
      else
        obind (c_array n ids) (\<lambda>is.
        simple_rpc C mode \<lparr> ci_mode = mode, ci_name = collection, ii_ids = is \<rparr> w))"

definition yk_doc_erase :: "(ids_in, yk_return_t, 'w) channel \<Rightarrow> bytes \<Rightarrow> mode_t \<Rightarrow> size_t \<Rightarrow> 'w
    \<Rightarrow> (yk_return_t \<times> 'w) outcome" where
  "yk_doc_erase C name mode id_val w = yk_doc_erase_multi C name mode 1 (Some [id_val]) w"

section \<open>doc_list\<close>

text \<open>The identifiers, sizes and documents a listing leaves in the caller's buffers.\<close>

type_synonym 'w doc_listed = "yk_return_t \<times> size_t list option \<times> size_t list option \<times> bytes option \<times> 'w"

definition yk_doc_list_direct :: "(doc_list_direct_in, direct_out \<times> size_t list, 'w) channel \<Rightarrow> bytes
    \<Rightarrow> mode_t \<Rightarrow> size_t \<Rightarrow> bytes option \<Rightarrow> size_t \<Rightarrow> size_t \<Rightarrow> size_t list option \<Rightarrow> size_t
    \<Rightarrow> bytes option \<Rightarrow> size_t list option \<Rightarrow> 'w \<Rightarrow> 'w doc_listed outcome" where
  "yk_doc_list_direct C collection mode start_id flt filter_size n ids bufsize docs doc_sizes w =
     (let same = (\<lambda>e w. Done (e, ids, doc_sizes, docs, w)) in
      if n = 0 then same YOKAN_SUCCESS w
      else if flt = None \<and> filter_size > 0 then same YOKAN_ERR_INVALID_ARGS w
      else if ids = None \<or> (docs = None \<and> bufsize \<noteq> 0) \<or> doc_sizes = None
      then same YOKAN_ERR_INVALID_ARGS w
      else if \<not> mode_valid mode then same YOKAN_ERR_MODE w
      else
        obind (c_array filter_size flt) (\<lambda>filter_data.
        call_rpc C \<lparr> ci_mode = mode, ci_name = collection, dld_count = n, dld_from_id = start_id,
                     dld_filter = filter_data, dld_bufsize = bufsize \<rparr> w same
          (\<lambda>((ret, out_sizes, out_docs), out_ids) w.
             obind (proc_ptr n ids out_ids) (\<lambda>(hret, ids').
             if hret \<noteq> HG_SUCCESS then Done (YOKAN_ERR_FROM_MERCURY, ids', doc_sizes, docs, w)
             else
               obind (proc_ptr n doc_sizes out_sizes) (\<lambda>(hret, doc_sizes').
               if hret \<noteq> HG_SUCCESS then Done (YOKAN_ERR_FROM_MERCURY, ids', doc_sizes', docs, w)
               else
                 obind (proc_ptr bufsize docs out_docs) (\<lambda>(hret, docs').
                 Done (if hret \<noteq> HG_SUCCESS then YOKAN_ERR_FROM_MERCURY else freed C ret,
                       ids', doc_sizes', docs', w)))))))"

definition yk_doc_list_bulk :: "('b doc_list_in, yk_return_t, 'w) channel \<Rightarrow> bytes \<Rightarrow> mode_t \<Rightarrow> size_t
    \<Rightarrow> size_t \<Rightarrow> bytes option \<Rightarrow> 'b \<Rightarrow> size_t \<Rightarrow> size_t \<Rightarrow> bool \<Rightarrow> size_t \<Rightarrow> 'w
    \<Rightarrow> (yk_return_t \<times> 'w) outcome" where
  "yk_doc_list_bulk C collection mode from_id filter_size origin data offset docs_buf_size packed n w =
     (if n = 0 then Done (YOKAN_SUCCESS, w)
      else simple_rpc C mode \<lparr> ci_mode = mode, ci_name = collection, dli_packed = packed,
             dli_count = n, dli_from_id = from_id, dli_filter_size = filter_size, dli_offset = offset,
             dli_docs_buf_size = docs_buf_size, dli_origin = origin, dli_bulk = data \<rparr> w)"

text \<open>One buffer per document; those of size 0 are left out.\<close>

definition yk_doc_list :: "('b doc_list_in, yk_return_t, ('s, 'c, 'm) world) channel \<Rightarrow> ('b, 'm) bulk_api
    \<Rightarrow> bytes \<Rightarrow> mode_t \<Rightarrow> size_t \<Rightarrow> bytes option \<Rightarrow> size_t \<Rightarrow> size_t \<Rightarrow> size_t list option
    \<Rightarrow> bytes option list option \<Rightarrow> size_t list option \<Rightarrow> ('s, 'c, 'm) world
    \<Rightarrow> (yk_return_t \<times> size_t list option \<times> size_t list option \<times> bytes option list option
        \<times> ('s, 'c, 'm) world) outcome" where
  "yk_doc_list C B collection mode start_id flt filter_size n ids docs doc_sizes w =
     (let same = (\<lambda>e. Done (e, ids, doc_sizes, docs, w)) in
      if n = 0 then same YOKAN_SUCCESS
      else if flt = None \<and> filter_size > 0 then same YOKAN_ERR_INVALID_ARGS
      else if ids = None \<or> docs = None \<or> doc_sizes = None then same YOKAN_ERR_INVALID_ARGS
      else
        obind (c_array filter_size flt) (\<lambda>filter_data.
        obind (c_array n doc_sizes) (\<lambda>ss.
        obind (c_array n ids) (\<lambda>is.
        obind (c_array n docs) (\<lambda>dptrs.
        if length ss \<ge> 4294967296 then Hung
        else
          obind (c_arrays ss dptrs) (\<lambda>dbufs.
          let args = nonempty [filter_data] in
          obind (with_bulk B HG_BULK_READWRITE (args @ [enc_list ss, enc_list is] @ nonempty dbufs) w
              (\<lambda>bulk. yk_doc_list_bulk C collection mode start_id filter_size None bulk 0
                 (accumulate ss) False n))
            (\<lambda>(ret, segs, w').
              let back_segs = drop (length args) segs in
              Done (ret, c_back (dec_list (unat n) (back_segs ! 1)) ids,
                    c_back (dec_list (unat n) (back_segs ! 0)) doc_sizes,
                    c_back (put_back ss dptrs (drop 2 back_segs)) docs, w'))))))))"

text \<open>The buffer of the documents is exposed even when it holds no byte.\<close>

definition yk_doc_list_packed ::
  "(doc_list_direct_in, direct_out \<times> size_t list, ('s, 'c, 'm) world) channel
    \<Rightarrow> ('b doc_list_in, yk_return_t, ('s, 'c, 'm) world) channel \<Rightarrow> ('b, 'm) bulk_api \<Rightarrow> bytes
    \<Rightarrow> mode_t \<Rightarrow> size_t \<Rightarrow> bytes option \<Rightarrow> size_t \<Rightarrow> size_t \<Rightarrow> size_t list option \<Rightarrow> size_t
    \<Rightarrow> bytes option \<Rightarrow> size_t list option \<Rightarrow> ('s, 'c, 'm) world \<Rightarrow> ('s, 'c, 'm) world doc_listed outcome" where
  "yk_doc_list_packed CD C B collection mode start_id flt filter_size n ids bufsize docs doc_sizes w =
     (let same = (\<lambda>e. Done (e, ids, doc_sizes, docs, w)) in
      if has_mode mode YOKAN_MODE_NO_RDMA
      then yk_doc_list_direct CD collection mode start_id flt filter_size n ids bufsize docs doc_sizes w
      else if n = 0 then same YOKAN_SUCCESS
      else if flt = None \<and> filter_size > 0 then same YOKAN_ERR_INVALID_ARGS
      else if ids = None \<or> (docs = None \<and> bufsize \<noteq> 0) \<or> doc_sizes = None
      then same YOKAN_ERR_INVALID_ARGS
      else
        obind (c_array filter_size flt) (\<lambda>filter_data.
        obind (c_array n doc_sizes) (\<lambda>ss.
        obind (c_array n ids) (\<lambda>is.
        obind (c_array bufsize docs) (\<lambda>dbuf.
        let args = nonempty [filter_data] in
        obind (with_bulk B HG_BULK_READWRITE (args @ [enc_list ss, enc_list is, dbuf]) w
            (\<lambda>bulk. yk_doc_list_bulk C collection mode start_id filter_size None bulk 0 bufsize True n))
          (\<lambda>(ret, segs, w').
            let back_segs = drop (length args) segs in
            Done (ret, c_back (dec_list (unat n) (back_segs ! 1)) ids,
                  c_back (dec_list (unat n) (back_segs ! 0)) doc_sizes,
                  c_back (back_segs ! 2) docs, w')))))))"

end
