(* ===== verification/DocService.thy ===== *)
theory DocService
  imports DocClient Provider RpcProperties
begin

text \<open>
  The document service as a whole: a client, the handlers of the provider, the mixin and the map
  backend.
\<close>

section \<open>The service\<close>

text \<open>A channel to a handler that takes its arguments from the input.\<close>

definition direct_channel :: "(('i, 'b, 'm) rpc \<Rightarrow> 's doc_store \<Rightarrow> 's option \<Rightarrow> ('o \<times> 's option) outcome)
    \<Rightarrow> ('i, 'b, 'm) rpc \<Rightarrow> 's doc_store \<Rightarrow> ('i, 'o, ('s, 'c, 'm) world) channel" where
  "direct_channel handler R D = channel_to (\<lambda>inp. on_db (handler (R\<lparr> rpc_input := Some inp \<rparr>) D))"

lemma direct_channel_run:
  assumes "w_db w = Some s"
    and "handler (R\<lparr> rpc_input := Some inp \<rparr>) D (Some s) = Done (out, Some s')"
  shows "call_rpc (direct_channel handler R D) inp w err k = k out (w\<lparr> w_db := Some s' \<rparr>)"
  using assms by (simp add: direct_channel_def channel_to_def call_rpc_def on_db_def)

lemma direct_channel_freed [simp]: "freed (direct_channel handler R D) ret = ret"
  by (simp add: direct_channel_def channel_to_def freed_def)

lemma reaches_asked: "reaches R a \<Longrightarrow> asked (R\<lparr> rpc_input := Some inp \<rparr>) inp"
  by (simp add: reaches_def asked_def)

lemma no_rdma_mode: "has_mode YOKAN_MODE_NO_RDMA YOKAN_MODE_NO_RDMA" "plain_mode YOKAN_MODE_NO_RDMA"
  "map_supportsMode has_lua YOKAN_MODE_NO_RDMA" "mode_valid YOKAN_MODE_NO_RDMA" "mode_valid 0"
  by (simp_all add: has_mode_def plain_mode_def map_supportsMode_def within_mask_def mode_valid_def
      mode_defs incompatible_modes_def)

lemma proc_ptr_fill:
  assumes "fits xs" "length wire \<le> length xs"
  shows "proc_ptr (usize xs) (Some xs) wire = Done (HG_SUCCESS, Some (wire @ drop (length wire) xs))"
  using assms by (simp add: proc_ptr_def c_array_def proc_into_def c_back_def unat_usize)

text \<open>The two direct calls, when the handler answers.\<close>

lemma store_no_rdma:
  assumes "w_db w = Some s" "vs \<noteq> []" "fits vs" "fits (concat vs)" "length ids = length vs"
    and "length ids' = length vs"
    and "yk_doc_store_direct_ult (R\<lparr> rpc_input := Some \<lparr> ci_mode = YOKAN_MODE_NO_RDMA, ci_name = name,
           di_sizes = map usize vs, di_docs = concat vs \<rparr> \<rparr>) D (Some s) = Done ((ret, ids'), Some s')"
  shows "yk_doc_store_packed (direct_channel yk_doc_store_direct_ult R D) C B name YOKAN_MODE_NO_RDMA (usize vs)
      (Some (concat vs)) (Some (map usize vs)) (Some ids) w = Done (ret, Some ids', w\<lparr> w_db := Some s' \<rparr>)"
proof -
  have "c_array (usize vs) (Some (map usize vs)) = Done (map usize vs :: size_t list)"
    "c_array (accumulate (map usize vs)) (Some (concat vs)) = Done (concat vs)"
    using assms(3,4) by (simp_all add: accumulate_usize) (simp_all add: c_array_def unat_usize)
  moreover have "proc_ptr (usize vs) (Some ids) ids' = Done (HG_SUCCESS, Some ids')"
    using proc_ptr_fill [of ids ids'] assms(3,5,6) by (simp add: usize_def)
  ultimately show ?thesis
    using assms(1,2,3,7) no_rdma_mode(1) usize_0 [of vs]
    by (simp add: yk_doc_store_packed_def yk_doc_store_direct_def list_rpc_def direct_channel_run)
qed

lemma load_no_rdma:
  assumes "w_db w = Some s" "ids \<noteq> []" "fits ids" "length room = length ids" "fits buf"
    and "length ns = length ids" "length docs \<le> length buf"
    and "yk_doc_load_direct_ult (R\<lparr> rpc_input := Some \<lparr> ci_mode = YOKAN_MODE_NO_RDMA, ci_name = name,
           ii_ids = ids, ldi_bufsize = usize buf \<rparr> \<rparr>) D (Some s) = Done ((ret, ns, docs), Some s')"
  shows "yk_doc_load_packed (direct_channel yk_doc_load_direct_ult R D) C B name YOKAN_MODE_NO_RDMA (usize ids)
      (Some ids) (usize buf) (Some buf) (Some room) w
    = Done (ret, Some ns, Some (docs @ drop (length docs) buf), w\<lparr> w_db := Some s' \<rparr>)"
proof -
  have "c_array (usize ids) (Some ids) = Done ids" "usize ids \<noteq> 0"
    using assms(2,3) by (simp_all add: c_array_def unat_usize usize_0)
  moreover have "proc_ptr (usize ids) (Some room) ns = Done (HG_SUCCESS, Some ns)"
    using proc_ptr_fill [of room ns] assms(3,4,6) by (simp add: usize_def)
  ultimately show ?thesis
    using assms(1,8) proc_ptr_fill [OF assms(5,7)] no_rdma_mode(1,4)
    by (simp add: yk_doc_load_packed_def yk_doc_load_direct_def direct_channel_run)
qed

section \<open>A collection over the network\<close>

text \<open>
  C11: a client creates a collection, stores documents with \<open>YOKAN_MODE_NO_RDMA\<close>, which writes their
  identifiers to its buffer, and loads these identifiers: its buffers then hold exactly the sizes and
  the documents it stored, and the bytes after them are untouched.
\<close>

theorem client_docs_roundtrip:
  fixes w :: "(pairs kv_db doc_db, 'c, 'm) world"
  assumes "total_comparator cmp" "w_db w = Some d" "map_sound cmp (dm_db d)"
    and "name \<noteq> []" "0 \<notin> set name" "fits name" "map_of (m_db (dm_db d)) name = None"
    and "vs \<noteq> []" "\<forall>v \<in> set vs. sized v" "length vs * (length name + 9) < 2 ^ 64" "fits (concat vs)"
    and "length ids = length vs" "length room = length vs" "length (concat vs) \<le> length buf" "fits buf"
    and "reaches R a" "reaches R2 a" "reaches R3 a"
  shows "\<exists>w1 w2. yk_collection_create
        (direct_channel yk_coll_create_ult R (mixin_docs (map_ops cmp has_lua))) name 0 w
      = Done (YOKAN_SUCCESS, w1)
    \<and> yk_doc_store_packed
        (direct_channel yk_doc_store_direct_ult R2 (mixin_docs (map_ops cmp has_lua))) C B name
        YOKAN_MODE_NO_RDMA (usize vs) (Some (concat vs)) (Some (map usize vs)) (Some ids) w1
      = Done (YOKAN_SUCCESS, Some (map of_nat [0..<length vs]), w2)
    \<and> yk_doc_load_packed
        (direct_channel yk_doc_load_direct_ult R3 (mixin_docs (map_ops cmp has_lua))) C2 B name
        YOKAN_MODE_NO_RDMA (usize vs) (Some (map of_nat [0..<length vs])) (usize buf) (Some buf)
        (Some room) w2
      = Done (YOKAN_SUCCESS, Some (map usize vs), Some (concat vs @ drop (length (concat vs)) buf), w2)"
proof -
  let ?D = "mixin_docs (map_ops cmp has_lua)" and ?ids = "map of_nat [0..<length vs] :: size_t list"
  have packs: "packs (concat vs) vs (map usize vs)" using assms(11) by (simp add: packs_def)
  have small: "length vs * (length name + 9) < 18446744073709551616" using assms(10) by simp
  have n: "fits vs" using length_below [OF small] by simp
  obtain d1 d2 where run:
    "yk_coll_create_ult (R\<lparr> rpc_input := Some \<lparr> ci_mode = 0, ci_name = name \<rparr> \<rparr>) ?D (Some d)
      = Done (YOKAN_SUCCESS, Some d1)"
    "yk_doc_store_direct_ult (R2\<lparr> rpc_input := Some \<lparr> ci_mode = YOKAN_MODE_NO_RDMA, ci_name = name,
        di_sizes = map usize vs, di_docs = concat vs \<rparr> \<rparr>) ?D (Some d1) = Done ((YOKAN_SUCCESS, ?ids), Some d2)"
    "yk_doc_load_direct_ult (R3\<lparr> rpc_input := Some \<lparr> ci_mode = YOKAN_MODE_NO_RDMA, ci_name = name,
        ii_ids = ?ids, ldi_bufsize = usize buf \<rparr> \<rparr>) ?D (Some d2)
      = Done ((YOKAN_SUCCESS, map usize vs, concat vs), Some d2)"
    using provider_docs_roundtrip [OF assms(1,3-7) packs assms(9,10) _ no_rdma_mode(2,3)
        reaches_asked [OF assms(16)] reaches_asked [OF assms(17)] reaches_asked [OF assms(18)],
        of "usize buf" has_lua] assms(14,15) by (auto simp: unat_usize)
  show ?thesis
  proof (intro exI conjI)
    show "yk_collection_create (direct_channel yk_coll_create_ult R ?D) name 0 w
        = Done (YOKAN_SUCCESS, w\<lparr> w_db := Some d1 \<rparr>)"
      using run(1) assms(2) no_rdma_mode(5)
      by (simp add: yk_collection_create_def direct_channel_def simple_rpc_to on_db_def)
  qed (use store_no_rdma [OF _ assms(8) n assms(11,12) _ run(2), of "w\<lparr> w_db := Some d1 \<rparr>"]
         load_no_rdma [OF _ _ _ _ assms(15) _ assms(14) run(3), of "w\<lparr> w_db := Some d2 \<rparr>"]
         n assms(8,13) in \<open>simp_all add: usize_def\<close>)
qed

theorem client_docs_roundtrip_witness:
  "\<exists>w1 w2 (C :: (unit doc_store_in, yk_return_t \<times> size_t list,
        (pairs kv_db doc_db, bool lru_bulk, bytes list) world) channel)
      (C2 :: (unit doc_load_in, yk_return_t, (pairs kv_db doc_db, bool lru_bulk, bytes list) world) channel).
    yk_collection_create
        (direct_channel yk_coll_create_ult (loop_rpc None) (mixin_docs (map_ops DefaultMemCmp False)))
        [97] 0 (loop_world doc_db0) = Done (YOKAN_SUCCESS, w1)
    \<and> yk_doc_store_packed
        (direct_channel yk_doc_store_direct_ult (loop_rpc None) (mixin_docs (map_ops DefaultMemCmp False)))
        C loop_bulk [97] YOKAN_MODE_NO_RDMA 2 (Some [5, 6, 7]) (Some [2, 1]) (Some [9, 9]) w1
      = Done (YOKAN_SUCCESS, Some [0, 1], w2)
    \<and> yk_doc_load_packed
        (direct_channel yk_doc_load_direct_ult (loop_rpc None) (mixin_docs (map_ops DefaultMemCmp False)))
        C2 loop_bulk [97] YOKAN_MODE_NO_RDMA 2 (Some [0, 1]) 4 (Some [8, 8, 8, 8]) (Some [0, 0]) w2
      = Done (YOKAN_SUCCESS, Some [2, 1], Some [5, 6, 7, 8], w2)"
proof -
  have a: "w_db (loop_world doc_db0) = Some doc_db0" "map_sound DefaultMemCmp (dm_db doc_db0)"
    "[97] \<noteq> ([] :: bytes)" "0 \<notin> set [97 :: byte]"
    "fits [97 :: byte]" "map_of (m_db (dm_db doc_db0)) [97] = None"
    "[[5, 6], [7]] \<noteq> ([] :: bytes list)" "\<forall>v \<in> set [[5, 6], [7]]. sized v"
    "length [[5 :: byte, 6], [7]] * (length [97 :: byte] + 9) < 2 ^ 64" "fits (concat [[5 :: byte, 6], [7]])"
    "length [9 :: size_t, 9] = length [[5 :: byte, 6], [7]]"
    "length [0 :: size_t, 0] = length [[5 :: byte, 6], [7]]"
    "length (concat [[5 :: byte, 6], [7]]) \<le> length [8 :: byte, 8, 8, 8]" "fits [8 :: byte, 8, 8, 8]"
    by (simp_all add: doc_concrete doc_db0_def loop_world_def)
  show ?thesis
    using client_docs_roundtrip [OF memcmp_total a loop_reaches [of None] loop_reaches [of None] loop_reaches [of None],
        of False]
    by (fastforce simp: usize_def upt_rec)
qed

end
