(* ===== verification/NullBackend.thy ===== *)
theory NullBackend
  imports DocMixin
begin

text \<open>
  The null backend (src/src/backends/null.cpp): it checks its arguments, stores nothing, and answers
  as if every key were missing, except that \<open>get\<close> makes the values up and \<open>fetch\<close> gives every key
  the empty value. Its state is the configuration alone, which no operation reads.
\<close>

section \<open>The operations\<close>

definition null_supportsMode :: "mode_t \<Rightarrow> bool" where
  "null_supportsMode mode \<longleftrightarrow> mode = YOKAN_MODE_DEFAULT"

definition null_destroy :: "'s \<Rightarrow> 's" where
  "null_destroy s = s"

definition null_count :: "mode_t \<Rightarrow> 's \<Rightarrow> status \<times> size_t option" where
  "null_count mode s = (OK, Some 0)"

fun null_exists_loop :: "umem \<Rightarrow> size_t list \<Rightarrow> size_t \<Rightarrow> nat \<Rightarrow> bitfield \<Rightarrow> (status \<times> bitfield) outcome" where
  "null_exists_loop keys [] offset i flags = Done (OK, flags)"
| "null_exists_loop keys (ksize # ksizes) offset i flags =
     (if offset + ksize > usize (um_data keys) then Done (InvalidArg, flags)
      else obind (bf_set flags i False) (null_exists_loop keys ksizes (offset + ksize) (Suc i)))"

definition null_exists :: "mode_t \<Rightarrow> umem \<Rightarrow> size_t list \<Rightarrow> bitfield \<Rightarrow> (status \<times> bitfield) outcome" where
  "null_exists mode keys ksizes flags =
     (if usize ksizes > bf_size flags then Done (InvalidArg, flags)
      else null_exists_loop keys ksizes 0 0 flags)"

fun null_length_loop :: "umem \<Rightarrow> size_t list \<Rightarrow> size_t \<Rightarrow> nat \<Rightarrow> size_t list \<Rightarrow> status \<times> size_t list" where
  "null_length_loop keys [] offset i vsizes = (OK, vsizes)"
| "null_length_loop keys (ksize # ksizes) offset i vsizes =
     (if offset + ksize > usize (um_data keys) then (InvalidArg, vsizes)
      else null_length_loop keys ksizes (offset + ksize) (Suc i) (vsizes[i := YOKAN_KEY_NOT_FOUND]))"

definition null_length :: "mode_t \<Rightarrow> umem \<Rightarrow> size_t list \<Rightarrow> size_t list \<Rightarrow> status \<times> size_t list" where
  "null_length mode keys ksizes vsizes =
     (if length ksizes \<noteq> length vsizes then (InvalidArg, vsizes)
      else null_length_loop keys ksizes 0 0 vsizes)"

definition null_put :: "mode_t \<Rightarrow> umem \<Rightarrow> size_t list \<Rightarrow> bytes \<Rightarrow> size_t list \<Rightarrow> status" where
  "null_put mode keys ksizes vals vsizes =
     (if length ksizes \<noteq> length vsizes then InvalidArg
      else if accumulate ksizes > usize (um_data keys) then InvalidArg
      else if accumulate vsizes > usize vals then InvalidArg
      else OK)"

text \<open>
  A packed \<open>get\<close> gives the whole buffer to the first key, without asking whether there is one:
  \<open>vsizes[0]\<close> is written even when \<open>vsizes\<close> has no cell.
\<close>

definition null_get :: "mode_t \<Rightarrow> bool \<Rightarrow> umem \<Rightarrow> size_t list \<Rightarrow> bytes \<Rightarrow> size_t list
    \<Rightarrow> (status \<times> get_out) outcome" where
  "null_get mode packed keys ksizes vals vsizes =
     (let out = \<lparr> g_vals = vals, g_size = usize vals, g_vsizes = vsizes \<rparr> in
      if length ksizes \<noteq> length vsizes then Done (InvalidArg, out)
      else if packed then
        (if vsizes = [] then Undef
         else Done (OK, out\<lparr> g_vsizes := (map (\<lambda>_. 0) vsizes)[0 := usize vals] \<rparr>))
      else Done (OK, out))"

fun null_fetch_loop :: "umem \<Rightarrow> size_t list \<Rightarrow> 'st fetch_cb \<Rightarrow> size_t \<Rightarrow> 'st \<Rightarrow> (status \<times> 'st) outcome" where
  "null_fetch_loop keys [] func key_offset st = Done (OK, st)"
| "null_fetch_loop keys (ksize # ksizes) func key_offset st =
     obind (sub_umem keys key_offset ksize) (\<lambda>key.
       case func (um_data key) (Some []) st of
         (status, st') \<Rightarrow>
           if status \<noteq> OK then Done (status, st')
           else null_fetch_loop keys ksizes func (key_offset + ksize) st')"

text \<open>The loop counts with an \<open>unsigned\<close>.\<close>

definition null_fetch :: "mode_t \<Rightarrow> umem \<Rightarrow> size_t list \<Rightarrow> 'st fetch_cb \<Rightarrow> 'st \<Rightarrow> (status \<times> 'st) outcome" where
  "null_fetch mode keys ksizes func st =
     obind (null_fetch_loop keys (take 4294967296 ksizes) func 0 st) (\<lambda>(status, st').
       if status = OK \<and> length ksizes \<ge> 4294967296 then Hung else Done (status, st'))"

fun null_erase_loop :: "umem \<Rightarrow> size_t list \<Rightarrow> size_t \<Rightarrow> status" where
  "null_erase_loop keys [] offset = OK"
| "null_erase_loop keys (ksize # ksizes) offset =
     (if offset + ksize > usize (um_data keys) then InvalidArg
      else null_erase_loop keys ksizes (offset + ksize))"

definition null_erase :: "mode_t \<Rightarrow> umem \<Rightarrow> size_t list \<Rightarrow> status" where
  "null_erase mode keys ksizes = null_erase_loop keys ksizes 0"

section \<open>What is and what is not there\<close>

text \<open>The guard of the loops holds, and the next view starts where this one ends.\<close>

lemma null_view:
  assumes "um_data keys = pre @ concat (k # ks) @ post" "fits (um_data keys)"
  shows "\<not> usize (um_data keys) < usize pre + usize k" "usize pre + usize k = usize (pre @ k)"
    "um_data keys = (pre @ k) @ concat ks @ post"
    "sub_umem keys (usize pre) (usize k) = Done \<lparr> um_addr = um_addr keys + usize pre, um_data = k \<rparr>"
  using assms view_inside [of pre k "concat ks @ post"] sub_umem_append [of pre k "concat ks @ post" keys]
  by (auto simp: usize_append)

text \<open>For \<open>length\<close> and \<open>exists\<close> every key is missing.\<close>

lemma null_length_loop_law:
  assumes "um_data keys = pre @ concat ks @ post" "fits (um_data keys)" "length vsizes = length ks"
  shows "null_length_loop keys (map usize ks) (usize pre) (length ms) (ms @ vsizes)
    = (OK, ms @ map (\<lambda>_. YOKAN_KEY_NOT_FOUND) ks)"
  using assms
proof (induction ks arbitrary: pre ms vsizes)
  case (Cons k ks)
  note v = null_view [OF Cons.prems(1,2)]
  obtain n ns where "vsizes = n # ns" "length ns = length ks" using Cons.prems(3) by (cases vsizes) auto
  then show ?case
    using Cons.IH [OF v(3) Cons.prems(2), of ns "ms @ [YOKAN_KEY_NOT_FOUND]"] v(1,2) by simp
qed simp

lemma null_length_missing:
  assumes "packs (um_data keys) ks ksizes" "length vsizes = length ks"
  shows "null_length mode keys ksizes vsizes = (OK, map (\<lambda>_. YOKAN_KEY_NOT_FOUND) ks)"
proof -
  obtain post where "ksizes = map usize ks" "fits (um_data keys)" "um_data keys = [] @ concat ks @ post"
    using assms(1) by (auto elim: packsE)
  then show ?thesis
    using null_length_loop_law [of keys "[]" ks post vsizes "[]"] assms(2) by (simp add: null_length_def)
qed

lemma null_exists_loop_law:
  assumes "um_data keys = pre @ concat ks @ post" "fits (um_data keys)"
    and "bf_ok flags" "i + length ks \<le> unat (bf_size flags)"
  shows "\<exists>flags'. null_exists_loop keys (map usize ks) (usize pre) i flags = Done (OK, flags')
    \<and> bf_ok flags' \<and> bf_size flags' = bf_size flags
    \<and> (\<forall>j. bf_get flags' j = (if i \<le> j \<and> j < i + length ks then Done False else bf_get flags j))"
  using assms
proof (induction ks arbitrary: pre i flags)
  case Nil
  then show ?case by auto
next
  case (Cons k ks)
  note v = null_view [OF Cons.prems(1,2)]
  have "i < unat (bf_size flags)" using Cons.prems(4) by simp
  from bf_set_Done [OF Cons.prems(3) this, where b = False]
  obtain f1 where f1: "bf_set flags i False = Done f1" "bf_ok f1" "bf_size f1 = bf_size flags"
    "\<And>j. bf_get f1 j = (if j = i then Done False else bf_get flags j)" by blast
  obtain f2 where f2: "null_exists_loop keys (map usize ks) (usize (pre @ k)) (Suc i) f1 = Done (OK, f2)"
    "bf_ok f2" "bf_size f2 = bf_size f1"
    "\<forall>j. bf_get f2 j = (if Suc i \<le> j \<and> j < Suc i + length ks then Done False else bf_get f1 j)"
    using Cons.IH [OF v(3) Cons.prems(2) f1(2), of "Suc i"] f1(3) Cons.prems(4) by auto
  have "bf_get f2 j = (if i \<le> j \<and> j < i + length (k # ks) then Done False else bf_get flags j)" for j
    using f1(4) f2(4) by auto
  then show ?case using f1(1,3) f2(1-3) v(1,2) by auto
qed

lemma null_exists_none:
  assumes "packs (um_data keys) ks ksizes" "bf_ok flags" "length ks \<le> unat (bf_size flags)"
  shows "\<exists>flags'. null_exists mode keys ksizes flags = Done (OK, flags')
    \<and> (\<forall>j. bf_get flags' j = (if j < length ks then Done False else bf_get flags j))"
proof -
  obtain post where k: "ksizes = map usize ks" "fits (um_data keys)" "um_data keys = [] @ concat ks @ post"
    using assms(1) by (auto elim: packsE)
  have "unat (usize ksizes) \<le> length ks" using unat_usize_le [of ksizes] k(1) by simp
  then have "\<not> bf_size flags < usize ksizes" using assms(3) by (simp add: word_less_nat_alt)
  then show ?thesis
    using null_exists_loop_law [OF k(3,2) assms(2), of 0] assms(3) k(1)
    by (auto simp: null_exists_def)
qed

text \<open>\<open>erase\<close> and \<open>put\<close> accept whatever a well-behaved caller sends.\<close>

lemma null_erase_loop_law:
  "um_data keys = pre @ concat ks @ post \<Longrightarrow> fits (um_data keys)
    \<Longrightarrow> null_erase_loop keys (map usize ks) (usize pre) = OK"
proof (induction ks arbitrary: pre)
  case (Cons k ks)
  then show ?case using null_view [of keys pre k ks post] Cons.IH [of "pre @ k"] by simp
qed simp

lemma null_accepts:
  assumes "packs (um_data keys) ks ksizes" "packs vals vs vsizes" "length ks = length vs"
  shows "null_put mode keys ksizes vals vsizes = OK" "null_erase mode keys ksizes = OK"
proof -
  obtain post where k: "ksizes = map usize ks" "fits (um_data keys)" "um_data keys = [] @ concat ks @ post"
    using assms(1) by (auto elim: packsE)
  show "null_put mode keys ksizes vals vsizes = OK"
    using packs_accumulate [OF assms(1)] packs_accumulate [OF assms(2)] packs_length [OF assms(1)]
      packs_length [OF assms(2)] assms(3) by (simp add: null_put_def)
  show "null_erase mode keys ksizes = OK"
    using null_erase_loop_law [OF k(3,2)] k(1) by (simp add: null_erase_def)
qed

text \<open>
  \<open>get\<close> and \<open>fetch\<close> do not agree with them: a packed \<open>get\<close> hands out the buffer of the caller as the
  value of the first key and empty values for the others, and \<open>fetch\<close> calls back with an empty value.
\<close>

lemma null_get_made_up:
  assumes "length ksizes = length vsizes" "vsizes \<noteq> []"
  shows "null_get mode True keys ksizes vals vsizes
    = Done (OK, \<lparr> g_vals = vals, g_size = usize vals,
                   g_vsizes = usize vals # replicate (length vsizes - 1) 0 \<rparr>)"
  using assms by (cases vsizes) (simp_all add: null_get_def map_replicate_const)

lemma null_get_no_key: "null_get mode True keys [] vals [] = Undef"
  by (simp add: null_get_def)

lemma null_fetch_made_up:
  assumes "um_data keys = pre @ concat ks @ post" "fits (um_data keys)"
  shows "null_fetch_loop keys (map usize ks) func (usize pre) st
    = Done (run_calls func (map (\<lambda>k. (k, Some [])) ks) st)"
  using assms
proof (induction ks arbitrary: pre st)
  case (Cons k ks)
  note v = null_view [OF Cons.prems]
  show ?case
    using Cons.IH [OF v(3) Cons.prems(2)] v(2,4) by (cases "func k (Some []) st") simp
qed simp

end
