(* ===== verification/BackRpc.thy ===== *)
theory BackRpc
  imports KvClientQuery DocHandlers
begin

text \<open>
  What the operations share that send data back to the client with RPCs of their own (fetch, iter,
  doc_fetch and doc_iter in src/src/server and src/src/client): the RPC in flight while the provider
  prepares the next one, the batches, and the client's callbacks.
\<close>

section \<open>Casts between return values and statuses\<close>

text \<open>\<open>(yokan::Status)ret\<close>.\<close>

fun ret_status :: "yk_return_t \<Rightarrow> status" where
  "ret_status YOKAN_SUCCESS = OK"
| "ret_status YOKAN_ERR_INVALID_BACKEND = InvalidType"
| "ret_status YOKAN_ERR_INVALID_CONFIG = InvalidConf"
| "ret_status YOKAN_ERR_INVALID_ARGS = InvalidArg"
| "ret_status YOKAN_ERR_INVALID_ID = InvalidID"
| "ret_status YOKAN_ERR_KEY_NOT_FOUND = NotFound"
| "ret_status YOKAN_ERR_BUFFER_SIZE = SizeError"
| "ret_status YOKAN_ERR_KEY_EXISTS = KeyExists"
| "ret_status YOKAN_ERR_OP_UNSUPPORTED = NotSupported"
| "ret_status YOKAN_ERR_CORRUPTION = Corruption"
| "ret_status YOKAN_ERR_IO = IOError"
| "ret_status YOKAN_ERR_INCOMPLETE = Incomplete"
| "ret_status YOKAN_ERR_TIMEOUT = TimedOut"
| "ret_status YOKAN_ERR_ABORTED = Aborted"
| "ret_status YOKAN_ERR_BUSY = Busy"
| "ret_status YOKAN_ERR_EXPIRED = Expired"
| "ret_status YOKAN_ERR_TRY_AGAIN = TryAgain"
| "ret_status YOKAN_ERR_SYSTEM = System"
| "ret_status YOKAN_ERR_CANCELED = Canceled"
| "ret_status YOKAN_ERR_PERMISSION = Permission"
| "ret_status YOKAN_ERR_MODE = InvalidMode"
| "ret_status YOKAN_ERR_MIGRATED = Migrated"
| "ret_status YOKAN_STOP_ITERATION = StopIteration"
| "ret_status YOKAN_ERR_OTHER = Other"
| "ret_status r = Unlisted r"

lemma status_ret_cast [simp]: "status_ret (ret_status r) = r"
  by (cases r) simp_all

lemma ret_status_OK [simp]: "ret_status r = OK \<longleftrightarrow> r = YOKAN_SUCCESS"
  by (cases r) simp_all

section \<open>The RPC in flight\<close>

text \<open>
  \<open>bk_iforward\<close> is \<open>margo_iforward\<close> with a request \<open>'q\<close>; \<open>bk_wait\<close> is \<open>margo_wait\<close> and
  \<open>margo_get_output\<close>. The client's handler may run in either: both may change its memory.
\<close>

record ('i, 'q, 'm) back_rpc =
  bk_create :: hg_return
  bk_iforward :: "'i \<Rightarrow> 'm \<Rightarrow> (hg_return \<times> 'q \<times> 'm) outcome"
  bk_wait :: "'q \<Rightarrow> 'm \<Rightarrow> (hg_return \<times> yk_return_t option \<times> 'm) outcome"

definition wait_previous :: "('i, 'q, 'm) back_rpc \<Rightarrow> 'q option \<Rightarrow> 'm \<Rightarrow> (yk_return_t \<times> 'm) outcome" where
  "wait_previous B prev m = (case prev of
       None \<Rightarrow> Done (YOKAN_SUCCESS, m)
     | Some q \<Rightarrow> obind (bk_wait B q m) (\<lambda>(hret, out, m').
         if hret \<noteq> HG_SUCCESS then Done (YOKAN_ERR_FROM_MERCURY, m')
         else case out of None \<Rightarrow> Done (YOKAN_ERR_FROM_MERCURY, m') | Some ret \<Rightarrow> Done (ret, m')))"

text \<open>Waits for the RPC in flight, then sends the next; the second component is the RPC in flight.\<close>

definition send_back :: "('i, 'q, 'm) back_rpc \<Rightarrow> 'i \<Rightarrow> 'q option \<Rightarrow> 'm
    \<Rightarrow> (yk_return_t \<times> 'q option \<times> 'm) outcome" where
  "send_back B inp prev m =
     obind (wait_previous B prev m) (\<lambda>(ret, m).
       if ret \<noteq> YOKAN_SUCCESS then Done (ret, None, m)
       else if bk_create B \<noteq> HG_SUCCESS then Done (YOKAN_ERR_FROM_MERCURY, None, m)
       else obind (bk_iforward B inp m) (\<lambda>(hret, q, m).
         if hret \<noteq> HG_SUCCESS then Done (YOKAN_ERR_FROM_MERCURY, None, m)
         else Done (YOKAN_SUCCESS, Some q, m)))"

text \<open>With RDMA the data is exposed first; when that fails nothing is waited for.\<close>

definition send_exposed :: "('i, 'q, 'm) back_rpc \<Rightarrow> ('b, 'm) bulk_api \<Rightarrow> bytes list \<Rightarrow> ('b \<Rightarrow> 'i)
    \<Rightarrow> 'q option \<Rightarrow> 'm \<Rightarrow> (yk_return_t \<times> 'q option \<times> 'm) outcome" where
  "send_exposed B M segs inp_of prev m =
     (case ba_create M HG_BULK_READ_ONLY segs m of
        None \<Rightarrow> Done (YOKAN_ERR_FROM_MERCURY, prev, m)
      | Some (bulk, m) \<Rightarrow> send_back B (inp_of bulk) prev m)"

text \<open>The end of a fetch: a stop is a success, unless it is the answer to the last RPC.\<close>

definition finish_back :: "('i, 'q, 'm) back_rpc \<Rightarrow> yk_return_t \<Rightarrow> 'q option \<Rightarrow> 'm
    \<Rightarrow> (yk_return_t \<times> 'm) outcome" where
  "finish_back B ret prev m =
     (let ret = (if ret = YOKAN_STOP_ITERATION then YOKAN_SUCCESS else ret) in
      obind (wait_previous B prev m) (\<lambda>(r, m).
        Done (if ret = YOKAN_SUCCESS then r else ret, m)))"

section \<open>Batches\<close>

text \<open>
  \<open>ceil\<close> of the quotient of the two counts as doubles, exact below \<open>2^53\<close>. A batch size of 0 stands
  for the count, cut to 32 bits; the conversion of infinity or NaN that a size of 0 then leads to is
  undefined.
\<close>

definition with_batches :: "32 word \<Rightarrow> size_t \<Rightarrow> (32 word \<Rightarrow> nat \<Rightarrow> 'r outcome) \<Rightarrow> 'r outcome" where
  "with_batches batch_size n k =
     (let bs = (if batch_size = 0 then ucast n else batch_size) in
      if bs = 0 then Undef else k bs ((unat n + unat bs - 1) div unat bs))"

text \<open>\<open>f\<close> for one batch after the other, until one fails. The index is an \<open>unsigned\<close>.\<close>

fun each_batch :: "(nat \<Rightarrow> 'p \<Rightarrow> (yk_return_t \<times> 'p) outcome) \<Rightarrow> nat list \<Rightarrow> 'p
    \<Rightarrow> (yk_return_t \<times> 'p) outcome" where
  "each_batch f [] p = Done (YOKAN_SUCCESS, p)"
| "each_batch f (i # is) p =
     obind (f i p) (\<lambda>(ret, p'). if ret \<noteq> YOKAN_SUCCESS then Done (ret, p') else each_batch f is p')"

definition run_batches :: "(nat \<Rightarrow> 'p \<Rightarrow> (yk_return_t \<times> 'p) outcome) \<Rightarrow> nat \<Rightarrow> 'p
    \<Rightarrow> (yk_return_t \<times> 'p) outcome" where
  "run_batches f n p =
     obind (each_batch f [0..<min n 4294967296] p) (\<lambda>(ret, p').
       if ret = YOKAN_SUCCESS \<and> n \<ge> 4294967296 then Hung else Done (ret, p'))"

text \<open>A part of an array.\<close>

definition slice_of :: "size_t \<Rightarrow> size_t \<Rightarrow> 'a list \<Rightarrow> 'a list outcome" where
  "slice_of off n xs =
     (if unat off + unat n \<le> length xs then Done (take (unat n) (drop (unat off) xs)) else Undef)"

section \<open>Callbacks of the client\<close>

text \<open>
  A call of the user's function on what \<open>uargs\<close> points to, and the calls of one batch: in order until
  one does not succeed, or, in a pool, all of them in the order in which Argobots runs them, whatever
  they return.
\<close>

type_synonym 'u call = "'u \<Rightarrow> (yk_return_t \<times> 'u) outcome"

type_synonym pool = "nat \<Rightarrow> nat list"

fun call_each :: "'u call list \<Rightarrow> 'u \<Rightarrow> (yk_return_t \<times> 'u) outcome" where
  "call_each [] u = Done (YOKAN_SUCCESS, u)"
| "call_each (c # cs) u =
     obind (c u) (\<lambda>(ret, u'). if ret \<noteq> YOKAN_SUCCESS then Done (ret, u') else call_each cs u')"

fun call_ults :: "'u call list \<Rightarrow> 'u \<Rightarrow> 'u outcome" where
  "call_ults [] u = Done u"
| "call_ults (c # cs) u = obind (c u) (\<lambda>(ret, u'). call_ults cs u')"

definition invoke_calls :: "pool option \<Rightarrow> 'u call list \<Rightarrow> 'u \<Rightarrow> (yk_return_t \<times> 'u) outcome" where
  "invoke_calls pool calls u = (case pool of
       None \<Rightarrow> obind (call_each (take 4294967296 calls) u) (\<lambda>(ret, u').
         if ret = YOKAN_SUCCESS \<and> length calls \<ge> 4294967296 then Hung else Done (ret, u'))
     | Some order \<Rightarrow>
         if length calls \<ge> 4294967296 then Hung
         else obind (call_ults (map (\<lambda>i. calls ! i) (order (length calls))) u) (\<lambda>u'.
           Done (YOKAN_SUCCESS, u')))"

text \<open>The index goes through an \<open>unsigned\<close>.\<close>

definition call_index :: "size_t \<Rightarrow> nat \<Rightarrow> size_t" where
  "call_index start i = ucast (ucast (start + of_nat i) :: 32 word)"

text \<open>The data behind an offset, which nobody reads when the size is a sentinel, and the next offset.\<close>

definition sized_view :: "bytes \<Rightarrow> size_t \<Rightarrow> size_t \<Rightarrow> bytes outcome" where
  "sized_view d off n = (if n \<le> YOKAN_LAST_VALID_SIZE then sub_bytes d off n else Done [])"

definition sized_next :: "size_t \<Rightarrow> size_t \<Rightarrow> size_t" where
  "sized_next off n = off + (if n \<le> YOKAN_LAST_VALID_SIZE then n else 0)"

text \<open>\<open>yk_keyvalue_callback_t\<close>: index, key, size of the value, value.\<close>

type_synonym 'u kv_callback = "size_t \<Rightarrow> bytes \<Rightarrow> size_t \<Rightarrow> bytes \<Rightarrow> 'u \<Rightarrow> yk_return_t \<times> 'u"

text \<open>\<open>yk_document_callback_t\<close>: index, identifier, size, document.\<close>

type_synonym 'u doc_callback = "size_t \<Rightarrow> size_t \<Rightarrow> size_t \<Rightarrow> bytes \<Rightarrow> 'u \<Rightarrow> yk_return_t \<times> 'u"

text \<open>What Margo gives a handler of the client; \<open>be_bulk\<close> tells whether it could expose its buffers.\<close>

record ('i, 'b) back_env =
  be_instance :: bool
  be_input :: "'i option"
  be_bulk :: bool
  be_pull :: "'b \<Rightarrow> size_t \<Rightarrow> bytes \<Rightarrow> hg_return \<times> bytes"

definition back_input :: "('i, 'b) back_env \<Rightarrow> (yk_return_t \<Rightarrow> 'r) \<Rightarrow> ('i \<Rightarrow> 'r) \<Rightarrow> 'r" where
  "back_input E ret k =
     (if \<not> be_instance E then ret YOKAN_ERR_INVALID_MID
      else case be_input E of None \<Rightarrow> ret YOKAN_ERR_FROM_MERCURY | Some inp \<Rightarrow> k inp)"

text \<open>
  The client's copy of a batch of \<open>sz\<close> bytes with \<open>n\<close> arrays of \<open>cnt\<close> sizes in front: a vector of the
  wrapped difference cannot be had.
\<close>

definition pull_batch :: "('i, 'b) back_env \<Rightarrow> 'b \<Rightarrow> size_t \<Rightarrow> size_t \<Rightarrow> (yk_return_t \<Rightarrow> 'r outcome)
    \<Rightarrow> (bytes \<Rightarrow> 'r outcome) \<Rightarrow> 'r outcome" where
  "pull_batch E bulk front sz ret k =
     (if sz < front then Undef
      else if \<not> be_bulk E then ret YOKAN_ERR_FROM_MERCURY
      else case be_pull E bulk sz (zeros sz) of (hret, d) \<Rightarrow>
        if hret \<noteq> HG_SUCCESS then ret YOKAN_ERR_FROM_MERCURY else k d)"

end
