(* ===== verification/FetchHandlers.thy ===== *)
theory FetchHandlers
  imports BackRpc
begin

text \<open>
  The handlers of fetch, iter, doc_fetch and doc_iter (src/src/server), which send batches back to the
  client while they run. \<open>op_ref\<close>, the address of the client's context, is the context itself.
\<close>

section \<open>fetch\<close>

record ('b, 'x) fetch_in =
  fi_mode :: mode_t
  fi_batch_size :: "32 word"
  fi_count :: size_t
  fi_offset :: size_t
  fi_size :: size_t
  fi_origin :: "bytes option"
  fi_bulk :: 'b
  fi_ref :: 'x

record 'x fetch_direct_in =
  fdi_mode :: mode_t
  fdi_batch_size :: "32 word"
  fdi_ksizes :: "size_t list"
  fdi_keys :: bytes
  fdi_ref :: 'x

text \<open>A batch that the client pulls; \<open>fetch_back_in_t\<close>, \<open>iter_back_in_t\<close> and the document ones are alike.\<close>

record ('b, 'x) batch_in =
  bb_ref :: 'x
  bb_start :: size_t
  bb_count :: size_t
  bb_size :: size_t
  bb_bulk :: 'b

record 'x fetch_direct_back_in =
  fdb_ref :: 'x
  fdb_start :: size_t
  fdb_vsizes :: "size_t list"
  fdb_vals :: bytes

text \<open>What the callback of the handler collects: the sizes, and the values one after the other.\<close>

type_synonym fetched = "size_t list \<times> bytes"

definition fetcher :: "bytes \<Rightarrow> bytes option \<Rightarrow> fetched \<Rightarrow> status \<times> fetched" where
  "fetcher key val st = (case st of (vsizes, values) \<Rightarrow>
     (OK, case val of None \<Rightarrow> (vsizes @ [YOKAN_KEY_NOT_FOUND], values)
                    | Some v \<Rightarrow> (vsizes @ [usize v], values @ v)))"

type_synonym 's fetch_op = "mode_t \<Rightarrow> umem \<Rightarrow> size_t list \<Rightarrow> fetched fetch_cb \<Rightarrow> fetched \<Rightarrow> 's
  \<Rightarrow> (status \<times> fetched \<times> 's) outcome"

text \<open>The offset of the next key, the RPC in flight, the database and the client's memory.\<close>

record ('s, 'q, 'm) fetch_state =
  fs_offset :: size_t
  fs_prev :: "'q option"
  fs_db :: 's
  fs_mem :: 'm

text \<open>
  One batch: its key sizes, its keys, which begin at the running offset, and the values of the
  database. The first index is a product in 32 bits.
\<close>

definition fetch_batch :: "'s fetch_op
    \<Rightarrow> (size_t \<Rightarrow> size_t list \<Rightarrow> fetched \<Rightarrow> 'q option \<Rightarrow> 'm \<Rightarrow> (yk_return_t \<times> 'q option \<times> 'm) outcome)
    \<Rightarrow> mode_t \<Rightarrow> umem \<Rightarrow> size_t list \<Rightarrow> 32 word \<Rightarrow> nat \<Rightarrow> ('s, 'q, 'm) fetch_state
    \<Rightarrow> (yk_return_t \<times> ('s, 'q, 'm) fetch_state) outcome" where
  "fetch_batch fetch send mode mem all_ksizes bs i p =
     (let start = ucast (bs * of_nat i) in
      obind (slice_of start (min (ucast bs) (usize all_ksizes - start)) all_ksizes) (\<lambda>ksizes.
      let total_batch_ksize = accumulate ksizes in
      obind (sub_umem mem (fs_offset p) total_batch_ksize) (\<lambda>keys.
      obind (fetch mode keys ksizes fetcher ([], []) (fs_db p)) (\<lambda>(st, got, db).
      let p = p\<lparr> fs_db := db \<rparr> in
      if st \<noteq> OK then Done (status_ret st, p)
      else
        obind (send start ksizes got (fs_prev p) (fs_mem p)) (\<lambda>(ret, prev, m).
        Done (ret, p\<lparr> fs_offset := fs_offset p + (if ret = YOKAN_SUCCESS then total_batch_ksize else 0),
                      fs_prev := prev, fs_mem := m \<rparr>))))))"

definition fetch_send :: "(('b, 'x) batch_in, 'q, 'm) back_rpc \<Rightarrow> ('b, 'm) bulk_api \<Rightarrow> 'x
    \<Rightarrow> size_t \<Rightarrow> size_t list \<Rightarrow> fetched \<Rightarrow> 'q option \<Rightarrow> 'm \<Rightarrow> (yk_return_t \<times> 'q option \<times> 'm) outcome" where
  "fetch_send B M ref start ksizes got prev m = (case got of (vsizes, values) \<Rightarrow>
     send_exposed B M (enc_list vsizes # (if values \<noteq> [] then [values] else []))
       (\<lambda>bulk. \<lparr> bb_ref = ref, bb_start = start, bb_count = usize ksizes,
                 bb_size = accumulate [usize vsizes * 8, usize values], bb_bulk = bulk \<rparr>) prev m)"

definition fetch_direct_send :: "('x fetch_direct_back_in, 'q, 'm) back_rpc \<Rightarrow> 'x
    \<Rightarrow> size_t \<Rightarrow> size_t list \<Rightarrow> fetched \<Rightarrow> 'q option \<Rightarrow> 'm \<Rightarrow> (yk_return_t \<times> 'q option \<times> 'm) outcome" where
  "fetch_direct_send B ref start ksizes got prev m =
     send_back B \<lparr> fdb_ref = ref, fdb_start = start, fdb_vsizes = fst got, fdb_vals = snd got \<rparr> prev m"

definition fetch_work :: "(('b, 'x) fetch_in, 'b, 'm) rpc \<Rightarrow> (('b, 'x) batch_in, 'q, 'm) back_rpc
    \<Rightarrow> ('b, 'm) bulk_api \<Rightarrow> 's fetch_op \<Rightarrow> ('b, 'x) fetch_in \<Rightarrow> 32 word \<Rightarrow> nat \<Rightarrow> addr \<Rightarrow> 's \<Rightarrow> yk_buffer
    \<Rightarrow> ('s, 'c, 'm) world \<Rightarrow> (yk_return_t, 's, 'c, 'm) reply" where
  "fetch_work R B M fetch inp bs num_batches a db b w =
     (let n = fi_count inp; keys_offset = n * 8 in
      pull R a (fi_bulk inp) (fi_offset inp) 0 (n * 8) b w id (\<lambda>b.
      obind (read_sizes (yb_data b) 0 n) (\<lambda>ksizes.
      let total_ksize = accumulate ksizes in
      if min_size ksizes = 0 then Done (YOKAN_ERR_INVALID_ARGS, b, w)
      else if fi_size inp < keys_offset + total_ksize then Done (YOKAN_ERR_INVALID_ARGS, b, w)
      else
        pull R a (fi_bulk inp) (fi_offset inp + keys_offset) keys_offset total_ksize b w id (\<lambda>b.
        obind (run_batches (fetch_batch fetch (fetch_send B M (fi_ref inp)) (fi_mode inp)
                 \<lparr> um_addr = yb_addr b, um_data = yb_data b \<rparr> ksizes bs) num_batches
                 \<lparr> fs_offset = keys_offset, fs_prev = None, fs_db = db, fs_mem = w_mem w \<rparr>) (\<lambda>(ret, p).
        obind (finish_back B ret (fs_prev p) (fs_mem p)) (\<lambda>(ret, m).
          Done (ret, b, w\<lparr> w_db := Some (fs_db p), w_mem := m \<rparr>)))))))"

definition yk_fetch_ult :: "(('b, 'x) fetch_in, 'b, 'm) rpc \<Rightarrow> (('b, 'x) batch_in, 'q, 'm) back_rpc
    \<Rightarrow> ('b, 'm) bulk_api \<Rightarrow> 'c bulk_cache \<Rightarrow> (mode_t \<Rightarrow> bool) \<Rightarrow> 's fetch_op \<Rightarrow> ('s, 'c, 'm) world
    \<Rightarrow> (yk_return_t \<times> ('s, 'c, 'm) world) outcome" where
  "yk_fetch_ult R B M P supports fetch w =
     (let ret = (\<lambda>e. Done (e, w)) in
      handler_input R ret (\<lambda>inp.
      with_batches (fi_batch_size inp) (fi_count inp) (\<lambda>bs num_batches.
      resolve_origin R (fi_origin inp) ret (\<lambda>a.
      check_database supports (fi_mode inp) (w_db w) ret (\<lambda>db.
      with_buffer P (fi_size inp) HG_BULK_WRITE_ONLY w
        (fetch_work R B M fetch inp bs num_batches a db) id)))))"

text \<open>
  The sizes of the direct form are not compared with the bytes that came with them: each batch is
  handed to the database with the sum of its own sizes.
\<close>

definition yk_fetch_direct_ult :: "('x fetch_direct_in, 'b, 'm) rpc
    \<Rightarrow> ('x fetch_direct_back_in, 'q, 'm) back_rpc \<Rightarrow> (mode_t \<Rightarrow> bool) \<Rightarrow> 's fetch_op \<Rightarrow> ('s, 'c, 'm) world
    \<Rightarrow> (yk_return_t \<times> ('s, 'c, 'm) world) outcome" where
  "yk_fetch_direct_ult R B supports fetch w =
     (let ret = (\<lambda>e. Done (e, w)) in
      handler_input R ret (\<lambda>inp.
      with_batches (fdi_batch_size inp) (usize (fdi_ksizes inp)) (\<lambda>bs num_batches.
      check_database supports (fdi_mode inp) (w_db w) ret (\<lambda>db.
      if min_size (fdi_ksizes inp) = 0 then ret YOKAN_ERR_INVALID_ARGS
      else
        obind (run_batches (fetch_batch fetch (fetch_direct_send B (fdi_ref inp)) (fdi_mode inp)
                 (local_mem (fdi_keys inp)) (fdi_ksizes inp) bs) num_batches
                 \<lparr> fs_offset = 0, fs_prev = None, fs_db = db, fs_mem = w_mem w \<rparr>) (\<lambda>(ret, p).
        obind (finish_back B ret (fs_prev p) (fs_mem p)) (\<lambda>(ret, m).
          Done (ret, w\<lparr> w_db := Some (fs_db p), w_mem := m \<rparr>)))))))"

section \<open>doc_fetch\<close>

record 'x doc_fetch_in = ids_in +
  dfi_batch_size :: "32 word"
  dfi_ref :: 'x

type_synonym 's doc_fetch_op = "bytes \<Rightarrow> mode_t \<Rightarrow> size_t list
  \<Rightarrow> (size_t \<Rightarrow> bytes option \<Rightarrow> fetched \<Rightarrow> status \<times> fetched) \<Rightarrow> fetched \<Rightarrow> 's
  \<Rightarrow> (status \<times> fetched \<times> 's) outcome"

definition doc_fetcher :: "size_t \<Rightarrow> bytes option \<Rightarrow> fetched \<Rightarrow> status \<times> fetched" where
  "doc_fetcher id_val doc st = fetcher [] doc st"

text \<open>Here the first index is a product in 64 bits.\<close>

definition doc_fetch_batch :: "'s doc_fetch_op
    \<Rightarrow> (size_t \<Rightarrow> size_t list \<Rightarrow> fetched \<Rightarrow> 'q option \<Rightarrow> 'm \<Rightarrow> (yk_return_t \<times> 'q option \<times> 'm) outcome)
    \<Rightarrow> mode_t \<Rightarrow> bytes \<Rightarrow> size_t list \<Rightarrow> 32 word \<Rightarrow> nat \<Rightarrow> ('s, 'q, 'm) fetch_state
    \<Rightarrow> (yk_return_t \<times> ('s, 'q, 'm) fetch_state) outcome" where
  "doc_fetch_batch fetch_docs send mode name all_ids bs i p =
     (let ids_start = ucast bs * of_nat i in
      obind (slice_of ids_start (min (ucast bs) (usize all_ids - ids_start)) all_ids) (\<lambda>ids.
      obind (fetch_docs name mode ids doc_fetcher ([], []) (fs_db p)) (\<lambda>(st, got, db).
      let p = p\<lparr> fs_db := db \<rparr> in
      if st \<noteq> OK then Done (status_ret st, p)
      else
        obind (send ids_start ids got (fs_prev p) (fs_mem p)) (\<lambda>(ret, prev, m).
        Done (ret, p\<lparr> fs_prev := prev, fs_mem := m \<rparr>)))))"

text \<open>\<open>BD\<close> carries the answers of the direct form, \<open>B\<close> those of the other; a call uses one of the two.\<close>

definition yk_doc_fetch_ult :: "('x doc_fetch_in, 'b, 'm) rpc
    \<Rightarrow> ('x fetch_direct_back_in, 'q, 'm) back_rpc \<Rightarrow> (('b, 'x) batch_in, 'q, 'm) back_rpc
    \<Rightarrow> ('b, 'm) bulk_api \<Rightarrow> (mode_t \<Rightarrow> bool) \<Rightarrow> 's doc_fetch_op \<Rightarrow> ('s, 'c, 'm) world
    \<Rightarrow> (yk_return_t \<times> ('s, 'c, 'm) world) outcome" where
  "yk_doc_fetch_ult R BD B M supports fetch_docs w =
     (let ret = (\<lambda>e. Done (e, w)) in
      handler_input R ret (\<lambda>inp.
      with_batches (dfi_batch_size inp) (usize (ii_ids inp)) (\<lambda>bs num_batches.
      check_database supports (ci_mode inp) (w_db w) ret (\<lambda>db.
      let direct = has_mode (ci_mode inp) YOKAN_MODE_NO_RDMA in
      obind (run_batches (doc_fetch_batch fetch_docs
               (if direct then fetch_direct_send BD (dfi_ref inp) else fetch_send B M (dfi_ref inp))
               (ci_mode inp) (ci_name inp) (ii_ids inp) bs) num_batches
               \<lparr> fs_offset = 0, fs_prev = None, fs_db = db, fs_mem = w_mem w \<rparr>) (\<lambda>(ret, p).
      obind (if direct then finish_back BD ret (fs_prev p) (fs_mem p)
             else finish_back B ret (fs_prev p) (fs_mem p)) (\<lambda>(ret, m).
        Done (ret, w\<lparr> w_db := Some (fs_db p), w_mem := m \<rparr>)))))))"

section \<open>iter\<close>

record 'x iter_in =
  it_mode :: mode_t
  it_no_values :: bool
  it_batch_size :: "32 word"
  it_count :: size_t
  it_from_key :: bytes
  it_filter :: bytes
  it_ref :: 'x

text \<open>The direct form: the sizes of keys and values, or the identifiers and the sizes of documents.\<close>

record 'x pairs_back_in =
  pb_ref :: 'x
  pb_start :: size_t
  pb_first :: "size_t list"
  pb_second :: "size_t list"
  pb_data :: bytes

text \<open>
  What the lambdas of the handler capture: the batch under construction (\<open>ksizes\<close>, \<open>vsizes\<close>, \<open>keyvals\<close>,
  or \<open>ids\<close>, \<open>docsizes\<close>, \<open>docs\<close>), how much was sent, the RPC in flight, the client's memory.
\<close>

record ('q, 'm) sender =
  sd_first :: "size_t list"
  sd_second :: "size_t list"
  sd_data :: bytes
  sd_sent :: size_t
  sd_prev :: "'q option"
  sd_mem :: 'm

text \<open>
  The end of \<open>send_batch\<close>: a batch that was sent is taken out (moved or cleared), one that was not
  remains.
\<close>

definition batch_sent :: "size_t \<Rightarrow> ('q, 'm) sender \<Rightarrow> yk_return_t \<times> 'q option \<times> 'm
    \<Rightarrow> yk_return_t \<times> ('q, 'm) sender" where
  "batch_sent n s r = (case r of (ret, prev, m) \<Rightarrow>
     if ret \<noteq> YOKAN_SUCCESS then (ret, s\<lparr> sd_prev := prev, sd_mem := m \<rparr>)
     else (ret, \<lparr> sd_first = [], sd_second = [], sd_data = [], sd_sent = sd_sent s + n, sd_prev = prev,
                  sd_mem = m \<rparr>))"

definition iter_send_batch :: "(('b, 'x) batch_in, 'q, 'm) back_rpc \<Rightarrow> ('b, 'm) bulk_api \<Rightarrow> 'x
    \<Rightarrow> ('q, 'm) sender \<Rightarrow> (yk_return_t \<times> ('q, 'm) sender) outcome" where
  "iter_send_batch B M ref s =
     (if sd_first s = [] then Done (YOKAN_SUCCESS, s)
      else
        obind (send_exposed B M [enc_list (sd_first s), enc_list (sd_second s), sd_data s]
            (\<lambda>bulk. \<lparr> bb_ref = ref, bb_start = sd_sent s, bb_count = usize (sd_first s),
                      bb_size = accumulate [usize (sd_first s) * 8, usize (sd_second s) * 8, usize (sd_data s)],
                      bb_bulk = bulk \<rparr>) (sd_prev s) (sd_mem s))
          (\<lambda>r. Done (batch_sent (usize (sd_first s)) s r)))"

definition iter_direct_send_batch :: "('x pairs_back_in, 'q, 'm) back_rpc \<Rightarrow> 'x
    \<Rightarrow> ('q, 'm) sender \<Rightarrow> (yk_return_t \<times> ('q, 'm) sender) outcome" where
  "iter_direct_send_batch B ref s =
     (if sd_first s = [] then Done (YOKAN_SUCCESS, s)
      else
        obind (send_back B \<lparr> pb_ref = ref, pb_start = sd_sent s, pb_first = sd_first s,
                 pb_second = sd_second s, pb_data = sd_data s \<rparr> (sd_prev s) (sd_mem s))
          (\<lambda>r. Done (batch_sent (usize (sd_first s)) s r)))"

text \<open>\<open>std::vector<char>::resize\<close>.\<close>

definition vec_resize :: "size_t \<Rightarrow> bytes \<Rightarrow> bytes" where
  "vec_resize n xs = take (unat n) xs @ replicate (unat n - length xs) 0"

definition iter_add :: "kv_filter \<Rightarrow> bool \<Rightarrow> bytes \<Rightarrow> bytes \<Rightarrow> ('q, 'm) sender \<Rightarrow> ('q, 'm) sender outcome" where
  "iter_add F no_values key val s =
     (let filtered_ksize = f_key_size F key; current_size = usize (sd_data s) in
      obind (if no_values then Done 0 else f_val_size F val) (\<lambda>filtered_vsize.
      let keyvals = vec_resize (current_size + filtered_ksize + filtered_vsize) (sd_data s) in
      obind (f_key_copy F keyvals current_size filtered_ksize key) (\<lambda>(filtered_ksize, keyvals).
      obind (if no_values then Done (filtered_vsize, keyvals)
             else f_val_copy F keyvals (current_size + filtered_ksize) filtered_vsize val)
        (\<lambda>(filtered_vsize, keyvals).
      Done (s\<lparr> sd_first := sd_first s @ [filtered_ksize], sd_second := sd_second s @ [filtered_vsize],
               sd_data := vec_resize (current_size + filtered_ksize + filtered_vsize) keyvals \<rparr>)))))"

text \<open>
  The callback of the handler, whose state is an outcome: a run that went wrong stays wrong. The
  batch is sent when it is full.
\<close>

definition on_item :: "(('q, 'm) sender \<Rightarrow> (yk_return_t \<times> ('q, 'm) sender) outcome) \<Rightarrow> 32 word
    \<Rightarrow> (('q, 'm) sender \<Rightarrow> ('q, 'm) sender outcome) \<Rightarrow> ('q, 'm) sender outcome
    \<Rightarrow> status \<times> ('q, 'm) sender outcome" where
  "on_item send bs add so =
     (case obind so (\<lambda>s. obind (add s) (\<lambda>s.
             if usize (sd_second s) = ucast bs then send s else Done (YOKAN_SUCCESS, s))) of
        Done (ret, s) \<Rightarrow> (ret_status ret, Done s)
      | Undef \<Rightarrow> (Other, Undef)
      | Hung \<Rightarrow> (Other, Hung))"

text \<open>
  The whole iteration: \<open>walk\<close> calls back, then what is left is sent, also after a stop or an error.
\<close>

definition run_iter :: "('i, 'q, 'm) back_rpc
    \<Rightarrow> (('q, 'm) sender \<Rightarrow> (yk_return_t \<times> ('q, 'm) sender) outcome)
    \<Rightarrow> (('q, 'm) sender outcome \<Rightarrow> (status \<times> ('q, 'm) sender outcome \<times> 's) outcome)
    \<Rightarrow> ('s, 'c, 'm) world \<Rightarrow> (yk_return_t \<times> ('s, 'c, 'm) world) outcome" where
  "run_iter B send walk w =
     obind (walk (Done \<lparr> sd_first = [], sd_second = [], sd_data = [], sd_sent = 0, sd_prev = None,
                         sd_mem = w_mem w \<rparr>)) (\<lambda>(st, so, db).
     obind so (\<lambda>s.
     let out_ret = (if st = StopIteration then YOKAN_SUCCESS else status_ret st) in
     obind (send s) (\<lambda>(ret, s).
     let out_ret = (if out_ret = YOKAN_SUCCESS then ret else out_ret) in
     obind (wait_previous B (sd_prev s) (sd_mem s)) (\<lambda>(ret, m).
     Done (if out_ret = YOKAN_SUCCESS then ret else out_ret, w\<lparr> w_db := Some db, w_mem := m \<rparr>)))))"

type_synonym ('s, 'st) iter_op = "mode_t \<Rightarrow> size_t \<Rightarrow> bytes \<Rightarrow> kv_filter \<Rightarrow> bool
  \<Rightarrow> (bytes \<Rightarrow> bytes \<Rightarrow> 'st \<Rightarrow> status \<times> 'st) \<Rightarrow> 's \<Rightarrow> 'st \<Rightarrow> (status \<times> 'st) outcome"

text \<open>A batch size of 0 stands for the count, cut to 32 bits; one that is still 0 is never reached.\<close>

definition iter_batch_size :: "32 word \<Rightarrow> size_t \<Rightarrow> 32 word" where
  "iter_batch_size bs n = (if bs = 0 then ucast n else bs)"

definition iter_op_ult :: "('x iter_in, 'b, 'm) rpc \<Rightarrow> ('i, 'q, 'm) back_rpc
    \<Rightarrow> ('x \<Rightarrow> ('q, 'm) sender \<Rightarrow> (yk_return_t \<times> ('q, 'm) sender) outcome) \<Rightarrow> (mode_t \<Rightarrow> bool)
    \<Rightarrow> filter_maker \<Rightarrow> ('s, ('q, 'm) sender outcome) iter_op \<Rightarrow> ('s, 'c, 'm) world
    \<Rightarrow> (yk_return_t \<times> ('s, 'c, 'm) world) outcome" where
  "iter_op_ult R B send supports mkF iter w =
     (let ret = (\<lambda>e. Done (e, w)) in
      handler_input R ret (\<lambda>inp.
      check_database supports (it_mode inp) (w_db w) ret (\<lambda>db.
      case mkF (it_mode inp) (it_filter inp) of
        None \<Rightarrow> ret YOKAN_ERR_INVALID_FILTER
      | Some F \<Rightarrow>
          (let bs = iter_batch_size (it_batch_size inp) (it_count inp) in
           run_iter B (send (it_ref inp))
             (\<lambda>so. obind (iter (it_mode inp) (it_count inp) (it_from_key inp) F (it_no_values inp)
                (\<lambda>key val. on_item (send (it_ref inp)) bs (iter_add F (it_no_values inp) key val)) db so)
                (\<lambda>(st, so). Done (st, so, db))) w))))"

definition yk_iter_ult :: "('x iter_in, 'b, 'm) rpc \<Rightarrow> (('b, 'x) batch_in, 'q, 'm) back_rpc
    \<Rightarrow> ('b, 'm) bulk_api \<Rightarrow> (mode_t \<Rightarrow> bool) \<Rightarrow> filter_maker \<Rightarrow> ('s, ('q, 'm) sender outcome) iter_op
    \<Rightarrow> ('s, 'c, 'm) world \<Rightarrow> (yk_return_t \<times> ('s, 'c, 'm) world) outcome" where
  "yk_iter_ult R B M supports mkF iter w = iter_op_ult R B (iter_send_batch B M) supports mkF iter w"

definition yk_iter_direct_ult :: "('x iter_in, 'b, 'm) rpc \<Rightarrow> ('x pairs_back_in, 'q, 'm) back_rpc
    \<Rightarrow> (mode_t \<Rightarrow> bool) \<Rightarrow> filter_maker \<Rightarrow> ('s, ('q, 'm) sender outcome) iter_op
    \<Rightarrow> ('s, 'c, 'm) world \<Rightarrow> (yk_return_t \<times> ('s, 'c, 'm) world) outcome" where
  "yk_iter_direct_ult R B supports mkF iter w =
     iter_op_ult R B (iter_direct_send_batch B) supports mkF iter w"

section \<open>doc_iter\<close>

record 'x doc_iter_in = coll_in +
  dit_batch_size :: "32 word"
  dit_count :: size_t
  dit_from_id :: size_t
  dit_filter :: bytes
  dit_ref :: 'x

definition doc_iter_send_batch :: "(('b, 'x) batch_in, 'q, 'm) back_rpc \<Rightarrow> ('b, 'm) bulk_api \<Rightarrow> 'x
    \<Rightarrow> ('q, 'm) sender \<Rightarrow> (yk_return_t \<times> ('q, 'm) sender) outcome" where
  "doc_iter_send_batch B M ref s = iter_send_batch B M ref s"

text \<open>The direct form counts the bytes it sent, not the documents.\<close>

definition doc_iter_direct_send_batch :: "('x pairs_back_in, 'q, 'm) back_rpc \<Rightarrow> 'x
    \<Rightarrow> ('q, 'm) sender \<Rightarrow> (yk_return_t \<times> ('q, 'm) sender) outcome" where
  "doc_iter_direct_send_batch B ref s =
     (if sd_first s = [] then Done (YOKAN_SUCCESS, s)
      else
        obind (send_back B \<lparr> pb_ref = ref, pb_start = sd_sent s, pb_first = sd_first s,
                 pb_second = sd_second s, pb_data = sd_data s \<rparr> (sd_prev s) (sd_mem s))
          (\<lambda>r. Done (batch_sent (usize (sd_data s)) s r)))"

definition doc_iter_add :: "doc_filter \<Rightarrow> bytes \<Rightarrow> size_t \<Rightarrow> bytes \<Rightarrow> ('q, 'm) sender
    \<Rightarrow> ('q, 'm) sender outcome" where
  "doc_iter_add F name id_val doc s =
     (let filtered_docsize = d_size F name doc; current_size = usize (sd_data s);
          docs = vec_resize (current_size + filtered_docsize) (sd_data s) in
      obind (d_copy F name docs current_size filtered_docsize doc) (\<lambda>(filtered_docsize, docs).
      Done (s\<lparr> sd_first := sd_first s @ [id_val], sd_second := sd_second s @ [filtered_docsize],
               sd_data := vec_resize (current_size + filtered_docsize) docs \<rparr>)))"

type_synonym ('s, 'st) doc_iter_op = "bytes \<Rightarrow> mode_t \<Rightarrow> size_t \<Rightarrow> size_t \<Rightarrow> doc_filter
  \<Rightarrow> (size_t \<Rightarrow> bytes \<Rightarrow> 'st \<Rightarrow> status \<times> 'st) \<Rightarrow> 'st \<Rightarrow> 's \<Rightarrow> (status \<times> 'st \<times> 's) outcome"

definition doc_iter_op_ult :: "('x doc_iter_in, 'b, 'm) rpc \<Rightarrow> ('i, 'q, 'm) back_rpc
    \<Rightarrow> ('x \<Rightarrow> ('q, 'm) sender \<Rightarrow> (yk_return_t \<times> ('q, 'm) sender) outcome) \<Rightarrow> (mode_t \<Rightarrow> bool)
    \<Rightarrow> doc_filter_maker \<Rightarrow> ('s, ('q, 'm) sender outcome) doc_iter_op \<Rightarrow> ('s, 'c, 'm) world
    \<Rightarrow> (yk_return_t \<times> ('s, 'c, 'm) world) outcome" where
  "doc_iter_op_ult R B send supports mkF iter_docs w =
     (let ret = (\<lambda>e. Done (e, w)) in
      handler_input R ret (\<lambda>inp.
      check_database supports (ci_mode inp) (w_db w) ret (\<lambda>db.
      case mkF (ci_mode inp) (dit_filter inp) of
        None \<Rightarrow> ret YOKAN_ERR_INVALID_FILTER
      | Some F \<Rightarrow>
          (let bs = iter_batch_size (dit_batch_size inp) (dit_count inp) in
           run_iter B (send (dit_ref inp))
             (\<lambda>so. iter_docs (ci_name inp) (ci_mode inp) (dit_count inp) (dit_from_id inp) F
                (\<lambda>id_val doc. on_item (send (dit_ref inp)) bs (doc_iter_add F (ci_name inp) id_val doc)) so db)
             w))))"

definition yk_doc_iter_ult :: "('x doc_iter_in, 'b, 'm) rpc \<Rightarrow> (('b, 'x) batch_in, 'q, 'm) back_rpc
    \<Rightarrow> ('b, 'm) bulk_api \<Rightarrow> (mode_t \<Rightarrow> bool) \<Rightarrow> doc_filter_maker
    \<Rightarrow> ('s, ('q, 'm) sender outcome) doc_iter_op \<Rightarrow> ('s, 'c, 'm) world
    \<Rightarrow> (yk_return_t \<times> ('s, 'c, 'm) world) outcome" where
  "yk_doc_iter_ult R B M supports mkF iter_docs w =
     doc_iter_op_ult R B (doc_iter_send_batch B M) supports mkF iter_docs w"

definition yk_doc_iter_direct_ult :: "('x doc_iter_in, 'b, 'm) rpc \<Rightarrow> ('x pairs_back_in, 'q, 'm) back_rpc
    \<Rightarrow> (mode_t \<Rightarrow> bool) \<Rightarrow> doc_filter_maker \<Rightarrow> ('s, ('q, 'm) sender outcome) doc_iter_op
    \<Rightarrow> ('s, 'c, 'm) world \<Rightarrow> (yk_return_t \<times> ('s, 'c, 'm) world) outcome" where
  "yk_doc_iter_direct_ult R B supports mkF iter_docs w =
     doc_iter_op_ult R B (doc_iter_direct_send_batch B) supports mkF iter_docs w"

end
