(* ===== verification/FetchClient.thy ===== *)
theory FetchClient
  imports FetchHandlers
begin

text \<open>
  The client side of fetch, iter, doc_fetch and doc_iter (src/src/client): the calls, and the handlers
  that receive the batches and call the user's function. A null function or options pointer is \<open>None\<close>;
  \<open>listening\<close> is \<open>margo_is_listening\<close>.
\<close>

record fetch_options =
  fo_pool :: "pool option"
  fo_batch_size :: "32 word"

definition options_pool :: "fetch_options option \<Rightarrow> pool option" where
  "options_pool opt = (case opt of None \<Rightarrow> None | Some opts \<Rightarrow> fo_pool opts)"

definition options_batch_size :: "fetch_options option \<Rightarrow> 32 word" where
  "options_batch_size opt = (case opt of None \<Rightarrow> 0 | Some opts \<Rightarrow> fo_batch_size opts)"

section \<open>fetch\<close>

record 'u fetch_context =
  fc_keys :: "bytes list"
  fc_cb :: "'u kv_callback"
  fc_options :: "fetch_options option"

text \<open>The keys of the context, one after the other behind a pointer.\<close>

fun key_views :: "bytes \<Rightarrow> size_t \<Rightarrow> size_t list \<Rightarrow> bytes list outcome" where
  "key_views d off [] = Done []"
| "key_views d off (n # ns) =
     obind (sub_bytes d off n) (\<lambda>k. obind (key_views d (off + n) ns) (\<lambda>ks. Done (k # ks)))"

definition yk_fetch_direct :: "('u fetch_context fetch_direct_in, yk_return_t, 'w) channel \<Rightarrow> bool
    \<Rightarrow> mode_t \<Rightarrow> size_t \<Rightarrow> bytes option \<Rightarrow> size_t list option \<Rightarrow> 'u kv_callback option
    \<Rightarrow> fetch_options option \<Rightarrow> 'w \<Rightarrow> (yk_return_t \<times> 'w) outcome" where
  "yk_fetch_direct C listening mode n keys ksizes cb options w =
     (if n = 0 then Done (YOKAN_SUCCESS, w)
      else if keys = None \<or> ksizes = None \<or> cb = None then Done (YOKAN_ERR_INVALID_ARGS, w)
      else if \<not> mode_valid mode then Done (YOKAN_ERR_MODE, w)
      else if \<not> listening then Done (YOKAN_ERR_MID_NOT_LISTENING, w)
      else
        obind (c_array n ksizes) (\<lambda>ks.
        if length ks \<ge> 4294967296 then Hung
        else
          obind (key_views (the keys) 0 ks) (\<lambda>kviews.
          obind (c_array (accumulate ks) keys) (\<lambda>kdata.
          simple_rpc C mode \<lparr> fdi_mode = mode, fdi_batch_size = options_batch_size options,
            fdi_ksizes = ks, fdi_keys = kdata,
            fdi_ref = \<lparr> fc_keys = kviews, fc_cb = the cb, fc_options = options \<rparr> \<rparr> w))))"

text \<open>
  What Mercury gives a call on exposed memory: \<open>fa_access\<close> is \<open>margo_bulk_access\<close> with room for one
  segment, the number of segments and the memory behind the first; \<open>fa_pull\<close> fills a local buffer.
\<close>

record ('b, 'w) fetch_api =
  fa_lookup :: "bytes \<Rightarrow> addr option"
  fa_local :: bool
  fa_pull :: "addr \<Rightarrow> 'b \<Rightarrow> size_t \<Rightarrow> size_t \<Rightarrow> bytes \<Rightarrow> 'w \<Rightarrow> hg_return \<times> bytes"
  fa_access :: "'b \<Rightarrow> size_t \<Rightarrow> size_t \<Rightarrow> 'w \<Rightarrow> hg_return \<times> nat \<times> bytes"

definition access_one :: "('b, 'w) fetch_api \<Rightarrow> 'b \<Rightarrow> size_t \<Rightarrow> size_t \<Rightarrow> 'w
    \<Rightarrow> (yk_return_t \<Rightarrow> 'r outcome) \<Rightarrow> (bytes \<Rightarrow> 'r outcome) \<Rightarrow> 'r outcome" where
  "access_one A data off n w ret k =
     (case fa_access A data off n w of (hret, segs, d) \<Rightarrow>
        if hret \<noteq> HG_SUCCESS then ret YOKAN_ERR_FROM_MERCURY
        else if segs \<noteq> 1 then ret YOKAN_ERR_NONCONTIG
        else obind (sub_bytes d 0 n) k)"

text \<open>The keys of local memory, read where they are; \<open>i\<close> counts down.\<close>

fun access_keys :: "('b, 'w) fetch_api \<Rightarrow> 'b \<Rightarrow> nat \<Rightarrow> size_t \<Rightarrow> size_t \<Rightarrow> 'w
    \<Rightarrow> (yk_return_t \<Rightarrow> 'r outcome) \<Rightarrow> (bytes list \<Rightarrow> 'r outcome) \<Rightarrow> 'r outcome" where
  "access_keys A data 0 ksize_offset key_offset w ret k = k []"
| "access_keys A data (Suc i) ksize_offset key_offset w ret k =
     access_one A data ksize_offset 8 w ret (\<lambda>d.
     let ksize = dec64 d in
     access_one A data key_offset ksize w ret (\<lambda>key.
     access_keys A data i (ksize_offset + 8) (key_offset + ksize) w ret (\<lambda>keys. k (key # keys))))"

text \<open>The keys of a remote region, which is copied first.\<close>

definition remote_keys :: "('b, 'w) fetch_api \<Rightarrow> bytes \<Rightarrow> 'b \<Rightarrow> size_t \<Rightarrow> size_t \<Rightarrow> size_t \<Rightarrow> 'w
    \<Rightarrow> (yk_return_t \<Rightarrow> 'r outcome) \<Rightarrow> (bytes list \<Rightarrow> 'r outcome) \<Rightarrow> 'r outcome" where
  "remote_keys A origin data offset n sz w ret k = (case fa_lookup A origin of
       None \<Rightarrow> ret YOKAN_ERR_FROM_MERCURY
     | Some a \<Rightarrow>
         if sz < n * 8 then Undef
         else if \<not> fa_local A then ret YOKAN_ERR_FROM_MERCURY
         else case fa_pull A a data offset sz (zeros sz) w of (hret, d) \<Rightarrow>
           if hret \<noteq> HG_SUCCESS then ret YOKAN_ERR_FROM_MERCURY
           else obind (read_sizes d 0 n) (\<lambda>ksizes. obind (key_views d (n * 8) ksizes) k))"

definition yk_fetch_bulk :: "(('b, 'u fetch_context) fetch_in, yk_return_t, 'w) channel
    \<Rightarrow> ('b, 'w) fetch_api \<Rightarrow> bool \<Rightarrow> mode_t \<Rightarrow> size_t \<Rightarrow> bytes option \<Rightarrow> 'b \<Rightarrow> size_t \<Rightarrow> size_t
    \<Rightarrow> 'u kv_callback \<Rightarrow> fetch_options option \<Rightarrow> 'w \<Rightarrow> (yk_return_t \<times> 'w) outcome" where
  "yk_fetch_bulk C A listening mode n origin data offset sz cb options w =
     (let ret = (\<lambda>e. Done (e, w));
          send = (\<lambda>keys. simple_rpc C mode \<lparr> fi_mode = mode, fi_batch_size = options_batch_size options,
            fi_count = n, fi_offset = offset, fi_size = sz, fi_origin = origin, fi_bulk = data,
            fi_ref = \<lparr> fc_keys = keys, fc_cb = cb, fc_options = options \<rparr> \<rparr> w) in
      if n \<noteq> 0 \<and> sz = 0 then ret YOKAN_ERR_INVALID_ARGS
      else if \<not> mode_valid mode then ret YOKAN_ERR_MODE
      else if \<not> listening then ret YOKAN_ERR_MID_NOT_LISTENING
      else case origin of
        Some addr \<Rightarrow> remote_keys A addr data offset n sz w ret
                       (\<lambda>keys. if length keys \<ge> 4294967296 then Hung else send keys)
      | None \<Rightarrow> if unat n \<ge> 4294967296 then Hung
                else access_keys A data (unat n) offset (offset + n * 8) w ret send)"

definition yk_fetch_packed :: "('u fetch_context fetch_direct_in, yk_return_t, ('s, 'c, 'm) world) channel
    \<Rightarrow> (('b, 'u fetch_context) fetch_in, yk_return_t, ('s, 'c, 'm) world) channel
    \<Rightarrow> ('b, ('s, 'c, 'm) world) fetch_api \<Rightarrow> ('b, 'm) bulk_api \<Rightarrow> bool \<Rightarrow> mode_t \<Rightarrow> size_t \<Rightarrow> bytes option
    \<Rightarrow> size_t list option \<Rightarrow> 'u kv_callback option \<Rightarrow> fetch_options option
    \<Rightarrow> ('s, 'c, 'm) world \<Rightarrow> (yk_return_t \<times> ('s, 'c, 'm) world) outcome" where
  "yk_fetch_packed CD C A M listening mode n keys ksizes cb options w =
     (if has_mode mode YOKAN_MODE_NO_RDMA
      then yk_fetch_direct CD listening mode n keys ksizes cb options w
      else if n = 0 then Done (YOKAN_SUCCESS, w)
      else if keys = None \<or> ksizes = None \<or> cb = None then Done (YOKAN_ERR_INVALID_ARGS, w)
      else
        obind (c_array n ksizes) (\<lambda>ks.
        let ktotal = accumulate ks; total_size = accumulate [n * 8, ktotal] in
        if ktotal = 0 then Done (YOKAN_ERR_INVALID_ARGS, w)
        else
          obind (c_array ktotal keys) (\<lambda>kdata.
          without_segs (with_bulk M HG_BULK_READ_ONLY [enc_list ks, kdata] w
            (\<lambda>bulk. yk_fetch_bulk C A listening mode n None bulk 0 total_size (the cb) options)))))"

definition yk_fetch :: "('u fetch_context fetch_direct_in, yk_return_t, ('s, 'c, 'm) world) channel
    \<Rightarrow> (('b, 'u fetch_context) fetch_in, yk_return_t, ('s, 'c, 'm) world) channel
    \<Rightarrow> ('b, ('s, 'c, 'm) world) fetch_api \<Rightarrow> ('b, 'm) bulk_api \<Rightarrow> bool \<Rightarrow> mode_t \<Rightarrow> bytes option \<Rightarrow> size_t
    \<Rightarrow> 'u kv_callback option \<Rightarrow> ('s, 'c, 'm) world \<Rightarrow> (yk_return_t \<times> ('s, 'c, 'm) world) outcome" where
  "yk_fetch CD C A M listening mode key ksize cb w =
     (if ksize = 0 then Done (YOKAN_ERR_INVALID_ARGS, w)
      else yk_fetch_packed CD C A M listening mode 1 key (Some [ksize]) cb None w)"

text \<open>\<open>YOKAN_MODE_NO_RDMA\<close> makes no difference here.\<close>

definition yk_fetch_multi :: "(('b, 'u fetch_context) fetch_in, yk_return_t, ('s, 'c, 'm) world) channel
    \<Rightarrow> ('b, ('s, 'c, 'm) world) fetch_api \<Rightarrow> ('b, 'm) bulk_api \<Rightarrow> bool \<Rightarrow> mode_t \<Rightarrow> size_t
    \<Rightarrow> bytes option list option \<Rightarrow> size_t list option \<Rightarrow> 'u kv_callback option \<Rightarrow> fetch_options option
    \<Rightarrow> ('s, 'c, 'm) world \<Rightarrow> (yk_return_t \<times> ('s, 'c, 'm) world) outcome" where
  "yk_fetch_multi C A M listening mode n keys ksizes cb options w =
     (if n = 0 then Done (YOKAN_SUCCESS, w)
      else if keys = None \<or> ksizes = None \<or> cb = None then Done (YOKAN_ERR_INVALID_ARGS, w)
      else if \<not> listening then Done (YOKAN_ERR_MID_NOT_LISTENING, w)
      else
        obind (c_array n ksizes) (\<lambda>ks.
        obind (c_array n keys) (\<lambda>kptrs.
        check_ksizes ks (Done (YOKAN_ERR_INVALID_ARGS, w))
          (obind (c_arrays ks kptrs) (\<lambda>kds.
           without_segs (with_bulk M HG_BULK_READ_ONLY (enc_list ks # kds) w
             (\<lambda>bulk. yk_fetch_bulk C A listening mode n None bulk 0 (accumulate (n * 8 # ks)) (the cb)
                options)))))))"

text \<open>
  A batch of values. The keys handed to the user's function are counted from the first key of the
  call, not from the first of the batch.
\<close>

fun fetch_calls :: "'u fetch_context \<Rightarrow> size_t \<Rightarrow> nat \<Rightarrow> bytes \<Rightarrow> size_t \<Rightarrow> size_t list \<Rightarrow> 'u call list" where
  "fetch_calls ctx start i values val_offset [] = []"
| "fetch_calls ctx start i values val_offset (vsize # vsizes) =
     (\<lambda>u. obind (sized_view values val_offset vsize) (\<lambda>v.
        Done (fc_cb ctx (call_index start i) (fc_keys ctx ! i) vsize v u)))
     # fetch_calls ctx start (Suc i) values (sized_next val_offset vsize) vsizes"

definition yk_fetch_back_ult :: "(('b, 'u fetch_context) batch_in, 'b) back_env \<Rightarrow> 'u
    \<Rightarrow> (yk_return_t \<times> 'u) outcome" where
  "yk_fetch_back_ult E u =
     (let ret = (\<lambda>e. Done (e, u)) in
      back_input E ret (\<lambda>inp.
      let ctx = bb_ref inp; n = bb_count inp in
      if usize (fc_keys ctx) < n then ret YOKAN_ERR_OTHER
      else
        pull_batch E (bb_bulk inp) (n * 8) (bb_size inp) ret (\<lambda>d.
        obind (read_sizes d 0 n) (\<lambda>vsizes.
        invoke_calls (options_pool (fc_options ctx))
          (fetch_calls ctx (bb_start inp) 0 (drop (8 * unat n) d) 0 vsizes) u))))"

definition yk_fetch_direct_back_ult :: "('u fetch_context fetch_direct_back_in, 'b) back_env \<Rightarrow> 'u
    \<Rightarrow> (yk_return_t \<times> 'u) outcome" where
  "yk_fetch_direct_back_ult E u =
     (let ret = (\<lambda>e. Done (e, u)) in
      back_input E ret (\<lambda>inp.
      let ctx = fdb_ref inp in
      if usize (fc_keys ctx) < usize (fdb_vsizes inp) then ret YOKAN_ERR_OTHER
      else
        invoke_calls (options_pool (fc_options ctx))
          (fetch_calls ctx (fdb_start inp) 0 (fdb_vals inp) 0 (fdb_vsizes inp)) u))"

section \<open>iter\<close>

record iter_options = fetch_options +
  io_ignore_values :: bool

record 'u iter_context =
  ic_cb :: "'u kv_callback"
  ic_pool :: "pool option"

definition yk_iter :: "('u iter_context iter_in, yk_return_t, 'w) channel
    \<Rightarrow> ('u iter_context iter_in, yk_return_t, 'w) channel \<Rightarrow> bool \<Rightarrow> mode_t \<Rightarrow> bytes option \<Rightarrow> size_t
    \<Rightarrow> bytes option \<Rightarrow> size_t \<Rightarrow> size_t \<Rightarrow> 'u kv_callback option \<Rightarrow> iter_options option
    \<Rightarrow> 'w \<Rightarrow> (yk_return_t \<times> 'w) outcome" where
  "yk_iter CD C listening mode from_key from_ksize flt filter_size n cb options w = (case cb of
       None \<Rightarrow> Done (YOKAN_ERR_INVALID_ARGS, w)
     | Some cb \<Rightarrow>
         let opts = (case options of Some opt \<Rightarrow> opt
           | None \<Rightarrow> \<lparr> fo_pool = None, fo_batch_size = 0, io_ignore_values = False \<rparr>) in
         if \<not> mode_valid mode then Done (YOKAN_ERR_MODE, w)
         else if \<not> listening then Done (YOKAN_ERR_MID_NOT_LISTENING, w)
         else
           obind (c_array from_ksize from_key) (\<lambda>from_data.
           obind (c_array filter_size flt) (\<lambda>filter_data.
           simple_rpc (if has_mode mode YOKAN_MODE_NO_RDMA then CD else C) mode
             \<lparr> it_mode = mode, it_no_values = io_ignore_values opts, it_batch_size = fo_batch_size opts,
               it_count = n, it_from_key = from_data, it_filter = filter_data,
               it_ref = \<lparr> ic_cb = cb, ic_pool = fo_pool opts \<rparr> \<rparr> w)))"

text \<open>Keys and values alternate in the data; their sizes are no sentinels.\<close>

fun iter_calls :: "'u kv_callback \<Rightarrow> size_t \<Rightarrow> nat \<Rightarrow> bytes \<Rightarrow> size_t \<Rightarrow> (size_t \<times> size_t) list
    \<Rightarrow> 'u call list" where
  "iter_calls cb start i d off [] = []"
| "iter_calls cb start i d off ((ksize, vsize) # rest) =
     (\<lambda>u. obind (sub_bytes d off ksize) (\<lambda>k. obind (sub_bytes d (off + ksize) vsize) (\<lambda>v.
        Done (cb (call_index start i) k vsize v u))))
     # iter_calls cb start (Suc i) d (off + ksize + vsize) rest"

definition yk_iter_back_ult :: "(('b, 'u iter_context) batch_in, 'b) back_env \<Rightarrow> 'u
    \<Rightarrow> (yk_return_t \<times> 'u) outcome" where
  "yk_iter_back_ult E u =
     (let ret = (\<lambda>e. Done (e, u)) in
      back_input E ret (\<lambda>inp.
      let ctx = bb_ref inp; n = bb_count inp in
      pull_batch E (bb_bulk inp) (2 * n * 8) (bb_size inp) ret (\<lambda>d.
      obind (read_sizes d 0 n) (\<lambda>ksizes.
      obind (read_sizes d (n * 8) n) (\<lambda>vsizes.
      invoke_calls (ic_pool ctx)
        (iter_calls (ic_cb ctx) (bb_start inp) 0 (drop (16 * unat n) d) 0 (zip ksizes vsizes)) u)))))"

text \<open>The direct form reads a size of each array for every entry of \<open>vsizes\<close>.\<close>

definition yk_iter_direct_back_ult :: "('u iter_context pairs_back_in, 'b) back_env \<Rightarrow> 'u
    \<Rightarrow> (yk_return_t \<times> 'u) outcome" where
  "yk_iter_direct_back_ult E u =
     (let ret = (\<lambda>e. Done (e, u)) in
      back_input E ret (\<lambda>inp.
      let ctx = pb_ref inp in
      if length (pb_first inp) < length (pb_second inp) then Undef
      else
        invoke_calls (ic_pool ctx)
          (iter_calls (ic_cb ctx) (pb_start inp) 0 (pb_data inp) 0 (zip (pb_first inp) (pb_second inp))) u))"

section \<open>doc_fetch\<close>

text \<open>\<open>invoke_callback_on_docs\<close> of doc_fetch.cpp and doc_iter.cpp.\<close>

fun doc_calls :: "'u doc_callback \<Rightarrow> size_t \<Rightarrow> nat \<Rightarrow> bytes \<Rightarrow> size_t \<Rightarrow> (size_t \<times> size_t) list
    \<Rightarrow> 'u call list" where
  "doc_calls cb start i d off [] = []"
| "doc_calls cb start i d off ((id_val, doc_size) # rest) =
     (\<lambda>u. obind (sized_view d off doc_size) (\<lambda>doc.
        Done (cb (call_index start i) id_val doc_size doc u)))
     # doc_calls cb start (Suc i) d (sized_next off doc_size) rest"

definition invoke_callback_on_docs :: "pool option \<Rightarrow> size_t \<Rightarrow> size_t list \<Rightarrow> size_t list \<Rightarrow> bytes
    \<Rightarrow> 'u doc_callback \<Rightarrow> 'u \<Rightarrow> (yk_return_t \<times> 'u) outcome" where
  "invoke_callback_on_docs pool start ids doc_sizes doc_data cb u =
     (if length ids < length doc_sizes then Undef
      else invoke_calls pool (doc_calls cb start 0 doc_data 0 (zip ids doc_sizes)) u)"

text \<open>
  The function of the context: the user's own on each document, or one on the exposed batch (start,
  count, handle, size), which may be the user's or \<open>bulk_to_docs\<close>.
\<close>

type_synonym ('b, 'u) bulk_callback = "size_t \<Rightarrow> size_t \<Rightarrow> 'b \<Rightarrow> size_t \<Rightarrow> 'u \<Rightarrow> (yk_return_t \<times> 'u) outcome"

datatype ('b, 'u) doc_function = OnDocs "'u doc_callback" | OnBatch "('b, 'u) bulk_callback"

record ('b, 'u) doc_context =
  dc_ids :: "size_t list"
  dc_cb :: "('b, 'u) doc_function"
  dc_options :: "fetch_options option"

definition doc_fetch_base :: "(('b, 'u) doc_context doc_fetch_in, yk_return_t, 'w) channel \<Rightarrow> bool
    \<Rightarrow> bytes \<Rightarrow> mode_t \<Rightarrow> size_t \<Rightarrow> size_t list option \<Rightarrow> ('b, 'u) doc_function option
    \<Rightarrow> fetch_options option \<Rightarrow> 'w \<Rightarrow> (yk_return_t \<times> 'w) outcome" where
  "doc_fetch_base C listening collection mode n ids cb options w =
     (if n = 0 then Done (YOKAN_SUCCESS, w)
      else if ids = None \<or> cb = None then Done (YOKAN_ERR_INVALID_ARGS, w)
      else if \<not> mode_valid mode then Done (YOKAN_ERR_MODE, w)
      else if \<not> listening then Done (YOKAN_ERR_MID_NOT_LISTENING, w)
      else
        obind (c_array n ids) (\<lambda>is.
        simple_rpc C mode \<lparr> ci_mode = mode, ci_name = collection, ii_ids = is,
          dfi_batch_size = options_batch_size options,
          dfi_ref = \<lparr> dc_ids = is, dc_cb = the cb, dc_options = options \<rparr> \<rparr> w))"

definition yk_doc_fetch_bulk :: "(('b, 'u) doc_context doc_fetch_in, yk_return_t, 'w) channel \<Rightarrow> bool
    \<Rightarrow> bytes \<Rightarrow> mode_t \<Rightarrow> size_t \<Rightarrow> size_t list option \<Rightarrow> ('b, 'u) bulk_callback option
    \<Rightarrow> fetch_options option \<Rightarrow> 'w \<Rightarrow> (yk_return_t \<times> 'w) outcome" where
  "yk_doc_fetch_bulk C listening collection mode n ids cb options w =
     (if has_mode mode YOKAN_MODE_NO_RDMA then Done (YOKAN_ERR_MODE, w)
      else doc_fetch_base C listening collection mode n ids (map_option OnBatch cb) options w)"

text \<open>
  \<open>bulk_to_docs\<close>: copies the batch, whose sizes come first, and calls the user's function on each
  document.
\<close>

definition fetch_bulk_to_docs :: "(unit, 'b) back_env \<Rightarrow> size_t list \<Rightarrow> 'u doc_callback
    \<Rightarrow> fetch_options option \<Rightarrow> ('b, 'u) bulk_callback" where
  "fetch_bulk_to_docs E ids cb options start n bulk sz u =
     pull_batch E bulk (n * 8) sz (\<lambda>e. Done (e, u)) (\<lambda>d.
     obind (read_sizes d 0 n) (\<lambda>doc_sizes.
     obind (slice_of start n ids) (\<lambda>ids.
     invoke_callback_on_docs (options_pool options) start ids doc_sizes (drop (8 * unat n) d) cb u)))"

text \<open>
  A null function is only noticed with \<open>YOKAN_MODE_NO_RDMA\<close>: otherwise the context's function is
  \<open>bulk_to_docs\<close>, which calls it.
\<close>

definition yk_doc_fetch_multi :: "(('b, 'u) doc_context doc_fetch_in, yk_return_t, 'w) channel
    \<Rightarrow> (unit, 'b) back_env \<Rightarrow> bool \<Rightarrow> bytes \<Rightarrow> mode_t \<Rightarrow> size_t \<Rightarrow> size_t list option
    \<Rightarrow> 'u doc_callback option \<Rightarrow> fetch_options option \<Rightarrow> 'w \<Rightarrow> (yk_return_t \<times> 'w) outcome" where
  "yk_doc_fetch_multi C E listening collection mode n ids cb options w =
     doc_fetch_base C listening collection mode n ids
       (if has_mode mode YOKAN_MODE_NO_RDMA then map_option OnDocs cb
        else Some (OnBatch (case cb of
               None \<Rightarrow> (\<lambda>start n bulk sz u. Undef)
             | Some f \<Rightarrow> fetch_bulk_to_docs E (case ids of None \<Rightarrow> [] | Some is \<Rightarrow> is) f options)))
       options w"

definition yk_doc_fetch :: "(('b, 'u) doc_context doc_fetch_in, yk_return_t, 'w) channel
    \<Rightarrow> (unit, 'b) back_env \<Rightarrow> bool \<Rightarrow> bytes \<Rightarrow> mode_t \<Rightarrow> size_t \<Rightarrow> 'u doc_callback option
    \<Rightarrow> 'w \<Rightarrow> (yk_return_t \<times> 'w) outcome" where
  "yk_doc_fetch C E listening collection mode id_val cb w =
     yk_doc_fetch_multi C E listening collection mode 1 (Some [id_val]) cb None w"

definition yk_doc_fetch_back_ult :: "(('b, ('b, 'u) doc_context) batch_in, 'b) back_env \<Rightarrow> 'u
    \<Rightarrow> (yk_return_t \<times> 'u) outcome" where
  "yk_doc_fetch_back_ult E u =
     (let ret = (\<lambda>e. Done (e, u)) in
      back_input E ret (\<lambda>inp.
      let ctx = bb_ref inp in
      if usize (dc_ids ctx) < bb_count inp then ret YOKAN_ERR_OTHER
      else case dc_cb ctx of
        OnBatch cb \<Rightarrow> cb (bb_start inp) (bb_count inp) (bb_bulk inp) (bb_size inp) u
      | OnDocs cb \<Rightarrow> Undef))"

definition yk_doc_fetch_direct_back_ult :: "(('b, 'u) doc_context fetch_direct_back_in, 'b) back_env
    \<Rightarrow> 'u \<Rightarrow> (yk_return_t \<times> 'u) outcome" where
  "yk_doc_fetch_direct_back_ult E u =
     (let ret = (\<lambda>e. Done (e, u)) in
      back_input E ret (\<lambda>inp.
      let ctx = fdb_ref inp in
      if usize (dc_ids ctx) < usize (fdb_vsizes inp) then ret YOKAN_ERR_OTHER
      else
        obind (slice_of (fdb_start inp) (usize (fdb_vsizes inp)) (dc_ids ctx)) (\<lambda>ids.
        case dc_cb ctx of
          OnDocs cb \<Rightarrow> invoke_callback_on_docs (options_pool (dc_options ctx)) (fdb_start inp) ids
            (fdb_vsizes inp) (fdb_vals inp) cb u
        | OnBatch cb \<Rightarrow> Undef)))"

section \<open>doc_iter\<close>

text \<open>The context has no identifiers: they come with the batch.\<close>

definition doc_iter_base :: "(('b, 'u) doc_context doc_iter_in, yk_return_t, 'w) channel
    \<Rightarrow> (('b, 'u) doc_context doc_iter_in, yk_return_t, 'w) channel \<Rightarrow> bool \<Rightarrow> bytes \<Rightarrow> mode_t \<Rightarrow> size_t
    \<Rightarrow> bytes option \<Rightarrow> size_t \<Rightarrow> size_t \<Rightarrow> ('b, 'u) doc_function option \<Rightarrow> fetch_options option
    \<Rightarrow> 'w \<Rightarrow> (yk_return_t \<times> 'w) outcome" where
  "doc_iter_base CD C listening collection mode from_id flt filter_size limit cb options w = (case cb of
       None \<Rightarrow> Done (YOKAN_ERR_INVALID_ARGS, w)
     | Some f \<Rightarrow>
         if \<not> mode_valid mode then Done (YOKAN_ERR_MODE, w)
         else if \<not> listening then Done (YOKAN_ERR_MID_NOT_LISTENING, w)
         else
           obind (c_array filter_size flt) (\<lambda>filter_data.
           simple_rpc (if has_mode mode YOKAN_MODE_NO_RDMA then CD else C) mode
             \<lparr> ci_mode = mode, ci_name = collection, dit_batch_size = options_batch_size options,
               dit_count = limit, dit_from_id = from_id, dit_filter = filter_data,
               dit_ref = \<lparr> dc_ids = [], dc_cb = f, dc_options = options \<rparr> \<rparr> w))"

definition yk_doc_iter_bulk :: "(('b, 'u) doc_context doc_iter_in, yk_return_t, 'w) channel
    \<Rightarrow> (('b, 'u) doc_context doc_iter_in, yk_return_t, 'w) channel \<Rightarrow> bool \<Rightarrow> bytes \<Rightarrow> mode_t \<Rightarrow> size_t
    \<Rightarrow> bytes option \<Rightarrow> size_t \<Rightarrow> size_t \<Rightarrow> ('b, 'u) bulk_callback option \<Rightarrow> fetch_options option
    \<Rightarrow> 'w \<Rightarrow> (yk_return_t \<times> 'w) outcome" where
  "yk_doc_iter_bulk CD C listening collection mode from_id flt filter_size limit cb options w =
     (if has_mode mode YOKAN_MODE_NO_RDMA then Done (YOKAN_ERR_MODE, w)
      else doc_iter_base CD C listening collection mode from_id flt filter_size limit
             (map_option OnBatch cb) options w)"

definition iter_bulk_to_docs :: "(unit, 'b) back_env \<Rightarrow> 'u doc_callback \<Rightarrow> fetch_options option
    \<Rightarrow> ('b, 'u) bulk_callback" where
  "iter_bulk_to_docs E cb options start n bulk sz u =
     pull_batch E bulk (n * 16) sz (\<lambda>e. Done (e, u)) (\<lambda>d.
     obind (read_sizes d 0 n) (\<lambda>ids.
     obind (read_sizes d (n * 8) n) (\<lambda>docsizes.
     invoke_callback_on_docs (options_pool options) start ids docsizes (drop (16 * unat n) d) cb u)))"

definition yk_doc_iter :: "(('b, 'u) doc_context doc_iter_in, yk_return_t, 'w) channel
    \<Rightarrow> (('b, 'u) doc_context doc_iter_in, yk_return_t, 'w) channel \<Rightarrow> (unit, 'b) back_env \<Rightarrow> bool \<Rightarrow> bytes
    \<Rightarrow> mode_t \<Rightarrow> size_t \<Rightarrow> bytes option \<Rightarrow> size_t \<Rightarrow> size_t \<Rightarrow> 'u doc_callback option
    \<Rightarrow> fetch_options option \<Rightarrow> 'w \<Rightarrow> (yk_return_t \<times> 'w) outcome" where
  "yk_doc_iter CD C E listening collection mode from_id flt filter_size limit cb options w = (case cb of
       None \<Rightarrow> Done (YOKAN_ERR_INVALID_ARGS, w)
     | Some f \<Rightarrow>
         doc_iter_base CD C listening collection mode from_id flt filter_size limit
           (Some (if has_mode mode YOKAN_MODE_NO_RDMA then OnDocs f
                  else OnBatch (iter_bulk_to_docs E f options))) options w)"

definition yk_doc_iter_back_ult :: "(('b, ('b, 'u) doc_context) batch_in, 'b) back_env \<Rightarrow> 'u
    \<Rightarrow> (yk_return_t \<times> 'u) outcome" where
  "yk_doc_iter_back_ult E u =
     back_input E (\<lambda>e. Done (e, u)) (\<lambda>inp.
       case dc_cb (bb_ref inp) of
         OnBatch cb \<Rightarrow> cb (bb_start inp) (bb_count inp) (bb_bulk inp) (bb_size inp) u
       | OnDocs cb \<Rightarrow> Undef)"

definition yk_doc_iter_direct_back_ult :: "(('b, 'u) doc_context pairs_back_in, 'b) back_env
    \<Rightarrow> 'u \<Rightarrow> (yk_return_t \<times> 'u) outcome" where
  "yk_doc_iter_direct_back_ult E u =
     back_input E (\<lambda>e. Done (e, u)) (\<lambda>inp.
       let ctx = pb_ref inp in
       if length (pb_second inp) < length (pb_first inp) then Undef
       else case dc_cb ctx of
         OnDocs cb \<Rightarrow> invoke_callback_on_docs (options_pool (dc_options ctx)) (pb_start inp) (pb_first inp)
           (take (length (pb_first inp)) (pb_second inp)) (pb_data inp) cb u
       | OnBatch cb \<Rightarrow> Undef)"

end
