(* ===== verification/BackContract.thy ===== *)
theory BackContract
  imports FetchClient RpcTransfers
begin

text \<open>
  What the batches of a fetch amount to when the client runs its callbacks in place: the items are
  offered in order, batch by batch, until one is refused.
\<close>

section \<open>The client at the other end\<close>

text \<open>An RPC whose handler \<open>h\<close> runs as soon as it is forwarded.\<close>

definition back_to :: "('i \<Rightarrow> 'm \<Rightarrow> (yk_return_t \<times> 'm) outcome) \<Rightarrow> ('i, yk_return_t, 'm) back_rpc" where
  "back_to h = \<lparr> bk_create = HG_SUCCESS,
     bk_iforward = (\<lambda>inp m. obind (h inp m) (\<lambda>(ret, m'). Done (HG_SUCCESS, ret, m'))),
     bk_wait = (\<lambda>ret m. Done (HG_SUCCESS, Some ret, m)) \<rparr>"

definition pending :: "yk_return_t option \<Rightarrow> yk_return_t" where
  "pending prev = (case prev of None \<Rightarrow> YOKAN_SUCCESS | Some ret \<Rightarrow> ret)"

lemma pending_simps [simp]: "pending None = YOKAN_SUCCESS" "pending (Some ret) = ret"
  by (simp_all add: pending_def)

lemma wait_back_to: "wait_previous (back_to h) prev m = Done (pending prev, m)"
  by (cases prev) (simp_all add: wait_previous_def back_to_def)

lemma send_back_to: "send_back (back_to h) inp prev m =
    (if pending prev \<noteq> YOKAN_SUCCESS then Done (pending prev, None, m)
     else obind (h inp m) (\<lambda>(ret, m'). Done (YOKAN_SUCCESS, Some ret, m')))"
  by (cases "h inp m") (auto simp: send_back_def wait_back_to, simp_all add: back_to_def)

lemma finish_back_to: "finish_back (back_to h) ret prev m =
    Done (if ret = YOKAN_SUCCESS \<or> ret = YOKAN_STOP_ITERATION then pending prev else ret, m)"
  by (simp add: finish_back_def wait_back_to)

section \<open>The abstract fetch\<close>

text \<open>Items are offered until one is refused.\<close>

fun offer_all :: "('o \<Rightarrow> 'u \<Rightarrow> yk_return_t \<times> 'u) \<Rightarrow> 'o list \<Rightarrow> 'u \<Rightarrow> yk_return_t \<times> 'u" where
  "offer_all f [] u = (YOKAN_SUCCESS, u)"
| "offer_all f (x # xs) u =
     (case f x u of (ret, u') \<Rightarrow> if ret \<noteq> YOKAN_SUCCESS then (ret, u') else offer_all f xs u')"

text \<open>
  A refused batch is the last one. \<open>YOKAN_STOP_ITERATION\<close> is a success, except from the batch that is
  the last anyway.
\<close>

fun offer_batches :: "('o \<Rightarrow> 'u \<Rightarrow> yk_return_t \<times> 'u) \<Rightarrow> 'o list list \<Rightarrow> 'u \<Rightarrow> yk_return_t \<times> 'u" where
  "offer_batches f [] u = (YOKAN_SUCCESS, u)"
| "offer_batches f (b # bs) u =
     (case offer_all f b u of (ret, u') \<Rightarrow>
        if ret = YOKAN_SUCCESS then offer_batches f bs u'
        else (if ret = YOKAN_STOP_ITERATION \<and> bs \<noteq> [] then YOKAN_SUCCESS else ret, u'))"

lemma offer_all_append:
  "offer_all f (xs @ ys) u = (case offer_all f xs u of (ret, u') \<Rightarrow>
     if ret \<noteq> YOKAN_SUCCESS then (ret, u') else offer_all f ys u')"
  by (induction xs arbitrary: u) (auto split: prod.splits)

text \<open>When nothing is refused the batches make no difference.\<close>

lemma offer_batches_all:
  "fst (offer_all f (concat bs) u) = YOKAN_SUCCESS \<Longrightarrow> offer_batches f bs u = offer_all f (concat bs) u"
  by (induction bs arbitrary: u) (auto simp: offer_all_append split: prod.splits if_splits)

section \<open>The loop over the batches\<close>

text \<open>The rest of the fetch once the RPC in flight has answered \<open>ret\<close>.\<close>

definition offer_rest :: "('o \<Rightarrow> 'u \<Rightarrow> yk_return_t \<times> 'u) \<Rightarrow> 'o list list \<Rightarrow> yk_return_t \<Rightarrow> 'u
    \<Rightarrow> yk_return_t \<times> 'u" where
  "offer_rest f bs ret u =
     (if ret = YOKAN_SUCCESS then offer_batches f bs u
      else (if ret = YOKAN_STOP_ITERATION \<and> bs \<noteq> [] then YOKAN_SUCCESS else ret, u))"

lemma offer_rest_Cons:
  "offer_rest f (b # bs) YOKAN_SUCCESS u = (case offer_all f b u of (ret, u') \<Rightarrow> offer_rest f bs ret u')"
  by (simp add: offer_rest_def split: prod.splits)

text \<open>
  One round of a handler: it waits for the RPC in flight, and unless that failed, offers batch \<open>i\<close>.
\<close>

definition offers_batch :: "('o \<Rightarrow> 'u \<Rightarrow> yk_return_t \<times> 'u) \<Rightarrow> 'o list
    \<Rightarrow> (('s, yk_return_t, 'u) fetch_state \<Rightarrow> bool) \<Rightarrow> ('s, yk_return_t, 'u) fetch_state
    \<Rightarrow> (yk_return_t \<times> ('s, yk_return_t, 'u) fetch_state) outcome \<Rightarrow> bool" where
  "offers_batch f b next p res \<longleftrightarrow>
     (if pending (fs_prev p) \<noteq> YOKAN_SUCCESS
      then \<exists>p'. res = Done (pending (fs_prev p), p') \<and> fs_prev p' = None \<and> fs_mem p' = fs_mem p
             \<and> fs_db p' = fs_db p
      else \<exists>p'. res = Done (YOKAN_SUCCESS, p') \<and> next p' \<and> fs_prev p' = Some (fst (offer_all f b (fs_mem p)))
             \<and> fs_mem p' = snd (offer_all f b (fs_mem p)) \<and> fs_db p' = fs_db p)"

lemma each_batch_offers:
  assumes "\<And>j p. i \<le> j \<Longrightarrow> j < n \<Longrightarrow> ready j p \<Longrightarrow> offers_batch f (batch j) (ready (Suc j)) p (step j p)"
    and "ready i p" "i \<le> n"
  shows "\<exists>ret p'. each_batch step [i..<n] p = Done (ret, p') \<and> fs_db p' = fs_db p
    \<and> finish_back (back_to h) ret (fs_prev p') (fs_mem p')
      = Done (offer_rest f (map batch [i..<n]) (pending (fs_prev p)) (fs_mem p))"
  using assms
proof (induction "n - i" arbitrary: i p)
  case 0
  then show ?case by (simp add: finish_back_to offer_rest_def)
next
  case (Suc k)
  then have split: "[i..<n] = i # [Suc i..<n]" by (simp add: upt_rec)
  have step: "offers_batch f (batch i) (ready (Suc i)) p (step i p)" using Suc by simp
  show ?case
  proof (cases "pending (fs_prev p) = YOKAN_SUCCESS")
    case False
    then obtain p1 where p1: "step i p = Done (pending (fs_prev p), p1)" "fs_prev p1 = None"
      "fs_mem p1 = fs_mem p" "fs_db p1 = fs_db p"
      using step unfolding offers_batch_def by auto
    then show ?thesis
      unfolding split each_batch.simps list.map(2) offer_rest_def
      using False by (simp add: finish_back_to)
  next
    case True
    then obtain p1 where p1: "step i p = Done (YOKAN_SUCCESS, p1)" "ready (Suc i) p1"
      "fs_prev p1 = Some (fst (offer_all f (batch i) (fs_mem p)))"
      "fs_mem p1 = snd (offer_all f (batch i) (fs_mem p))" "fs_db p1 = fs_db p"
      using step by (auto simp: offers_batch_def)
    have "\<exists>ret p'. each_batch step [Suc i..<n] p1 = Done (ret, p') \<and> fs_db p' = fs_db p1
      \<and> finish_back (back_to h) ret (fs_prev p') (fs_mem p')
        = Done (offer_rest f (map batch [Suc i..<n]) (pending (fs_prev p1)) (fs_mem p1))"
      using Suc.hyps(2) Suc.prems p1(2) by (intro Suc.hyps(1)) auto
    then show ?thesis
      unfolding split each_batch.simps list.map(2) True offer_rest_Cons
      using p1 by (simp add: case_prod_unfold)
  qed
qed

lemma run_batches_offers:
  assumes "\<And>j p. j < n \<Longrightarrow> ready j p \<Longrightarrow> offers_batch f (batch j) (ready (Suc j)) p (step j p)"
    and "ready 0 p" "fs_prev p = None" "n < 4294967296"
  shows "\<exists>ret p'. run_batches step n p = Done (ret, p') \<and> fs_db p' = fs_db p
    \<and> finish_back (back_to h) ret (fs_prev p') (fs_mem p')
      = Done (offer_batches f (map batch [0..<n]) (fs_mem p))"
  using each_batch_offers [of 0 n ready f batch step p h] assms
  by (auto simp: run_batches_def offer_rest_def min_def)

section \<open>The slices\<close>

text \<open>Batch \<open>i\<close> of \<open>xs\<close>, in batches of \<open>B\<close>.\<close>

definition batch_of :: "nat \<Rightarrow> 'a list \<Rightarrow> nat \<Rightarrow> 'a list" where
  "batch_of B xs i = take B (drop (i * B) xs)"

definition batches_of :: "nat \<Rightarrow> 'a list \<Rightarrow> 'a list list" where
  "batches_of B xs = map (batch_of B xs) [0..<(length xs + B - 1) div B]"

lemma batch_index: "0 < B \<Longrightarrow> i < (n + B - 1) div B \<Longrightarrow> i * B < (n :: nat)"
proof -
  assume "0 < B" "i < (n + B - 1) div B"
  then have "Suc i * B \<le> n + B - 1" by (simp only: Suc_le_eq flip: less_eq_div_iff_mult_less_eq)
  then show ?thesis using \<open>0 < B\<close> by simp
qed

lemma batches_reach: "0 < B \<Longrightarrow> n \<le> (n + B - 1) div B * (B :: nat)"
  using dividend_less_div_times [of B "n + B - 1"] by simp

lemma batches_le: "0 < B \<Longrightarrow> (n + B - 1) div B \<le> (n :: nat)"
proof (cases "(n + B - 1) div B")
  case (Suc i)
  assume B: "0 < B"
  then have "i * B < n" using batch_index [of B i n] Suc by simp
  moreover have "i \<le> i * B" using B by simp
  ultimately have "i < n" by (rule le_less_trans [rotated])
  then show ?thesis using Suc by simp
qed simp

lemma batch_of_map: "batch_of B (map f xs) i = map f (batch_of B xs i)"
  by (simp add: batch_of_def take_map drop_map)

lemma take_batches: "take (i * B) xs @ batch_of B xs i = take (Suc i * B) xs"
  by (simp add: batch_of_def add.commute flip: take_add)

lemma batch_split: "xs = take (i * B) xs @ batch_of B xs i @ drop (Suc i * B) xs"
  unfolding append_assoc [symmetric] take_batches by simp

lemma length_concat_batch: "length (concat (map f (batch_of B xs i))) \<le> length (concat (map f xs))"
  by (subst (2) batch_split [of xs i B]) simp

lemma concat_batch_of: "concat (map (batch_of B xs) [0..<n]) = take (n * B) xs"
  by (induction n) (simp_all add: take_batches)

lemma concat_batches_of: "0 < B \<Longrightarrow> concat (batches_of B xs) = xs"
  using batches_reach [of B "length xs"] by (simp add: batches_of_def concat_batch_of)

section \<open>The abstract iteration\<close>

text \<open>
  Full batches, then the items that do not fill one. The answer to a batch is only looked at when the
  next one is full, which is then offered all the same, as the last; a stop counts for nothing there, but
  is the answer when no other batch was full.
\<close>

fun offer_ahead :: "('o \<Rightarrow> 'u \<Rightarrow> yk_return_t \<times> 'u) \<Rightarrow> 'o list list \<Rightarrow> 'o list \<Rightarrow> yk_return_t \<Rightarrow> 'u
    \<Rightarrow> yk_return_t \<times> 'u" where
  "offer_ahead f [] rest ret u =
     (if rest = [] \<or> ret \<noteq> YOKAN_SUCCESS then (ret, u) else offer_all f rest u)"
| "offer_ahead f (b # bs) rest ret u =
     (case offer_all f b u of (ret', u') \<Rightarrow>
        if ret = YOKAN_SUCCESS then offer_ahead f bs rest ret' u'
        else (if ret = YOKAN_STOP_ITERATION then ret' else ret, u'))"

definition full_batches :: "nat \<Rightarrow> 'a list \<Rightarrow> 'a list list" where
  "full_batches B xs = map (batch_of B xs) [0..<length xs div B]"

definition last_items :: "nat \<Rightarrow> 'a list \<Rightarrow> 'a list" where
  "last_items B xs = drop (length xs div B * B) xs"

text \<open>The same one item after the other: \<open>cur\<close> is the batch under construction.\<close>

fun offer_items :: "nat \<Rightarrow> ('o \<Rightarrow> 'u \<Rightarrow> yk_return_t \<times> 'u) \<Rightarrow> 'o list \<Rightarrow> yk_return_t \<Rightarrow> 'u \<Rightarrow> 'o list
    \<Rightarrow> yk_return_t \<times> 'u" where
  "offer_items B f cur ret u [] = (if cur = [] \<or> ret \<noteq> YOKAN_SUCCESS then (ret, u) else offer_all f cur u)"
| "offer_items B f cur ret u (x # xs) =
     (if length (cur @ [x]) \<noteq> B then offer_items B f (cur @ [x]) ret u xs
      else case offer_all f (cur @ [x]) u of (ret', u') \<Rightarrow>
        if ret = YOKAN_SUCCESS then offer_items B f [] ret' u' xs
        else (if ret = YOKAN_STOP_ITERATION then ret' else ret, u'))"

lemma offer_items_short:
  assumes "B = 0 \<or> length cur + length xs < B"
  shows "offer_items B f cur ret u xs = offer_items B f (cur @ xs) ret u []"
  using assms by (induction xs arbitrary: cur) auto

lemma offer_items_full:
  assumes "length cur < B" "B \<le> length cur + length xs"
  shows "offer_items B f cur ret u xs
    = (case offer_all f (cur @ take (B - length cur) xs) u of (ret', u') \<Rightarrow>
         if ret = YOKAN_SUCCESS then offer_items B f [] ret' u' (drop (B - length cur) xs)
         else (if ret = YOKAN_STOP_ITERATION then ret' else ret, u'))"
  using assms
proof (induction xs arbitrary: cur)
  case (Cons x xs)
  show ?case
  proof (cases "length (cur @ [x]) = B")
    case True
    then have B: "B = Suc (length cur)" by simp
    show ?thesis unfolding B by (simp split: prod.split)
  next
    case False
    then have "B - length cur = Suc (B - length (cur @ [x]))" using Cons.prems by simp
    then show ?thesis using False Cons.IH [of "cur @ [x]"] Cons.prems by (simp split: prod.split)
  qed
qed simp

lemma full_batches_step:
  assumes "0 < B" "B \<le> length xs"
  shows "full_batches B xs = take B xs # full_batches B (drop B xs)"
    and "last_items B xs = last_items B (drop B xs)"
proof -
  have n: "length xs div B = Suc (length (drop B xs) div B)"
    using assms by (simp add: le_div_geq)
  show "full_batches B xs = take B xs # full_batches B (drop B xs)"
    unfolding full_batches_def n by (simp add: upt_conv_Cons batch_of_def add.commute del: upt_Suc flip: map_Suc_upt)
  show "last_items B xs = last_items B (drop B xs)"
    unfolding last_items_def n by (simp add: add.commute)
qed

lemma offer_items_batches:
  "offer_items B f [] ret u xs = offer_ahead f (full_batches B xs) (last_items B xs) ret u"
proof (induction "length xs" arbitrary: xs ret u rule: less_induct)
  case less
  show ?case
  proof (cases "B = 0 \<or> length xs < B")
    case True
    then have "length xs div B = 0" by auto
    then show ?thesis using True offer_items_short [of B "[]" xs f ret u] by (simp add: full_batches_def last_items_def)
  next
    case False
    then show ?thesis
      using less [of "drop B xs"] offer_items_full [of "[]" B xs f ret u] full_batches_step [of B xs]
      by (simp split: prod.splits)
  qed
qed

end
