(* ===== verification/FetchProperties.thy ===== *)
theory FetchProperties
  imports BackContract RpcTypes
begin

text \<open>
  Fetching over the network: the client's call, the provider's handler and the client's handler
  together, on the map backend and on collections of documents.
\<close>

section \<open>What the handler collects\<close>

definition entry_size :: "bytes option \<Rightarrow> size_t" where
  "entry_size v = (case v of None \<Rightarrow> YOKAN_KEY_NOT_FOUND | Some b \<Rightarrow> usize b)"

definition entry_data :: "bytes option \<Rightarrow> bytes" where
  "entry_data v = (case v of None \<Rightarrow> [] | Some b \<Rightarrow> b)"

abbreviation sized_entry :: "bytes option \<Rightarrow> bool" where
  "sized_entry v \<equiv> (\<forall>b. v = Some b \<longrightarrow> sized b)"

lemma fetcher_fold: "fold (\<lambda>x st. snd (fetcher (k x) (v x) st)) xs (ns, d)
    = (ns @ map (entry_size \<circ> v) xs, d @ concat (map (entry_data \<circ> v) xs))"
  by (induction xs arbitrary: ns d)
    (auto simp: fetcher_def entry_size_def entry_data_def split: option.splits)

lemma entry_view:
  assumes "sized_entry v" "d = pre @ entry_data v @ post" "fits d"
  shows "sized_view d (usize pre) (entry_size v) = Done (entry_data v)"
    and "sized_next (usize pre) (entry_size v) = usize (pre @ entry_data v)"
proof -
  have "usize b \<le> YOKAN_LAST_VALID_SIZE" if "v = Some b" for b
  proof -
    have "unat YOKAN_LAST_VALID_SIZE = 2 ^ 64 - 4" by (simp add: YOKAN_LAST_VALID_SIZE_def)
    then show ?thesis using assms(1) that by (auto simp: sized_def word_le_nat_alt unat_usize)
  qed
  moreover have "\<not> YOKAN_KEY_NOT_FOUND \<le> YOKAN_LAST_VALID_SIZE" by (simp add: sentinel_defs word_le_nat_alt unat_minus_one)
  ultimately show "sized_view d (usize pre) (entry_size v) = Done (entry_data v)"
    "sized_next (usize pre) (entry_size v) = usize (pre @ entry_data v)"
    using assms(2,3) view_inside [of pre "entry_data v" post]
    by (auto simp: sized_view_def sized_next_def entry_size_def entry_data_def usize_append view_simps
        split: option.splits)
qed

section \<open>What the user's function is called with\<close>

text \<open>Index, key, and what the database has for it.\<close>

definition offer :: "'u kv_callback \<Rightarrow> nat \<times> bytes \<times> bytes option \<Rightarrow> 'u \<Rightarrow> yk_return_t \<times> 'u" where
  "offer cb x u = (case x of (i, k, v) \<Rightarrow> cb (of_nat i) k (entry_size v) (entry_data v) u)"

lemma offer_item [simp]: "offer cb (i, k, v) u = cb (of_nat i) k (entry_size v) (entry_data v) u"
  by (simp add: offer_def)

lemma call_index_nat: "start + i < 4294967296 \<Longrightarrow> call_index (of_nat start) i = of_nat (start + i)"
proof -
  assume a: "start + i < 4294967296"
  let ?n = "of_nat (start + i) :: size_t"
  have "unat ?n = start + i" using a by (simp only: unat_of_nat) simp
  then have "unat (ucast (ucast ?n :: 32 word) :: size_t) = unat ?n"
    using a by (simp add: unsigned_ucast_eq unsigned_take_bit_eq take_bit_nat_eq_self del: of_nat_add)
  then have "ucast (ucast ?n :: 32 word) = ?n" by (rule unsigned_word_eqI)
  then show ?thesis by (simp add: call_index_def)
qed

lemma length_fetch_calls [simp]: "length (fetch_calls ctx start i d off ns) = length ns"
  by (induction ns arbitrary: i off) simp_all

lemma fetch_calls_offer:
  assumes "\<forall>v \<in> set vs. sized_entry v" "d = pre @ concat (map entry_data vs) @ post" "fits d"
    and "start + i + length vs \<le> 4294967296"
  shows "call_each (fetch_calls ctx (of_nat start) i d (usize pre) (map entry_size vs)) u
    = Done (offer_all (offer (fc_cb ctx))
        (map (\<lambda>j. (start + i + j, fc_keys ctx ! (i + j), vs ! j)) [0..<length vs]) u)"
  using assms
proof (induction vs arbitrary: i pre u)
  case Nil
  then show ?case by simp
next
  case (Cons v vs)
  note here = entry_view [of v d pre "concat (map entry_data vs) @ post"]
  have idx: "call_index (of_nat start) i = of_nat (start + i)" using Cons.prems by (intro call_index_nat) simp
  have rest: "[0..<length (v # vs)] = 0 # map Suc [0..<length vs]"
    by (simp only: list.size(4) map_Suc_upt upt_conv_Cons) simp
  have tail: "call_each (fetch_calls ctx (of_nat start) (Suc i) d (usize (pre @ entry_data v)) (map entry_size vs)) u'
    = Done (offer_all (offer (fc_cb ctx))
        (map (\<lambda>j. (start + Suc i + j, fc_keys ctx ! (Suc i + j), vs ! j)) [0..<length vs]) u')" for u'
    by (rule Cons.IH) (use Cons.prems in auto)
  have view: "sized_view d (usize pre) (entry_size v) = Done (entry_data v)"
    "sized_next (usize pre) (entry_size v) = usize (pre @ entry_data v)"
    by (rule here; use Cons.prems in simp)+
  have items: "map (\<lambda>j. (start + i + j, fc_keys ctx ! (i + j), (v # vs) ! j)) [0..<length (v # vs)]
    = (start + i, fc_keys ctx ! i, v)
        # map (\<lambda>j. (start + Suc i + j, fc_keys ctx ! (Suc i + j), vs ! j)) [0..<length vs]"
    unfolding rest by simp
  show ?case
    unfolding items list.map(2) fetch_calls.simps call_each.simps idx view tail
    by (simp split: prod.splits)
qed

section \<open>A fetch over the map backend, in direct form\<close>

definition fetch_direct_channel :: "order \<Rightarrow> bool
    \<Rightarrow> ('u fetch_context fetch_direct_in, unit, 'u) rpc
    \<Rightarrow> ('u fetch_context fetch_direct_back_in, unit) back_env
    \<Rightarrow> ('u fetch_context fetch_direct_in, yk_return_t, (pairs kv_db, 'c, 'u) world) channel" where
  "fetch_direct_channel cmp has_lua R E = channel_to (\<lambda>inp.
     yk_fetch_direct_ult (R\<lparr> rpc_input := Some inp \<rparr>)
       (back_to (\<lambda>inp. yk_fetch_direct_back_ult (E\<lparr> be_input := Some inp \<rparr>)))
       (map_supportsMode has_lua) (\<lambda>mode keys ksizes func st s. alone (map_fetch cmp mode keys ksizes func st [] s)))"

text \<open>
  The items of batch \<open>b\<close>. The key comes from the front of the call, not of the batch.
\<close>

definition fetch_items :: "nat \<Rightarrow> (bytes \<rightharpoonup> bytes) \<Rightarrow> bytes list \<Rightarrow> nat \<Rightarrow> (nat \<times> bytes \<times> bytes option) list" where
  "fetch_items B m ks b = map (\<lambda>j. (b * B + j, ks ! j, m (ks ! (b * B + j)))) [0..<length (batch_of B ks b)]"

lemma key_views_all: "d = pre @ concat ks @ post \<Longrightarrow> fits d \<Longrightarrow> key_views d (usize pre) (map usize ks) = Done ks"
proof (induction ks arbitrary: pre)
  case (Cons k ks)
  then show ?case
    using view_inside [of pre k "concat ks @ post"] Cons.IH [of "pre @ k"]
    by (simp add: view_simps usize_append)
qed simp

lemma map_fetch_batch:
  assumes "total_comparator cmp" "nodes_ok cmp fst (m_db s)" "\<not> m_migrated s"
    and "\<not> has_mode mode YOKAN_MODE_WAIT" "fits (concat ks)"
  shows "alone (map_fetch cmp mode \<lparr> um_addr = x, um_data = concat ks \<rparr> (map usize ks) fetcher ([], []) [] s)
    = Done (OK, (map (entry_size \<circ> map_of (m_db s)) ks, concat (map (entry_data \<circ> map_of (m_db s)) ks)), s)"
proof -
  have "map_fetch_loop (std_map cmp) False \<lparr> um_addr = x, um_data = concat ks \<rparr> (map usize ks) fetcher
      (usize ([] :: bytes)) ([], []) [] s
    = Done (OK, fold (\<lambda>k st. snd (fetcher k (map_of (m_db s) k) st)) ks ([], []), [], s)"
    by (rule kv_reader.map_fetch_loop_law [OF kv_container.axioms(1) [OF map_is_container [OF assms(1)]] assms(2)])
      (use assms(5) in simp_all)
  then show ?thesis
    using assms(3,4) fetcher_fold [of id "map_of (m_db s)" ks "[]" "[]"]
    by (simp add: map_fetch_def alone_def comp_def)
qed

text \<open>The client's handler on a batch.\<close>

lemma direct_back_offers:
  assumes "be_instance E" "options_pool (fc_options ctx) = None" "length (fc_keys ctx) < 4294967296"
    and "\<forall>v \<in> set vs. sized_entry v" "fits (concat (map entry_data vs))"
    and "length vs \<le> length (fc_keys ctx)" "start + length vs \<le> 4294967296"
  shows "yk_fetch_direct_back_ult (E\<lparr> be_input := Some \<lparr> fdb_ref = ctx, fdb_start = of_nat start,
      fdb_vsizes = map entry_size vs, fdb_vals = concat (map entry_data vs) \<rparr> \<rparr>) u
    = Done (offer_all (offer (fc_cb ctx))
        (map (\<lambda>j. (start + j, fc_keys ctx ! j, vs ! j)) [0..<length vs]) u)"
proof -
  have size: "\<not> usize (fc_keys ctx) < usize (map entry_size vs)"
    using assms(3,6) by (simp add: word_less_nat_alt unat_usize)
  show ?thesis
    using fetch_calls_offer [of vs "concat (map entry_data vs)" "[]" "[]" start 0 ctx u] assms size
    by (simp add: yk_fetch_direct_back_ult_def back_input_def invoke_calls_def case_prod_unfold)
qed

text \<open>The slices of the handler are the batches.\<close>

lemma slice_batch:
  assumes "0 < B" "j < (length xs + B - 1) div B" "length xs < 18446744073709551616" "unat b = B"
  shows "slice_of (of_nat (j * B)) (min b (usize xs - of_nat (j * B))) xs = Done (batch_of B xs j)"
proof -
  have j: "j * B < length xs" using assms(1,2) by (rule batch_index)
  have u: "unat (of_nat (j * B) :: size_t) = j * B" using j assms(3) by (simp add: unat_of_nat del: of_nat_mult)
  have d: "unat (usize xs - of_nat (j * B)) = length xs - j * B"
    using j assms(3) u by (simp add: unat_sub_if_size unat_usize del: of_nat_mult)
  have "unat (min b (usize xs - of_nat (j * B))) = min B (length xs - j * B)"
    using d assms(4) by (simp add: min_def word_le_nat_alt del: of_nat_mult)
  moreover have "j * B + min B (length xs - j * B) \<le> length xs" using j by simp
  moreover have "take (min B (length xs - j * B)) (drop (j * B) xs) = take B (drop (j * B) xs)"
    by (metis length_drop take_take take_all order_refl min.commute)
  ultimately show ?thesis
    using u by (simp only: slice_of_def batch_of_def if_True)
qed

lemma batch_start:
  assumes "j * unat (bs :: 32 word) < 4294967296"
  shows "ucast (bs * of_nat j) = (of_nat (j * unat bs) :: size_t)"
proof (rule unsigned_word_eqI)
  have "unat (of_nat (j * unat bs) :: 32 word) = j * unat bs" "unat (of_nat (j * unat bs) :: size_t) = j * unat bs"
    using assms by (simp_all add: unat_of_nat del: of_nat_mult)
  moreover have "bs * of_nat j = of_nat (j * unat bs)" by (simp add: mult.commute)
  ultimately show "unat (ucast (bs * of_nat j) :: size_t) = unat (of_nat (j * unat bs) :: size_t)"
    using assms by (simp add: unsigned_ucast_eq unsigned_take_bit_eq take_bit_nat_eq_self del: of_nat_mult)
qed

lemma unat_ucast_size: "unat (ucast (b :: 32 word) :: size_t) = unat b"
proof -
  have "unat b < 2 ^ LENGTH(32)" by (rule unsigned_less)
  then show ?thesis by (simp add: unsigned_ucast_eq take_bit_nat_eq_self)
qed

text \<open>One round of the handler.\<close>

lemma batch_of_usize: "batch_of B (map usize ks) j = map usize (batch_of B ks j)"
  by (rule batch_of_map)

lemma batch_keys_view:
  assumes "fits (concat ks)"
  shows "sub_umem \<lparr> um_addr = x, um_data = concat ks \<rparr> (usize (concat (take (j * B) ks)))
      (usize (concat (batch_of B ks j)))
    = Done \<lparr> um_addr = x + usize (concat (take (j * B) ks)), um_data = concat (batch_of B ks j) \<rparr>"
proof -
  have "concat ks = concat (take (j * B) ks) @ concat (batch_of B ks j) @ concat (drop (Suc j * B) ks)"
    unfolding concat_append [symmetric] by (rule arg_cong [OF batch_split])
  then show ?thesis
    using assms by (metis sub_umem_append umem.select_convs(1,2))
qed

definition at_batch :: "nat \<Rightarrow> bytes list \<Rightarrow> 's \<Rightarrow> nat \<Rightarrow> ('s, 'q, 'm) fetch_state \<Rightarrow> bool" where
  "at_batch B ks s j p \<longleftrightarrow> fs_offset p = usize (concat (take (j * B) ks)) \<and> fs_db p = s"

lemma fetch_round:
  assumes "total_comparator cmp" "nodes_ok cmp fst (m_db s)" "\<not> m_migrated s"
    and "\<not> has_mode mode YOKAN_MODE_WAIT" "fits (concat ks)" "length ks < 4294967296"
    and "\<forall>k \<in> set ks. sized_entry (map_of (m_db s) k)"
    and "fits (concat (map (entry_data \<circ> map_of (m_db s)) ks))"
    and "be_instance E" "options_pool (fc_options ctx) = None" "fc_keys ctx = ks"
    and B: "B = unat bs" "0 < B" and j: "j < (length ks + B - 1) div B" and at: "at_batch B ks s j p"
  shows "offers_batch (offer (fc_cb ctx)) (fetch_items B (map_of (m_db s)) ks j) (at_batch B ks s (Suc j)) p
    (fetch_batch (\<lambda>mode keys ksizes func st s. alone (map_fetch cmp mode keys ksizes func st [] s))
      (fetch_direct_send (back_to (\<lambda>inp. yk_fetch_direct_back_ult (E\<lparr> be_input := Some inp \<rparr>))) ctx) mode
      (local_mem (concat ks)) (map usize ks) bs j p)"
proof -
  let ?bk = "batch_of B ks j"
  let ?vs = "map (map_of (m_db s)) ?bk"
  have lt: "j * B < length ks" using B(2) j by (rule batch_index)
  have start: "ucast (bs * of_nat j) = (of_nat (j * B) :: size_t)"
    unfolding B(1) by (rule batch_start) (use lt assms(6) B(1) in simp)
  have slice: "slice_of (of_nat (j * B)) (min (ucast bs) (usize ks - of_nat (j * B)))
      (map usize ks :: size_t list) = Done (map usize ?bk)"
    using slice_batch [of B j "map usize ks" "ucast bs"] B j assms(6)
    by (simp add: batch_of_usize unat_ucast_size del: of_nat_mult)
  have sub: "set ?bk \<subseteq> set ks" by (auto simp: batch_of_def dest: in_set_takeD in_set_dropD)
  have len: "j * B + length ?bk \<le> length ks" using lt by (simp add: batch_of_def)
  have fits: "fits (concat ?bk)" "fits (concat (map entry_data ?vs))"
    using length_concat_batch [of id B ks j] length_concat_batch [of "entry_data \<circ> map_of (m_db s)" B ks j]
      assms(5,8) by (simp_all add: comp_def)
  have fetch: "alone (map_fetch cmp mode \<lparr> um_addr = x, um_data = concat ?bk \<rparr> (map usize ?bk) fetcher ([], []) [] s)
      = Done (OK, (map entry_size ?vs, concat (map entry_data ?vs)), s)" for x
    using map_fetch_batch [OF assms(1-4) fits(1)] by (simp add: comp_def)
  have answer: "yk_fetch_direct_back_ult (E\<lparr> be_input := Some \<lparr> fdb_ref = ctx, fdb_start = of_nat (j * B),
        fdb_vsizes = map entry_size ?vs, fdb_vals = concat (map entry_data ?vs) \<rparr> \<rparr>) u
      = Done (offer_all (offer (fc_cb ctx)) (fetch_items B (map_of (m_db s)) ks j) u)" for u
  proof -
    have items: "fetch_items B (map_of (m_db s)) ks j
      = map (\<lambda>i. (j * B + i, fc_keys ctx ! i, ?vs ! i)) [0..<length ?vs]"
      using assms(11) lt by (simp add: fetch_items_def batch_of_def)
    show ?thesis
      unfolding items
      by (rule direct_back_offers) (use assms(6,7,9-11) fits(2) len sub in auto)
  qed
  have total: "accumulate (map usize ?bk) = usize (concat ?bk)" by (rule accumulate_usize)
  have next_off: "usize (concat (take (j * B) ks)) + usize (concat ?bk) = usize (concat (take (Suc j * B) ks))"
    unfolding usize_append [symmetric] concat_append [symmetric] take_batches ..
  show ?thesis
    using at
    by (simp add: offers_batch_def fetch_batch_def Let_def start slice total local_mem_def at_batch_def
        batch_keys_view [OF assms(5)] fetch fetch_direct_send_def send_back_to answer next_off case_prod_unfold
        del: of_nat_mult mult_Suc map_map)
qed


section \<open>The call\<close>

text \<open>The size of the batches: that of the options, or one batch for all.\<close>

definition batch_length :: "fetch_options option \<Rightarrow> nat \<Rightarrow> nat" where
  "batch_length options n = (if options_batch_size options = 0 then n else unat (options_batch_size options))"

lemma batch_length_pos: "n \<noteq> 0 \<Longrightarrow> 0 < batch_length options n"
  by (simp add: batch_length_def unat_gt_0)

lemma with_batches_nat:
  assumes "fits xs" "xs \<noteq> []" "length xs < 4294967296"
  obtains bs where "unat bs = batch_length options (length xs)"
    and "\<And>k. with_batches (options_batch_size options) (usize xs) k
      = k bs ((length xs + batch_length options (length xs) - 1) div batch_length options (length xs))"
proof
  let ?bs = "if options_batch_size options = 0 then ucast (usize xs) else options_batch_size options"
  have "unat (ucast (usize xs) :: 32 word) = length xs"
    using assms by (simp add: unsigned_ucast_eq take_bit_nat_eq_self unat_usize)
  then show bs: "unat ?bs = batch_length options (length xs)" by (simp add: batch_length_def)
  have "?bs \<noteq> 0" using bs batch_length_pos [of "length xs" options] assms(2) by (metis length_0_conv less_nat_zero_code unat_0)
  then show "with_batches (options_batch_size options) (usize xs) k
      = k ?bs ((length xs + batch_length options (length xs) - 1) div batch_length options (length xs))" for k
    unfolding with_batches_def Let_def bs using assms(1) by (simp add: unat_usize)
qed

text \<open>The batches of the handler on the map backend.\<close>

abbreviation map_fetch_op :: "order \<Rightarrow> pairs kv_db fetch_op" where
  "map_fetch_op cmp \<equiv> \<lambda>mode keys ksizes func st s. alone (map_fetch cmp mode keys ksizes func st [] s)"

lemma fetch_rounds:
  assumes "total_comparator cmp" "nodes_ok cmp fst (m_db s)" "\<not> m_migrated s"
    and "\<not> has_mode mode YOKAN_MODE_WAIT" "fits (concat ks)" "length ks < 4294967296"
    and "\<forall>k \<in> set ks. sized_entry (map_of (m_db s) k)"
    and "fits (concat (map (entry_data \<circ> map_of (m_db s)) ks))"
    and "be_instance E" "options_pool (fc_options ctx) = None" "fc_keys ctx = ks"
    and B: "B = unat bs" "0 < B" and n: "n = (length ks + B - 1) div B"
    and H: "H = back_to (\<lambda>inp. yk_fetch_direct_back_ult (E\<lparr> be_input := Some inp \<rparr>))"
  shows "\<exists>ret p. run_batches (fetch_batch (map_fetch_op cmp) (fetch_direct_send H ctx) mode (local_mem (concat ks))
        (map usize ks) bs) n \<lparr> fs_offset = 0, fs_prev = None, fs_db = s, fs_mem = m \<rparr> = Done (ret, p)
    \<and> fs_db p = s \<and> finish_back H ret (fs_prev p) (fs_mem p)
      = Done (offer_batches (offer (fc_cb ctx)) (map (fetch_items B (map_of (m_db s)) ks) [0..<n]) m)"
proof -
  let ?step = "fetch_batch (map_fetch_op cmp) (fetch_direct_send H ctx) mode (local_mem (concat ks)) (map usize ks) bs"
  let ?p = "\<lparr> fs_offset = 0, fs_prev = None, fs_db = s, fs_mem = m \<rparr>"
  have round: "offers_batch (offer (fc_cb ctx)) (fetch_items B (map_of (m_db s)) ks j) (at_batch B ks s (Suc j)) p
      (?step j p)" if "j < n" "at_batch B ks s j p" for j p
    unfolding H by (rule fetch_round [OF assms(1-11) B that [unfolded n]])
  have "n < 4294967296" using batches_le [OF B(2), of "length ks"] assms(6) n by simp
  moreover have "at_batch B ks s 0 ?p" "fs_prev ?p = None" by (simp_all add: at_batch_def)
  ultimately show ?thesis
    using run_batches_offers [where step = ?step and h = "\<lambda>inp. yk_fetch_direct_back_ult (E\<lparr> be_input := Some inp \<rparr>)",
      OF round] unfolding H by fastforce
qed

text \<open>
  C12: a direct fetch of many keys is the abstract fetch of their values: the provider looks the keys up
  batch by batch and the client's function is offered every value, in order, until it refuses one. The
  last batch that was refused decides the answer; a stop is a success only when another batch was still
  to come. The values are those of the keys asked for, the keys that come with them are not: each
  batch is labelled with the keys from the front of the call.
\<close>

theorem fetch_direct_refines:
  fixes w :: "(pairs kv_db, 'c, 'u) world"
  assumes "total_comparator cmp" "w_db w = Some s" "nodes_ok cmp fst (m_db s)" "\<not> m_migrated s"
    and "reaches R a" "be_instance E" "options_pool options = None"
    and "map_supportsMode has_lua mode" "mode_valid mode" "\<not> has_mode mode YOKAN_MODE_WAIT"
    and "client_keys ks" "fits (concat ks)"
    and "\<forall>k \<in> set ks. sized_entry (map_of (m_db s) k)"
    and "fits (concat (map (entry_data \<circ> map_of (m_db s)) ks))"
  shows "yk_fetch_direct (fetch_direct_channel cmp has_lua R E) True mode (usize ks) (Some (concat ks))
      (Some (map usize ks)) (Some cb) options w
    = (case offer_batches (offer cb) (map (fetch_items (batch_length options (length ks)) (map_of (m_db s)) ks)
          [0..<length (batches_of (batch_length options (length ks)) ks)]) (w_mem w) of
         (ret, u) \<Rightarrow> Done (ret, w\<lparr> w_mem := u \<rparr>))"
proof -
  let ?B = "batch_length options (length ks)"
  let ?ctx = "\<lparr> fc_keys = ks, fc_cb = cb, fc_options = options \<rparr>"
  define n where "n = (length ks + ?B - 1) div ?B"
  let ?H = "back_to (\<lambda>inp. yk_fetch_direct_back_ult (E\<lparr> be_input := Some inp \<rparr>))"
  have f: "\<forall>x \<in> set ks. fits x" "fits ks" "length ks < 4294967296"
    using assms(11,12) by (auto simp: client_keys_def dest!: length_le_concat)
  note ks = client_keysD [OF assms(11) f(1)]
  have args: "usize ks \<noteq> 0" "c_array (usize ks) (Some (map usize ks)) = Done (map usize ks :: size_t list)"
    "c_array (accumulate (map usize ks)) (Some (concat ks)) = Done (concat ks)"
    using f ks(1) assms(12) by (simp_all add: usize_0 accumulate_usize c_array_def unat_usize)
  have views: "key_views (concat ks) 0 (map usize ks) = Done ks"
    using key_views_all [of "concat ks" "[]" ks "[]"] assms(12) by simp
  have min: "min_size (map usize ks) \<noteq> 0" using ks(2) by (auto simp: min_size_0)
  obtain bs where bs: "unat bs = ?B"
    and batches: "\<And>k. with_batches (options_batch_size options) (usize ks) k = (k bs n
      :: (yk_return_t \<times> (pairs kv_db, 'c, 'u) world) outcome)"
    using with_batches_nat [of "map usize ks :: size_t list" options] f(2,3) ks(1) by (auto simp: n_def)
  have B: "0 < ?B" using ks(1) by (intro batch_length_pos) simp
  obtain ret p where run: "run_batches (fetch_batch (map_fetch_op cmp) (fetch_direct_send ?H ?ctx) mode
        (local_mem (concat ks)) (map usize ks) bs) n
        \<lparr> fs_offset = 0, fs_prev = None, fs_db = s, fs_mem = w_mem w \<rparr> = Done (ret, p)" "fs_db p = s"
      "finish_back ?H ret (fs_prev p) (fs_mem p)
        = Done (offer_batches (offer cb) (map (fetch_items ?B (map_of (m_db s)) ks) [0..<n]) (w_mem w))"
    using fetch_rounds [OF assms(1,3,4,10,12) f(3) assms(13,14,6) _ _ bs [symmetric] B n_def refl, of ?ctx "w_mem w"] assms(7)
    by auto
  have nb: "length (batches_of ?B ks) = n" by (simp add: batches_of_def n_def)
  have db: "w\<lparr> w_db := Some s, w_mem := u \<rparr> = w\<lparr> w_mem := u \<rparr>" for u using assms(2) by simp
  have "\<not> 4294967296 \<le> length ks" using f(3) by simp
  then show ?thesis
    unfolding nb using assms(2,5,8,9) args views min batches run
    by (simp add: yk_fetch_direct_def fetch_direct_channel_def simple_rpc_to yk_fetch_direct_ult_def
        handler_input_def check_database_def reaches_def case_prod_unfold db)
qed

text \<open>A function that keeps what it gets.\<close>

definition gather :: "(size_t \<times> bytes \<times> size_t \<times> bytes) list kv_callback" where
  "gather i k n v u = (YOKAN_SUCCESS, u @ [(i, k, n, v)])"

text \<open>A provider that is there, and a client that answers; no bulk transfer is made.\<close>

definition near_rpc :: "('i, unit, 'm) rpc" where
  "near_rpc = \<lparr> rpc_instance = True, rpc_provider = True, rpc_input = None, rpc_lookup = (\<lambda>str. None),
     rpc_dup = Some 0, rpc_pull = (\<lambda>a b i j n d m. (HG_FAILURE, d)),
     rpc_push = (\<lambda>a b i j n d m. (HG_FAILURE, m)), rpc_ipush = (\<lambda>a b i j n d m. (HG_FAILURE, HG_FAILURE, m)) \<rparr>"

definition near_client :: "('i, unit) back_env" where
  "near_client = \<lparr> be_instance = True, be_input = None, be_bulk = True, be_pull = (\<lambda>b n d. (HG_FAILURE, d)) \<rparr>"

lemma near_reaches: "reaches near_rpc 0" "be_instance near_client"
  by (simp_all add: reaches_def near_rpc_def near_client_def)

text \<open>
  Two keys in batches of one: the value of the second key comes with the first key.
\<close>

theorem fetch_direct_refines_witness:
  "yk_fetch_direct (fetch_direct_channel DefaultMemCmp False near_rpc near_client) True
     YOKAN_MODE_DEFAULT 2 (Some [1, 2]) (Some [1, 1]) (Some gather)
     (Some \<lparr> fo_pool = None, fo_batch_size = 1 \<rparr>)
     \<lparr> w_db = Some (map_db [([1], [5]), ([2], [6, 7])]), w_cache = (), w_mem = [] \<rparr>
   = Done (YOKAN_SUCCESS, \<lparr> w_db = Some (map_db [([1], [5]), ([2], [6, 7])]), w_cache = (),
       w_mem = [(0, [1], 1, [5]), (1, [1], 2, [6, 7])] \<rparr>)"
proof -
  let ?s = "map_db [([1 :: byte], [5 :: byte]), ([2], [6, 7])]"
  let ?o = "Some \<lparr> fo_pool = None, fo_batch_size = 1 \<rparr> :: fetch_options option"
  have r: "client_keys [[1 :: byte], [2]]" "fits (concat [[1 :: byte], [2]])"
    "\<forall>k \<in> set [[1 :: byte], [2]]. sized_entry (map_of (m_db ?s) k)"
    "fits (concat (map (entry_data \<circ> map_of (m_db ?s)) [[1 :: byte], [2]]))"
    "nodes_ok DefaultMemCmp fst (m_db ?s)" "\<not> m_migrated ?s" "options_pool ?o = None"
    by (simp_all add: client_keys_def served_map sized_def nodes_ok_def map_db_def entry_data_def
        options_pool_def DefaultMemCmp_def)
  have b: "batch_length ?o n = 1" for n by (simp add: batch_length_def options_batch_size_def)
  have items: "map (fetch_items 1 (map_of (m_db ?s)) [[1], [2]]) [0..<length (batches_of 1 [[1 :: byte], [2]])]
      = [[(0, [1], Some [5])], [(1, [1], Some [6, 7])]]"
    by (simp add: fetch_items_def batches_of_def batch_of_def map_db_def upt_rec)
  show ?thesis
    using fetch_direct_refines [OF memcmp_total _ r(5,6) near_reaches r(7) default_mode(1) [of False]
        default_mode(2,3) r(1-4), of "\<lparr> w_db = Some ?s, w_cache = (), w_mem = [] \<rparr>" gather, unfolded b world.simps items]
    by (simp add: gather_def usize_def entry_size_def entry_data_def)
qed

end
