(* ===== verification/IterProperties.thy ===== *)
theory IterProperties
  imports FetchProperties ListProperties
begin

text \<open>
  An iteration over the network in direct form: the client's call, the provider's handler with the walk
  of the map backend under a prefix filter, and the client's handler together.
\<close>

section \<open>The batch under construction\<close>

lemma vec_resize_usize: "fits (xs @ ys) \<Longrightarrow> length old = length ys
    \<Longrightarrow> vec_resize (usize xs + usize ys) (xs @ old) = xs @ old"
  by (simp add: vec_resize_def unat_usize flip: usize_append)

lemma vec_resize_grow: "fits (xs @ ys) \<Longrightarrow> vec_resize (usize xs + usize ys) xs = xs @ replicate (length ys) 0"
  by (simp add: vec_resize_def unat_usize flip: usize_append)

lemma iter_add_prefix:
  assumes "fits k" "starts_with p k" "no_values \<longrightarrow> v = []" "sk = strip_prefix mode p k"
    and "fits (sd_data s @ sk @ v)"
  shows "iter_add (KeyPrefixFilter mode p) no_values k v s
    = Done (s\<lparr> sd_first := sd_first s @ [usize sk], sd_second := sd_second s @ [usize v],
               sd_data := sd_data s @ sk @ v \<rparr>)"
proof -
  let ?F = "KeyPrefixFilter mode p" and ?d = "sd_data s"
  let ?zk = "replicate (length sk) (0 :: byte)" and ?zv = "replicate (length v) (0 :: byte)"
  have check: "f_check ?F k v" using assms(2) by (simp add: prefix_passes)
  have key: "f_key_size ?F k = usize sk" "f_key_copy ?F d off room k = copy_whole d off room sk" for d off room
    using prefix_filter.key_size_law [OF assms(1) check] prefix_filter.key_copy_law [OF assms(1) check] assms(4)
    by simp_all
  have val: "f_val_size ?F v = Done (usize v)" "f_val_copy ?F d off room v = copy_whole d off room v" for d off room
    by (simp_all add: KeyPrefixFilter_def)
  have grow: "vec_resize (usize ?d + usize sk + usize v) ?d = ?d @ ?zk @ ?zv"
    using vec_resize_grow [of ?d "sk @ v"] assms(5) by (simp add: usize_append add.assoc replicate_add)
  have same: "vec_resize (usize ?d + usize sk + usize v) (?d @ sk @ v) = ?d @ sk @ v"
    using vec_resize_usize [of ?d "sk @ v" "sk @ v"] assms(5) by (simp add: usize_append add.assoc)
  have copy1: "copy_whole (?d @ ?zk @ ?zv) (usize ?d) (usize sk) sk = Done (usize sk, ?d @ sk @ ?zv)"
    by (rule copy_whole_fits) (use assms(5) in simp_all)
  have copy2: "copy_whole (?d @ sk @ ?zv) (usize ?d + usize sk) (usize v) v = Done (usize v, ?d @ sk @ v)"
    using copy_whole_fits [of "?d @ sk" ?zv "[]" v "usize v"] assms(5) by (simp add: usize_append)
  show ?thesis
    using grow same copy1 copy2 assms(3)
    by (cases no_values) (simp_all add: iter_add_def Let_def key val)
qed

section \<open>The client's handler\<close>

text \<open>Pairs with their indices, from \<open>n\<close> on.\<close>

definition indexed :: "nat \<Rightarrow> (bytes \<times> bytes) list \<Rightarrow> (nat \<times> bytes \<times> bytes option) list" where
  "indexed n xs = map (\<lambda>(i, k, v). (i, k, Some v)) (enumerate n xs)"

lemma indexed_simps [simp]:
  "indexed n [] = []" "indexed n ((k, v) # xs) = (n, k, Some v) # indexed (Suc n) xs"
  "indexed n (xs @ ys) = indexed n xs @ indexed (n + length xs) ys" "length (indexed n xs) = length xs"
  "indexed n xs = [] \<longleftrightarrow> xs = []"
  by (simp_all add: indexed_def enumerate_append_eq) (metis enumerate_simps(1) length_0_conv length_enumerate)

abbreviation pair_data :: "(bytes \<times> bytes) list \<Rightarrow> bytes" where
  "pair_data xs \<equiv> concat (map (\<lambda>(k, v). k @ v) xs)"

lemma iter_calls_offer:
  assumes "d = pre @ pair_data xs @ post" "fits d" "start + i + length xs \<le> 4294967296"
  shows "call_each (iter_calls cb (of_nat start) i d (usize pre) (map (\<lambda>(k, v). (usize k, usize v)) xs)) u
    = Done (offer_all (offer cb) (indexed (start + i) xs) u)"
  using assms
proof (induction xs arbitrary: i pre u)
  case (Cons x xs)
  obtain k v where x: "x = (k, v)" by (cases x)
  have idx: "call_index (of_nat start) i = of_nat (start + i)" using Cons.prems by (intro call_index_nat) simp
  have d: "d = pre @ k @ v @ pair_data xs @ post" using Cons.prems(1) x by simp
  have view: "sub_bytes d (usize pre) (usize k) = Done k" "sub_bytes d (usize pre + usize k) (usize v) = Done v"
    using sub_bytes_append [of pre k "v @ pair_data xs @ post"] sub_bytes_append [of "pre @ k" v "pair_data xs @ post"]
      Cons.prems(2) d by (simp_all add: usize_append)
  have off: "usize pre + usize k + usize v = usize (pre @ k @ v)" by (simp add: usize_append)
  have tail: "call_each (iter_calls cb (of_nat start) (Suc i) d (usize (pre @ k @ v))
      (map (\<lambda>(k, v). (usize k, usize v)) xs)) u' = Done (offer_all (offer cb) (indexed (start + Suc i) xs) u')" for u'
    by (rule Cons.IH) (use Cons.prems x in auto)
  show ?case
    unfolding x list.map(2) prod.case iter_calls.simps call_each.simps idx view off tail
    by (simp add: view entry_size_def entry_data_def split: prod.splits)
qed simp

lemma length_iter_calls [simp]: "length (iter_calls cb start i d off xs) = length xs"
  by (induction xs arbitrary: i off) auto

lemma iter_back_offers:
  assumes "be_instance E" "ic_pool ctx = None" "fits (pair_data xs)" "start + length xs \<le> 4294967296"
    and "length xs < 4294967296"
  shows "yk_iter_direct_back_ult (E\<lparr> be_input := Some \<lparr> pb_ref = ctx, pb_start = of_nat start,
      pb_first = map (usize \<circ> fst) xs, pb_second = map (usize \<circ> snd) xs, pb_data = pair_data xs \<rparr> \<rparr>) u
    = Done (offer_all (offer (ic_cb ctx)) (indexed start xs) u)"
proof -
  have z: "zip (map (usize \<circ> fst) xs) (map (usize \<circ> snd) xs) = (map (\<lambda>(k, v). (usize k, usize v)) xs
      :: (size_t \<times> size_t) list)"
    by (induction xs) auto
  show ?thesis
    using iter_calls_offer [of "pair_data xs" "[]" xs "[]" start 0 "ic_cb ctx" u] assms
    by (simp add: yk_iter_direct_back_ult_def back_input_def invoke_calls_def z case_prod_unfold)
qed

section \<open>The handler's side\<close>

text \<open>The sender holds the batch \<open>cur\<close> after \<open>n\<close> pairs that were sent.\<close>

definition holds_batch :: "(bytes \<times> bytes) list \<Rightarrow> nat \<Rightarrow> (yk_return_t, 'u) sender \<Rightarrow> bool" where
  "holds_batch cur n s \<longleftrightarrow> sd_first s = map (usize \<circ> fst) cur \<and> sd_second s = map (usize \<circ> snd) cur
     \<and> sd_data s = pair_data cur \<and> sd_sent s = of_nat n"

lemma holds_batch_eq: "holds_batch cur n s \<Longrightarrow>
    s = \<lparr> sd_first = map (usize \<circ> fst) cur, sd_second = map (usize \<circ> snd) cur, sd_data = pair_data cur,
         sd_sent = of_nat n, sd_prev = sd_prev s, sd_mem = sd_mem s \<rparr>"
  by (cases s) (simp add: holds_batch_def)

definition iter_client :: "('u iter_context pairs_back_in, unit) back_env
    \<Rightarrow> ('u iter_context pairs_back_in, yk_return_t, 'u) back_rpc" where
  "iter_client E = back_to (\<lambda>inp. yk_iter_direct_back_ult (E\<lparr> be_input := Some inp \<rparr>))"

lemma send_offers:
  assumes "be_instance E" "ic_pool ctx = None" "fits (pair_data cur)" "n + length cur < 4294967296"
    and "holds_batch cur n s" "cur \<noteq> []"
  shows "iter_direct_send_batch (iter_client E) ctx s =
    (if pending (sd_prev s) \<noteq> YOKAN_SUCCESS then Done (pending (sd_prev s), s\<lparr> sd_prev := None \<rparr>)
     else case offer_all (offer (ic_cb ctx)) (indexed n cur) (sd_mem s) of (ret, u) \<Rightarrow>
       Done (YOKAN_SUCCESS, \<lparr> sd_first = [], sd_second = [], sd_data = [], sd_sent = of_nat (n + length cur),
         sd_prev = Some ret, sd_mem = u \<rparr>))"
proof -
  have "yk_iter_direct_back_ult (E\<lparr> be_input := Some \<lparr> pb_ref = ctx, pb_start = sd_sent s,
      pb_first = sd_first s, pb_second = sd_second s, pb_data = sd_data s \<rparr> \<rparr>) (sd_mem s)
    = Done (offer_all (offer (ic_cb ctx)) (indexed n cur) (sd_mem s))"
    using iter_back_offers [OF assms(1,2,3)] assms(4,5) by (simp add: holds_batch_def)
  then show ?thesis
    using assms(5,6)
    by (simp add: iter_direct_send_batch_def iter_client_def send_back_to batch_sent_def holds_batch_def
        usize_def case_prod_unfold)
qed

lemma send_nothing: "holds_batch [] n s \<Longrightarrow> iter_direct_send_batch B ctx s = Done (YOKAN_SUCCESS, s)"
  by (simp add: iter_direct_send_batch_def holds_batch_def)

text \<open>The end of the handler, after the walk.\<close>

definition iter_end :: "('i, 'q, 'm) back_rpc
    \<Rightarrow> (('q, 'm) sender \<Rightarrow> (yk_return_t \<times> ('q, 'm) sender) outcome) \<Rightarrow> status
    \<Rightarrow> ('q, 'm) sender outcome \<Rightarrow> (yk_return_t \<times> 'm) outcome" where
  "iter_end B send st so =
     obind so (\<lambda>s.
     let out_ret = (if st = StopIteration then YOKAN_SUCCESS else status_ret st) in
     obind (send s) (\<lambda>(ret, s).
     let out_ret = (if out_ret = YOKAN_SUCCESS then ret else out_ret) in
     obind (wait_previous B (sd_prev s) (sd_mem s)) (\<lambda>(ret, m).
     Done (if out_ret = YOKAN_SUCCESS then ret else out_ret, m))))"

lemma run_iter_end:
  "run_iter B send walk w = obind (walk (Done \<lparr> sd_first = [], sd_second = [], sd_data = [], sd_sent = 0,
      sd_prev = None, sd_mem = w_mem w \<rparr>)) (\<lambda>(st, so, db).
    obind (iter_end B send st so) (\<lambda>(ret, m). Done (ret, w\<lparr> w_db := Some db, w_mem := m \<rparr>)))"
  by (simp add: run_iter_def iter_end_def Let_def case_prod_unfold obind_assoc)

lemma ret_status_stop [simp]: "ret_status r = StopIteration \<longleftrightarrow> r = YOKAN_STOP_ITERATION"
  by (cases r) simp_all

text \<open>The walk and the end of the handler are the abstract iteration over the pairs.\<close>

lemma walk_offers:
  assumes "be_instance E" "ic_pool ctx = None" "unat bs = B"
    and "\<forall>(k, v) \<in> set es. fits k \<and> starts_with p k" "no_values \<longrightarrow> (\<forall>(k, v) \<in> set es. v = [])"
    and "xs = map (\<lambda>(k, v). (strip_prefix mode p k, v)) es"
    and "fits (pair_data (cur @ xs))" "n + length cur + length xs < 4294967296" "holds_batch cur n s"
    and "send = iter_direct_send_batch (iter_client E) ctx"
  shows "(case run_calls (\<lambda>key val. on_item send bs (iter_add (KeyPrefixFilter mode p) no_values key val)) es (Done s) of
      (st, so) \<Rightarrow> iter_end (iter_client E) send st so)
    = Done (offer_items B (offer (ic_cb ctx)) (indexed n cur) (pending (sd_prev s)) (sd_mem s)
        (indexed (n + length cur) xs))"
  using assms
proof (induction es arbitrary: cur n s xs)
  case Nil
  have last: "iter_end (iter_client E) send OK (Done s) = Done (if cur = [] \<or> pending (sd_prev s) \<noteq> YOKAN_SUCCESS
      then (pending (sd_prev s), sd_mem s) else offer_all (offer (ic_cb ctx)) (indexed n cur) (sd_mem s))"
  proof (cases "cur = []")
    case True
    then show ?thesis
      using Nil.prems send_nothing [of n s "iter_client E" ctx]
      by (simp add: iter_end_def) (simp add: iter_client_def wait_back_to)
  next
    case False
    then show ?thesis
      using Nil.prems send_offers [OF Nil.prems(1,2) _ _ Nil.prems(9)]
      by (simp add: iter_end_def case_prod_unfold) (simp add: iter_client_def wait_back_to)
  qed
  then show ?case using Nil.prems by simp
next
  case (Cons e es)
  obtain k v where e: "e = (k, v)" by (cases e)
  define sk where "sk = strip_prefix mode p k"
  define xs' where "xs' = map (\<lambda>(k, v). (strip_prefix mode p k, v)) es"
  have xs: "xs = (sk, v) # xs'" using Cons.prems(6) by (simp add: e sk_def xs'_def)
  let ?cur = "cur @ [(sk, v)]"
  let ?f = "offer (ic_cb ctx)" and ?r = "pending (sd_prev s)" and ?u = "sd_mem s"
  let ?func = "\<lambda>key val. on_item send bs (iter_add (KeyPrefixFilter mode p) no_values key val)"
  let ?fin = "\<lambda>(st, so). iter_end (iter_client E) send st so"
  define s1 where "s1 = s\<lparr> sd_first := sd_first s @ [usize sk], sd_second := sd_second s @ [usize v],
      sd_data := sd_data s @ sk @ v \<rparr>"
  have add: "iter_add (KeyPrefixFilter mode p) no_values k v s = Done s1"
    unfolding s1_def by (rule iter_add_prefix) (use Cons.prems e xs sk_def in \<open>auto simp: holds_batch_def\<close>)
  have s1: "holds_batch ?cur n s1" "sd_prev s1 = sd_prev s" "sd_mem s1 = ?u"
    using Cons.prems(9) by (auto simp: holds_batch_def s1_def)
  have small: "length ?cur < 4294967296" using Cons.prems(8) xs by simp
  have full: "usize (sd_second s1) = ucast bs \<longleftrightarrow> length ?cur = B"
  proof -
    have "usize (sd_second s1) = ucast bs \<longleftrightarrow> unat (usize (sd_second s1)) = unat (ucast bs :: size_t)"
      by (simp add: word_unat_eq_iff)
    then show ?thesis using s1(1) small Cons.prems(3) by (simp add: holds_batch_def unat_usize unat_ucast_size)
  qed
  have items: "indexed n ?cur = indexed n cur @ [(n + length cur, sk, Some v)]" by simp
  note IH = Cons.IH [OF Cons.prems(1-3) _ _ refl _ _ _ Cons.prems(10), folded xs'_def]
  show ?case
  proof (cases "length ?cur = B")
    case False
    then have "?func k v (Done s) = (OK, Done s1)" using add full by (simp add: on_item_def)
    moreover have "?fin (run_calls ?func es (Done s1))
        = Done (offer_items B ?f (indexed n ?cur) ?r ?u (indexed (n + length ?cur) xs'))"
      unfolding s1(2,3) [symmetric] by (rule IH) (use Cons.prems e xs s1(1) in auto)
    ultimately show ?thesis using False by (simp add: e xs)
  next
      case True
    have send: "send t = (if pending (sd_prev t) \<noteq> YOKAN_SUCCESS then Done (pending (sd_prev t), t\<lparr> sd_prev := None \<rparr>)
       else case offer_all ?f (indexed n ?cur) (sd_mem t) of (ret, u) \<Rightarrow>
         Done (YOKAN_SUCCESS, \<lparr> sd_first = [], sd_second = [], sd_data = [], sd_sent = of_nat (n + length ?cur),
           sd_prev = Some ret, sd_mem = u \<rparr>))" if "holds_batch ?cur n t" for t
      unfolding Cons.prems(10)
      by (rule send_offers [OF Cons.prems(1,2) _ _ that]) (use Cons.prems xs in auto)
    obtain r' u' where offered: "offer_all ?f (indexed n ?cur) ?u = (r', u')" by fastforce
    have sends: "?func k v (Done s) = (case send s1 of Done (ret, t) \<Rightarrow> (ret_status ret, Done t)
        | Undef \<Rightarrow> (Other, Undef) | Hung \<Rightarrow> (Other, Hung))"
      using add full True by (simp add: on_item_def)
    show ?thesis
    proof (cases "?r = YOKAN_SUCCESS")
      case False
      have "holds_batch ?cur n (s1\<lparr> sd_prev := None \<rparr>)" using s1(1) by (simp add: holds_batch_def)
      note again = send [OF this]
      have "?func k v (Done s) = (ret_status ?r, Done (s1\<lparr> sd_prev := None \<rparr>))"
        using False by (simp add: sends send [OF s1(1)] s1(2))
      then show ?thesis
        using False True offered again s1(3)
        by (simp add: e xs iter_end_def items) (simp add: iter_client_def wait_back_to)
    next
      case ok: True
      let ?t = "\<lparr> sd_first = [], sd_second = [], sd_data = [], sd_sent = of_nat (n + length ?cur),
           sd_prev = Some r', sd_mem = u' \<rparr>"
      have "?func k v (Done s) = (OK, Done ?t)"
        using ok offered s1(2,3) by (simp add: sends send [OF s1(1)])
      moreover have "?fin (run_calls ?func es (Done ?t))
          = Done (offer_items B ?f (indexed (n + length ?cur) []) (pending (sd_prev ?t)) (sd_mem ?t)
              (indexed (n + length ?cur + length ([] :: (bytes \<times> bytes) list)) xs'))"
        by (rule IH) (use Cons.prems e xs in \<open>auto simp: holds_batch_def\<close>)
      ultimately show ?thesis using True ok offered by (simp add: e xs items)
    qed
  qed
qed

section \<open>The call\<close>

definition iter_direct_channel :: "bool \<Rightarrow> (mode_t \<Rightarrow> bytes \<Rightarrow> kv_filter) option
    \<Rightarrow> ('u iter_context iter_in, unit, 'u) rpc \<Rightarrow> ('u iter_context pairs_back_in, unit) back_env
    \<Rightarrow> ('u iter_context iter_in, yk_return_t, (pairs kv_db, 'c, 'u) world) channel" where
  "iter_direct_channel has_lua lua R E = channel_to (\<lambda>inp.
     yk_iter_direct_ult (R\<lparr> rpc_input := Some inp \<rparr>) (iter_client E) (map_supportsMode has_lua)
       (makeKeyValueFilter lua (\<lambda>_ _. None)) (map_iter DefaultMemCmp))"

text \<open>A mode whose filter is a prefix.\<close>

definition prefix_mode :: "mode_t \<Rightarrow> bool" where
  "prefix_mode mode \<longleftrightarrow> \<not> has_mode mode YOKAN_MODE_LUA_FILTER \<and> \<not> has_mode mode YOKAN_MODE_LIB_FILTER
     \<and> \<not> has_mode mode YOKAN_MODE_SUFFIX"

text \<open>What an iteration is to deliver: key without its prefix if the mode says so, and value.\<close>

definition iter_pairs :: "mode_t \<Rightarrow> bytes \<Rightarrow> bytes \<Rightarrow> size_t \<Rightarrow> bool \<Rightarrow> pairs \<Rightarrow> (bytes \<times> bytes) list" where
  "iter_pairs mode start p limit no_values es =
     (let ms = listed mode start (starts_with p) fst es in
      map (\<lambda>(k, v). (strip_prefix mode p k, if no_values then [] else v))
        (if limit = 0 then ms else take (unat limit) ms))"

text \<open>
  C13: a direct iteration with a prefix is the abstract iteration over the pairs of the stored map: the
  client's function is offered every pair, in key order with its index, in batches. It shows how far the
  provider runs ahead: after a batch was refused the next one, if it fills up, is offered all the same,
  and a stop is a success only then; a stop in the last full batch comes back as the answer.
\<close>

theorem iter_direct_refines:
  fixes w :: "(pairs kv_db, 'c, 'u) world"
  assumes "w_db w = Some s" "nodes_ok DefaultMemCmp fst (m_db s)" "\<not> m_migrated s"
    and "reaches R a" "be_instance E" "fo_pool opts = None"
    and "map_supportsMode has_lua mode" "mode_valid mode" "prefix_mode mode" "has_mode mode YOKAN_MODE_NO_RDMA"
    and "fits from" "fits p" "\<forall>(k, v) \<in> set (m_db s). fits k"
    and "xs = iter_pairs mode from p limit (io_ignore_values opts) (m_db s)"
    and "fits (pair_data xs)" "length xs < 4294967296"
    and "B = unat (iter_batch_size (fo_batch_size opts) limit)"
  shows "yk_iter (iter_direct_channel has_lua lua R E) C True mode (Some from) (usize from) (Some p) (usize p)
      limit (Some cb) (Some opts) w
    = (case offer_ahead (offer cb) (full_batches B (indexed 0 xs)) (last_items B (indexed 0 xs)) YOKAN_SUCCESS (w_mem w) of
         (ret, u) \<Rightarrow> Done (ret, w\<lparr> w_mem := u \<rparr>))"
proof -
  let ?ctx = "\<lparr> ic_cb = cb, ic_pool = fo_pool opts \<rparr>"
  let ?nv = "io_ignore_values opts"
  let ?bs = "iter_batch_size (fo_batch_size opts) limit"
  let ?send = "iter_direct_send_batch (iter_client E) ?ctx"
  let ?ms = "listed mode from (starts_with p) fst (m_db s)"
  define es where "es = map (\<lambda>e. (fst e, if ?nv then [] else snd e)) (if limit = 0 then ?ms else take (unat limit) ?ms)"
  let ?s0 = "\<lparr> sd_first = [], sd_second = [], sd_data = [], sd_sent = 0, sd_prev = None, sd_mem = w_mem w \<rparr>"
  have filter: "makeKeyValueFilter lua (\<lambda>_ _. None) mode p = Some (KeyPrefixFilter mode p)"
    using assms(9) by (simp add: makeKeyValueFilter_def prefix_mode_def)
  have es: "\<forall>(k, v) \<in> set es. fits k \<and> starts_with p k" "?nv \<longrightarrow> (\<forall>(k, v) \<in> set es. v = [])"
    using assms(13) by (auto simp: es_def listed_def split: if_splits dest!: in_set_takeD)
  have xs: "xs = map (\<lambda>(k, v). (strip_prefix mode p k, v)) es"
    by (simp add: assms(14) iter_pairs_def es_def Let_def comp_def case_prod_unfold)
  have walk: "map_iter DefaultMemCmp mode limit from (KeyPrefixFilter mode p) ?nv func s st
      = Done (run_calls func es st)" for func and st :: "(yk_return_t, 'u) sender outcome"
    unfolding es_def by (rule map_iter_calls [OF assms(2,3) refl])
  have "(case run_calls (\<lambda>key val. on_item ?send ?bs (iter_add (KeyPrefixFilter mode p) ?nv key val)) es (Done ?s0) of
      (st, so) \<Rightarrow> iter_end (iter_client E) ?send st so)
    = Done (offer_items B (offer cb) (indexed 0 []) YOKAN_SUCCESS (w_mem w) (indexed 0 xs))"
    using walk_offers [OF assms(5) _ assms(17) [symmetric] es xs, of ?ctx "[]" 0 ?s0 ?send] assms(6,15,16)
    by (simp add: holds_batch_def)
  note run = this [unfolded indexed_simps(1) offer_items_batches]
  have db: "w\<lparr> w_db := Some s, w_mem := u \<rparr> = w\<lparr> w_mem := u \<rparr>" for u using assms(1) by simp
  show ?thesis
    using assms(1,4,7,8,10-12) filter run
    by (simp add: yk_iter_def iter_direct_channel_def simple_rpc_to yk_iter_direct_ult_def iter_op_ult_def
        handler_input_def check_database_def reaches_def walk run_iter_end case_prod_unfold db)
qed

text \<open>A function that stops the first time, and keeps what it gets.\<close>

definition stop_once :: "(size_t \<times> bytes \<times> size_t \<times> bytes) list kv_callback" where
  "stop_once i k n v u = (if u = [] then YOKAN_STOP_ITERATION else YOKAN_SUCCESS, u @ [(i, k, n, v)])"

text \<open>Three pairs in batches of one: the function is called again after it stopped, and not a third time.\<close>

theorem iter_direct_refines_witness:
  "yk_iter (iter_direct_channel False None near_rpc near_client)
     (iter_direct_channel False None near_rpc near_client) True YOKAN_MODE_NO_RDMA (Some []) 0 (Some []) 0 0
     (Some stop_once) (Some \<lparr> fo_pool = None, fo_batch_size = 1, io_ignore_values = False \<rparr>)
     \<lparr> w_db = Some (map_db [([1], [5]), ([2], [6]), ([3], [])]), w_cache = (), w_mem = [] \<rparr>
   = Done (YOKAN_SUCCESS, \<lparr> w_db = Some (map_db [([1], [5]), ([2], [6]), ([3], [])]), w_cache = (),
       w_mem = [(0, [1], 1, [5]), (1, [2], 1, [6])] \<rparr>)"
proof -
  let ?es = "[([1 :: byte], [5 :: byte]), ([2], [6]), ([3], [])]"
  let ?s = "map_db ?es"
  let ?o = "\<lparr> fo_pool = None, fo_batch_size = 1, io_ignore_values = False \<rparr>"
  have m: "map_supportsMode False YOKAN_MODE_NO_RDMA" "mode_valid YOKAN_MODE_NO_RDMA" "prefix_mode YOKAN_MODE_NO_RDMA"
    "has_mode YOKAN_MODE_NO_RDMA YOKAN_MODE_NO_RDMA"
    by code_simp+
  have r: "nodes_ok DefaultMemCmp fst (m_db ?s)" "\<not> m_migrated ?s" "\<forall>(k, v) \<in> set (m_db ?s). fits k"
    "fo_pool ?o = None" "fits ([] :: bytes)"
    by (simp_all add: nodes_ok_def map_db_def DefaultMemCmp_def)
  have xs: "iter_pairs YOKAN_MODE_NO_RDMA [] [] 0 (io_ignore_values ?o) (m_db ?s) = ?es"
    by code_simp
  have B: "unat (iter_batch_size (fo_batch_size ?o) 0) = 1" by (simp add: iter_batch_size_def)
  have parts: "full_batches 1 (indexed 0 ?es) = [[(0, [1], Some [5])], [(1, [2], Some [6])], [(2, [3], Some [])]]"
    "last_items 1 (indexed 0 ?es) = []"
    by (simp_all add: full_batches_def last_items_def batch_of_def upt_rec)
  show ?thesis
    using iter_direct_refines [OF _ r(1,2) near_reaches r(4) m r(5,5,3) xs [symmetric] _ _ B [symmetric],
        of "\<lparr> w_db = Some ?s, w_cache = (), w_mem = [] \<rparr>" None _ stop_once, unfolded parts]
    by (simp add: stop_once_def usize_def entry_size_def entry_data_def)
qed

end
