(* ===== verification/LsmEngine.thy ===== *)
theory LsmEngine
  imports KvEngine Listing
begin

unbundle bit_operations_syntax

text \<open>
  The backends of leveldb.cpp and rocksdb.cpp, whose bodies are the same over two stores that are not in
  the repository. The store is the record \<open>store\<close>: what \<open>Get\<close>, \<open>Put\<close>, \<open>Write\<close> and an iterator do is an
  argument of every operation, and any status is possible.
\<close>

section \<open>The store\<close>

datatype store_status = SOk | SNotFound | SCorruption | SNotSupported | SInvalidArgument | SIOError
  | SIncomplete | STimedOut | SAborted | SBusy | SExpired | STryAgain | SOther

text \<open>
  \<open>st_scan\<close> lists the entries that an iterator passes after \<open>SeekToFirst\<close> or \<open>Seek\<close>; \<open>st_remove\<close> is the
  store once its directory is gone.
\<close>

record 'd store =
  st_get :: "bytes \<Rightarrow> 'd \<Rightarrow> store_status \<times> bytes"
  st_put :: "bytes \<Rightarrow> bytes \<Rightarrow> 'd \<Rightarrow> store_status \<times> 'd"
  st_write :: "(bytes \<times> bytes option) list \<Rightarrow> 'd \<Rightarrow> store_status \<times> 'd"
  st_scan :: "bytes option \<Rightarrow> 'd \<Rightarrow> (bytes \<times> bytes) list"
  st_remove :: "'d \<Rightarrow> 'd"

definition leveldb_convertStatus :: "store_status \<Rightarrow> status" where
  "leveldb_convertStatus st = (case st of
     SOk \<Rightarrow> OK | SNotFound \<Rightarrow> NotFound | SCorruption \<Rightarrow> Corruption | SIOError \<Rightarrow> IOError
   | SNotSupported \<Rightarrow> NotSupported | SInvalidArgument \<Rightarrow> InvalidArg | _ \<Rightarrow> Other)"

definition rocksdb_convertStatus :: "store_status \<Rightarrow> status" where
  "rocksdb_convertStatus st = (case st of
     SOk \<Rightarrow> OK | SNotFound \<Rightarrow> NotFound | SCorruption \<Rightarrow> Corruption | SNotSupported \<Rightarrow> NotSupported
   | SInvalidArgument \<Rightarrow> InvalidArg | SIOError \<Rightarrow> IOError | SIncomplete \<Rightarrow> Incomplete
   | STimedOut \<Rightarrow> TimedOut | SAborted \<Rightarrow> Aborted | SBusy \<Rightarrow> Busy | SExpired \<Rightarrow> Expired
   | STryAgain \<Rightarrow> TryAgain | SOther \<Rightarrow> Other)"

record 'd lsm_db =
  ls_store :: 'd
  ls_migrated :: bool
  ls_write_batch :: bool

definition lsm_supportsMode :: "bool \<Rightarrow> mode_t \<Rightarrow> bool" where
  "lsm_supportsMode has_lua mode = within_mask mode
     (YOKAN_MODE_INCLUSIVE OR YOKAN_MODE_CONSUME OR YOKAN_MODE_NO_PREFIX OR YOKAN_MODE_IGNORE_KEYS
      OR YOKAN_MODE_KEEP_LAST OR YOKAN_MODE_SUFFIX OR (if has_lua then YOKAN_MODE_LUA_FILTER else 0)
      OR YOKAN_MODE_IGNORE_DOCS OR YOKAN_MODE_FILTER_VALUE OR YOKAN_MODE_LIB_FILTER
      OR YOKAN_MODE_NO_RDMA OR YOKAN_MODE_UPDATE_NEW)"

section \<open>exists, length\<close>

definition lsm_count :: "mode_t \<Rightarrow> 'd lsm_db \<Rightarrow> status" where
  "lsm_count mode s = (if ls_migrated s then Migrated else NotSupported)"

text \<open>An error of the store is an absent key here.\<close>

fun lsm_exists_loop :: "'d store \<Rightarrow> umem \<Rightarrow> size_t list \<Rightarrow> size_t \<Rightarrow> nat \<Rightarrow> bitfield \<Rightarrow> 'd
    \<Rightarrow> (status \<times> bitfield) outcome" where
  "lsm_exists_loop A keys [] offset i flags d = Done (OK, flags)"
| "lsm_exists_loop A keys (ksize # ksizes) offset i flags d =
     (if offset + ksize > usize (um_data keys) then Done (InvalidArg, flags)
      else obind (sub_umem keys offset ksize) (\<lambda>key.
        obind (bf_set flags i (fst (st_get A (um_data key) d) = SOk)) (\<lambda>flags.
          lsm_exists_loop A keys ksizes (offset + ksize) (Suc i) flags d)))"

definition lsm_exists :: "'d store \<Rightarrow> mode_t \<Rightarrow> umem \<Rightarrow> size_t list \<Rightarrow> bitfield \<Rightarrow> 'd lsm_db
    \<Rightarrow> (status \<times> bitfield) outcome" where
  "lsm_exists A mode keys ksizes flags s =
     (if ls_migrated s then Done (Migrated, flags)
      else if usize ksizes > bf_size flags then Done (InvalidArg, flags)
      else lsm_exists_loop A keys ksizes 0 0 flags (ls_store s))"

fun lsm_length_loop :: "'d store \<Rightarrow> (store_status \<Rightarrow> status) \<Rightarrow> umem \<Rightarrow> size_t list \<Rightarrow> size_t \<Rightarrow> nat
    \<Rightarrow> size_t list \<Rightarrow> 'd \<Rightarrow> (status \<times> size_t list) outcome" where
  "lsm_length_loop A convertStatus keys [] offset i vsizes d = Done (OK, vsizes)"
| "lsm_length_loop A convertStatus keys (ksize # ksizes) offset i vsizes d =
     (if offset + ksize > usize (um_data keys) then Done (InvalidArg, vsizes)
      else obind (sub_umem keys offset ksize) (\<lambda>key.
        case st_get A (um_data key) d of (st, v) \<Rightarrow>
          if st = SOk then
            lsm_length_loop A convertStatus keys ksizes (offset + ksize) (Suc i) (vsizes[i := usize v]) d
          else if st = SNotFound then
            lsm_length_loop A convertStatus keys ksizes (offset + ksize) (Suc i) (vsizes[i := YOKAN_KEY_NOT_FOUND]) d
          else Done (convertStatus st, vsizes)))"

definition lsm_length :: "'d store \<Rightarrow> (store_status \<Rightarrow> status) \<Rightarrow> mode_t \<Rightarrow> umem \<Rightarrow> size_t list
    \<Rightarrow> size_t list \<Rightarrow> 'd lsm_db \<Rightarrow> (status \<times> size_t list) outcome" where
  "lsm_length A convertStatus mode keys ksizes vsizes s =
     (if ls_migrated s then Done (Migrated, vsizes)
      else if length ksizes > length vsizes then Done (InvalidArg, vsizes)
      else lsm_length_loop A convertStatus keys ksizes 0 0 vsizes (ls_store s))"

section \<open>put, erase\<close>

text \<open>The batch takes copies of the pairs.\<close>

fun lsm_batch :: "umem \<Rightarrow> bytes \<Rightarrow> (size_t \<times> size_t) list \<Rightarrow> size_t \<Rightarrow> size_t
    \<Rightarrow> (bytes \<times> bytes option) list outcome" where
  "lsm_batch keys vals [] key_offset val_offset = Done []"
| "lsm_batch keys vals ((ksize, vsize) # rest) key_offset val_offset =
     obind (sub_umem keys key_offset ksize) (\<lambda>key. obind (sub_bytes vals val_offset vsize) (\<lambda>val.
       obind (lsm_batch keys vals rest (key_offset + ksize) (val_offset + vsize)) (\<lambda>wb.
         Done ((um_data key, Some val) # wb))))"

fun lsm_put_loop :: "'d store \<Rightarrow> (store_status \<Rightarrow> status) \<Rightarrow> umem \<Rightarrow> bytes \<Rightarrow> (size_t \<times> size_t) list
    \<Rightarrow> size_t \<Rightarrow> size_t \<Rightarrow> 'd \<Rightarrow> (status \<times> 'd) outcome" where
  "lsm_put_loop A convertStatus keys vals [] key_offset val_offset d = Done (OK, d)"
| "lsm_put_loop A convertStatus keys vals ((ksize, vsize) # rest) key_offset val_offset d =
     obind (sub_umem keys key_offset ksize) (\<lambda>key. obind (sub_bytes vals val_offset vsize) (\<lambda>val.
       case st_put A (um_data key) val d of (st, d) \<Rightarrow>
         if st \<noteq> SOk then Done (convertStatus st, d)
         else lsm_put_loop A convertStatus keys vals rest (key_offset + ksize) (val_offset + vsize) d))"

definition lsm_put :: "'d store \<Rightarrow> (store_status \<Rightarrow> status) \<Rightarrow> mode_t \<Rightarrow> umem \<Rightarrow> size_t list \<Rightarrow> bytes
    \<Rightarrow> size_t list \<Rightarrow> 'd lsm_db \<Rightarrow> (status \<times> 'd lsm_db) outcome" where
  "lsm_put A convertStatus mode keys ksizes vals vsizes s =
     (if ls_migrated s then Done (Migrated, s)
      else if length ksizes \<noteq> length vsizes then Done (InvalidArg, s)
      else if accumulate ksizes > usize (um_data keys) then Done (InvalidArg, s)
      else if accumulate vsizes > usize vals then Done (InvalidArg, s)
      else if ls_write_batch s then
        obind (lsm_batch keys vals (zip ksizes vsizes) 0 0) (\<lambda>wb.
          case st_write A wb (ls_store s) of (st, d) \<Rightarrow> Done (convertStatus st, s\<lparr> ls_store := d \<rparr>))
      else
        obind (lsm_put_loop A convertStatus keys vals (zip ksizes vsizes) 0 0 (ls_store s)) (\<lambda>(st, d).
          Done (st, s\<lparr> ls_store := d \<rparr>)))"

fun lsm_erase_loop :: "umem \<Rightarrow> size_t list \<Rightarrow> size_t \<Rightarrow> (bytes \<times> bytes option) list
    \<Rightarrow> (bytes \<times> bytes option) list option outcome" where
  "lsm_erase_loop keys [] offset wb = Done (Some wb)"
| "lsm_erase_loop keys (ksize # ksizes) offset wb =
     (if offset + ksize > usize (um_data keys) then Done None
      else obind (sub_umem keys offset ksize) (\<lambda>key.
        lsm_erase_loop keys ksizes (offset + ksize) (wb @ [(um_data key, None)])))"

definition lsm_erase :: "'d store \<Rightarrow> (store_status \<Rightarrow> status) \<Rightarrow> mode_t \<Rightarrow> umem \<Rightarrow> size_t list
    \<Rightarrow> 'd lsm_db \<Rightarrow> (status \<times> 'd lsm_db) outcome" where
  "lsm_erase A convertStatus mode keys ksizes s =
     (if ls_migrated s then Done (Migrated, s)
      else obind (lsm_erase_loop keys ksizes 0 []) (\<lambda>r. case r of
        None \<Rightarrow> Done (InvalidArg, s)
      | Some wb \<Rightarrow> (case st_write A wb (ls_store s) of (st, d) \<Rightarrow>
          Done (convertStatus st, s\<lparr> ls_store := d \<rparr>))))"

section \<open>get, fetch\<close>

fun lsm_get_loop :: "'d store \<Rightarrow> (store_status \<Rightarrow> status) \<Rightarrow> umem \<Rightarrow> size_t list \<Rightarrow> nat \<Rightarrow> size_t \<Rightarrow> size_t
    \<Rightarrow> get_out \<Rightarrow> 'd \<Rightarrow> (status \<times> get_out) outcome" where
  "lsm_get_loop A convertStatus keys [] i key_offset val_offset out d = Done (OK, out)"
| "lsm_get_loop A convertStatus keys (ksize # ksizes) i key_offset val_offset out d =
     (let original_vsize = g_vsizes out ! i in
      obind (sub_umem keys key_offset ksize) (\<lambda>key.
      case st_get A (um_data key) d of (st, v) \<Rightarrow>
        if st = SNotFound then
          lsm_get_loop A convertStatus keys ksizes (Suc i) (key_offset + ksize) (val_offset + original_vsize)
            (out\<lparr> g_vsizes := (g_vsizes out)[i := YOKAN_KEY_NOT_FOUND] \<rparr>) d
        else if st = SOk then
          (if usize v > original_vsize then
             lsm_get_loop A convertStatus keys ksizes (Suc i) (key_offset + ksize) (val_offset + original_vsize)
               (out\<lparr> g_vsizes := (g_vsizes out)[i := YOKAN_SIZE_TOO_SMALL] \<rparr>) d
           else
             obind (memcpy_to (g_vals out) val_offset v) (\<lambda>vals.
               lsm_get_loop A convertStatus keys ksizes (Suc i) (key_offset + ksize) (val_offset + original_vsize)
                 (out\<lparr> g_vals := vals, g_vsizes := (g_vsizes out)[i := usize v] \<rparr>) d))
        else Done (convertStatus st, out)))"

text \<open>
  The first value that does not fit marks all that follow, found or not. The index is past the end then,
  and the loop still adds \<open>ksizes[i]\<close> to its offset: \<open>past\<close> is that read behind the array. An error of
  the store is converted and dropped here, which leaves the size the caller passed.
\<close>

fun lsm_get_packed_loop :: "'d store \<Rightarrow> size_t outcome \<Rightarrow> umem \<Rightarrow> size_t list \<Rightarrow> nat \<Rightarrow> size_t \<Rightarrow> size_t
    \<Rightarrow> size_t \<Rightarrow> get_out \<Rightarrow> 'd \<Rightarrow> get_out outcome" where
  "lsm_get_packed_loop A past keys [] i key_offset val_offset remaining out d =
     Done (out\<lparr> g_size := g_size out - remaining \<rparr>)"
| "lsm_get_packed_loop A past keys (ksize # ksizes) i key_offset val_offset remaining out d =
     obind (sub_umem keys key_offset ksize) (\<lambda>key.
     case st_get A (um_data key) d of (st, v) \<Rightarrow>
       if st = SNotFound then
         lsm_get_packed_loop A past keys ksizes (Suc i) (key_offset + ksize) val_offset remaining
           (out\<lparr> g_vsizes := (g_vsizes out)[i := YOKAN_KEY_NOT_FOUND] \<rparr>) d
       else if st = SOk then
         (if usize v > remaining then
            obind past (\<lambda>_. Done (out\<lparr> g_size := g_size out - remaining,
              g_vsizes := take i (g_vsizes out) @ replicate (Suc (length ksizes)) YOKAN_SIZE_TOO_SMALL \<rparr>))
          else
            obind (memcpy_to (g_vals out) val_offset v) (\<lambda>vals.
              lsm_get_packed_loop A past keys ksizes (Suc i) (key_offset + ksize) (val_offset + usize v)
                (remaining - usize v)
                (out\<lparr> g_vals := vals, g_vsizes := (g_vsizes out)[i := usize v] \<rparr>) d))
       else
         lsm_get_packed_loop A past keys ksizes (Suc i) (key_offset + ksize) val_offset remaining out d)"

definition lsm_get :: "'d store \<Rightarrow> (store_status \<Rightarrow> status) \<Rightarrow> size_t outcome \<Rightarrow> mode_t \<Rightarrow> bool \<Rightarrow> umem
    \<Rightarrow> size_t list \<Rightarrow> bytes \<Rightarrow> size_t list \<Rightarrow> 'd lsm_db \<Rightarrow> (status \<times> get_out \<times> 'd lsm_db) outcome" where
  "lsm_get A convertStatus past mode packed keys ksizes vals vsizes s =
     (let out = \<lparr> g_vals = vals, g_size = usize vals, g_vsizes = vsizes \<rparr> in
      if ls_migrated s then Done (Migrated, out, s)
      else if length ksizes \<noteq> length vsizes then Done (InvalidArg, out, s)
      else
        obind (if packed
               then obind (lsm_get_packed_loop A past keys ksizes 0 0 0 (usize vals) out (ls_store s))
                      (\<lambda>out. Done (OK, out))
               else lsm_get_loop A convertStatus keys ksizes 0 0 0 out (ls_store s)) (\<lambda>(st, out).
        if st \<noteq> OK then Done (st, out, s)
        else if has_mode mode YOKAN_MODE_CONSUME then
          obind (lsm_erase A convertStatus mode keys ksizes s) (\<lambda>(st, s). Done (st, out, s))
        else Done (OK, out, s)))"

fun lsm_fetch_loop :: "'d store \<Rightarrow> (store_status \<Rightarrow> status) \<Rightarrow> umem \<Rightarrow> size_t list \<Rightarrow> 'st fetch_cb \<Rightarrow> size_t
    \<Rightarrow> 'st \<Rightarrow> 'd \<Rightarrow> (status \<times> 'st) outcome" where
  "lsm_fetch_loop A convertStatus keys [] func key_offset st d = Done (OK, st)"
| "lsm_fetch_loop A convertStatus keys (ksize # ksizes) func key_offset st d =
     obind (sub_umem keys key_offset ksize) (\<lambda>key.
     case st_get A (um_data key) d of (status, v) \<Rightarrow>
       if status \<noteq> SOk \<and> status \<noteq> SNotFound then Done (convertStatus status, st)
       else (case func (um_data key) (if status = SOk then Some v else None) st of (func_status, st) \<Rightarrow>
         if func_status \<noteq> OK then Done (func_status, st)
         else lsm_fetch_loop A convertStatus keys ksizes func (key_offset + ksize) st d))"

definition lsm_fetch :: "'d store \<Rightarrow> (store_status \<Rightarrow> status) \<Rightarrow> mode_t \<Rightarrow> umem \<Rightarrow> size_t list \<Rightarrow> 'st fetch_cb
    \<Rightarrow> 'st \<Rightarrow> 'd lsm_db \<Rightarrow> (status \<times> 'st \<times> 'd lsm_db) outcome" where
  "lsm_fetch A convertStatus mode keys ksizes func st s =
     (if ls_migrated s then Done (Migrated, st, s)
      else obind (lsm_fetch_loop A convertStatus keys ksizes func 0 st (ls_store s)) (\<lambda>(status, st).
        if status \<noteq> OK then Done (status, st, s)
        else if has_mode mode YOKAN_MODE_CONSUME then
          obind (lsm_erase A convertStatus mode keys ksizes s) (\<lambda>(status, s). Done (status, st, s))
        else Done (OK, st, s)))"

end
