(* ===== verification/LsmListing.thy ===== *)
theory LsmListing
  imports LsmEngine
begin

text \<open>
  \<open>listKeys\<close>, \<open>listKeyValues\<close>, \<open>iter\<close> and the migration of leveldb.cpp and rocksdb.cpp, and the two
  backends.
\<close>

section \<open>The start of a walk\<close>

definition lsm_start :: "'d store \<Rightarrow> mode_t \<Rightarrow> bytes \<Rightarrow> 'd \<Rightarrow> (bytes \<times> bytes) list" where
  "lsm_start A mode fromKey d =
     (if length fromKey = 0 then st_scan A None d
      else case st_scan A (Some fromKey) d of
        [] \<Rightarrow> []
      | (k, v) # es \<Rightarrow> if \<not> has_mode mode YOKAN_MODE_INCLUSIVE \<and> k = fromKey then es else (k, v) # es)"

text \<open>
  When nothing is found from the key on, the sizes are filled by a loop with an \<open>unsigned\<close> index.
\<close>

definition nothing_from :: "'d store \<Rightarrow> bytes \<Rightarrow> 'd \<Rightarrow> bool" where
  "nothing_from A fromKey d \<longleftrightarrow> length fromKey \<noteq> 0 \<and> st_scan A (Some fromKey) d = []"

section \<open>listKeys\<close>

text \<open>The rest of the sizes when the buffer is full.\<close>

definition all_too_small :: "nat \<Rightarrow> slots \<Rightarrow> slots" where
  "all_too_small i sl = sl\<lparr> sl_sizes := take i (sl_sizes sl)
     @ replicate (length (sl_sizes sl) - i) YOKAN_SIZE_TOO_SMALL \<rparr>"

text \<open>The last key is the one in the last slot, not the last that there is.\<close>

fun lsm_keys_loop :: "mode_t \<Rightarrow> bool \<Rightarrow> kv_filter \<Rightarrow> nat \<Rightarrow> (bytes \<times> bytes) list \<Rightarrow> nat \<Rightarrow> slots
    \<Rightarrow> (nat \<times> slots) outcome" where
  "lsm_keys_loop mode packed F limit [] i sl = Done (i, sl)"
| "lsm_keys_loop mode packed F limit ((k, v) # es) i sl =
     (if \<not> i < limit then Done (i, sl)
      else if \<not> f_check F k v then
        obind (f_stop F k v) (\<lambda>stop.
          if stop then Done (i, sl) else lsm_keys_loop mode packed F limit es i sl)
      else
        obind (list_slot packed (\<lambda>d off room. keyCopy mode (i + 1 = limit) F d off room k) i sl) (\<lambda>sl'.
          if packed \<and> sl_full sl' then Done (limit, all_too_small i sl')
          else lsm_keys_loop mode packed F limit es (i + 1) sl'))"

definition lsm_listKeys :: "'d store \<Rightarrow> mode_t \<Rightarrow> bool \<Rightarrow> bytes \<Rightarrow> kv_filter \<Rightarrow> bytes \<Rightarrow> size_t list
    \<Rightarrow> 'd lsm_db \<Rightarrow> (status \<times> get_out) outcome" where
  "lsm_listKeys A mode packed fromKey F keys keySizes s =
     (if ls_migrated s then Done (Migrated, \<lparr> g_vals = keys, g_size = usize keys, g_vsizes = keySizes \<rparr>)
      else if nothing_from A fromKey (ls_store s) \<and> length keySizes \<ge> 4294967296 then Hung
      else
        obind (lsm_keys_loop mode packed F (length keySizes) (lsm_start A mode fromKey (ls_store s)) 0
                 \<lparr> sl_data = keys, sl_sizes = keySizes, sl_off = 0, sl_full = False \<rparr>) (\<lambda>(i, sl).
          Done (OK, \<lparr> g_vals = sl_data sl, g_size = sl_off sl, g_vsizes = fill_rest i (sl_sizes sl) \<rparr>)))"

section \<open>listKeyValues\<close>

text \<open>\<open>valSizes\<close> has as many slots as \<open>keySizes\<close>, as every caller passes them.\<close>

fun lsm_kvs_loop :: "mode_t \<Rightarrow> bool \<Rightarrow> kv_filter \<Rightarrow> nat \<Rightarrow> (bytes \<times> bytes) list \<Rightarrow> nat \<Rightarrow> slots \<Rightarrow> slots
    \<Rightarrow> (nat \<times> slots \<times> slots) outcome" where
  "lsm_kvs_loop mode packed F limit [] i ks vs = Done (i, ks, vs)"
| "lsm_kvs_loop mode packed F limit ((k, v) # es) i ks vs =
     (if \<not> i < limit then Done (i, ks, vs)
      else if \<not> f_check F k v then
        obind (f_stop F k v) (\<lambda>stop.
          if stop then Done (i, ks, vs) else lsm_kvs_loop mode packed F limit es i ks vs)
      else
        obind (list_slot packed (\<lambda>d off room. keyCopy mode (i + 1 = limit) F d off room k) i ks) (\<lambda>ks'.
        obind (list_slot packed (\<lambda>d off room. f_val_copy F d off room v) i vs) (\<lambda>vs'.
          if packed \<and> sl_full ks' \<and> sl_full vs' then Done (limit, all_too_small i ks', all_too_small i vs')
          else lsm_kvs_loop mode packed F limit es (i + 1) ks' vs')))"

definition lsm_listKeyValues :: "'d store \<Rightarrow> mode_t \<Rightarrow> bool \<Rightarrow> bytes \<Rightarrow> kv_filter \<Rightarrow> bytes \<Rightarrow> size_t list
    \<Rightarrow> bytes \<Rightarrow> size_t list \<Rightarrow> 'd lsm_db \<Rightarrow> (status \<times> get_out \<times> get_out) outcome" where
  "lsm_listKeyValues A mode packed fromKey F keys keySizes vals valSizes s =
     (if ls_migrated s then
        Done (Migrated, \<lparr> g_vals = keys, g_size = usize keys, g_vsizes = keySizes \<rparr>,
          \<lparr> g_vals = vals, g_size = usize vals, g_vsizes = valSizes \<rparr>)
      else if nothing_from A fromKey (ls_store s) \<and> length keySizes \<ge> 4294967296 then Hung
      else
        obind (lsm_kvs_loop mode packed F (length keySizes) (lsm_start A mode fromKey (ls_store s)) 0
                 \<lparr> sl_data = keys, sl_sizes = keySizes, sl_off = 0, sl_full = False \<rparr>
                 \<lparr> sl_data = vals, sl_sizes = valSizes, sl_off = 0, sl_full = False \<rparr>) (\<lambda>(i, ks, vs).
          Done (OK, \<lparr> g_vals = sl_data ks, g_size = sl_off ks, g_vsizes = fill_rest i (sl_sizes ks) \<rparr>,
            \<lparr> g_vals = sl_data vs, g_size = sl_off vs, g_vsizes = fill_rest i (sl_sizes vs) \<rparr>)))"

section \<open>iter\<close>

fun lsm_iter_loop :: "kv_filter \<Rightarrow> bool \<Rightarrow> nat \<Rightarrow> (bytes \<Rightarrow> bytes \<Rightarrow> 'st \<Rightarrow> status \<times> 'st)
    \<Rightarrow> (bytes \<times> bytes) list \<Rightarrow> nat \<Rightarrow> 'st \<Rightarrow> (status \<times> 'st) outcome" where
  "lsm_iter_loop F ignore_values limit func [] i st = Done (OK, st)"
| "lsm_iter_loop F ignore_values limit func ((k, v) # es) i st =
     (if \<not> (limit = 0 \<or> i < limit) then Done (OK, st)
      else if \<not> f_check F k v then
        obind (f_stop F k v) (\<lambda>stop.
          if stop then Done (OK, st) else lsm_iter_loop F ignore_values limit func es i st)
      else (case func k (if ignore_values then [] else v) st of (status, st') \<Rightarrow>
        if status \<noteq> OK then Done (status, st')
        else lsm_iter_loop F ignore_values limit func es (i + 1) st'))"

definition lsm_iter :: "'d store \<Rightarrow> mode_t \<Rightarrow> size_t \<Rightarrow> bytes \<Rightarrow> kv_filter \<Rightarrow> bool
    \<Rightarrow> (bytes \<Rightarrow> bytes \<Rightarrow> 'st \<Rightarrow> status \<times> 'st) \<Rightarrow> 'd lsm_db \<Rightarrow> 'st \<Rightarrow> (status \<times> 'st) outcome" where
  "lsm_iter A mode limit fromKey F ignore_values func s st =
     (if ls_migrated s then Done (Migrated, st)
      else lsm_iter_loop F ignore_values (unat limit) func (lsm_start A mode fromKey (ls_store s)) 0 st)"

section \<open>Migration\<close>

definition lsm_startMigration :: "'d lsm_db \<Rightarrow> status" where
  "lsm_startMigration s = (if ls_migrated s then Migrated else OK)"

definition lsm_endMigration :: "'d store \<Rightarrow> bool \<Rightarrow> 'd lsm_db \<Rightarrow> 'd lsm_db" where
  "lsm_endMigration A cancel s =
     (if cancel then s else s\<lparr> ls_store := st_remove A (ls_store s), ls_migrated := True \<rparr>)"

definition lsm_destroy :: "'d store \<Rightarrow> 'd lsm_db \<Rightarrow> 'd lsm_db" where
  "lsm_destroy A s = (if ls_migrated s then s else s\<lparr> ls_store := st_remove A (ls_store s) \<rparr>)"

section \<open>LevelDBDatabase\<close>

definition leveldb_supportsMode :: "bool \<Rightarrow> mode_t \<Rightarrow> bool" where
  "leveldb_supportsMode has_lua mode = lsm_supportsMode has_lua mode"

definition leveldb_destroy :: "'d store \<Rightarrow> 'd lsm_db \<Rightarrow> 'd lsm_db" where
  "leveldb_destroy A s = lsm_destroy A s"

definition leveldb_count :: "mode_t \<Rightarrow> 'd lsm_db \<Rightarrow> status" where
  "leveldb_count mode s = lsm_count mode s"

definition leveldb_exists :: "'d store \<Rightarrow> mode_t \<Rightarrow> umem \<Rightarrow> size_t list \<Rightarrow> bitfield \<Rightarrow> 'd lsm_db
    \<Rightarrow> (status \<times> bitfield) outcome" where
  "leveldb_exists A mode keys ksizes flags s = lsm_exists A mode keys ksizes flags s"

definition leveldb_length :: "'d store \<Rightarrow> mode_t \<Rightarrow> umem \<Rightarrow> size_t list \<Rightarrow> size_t list \<Rightarrow> 'd lsm_db
    \<Rightarrow> (status \<times> size_t list) outcome" where
  "leveldb_length A mode keys ksizes vsizes s =
     lsm_length A leveldb_convertStatus mode keys ksizes vsizes s"

definition leveldb_put :: "'d store \<Rightarrow> mode_t \<Rightarrow> umem \<Rightarrow> size_t list \<Rightarrow> bytes \<Rightarrow> size_t list \<Rightarrow> 'd lsm_db
    \<Rightarrow> (status \<times> 'd lsm_db) outcome" where
  "leveldb_put A mode keys ksizes vals vsizes s =
     lsm_put A leveldb_convertStatus mode keys ksizes vals vsizes s"

definition leveldb_get :: "'d store \<Rightarrow> size_t outcome \<Rightarrow> mode_t \<Rightarrow> bool \<Rightarrow> umem \<Rightarrow> size_t list \<Rightarrow> bytes \<Rightarrow> size_t list
    \<Rightarrow> 'd lsm_db \<Rightarrow> (status \<times> get_out \<times> 'd lsm_db) outcome" where
  "leveldb_get A past mode packed keys ksizes vals vsizes s =
     lsm_get A leveldb_convertStatus past mode packed keys ksizes vals vsizes s"

definition leveldb_fetch :: "'d store \<Rightarrow> mode_t \<Rightarrow> umem \<Rightarrow> size_t list \<Rightarrow> 'st fetch_cb \<Rightarrow> 'st \<Rightarrow> 'd lsm_db
    \<Rightarrow> (status \<times> 'st \<times> 'd lsm_db) outcome" where
  "leveldb_fetch A mode keys ksizes func st s =
     lsm_fetch A leveldb_convertStatus mode keys ksizes func st s"

definition leveldb_erase :: "'d store \<Rightarrow> mode_t \<Rightarrow> umem \<Rightarrow> size_t list \<Rightarrow> 'd lsm_db \<Rightarrow> (status \<times> 'd lsm_db) outcome" where
  "leveldb_erase A mode keys ksizes s = lsm_erase A leveldb_convertStatus mode keys ksizes s"

definition leveldb_listKeys :: "'d store \<Rightarrow> mode_t \<Rightarrow> bool \<Rightarrow> bytes \<Rightarrow> kv_filter \<Rightarrow> bytes \<Rightarrow> size_t list \<Rightarrow> 'd lsm_db
    \<Rightarrow> (status \<times> get_out) outcome" where
  "leveldb_listKeys A mode packed fromKey F keys keySizes s =
     lsm_listKeys A mode packed fromKey F keys keySizes s"

definition leveldb_listKeyValues :: "'d store \<Rightarrow> mode_t \<Rightarrow> bool \<Rightarrow> bytes \<Rightarrow> kv_filter \<Rightarrow> bytes \<Rightarrow> size_t list \<Rightarrow> bytes
    \<Rightarrow> size_t list \<Rightarrow> 'd lsm_db \<Rightarrow> (status \<times> get_out \<times> get_out) outcome" where
  "leveldb_listKeyValues A mode packed fromKey F keys keySizes vals valSizes s =
     lsm_listKeyValues A mode packed fromKey F keys keySizes vals valSizes s"

definition leveldb_iter :: "'d store \<Rightarrow> mode_t \<Rightarrow> size_t \<Rightarrow> bytes \<Rightarrow> kv_filter \<Rightarrow> bool
    \<Rightarrow> (bytes \<Rightarrow> bytes \<Rightarrow> 'st \<Rightarrow> status \<times> 'st) \<Rightarrow> 'd lsm_db \<Rightarrow> 'st \<Rightarrow> (status \<times> 'st) outcome" where
  "leveldb_iter A mode limit fromKey F ignore_values func s st =
     lsm_iter A mode limit fromKey F ignore_values func s st"

definition leveldb_startMigration :: "'d lsm_db \<Rightarrow> status" where
  "leveldb_startMigration s = lsm_startMigration s"

definition leveldb_endMigration :: "'d store \<Rightarrow> bool \<Rightarrow> 'd lsm_db \<Rightarrow> 'd lsm_db" where
  "leveldb_endMigration A cancel s = lsm_endMigration A cancel s"

section \<open>RocksDBDatabase\<close>

text \<open>\<open>destroy\<close> also closes the store: no other operation follows it.\<close>

definition rocksdb_supportsMode :: "bool \<Rightarrow> mode_t \<Rightarrow> bool" where
  "rocksdb_supportsMode has_lua mode = lsm_supportsMode has_lua mode"

definition rocksdb_destroy :: "'d store \<Rightarrow> 'd lsm_db \<Rightarrow> 'd lsm_db" where
  "rocksdb_destroy A s = lsm_destroy A s"

definition rocksdb_count :: "mode_t \<Rightarrow> 'd lsm_db \<Rightarrow> status" where
  "rocksdb_count mode s = lsm_count mode s"

definition rocksdb_exists :: "'d store \<Rightarrow> mode_t \<Rightarrow> umem \<Rightarrow> size_t list \<Rightarrow> bitfield \<Rightarrow> 'd lsm_db
    \<Rightarrow> (status \<times> bitfield) outcome" where
  "rocksdb_exists A mode keys ksizes flags s = lsm_exists A mode keys ksizes flags s"

definition rocksdb_length :: "'d store \<Rightarrow> mode_t \<Rightarrow> umem \<Rightarrow> size_t list \<Rightarrow> size_t list \<Rightarrow> 'd lsm_db
    \<Rightarrow> (status \<times> size_t list) outcome" where
  "rocksdb_length A mode keys ksizes vsizes s =
     lsm_length A rocksdb_convertStatus mode keys ksizes vsizes s"

definition rocksdb_put :: "'d store \<Rightarrow> mode_t \<Rightarrow> umem \<Rightarrow> size_t list \<Rightarrow> bytes \<Rightarrow> size_t list \<Rightarrow> 'd lsm_db
    \<Rightarrow> (status \<times> 'd lsm_db) outcome" where
  "rocksdb_put A mode keys ksizes vals vsizes s =
     lsm_put A rocksdb_convertStatus mode keys ksizes vals vsizes s"

definition rocksdb_get :: "'d store \<Rightarrow> size_t outcome \<Rightarrow> mode_t \<Rightarrow> bool \<Rightarrow> umem \<Rightarrow> size_t list \<Rightarrow> bytes \<Rightarrow> size_t list
    \<Rightarrow> 'd lsm_db \<Rightarrow> (status \<times> get_out \<times> 'd lsm_db) outcome" where
  "rocksdb_get A past mode packed keys ksizes vals vsizes s =
     lsm_get A rocksdb_convertStatus past mode packed keys ksizes vals vsizes s"

definition rocksdb_fetch :: "'d store \<Rightarrow> mode_t \<Rightarrow> umem \<Rightarrow> size_t list \<Rightarrow> 'st fetch_cb \<Rightarrow> 'st \<Rightarrow> 'd lsm_db
    \<Rightarrow> (status \<times> 'st \<times> 'd lsm_db) outcome" where
  "rocksdb_fetch A mode keys ksizes func st s =
     lsm_fetch A rocksdb_convertStatus mode keys ksizes func st s"

definition rocksdb_erase :: "'d store \<Rightarrow> mode_t \<Rightarrow> umem \<Rightarrow> size_t list \<Rightarrow> 'd lsm_db \<Rightarrow> (status \<times> 'd lsm_db) outcome" where
  "rocksdb_erase A mode keys ksizes s = lsm_erase A rocksdb_convertStatus mode keys ksizes s"

definition rocksdb_listKeys :: "'d store \<Rightarrow> mode_t \<Rightarrow> bool \<Rightarrow> bytes \<Rightarrow> kv_filter \<Rightarrow> bytes \<Rightarrow> size_t list \<Rightarrow> 'd lsm_db
    \<Rightarrow> (status \<times> get_out) outcome" where
  "rocksdb_listKeys A mode packed fromKey F keys keySizes s =
     lsm_listKeys A mode packed fromKey F keys keySizes s"

definition rocksdb_listKeyValues :: "'d store \<Rightarrow> mode_t \<Rightarrow> bool \<Rightarrow> bytes \<Rightarrow> kv_filter \<Rightarrow> bytes \<Rightarrow> size_t list \<Rightarrow> bytes
    \<Rightarrow> size_t list \<Rightarrow> 'd lsm_db \<Rightarrow> (status \<times> get_out \<times> get_out) outcome" where
  "rocksdb_listKeyValues A mode packed fromKey F keys keySizes vals valSizes s =
     lsm_listKeyValues A mode packed fromKey F keys keySizes vals valSizes s"

definition rocksdb_iter :: "'d store \<Rightarrow> mode_t \<Rightarrow> size_t \<Rightarrow> bytes \<Rightarrow> kv_filter \<Rightarrow> bool
    \<Rightarrow> (bytes \<Rightarrow> bytes \<Rightarrow> 'st \<Rightarrow> status \<times> 'st) \<Rightarrow> 'd lsm_db \<Rightarrow> 'st \<Rightarrow> (status \<times> 'st) outcome" where
  "rocksdb_iter A mode limit fromKey F ignore_values func s st =
     lsm_iter A mode limit fromKey F ignore_values func s st"

definition rocksdb_startMigration :: "'d lsm_db \<Rightarrow> status" where
  "rocksdb_startMigration s = lsm_startMigration s"

definition rocksdb_endMigration :: "'d store \<Rightarrow> bool \<Rightarrow> 'd lsm_db \<Rightarrow> 'd lsm_db" where
  "rocksdb_endMigration A cancel s = lsm_endMigration A cancel s"

end
