(* ===== verification/LsmProperties.thy ===== *)
theory LsmProperties
  imports LsmListing ListProperties
begin

unbundle bit_operations_syntax

text \<open>
  What the leveldb and rocksdb backends do over a store that keeps its documented promises, and where
  their listings agree with those of the map backend.
\<close>

section \<open>A store that keeps its promises\<close>

definition apply_batch :: "(bytes \<times> bytes option) list \<Rightarrow> (bytes \<rightharpoonup> bytes) \<Rightarrow> (bytes \<rightharpoonup> bytes)" where
  "apply_batch wb m = fold (\<lambda>(k, v) m. m(k := v)) wb m"

text \<open>
  \<open>ok d\<close> is a store that works and \<open>stored d\<close> its entries in the order of the keys: \<open>Get\<close> finds what is
  there, \<open>Put\<close> and \<open>Write\<close> succeed and take effect, iterators are ordered.
\<close>

definition healthy_store :: "'d store \<Rightarrow> ('d \<Rightarrow> bool) \<Rightarrow> ('d \<Rightarrow> pairs) \<Rightarrow> bool" where
  "healthy_store A ok stored \<longleftrightarrow> (\<forall>d. ok d \<longrightarrow>
     nodes_ok DefaultMemCmp fst (stored d)
     \<and> (\<forall>k. case map_of (stored d) k of None \<Rightarrow> fst (st_get A k d) = SNotFound | Some v \<Rightarrow> st_get A k d = (SOk, v))
     \<and> (\<forall>k v. \<exists>d'. st_put A k v d = (SOk, d') \<and> ok d' \<and> map_of (stored d') = (map_of (stored d))(k \<mapsto> v))
     \<and> (\<forall>wb. \<exists>d'. st_write A wb d = (SOk, d') \<and> ok d' \<and> map_of (stored d') = apply_batch wb (map_of (stored d)))
     \<and> st_scan A None d = stored d
     \<and> (\<forall>k. st_scan A (Some k) d = lower_bound DefaultMemCmp fst k (stored d)))"

lemma healthyD:
  assumes "healthy_store A ok stored" "ok d"
  shows "nodes_ok DefaultMemCmp fst (stored d)"
    "map_of (stored d) k = None \<Longrightarrow> fst (st_get A k d) = SNotFound"
    "map_of (stored d) k = Some v \<Longrightarrow> st_get A k d = (SOk, v)"
    "\<exists>d'. st_put A k v d = (SOk, d') \<and> ok d' \<and> map_of (stored d') = (map_of (stored d))(k \<mapsto> v)"
    "\<exists>d'. st_write A wb d = (SOk, d') \<and> ok d' \<and> map_of (stored d') = apply_batch wb (map_of (stored d))"
    "st_scan A None d = stored d" "st_scan A (Some k) d = lower_bound DefaultMemCmp fst k (stored d)"
proof -
  have "case map_of (stored d) k of None \<Rightarrow> fst (st_get A k d) = SNotFound | Some v \<Rightarrow> st_get A k d = (SOk, v)"
    using assms unfolding healthy_store_def by blast
  then show "map_of (stored d) k = None \<Longrightarrow> fst (st_get A k d) = SNotFound"
    "map_of (stored d) k = Some v \<Longrightarrow> st_get A k d = (SOk, v)" by simp_all
qed (use assms in \<open>simp_all add: healthy_store_def\<close>)

section \<open>put and erase\<close>

lemma lsm_batch_law:
  assumes "length ks = length vs" "um_data keys = kpre @ concat ks @ kpost" "fits (um_data keys)"
    "vals = vpre @ concat vs @ vpost" "fits vals"
  shows "lsm_batch keys vals (zip (map usize ks) (map usize vs)) (usize kpre) (usize vpre)
    = Done (zip ks (map Some vs))"
  using assms
proof (induction ks vs arbitrary: kpre vpre rule: list_induct2)
  case (Cons k ks v vs)
  have "sub_umem keys (usize kpre) (usize k) = Done \<lparr> um_addr = um_addr keys + usize kpre, um_data = k \<rparr>"
    using Cons.prems by (intro sub_umem_append [where post = "concat ks @ kpost"]) auto
  moreover have "sub_bytes vals (usize vpre) (usize v) = Done v"
    using Cons.prems by (simp add: sub_bytes_append)
  moreover have "lsm_batch keys vals (zip (map usize ks) (map usize vs)) (usize (kpre @ k)) (usize (vpre @ v))
      = Done (zip ks (map Some vs))"
    using Cons.prems by (intro Cons.IH) auto
  ultimately show ?case by (simp add: usize_append)
qed simp

lemma apply_batch_puts: "length ks = length vs \<Longrightarrow> apply_batch (zip ks (map Some vs)) m = m(ks [\<mapsto>] vs)"
  by (induction ks vs arbitrary: m rule: list_induct2) (simp_all add: apply_batch_def)

lemma lsm_put_loop_law:
  assumes "healthy_store A ok stored" "length ks = length vs" "ok d"
    "um_data keys = kpre @ concat ks @ kpost" "fits (um_data keys)" "vals = vpre @ concat vs @ vpost" "fits vals"
  shows "\<exists>d'. lsm_put_loop A conv keys vals (zip (map usize ks) (map usize vs)) (usize kpre) (usize vpre) d
      = Done (OK, d') \<and> ok d' \<and> map_of (stored d') = (map_of (stored d))(ks [\<mapsto>] vs)"
  using assms(2-)
proof (induction ks vs arbitrary: kpre vpre d rule: list_induct2)
  case (Cons k ks v vs)
  have views: "sub_umem keys (usize kpre) (usize k) = Done \<lparr> um_addr = um_addr keys + usize kpre, um_data = k \<rparr>"
    "sub_bytes vals (usize vpre) (usize v) = Done v"
    using Cons.prems sub_umem_append [where post = "concat ks @ kpost"] by (auto simp: sub_bytes_append)
  obtain d1 where put: "st_put A k v d = (SOk, d1)" "ok d1" "map_of (stored d1) = (map_of (stored d))(k \<mapsto> v)"
    using healthyD(4) [OF assms(1) Cons.prems(1)] by blast
  have "\<exists>d'. lsm_put_loop A conv keys vals (zip (map usize ks) (map usize vs)) (usize (kpre @ k)) (usize (vpre @ v)) d1
      = Done (OK, d') \<and> ok d' \<and> map_of (stored d') = (map_of (stored d1))(ks [\<mapsto>] vs)"
    using Cons.prems put(2) by (intro Cons.IH) auto
  then show ?case using views put by (simp add: usize_append)
qed simp

lemma lsm_put_law:
  assumes "healthy_store A ok stored" "ok (ls_store s)" "\<not> ls_migrated s"
    "packs (um_data keys) ks ksizes" "packs vals vs vsizes" "length ks = length vs"
    and conv: "conv SOk = OK"
  obtains s' where "lsm_put A conv mode keys ksizes vals vsizes s = Done (OK, s')" "ok (ls_store s')"
    "\<not> ls_migrated s'" "map_of (stored (ls_store s')) = (map_of (stored (ls_store s)))(ks [\<mapsto>] vs)"
proof -
  obtain kpost where k: "ksizes = map usize ks" "fits (um_data keys)" "um_data keys = concat ks @ kpost"
    using assms(4) by (rule packsE)
  obtain vpost where v: "vsizes = map usize vs" "fits vals" "vals = concat vs @ vpost"
    using assms(5) by (rule packsE)
  note sizes = packs_accumulate [OF assms(4)] packs_accumulate [OF assms(5)]
  have len: "length ksizes = length vsizes" using k(1) v(1) assms(6) by simp
  show thesis
  proof (cases "ls_write_batch s")
    case True
    obtain d where "st_write A (zip ks (map Some vs)) (ls_store s) = (SOk, d)" "ok d"
      "map_of (stored d) = apply_batch (zip ks (map Some vs)) (map_of (stored (ls_store s)))"
      using healthyD(5) [OF assms(1,2)] by blast
    then show thesis
      using that [of "s\<lparr> ls_store := d \<rparr>"] True len sizes assms(3,6) conv k v
        lsm_batch_law [of ks vs keys "[]" kpost vals "[]" vpost]
      by (simp add: lsm_put_def apply_batch_puts)
  next
    case False
    obtain d where "lsm_put_loop A conv keys vals (zip (map usize ks) (map usize vs)) (usize ([] :: bytes))
        (usize ([] :: bytes)) (ls_store s) = Done (OK, d)" "ok d"
      "map_of (stored d) = (map_of (stored (ls_store s)))(ks [\<mapsto>] vs)"
      using lsm_put_loop_law [OF assms(1,6,2), of keys "[]" kpost vals "[]" vpost conv] k v by auto
    then show thesis
      using that [of "s\<lparr> ls_store := d \<rparr>"] False len sizes assms(3) k(1) v(1) by (simp add: lsm_put_def)
  qed
qed

lemma lsm_erase_loop_law:
  assumes "um_data keys = pre @ concat ks @ post" "fits (um_data keys)"
  shows "lsm_erase_loop keys (map usize ks) (usize pre) wb = Done (Some (wb @ map (\<lambda>k. (k, None)) ks))"
  using assms
proof (induction ks arbitrary: pre wb)
  case (Cons k ks)
  have split: "um_data keys = pre @ k @ concat ks @ post" using Cons.prems by simp
  note key = kv_reader.key_view [OF map_is_reader [OF memcmp_total] split Cons.prems(2)]
  show ?case using Cons.IH [of "pre @ k"] Cons.prems key by (simp add: usize_append)
qed simp

lemma apply_batch_deletes: "apply_batch (map (\<lambda>k. (k, None)) ks) m = m |` (- set ks)"
  by (induction ks arbitrary: m)
    (auto simp: apply_batch_def restrict_map_def fun_eq_iff)

lemma lsm_erase_law:
  assumes "healthy_store A ok stored" "ok (ls_store s)" "\<not> ls_migrated s"
    "packs (um_data keys) ks ksizes" "conv SOk = OK"
  obtains s' where "lsm_erase A conv mode keys ksizes s = Done (OK, s')" "ok (ls_store s')" "\<not> ls_migrated s'"
    "map_of (stored (ls_store s')) = map_of (stored (ls_store s)) |` (- set ks)"
proof -
  obtain post where k: "ksizes = map usize ks" "fits (um_data keys)" "um_data keys = concat ks @ post"
    using assms(4) by (rule packsE)
  obtain d where "st_write A (map (\<lambda>k. (k, None)) ks) (ls_store s) = (SOk, d)" "ok d"
    "map_of (stored d) = apply_batch (map (\<lambda>k. (k, None)) ks) (map_of (stored (ls_store s)))"
    using healthyD(5) [OF assms(1,2)] by blast
  then show thesis
    using that [of "s\<lparr> ls_store := d \<rparr>"] lsm_erase_loop_law [of keys "[]" ks post "[]"] k assms(3,5)
    by (simp add: lsm_erase_def apply_batch_deletes)
qed

section \<open>get\<close>

text \<open>
  A packed get: values while they fit; the first that does not marks every size that follows, also that
  of a key that is absent.
\<close>

fun lsm_pack_spec :: "(bytes \<rightharpoonup> bytes) \<Rightarrow> nat \<Rightarrow> bytes list \<Rightarrow> size_t list \<times> bytes" where
  "lsm_pack_spec m room [] = ([], [])"
| "lsm_pack_spec m room (k # ks) = (case m k of
     None \<Rightarrow> (case lsm_pack_spec m room ks of (ns, out) \<Rightarrow> (YOKAN_KEY_NOT_FOUND # ns, out))
   | Some v \<Rightarrow> if room < length v then (replicate (Suc (length ks)) YOKAN_SIZE_TOO_SMALL, [])
       else (case lsm_pack_spec m (room - length v) ks of (ns, out) \<Rightarrow> (usize v # ns, v @ out)))"

lemma lsm_pack_spec_lengths:
  "length (fst (lsm_pack_spec m room ks)) = length ks \<and> length (snd (lsm_pack_spec m room ks)) \<le> room"
  by (induction m room ks rule: lsm_pack_spec.induct) (auto split: option.splits prod.splits)

text \<open>When nothing is too large it is the packed get of the other backends.\<close>

lemma lsm_pack_spec_enough:
  "length (values_of m ks) \<le> room \<Longrightarrow> lsm_pack_spec m room ks = pack_spec m room False ks"
  by (induction ks arbitrary: room) (auto simp: values_of_def split: option.splits)

lemma lsm_get_packed_loop_law:
  assumes "healthy_store A ok stored" "ok d" "um_data keys = kpre @ concat ks @ kpost" "fits (um_data keys)"
    "\<forall>v \<in> ran (map_of (stored d)). sized v" "fits (vpre @ room)" "length got + length ks = length sizes"
    "sizes = got @ todo" "lsm_pack_spec (map_of (stored d)) (length room) ks = (ns, out)"
    "length whole = length (vpre @ room)"
    "past = Done x \<or> length (values_of (map_of (stored d)) ks) \<le> length room"
  shows "lsm_get_packed_loop A past keys (map usize ks) (length got) (usize kpre) (usize vpre) (usize room)
      \<lparr> g_vals = vpre @ room, g_size = usize whole, g_vsizes = sizes \<rparr> d
    = Done \<lparr> g_vals = vpre @ out @ drop (length out) room, g_size = usize (vpre @ out), g_vsizes = got @ ns \<rparr>"
  using assms(3-)
proof (induction ks arbitrary: kpre vpre room got sizes todo ns out)
  case Nil
  have "usize whole - usize room = usize vpre" using Nil.prems(8) by (simp add: usize_def)
  then show ?case using Nil.prems by simp
next
  case (Cons k ks)
  let ?m = "map_of (stored d)"
  obtain t todo' where todo: "todo = t # todo'" "length ks = length todo'"
    using Cons.prems(5,6) by (cases todo) auto
  have key: "sub_umem keys (usize kpre) (usize k) = Done \<lparr> um_addr = um_addr keys + usize kpre, um_data = k \<rparr>"
    using Cons.prems(1,2) by (intro sub_umem_append [where post = "concat ks @ kpost"]) auto
  have set_size: "sizes[length got := n] = (got @ [n]) @ todo'" for n
    using Cons.prems(6) todo by simp
  have fits: "fits room" "fits vpre" using Cons.prems(4) by auto
  have kpre: "usize kpre + usize k = usize (kpre @ k)" by (simp add: usize_append)
  show ?case
  proof (cases "?m k")
    case None
    then obtain ns' where ns: "lsm_pack_spec ?m (length room) ks = (ns', out)" "ns = YOKAN_KEY_NOT_FOUND # ns'"
      using Cons.prems(7) by (auto split: prod.splits)
    obtain v where get: "st_get A k d = (SNotFound, v)"
      using healthyD(2) [OF assms(1,2) None] by (cases "st_get A k d") auto
    have "lsm_get_packed_loop A past keys (map usize ks) (length (got @ [YOKAN_KEY_NOT_FOUND]))
        (usize (kpre @ k)) (usize vpre) (usize room)
        \<lparr> g_vals = vpre @ room, g_size = usize whole, g_vsizes = sizes[length got := YOKAN_KEY_NOT_FOUND] \<rparr> d
      = Done \<lparr> g_vals = vpre @ out @ drop (length out) room, g_size = usize (vpre @ out),
          g_vsizes = (got @ [YOKAN_KEY_NOT_FOUND]) @ ns' \<rparr>"
      unfolding set_size by (rule Cons.IH) (use Cons.prems todo ns(1) None in \<open>auto simp: values_of_def\<close>)
    then show ?thesis using key get ns(2) by (simp add: kpre)
  next
    case (Some v)
    have v: "sized v" using Cons.prems(3) Some by (auto simp: ran_def)
    have get: "st_get A k d = (SOk, v)" by (rule healthyD(3) [OF assms(1,2) Some])
    show ?thesis
    proof (cases "length room < length v")
      case True
      then have "usize v > usize room" using fits v by (simp add: word_less_nat_alt unat_usize sized_fits)
      moreover have "usize whole - usize room = usize vpre" using Cons.prems(8) by (simp add: usize_def)
      moreover have "past = Done x" using Cons.prems(9) True Some by (auto simp: values_of_def)
      ultimately show ?thesis using True key get Some Cons.prems(6,7) todo by auto
    next
      case False
      then obtain ns' out' where sp: "lsm_pack_spec ?m (length (drop (length v) room)) ks = (ns', out')"
        "ns = usize v # ns'" "out = v @ out'"
        using Cons.prems(7) Some by (auto split: prod.splits)
      let ?old = "take (length v) room" and ?rest = "drop (length v) room"
      have room: "room = ?old @ ?rest" "length v = length ?old" using False by auto
      have "memcpy_to (vpre @ ?old @ ?rest) (usize vpre) v = Done (vpre @ v @ ?rest)"
        by (rule memcpy_to_append) (use Cons.prems(4) room in auto)
      then have copy: "memcpy_to (vpre @ room) (usize vpre) v = Done ((vpre @ v) @ ?rest)" by simp
      have less: "\<not> usize room < usize v" using False fits v by (simp add: word_less_nat_alt unat_usize sized_fits)
      have "usize room = usize v + usize ?rest" using False by (simp add: usize_def flip: of_nat_add)
      then have left: "usize room - usize v = usize ?rest" by simp
      have "lsm_get_packed_loop A past keys (map usize ks) (length (got @ [usize v]))
          (usize (kpre @ k)) (usize (vpre @ v)) (usize ?rest)
          \<lparr> g_vals = (vpre @ v) @ ?rest, g_size = usize whole, g_vsizes = sizes[length got := usize v] \<rparr> d
        = Done \<lparr> g_vals = (vpre @ v) @ out' @ drop (length out') ?rest, g_size = usize ((vpre @ v) @ out'),
            g_vsizes = (got @ [usize v]) @ ns' \<rparr>"
        unfolding set_size by (rule Cons.IH) (use Cons.prems todo sp(1) False Some in \<open>auto simp: values_of_def\<close>)
      then show ?thesis
        using key get copy less left sp(2,3) by (simp add: kpre usize_append add.commute)
    qed
  qed
qed

section \<open>Where a walk starts\<close>

lemma lsm_start_walk:
  assumes "healthy_store A ok stored" "ok d"
  shows "lsm_start A mode fromKey d = walk_start DefaultMemCmp fst mode fromKey (stored d)"
proof (cases "length fromKey = 0")
  case True
  then show ?thesis using healthyD(6) [OF assms] by (simp add: lsm_start_def walk_start_def)
next
  case False
  let ?L = "lower_bound DefaultMemCmp fst fromKey (stored d)"
  note srt = healthyD(1) [OF assms]
  note above = node_walk.start_filter [OF map_prefix_walk.node_walk_axioms srt]
  have L: "?L = filter (\<lambda>e. DefaultMemCmp fromKey (fst e) \<or> fst e = fromKey) (stored d)"
    using above [of YOKAN_MODE_INCLUSIVE fromKey] False by (simp add: walk_start_def concrete YOKAN_MODE_INCLUSIVE_def)
  have U: "upper_bound DefaultMemCmp fst fromKey (stored d) = filter (\<lambda>e. DefaultMemCmp fromKey (fst e)) ?L"
    using above [of 0 fromKey] False unfolding L
    by (auto simp: walk_start_def has_mode_def intro: filter_cong)
  have "nodes_ok DefaultMemCmp fst ?L"
    using map_prefix_walk.start_sorted [OF srt, of YOKAN_MODE_INCLUSIVE fromKey] False
    by (simp add: walk_start_def concrete YOKAN_MODE_INCLUSIVE_def)
  moreover have "\<forall>e \<in> set ?L. DefaultMemCmp fromKey (fst e) \<or> fst e = fromKey"
    unfolding L by simp
  ultimately have tail: "\<forall>x \<in> set es. DefaultMemCmp fromKey (fst x)" if "?L = e # es" for e es
    using that DefaultMemCmp_trans [of fromKey "fst e"] by (fastforce simp: nodes_ok_def)
  moreover have "DefaultMemCmp fromKey (fst e)" if "?L = e # es" "fst e \<noteq> fromKey" for e es
    using that L by (metis (mono_tags, lifting) filter_eq_ConsD)
  ultimately show ?thesis
    using False healthyD(7) [OF assms, of fromKey] memcmp_order.lt_irrefl
    by (auto simp: lsm_start_def walk_start_def U eq_commute [of _ "filter _ _"] filter_id_conv
        split: list.splits)
qed

section \<open>The listings of the map backend\<close>

text \<open>\<open>keyCopy\<close> looks at the last key only when \<open>IGNORE_KEYS\<close> and \<open>KEEP_LAST\<close> come together.\<close>

lemma keyCopy_last:
  "\<not> (has_mode mode YOKAN_MODE_IGNORE_KEYS \<and> has_mode mode YOKAN_MODE_KEEP_LAST)
    \<Longrightarrow> keyCopy mode a F = keyCopy mode b F"
  by (auto simp: keyCopy_def fun_eq_iff)

lemma list_slot_sizes:
  assumes "list_slot packed copy i sl = Done sl'"
  shows "\<exists>n. sl_sizes sl' = (sl_sizes sl)[i := n]
    \<and> (packed \<and> sl_full sl' \<longrightarrow> n = YOKAN_SIZE_TOO_SMALL) \<and> (\<not> packed \<longrightarrow> sl_full sl' = sl_full sl)"
  using assms
  by (auto simp: list_slot_def Let_def obind_Done_iff split: if_splits)


text \<open>The slots before the one written stay, so a size that was marked shows in the result.\<close>

lemma list_keys_loop_keeps:
  "list_keys_loop kp vp mode packed F limit es i sl = Done (j, sl') \<Longrightarrow> i \<le> limit
    \<Longrightarrow> i \<le> j \<and> j \<le> limit \<and> length (sl_sizes sl') = length (sl_sizes sl)
      \<and> take i (sl_sizes sl') = take i (sl_sizes sl)"
proof (induction es arbitrary: i sl)
  case (Cons e es)
  show ?case
  proof (cases "i < limit \<and> f_check F (kp e) (vp e)")
    case True
    then obtain sl1 is_last where step:
      "list_slot packed (\<lambda>d off room. keyCopy mode is_last F d off room (kp e)) i sl = Done sl1"
      "list_keys_loop kp vp mode packed F limit es (i + 1) sl1 = Done (j, sl')"
      using Cons.prems(1) by (auto simp: Let_def obind_Done_iff)
    have "i + 1 \<le> j \<and> j \<le> limit \<and> length (sl_sizes sl') = length (sl_sizes sl1)
        \<and> take (i + 1) (sl_sizes sl') = take (i + 1) (sl_sizes sl1)"
      using Cons.IH [OF step(2)] True by simp
    moreover from this have "take i (sl_sizes sl') = take i (sl_sizes sl1)"
      by (metis le_add1 min.absorb1 take_take)
    ultimately show ?thesis using list_slot_sizes [OF step(1)] by auto
  qed (use Cons in \<open>auto simp: obind_Done_iff split: if_splits\<close>)
qed simp

text \<open>As long as nothing was too small the two loops do the same.\<close>

lemma lsm_keys_loop_like:
  assumes "\<not> (has_mode mode YOKAN_MODE_IGNORE_KEYS \<and> has_mode mode YOKAN_MODE_KEEP_LAST)"
  shows "list_keys_loop fst snd mode packed F limit es i sl = Done (j, sl') \<Longrightarrow> \<not> sl_full sl
    \<Longrightarrow> limit = length (sl_sizes sl) \<Longrightarrow> packed \<longrightarrow> YOKAN_SIZE_TOO_SMALL \<notin> set (take j (sl_sizes sl'))
    \<Longrightarrow> lsm_keys_loop mode packed F limit es i sl = Done (j, sl')"
proof (induction es arbitrary: i sl)
  case (Cons e es)
  obtain k v where e: "e = (k, v)" by (cases e)
  note same = keyCopy_last [OF assms, where a = "has_mode mode YOKAN_MODE_KEEP_LAST \<and> (i + 1 = limit \<or> es = [])"
      and b = "i + 1 = limit" and F = F]
  show ?case
  proof (cases "i < limit \<and> f_check F k v")
    case True
    then obtain sl1 where step:
      "list_slot packed (\<lambda>d off room. keyCopy mode (i + 1 = limit) F d off room k) i sl = Done sl1"
      "list_keys_loop fst snd mode packed F limit es (i + 1) sl1 = Done (j, sl')"
      using Cons.prems(1) same by (auto simp: e Let_def obind_Done_iff)
    obtain n where n: "sl_sizes sl1 = (sl_sizes sl)[i := n]" "packed \<and> sl_full sl1 \<longrightarrow> n = YOKAN_SIZE_TOO_SMALL"
      "\<not> packed \<longrightarrow> \<not> sl_full sl1"
      using list_slot_sizes [OF step(1)] Cons.prems(2) by auto
    have keeps: "i + 1 \<le> j" "take (i + 1) (sl_sizes sl') = take (i + 1) (sl_sizes sl1)"
      "length (sl_sizes sl') = limit"
      using list_keys_loop_keeps [OF step(2)] True n(1) Cons.prems(3) by auto
    have "sl_sizes sl' ! i = n"
      using keeps(2) n(1) True Cons.prems(3) by (metis less_add_one nth_list_update_eq nth_take)
    then have "n \<in> set (take j (sl_sizes sl'))"
      using keeps True by (force simp: set_conv_nth)
    then have "\<not> sl_full sl1" using n Cons.prems(4) by auto
    then show ?thesis
      using True step Cons.IH [OF step(2)] n(1) Cons.prems(3,4) by (simp add: e)
  next
    case False
    show ?thesis
    proof (cases "i < limit")
      case True
      then obtain stop where stop: "f_stop F k v = Done stop" "\<not> f_check F k v"
        using False Cons.prems(1) by (auto simp: e obind_Done_iff)
      then show ?thesis
        using True Cons.prems Cons.IH [of i sl] by (cases stop) (simp_all add: e)
    qed (use Cons.prems(1) in \<open>simp add: e\<close>)
  qed
qed simp

text \<open>
  A healthy store in memory, for the examples: the pairs in the order of the keys.
\<close>

definition mem_insert :: "bytes \<Rightarrow> bytes \<Rightarrow> pairs \<Rightarrow> pairs" where
  "mem_insert k v d = c_store (std_map DefaultMemCmp) k v (fst (c_emplace (std_map DefaultMemCmp) k v d))"

definition mem_apply :: "(bytes \<times> bytes option) list \<Rightarrow> pairs \<Rightarrow> pairs" where
  "mem_apply wb d = fold (\<lambda>(k, v) d. case v of
     None \<Rightarrow> c_erase (std_map DefaultMemCmp) k d | Some v \<Rightarrow> mem_insert k v d) wb d"

definition mem_store :: "pairs store" where
  "mem_store = \<lparr>
     st_get = (\<lambda>k d. case map_of d k of None \<Rightarrow> (SNotFound, []) | Some v \<Rightarrow> (SOk, v)),
     st_put = (\<lambda>k v d. (SOk, mem_insert k v d)),
     st_write = (\<lambda>wb d. (SOk, mem_apply wb d)),
     st_scan = (\<lambda>from d. case from of None \<Rightarrow> d | Some k \<Rightarrow> lower_bound DefaultMemCmp fst k d),
     st_remove = (\<lambda>_. []) \<rparr>"

lemma mem_insert_law:
  assumes "nodes_ok DefaultMemCmp fst d"
  shows "nodes_ok DefaultMemCmp fst (mem_insert k v d)" "map_of (mem_insert k v d) = (map_of d)(k \<mapsto> v)"
proof -
  note C = map_is_container [OF memcmp_total]
  note em = kv_container.emplace_inv [OF C assms, of k v] kv_container.emplace_abs [OF C assms, of k v]
  then show "nodes_ok DefaultMemCmp fst (mem_insert k v d)"
    unfolding mem_insert_def by (intro kv_container.store_inv [OF C])
  have "k \<in> dom (map_of (fst (c_emplace (std_map DefaultMemCmp) k v d)))" using em(2) by auto
  then show "map_of (mem_insert k v d) = (map_of d)(k \<mapsto> v)"
    unfolding mem_insert_def using kv_container.store_abs [OF C em(1)] em(2) by auto
qed

lemma mem_apply_law:
  "nodes_ok DefaultMemCmp fst d \<Longrightarrow> nodes_ok DefaultMemCmp fst (mem_apply wb d)
    \<and> map_of (mem_apply wb d) = apply_batch wb (map_of d)"
proof (induction wb arbitrary: d)
  case (Cons kv wb)
  note R = map_is_reader [OF memcmp_total]
  obtain k v where kv: "kv = (k, v)" by (cases kv)
  define d' where "d' = (case v of None \<Rightarrow> c_erase (std_map DefaultMemCmp) k d | Some v \<Rightarrow> mem_insert k v d)"
  have "nodes_ok DefaultMemCmp fst d'" "map_of d' = (map_of d)(k := v)"
    using mem_insert_law [OF Cons.prems] kv_reader.erase_inv [OF R Cons.prems] kv_reader.erase_abs [OF R Cons.prems]
    by (simp_all add: d'_def split: option.splits)
  then show ?case using Cons.IH [of d'] by (simp add: mem_apply_def apply_batch_def kv fun_upd_def flip: d'_def)
qed (simp add: mem_apply_def apply_batch_def)

lemma mem_store_healthy: "healthy_store mem_store (nodes_ok DefaultMemCmp fst) (\<lambda>d. d)"
  using mem_insert_law mem_apply_law
  by (auto simp: healthy_store_def mem_store_def split: option.splits)

section \<open>The properties of the two backends\<close>

lemmas lsm_concrete = concrete mem_store_def mem_apply_def mem_insert_def std_map_def node_emplace_def
  node_update_def node_find_def lower_bound_def

lemma values_of_found: "map m ks = map Some vs \<Longrightarrow> values_of m ks = concat vs"
  by (induction ks arbitrary: vs) (auto simp: values_of_def)

lemma lsm_roundtrip:
  assumes "healthy_store A ok stored" "ok (ls_store s)" "\<not> ls_migrated s"
    and "packs (um_data keys) ks ksizes" "packs vals vs vsizes" "length ks = length vs" "distinct ks"
    and "\<forall>v \<in> ran (map_of (stored (ls_store s))) \<union> set vs. sized v"
    and "fits buf" "length (concat vs) \<le> length buf" "length sizes = length ks"
    and "\<not> has_mode mode YOKAN_MODE_CONSUME" "conv SOk = OK"
  shows "\<exists>s'. lsm_put A conv mode keys ksizes vals vsizes s = Done (OK, s')
      \<and> lsm_get A conv Undef mode True keys ksizes buf sizes s'
        = Done (OK, \<lparr> g_vals = concat vs @ drop (length (concat vs)) buf, g_size = usize (concat vs),
                      g_vsizes = vsizes \<rparr>, s')"
proof -
  let ?m = "map_of (stored (ls_store s))"
  obtain s' where put: "lsm_put A conv mode keys ksizes vals vsizes s = Done (OK, s')"
    "ok (ls_store s')" "\<not> ls_migrated s'" "map_of (stored (ls_store s')) = ?m(ks [\<mapsto>] vs)"
    by (rule lsm_put_law [where ok = ok and conv = conv, OF assms(1-6,13)])
  obtain post where k: "ksizes = map usize ks" "fits (um_data keys)" "um_data keys = concat ks @ post"
    using assms(4) by (rule packsE)
  have vsizes: "vsizes = map usize vs" using assms(5) by (rule packsE)
  have found: "map (map_of (stored (ls_store s'))) ks = map Some vs"
    unfolding put(4) by (rule map_upds_distinct [OF assms(6,7)])
  then have whole: "values_of (map_of (stored (ls_store s'))) ks = concat vs"
    by (rule values_of_found)
  have "lsm_pack_spec (map_of (stored (ls_store s'))) (length buf) ks = (map usize vs, concat vs)"
    using lsm_pack_spec_enough [of "map_of (stored (ls_store s'))" ks "length buf"]
      pack_spec_values [OF found] whole assms(10) by simp
  moreover have "\<forall>v \<in> ran (map_of (stored (ls_store s'))). sized v"
    using assms(8) ran_map_upds_subset [of ?m ks vs] by (auto simp: put(4))
  ultimately have "lsm_get_packed_loop A Undef keys (map usize ks) (length ([] :: size_t list)) (usize ([] :: bytes))
      (usize ([] :: bytes)) (usize buf) \<lparr> g_vals = [] @ buf, g_size = usize buf, g_vsizes = sizes \<rparr> (ls_store s')
    = Done \<lparr> g_vals = [] @ concat vs @ drop (length (concat vs)) buf, g_size = usize ([] @ concat vs),
        g_vsizes = [] @ map usize vs \<rparr>"
    using k assms(9-11) whole
    by (intro lsm_get_packed_loop_law [OF assms(1) put(2)]) (auto simp: k)
  then show ?thesis
    using put(1,3) assms(11,12) by (simp add: lsm_get_def Let_def k(1) vsizes)
qed

text \<open>
  C26: over a healthy store, what \<open>put\<close> wrote, as one batch or one pair at a time, a packed \<open>get\<close> of the
  same keys returns, with its sizes, in \<open>LevelDBDatabase\<close> and in \<open>RocksDBDatabase\<close>; no size behind the
  array is read when the buffer has room.
\<close>

theorem lsm_put_get_roundtrip:
  assumes "healthy_store A ok stored" "ok (ls_store s)" "\<not> ls_migrated s"
    and "packs (um_data keys) ks ksizes" "packs vals vs vsizes" "length ks = length vs" "distinct ks"
    and "\<forall>v \<in> ran (map_of (stored (ls_store s))) \<union> set vs. sized v"
    and "fits buf" "length (concat vs) \<le> length buf" "length sizes = length ks"
    and "\<not> has_mode mode YOKAN_MODE_CONSUME"
    and "out = \<lparr> g_vals = concat vs @ drop (length (concat vs)) buf, g_size = usize (concat vs), g_vsizes = vsizes \<rparr>"
  shows "(\<exists>s'. leveldb_put A mode keys ksizes vals vsizes s = Done (OK, s')
      \<and> leveldb_get A Undef mode True keys ksizes buf sizes s' = Done (OK, out, s'))
    \<and> (\<exists>s'. rocksdb_put A mode keys ksizes vals vsizes s = Done (OK, s')
      \<and> rocksdb_get A Undef mode True keys ksizes buf sizes s' = Done (OK, out, s'))"
  unfolding leveldb_put_def leveldb_get_def rocksdb_put_def rocksdb_get_def assms(13)
  by (intro conjI lsm_roundtrip [where ok = ok, OF assms(1-12)])
    (simp_all add: leveldb_convertStatus_def rocksdb_convertStatus_def)

theorem lsm_put_get_roundtrip_witness:
  "(\<exists>s'. leveldb_put mem_store 0 (at_addr 0 [1, 2, 3]) [1, 2] [7, 8, 9] [2, 1]
        \<lparr> ls_store = [([1], [5])], ls_migrated = False, ls_write_batch = True \<rparr> = Done (OK, s')
      \<and> leveldb_get mem_store Undef 0 True (at_addr 0 [1, 2, 3]) [1, 2] [0, 0, 0, 0] [0, 0] s'
        = Done (OK, \<lparr> g_vals = [7, 8, 9, 0], g_size = 3, g_vsizes = [2, 1] \<rparr>, s'))
    \<and> (\<exists>s'. rocksdb_put mem_store 0 (at_addr 0 [1, 2, 3]) [1, 2] [7, 8, 9] [2, 1]
        \<lparr> ls_store = [([1], [5])], ls_migrated = False, ls_write_batch = True \<rparr> = Done (OK, s')
      \<and> rocksdb_get mem_store Undef 0 True (at_addr 0 [1, 2, 3]) [1, 2] [0, 0, 0, 0] [0, 0] s'
        = Done (OK, \<lparr> g_vals = [7, 8, 9, 0], g_size = 3, g_vsizes = [2, 1] \<rparr>, s'))"
  using lsm_put_get_roundtrip [OF mem_store_healthy,
      of "\<lparr> ls_store = [([1], [5])], ls_migrated = False, ls_write_batch = True \<rparr>" "at_addr 0 [1, 2, 3]"
      "[[1], [2, 3]]" "[1, 2]" "[7, 8, 9]" "[[7, 8], [9]]" "[2, 1]" "[0, 0, 0, 0]" "[0, 0]" 0]
  by (simp add: concrete sized_def ran_def)

text \<open>
  C27: over a healthy store that holds the pairs of a map database, a \<open>listKeys\<close> of \<open>LevelDBDatabase\<close> and
  of \<open>RocksDBDatabase\<close> writes what \<open>MapDatabase::listKeys\<close> writes, with any filter and from any start
  key, as long as nothing was too small in a packed listing and \<open>IGNORE_KEYS\<close> does not come with
  \<open>KEEP_LAST\<close>.
\<close>

theorem lsm_listKeys_like_map:
  assumes "healthy_store A ok stored" "ok (ls_store s)" "\<not> ls_migrated s"
    and "\<not> m_migrated m" "m_db m = stored (ls_store s)"
    and "\<not> (has_mode mode YOKAN_MODE_IGNORE_KEYS \<and> has_mode mode YOKAN_MODE_KEEP_LAST)"
    and "length keySizes < 4294967296"
    and "map_listKeys DefaultMemCmp mode packed from F keys keySizes m = Done (OK, out)"
    and "packed \<longrightarrow> YOKAN_SIZE_TOO_SMALL \<notin> set (g_vsizes out)"
  shows "leveldb_listKeys A mode packed from F keys keySizes s = Done (OK, out)
    \<and> rocksdb_listKeys A mode packed from F keys keySizes s = Done (OK, out)"
proof -
  let ?sl = "\<lparr> sl_data = keys, sl_sizes = keySizes, sl_off = 0, sl_full = False \<rparr>"
  obtain j sl where loop: "list_keys_loop fst snd mode packed F (length keySizes)
      (walk_start DefaultMemCmp fst mode from (m_db m)) 0 ?sl = Done (j, sl)"
    and out: "out = \<lparr> g_vals = sl_data sl, g_size = sl_off sl, g_vsizes = fill_rest j (sl_sizes sl) \<rparr>"
    using assms(4,8) by (auto simp: map_listKeys_def list_keys_def obind_Done_iff)
  have "packed \<longrightarrow> YOKAN_SIZE_TOO_SMALL \<notin> set (take j (sl_sizes sl))"
    using assms(9) by (simp add: out fill_rest_def)
  then have "lsm_keys_loop mode packed F (length keySizes) (lsm_start A mode from (ls_store s)) 0 ?sl = Done (j, sl)"
    using lsm_keys_loop_like [OF assms(6) loop] by (simp add: lsm_start_walk [OF assms(1,2)] assms(5))
  then show ?thesis
    using assms(3,7) by (simp add: leveldb_listKeys_def rocksdb_listKeys_def lsm_listKeys_def out)
qed

theorem lsm_listKeys_like_map_witness:
  "leveldb_listKeys mem_store 0 True [1] (KeyPrefixFilter 0 [1]) [0, 0, 0, 0, 0] [0, 0, 0]
      \<lparr> ls_store = [([1], [5]), ([1, 2], [6]), ([1, 3], [7]), ([2], [8])], ls_migrated = False, ls_write_batch = False \<rparr>
    = Done (OK, \<lparr> g_vals = [1, 2, 1, 3, 0], g_size = 4, g_vsizes = [2, 2, YOKAN_NO_MORE_KEYS] \<rparr>)
  \<and> rocksdb_listKeys mem_store 0 True [1] (KeyPrefixFilter 0 [1]) [0, 0, 0, 0, 0] [0, 0, 0]
      \<lparr> ls_store = [([1], [5]), ([1, 2], [6]), ([1, 3], [7]), ([2], [8])], ls_migrated = False, ls_write_batch = False \<rparr>
    = Done (OK, \<lparr> g_vals = [1, 2, 1, 3, 0], g_size = 4, g_vsizes = [2, 2, YOKAN_NO_MORE_KEYS] \<rparr>)"
proof (rule lsm_listKeys_like_map [OF mem_store_healthy,
      where m = "map_db [([1], [5]), ([1, 2], [6]), ([1, 3], [7]), ([2], [8])]"])
  show "map_listKeys DefaultMemCmp 0 True [1] (KeyPrefixFilter 0 [1]) [0, 0, 0, 0, 0] [0, 0, 0]
      (map_db [([1], [5]), ([1, 2], [6]), ([1, 3], [7]), ([2], [8])])
    = Done (OK, \<lparr> g_vals = [1, 2, 1, 3, 0], g_size = 4, g_vsizes = [2, 2, YOKAN_NO_MORE_KEYS] \<rparr>)"
    by code_simp
qed (simp_all add: walk_concrete YOKAN_SIZE_TOO_SMALL_def)

text \<open>
  With \<open>KEEP_LAST\<close> the listings differ: the map backend gives the last key there is, the store
  backends give none when there are more slots than keys.
\<close>

lemma lsm_keep_last_differs:
  "map_listKeys DefaultMemCmp (YOKAN_MODE_IGNORE_KEYS OR YOKAN_MODE_KEEP_LAST) True [] (KeyPrefixFilter 0 [])
      [0, 0] [0, 0, 0] (map_db [([1], [5]), ([2], [6])])
    = Done (OK, \<lparr> g_vals = [2, 0], g_size = 1, g_vsizes = [0, 1, YOKAN_NO_MORE_KEYS] \<rparr>)"
  "leveldb_listKeys mem_store (YOKAN_MODE_IGNORE_KEYS OR YOKAN_MODE_KEEP_LAST) True [] (KeyPrefixFilter 0 [])
      [0, 0] [0, 0, 0] \<lparr> ls_store = [([1], [5]), ([2], [6])], ls_migrated = False, ls_write_batch = False \<rparr>
    = Done (OK, \<lparr> g_vals = [0, 0], g_size = 0, g_vsizes = [0, 0, YOKAN_NO_MORE_KEYS] \<rparr>)"
  by code_simp+

text \<open>\<open>iter\<close> calls the callback as the map backend does, unless the filter asks for the values.\<close>

lemma lsm_iter_loop_like:
  "\<not> (ignore_values \<and> f_requires F)
    \<Longrightarrow> lsm_iter_loop F ignore_values limit func es i st = iter_loop fst snd F ignore_values limit func es i st"
  by (induction es arbitrary: i st) (auto simp: Let_def intro!: obind_cong split: prod.splits)

lemma lsm_iter_like_map:
  assumes "healthy_store A ok stored" "ok (ls_store s)" "\<not> ls_migrated s"
    and "\<not> m_migrated m" "m_db m = stored (ls_store s)" "\<not> (ignore_values \<and> f_requires F)"
  shows "leveldb_iter A mode limit from F ignore_values func s st
      = map_iter DefaultMemCmp mode limit from F ignore_values func m st"
    "rocksdb_iter A mode limit from F ignore_values func s st
      = map_iter DefaultMemCmp mode limit from F ignore_values func m st"
  using assms(3-5)
  by (simp_all add: leveldb_iter_def rocksdb_iter_def lsm_iter_def map_iter_def iter_nodes_def
      lsm_start_walk [OF assms(1,2)] lsm_iter_loop_like [OF assms(6)])

section \<open>exists and length of the map backend\<close>

lemma healthy_find:
  assumes "healthy_store A ok stored" "ok d" "m_db m = stored d"
  shows "find_retry (kv_look (std_map DefaultMemCmp) k) False key env m
    = Done (case map_of (stored d) k of Some v \<Rightarrow> Found v | None \<Rightarrow> Missing, env, m)"
  using kv_reader.look_content [OF map_is_reader [OF memcmp_total]] healthyD(1) [OF assms(1,2)] assms(3)
  by (simp add: find_retry_no_wait)

lemma healthy_get:
  assumes "healthy_store A ok stored" "ok d"
  obtains w where "map_of (stored d) k = None" "st_get A k d = (SNotFound, w)"
  | v where "map_of (stored d) k = Some v" "st_get A k d = (SOk, v)"
  using healthyD(2,3) [OF assms, of k] by (cases "map_of (stored d) k"; cases "st_get A k d") auto

lemma lsm_exists_loop_like:
  assumes "healthy_store A ok stored" "ok d" "m_db m = stored d"
  shows "kv_exists_loop (std_map DefaultMemCmp) False keys ksizes offset i flags env m
    = obind (lsm_exists_loop A keys ksizes offset i flags d) (\<lambda>(st, flags). Done (st, flags, env, m))"
proof (induction ksizes arbitrary: offset i flags)
  case (Cons ksize ksizes)
  show ?case
  proof (cases "sub_umem keys offset ksize")
    case (Done key)
    show ?thesis
      by (rule healthy_get [OF assms(1,2), of "um_data key"])
        (simp_all add: Done Cons.IH healthy_find [OF assms] obind_assoc)
  qed simp_all
qed simp

lemma lsm_exists_like_map:
  assumes "healthy_store A ok stored" "ok (ls_store s)" "\<not> ls_migrated s" "\<not> m_migrated m"
    and "m_db m = stored (ls_store s)" "\<not> has_mode mode YOKAN_MODE_WAIT"
    and "lsm_exists A mode keys ksizes flags s = Done (st, flags')"
  shows "map_exists DefaultMemCmp mode keys ksizes flags env m = Done (st, flags', env, m)"
  using assms(3,4,6,7) lsm_exists_loop_like [OF assms(1,2,5), of keys ksizes 0 0 flags env]
  by (simp add: lsm_exists_def map_exists_def kv_exists_def split: if_splits)

lemma lsm_length_loop_like:
  assumes "healthy_store A ok stored" "ok d" "m_db m = stored d"
  shows "kv_length_loop (std_map DefaultMemCmp) False keys ksizes offset i vsizes env m
    = obind (lsm_length_loop A conv keys ksizes offset i vsizes d) (\<lambda>(st, vsizes). Done (st, vsizes, env, m))"
proof (induction ksizes arbitrary: offset i vsizes)
  case (Cons ksize ksizes)
  show ?case
  proof (cases "sub_umem keys offset ksize")
    case (Done key)
    show ?thesis
      by (rule healthy_get [OF assms(1,2), of "um_data key"])
        (simp_all add: Done Cons.IH healthy_find [OF assms] split: prod.split)
  qed simp_all
qed simp

lemma lsm_length_like_map:
  assumes "healthy_store A ok stored" "ok (ls_store s)" "\<not> ls_migrated s" "\<not> m_migrated m"
    and "m_db m = stored (ls_store s)" "\<not> has_mode mode YOKAN_MODE_WAIT" "length ksizes = length vsizes"
    and "lsm_length A conv mode keys ksizes vsizes s = Done (st, vsizes')"
  shows "map_length DefaultMemCmp mode keys ksizes vsizes env m = Done (st, vsizes', env, m)"
  using assms(3,4,6-8) lsm_length_loop_like [OF assms(1,2,5), of keys ksizes 0 0 vsizes env conv]
  by (simp add: lsm_length_def map_length_def kv_length_def split: if_splits)

end
