(* ===== verification/LmdbBackend.thy ===== *)
theory LmdbBackend
  imports KvEngine LsmListing
begin

unbundle bit_operations_syntax

text \<open>
  The backend of lmdb.cpp. LMDB is not in the repository: what its calls do is the record \<open>lmdb\<close>, an argument
  of every operation, and any return value is possible. Transactions and cursors are opened,
  closed and left open where the code does so.
\<close>

section \<open>LMDB\<close>

datatype mdb_ret = MDB_SUCCESS | MDB_KEYEXIST | MDB_NOTFOUND | MDB_CORRUPTED | MDB_INVALID
  | MDB_PAGE_NOTFOUND | MDB_PANIC | MDB_VERSION_MISMATCH | MDB_MAP_FULL | MDB_DBS_FULL | MDB_READERS_FULL
  | MDB_TLS_FULL | MDB_TXN_FULL | MDB_CURSOR_FULL | MDB_PAGE_FULL | MDB_MAP_RESIZED | MDB_INCOMPATIBLE
  | MDB_BAD_RSLOT | MDB_BAD_TXN | MDB_BAD_VALSIZE | MDB_BAD_DBI | MDB_ERRNO int

text \<open>
  A cursor is the list of what it finds when it moves on, an entry or an error; behind the last it finds
  nothing. \<open>MDB_GET_CURRENT\<close> reads again what the last move found.
\<close>

datatype mdb_item = Item bytes bytes | Broken mdb_ret

fun mdb_current :: "mdb_item list \<Rightarrow> mdb_ret \<times> bytes \<times> bytes" where
  "mdb_current [] = (MDB_NOTFOUND, [], [])"
| "mdb_current (Item k v # _) = (MDB_SUCCESS, k, v)"
| "mdb_current (Broken ret # _) = (ret, [], [])"

text \<open>
  The state of the environment is \<open>'d\<close>. \<open>mdb_cursor\<close> is the cursor after \<open>MDB_FIRST\<close>, or after
  \<open>MDB_SET_RANGE\<close> to a key.
\<close>

record 'd lmdb =
  mdb_txn_begin :: "bool \<Rightarrow> 'd \<Rightarrow> mdb_ret \<times> 'd"
  mdb_txn_abort :: "'d \<Rightarrow> 'd"
  mdb_txn_commit :: "'d \<Rightarrow> mdb_ret \<times> 'd"
  mdb_stat :: "'d \<Rightarrow> mdb_ret \<times> size_t"
  mdb_get :: "bytes \<Rightarrow> 'd \<Rightarrow> mdb_ret \<times> bytes"
  mdb_put :: "bytes \<Rightarrow> bytes \<Rightarrow> 'd \<Rightarrow> mdb_ret \<times> 'd"
  mdb_del :: "bytes \<Rightarrow> 'd \<Rightarrow> mdb_ret \<times> 'd"
  mdb_cursor_open :: "'d \<Rightarrow> mdb_ret \<times> 'd"
  mdb_cursor_close :: "'d \<Rightarrow> 'd"
  mdb_cursor :: "bytes option \<Rightarrow> 'd \<Rightarrow> mdb_item list"

definition lmdb_convertStatus :: "mdb_ret \<Rightarrow> status" where
  "lmdb_convertStatus s = (case s of
     MDB_SUCCESS \<Rightarrow> OK | MDB_KEYEXIST \<Rightarrow> KeyExists | MDB_NOTFOUND \<Rightarrow> NotFound
   | MDB_CORRUPTED \<Rightarrow> Corruption | MDB_INVALID \<Rightarrow> InvalidArg | _ \<Rightarrow> Other)"

text \<open>\<open>lm_env\<close> is the pointer \<open>m_env\<close>: without an environment LMDB is called with a null pointer.\<close>

record 'd lmdb_db =
  lm_env :: "'d option"
  lm_migrated :: bool

definition lmdb_supportsMode :: "bool \<Rightarrow> mode_t \<Rightarrow> bool" where
  "lmdb_supportsMode has_lua mode = within_mask mode
     (YOKAN_MODE_INCLUSIVE OR YOKAN_MODE_CONSUME OR YOKAN_MODE_NO_PREFIX OR YOKAN_MODE_IGNORE_KEYS
      OR YOKAN_MODE_KEEP_LAST OR YOKAN_MODE_SUFFIX OR (if has_lua then YOKAN_MODE_LUA_FILTER else 0)
      OR YOKAN_MODE_IGNORE_DOCS OR YOKAN_MODE_FILTER_VALUE OR YOKAN_MODE_LIB_FILTER
      OR YOKAN_MODE_NO_RDMA OR YOKAN_MODE_UPDATE_NEW)"

definition lmdb_destroy :: "'d lmdb_db \<Rightarrow> 'd lmdb_db" where
  "lmdb_destroy s = s\<lparr> lm_env := None \<rparr>"

text \<open>A transaction that could not begin has no effect but what the environment did.\<close>

definition in_txn :: "'d lmdb \<Rightarrow> bool \<Rightarrow> 'r \<Rightarrow> ('d \<Rightarrow> (status \<times> 'r \<times> 'd) outcome) \<Rightarrow> 'd lmdb_db
    \<Rightarrow> (status \<times> 'r \<times> 'd lmdb_db) outcome" where
  "in_txn A rdonly out body s = (case lm_env s of
     None \<Rightarrow> Undef
   | Some d \<Rightarrow> (case mdb_txn_begin A rdonly d of (ret, d) \<Rightarrow>
       if ret \<noteq> MDB_SUCCESS then Done (lmdb_convertStatus ret, out, s\<lparr> lm_env := Some d \<rparr>)
       else obind (body d) (\<lambda>(st, out, d). Done (st, out, s\<lparr> lm_env := Some d \<rparr>))))"

section \<open>count, exists, length\<close>

text \<open>\<open>count\<close> does not end its transaction.\<close>

definition lmdb_count :: "'d lmdb \<Rightarrow> mode_t \<Rightarrow> 'd lmdb_db \<Rightarrow> (status \<times> size_t option \<times> 'd lmdb_db) outcome" where
  "lmdb_count A mode s =
     (if lm_migrated s then Done (Migrated, None, s)
      else in_txn A True None (\<lambda>d. case mdb_stat A d of (ret, entries) \<Rightarrow>
        if ret \<noteq> MDB_SUCCESS then Done (lmdb_convertStatus ret, None, d)
        else Done (OK, Some entries, d)) s)"

text \<open>Nor do \<open>exists\<close> and \<open>length\<close> when a size leaves the buffer.\<close>

fun lmdb_exists_loop :: "'d lmdb \<Rightarrow> umem \<Rightarrow> size_t list \<Rightarrow> size_t \<Rightarrow> nat \<Rightarrow> bitfield \<Rightarrow> 'd
    \<Rightarrow> (status \<times> bitfield \<times> 'd) outcome" where
  "lmdb_exists_loop A keys [] offset i flags d = Done (OK, flags, mdb_txn_abort A d)"
| "lmdb_exists_loop A keys (ksize # ksizes) offset i flags d =
     (if offset + ksize > usize (um_data keys) then Done (InvalidArg, flags, d)
      else obind (sub_umem keys offset ksize) (\<lambda>key.
        let ret = fst (mdb_get A (um_data key) d) in
        if ret = MDB_NOTFOUND then
          obind (bf_set flags i False) (\<lambda>flags. lmdb_exists_loop A keys ksizes (offset + ksize) (Suc i) flags d)
        else if ret = MDB_SUCCESS then
          obind (bf_set flags i True) (\<lambda>flags. lmdb_exists_loop A keys ksizes (offset + ksize) (Suc i) flags d)
        else Done (lmdb_convertStatus ret, flags, mdb_txn_abort A d)))"

definition lmdb_exists :: "'d lmdb \<Rightarrow> mode_t \<Rightarrow> umem \<Rightarrow> size_t list \<Rightarrow> bitfield \<Rightarrow> 'd lmdb_db
    \<Rightarrow> (status \<times> bitfield \<times> 'd lmdb_db) outcome" where
  "lmdb_exists A mode keys ksizes flags s =
     (if lm_migrated s then Done (Migrated, flags, s)
      else if usize ksizes > bf_size flags then Done (InvalidArg, flags, s)
      else in_txn A True flags (lmdb_exists_loop A keys ksizes 0 0 flags) s)"

fun lmdb_length_loop :: "'d lmdb \<Rightarrow> umem \<Rightarrow> size_t list \<Rightarrow> size_t \<Rightarrow> nat \<Rightarrow> size_t list \<Rightarrow> 'd
    \<Rightarrow> (status \<times> size_t list \<times> 'd) outcome" where
  "lmdb_length_loop A keys [] offset i vsizes d = Done (OK, vsizes, mdb_txn_abort A d)"
| "lmdb_length_loop A keys (ksize # ksizes) offset i vsizes d =
     (if offset + ksize > usize (um_data keys) then Done (InvalidArg, vsizes, d)
      else obind (sub_umem keys offset ksize) (\<lambda>key.
        case mdb_get A (um_data key) d of (ret, v) \<Rightarrow>
          if ret = MDB_NOTFOUND then
            lmdb_length_loop A keys ksizes (offset + ksize) (Suc i) (vsizes[i := YOKAN_KEY_NOT_FOUND]) d
          else if ret = MDB_SUCCESS then
            lmdb_length_loop A keys ksizes (offset + ksize) (Suc i) (vsizes[i := usize v]) d
          else Done (lmdb_convertStatus ret, vsizes, mdb_txn_abort A d)))"

definition lmdb_length :: "'d lmdb \<Rightarrow> mode_t \<Rightarrow> umem \<Rightarrow> size_t list \<Rightarrow> size_t list \<Rightarrow> 'd lmdb_db
    \<Rightarrow> (status \<times> size_t list \<times> 'd lmdb_db) outcome" where
  "lmdb_length A mode keys ksizes vsizes s =
     (if lm_migrated s then Done (Migrated, vsizes, s)
      else if length ksizes > length vsizes then Done (InvalidArg, vsizes, s)
      else in_txn A True vsizes (lmdb_length_loop A keys ksizes 0 0 vsizes) s)"

section \<open>put, erase\<close>

fun lmdb_put_loop :: "'d lmdb \<Rightarrow> umem \<Rightarrow> bytes \<Rightarrow> (size_t \<times> size_t) list \<Rightarrow> size_t \<Rightarrow> size_t \<Rightarrow> 'd
    \<Rightarrow> (status \<times> unit \<times> 'd) outcome" where
  "lmdb_put_loop A keys vals [] key_offset val_offset d =
     (case mdb_txn_commit A d of (ret, d) \<Rightarrow> Done (lmdb_convertStatus ret, (), d))"
| "lmdb_put_loop A keys vals ((ksize, vsize) # rest) key_offset val_offset d =
     obind (sub_umem keys key_offset ksize) (\<lambda>key. obind (sub_bytes vals val_offset vsize) (\<lambda>val.
       case mdb_put A (um_data key) val d of (ret, d) \<Rightarrow>
         if ret \<noteq> MDB_SUCCESS then Done (lmdb_convertStatus ret, (), mdb_txn_abort A d)
         else lmdb_put_loop A keys vals rest (key_offset + ksize) (val_offset + vsize) d))"

definition lmdb_put :: "'d lmdb \<Rightarrow> mode_t \<Rightarrow> umem \<Rightarrow> size_t list \<Rightarrow> bytes \<Rightarrow> size_t list \<Rightarrow> 'd lmdb_db
    \<Rightarrow> (status \<times> unit \<times> 'd lmdb_db) outcome" where
  "lmdb_put A mode keys ksizes vals vsizes s =
     (if lm_migrated s then Done (Migrated, (), s)
      else if length ksizes \<noteq> length vsizes then Done (InvalidArg, (), s)
      else if accumulate ksizes > usize (um_data keys) then Done (InvalidArg, (), s)
      else if accumulate vsizes > usize vals then Done (InvalidArg, (), s)
      else in_txn A False () (lmdb_put_loop A keys vals (zip ksizes vsizes) 0 0) s)"

fun lmdb_erase_loop :: "'d lmdb \<Rightarrow> umem \<Rightarrow> size_t list \<Rightarrow> size_t \<Rightarrow> 'd \<Rightarrow> (status \<times> unit \<times> 'd) outcome" where
  "lmdb_erase_loop A keys [] key_offset d =
     (case mdb_txn_commit A d of (ret, d) \<Rightarrow> Done (lmdb_convertStatus ret, (), d))"
| "lmdb_erase_loop A keys (ksize # ksizes) key_offset d =
     obind (sub_umem keys key_offset ksize) (\<lambda>key.
       case mdb_del A (um_data key) d of (ret, d) \<Rightarrow>
         if ret \<noteq> MDB_SUCCESS \<and> ret \<noteq> MDB_NOTFOUND then Done (lmdb_convertStatus ret, (), mdb_txn_abort A d)
         else lmdb_erase_loop A keys ksizes (key_offset + ksize) d)"

definition lmdb_erase :: "'d lmdb \<Rightarrow> mode_t \<Rightarrow> umem \<Rightarrow> size_t list \<Rightarrow> 'd lmdb_db
    \<Rightarrow> (status \<times> unit \<times> 'd lmdb_db) outcome" where
  "lmdb_erase A mode keys ksizes s =
     (if lm_migrated s then Done (Migrated, (), s)
      else if accumulate ksizes > usize (um_data keys) then Done (InvalidArg, (), s)
      else in_txn A False () (lmdb_erase_loop A keys ksizes 0) s)"

section \<open>get, fetch\<close>

fun lmdb_get_loop :: "'d lmdb \<Rightarrow> umem \<Rightarrow> size_t list \<Rightarrow> nat \<Rightarrow> size_t \<Rightarrow> size_t \<Rightarrow> get_out \<Rightarrow> 'd
    \<Rightarrow> (status \<times> get_out \<times> 'd) outcome" where
  "lmdb_get_loop A keys [] i key_offset val_offset out d = Done (OK, out, mdb_txn_abort A d)"
| "lmdb_get_loop A keys (ksize # ksizes) i key_offset val_offset out d =
     (let original_vsize = g_vsizes out ! i in
      obind (sub_umem keys key_offset ksize) (\<lambda>key.
      case mdb_get A (um_data key) d of (ret, v) \<Rightarrow>
        if ret = MDB_NOTFOUND then
          lmdb_get_loop A keys ksizes (Suc i) (key_offset + ksize) (val_offset + original_vsize)
            (out\<lparr> g_vsizes := (g_vsizes out)[i := YOKAN_KEY_NOT_FOUND] \<rparr>) d
        else if ret = MDB_SUCCESS then
          (if usize v > original_vsize then
             lmdb_get_loop A keys ksizes (Suc i) (key_offset + ksize) (val_offset + original_vsize)
               (out\<lparr> g_vsizes := (g_vsizes out)[i := YOKAN_SIZE_TOO_SMALL] \<rparr>) d
           else
             obind (memcpy_to (g_vals out) val_offset v) (\<lambda>vals.
               lmdb_get_loop A keys ksizes (Suc i) (key_offset + ksize) (val_offset + original_vsize)
                 (out\<lparr> g_vals := vals, g_vsizes := (g_vsizes out)[i := usize v] \<rparr>) d))
        else Done (lmdb_convertStatus ret, out, mdb_txn_abort A d)))"

text \<open>
  As in the other store backends the first value that does not fit marks the rest, and \<open>ksizes\<close> is then
  read one past its end (\<open>past\<close>). An error leaves \<open>vals.size\<close> as it was.
\<close>

fun lmdb_get_packed_loop :: "'d lmdb \<Rightarrow> size_t outcome \<Rightarrow> umem \<Rightarrow> size_t list \<Rightarrow> nat \<Rightarrow> size_t \<Rightarrow> size_t
    \<Rightarrow> size_t \<Rightarrow> get_out \<Rightarrow> 'd \<Rightarrow> (status \<times> get_out \<times> 'd) outcome" where
  "lmdb_get_packed_loop A past keys [] i key_offset val_offset remaining out d =
     Done (OK, out\<lparr> g_size := g_size out - remaining \<rparr>, mdb_txn_abort A d)"
| "lmdb_get_packed_loop A past keys (ksize # ksizes) i key_offset val_offset remaining out d =
     obind (sub_umem keys key_offset ksize) (\<lambda>key.
     case mdb_get A (um_data key) d of (ret, v) \<Rightarrow>
       if ret = MDB_NOTFOUND then
         lmdb_get_packed_loop A past keys ksizes (Suc i) (key_offset + ksize) val_offset remaining
           (out\<lparr> g_vsizes := (g_vsizes out)[i := YOKAN_KEY_NOT_FOUND] \<rparr>) d
       else if ret = MDB_SUCCESS then
         (if usize v > remaining then
            obind past (\<lambda>_. Done (OK, out\<lparr> g_size := g_size out - remaining,
              g_vsizes := take i (g_vsizes out) @ replicate (Suc (length ksizes)) YOKAN_SIZE_TOO_SMALL \<rparr>,
              mdb_txn_abort A d))
          else
            obind (memcpy_to (g_vals out) val_offset v) (\<lambda>vals.
              lmdb_get_packed_loop A past keys ksizes (Suc i) (key_offset + ksize) (val_offset + usize v)
                (remaining - usize v)
                (out\<lparr> g_vals := vals, g_vsizes := (g_vsizes out)[i := usize v] \<rparr>) d))
       else Done (lmdb_convertStatus ret, out, mdb_txn_abort A d))"

text \<open>\<open>CONSUME\<close> erases in a transaction of its own.\<close>

definition lmdb_consume :: "'d lmdb \<Rightarrow> mode_t \<Rightarrow> umem \<Rightarrow> size_t list \<Rightarrow> status \<times> 'r \<times> 'd lmdb_db
    \<Rightarrow> (status \<times> 'r \<times> 'd lmdb_db) outcome" where
  "lmdb_consume A mode keys ksizes r = (case r of (st, out, s) \<Rightarrow>
     if st = OK \<and> has_mode mode YOKAN_MODE_CONSUME then
       obind (lmdb_erase A mode keys ksizes s) (\<lambda>(st, _, s). Done (st, out, s))
     else Done (st, out, s))"

definition lmdb_get :: "'d lmdb \<Rightarrow> size_t outcome \<Rightarrow> mode_t \<Rightarrow> bool \<Rightarrow> umem \<Rightarrow> size_t list \<Rightarrow> bytes \<Rightarrow> size_t list
    \<Rightarrow> 'd lmdb_db \<Rightarrow> (status \<times> get_out \<times> 'd lmdb_db) outcome" where
  "lmdb_get A past mode packed keys ksizes vals vsizes s =
     (let out = \<lparr> g_vals = vals, g_size = usize vals, g_vsizes = vsizes \<rparr> in
      if lm_migrated s then Done (Migrated, out, s)
      else if length ksizes \<noteq> length vsizes then Done (InvalidArg, out, s)
      else
        obind (in_txn A True out
            (if packed then lmdb_get_packed_loop A past keys ksizes 0 0 0 (usize vals) out
             else lmdb_get_loop A keys ksizes 0 0 0 out) s)
          (lmdb_consume A mode keys ksizes))"

fun lmdb_fetch_loop :: "'d lmdb \<Rightarrow> umem \<Rightarrow> size_t list \<Rightarrow> 'st fetch_cb \<Rightarrow> size_t \<Rightarrow> 'st \<Rightarrow> 'd
    \<Rightarrow> (status \<times> 'st \<times> 'd) outcome" where
  "lmdb_fetch_loop A keys [] func key_offset st d = Done (OK, st, mdb_txn_abort A d)"
| "lmdb_fetch_loop A keys (ksize # ksizes) func key_offset st d =
     obind (sub_umem keys key_offset ksize) (\<lambda>key.
     case mdb_get A (um_data key) d of (ret, v) \<Rightarrow>
       if ret \<noteq> MDB_NOTFOUND \<and> ret \<noteq> MDB_SUCCESS then Done (lmdb_convertStatus ret, st, mdb_txn_abort A d)
       else (case func (um_data key) (if ret = MDB_SUCCESS then Some v else None) st of (status, st) \<Rightarrow>
         if status \<noteq> OK then Done (status, st, mdb_txn_abort A d)
         else lmdb_fetch_loop A keys ksizes func (key_offset + ksize) st d))"

definition lmdb_fetch :: "'d lmdb \<Rightarrow> mode_t \<Rightarrow> umem \<Rightarrow> size_t list \<Rightarrow> 'st fetch_cb \<Rightarrow> 'st \<Rightarrow> 'd lmdb_db
    \<Rightarrow> (status \<times> 'st \<times> 'd lmdb_db) outcome" where
  "lmdb_fetch A mode keys ksizes func st s =
     (if lm_migrated s then Done (Migrated, st, s)
      else obind (in_txn A True st (lmdb_fetch_loop A keys ksizes func 0 st) s)
        (lmdb_consume A mode keys ksizes))"

section \<open>Walking with a cursor\<close>

text \<open>
  Where a walk starts. Moving behind a start key that is the last one is an error, \<open>MDB_NOTFOUND\<close>, and
  not the end of the keys.
\<close>

datatype lmdb_walk = Started "mdb_item list" | NoKeys | Refused status

definition lmdb_start :: "'d lmdb \<Rightarrow> mode_t \<Rightarrow> bytes \<Rightarrow> 'd \<Rightarrow> lmdb_walk" where
  "lmdb_start A mode fromKey d =
     (let es = mdb_cursor A (if length fromKey = 0 then None else Some fromKey) d in
      case mdb_current es of (ret, k, v) \<Rightarrow>
        if ret \<noteq> MDB_SUCCESS then
          (if lmdb_convertStatus ret = NotFound then NoKeys else Refused (lmdb_convertStatus ret))
        else if length fromKey \<noteq> 0 \<and> \<not> has_mode mode YOKAN_MODE_INCLUSIVE \<and> k = fromKey then
          (let ret = fst (mdb_current (tl es)) in
           if ret \<noteq> MDB_SUCCESS then Refused (lmdb_convertStatus ret) else Started (tl es))
        else Started es)"

text \<open>A walk that does not start leaves its cursor open.\<close>

definition with_cursor :: "'d lmdb \<Rightarrow> mode_t \<Rightarrow> bytes \<Rightarrow> 'r \<Rightarrow> 'r outcome
    \<Rightarrow> (mdb_item list \<Rightarrow> 'd \<Rightarrow> (status \<times> 'r \<times> 'd) outcome) \<Rightarrow> 'd lmdb_db
    \<Rightarrow> (status \<times> 'r \<times> 'd lmdb_db) outcome" where
  "with_cursor A mode fromKey out nothing walk s =
     (if lm_migrated s then Done (Migrated, out, s)
      else in_txn A True out (\<lambda>d. case mdb_cursor_open A d of (ret, d) \<Rightarrow>
        if ret \<noteq> MDB_SUCCESS then Done (lmdb_convertStatus ret, out, mdb_txn_abort A d)
        else (case lmdb_start A mode fromKey d of
          NoKeys \<Rightarrow> obind nothing (\<lambda>out. Done (OK, out, mdb_txn_abort A d))
        | Refused st \<Rightarrow> Done (st, out, mdb_txn_abort A d)
        | Started es \<Rightarrow> walk es d)) s)"

text \<open>
  \<open>MDB_NEXT\<close> at the end of an iteration: on, out of the loop, or out of the function with the status.
\<close>

definition lmdb_next :: "mdb_item list \<Rightarrow> 'a outcome \<Rightarrow> (mdb_ret \<Rightarrow> 'a outcome) \<Rightarrow> 'a outcome \<Rightarrow> 'a outcome" where
  "lmdb_next es done refused go_on = (case fst (mdb_current es) of
     MDB_SUCCESS \<Rightarrow> go_on | MDB_NOTFOUND \<Rightarrow> done | ret \<Rightarrow> refused ret)"

section \<open>listKeys\<close>

text \<open>The first component is the value that makes the function return early, or \<open>MDB_SUCCESS\<close>.\<close>

fun lmdb_keys_loop :: "mode_t \<Rightarrow> bool \<Rightarrow> kv_filter \<Rightarrow> nat \<Rightarrow> mdb_item list \<Rightarrow> nat \<Rightarrow> slots
    \<Rightarrow> (mdb_ret \<times> nat \<times> slots) outcome" where
  "lmdb_keys_loop mode packed F limit [] i sl = Done (MDB_SUCCESS, i, sl)"
| "lmdb_keys_loop mode packed F limit (e # es) i sl =
     (if \<not> i < limit then Done (MDB_SUCCESS, i, sl)
      else lmdb_next [e] (Done (MDB_SUCCESS, i, sl)) (\<lambda>ret. Done (ret, i, sl))
        (case mdb_current [e] of (_, k, v) \<Rightarrow>
         if \<not> f_check F k v then
           obind (f_stop F k v) (\<lambda>stop.
             if stop then Done (MDB_SUCCESS, i, sl)
             else lmdb_next es (Done (MDB_SUCCESS, i, sl)) (\<lambda>ret. Done (ret, i, sl))
               (lmdb_keys_loop mode packed F limit es i sl))
         else
           obind (list_slot packed (\<lambda>d off room. keyCopy mode (i + 1 = limit) F d off room k) i sl) (\<lambda>sl'.
             if packed \<and> sl_full sl' then Done (MDB_SUCCESS, limit, all_too_small i sl')
             else lmdb_next es (Done (MDB_SUCCESS, i + 1, sl')) (\<lambda>ret. Done (ret, i + 1, sl'))
               (lmdb_keys_loop mode packed F limit es (i + 1) sl'))))"

text \<open>The sizes when there is no key: filled by a loop with an \<open>unsigned\<close> index.\<close>

definition no_keys :: "bytes \<Rightarrow> size_t list \<Rightarrow> nat \<Rightarrow> get_out outcome" where
  "no_keys buf sizes limit = (if limit \<ge> 4294967296 then Hung
     else Done \<lparr> g_vals = buf, g_size = 0, g_vsizes = fill_rest 0 sizes \<rparr>)"

definition lmdb_listKeys :: "'d lmdb \<Rightarrow> mode_t \<Rightarrow> bool \<Rightarrow> bytes \<Rightarrow> kv_filter \<Rightarrow> bytes \<Rightarrow> size_t list
    \<Rightarrow> 'd lmdb_db \<Rightarrow> (status \<times> get_out \<times> 'd lmdb_db) outcome" where
  "lmdb_listKeys A mode packed fromKey F keys keySizes s =
     with_cursor A mode fromKey \<lparr> g_vals = keys, g_size = usize keys, g_vsizes = keySizes \<rparr>
       (no_keys keys keySizes (length keySizes))
       (\<lambda>es d. obind (lmdb_keys_loop mode packed F (length keySizes) es 0
           \<lparr> sl_data = keys, sl_sizes = keySizes, sl_off = 0, sl_full = False \<rparr>) (\<lambda>(ret, i, sl).
         let d = mdb_txn_abort A (mdb_cursor_close A d) in
         if ret \<noteq> MDB_SUCCESS
         then Done (lmdb_convertStatus ret, \<lparr> g_vals = sl_data sl, g_size = usize keys, g_vsizes = sl_sizes sl \<rparr>, d)
         else Done (OK, \<lparr> g_vals = sl_data sl, g_size = sl_off sl, g_vsizes = fill_rest i (sl_sizes sl) \<rparr>, d))) s"

section \<open>listKeyValues\<close>

fun lmdb_kvs_loop :: "mode_t \<Rightarrow> bool \<Rightarrow> kv_filter \<Rightarrow> nat \<Rightarrow> mdb_item list \<Rightarrow> nat \<Rightarrow> slots \<Rightarrow> slots
    \<Rightarrow> (mdb_ret \<times> nat \<times> slots \<times> slots) outcome" where
  "lmdb_kvs_loop mode packed F limit [] i ks vs = Done (MDB_SUCCESS, i, ks, vs)"
| "lmdb_kvs_loop mode packed F limit (e # es) i ks vs =
     (if \<not> i < limit then Done (MDB_SUCCESS, i, ks, vs)
      else lmdb_next [e] (Done (MDB_SUCCESS, i, ks, vs)) (\<lambda>ret. Done (ret, i, ks, vs))
        (case mdb_current [e] of (_, k, v) \<Rightarrow>
         if \<not> f_check F k v then
           obind (f_stop F k v) (\<lambda>stop.
             if stop then Done (MDB_SUCCESS, i, ks, vs)
             else lmdb_next es (Done (MDB_SUCCESS, i, ks, vs)) (\<lambda>ret. Done (ret, i, ks, vs))
               (lmdb_kvs_loop mode packed F limit es i ks vs))
         else
           obind (list_slot packed (\<lambda>d off room. keyCopy mode (i + 1 = limit) F d off room k) i ks) (\<lambda>ks'.
           obind (list_slot packed (\<lambda>d off room. f_val_copy F d off room v) i vs) (\<lambda>vs'.
             if packed \<and> sl_full ks' \<and> sl_full vs'
             then Done (MDB_SUCCESS, limit, all_too_small i ks', all_too_small i vs')
             else lmdb_next es (Done (MDB_SUCCESS, i + 1, ks', vs')) (\<lambda>ret. Done (ret, i + 1, ks', vs'))
               (lmdb_kvs_loop mode packed F limit es (i + 1) ks' vs')))))"

definition lmdb_listKeyValues :: "'d lmdb \<Rightarrow> mode_t \<Rightarrow> bool \<Rightarrow> bytes \<Rightarrow> kv_filter \<Rightarrow> bytes \<Rightarrow> size_t list \<Rightarrow> bytes
    \<Rightarrow> size_t list \<Rightarrow> 'd lmdb_db \<Rightarrow> (status \<times> (get_out \<times> get_out) \<times> 'd lmdb_db) outcome" where
  "lmdb_listKeyValues A mode packed fromKey F keys keySizes vals valSizes s =
     with_cursor A mode fromKey
       (\<lparr> g_vals = keys, g_size = usize keys, g_vsizes = keySizes \<rparr>,
        \<lparr> g_vals = vals, g_size = usize vals, g_vsizes = valSizes \<rparr>)
       (obind (no_keys keys keySizes (length keySizes)) (\<lambda>ks.
          obind (no_keys vals valSizes (length keySizes)) (\<lambda>vs. Done (ks, vs))))
       (\<lambda>es d. obind (lmdb_kvs_loop mode packed F (length keySizes) es 0
           \<lparr> sl_data = keys, sl_sizes = keySizes, sl_off = 0, sl_full = False \<rparr>
           \<lparr> sl_data = vals, sl_sizes = valSizes, sl_off = 0, sl_full = False \<rparr>) (\<lambda>(ret, i, ks, vs).
         let d = mdb_txn_abort A (mdb_cursor_close A d) in
         if ret \<noteq> MDB_SUCCESS then
           Done (lmdb_convertStatus ret, (\<lparr> g_vals = sl_data ks, g_size = usize keys, g_vsizes = sl_sizes ks \<rparr>,
             \<lparr> g_vals = sl_data vs, g_size = usize vals, g_vsizes = sl_sizes vs \<rparr>), d)
         else
           Done (OK, (\<lparr> g_vals = sl_data ks, g_size = sl_off ks, g_vsizes = fill_rest i (sl_sizes ks) \<rparr>,
             \<lparr> g_vals = sl_data vs, g_size = sl_off vs, g_vsizes = fill_rest i (sl_sizes vs) \<rparr>), d))) s"

section \<open>iter\<close>

text \<open>How the loop ends: an error of LMDB, a status of the callback, or neither.\<close>

datatype iter_exit = Ended | CursorFailed mdb_ret | CallbackFailed status

fun lmdb_iter_loop :: "kv_filter \<Rightarrow> bool \<Rightarrow> nat \<Rightarrow> (bytes \<Rightarrow> bytes \<Rightarrow> 'st \<Rightarrow> status \<times> 'st)
    \<Rightarrow> mdb_item list \<Rightarrow> nat \<Rightarrow> 'st \<Rightarrow> (iter_exit \<times> 'st) outcome" where
  "lmdb_iter_loop F ignore_values limit func [] i st = Done (Ended, st)"
| "lmdb_iter_loop F ignore_values limit func (e # es) i st =
     (if \<not> (limit = 0 \<or> i < limit) then Done (Ended, st)
      else lmdb_next [e] (Done (Ended, st)) (\<lambda>ret. Done (CursorFailed ret, st))
        (case mdb_current [e] of (_, k, v) \<Rightarrow>
         if \<not> f_check F k v then
           obind (f_stop F k v) (\<lambda>stop.
             if stop then Done (Ended, st)
             else lmdb_next es (Done (Ended, st)) (\<lambda>ret. Done (CursorFailed ret, st))
               (lmdb_iter_loop F ignore_values limit func es i st))
         else (case func k (if ignore_values then [] else v) st of (status, st') \<Rightarrow>
           if status \<noteq> OK then Done (CallbackFailed status, st')
           else lmdb_next es (Done (Ended, st')) (\<lambda>ret. Done (CursorFailed ret, st'))
             (lmdb_iter_loop F ignore_values limit func es (i + 1) st'))))"

text \<open>When the callback fails neither the cursor nor the transaction is closed.\<close>

definition lmdb_iter :: "'d lmdb \<Rightarrow> mode_t \<Rightarrow> size_t \<Rightarrow> bytes \<Rightarrow> kv_filter \<Rightarrow> bool
    \<Rightarrow> (bytes \<Rightarrow> bytes \<Rightarrow> 'st \<Rightarrow> status \<times> 'st) \<Rightarrow> 'd lmdb_db \<Rightarrow> 'st
    \<Rightarrow> (status \<times> 'st \<times> 'd lmdb_db) outcome" where
  "lmdb_iter A mode limit fromKey F ignore_values func s st =
     with_cursor A mode fromKey st (Done st)
       (\<lambda>es d. obind (lmdb_iter_loop F ignore_values (unat limit) func es 0 st) (\<lambda>(exit, st).
         case exit of
           CallbackFailed status \<Rightarrow> Done (status, st, d)
         | CursorFailed ret \<Rightarrow> Done (lmdb_convertStatus ret, st, mdb_txn_abort A (mdb_cursor_close A d))
         | Ended \<Rightarrow> Done (OK, st, mdb_txn_abort A (mdb_cursor_close A d)))) s"

section \<open>Migration\<close>

definition lmdb_startMigration :: "'d lmdb_db \<Rightarrow> status" where
  "lmdb_startMigration s = (if lm_migrated s then Migrated else OK)"

definition lmdb_endMigration :: "bool \<Rightarrow> 'd lmdb_db \<Rightarrow> 'd lmdb_db" where
  "lmdb_endMigration cancel s = (if cancel then s else (lmdb_destroy s)\<lparr> lm_migrated := True \<rparr>)"

end
