(* ===== verification/LmdbProperties.thy ===== *)
theory LmdbProperties
  imports LmdbBackend LsmProperties
begin

unbundle bit_operations_syntax

text \<open>
  What the lmdb backend does over an environment that keeps LMDB's promises, where its listings agree
  with those of the other backends, and what a transaction that \<open>count\<close> leaves open does to the rest.
\<close>

section \<open>An environment that keeps its promises\<close>

datatype phase = Idle | Reading | Writing | Unusable

text \<open>LMDB accepts keys of 1 to 511 bytes.\<close>

definition lmdb_key :: "bytes \<Rightarrow> bool" where
  "lmdb_key k \<longleftrightarrow> 0 < length k \<and> length k \<le> 511"

definition items :: "pairs \<Rightarrow> mdb_item list" where
  "items es = map (\<lambda>(k, v). Item k v) es"

text \<open>
  \<open>phase d\<close> is the transaction that is open, \<open>stored d\<close> the entries in the order of the keys. With no
  transaction open one can begin; while reading, lookups and cursors find what is there; while writing,
  \<open>mdb_put\<close> and \<open>mdb_del\<close> take effect, and a commit keeps them.
\<close>

definition healthy_lmdb :: "'d lmdb \<Rightarrow> ('d \<Rightarrow> phase) \<Rightarrow> ('d \<Rightarrow> pairs) \<Rightarrow> bool" where
  "healthy_lmdb A phase stored \<longleftrightarrow>
     (\<forall>d. phase d \<noteq> Unusable \<longrightarrow> nodes_ok DefaultMemCmp fst (stored d))
     \<and> (\<forall>d. phase d = Idle \<longrightarrow>
         (\<exists>r. mdb_txn_begin A True d = (MDB_SUCCESS, r) \<and> phase r = Reading \<and> stored r = stored d)
         \<and> (\<exists>w. mdb_txn_begin A False d = (MDB_SUCCESS, w) \<and> phase w = Writing \<and> stored w = stored d))
     \<and> (\<forall>d. phase d = Reading \<longrightarrow>
         mdb_stat A d = (MDB_SUCCESS, of_nat (length (stored d)))
         \<and> (\<forall>k. lmdb_key k \<longrightarrow> (case map_of (stored d) k of
              None \<Rightarrow> fst (mdb_get A k d) = MDB_NOTFOUND | Some v \<Rightarrow> mdb_get A k d = (MDB_SUCCESS, v)))
         \<and> (\<exists>d'. mdb_cursor_open A d = (MDB_SUCCESS, d') \<and> phase d' = Reading \<and> stored d' = stored d)
         \<and> phase (mdb_cursor_close A d) = Reading \<and> stored (mdb_cursor_close A d) = stored d
         \<and> mdb_cursor A None d = items (stored d)
         \<and> (\<forall>k. mdb_cursor A (Some k) d = items (lower_bound DefaultMemCmp fst k (stored d)))
         \<and> phase (mdb_txn_abort A d) = Idle \<and> stored (mdb_txn_abort A d) = stored d)
     \<and> (\<forall>d. phase d = Writing \<longrightarrow>
         (\<forall>k v. lmdb_key k \<longrightarrow> (\<exists>d'. mdb_put A k v d = (MDB_SUCCESS, d') \<and> phase d' = Writing
            \<and> map_of (stored d') = (map_of (stored d))(k \<mapsto> v)))
         \<and> (\<forall>k. lmdb_key k \<longrightarrow> (\<exists>ret d'. mdb_del A k d = (ret, d') \<and> ret \<in> {MDB_SUCCESS, MDB_NOTFOUND}
            \<and> phase d' = Writing \<and> map_of (stored d') = (map_of (stored d))(k := None)))
         \<and> (\<exists>d'. mdb_txn_commit A d = (MDB_SUCCESS, d') \<and> phase d' = Idle \<and> stored d' = stored d))"

lemma lmdb_idle:
  assumes "healthy_lmdb A phase stored" "phase d = Idle"
  shows "\<exists>r. mdb_txn_begin A True d = (MDB_SUCCESS, r) \<and> phase r = Reading \<and> stored r = stored d"
    "\<exists>w. mdb_txn_begin A False d = (MDB_SUCCESS, w) \<and> phase w = Writing \<and> stored w = stored d"
  using assms unfolding healthy_lmdb_def by blast+

lemma lmdb_reading:
  assumes "healthy_lmdb A phase stored" "phase d = Reading"
  shows "mdb_stat A d = (MDB_SUCCESS, of_nat (length (stored d)))"
    "lmdb_key k \<Longrightarrow> map_of (stored d) k = None \<Longrightarrow> fst (mdb_get A k d) = MDB_NOTFOUND"
    "lmdb_key k \<Longrightarrow> map_of (stored d) k = Some v \<Longrightarrow> mdb_get A k d = (MDB_SUCCESS, v)"
    "\<exists>d'. mdb_cursor_open A d = (MDB_SUCCESS, d') \<and> phase d' = Reading \<and> stored d' = stored d"
    "phase (mdb_cursor_close A d) = Reading" "stored (mdb_cursor_close A d) = stored d"
    "mdb_cursor A None d = items (stored d)"
    "mdb_cursor A (Some k) d = items (lower_bound DefaultMemCmp fst k (stored d))"
    "phase (mdb_txn_abort A d) = Idle" "stored (mdb_txn_abort A d) = stored d"
proof -
  have get: "lmdb_key k \<Longrightarrow> (case map_of (stored d) k of None \<Rightarrow> fst (mdb_get A k d) = MDB_NOTFOUND
      | Some v \<Rightarrow> mdb_get A k d = (MDB_SUCCESS, v))"
    using assms unfolding healthy_lmdb_def by blast
  show "lmdb_key k \<Longrightarrow> map_of (stored d) k = None \<Longrightarrow> fst (mdb_get A k d) = MDB_NOTFOUND"
    "lmdb_key k \<Longrightarrow> map_of (stored d) k = Some v \<Longrightarrow> mdb_get A k d = (MDB_SUCCESS, v)"
    using get by simp_all
qed (use assms in \<open>unfold healthy_lmdb_def, blast\<close>)+

lemma lmdb_writing:
  assumes "healthy_lmdb A phase stored" "phase d = Writing"
  shows "lmdb_key k \<Longrightarrow> \<exists>d'. mdb_put A k v d = (MDB_SUCCESS, d') \<and> phase d' = Writing
      \<and> map_of (stored d') = (map_of (stored d))(k \<mapsto> v)"
    "lmdb_key k \<Longrightarrow> \<exists>ret d'. mdb_del A k d = (ret, d') \<and> ret \<in> {MDB_SUCCESS, MDB_NOTFOUND}
      \<and> phase d' = Writing \<and> map_of (stored d') = (map_of (stored d))(k := None)"
    "\<exists>d'. mdb_txn_commit A d = (MDB_SUCCESS, d') \<and> phase d' = Idle \<and> stored d' = stored d"
  using assms unfolding healthy_lmdb_def by blast+

text \<open>One that exists, for the examples: the phase and the pairs.\<close>

definition mem_lmdb :: "(phase \<times> pairs) lmdb" where
  "mem_lmdb = \<lparr>
     mdb_txn_begin = (\<lambda>rdonly d. if fst d = Idle then (MDB_SUCCESS, if rdonly then Reading else Writing, snd d)
        else (MDB_BAD_RSLOT, d)),
     mdb_txn_abort = (\<lambda>d. (Idle, snd d)),
     mdb_txn_commit = (\<lambda>d. (MDB_SUCCESS, Idle, snd d)),
     mdb_stat = (\<lambda>d. (MDB_SUCCESS, of_nat (length (snd d)))),
     mdb_get = (\<lambda>k d. case map_of (snd d) k of None \<Rightarrow> (MDB_NOTFOUND, []) | Some v \<Rightarrow> (MDB_SUCCESS, v)),
     mdb_put = (\<lambda>k v d. (MDB_SUCCESS, fst d, mem_insert k v (snd d))),
     mdb_del = (\<lambda>k d. (MDB_SUCCESS, fst d, c_erase (std_map DefaultMemCmp) k (snd d))),
     mdb_cursor_open = (\<lambda>d. (MDB_SUCCESS, d)),
     mdb_cursor_close = (\<lambda>d. d),
     mdb_cursor = (\<lambda>from d. items (case from of None \<Rightarrow> snd d | Some k \<Rightarrow> lower_bound DefaultMemCmp fst k (snd d))) \<rparr>"

definition mem_phase :: "phase \<times> pairs \<Rightarrow> phase" where
  "mem_phase d = (if nodes_ok DefaultMemCmp fst (snd d) then fst d else Unusable)"

lemma mem_lmdb_healthy: "healthy_lmdb mem_lmdb mem_phase snd"
proof -
  note R = map_is_reader [OF memcmp_total]
  show ?thesis
    using mem_insert_law kv_reader.erase_inv [OF R] kv_reader.erase_abs [OF R]
    unfolding healthy_lmdb_def mem_lmdb_def mem_phase_def
    by (auto split: option.splits)
qed

section \<open>put, get and erase\<close>

lemma lmdb_put_loop_law:
  assumes "healthy_lmdb A phase stored" "length ks = length vs" "phase d = Writing" "\<forall>k \<in> set ks. lmdb_key k"
    "um_data keys = kpre @ concat ks @ kpost" "fits (um_data keys)" "vals = vpre @ concat vs @ vpost" "fits vals"
  shows "\<exists>d'. lmdb_put_loop A keys vals (zip (map usize ks) (map usize vs)) (usize kpre) (usize vpre) d
      = Done (OK, (), d') \<and> phase d' = Idle \<and> map_of (stored d') = (map_of (stored d))(ks [\<mapsto>] vs)"
  using assms(2-)
proof (induction ks vs arbitrary: kpre vpre d rule: list_induct2)
  case Nil
  then show ?case using lmdb_writing(3) [OF assms(1)] by (fastforce simp: lmdb_convertStatus_def)
next
  case (Cons k ks v vs)
  have views: "sub_umem keys (usize kpre) (usize k) = Done \<lparr> um_addr = um_addr keys + usize kpre, um_data = k \<rparr>"
    "sub_bytes vals (usize vpre) (usize v) = Done v"
    using Cons.prems sub_umem_append [where post = "concat ks @ kpost"] by (auto simp: sub_bytes_append)
  obtain d1 where put: "mdb_put A k v d = (MDB_SUCCESS, d1)" "phase d1 = Writing"
    "map_of (stored d1) = (map_of (stored d))(k \<mapsto> v)"
    using lmdb_writing(1) [OF assms(1) Cons.prems(1), of k v] Cons.prems(2) by auto
  have "\<exists>d'. lmdb_put_loop A keys vals (zip (map usize ks) (map usize vs)) (usize (kpre @ k)) (usize (vpre @ v)) d1
      = Done (OK, (), d') \<and> phase d' = Idle \<and> map_of (stored d') = (map_of (stored d1))(ks [\<mapsto>] vs)"
    using Cons.prems put(2) by (intro Cons.IH) auto
  then show ?case using views put by (simp add: usize_append)
qed

lemma lmdb_put_law:
  assumes "healthy_lmdb A phase stored" "lm_env s = Some d" "phase d = Idle" "\<not> lm_migrated s"
    "packs (um_data keys) ks ksizes" "packs vals vs vsizes" "length ks = length vs" "\<forall>k \<in> set ks. lmdb_key k"
  obtains d' where "lmdb_put A mode keys ksizes vals vsizes s = Done (OK, (), s\<lparr> lm_env := Some d' \<rparr>)"
    "phase d' = Idle" "map_of (stored d') = (map_of (stored d))(ks [\<mapsto>] vs)"
proof -
  obtain kpost where k: "ksizes = map usize ks" "fits (um_data keys)" "um_data keys = concat ks @ kpost"
    using assms(5) by (rule packsE)
  obtain vpost where v: "vsizes = map usize vs" "fits vals" "vals = concat vs @ vpost"
    using assms(6) by (rule packsE)
  obtain w where w: "mdb_txn_begin A False d = (MDB_SUCCESS, w)" "phase w = Writing" "stored w = stored d"
    using lmdb_idle(2) [OF assms(1,3)] by blast
  obtain d' where "lmdb_put_loop A keys vals (zip (map usize ks) (map usize vs)) (usize ([] :: bytes))
      (usize ([] :: bytes)) w = Done (OK, (), d')" "phase d' = Idle" "map_of (stored d') = (map_of (stored w))(ks [\<mapsto>] vs)"
    using lmdb_put_loop_law [OF assms(1,7) w(2) assms(8), of keys "[]" kpost vals "[]" vpost] k v by auto
  then show thesis
    using that [of d'] w assms(2,4,7) packs_accumulate [OF assms(5)] packs_accumulate [OF assms(6)] k(1) v(1)
    by (simp add: lmdb_put_def in_txn_def)
qed

text \<open>A lookup of a key of the buffer is a lookup in a store of the same pairs.\<close>

lemma lmdb_lookup:
  assumes "healthy_lmdb A phase stored" "phase d = Reading" "lmdb_key k"
  obtains w where "mdb_get A k d = (MDB_NOTFOUND, w)" "st_get mem_store k (stored d) = (SNotFound, [])"
  | v where "mdb_get A k d = (MDB_SUCCESS, v)" "st_get mem_store k (stored d) = (SOk, v)"
  using lmdb_reading(2,3) [OF assms(1,2,3)]
  by (cases "map_of (stored d) k"; cases "mdb_get A k d") (auto simp: mem_store_def)

lemma lmdb_get_packed_loop_like:
  assumes "healthy_lmdb A phase stored" "phase d = Reading" "\<forall>k \<in> set ks. lmdb_key k"
    "um_data keys = kpre @ concat ks @ kpost" "fits (um_data keys)"
  shows "lmdb_get_packed_loop A past keys (map usize ks) i (usize kpre) val_offset remaining out d
    = obind (lsm_get_packed_loop mem_store past keys (map usize ks) i (usize kpre) val_offset remaining out (stored d))
        (\<lambda>out. Done (OK, out, mdb_txn_abort A d))"
  using assms(3-)
proof (induction ks arbitrary: kpre i val_offset remaining out)
  case (Cons k ks)
  have key: "sub_umem keys (usize kpre) (usize k) = Done \<lparr> um_addr = um_addr keys + usize kpre, um_data = k \<rparr>"
    using Cons.prems(2,3) by (intro sub_umem_append [where post = "concat ks @ kpost"]) auto
  have IH: "lmdb_get_packed_loop A past keys (map usize ks) j (usize kpre + usize k) vo rem out' d
    = obind (lsm_get_packed_loop mem_store past keys (map usize ks) j (usize kpre + usize k) vo rem out' (stored d))
        (\<lambda>out. Done (OK, out, mdb_txn_abort A d))" for j vo rem out'
    using Cons.IH [of "kpre @ k" j vo rem out'] Cons.prems by (simp add: usize_append)
  have "lmdb_key k" using Cons.prems(1) by simp
  from assms(1,2) this show ?case
    by (rule lmdb_lookup) (simp_all add: key IH obind_assoc)
qed simp

lemma lmdb_put_get_roundtrip:
  assumes "healthy_lmdb A phase stored" "lm_env s = Some d" "phase d = Idle" "\<not> lm_migrated s"
    and "packs (um_data keys) ks ksizes" "packs vals vs vsizes" "length ks = length vs" "\<forall>k \<in> set ks. lmdb_key k"
    and "distinct ks" "\<forall>v \<in> ran (map_of (stored d)) \<union> set vs. sized v"
    and "fits buf" "length (concat vs) \<le> length buf" "length sizes = length ks"
    and "\<not> has_mode mode YOKAN_MODE_CONSUME"
  shows "\<exists>s' s'' d'. lmdb_put A mode keys ksizes vals vsizes s = Done (OK, (), s')
    \<and> lmdb_get A Undef mode True keys ksizes buf sizes s'
      = Done (OK, \<lparr> g_vals = concat vs @ drop (length (concat vs)) buf, g_size = usize (concat vs),
                    g_vsizes = vsizes \<rparr>, s'')
    \<and> lm_env s'' = Some d' \<and> phase d' = Idle"
proof -
  let ?m = "map_of (stored d)"
  obtain d1 where put: "lmdb_put A mode keys ksizes vals vsizes s = Done (OK, (), s\<lparr> lm_env := Some d1 \<rparr>)"
    "phase d1 = Idle" "map_of (stored d1) = ?m(ks [\<mapsto>] vs)"
    by (rule lmdb_put_law [OF assms(1-8)])
  obtain r where r: "mdb_txn_begin A True d1 = (MDB_SUCCESS, r)" "phase r = Reading" "stored r = stored d1"
    using lmdb_idle(1) [OF assms(1) put(2)] by blast
  obtain post where k: "ksizes = map usize ks" "fits (um_data keys)" "um_data keys = concat ks @ post"
    using assms(5) by (rule packsE)
  have vsizes: "vsizes = map usize vs" using assms(6) by (rule packsE)
  have found: "map (map_of (stored d1)) ks = map Some vs"
    unfolding put(3) by (rule map_upds_distinct [OF assms(7,9)])
  have "lsm_pack_spec (map_of (stored d1)) (length buf) ks = (map usize vs, concat vs)"
    using lsm_pack_spec_enough [of "map_of (stored d1)" ks "length buf"]
      pack_spec_values [OF found] values_of_found [OF found] assms(12) by simp
  moreover have "\<forall>v \<in> ran (map_of (stored d1)). sized v"
    using assms(10) ran_map_upds_subset [of ?m ks vs] by (auto simp: put(3))
  moreover have "nodes_ok DefaultMemCmp fst (stored d1)"
    using assms(1) put(2) unfolding healthy_lmdb_def by (metis phase.distinct(5))
  ultimately have "lsm_get_packed_loop mem_store Undef keys (map usize ks) (length ([] :: size_t list))
      (usize ([] :: bytes)) (usize ([] :: bytes)) (usize buf)
      \<lparr> g_vals = [] @ buf, g_size = usize buf, g_vsizes = sizes \<rparr> (stored d1)
    = Done \<lparr> g_vals = [] @ concat vs @ drop (length (concat vs)) buf, g_size = usize ([] @ concat vs),
        g_vsizes = [] @ map usize vs \<rparr>"
    using k assms(11-13) values_of_found [OF found]
    by (intro lsm_get_packed_loop_law [OF mem_store_healthy]) (auto simp: k)
  moreover have "lmdb_get_packed_loop A Undef keys (map usize ks) 0 (usize ([] :: bytes)) 0 (usize buf)
      \<lparr> g_vals = buf, g_size = usize buf, g_vsizes = sizes \<rparr> r
    = obind (lsm_get_packed_loop mem_store Undef keys (map usize ks) 0 (usize ([] :: bytes)) 0 (usize buf)
        \<lparr> g_vals = buf, g_size = usize buf, g_vsizes = sizes \<rparr> (stored r)) (\<lambda>out. Done (OK, out, mdb_txn_abort A r))"
    by (rule lmdb_get_packed_loop_like [OF assms(1) r(2) assms(8), of keys "[]" post]) (use k in auto)
  ultimately show ?thesis
    using put r assms(4,13,14) lmdb_reading(9) [OF assms(1) r(2)]
    by (simp add: lmdb_get_def in_txn_def lmdb_consume_def k(1) vsizes)
qed

section \<open>Listings\<close>

lemma lmdb_next_items:
  "(es = [] \<Longrightarrow> go_on = done) \<Longrightarrow> lmdb_next (items es) done refused go_on = go_on"
  by (cases es) (auto simp: lmdb_next_def items_def)

lemma lmdb_next_item: "lmdb_next [Item k v] done refused go_on = go_on"
  by (simp add: lmdb_next_def)

lemma lmdb_keys_loop_like:
  "lmdb_keys_loop mode packed F limit (items es) i sl
    = obind (lsm_keys_loop mode packed F limit es i sl) (\<lambda>(i, sl). Done (MDB_SUCCESS, i, sl))"
proof (induction es arbitrary: i sl)
  case (Cons e es)
  obtain k v where e: "e = (k, v)" by (cases e)
  have next_one: "lmdb_next (items es) (Done (MDB_SUCCESS, j, sl')) refused
      (obind (lsm_keys_loop mode packed F limit es j sl') (\<lambda>a. Done (MDB_SUCCESS, a)))
    = obind (lsm_keys_loop mode packed F limit es j sl') (\<lambda>a. Done (MDB_SUCCESS, a))" for j sl' refused
    by (rule lmdb_next_items) simp
  have items: "items (e # es) = Item k v # items es" by (simp add: items_def e)
  show ?case
    unfolding items
    by (simp add: e next_one lmdb_next_item Cons.IH obind_assoc if_distrib [of "\<lambda>m. obind m _"]
        cong: if_cong)
qed (simp add: items_def)

text \<open>A listing over a healthy environment is the listing of the other store backends over the same pairs.\<close>

lemma lmdb_start_like:
  assumes "healthy_lmdb A phase stored" "phase d = Reading"
  shows "lmdb_start A mode from d
    = (if st_scan mem_store (if from = [] then None else Some from) (stored d) = [] then NoKeys
       else if \<not> has_mode mode YOKAN_MODE_INCLUSIVE \<and> from \<noteq> []
         \<and> map fst (st_scan mem_store (Some from) (stored d)) = [from] then Refused NotFound
       else Started (items (lsm_start mem_store mode from (stored d))))"
proof -
  have scan: "mdb_cursor A (if length from = 0 then None else Some from) d
      = items (st_scan mem_store (if from = [] then None else Some from) (stored d))"
    using lmdb_reading(7,8) [OF assms] by (simp add: mem_store_def)
  show ?thesis
    unfolding lmdb_start_def scan
    by (cases "st_scan mem_store (if from = [] then None else Some from) (stored d)")
      (auto simp: items_def lsm_start_def lmdb_convertStatus_def neq_Nil_conv split: list.splits)
qed

lemma lmdb_listKeys_like:
  assumes "healthy_lmdb A phase stored" "lm_env s = Some d" "phase d = Idle" "\<not> lm_migrated s"
    and "length keySizes < 4294967296"
    and "has_mode mode YOKAN_MODE_INCLUSIVE \<or> from = []
      \<or> map fst (lower_bound DefaultMemCmp fst from (stored d)) \<noteq> [from]"
  shows "\<exists>d'. phase d' = Idle \<and> stored d' = stored d
    \<and> lmdb_listKeys A mode packed from F keys keySizes s
      = obind (lsm_listKeys mem_store mode packed from F keys keySizes
          \<lparr> ls_store = stored d, ls_migrated = False, ls_write_batch = wb \<rparr>)
          (\<lambda>(st, out). Done (st, out, s\<lparr> lm_env := Some d' \<rparr>))"
proof -
  obtain r where r: "mdb_txn_begin A True d = (MDB_SUCCESS, r)" "phase r = Reading" "stored r = stored d"
    using lmdb_idle(1) [OF assms(1,3)] by blast
  obtain c where c: "mdb_cursor_open A r = (MDB_SUCCESS, c)" "phase c = Reading" "stored c = stored d"
    using lmdb_reading(4) [OF assms(1) r(2)] r(3) by auto
  let ?scan = "st_scan mem_store (if from = [] then None else Some from) (stored d)"
  have start: "lmdb_start A mode from c = (if ?scan = [] then NoKeys
      else Started (items (lsm_start mem_store mode from (stored d))))"
    using lmdb_start_like [OF assms(1) c(2), of mode "from"] assms(6)
    by (auto simp: c(3) mem_store_def)
  have none: "?scan = [] \<Longrightarrow> lsm_start mem_store mode from (stored d) = []"
    by (auto simp: lsm_start_def split: if_splits)
  note c' = lmdb_reading(5,6) [OF assms(1) c(2)]
  note closed = lmdb_reading(9,10) [OF assms(1) c(2)] lmdb_reading(9,10) [OF assms(1) c'(1)]
  show ?thesis
  proof (cases "?scan = []")
    case True
    then show ?thesis
      using closed(1,2) c(3) none assms(5) start
      by (intro exI [of _ "mdb_txn_abort A c"])
        (simp add: lmdb_listKeys_def with_cursor_def in_txn_def assms(2,4) r(1) c(1) no_keys_def lsm_listKeys_def)
  next
    case False
    then show ?thesis
      using closed(3,4) c(3) c'(2) assms(5) start
      by (intro exI [of _ "mdb_txn_abort A (mdb_cursor_close A c)"])
        (simp add: lmdb_listKeys_def with_cursor_def in_txn_def assms(2,4) r(1) c(1) lsm_listKeys_def
          lmdb_keys_loop_like obind_assoc Let_def case_prod_unfold)
  qed
qed

lemma last_lower_bound:
  assumes "nodes_ok DefaultMemCmp fst (es @ [(k, v)])"
  shows "lower_bound DefaultMemCmp fst k (es @ [(k, v)]) = [(k, v)]"
    "upper_bound DefaultMemCmp fst k (es @ [(k, v)]) = []"
proof -
  have below: "\<forall>e \<in> set es. DefaultMemCmp (fst e) k"
    using assms by (auto simp: nodes_ok_def sorted_wrt_append)
  then show "lower_bound DefaultMemCmp fst k (es @ [(k, v)]) = [(k, v)]"
    by (simp add: lower_bound_def memcmp_order.lt_irrefl dropWhile_append2)
  show "upper_bound DefaultMemCmp fst k (es @ [(k, v)]) = []"
    using below memcmp_order.lt_asym memcmp_order.lt_irrefl by (auto simp: upper_bound_def)
qed

text \<open>
  C29: a client that pages through the keys asks for those after the last one it was given. When that was
  the last key of the database, \<open>LMDBDatabase::listKeys\<close> fails with \<open>NotFound\<close> and writes nothing, where
  \<open>MapDatabase::listKeys\<close> succeeds and marks every slot as having no more keys.
\<close>

theorem lmdb_listKeys_last_fails:
  assumes "healthy_lmdb A phase stored" "lm_env s = Some d" "phase d = Idle" "\<not> lm_migrated s"
    and "stored d = es @ [(from, v)]" "from \<noteq> []" "\<not> has_mode mode YOKAN_MODE_INCLUSIVE"
    and "m_db m = stored d" "\<not> m_migrated m"
  shows "(\<exists>s'. lmdb_listKeys A mode packed from F keys keySizes s
        = Done (NotFound, \<lparr> g_vals = keys, g_size = usize keys, g_vsizes = keySizes \<rparr>, s'))
    \<and> map_listKeys DefaultMemCmp mode packed from F keys keySizes m
        = Done (OK, \<lparr> g_vals = keys, g_size = 0, g_vsizes = replicate (length keySizes) YOKAN_NO_MORE_KEYS \<rparr>)"
proof -
  obtain r where r: "mdb_txn_begin A True d = (MDB_SUCCESS, r)" "phase r = Reading" "stored r = stored d"
    using lmdb_idle(1) [OF assms(1,3)] by blast
  obtain c where c: "mdb_cursor_open A r = (MDB_SUCCESS, c)" "phase c = Reading" "stored c = stored d"
    using lmdb_reading(4) [OF assms(1) r(2)] r(3) by auto
  have "nodes_ok DefaultMemCmp fst (stored d)"
    using assms(1,3) unfolding healthy_lmdb_def by (metis phase.distinct(5))
  note bounds = last_lower_bound [OF this [unfolded assms(5)]]
  have "lmdb_start A mode from c = Refused NotFound"
    using lmdb_start_like [OF assms(1) c(2), of mode "from"] assms(6,7) bounds(1)
    by (simp add: c(3) assms(5) mem_store_def)
  then have "\<exists>s'. lmdb_listKeys A mode packed from F keys keySizes s
      = Done (NotFound, \<lparr> g_vals = keys, g_size = usize keys, g_vsizes = keySizes \<rparr>, s')"
    by (simp add: lmdb_listKeys_def with_cursor_def in_txn_def assms(2,4) r(1) c(1))
  moreover have "walk_start DefaultMemCmp fst mode from (m_db m) = []"
    using assms(5-8) bounds(2) by (simp add: walk_start_def)
  ultimately show ?thesis
    using assms(9) by (simp add: map_listKeys_def list_keys_def fill_rest_def)
qed

theorem lmdb_listKeys_last_fails_witness:
  "(\<exists>s'. lmdb_listKeys mem_lmdb 0 True [2] (KeyPrefixFilter 0 []) [0, 0] [0, 0]
        \<lparr> lm_env = Some (Idle, [([1], [5]), ([2], [6])]), lm_migrated = False \<rparr>
        = Done (NotFound, \<lparr> g_vals = [0, 0], g_size = 2, g_vsizes = [0, 0] \<rparr>, s'))
    \<and> map_listKeys DefaultMemCmp 0 True [2] (KeyPrefixFilter 0 []) [0, 0] [0, 0] (map_db [([1], [5]), ([2], [6])])
        = Done (OK, \<lparr> g_vals = [0, 0], g_size = 0, g_vsizes = [YOKAN_NO_MORE_KEYS, YOKAN_NO_MORE_KEYS] \<rparr>)"
  using lmdb_listKeys_last_fails [OF mem_lmdb_healthy,
      of "\<lparr> lm_env = Some (Idle, [([1], [5]), ([2], [6])]), lm_migrated = False \<rparr>"
      "(Idle, [([1], [5]), ([2], [6])])" "[([1], [5])]" "[2]" "[6]" 0 "map_db [([1], [5]), ([2], [6])]"
      True "KeyPrefixFilter 0 []" "[0, 0]" "[0, 0]"]
  by (simp add: mem_phase_def walk_concrete numeral_2_eq_2)

section \<open>The transaction that count leaves open\<close>


definition blocked :: "('d \<Rightarrow> bool) \<Rightarrow> 'd lmdb_db \<Rightarrow> bool" where
  "blocked busy s \<longleftrightarrow> \<not> lm_migrated s \<and> (\<exists>d. lm_env s = Some d \<and> busy d)"

text \<open>A read that answers \<open>Other\<close>, leaves the caller's buffers as they were, and changes nothing for the next.\<close>

definition refused :: "('d \<Rightarrow> bool) \<Rightarrow> 'r \<Rightarrow> (status \<times> 'r \<times> 'd lmdb_db) outcome \<Rightarrow> bool" where
  "refused busy out r \<longleftrightarrow> (\<exists>t. r = Done (Other, out, t) \<and> blocked busy t)"






end
