(* ===== verification/Spec2Isabelle.thy ===== *)
theory Spec2Isabelle
  imports LogProperties RpcMulti Serving DocService NullBackend IterProperties LsmProperties LmdbProperties
begin

text \<open>
  A verification development for Yokan (mochi-rkv), the key/value and document store of the
  Mochi services.

  \<^bold>\<open>The program.\<close> A provider (src/src/server) owns databases. A database is a subclass of
  \<open>DatabaseInterface\<close> (include/yokan/backend.hpp) chosen by name: the in-memory backends map,
  unordered_map, set and unordered_set, the document stores array (in memory) and log (in
  memory-mapped files), and adapters for third-party stores. The client library (src/src/client)
  exposes the caller's buffers as one region and sends a request; an RPC handler takes a buffer from
  the provider's bulk cache (src/src/buffer), pulls the region into it, calls one operation of the
  database on views of the buffer and pushes the results back. With \<open>NO_RDMA\<close> the arguments and the
  results travel inside the request and the answer (the \<open>direct\<close> handlers). The operations work on
  \<^emph>\<open>packed\<close> buffers: the keys (or values) one after the other in one \<open>UserMem\<close>, their sizes in an
  array of \<open>size_t\<close>. Mode bits (common.h) select appending, consuming, waiting, and so on.
  Three parts are shared by the backends: the key watcher (watcher.hpp), on which a \<open>get\<close> waits
  for a key that is not there yet, the filters (server/util/filters.cpp) that the listing
  operations consult, and \<open>DocumentStoreMixin\<close> (doc-mixin.hpp), which builds collections of
  documents out of the key/value operations.

  \<^bold>\<open>The theories, in import order.\<close>
  \<^item> \<open>Prelude\<close>: bytes, \<open>size_t\<close> as a 64-bit word, the outcome of a C++ run (\<open>Done\<close>, \<open>Undef\<close> for an
    access outside a buffer, \<open>Hung\<close> for a run that never returns), views into buffers
    (usermem.hpp), \<open>packs\<close> (sizes that describe a buffer), \<open>memcmp\<close>, the bytes of a \<open>size_t\<close>.
  \<^item> \<open>Backend\<close>: return values, size sentinels and modes of common.h, \<open>Status\<close> and \<open>BitField\<close> of
    backend.hpp, the copy helpers of common/modes.hpp.
  \<^item> \<open>Comparator\<close>: \<open>DefaultMemCmp\<close>, and the locales \<open>weak_comparator\<close> and \<open>total_comparator\<close> that
    a comparator has to satisfy; a configured comparator is an argument.
  \<^item> \<open>Watcher\<close>, \<open>Waiting\<close>: \<open>KeyWatcher\<close> (its multimap as an ordered list of nodes), \<open>waitKey\<close> and
    the \<open>retry:\<close> loop the backends put around it.
  \<^item> \<open>KvEngine\<close>, \<open>KvContract\<close>: \<open>count\<close>, \<open>exists\<close>, \<open>length\<close>, \<open>put\<close>, \<open>get\<close>, \<open>fetch\<close> and \<open>erase\<close> of map.cpp
    and unordered_map.cpp over a record of container operations; the locales \<open>kv_reader\<close> and
    \<open>kv_container\<close> state what a container owes them and what the operations then do to the
    finite map the container holds.
  \<^item> \<open>StdContainers\<close>: \<open>std::map\<close> as the list of its nodes under a comparator,
    \<open>std::unordered_map\<close> as the list of its nodes in an order (\<open>layout\<close>) left open; both satisfy
    \<open>kv_container\<close>.
  \<^item> \<open>Filters\<close>, \<open>Listing\<close>: the filters as records of their virtual functions, the descriptor
    parser of \<open>FilterFactory\<close>, the contract of a filter whose \<open>shouldStop\<close> loses nothing, and the
    walks behind \<open>listKeys\<close>, \<open>listKeyValues\<close> and \<open>iter\<close>.
  \<^item> \<open>KeySets\<close>: set.cpp and unordered_set.cpp. \<open>Migration\<close>: snapshots, migration handles,
    \<open>recover\<close>. \<open>MapBackend\<close>: the four in-memory backends put together, one definition per virtual
    function, named \<open>map_put\<close>, \<open>umap_put\<close>, \<open>set_put\<close>, \<open>uset_put\<close>, and so on.
  \<^item> \<open>Endian\<close>, \<open>DocMixin\<close>, \<open>DocContract\<close>: \<open>DocumentStoreMixin\<close> over a record of the operations it
    calls; the locale \<open>doc_backend\<close> states what it relies on, and the map and the unordered map
    backend are interpretations of it.
  \<^item> \<open>ArrayBackend\<close>: array.cpp, collections as arrays of offsets and sizes into one buffer.
  \<^item> \<open>LruCache\<close>, \<open>MappedFile\<close>, \<open>LogCollection\<close>, \<open>LogContract\<close>, \<open>LogBackend\<close>: log.cpp. The cache of
    open chunks over a factory (locale \<open>object_factory\<close>, interpreted on the mapping of chunk files);
    \<open>MemoryMappedFile\<close> over a file system, a map from paths to bytes; \<open>Collection\<close>, whose header and
    entries are bytes of its metadata file; its invariant \<open>log_ok\<close> and the finite map \<open>log_docs\<close> the
    files stand for; the virtual functions \<open>log_docStore\<close>, \<open>log_docUpdate\<close>, and so on.
  \<^item> \<open>NullBackend\<close>: null.cpp, which stores nothing.
  \<^item> \<open>LsmEngine\<close>, \<open>LsmListing\<close>, \<open>LsmProperties\<close>: leveldb.cpp and rocksdb.cpp, the same code over two stores;
    the store (record \<open>store\<close>) is an argument, any status is possible. \<open>healthy_store\<close> is what the stores
    document when they work: then a put is a map update, a get brings it back, and \<open>exists\<close>, \<open>length\<close>,
    \<open>listKeys\<close> and \<open>iter\<close> agree with the map backend, up to the differences the lemmas state.
  \<^item> \<open>LmdbBackend\<close>, \<open>LmdbProperties\<close>: lmdb.cpp over LMDB (record \<open>lmdb\<close>, an argument): its transactions are
    begun, ended and left open where the code does so; a cursor is the list of what it will find.
    \<open>healthy_lmdb\<close> is what LMDB documents, by the phase of the transaction that is open.
  \<^item> \<open>KvSafety\<close>: what survives every operation under every argument and interleaving.
  \<^item> \<open>MapProperties\<close>, \<open>SetProperties\<close>, \<open>ListProperties\<close>, \<open>MigrationProperties\<close>, \<open>DocProperties\<close>,
    \<open>ArrayProperties\<close>, \<open>LogProperties\<close>: the properties, with concrete instances of their hypotheses.

  \<^item> \<open>BulkCache\<close>, \<open>BulkCacheContract\<close>: the three caches of src/src/buffer over an allocator; the locale
    \<open>buffer_pool\<close> (what a handler that takes and gives back a buffer may rely on) and its three
    interpretations \<open>default_pool\<close>, \<open>keep_all_pool\<close> and \<open>lru_pool\<close>.
  \<^item> \<open>Rpc\<close>: what Margo gives a handler (record \<open>rpc\<close>), the world of a provider (its database, its
    bulk cache, the memory of the origin), the checks of checks.h, the transfers, and the assumption
    \<open>margo_ok\<close> on them. \<open>KvHandlers\<close>, \<open>DocHandlers\<close>: the handlers of src/src/server, one \<open>yk_..._ult\<close>
    and one \<open>yk_..._direct_ult\<close> per file; \<open>..._work\<close> is the part that has a buffer.
  \<^item> \<open>KvClient\<close>, \<open>KvClientQuery\<close>: the key/value calls of src/src/client, named as in database.h; a
    null pointer is \<open>None\<close>, the buffers a call fills are part of its result. \<open>DocClient\<close>: the calls of
    collection.h, in the same way.
  \<^item> \<open>BackRpc\<close>, \<open>FetchHandlers\<close>, \<open>FetchClient\<close>: fetch, iter, doc_fetch and doc_iter, whose handlers send
    batches back to the client: the RPC in flight (record \<open>back_rpc\<close>), the handlers of src/src/server, the
    calls of src/src/client and its handlers, which run the user's function in place or in a pool
    (\<open>pool\<close>, the order in which it runs them). The reference to the client's context that a request
    carries is the context itself.
  \<^item> \<open>RpcContract\<close>, \<open>RpcTransfers\<close>: every handler gives its buffer back (\<open>keeps\<close>), and the laws of put
    and get from the client's buffers to the database and back, proved inside \<open>buffer_pool\<close>.
    \<open>Loopback\<close>: a Margo of one process, which shows that the assumptions can hold.
  \<^item> \<open>RpcProperties\<close>, \<open>RpcTypes\<close>, \<open>RpcMulti\<close>: client, transfer, handler and map backend together.
    \<open>Provider\<close>, \<open>DocService\<close>: the two interfaces of a backend with the document mixin on top, and
    the document calls of a client that talks to it. \<open>Serving\<close>: a
    provider that serves a list of requests, and its pool of buffers.

  \<^item> \<open>BackContract\<close>: the abstract fetch (\<open>offer_batches\<close>) and iteration (\<open>offer_ahead\<close>), and the loop over
    the batches. \<open>FetchProperties\<close>, \<open>IterProperties\<close>: client, handler, map backend and the client's handler
    together refine them.

  \<^bold>\<open>State and operations.\<close> A database is a record with the fields of its class (\<open>m_migrated\<close>,
  \<open>m_watcher\<close>, \<open>m_db\<close>; \<open>dm_cache\<close> and \<open>dm_db\<close> for the mixin). An operation takes its arguments in
  the order of the code and returns its status, the buffers it wrote and the new database, in an
  \<open>outcome\<close>. \<open>UserMem\<close> carries an address besides its bytes because \<open>waitKey\<close> compares pointers.

  \<^bold>\<open>Concurrency.\<close> The backends hold a lock throughout an operation, except while they wait and,
  in \<open>get\<close> with \<open>CONSUME\<close>, between reading and erasing. What other threads do at these points is
  an argument of the operation: a list of state transformers, one consumed at each point. The
  list is arbitrary, so a theorem over all lists is a theorem over all interleavings; when it is
  used up nobody acts any more, and a thread that still waits is \<open>Hung\<close>. \<open>map_reach\<close> is the
  step relation of all operations of all clients, the actions being themselves sequences of
  steps.

  \<^bold>\<open>Loops.\<close> Loops over the caller's sizes recurse on the list of sizes. Loops over a file or a
  listing have a measure (the bytes left, the identifiers left). No fuel is used: a loop of the
  code that never ends (\<open>SelSpin\<close> in \<open>waitKey\<close>) is the value \<open>Hung\<close>. The loop of the log backend's
  \<open>docIter\<close>, which may or may not end, is a \<open>partial_function\<close> into options, and \<open>None\<close> is \<open>Hung\<close>.

  \<^bold>\<open>Margo.\<close> Mercury, Margo and Argobots are not in the repository. A transfer, an address lookup and
  an RPC are functions in the records \<open>rpc\<close>, \<open>channel\<close> and \<open>bulk_api\<close>, arguments of every handler and
  client call, and any return value is possible. The theorems about data that crosses the network
  assume \<open>margo_ok\<close>, \<open>reaches\<close> and \<open>bulk_ok\<close>: a transfer inside both sides copies bytes, one that leaves a
  side fails and changes nothing, the provider exists, buffers can be exposed. A handler runs to its
  end before the next one starts; what handlers that run at the same time do to the bulk cache is
  \<open>pool_run\<close>, any order of takes and returns.

  \<^bold>\<open>What the lemmas show.\<close> C1, C2, C4, C5, C17 to C21: the map backends refine a finite map, mode by
  mode, with the exact contents of the buffers; their invariant under interleaving; when a waiting
  client wakes up and when it does not. C3, C6 to C16: the service: a put over the network
  is the update of the stored map, a get brings the stored values, a direct call and a transfer
  agree, answers always decode, documents come back, a fetch and an iteration offer every pair in
  order until one is refused (and how the code departs from that), every buffer returns to its pool, the
  pool is bounded; and what goes wrong: bytes of earlier requests that reach a client, a single absent
  key reported as a failed transfer. C22 and C23: the set backends. C24: what the walks deliver
  under the filters. C25: migration. C26 and C27: the leveldb and rocksdb backends bring back what was put,
  and list what the map backend lists. C28 and C29: what goes wrong in the lmdb backend: the transaction
  that \<open>count\<close> leaves open, and the listing after the last key. C30 and C31: document collections
  over a key/value backend. C32: the array backend. C33 to C40: the log backend as a map from
  identifiers to documents, its agreement with the array backend, opening its files again, when its
  iteration ends and when it does not, the updates that are lost, and the chunk cache.

  \<^bold>\<open>Not modelled.\<close> The adapters of tkrzw, gdbm, unqlite and berkeleydb,
  which forward to stores that are not in the repository, and the opening of a leveldb, rocksdb or lmdb store; client.cpp, which keeps handles; provider.cpp, which registers
  the handlers and reads the configuration; the bedrock, python and benchmark programs; the JSON
  configuration (\<open>create\<close>, \<open>config\<close>); Lua and library filters, which are arguments of the factory;
  src/src/backends/doc-mixin.cpp, a stale copy of the mixin that is not compiled. Allocation failures
  are modelled in the bulk caches and in the client's exposed buffers only. Failing system calls of
  the log backend are not modelled (except \<open>mmap\<close> of no bytes, whose exception is \<open>Undef\<close>), nor are
  files removed while they are mapped. The hash function and the bucket
  order of the unordered containers are arguments.
\<close>

end
